(* ===== verification/Models.thy ===== *)
theory Models
  imports Prelude
begin

text \<open>
  The data model: the action catalogue of \<open>hirz/risk\<close> (its YAML table and the single
  band-to-floor mapping) and the canonical data types of \<open>hirz/pipeline/models.py\<close>.
  Instants are microseconds since the epoch in UTC, the resolution of \<open>datetime\<close>.
\<close>

section \<open>Risk bands and the catalogue (hirz/risk/__init__.py)\<close>

datatype risk_band = LOW | MEDIUM | HIGH | CRITICAL

text \<open>\<open>tuple(RiskBand).index(band)\<close>: the declaration order of the enumeration.\<close>

fun band_index :: "risk_band \<Rightarrow> nat" where
  "band_index LOW = 0"
| "band_index MEDIUM = 1"
| "band_index HIGH = 2"
| "band_index CRITICAL = 3"

definition risk_bands :: "risk_band list" where
  "risk_bands = [LOW, MEDIUM, HIGH, CRITICAL]"

lemma band_index_inject: "band_index a = band_index b \<longleftrightarrow> a = b"
  by (cases a; cases b) auto

instantiation risk_band :: linorder
begin

definition less_eq_risk_band :: "risk_band \<Rightarrow> risk_band \<Rightarrow> bool" where
  "a \<le> b \<longleftrightarrow> band_index a \<le> band_index b"

definition less_risk_band :: "risk_band \<Rightarrow> risk_band \<Rightarrow> bool" where
  "a < b \<longleftrightarrow> band_index a < band_index b"

instance
  by standard (auto simp: less_eq_risk_band_def less_risk_band_def band_index_inject)

end

lemma band_le_CRITICAL [simp]: "(b :: risk_band) \<le> CRITICAL"
  by (cases b) (auto simp: less_eq_risk_band_def)

lemma LOW_le_band [simp]: "LOW \<le> (b :: risk_band)"
  by (cases b) (auto simp: less_eq_risk_band_def)

lemma risk_bands_nth [simp]: "risk_bands ! band_index b = b"
  by (cases b) (auto simp: risk_bands_def)

lemma band_index_le_3: "band_index b \<le> 3"
  by (cases b) auto

datatype floor = Floor_none | Floor_ask | Floor_never_auto

fun floor_outcome :: "risk_band \<Rightarrow> floor" where
  "floor_outcome LOW = Floor_none"
| "floor_outcome MEDIUM = Floor_none"
| "floor_outcome HIGH = Floor_ask"
| "floor_outcome CRITICAL = Floor_never_auto"

record profile =
  impact :: int
  reversibility :: string
  band :: risk_band
  freshness_seconds :: int
  consumer_actions :: "string list"

text \<open>\<open>str.isidentifier\<close> on ASCII.\<close>

definition is_alpha :: "char \<Rightarrow> bool" where
  "is_alpha c \<longleftrightarrow> c = CHR ''_'' \<or> CHR ''A'' \<le> c \<and> c \<le> CHR ''Z'' \<or> CHR ''a'' \<le> c \<and> c \<le> CHR ''z''"

definition is_digit :: "char \<Rightarrow> bool" where
  "is_digit c \<longleftrightarrow> CHR ''0'' \<le> c \<and> c \<le> CHR ''9''"

definition is_word :: "char \<Rightarrow> bool" where
  "is_word c \<longleftrightarrow> is_alpha c \<or> is_digit c"

fun isidentifier :: "string \<Rightarrow> bool" where
  "isidentifier [] = False"
| "isidentifier (c # cs) = (is_alpha c \<and> list_all is_word cs)"

definition is_space :: "char \<Rightarrow> bool" where
  "is_space c \<longleftrightarrow> c \<in> {CHR '' '', CHR 0x09, CHR 0x0A, CHR 0x0B, CHR 0x0C, CHR 0x0D,
                       CHR 0x1C, CHR 0x1D, CHR 0x1E, CHR 0x1F}"

definition strip :: "string \<Rightarrow> string" where
  "strip s = rev (dropWhile is_space (rev (dropWhile is_space s)))"

fun band_of_name :: "string \<Rightarrow> risk_band option" where
  "band_of_name s =
     (if s = ''LOW'' then Some LOW else if s = ''MEDIUM'' then Some MEDIUM
      else if s = ''HIGH'' then Some HIGH else if s = ''CRITICAL'' then Some CRITICAL
      else None)"

definition required_profile_keys :: "string set" where
  "required_profile_keys = {''impact'', ''reversibility'', ''band'', ''freshness_seconds''}"

text \<open>\<open>isinstance(a, str)\<close> together with the value.\<close>

fun as_str :: "pv \<Rightarrow> string option" where
  "as_str (PStr s) = Some s"
| "as_str _ = None"

fun as_str_list :: "pv list \<Rightarrow> string list option" where
  "as_str_list [] = Some []"
| "as_str_list (v # vs) =
     (case (as_str v, as_str_list vs) of (Some s, Some ss) \<Rightarrow> Some (s # ss) | _ \<Rightarrow> None)"

text \<open>One profile of the YAML mapping, checked in the order of the source's disjunction.\<close>

definition load_profile :: "string \<Rightarrow> pv \<Rightarrow> profile option" where
  "load_profile name v =
     (if length (split_on (CHR ''.'') name) \<noteq> 2
         \<or> \<not> list_all isidentifier (split_on (CHR ''.'') name) then None
      else case v of
        PDict d \<Rightarrow>
          (if fst ` set d - {''consumer_actions''} \<noteq> required_profile_keys then None
           else case (dict_get d ''consumer_actions'' (PList []), map_of d ''impact'',
                      map_of d ''reversibility'', map_of d ''band'',
                      map_of d ''freshness_seconds'') of
             (PList acts, Some (PInt i), Some (PStr rv), Some (PStr b), Some (PInt f)) \<Rightarrow>
               (case (as_str_list acts, band_of_name b) of
                  (Some as, Some bd) \<Rightarrow>
                    if list_all isidentifier as \<and> 1 \<le> i \<and> i \<le> 5 \<and> strip rv \<noteq> [] \<and> 0 < f
                    then Some \<lparr>impact = i, reversibility = rv, band = bd,
                               freshness_seconds = f, consumer_actions = as\<rparr>
                    else None
                | _ \<Rightarrow> None)
           | _ \<Rightarrow> None)
      | _ \<Rightarrow> None)"

definition load_catalog :: "pv \<Rightarrow> (string \<times> profile) list result" where
  "load_catalog catalog =
     (case catalog of
        PDict d \<Rightarrow>
          if d = [] then Inl ValueError
          else mapM (\<lambda>(name, v). of_opt ValueError
                 (map_option (Pair name) (load_profile name v))) d
      | _ \<Rightarrow> Inl ValueError)"

text \<open>
  The table \<open>hirz/risk/classes.yaml\<close>, entry by entry, and the YAML mapping it is read
  from: \<open>load_catalog\<close> accepts exactly that mapping and returns the table.
\<close>

definition prof :: "int \<Rightarrow> string \<Rightarrow> risk_band \<Rightarrow> int \<Rightarrow> string list \<Rightarrow> profile" where
  "prof i rv b f as = \<lparr>impact = i, reversibility = rv, band = b, freshness_seconds = f,
                        consumer_actions = as\<rparr>"

definition CLASSES :: "(string \<times> profile) list" where
  "CLASSES =
    [(''energy.optimize_cost'', prof 2 ''reversible'' LOW 300 []),
     (''energy.hvac_adjust'', prof 2 ''reversible'' LOW 300 [''set_temperature'']),
     (''energy.ev_charge'', prof 2 ''reversible'' LOW 300 [''charge_car'', ''stop_charging'']),
     (''energy.battery_dispatch'', prof 2 ''reversible'' LOW 300 [''hold_battery'']),
     (''energy.appliance_start'', prof 2 ''delayed'' MEDIUM 300 []),
     (''environment.lights'', prof 1 ''reversible'' LOW 300 [''turn_on_light'', ''turn_off_light'']),
     (''environment.comfort_profile'', prof 2 ''reversible'' LOW 300 [''apply_profile'']),
     (''environment.shades'', prof 2 ''reversible'' LOW 300 []),
     (''health.routine_reminders'', prof 1 ''reversible'' LOW 300 []),
     (''health.comfort_preferences'', prof 1 ''reversible'' LOW 300 []),
     (''health.medical_decisions'', prof 5 ''irreversible'' CRITICAL 300 []),
     (''communication.notify_member'', prof 1 ''reversible'' LOW 300 []),
     (''communication.contact_trusted_contact'', prof 1 ''reversible'' LOW 300 []),
     (''communication.contact_emergency_services'', prof 5 ''irreversible'' HIGH 300 []),
     (''security.door_unlock'', prof 5 ''irreversible (while open)'' HIGH 60 [''request_door_unlock'']),
     (''security.camera_disable'', prof 4 ''reversible with exposure window'' HIGH 60 []),
     (''security.access_code_share'', prof 5 ''irreversible'' CRITICAL 60 []),
     (''security.arm_disarm'', prof 4 ''reversible with exposure window'' HIGH 60 []),
     (''finance.transfer_money'', prof 5 ''irreversible'' CRITICAL 300 []),
     (''finance.change_payee'', prof 5 ''irreversible'' CRITICAL 300 []),
     (''finance.verify_request'', prof 1 ''reversible'' LOW 300 []),
     (''governance.pause_automation'', prof 1 ''reversible'' LOW 300 [''pause_automation'']),
     (''governance.resume_automation'', prof 1 ''reversible'' LOW 300 []),
     (''governance.record_constraint'', prof 1 ''reversible'' LOW 300 []),
     (''governance.withdraw_constraint'', prof 1 ''reversible'' LOW 300 []),
     (''governance.record_plan'', prof 1 ''reversible'' LOW 300 []),
     (''governance.approve_plan'', prof 1 ''reversible'' LOW 300 []),
     (''governance.revise_plan'', prof 1 ''reversible'' LOW 300 []),
     (''governance.cancel_plan'', prof 1 ''reversible'' LOW 300 []),
     (''governance.record_observations'', prof 1 ''reversible'' LOW 300 []),
     (''governance.refresh_plan'', prof 1 ''reversible'' LOW 300 []),
     (''governance.memory'', prof 1 ''explicit consent and versioned preference history'' LOW 300 []),
     (''governance.record_tool_request'', prof 1 ''reversible'' LOW 300 []),
     (''governance.propose_rule'', prof 1 ''reversible'' LOW 300 []),
     (''governance.request_plan'', prof 1 ''reversible'' LOW 300 []),
     (''governance.record_verification'', prof 1 ''reversible'' LOW 300 []),
     (''governance.credentials'', prof 1 ''explicit credential lifecycle'' LOW 300 []),
     (''governance.constitution'', prof 1 ''versioned household policy'' LOW 300 []),
     (''governance.contacts'', prof 1 ''archived contact history'' LOW 300 []),
     (''governance.twin'', prof 1 ''isolated simulation'' LOW 300 [])]"

fun band_name :: "risk_band \<Rightarrow> string" where
  "band_name LOW = ''LOW''"
| "band_name MEDIUM = ''MEDIUM''"
| "band_name HIGH = ''HIGH''"
| "band_name CRITICAL = ''CRITICAL''"

definition yaml_profile :: "profile \<Rightarrow> pv" where
  "yaml_profile p = PDict ([(''impact'', PInt (impact p)), (''reversibility'', PStr (reversibility p)),
     (''band'', PStr (band_name (band p))), (''freshness_seconds'', PInt (freshness_seconds p))] @
     (if consumer_actions p = [] then []
      else [(''consumer_actions'', PList (map PStr (consumer_actions p)))]))"

definition classes_yaml :: "(string \<times> pv) list" where
  "classes_yaml = map (\<lambda>(name, p). (name, yaml_profile p)) CLASSES"

definition class_names :: "string list" where
  "class_names = map fst CLASSES"

definition CONSUMER_ACTIONS :: "(string \<times> string) list" where
  "CONSUMER_ACTIONS = concat (map (\<lambda>(name, p). map (\<lambda>a. (a, name)) (consumer_actions p)) CLASSES)"


text \<open>The loader accepts the shipped table, and the profile of each class is the table's.\<close>

lemma load_catalog_classes: "load_catalog (PDict classes_yaml) = Inr CLASSES"
  by code_simp

lemma distinct_class_names: "distinct (map fst CLASSES)"
  by code_simp

section \<open>Canonical data (hirz/pipeline/models.py)\<close>

datatype role = Owner | Adult | Caregiver | Teen | Child | Guest | Unknown

definition ROLES :: "role list" where
  "ROLES = [Owner, Adult, Caregiver, Teen, Child, Guest, Unknown]"

lemma set_ROLES [simp]: "set ROLES = UNIV"
  by (auto simp: ROLES_def intro: role.exhaust)

lemma in_ROLES: "(r :: role) \<in> set ROLES"
  by simp

instance role :: finite
  by standard (metis set_ROLES List.finite_set)

fun role_name :: "role \<Rightarrow> string" where
  "role_name Owner = ''owner''"
| "role_name Adult = ''adult''"
| "role_name Caregiver = ''caregiver''"
| "role_name Teen = ''teen''"
| "role_name Child = ''child''"
| "role_name Guest = ''guest''"
| "role_name Unknown = ''unknown''"

lemma role_name_inject [simp]: "role_name a = role_name b \<longleftrightarrow> a = b"
  by (cases a; cases b) auto

datatype surface = Alexa | App | Scheduler

fun surface_name :: "surface \<Rightarrow> string" where
  "surface_name Alexa = ''alexa''"
| "surface_name App = ''app''"
| "surface_name Scheduler = ''scheduler''"

lemma surface_name_inject [simp]: "surface_name a = surface_name b \<longleftrightarrow> a = b"
  by (cases a; cases b) auto

datatype factor_name =
    Unknown_requester | Occupant_asleep | Guest_present | State_stale
  | Deviation_from_baseline | Scam_pattern | Outside_bounds | Scoring_error

fun factor_str :: "factor_name \<Rightarrow> string" where
  "factor_str Unknown_requester = ''unknown_requester''"
| "factor_str Occupant_asleep = ''occupant_asleep''"
| "factor_str Guest_present = ''guest_present''"
| "factor_str State_stale = ''state_stale''"
| "factor_str Deviation_from_baseline = ''deviation_from_baseline''"
| "factor_str Scam_pattern = ''scam_pattern''"
| "factor_str Outside_bounds = ''outside_bounds''"
| "factor_str Scoring_error = ''scoring_error''"

datatype effect = Plus_one_band | To_CRITICAL

text \<open>
  A risk factor and its effect. Its \<open>evidence\<close> is a sentence for people that no code reads
  back; the model keeps the list of facts the sentence is made from.
\<close>

record risk_factor =
  factor :: factor_name
  effect :: effect
  evidence :: "string list"

record risk_assessment =
  ra_band :: risk_band
  base_band :: risk_band
  factors :: "risk_factor list"

text \<open>
  \<open>zone_set\<close> says whether the optional field was given when the object was built, which
  \<open>model_dump(exclude_unset=True)\<close> shows.
\<close>

record target =
  adapter :: string
  entity :: string
  zone :: "string option"
  zone_set :: bool

record requester =
  member_id :: "string option"
  rq_role :: role
  rq_surface :: surface
  speaker :: "string option"
  claimed_author :: "string option"

record expected_effect =
  ef_entity :: string
  ef_attr :: string
  ef_value :: pv
  ef_by :: int

record inverse_action =
  inv_class :: string
  inv_target :: target
  inv_params :: pdict

record revert =
  after_s :: pv
  inverse :: inverse_action

record action =
  action_id :: string
  action_class :: string
  a_target :: target
  params :: pdict
  requested_by :: requester
  reason :: string
  plan_id :: "string option"
  scheduled_for :: "int option"
  expected_effect :: "expected_effect option"
  content_hash :: string
  a_revert :: "revert option"

text \<open>The field validator of \<open>Action\<close>: only a class of the catalogue is accepted.\<close>

definition known_class :: "string \<Rightarrow> string result" where
  "known_class c = (if c \<in> fst ` set CLASSES then Inr c else Inl ValueError)"

datatype event_type =
    DRY_RUN | PLAN_REFRESH | RESERVATION_ADJUSTED | EXECUTE | ASK_CONSTITUTION | ASK_RISK
  | ASK_BUDGET | ASK_UNRESOLVED_CONDITION | ASK_REQUESTER_CONFIRMATION | DENY_CONSTITUTION
  | DENY_RISK | DENY_BUDGET | DENY_BOUNDARY | DENY_APPROVAL_MISMATCH | DENY_APPROVAL_EXPIRED
  | DENY_APPROVAL_USED | DENY_APPROVAL_UNAUTHORIZED | VERIFY | APPROVED | REJECTED | EXPIRED
  | TWIN_CHECKPOINT | SCHEDULED | EXECUTION_HELD | EXECUTION_CANCELLED | ENDING_AUTHORIZED
  | OBSERVATIONS_RECORDED | PLAN_APPROVED | PLAN_CANCELLED | NOTICE_PENDING
  | EXECUTION_ATTEMPTED | EXECUTED | VERIFIED | VERIFY_FAILED | ROLLED_BACK
  | CONSTRAINT_RECORDED | CONSTRAINT_WITHDRAWN | PLAN_CREATED | PLAN_REVISED
  | CONSTITUTION_PROPOSED | CONSTITUTION_ACTIVATED | POLICY_PUBLICATION | POLICY_ERROR
  | ADAPTER_ERROR | LINK_REJECTED | OUT_OF_BAND_CHANGE | AUTONOMY_PAUSED | AUTONOMY_RESUMED
  | AUDIT_ANCHORED | MEMORY_PROPOSED | MEMORY_ACCEPTED | MEMORY_REJECTED

text \<open>The trusted result of authentication (\<open>Principal\<close>).\<close>

record principal =
  provider :: string
  sub :: string
  p_surface :: surface
  claimed_role :: "role option"
  requester_confirmed :: bool
  passkey_verified :: bool
  verified_action_hash :: "string option"
  credential_id :: "string option"

definition governance_class :: "string \<Rightarrow> bool" where
  "governance_class n \<longleftrightarrow> starts_with ''governance.'' n"

definition security_class :: "string \<Rightarrow> bool" where
  "security_class n \<longleftrightarrow> starts_with ''security.'' n"

lemma class_prefix_disjoint: "\<not> (governance_class n \<and> security_class n)"
  by (cases n) (auto simp: governance_class_def security_class_def starts_with_def)

end
