(* ===== verification/Times.thy ===== *)
theory Times
  imports Models
begin

text \<open>
  Instants and civil time. An aware \<open>datetime\<close> is its instant in microseconds UTC; a local
  wall-clock reading is the instant plus the zone's offset, which comes from the zone database
  and is a parameter where it is used. \<open>fromisoformat\<close> reads the extended calendar format
  (\<open>YYYY-MM-DD\<close>, a separator, \<open>HH[:MM[:SS[.f]]]\<close>, an optional offset), the format every
  producer in the code base writes.
\<close>

section \<open>Civil dates\<close>

definition days_from_civil :: "int \<Rightarrow> int \<Rightarrow> int \<Rightarrow> int" where
  "days_from_civil y m d =
     (let y' = (if m \<le> 2 then y - 1 else y);
          era = y' div 400; yoe = y' - era * 400;
          doy = (153 * (if m > 2 then m - 3 else m + 9) + 2) div 5 + d - 1;
          doe = yoe * 365 + yoe div 4 - yoe div 100 + doy
      in era * 146097 + doe - 719468)"

definition leap_year :: "int \<Rightarrow> bool" where
  "leap_year y \<longleftrightarrow> y mod 4 = 0 \<and> (y mod 100 \<noteq> 0 \<or> y mod 400 = 0)"

definition days_in_month :: "int \<Rightarrow> int \<Rightarrow> int" where
  "days_in_month y m =
     (if m = 2 then (if leap_year y then 29 else 28)
      else if m \<in> {4, 6, 9, 11} then 30 else 31)"

definition valid_date :: "int \<Rightarrow> int \<Rightarrow> int \<Rightarrow> bool" where
  "valid_date y m d \<longleftrightarrow> 1 \<le> y \<and> y \<le> 9999 \<and> 1 \<le> m \<and> m \<le> 12 \<and> 1 \<le> d \<and> d \<le> days_in_month y m"

definition us_per_second :: int where "us_per_second = 1000000"
definition us_per_minute :: int where "us_per_minute = 60 * us_per_second"
definition us_per_day :: int where "us_per_day = 86400 * us_per_second"

lemmas us_defs = us_per_second_def us_per_minute_def us_per_day_def

text \<open>\<open>weekday()\<close>, Monday 0; the epoch was a Thursday.\<close>

definition weekday :: "int \<Rightarrow> int" where
  "weekday local = (local div us_per_day + 3) mod 7"

text \<open>Minutes since local midnight, what \<open>strftime("%H:%M")\<close> spells.\<close>

definition minute_of_day :: "int \<Rightarrow> int" where
  "minute_of_day local = (local mod us_per_day) div us_per_minute"

definition hour_of_day :: "int \<Rightarrow> int" where
  "hour_of_day local = minute_of_day local div 60"

lemma weekday_range: "0 \<le> weekday l \<and> weekday l < 7"
  by (simp add: weekday_def)

lemma minute_of_day_range: "0 \<le> minute_of_day l \<and> minute_of_day l < 1440"
proof -
  have lo: "0 \<le> l mod us_per_day" and hi: "l mod us_per_day < us_per_day"
    by (simp_all add: us_defs)
  have "0 \<le> (l mod us_per_day) div us_per_minute"
    using lo by (simp add: us_defs pos_imp_zdiv_nonneg_iff)
  moreover have "(l mod us_per_day) div us_per_minute < 1440"
    using hi by (simp add: us_defs)
  ultimately show ?thesis by (simp add: minute_of_day_def)
qed

lemma weekday_previous: "weekday (l - us_per_day) = (weekday l + 6) mod 7"
proof -
  have "(l - us_per_day) div us_per_day = l div us_per_day - 1"
    using div_mult_self1 [of us_per_day l "-1"] by (simp add: us_defs)
  then have "weekday (l - us_per_day) = (l div us_per_day + 2) mod 7"
    by (simp add: weekday_def add.commute)
  moreover have "(q + 2) mod 7 = ((q + 3) mod 7 + 6) mod 7" for q :: int
    using mod_add_left_eq [of "q + 3" 7 6] mod_add_self2 [of "q + 2" 7] by (simp add: ac_simps)
  ultimately show ?thesis by (simp add: weekday_def)
qed

lemma minute_of_day_previous: "minute_of_day (l - us_per_day) = minute_of_day l"
  by (simp add: minute_of_day_def us_defs mod_diff_right_eq [symmetric])

section \<open>Reading ISO timestamps\<close>

definition digit_val :: "char \<Rightarrow> int" where
  "digit_val c = int (of_char c) - 48"

definition digits_val :: "string \<Rightarrow> int" where
  "digits_val s = foldl (\<lambda>n c. 10 * n + digit_val c) 0 s"

text \<open>Exactly \<open>n\<close> digits.\<close>

definition read_digits :: "nat \<Rightarrow> string \<Rightarrow> (int \<times> string) option" where
  "read_digits n s =
     (if length (take n s) = n \<and> list_all is_digit (take n s)
      then Some (digits_val (take n s), drop n s) else None)"

text \<open>A separator followed by exactly \<open>n\<close> digits.\<close>

definition read_field :: "char \<Rightarrow> nat \<Rightarrow> string \<Rightarrow> (int \<times> string) option" where
  "read_field c n s = (case s of [] \<Rightarrow> None | x # xs \<Rightarrow> if x = c then read_digits n xs else None)"

text \<open>The fraction: at least one digit, cut to microseconds.\<close>

definition read_fraction :: "string \<Rightarrow> (int \<times> string) option" where
  "read_fraction s =
     (let ds = takeWhile is_digit s in
      if ds = [] then None
      else Some (digits_val (take 6 (ds @ replicate 6 (CHR ''0''))), dropWhile is_digit s))"

text \<open>\<open>HH[:MM[:SS[.f]]]\<close> in microseconds.\<close>

definition read_time :: "string \<Rightarrow> (int \<times> string) option" where
  "read_time s =
     (case read_digits 2 s of
        None \<Rightarrow> None
      | Some (h, r1) \<Rightarrow>
          if \<not> h < 24 then None
          else case r1 of
            c # _ \<Rightarrow>
              if c \<noteq> CHR '':'' then Some (h * 60 * us_per_minute, r1)
              else (case read_field (CHR '':'') 2 r1 of
                None \<Rightarrow> None
              | Some (m, r2) \<Rightarrow>
                  if \<not> m < 60 then None
                  else (case r2 of
                    c # _ \<Rightarrow>
                      if c \<noteq> CHR '':'' then Some ((h * 60 + m) * us_per_minute, r2)
                      else (case read_field (CHR '':'') 2 r2 of
                        None \<Rightarrow> None
                      | Some (sec, r3) \<Rightarrow>
                          if \<not> sec < 60 then None
                          else (case r3 of
                            c # r4 \<Rightarrow>
                              if c = CHR ''.'' \<or> c = CHR '',''
                              then map_option (\<lambda>(f, r). ((h * 60 + m) * us_per_minute
                                     + sec * us_per_second + f, r)) (read_fraction r4)
                              else Some ((h * 60 + m) * us_per_minute + sec * us_per_second, r3)
                          | [] \<Rightarrow> Some ((h * 60 + m) * us_per_minute + sec * us_per_second, [])))
                  | [] \<Rightarrow> Some ((h * 60 + m) * us_per_minute, [])))
          | [] \<Rightarrow> Some (h * 60 * us_per_minute, []))"

text \<open>The offset suffix: absent (a naive time), \<open>Z\<close>, or a signed time of less than a day.\<close>

definition read_offset :: "string \<Rightarrow> int option option" where
  "read_offset s =
     (case s of
        [] \<Rightarrow> Some None
      | c # r \<Rightarrow>
          if c = CHR ''Z'' then (if r = [] then Some (Some 0) else None)
          else if c = CHR ''+'' \<or> c = CHR ''-'' then
            (case read_time r of
               Some (t, []) \<Rightarrow> Some (Some (if c = CHR ''-'' then - t else t))
             | _ \<Rightarrow> None)
          else None)"

text \<open>
  The instant and whether the reading is aware; a naive reading has no instant that
  comparisons may use.
\<close>

definition fromisoformat :: "string \<Rightarrow> (int \<times> bool) option" where
  "fromisoformat s =
     (case read_digits 4 s of
        None \<Rightarrow> None
      | Some (y, r1) \<Rightarrow> (case read_field (CHR ''-'') 2 r1 of
        None \<Rightarrow> None
      | Some (m, r2) \<Rightarrow> (case read_field (CHR ''-'') 2 r2 of
        None \<Rightarrow> None
      | Some (d, r3) \<Rightarrow>
          if \<not> valid_date y m d then None
          else let day = days_from_civil y m d * us_per_day in
            (case r3 of
               [] \<Rightarrow> Some (day, False)
             | _ # r4 \<Rightarrow> (case read_time r4 of
                 None \<Rightarrow> None
               | Some (t, r5) \<Rightarrow> (case read_offset r5 of
                   None \<Rightarrow> None
                 | Some None \<Rightarrow> Some (day + t, False)
                 | Some (Some off) \<Rightarrow> Some (day + t - off, True)))))))"

lemma fromisoformat_example:
  "fromisoformat ''2026-10-13T17:35:00-05:00'' = Some (1791930900000000, True)"
  by code_simp

end
