(* ===== verification/Conditions.thy ===== *)
theory Conditions
  imports Times
begin

text \<open>
  The condition language of \<open>hirz/constitution/conditions.py\<close>: the typed attribute table,
  Cedar-compatible numbers, the tokenizer and recursive-descent parser, and evaluation with its
  whole-expression preflight. The theorems show that parsing is total and yields only
  well-typed conditions, and that a well-typed condition evaluates to a Boolean or to a
  \<open>FactError\<close> that names the unresolved paths, never to another exception.
\<close>

section \<open>Attributes and typed values\<close>

datatype kind = K_number | K_string | K_bool | K_time | K_strings

definition ATTRIBUTES :: "(string \<times> kind) list" where
  "ATTRIBUTES =
    [(''context.hour'', K_number), (''context.weekday'', K_string), (''context.time'', K_time),
     (''context.is_quiet_hours'', K_bool), (''context.price_band'', K_string),
     (''context.unexpected_visitor'', K_bool), (''occupancy.sleeping_any'', K_bool),
     (''occupancy.present_members'', K_strings), (''action.class'', K_string),
     (''action.target.adapter'', K_string), (''action.target.entity'', K_string),
     (''action.target.zone'', K_string), (''requester.role'', K_string),
     (''requester.member_id'', K_string), (''requester.claimed_role'', K_string),
     (''requester.surface'', K_string), (''asset.policy.needed_by'', K_string),
     (''asset.policy.soc_min'', K_number), (''risk.band'', K_string), (''risk.factors'', K_strings),
     (''household.budget_used_today'', K_number),
     (''action.params.target_f'', K_number), (''action.params.ev_soc_floor'', K_number),
     (''action.params.open_minutes'', K_number), (''action.params.minutes'', K_number),
     (''action.params.soc'', K_number), (''action.params.power_kw'', K_number),
     (''action.params.mode'', K_string), (''action.params.needed_by'', K_string),
     (''action.params.operation'', K_string), (''action.params.member_id'', K_string),
     (''asset.state.soc'', K_number), (''asset.state.temp_f'', K_number),
     (''asset.state.target_f'', K_number), (''asset.state.power_kw'', K_number),
     (''asset.state.recovery_score'', K_number), (''asset.state.present'', K_bool),
     (''asset.state.sleeping'', K_bool), (''asset.state.plugged_in'', K_bool),
     (''asset.state.available'', K_bool), (''asset.state.locked'', K_bool),
     (''asset.state.on'', K_bool), (''asset.state.zone_id'', K_string)]"

definition attr_kind :: "string \<Rightarrow> kind option" where
  "attr_kind p = map_of ATTRIBUTES p"

definition FUNCTIONS :: "(string \<times> nat) list" where
  "FUNCTIONS = [(''occupancy.present'', 1), (''occupancy.sleeping_in'', 1),
                (''schedule.expected_within'', 2)]"

text \<open>
  \<open>Decimal(str(x))\<close>: surrounding blanks and underscores are dropped, then sign, digits with an
  optional point, optional exponent. \<open>None\<close> stands for \<open>InvalidOperation\<close> and for the
  spellings of infinity and NaN, all of which \<open>number\<close> turns into the same \<open>ValueError\<close>.
\<close>

definition read_exponent :: "string \<Rightarrow> int option" where
  "read_exponent s =
     (case s of
        [] \<Rightarrow> Some 0
      | e # r \<Rightarrow>
          if e \<noteq> CHR ''e'' \<and> e \<noteq> CHR ''E'' then None
          else let neg = (r \<noteq> [] \<and> hd r = CHR ''-'');
                   ds = (if r \<noteq> [] \<and> (hd r = CHR ''-'' \<or> hd r = CHR ''+'') then tl r else r)
               in if ds = [] \<or> \<not> list_all is_digit ds then None
                  else Some (if neg then - digits_val ds else digits_val ds))"

definition decimal_of_string :: "string \<Rightarrow> dec option" where
  "decimal_of_string s =
     (let t = filter (\<lambda>c. c \<noteq> CHR ''_'') (strip s);
          neg = (t \<noteq> [] \<and> hd t = CHR ''-'');
          u = (if t \<noteq> [] \<and> (hd t = CHR ''-'' \<or> hd t = CHR ''+'') then tl t else t);
          ip = takeWhile is_digit u; r = dropWhile is_digit u;
          point = (r \<noteq> [] \<and> hd r = CHR ''.'');
          fp = (if point then takeWhile is_digit (tl r) else []);
          r' = (if point then dropWhile is_digit (tl r) else r);
          n = digits_val (ip @ fp)
      in if ip = [] \<and> fp = [] then None
         else map_option (\<lambda>e. Dec (if neg then - n else n) (e - int (length fp)))
                (read_exponent r'))"

text \<open>
  Cedar's decimal: a signed 64-bit integer in units of one ten-thousandth. A number that
  \<open>number\<close> accepts is modelled by that integer, so comparisons are exact.
\<close>

definition cedar_scale :: int where "cedar_scale = 10000"
definition cedar_min :: int where "cedar_min = -9223372036854775808"
definition cedar_max :: int where "cedar_max = 9223372036854775807"

fun cedar_fixed :: "dec \<Rightarrow> int option" where
  "cedar_fixed (Dec c e) =
     (if e < -4 then None
      else let v = c * 10 ^ nat (e + 4)
           in if cedar_min \<le> v \<and> v \<le> cedar_max then Some v else None)"

fun number :: "pv \<Rightarrow> int result" where
  "number (PStr s) = of_opt ValueError (Option.bind (decimal_of_string s) cedar_fixed)"
| "number (PInt n) = of_opt ValueError (cedar_fixed (Dec n 0))"
| "number (PFloat (FFin d)) = of_opt ValueError (cedar_fixed d)"
| "number (PDec d) = of_opt ValueError (cedar_fixed d)"
| "number _ = Inl ValueError"

datatype val = VNum int | VStr string | VBool bool | VMin int | VStrs "string list"

text \<open>\<open>TIME.fullmatch\<close>: \<open>HH:MM\<close>.\<close>

fun time_match :: "string \<Rightarrow> bool" where
  "time_match [a, b, c, d, e] =
     ((a \<in> {CHR ''0'', CHR ''1''} \<and> is_digit b \<or> a = CHR ''2'' \<and> CHR ''0'' \<le> b \<and> b \<le> CHR ''3'')
      \<and> c = CHR '':'' \<and> CHR ''0'' \<le> d \<and> d \<le> CHR ''5'' \<and> is_digit e)"
| "time_match _ = False"

definition time_minutes :: "string \<Rightarrow> int" where
  "time_minutes s = digits_val (take 2 s) * 60 + digits_val (drop 3 s)"

fun typed :: "pv \<Rightarrow> kind \<Rightarrow> val result" where
  "typed v K_number = rbind (number v) (\<lambda>n. Inr (VNum n))"
| "typed (PBool b) K_bool = Inr (VBool b)"
| "typed (PStr s) K_string = Inr (VStr s)"
| "typed (PStr s) K_time = (if time_match s then Inr (VMin (time_minutes s)) else Inl ValueError)"
| "typed (PList vs) K_strings = of_opt ValueError (map_option VStrs (as_str_list vs))"
| "typed _ _ = Inl ValueError"

fun val_kind :: "val \<Rightarrow> kind" where
  "val_kind (VNum _) = K_number"
| "val_kind (VStr _) = K_string"
| "val_kind (VBool _) = K_bool"
| "val_kind (VMin _) = K_time"
| "val_kind (VStrs _) = K_strings"

lemma typed_kind: "typed v k = Inr x \<Longrightarrow> val_kind x = k"
  by (induction v k rule: typed.induct) (auto simp: rbind_Inr_iff split: if_splits)

lemma typed_error: "typed v k = Inl e \<Longrightarrow> e = ValueError"
proof (induction v k rule: typed.induct)
  case (1 v)
  then show ?case
    by (cases v rule: number.cases) (auto simp: rbind_Inl_iff)
qed (auto split: if_splits)

lemma number_range: "number v = Inr n \<Longrightarrow> cedar_min \<le> n \<and> n \<le> cedar_max"
proof -
  have *: "cedar_fixed d = Some n \<Longrightarrow> cedar_min \<le> n \<and> n \<le> cedar_max" for d
    by (cases d) (auto simp: Let_def split: if_splits)
  show "number v = Inr n \<Longrightarrow> cedar_min \<le> n \<and> n \<le> cedar_max"
    by (cases v rule: number.cases) (auto simp: bind_eq_Some_conv simp del: cedar_fixed.simps dest: *)
qed

section \<open>Syntax trees\<close>

text \<open>
  \<open>Node(kind, value, children)\<close> with one constructor per kind. A literal is the value the
  parser stored: a string, a Boolean or an accepted number.
\<close>

datatype lit = LStr string | LBool bool | LNum int

datatype cop = Eq | Neq | Lt | Le | Gt | Ge

datatype node =
    NAttr string
  | NLit lit
  | NCall string "node list"
  | NNot node
  | NAnd node node
  | NOr node node
  | NSet node
  | NUnset node
  | NIn node "node list"
  | NCmp cop node node

fun walk :: "node \<Rightarrow> node list" where
  "walk (NAttr p) = [NAttr p]"
| "walk (NLit l) = [NLit l]"
| "walk (NCall f args) = NCall f args # concat (map walk args)"
| "walk (NNot n) = NNot n # walk n"
| "walk (NAnd a b) = NAnd a b # walk a @ walk b"
| "walk (NOr a b) = NOr a b # walk a @ walk b"
| "walk (NSet a) = NSet a # walk a"
| "walk (NUnset a) = NUnset a # walk a"
| "walk (NIn a args) = NIn a args # walk a @ concat (map walk args)"
| "walk (NCmp c a b) = NCmp c a b # walk a @ walk b"

fun children :: "node \<Rightarrow> node list" where
  "children (NAttr p) = []"
| "children (NLit l) = []"
| "children (NCall f args) = args"
| "children (NNot n) = [n]"
| "children (NAnd a b) = [a, b]"
| "children (NOr a b) = [a, b]"
| "children (NSet a) = [a]"
| "children (NUnset a) = [a]"
| "children (NIn a args) = a # args"
| "children (NCmp c a b) = [a, b]"

fun lit_pv :: "lit \<Rightarrow> pv" where
  "lit_pv (LStr s) = PStr s"
| "lit_pv (LBool b) = PBool b"
| "lit_pv (LNum n) = PDec (Dec n (-4))"

section \<open>Tokens\<close>

definition lex_op2 :: "string \<Rightarrow> (string \<times> string) option" where
  "lex_op2 s = (if take 2 s \<in> {''>='', ''<='', ''=='', ''!=''} then Some (take 2 s, drop 2 s) else None)"

definition lex_op1 :: "string \<Rightarrow> (string \<times> string) option" where
  "lex_op1 s = (case s of c # r \<Rightarrow> if c \<in> set ''<>()[],'' then Some ([c], r) else None | [] \<Rightarrow> None)"

definition lex_time :: "string \<Rightarrow> (string \<times> string) option" where
  "lex_time s = (if time_match (take 5 s) then Some (take 5 s, drop 5 s) else None)"

definition lex_number :: "string \<Rightarrow> (string \<times> string) option" where
  "lex_number s =
     (let sg = (if s \<noteq> [] \<and> hd s = CHR ''-'' then ''-'' else []);
          u = drop (length sg) s;
          ip = takeWhile is_digit u; r = dropWhile is_digit u
      in if ip = [] then None
         else if r \<noteq> [] \<and> hd r = CHR ''.'' \<and> takeWhile is_digit (tl r) \<noteq> []
              then Some (sg @ ip @ ''.'' @ takeWhile is_digit (tl r), dropWhile is_digit (tl r))
              else Some (sg @ ip, r))"

text \<open>The body of a quoted string up to the closing quote; a backslash takes the next character.\<close>

fun lex_quoted :: "char \<Rightarrow> string \<Rightarrow> (string \<times> string) option" where
  "lex_quoted q [] = None"
| "lex_quoted q (c # r) =
     (if c = q then Some ([c], r)
      else if c = CHR 0x5C then
        (case r of
           [] \<Rightarrow> None
         | d # r' \<Rightarrow> if d = CHR 0x0A then None
                    else map_option (\<lambda>(b, rest). (c # d # b, rest)) (lex_quoted q r'))
      else map_option (\<lambda>(b, rest). (c # b, rest)) (lex_quoted q r))"

definition lex_string :: "char \<Rightarrow> string \<Rightarrow> (string \<times> string) option" where
  "lex_string q s =
     (case s of c # r \<Rightarrow> if c = q then map_option (\<lambda>(b, rest). (c # b, rest)) (lex_quoted q r) else None
      | [] \<Rightarrow> None)"

text \<open>A dotted identifier: after a part, a point continues it only before a letter.\<close>

fun lex_dotted :: "nat \<Rightarrow> string \<Rightarrow> string \<times> string" where
  "lex_dotted 0 s = ([], s)"
| "lex_dotted (Suc k) s =
     (let w = takeWhile is_word s; r = dropWhile is_word s
      in case r of
           p # c # r' \<Rightarrow>
             if p = CHR ''.'' \<and> is_alpha c
             then (let (b, rest) = lex_dotted k (c # r') in (w @ p # b, rest)) else (w, r)
         | _ \<Rightarrow> (w, r))"

definition lex_ident :: "string \<Rightarrow> (string \<times> string) option" where
  "lex_ident s = (if s \<noteq> [] \<and> is_alpha (hd s) then Some (lex_dotted (length s) s) else None)"

definition first_some :: "('a \<Rightarrow> 'b option) list \<Rightarrow> 'a \<Rightarrow> 'b option" where
  "first_some fs x = foldr (\<lambda>f r. case f x of None \<Rightarrow> r | Some y \<Rightarrow> Some y) fs None"

text \<open>\<open>TOKEN.match(source, pos)\<close>: the alternatives in the order of the pattern.\<close>

definition lex_token :: "string \<Rightarrow> (string \<times> string) option" where
  "lex_token s =
     first_some [lex_op2, lex_op1, lex_time, lex_number, lex_string (CHR 0x22),
                 lex_string (CHR 0x27), lex_ident] (dropWhile is_space s)"

text \<open>Every token takes at least one character, so the tokenizer's loop ends.\<close>

lemma lex_quoted_shorter: "lex_quoted q s = Some (b, r) \<Longrightarrow> length r < length s"
proof (induction q s arbitrary: b r rule: lex_quoted.induct)
  case (2 q c s)
  show ?case
  proof (cases "c = q")
    case True
    with 2(3) show ?thesis by simp
  next
    case neq: False
    show ?thesis
    proof (cases "c = CHR 0x5C")
      case True
      with neq 2(3) 2(1) show ?thesis
        by (auto split: list.splits if_splits) force
    next
      case False
      with neq 2(3) 2(2) show ?thesis by auto
    qed
  qed
qed simp

lemma lex_dotted_shorter: "length (snd (lex_dotted k s)) \<le> length s"
proof (induction k s rule: lex_dotted.induct)
  case (2 k s)
  have len: "length (dropWhile is_word s) \<le> length s" by (rule length_dropWhile_le)
  show ?case
    using 2 len by (auto simp: Let_def split: list.splits prod.splits) fastforce
qed simp

lemma lex_ident_shorter: "lex_ident s = Some (t, r) \<Longrightarrow> length r < length s"
proof -
  assume a: "lex_ident s = Some (t, r)"
  then obtain c cs where s: "s = c # cs" and c: "is_alpha c"
    by (cases s) (auto simp: lex_ident_def split: if_splits)
  have w: "is_word c" using c by (simp add: is_word_def)
  have "length (snd (lex_dotted (length s) s)) < length s"
  proof -
    have d: "length (dropWhile is_word s) < length s"
      using w s le_imp_less_Suc [OF length_dropWhile_le [of is_word cs]] by simp
    have "length (snd (lex_dotted (Suc (length cs)) s)) \<le> length (dropWhile is_word s)"
    proof -
      have "length (snd (lex_dotted k (x # ys))) \<le> Suc (length ys)" for k x ys
        using lex_dotted_shorter [of k "x # ys"] by simp
      then show ?thesis
        by (auto simp: Let_def split: list.splits prod.splits) (metis le_SucI snd_conv)
    qed
    with d s show ?thesis by simp
  qed
  with a show ?thesis by (auto simp: lex_ident_def split: if_splits)
qed

lemma lex_number_shorter: "lex_number s = Some (t, r) \<Longrightarrow> length r < length s"
proof -
  assume a: "lex_number s = Some (t, r)"
  define u where "u = drop (length (if s \<noteq> [] \<and> hd s = CHR ''-'' then ''-'' else [])) s"
  have u: "length u \<le> length s" by (simp add: u_def)
  have ne: "takeWhile is_digit u \<noteq> []"
    using a by (auto simp: lex_number_def Let_def u_def split: if_splits)
  have "length (takeWhile is_digit u) + length (dropWhile is_digit u) = length u"
    by (metis length_append takeWhile_dropWhile_id)
  with ne have d: "length (dropWhile is_digit u) < length u" by (cases "takeWhile is_digit u") auto
  have "r = dropWhile is_digit u \<or> r = dropWhile is_digit (tl (dropWhile is_digit u))"
    using a by (auto simp: lex_number_def Let_def u_def split: if_splits)
  moreover have "length (dropWhile is_digit (tl (dropWhile is_digit u))) \<le> length (dropWhile is_digit u)"
    by (metis diff_le_self le_trans length_dropWhile_le length_tl)
  ultimately show ?thesis using d u by auto
qed

lemma lex_token_shorter: "lex_token s = Some (t, r) \<Longrightarrow> length r < length s"
proof -
  assume a: "lex_token s = Some (t, r)"
  let ?s = "dropWhile is_space s"
  have "length r < length ?s"
  proof -
    have 1: "lex_op2 ?s = Some (t, r) \<Longrightarrow> length r < length ?s"
      by (cases ?s) (auto simp: lex_op2_def split: if_splits)
    have 2: "lex_op1 ?s = Some (t, r) \<Longrightarrow> length r < length ?s"
      by (auto simp: lex_op1_def split: list.splits if_splits)
    have 3: "lex_time ?s = Some (t, r) \<Longrightarrow> length r < length ?s"
      by (cases ?s) (auto simp: lex_time_def split: if_splits)
    have 4: "lex_string q ?s = Some (t, r) \<Longrightarrow> length r < length ?s" for q
      by (auto simp: lex_string_def split: list.splits if_splits dest: lex_quoted_shorter)
    show ?thesis
      using a 1 2 3 4 lex_number_shorter lex_ident_shorter
      unfolding lex_token_def first_some_def
      by (simp split: option.splits)
  qed
  then show ?thesis
    using length_dropWhile_le [of is_space s] by linarith
qed

function tokenize :: "string \<Rightarrow> string list result" where
  "tokenize s =
     (if s = [] then Inr []
      else case lex_token s of
             None \<Rightarrow> Inl ValueError
           | Some (t, r) \<Rightarrow> rbind (tokenize r) (\<lambda>ts. Inr (t # ts)))"
  by pat_completeness auto
termination
  by (relation "measure length") (auto dest: lex_token_shorter)

declare tokenize.simps [simp del]

text \<open>\<open>Parser.__init__\<close>: the source is stripped, limited in length and cut into tokens.\<close>

definition parser_init :: "string \<Rightarrow> string list result" where
  "parser_init source =
     (let s = strip source in if length s > 4096 then Inl ValueError else tokenize s)"

section \<open>String literals\<close>

fun hex_val :: "char \<Rightarrow> int option" where
  "hex_val c =
     (if is_digit c then Some (digit_val c)
      else if CHR ''a'' \<le> c \<and> c \<le> CHR ''f'' then Some (int (of_char c) - 87)
      else if CHR ''A'' \<le> c \<and> c \<le> CHR ''F'' then Some (int (of_char c) - 55)
      else None)"

text \<open>A fixed number of hexadecimal digits naming a character of the model's alphabet.\<close>

definition hex_char :: "nat \<Rightarrow> string \<Rightarrow> char option" where
  "hex_char n s =
     (if length (take n s) = n \<and> list_all (\<lambda>c. hex_val c \<noteq> None) (take n s)
      then let v = foldl (\<lambda>v c. 16 * v + the (hex_val c)) 0 (take n s)
           in if v < 256 then Some (char_of (nat v)) else None
      else None)"

definition is_octal :: "char \<Rightarrow> bool" where
  "is_octal c \<longleftrightarrow> CHR ''0'' \<le> c \<and> c \<le> CHR ''7''"

definition simple_escape :: "char \<Rightarrow> char option" where
  "simple_escape c = map_of
     [(CHR 0x5C, CHR 0x5C), (CHR 0x27, CHR 0x27), (CHR 0x22, CHR 0x22), (CHR ''a'', CHR 0x07),
      (CHR ''b'', CHR 0x08), (CHR ''f'', CHR 0x0C), (CHR ''n'', CHR 0x0A), (CHR ''r'', CHR 0x0D),
      (CHR ''t'', CHR 0x09), (CHR ''v'', CHR 0x0B)] c"

text \<open>
  Python's escape processing; an unknown escape keeps its backslash, a named character
  \<open>\N{...}\<close> or a code point above 255 has no character here.
\<close>

fun unescape :: "string \<Rightarrow> string option" where
  "unescape [] = Some []"
| "unescape (c # r) =
     (if c \<noteq> CHR 0x5C then map_option (Cons c) (unescape r)
      else case r of
        [] \<Rightarrow> None
      | d # r' \<Rightarrow>
          (case simple_escape d of
             Some e \<Rightarrow> map_option (Cons e) (unescape r')
           | None \<Rightarrow>
               if d = CHR ''x'' then (case hex_char 2 r' of None \<Rightarrow> None | Some e \<Rightarrow> map_option (Cons e) (unescape (drop 2 r')))
               else if d = CHR ''u'' then (case hex_char 4 r' of None \<Rightarrow> None | Some e \<Rightarrow> map_option (Cons e) (unescape (drop 4 r')))
               else if d = CHR ''U'' then (case hex_char 8 r' of None \<Rightarrow> None | Some e \<Rightarrow> map_option (Cons e) (unescape (drop 8 r')))
               else if d = CHR ''N'' then None
               else if is_octal d then
                 (let ds = takeWhile is_octal (take 3 r); v = foldl (\<lambda>v c. 8 * v + digit_val c) 0 ds
                  in if v < 256 then map_option (Cons (char_of (nat v))) (unescape (drop (length ds - 1) r'))
                     else None)
               else map_option (\<lambda>t. c # d # t) (unescape r')))"

text \<open>\<open>ast.literal_eval\<close> of a quoted token: no raw line break or NUL inside the quotes.\<close>

definition literal_eval :: "string \<Rightarrow> string option" where
  "literal_eval t =
     (let body = butlast (tl t)
      in if list_ex (\<lambda>c. c \<in> {CHR 0x00, CHR 0x0A, CHR 0x0D}) body then None else unescape body)"

section \<open>The parser\<close>

definition parse_argument :: "string \<Rightarrow> node result" where
  "parse_argument t =
     (if time_match t then Inr (NLit (LStr t))
      else if attr_kind t \<noteq> None then Inr (NAttr t)
      else if t \<noteq> [] \<and> (hd t = CHR 0x27 \<or> hd t = CHR 0x22)
           then of_opt ValueError (map_option (\<lambda>s. NLit (LStr s)) (literal_eval t))
      else if t = ''true'' \<or> t = ''false'' then Inr (NLit (LBool (t = ''true'')))
      else (case number (PStr t) of Inl _ \<Rightarrow> Inl ValueError | Inr n \<Rightarrow> Inr (NLit (LNum n))))"

text \<open>\<open>argument\<close> pops one token; a list of arguments is separated by commas.\<close>

fun parse_arguments :: "string list \<Rightarrow> (node list \<times> string list) result" where
  "parse_arguments [] = Inl ValueError"
| "parse_arguments [t] = rbind (parse_argument t) (\<lambda>a. Inr ([a], []))"
| "parse_arguments (t # c # rest) =
     rbind (parse_argument t) (\<lambda>a.
       if c = '','' then rbind (parse_arguments rest) (\<lambda>(as, r). Inr (a # as, r))
       else Inr ([a], c # rest))"

definition expect :: "string \<Rightarrow> string list \<Rightarrow> string list result" where
  "expect t ts = (case ts of x # r \<Rightarrow> if x = t then Inr r else Inl ValueError | [] \<Rightarrow> Inl ValueError)"

text \<open>The type of the i-th argument of a predicate: the second is a number, the others strings.\<close>

definition argument_ok :: "kind \<Rightarrow> node \<Rightarrow> bool" where
  "argument_ok k a =
     (case a of
        NAttr p \<Rightarrow> attr_kind p = Some k
      | NLit l \<Rightarrow> (case typed (lit_pv l) k of Inr _ \<Rightarrow> True | Inl _ \<Rightarrow> False)
      | _ \<Rightarrow> False)"

definition arguments_ok :: "node list \<Rightarrow> bool" where
  "arguments_ok args =
     list_all (\<lambda>(i, a). argument_ok (if i = 1 then K_number else K_string) a) (enumerate 0 args)"

definition negative_horizon :: "node list \<Rightarrow> bool" where
  "negative_horizon args = (case args of [_, NLit (LNum n)] \<Rightarrow> n < 0 | _ \<Rightarrow> False)"

definition parse_call :: "string \<Rightarrow> string list \<Rightarrow> (node \<times> string list) result" where
  "parse_call fn ts =
     rbind (expect ''('' ts) (\<lambda>ts1.
     rbind (parse_arguments ts1) (\<lambda>(args, ts2).
     rbind (expect '')'' ts2) (\<lambda>ts3.
       if map_of FUNCTIONS fn \<noteq> Some (length args) then Inl ValueError
       else if \<not> arguments_ok args then Inl ValueError
       else if negative_horizon args then Inl ValueError
       else Inr (NCall fn args, ts3))))"

definition cop_of :: "string \<Rightarrow> cop option" where
  "cop_of s = map_of [(''=='', Eq), (''!='', Neq), (''<'', Lt), (''<='', Le), (''>'', Gt), (''>='', Ge)] s"

definition is_order :: "cop \<Rightarrow> bool" where
  "is_order c \<longleftrightarrow> c \<in> {Lt, Le, Gt, Ge}"

definition literal_ok :: "kind \<Rightarrow> node \<Rightarrow> bool" where
  "literal_ok k a =
     (case a of NLit l \<Rightarrow> (case typed (lit_pv l) k of Inr _ \<Rightarrow> True | Inl _ \<Rightarrow> False) | _ \<Rightarrow> False)"

text \<open>The comparison forms after an attribute.\<close>

definition parse_comparison :: "string \<Rightarrow> string list \<Rightarrow> (node \<times> string list) result" where
  "parse_comparison p ts =
     (case ts of
        [] \<Rightarrow> Inl ValueError
      | op # r \<Rightarrow>
          if op = ''is'' then
            (case r of
               n # r' \<Rightarrow> if n = ''not'' then rbind (expect ''set'' r') (\<lambda>r''. Inr (NUnset (NAttr p), r''))
                         else rbind (expect ''set'' r) (\<lambda>r''. Inr (NSet (NAttr p), r''))
             | [] \<Rightarrow> Inl ValueError)
          else if op = ''in'' then
            rbind (expect ''['' r) (\<lambda>r1. rbind (parse_arguments r1) (\<lambda>(args, r2).
            rbind (expect '']'' r2) (\<lambda>r3.
              case attr_kind p of
                None \<Rightarrow> Inl KeyError
              | Some k \<Rightarrow>
                  if k = K_strings \<or> \<not> list_all (literal_ok k) args then Inl ValueError
                  else Inr (NIn (NAttr p) args, r3))))
          else (case cop_of op of
                  None \<Rightarrow> Inl ValueError
                | Some c \<Rightarrow>
                    (case r of
                       [] \<Rightarrow> Inl ValueError
                     | t # r' \<Rightarrow> rbind (parse_argument t) (\<lambda>a.
                         case attr_kind p of
                           None \<Rightarrow> Inl KeyError
                         | Some k \<Rightarrow>
                             if k = K_strings \<or> is_order c \<and> k \<notin> {K_number, K_time} then Inl ValueError
                             else if \<not> literal_ok k a then Inl ValueError
                             else Inr (NCmp c (NAttr p) a, r')))))"

text \<open>The part of \<open>term\<close> that makes no recursive call.\<close>

definition parse_leaf :: "string list \<Rightarrow> (node \<times> string list) result" where
  "parse_leaf ts =
     (case ts of
        [] \<Rightarrow> Inl ValueError
      | t # r \<Rightarrow>
          if map_of FUNCTIONS t \<noteq> None then parse_call t r
          else rbind (parse_argument t) (\<lambda>a.
            case a of NAttr p \<Rightarrow> parse_comparison p r | _ \<Rightarrow> Inl ValueError))"

text \<open>
  \<open>boolean(op)\<close>, its loop and \<open>term\<close>. \<open>d\<close> counts the stack frames the interpreter has left
  for these calls (a frame per \<open>boolean\<close> and \<open>term\<close>, one more for the lambda that
  \<open>boolean("or")\<close> calls); running out of frames is \<open>RecursionError\<close>. The first argument is
  fuel for the definition alone: \<open>parse_enough_fuel\<close> below shows that it never runs out.
\<close>

fun parse_bool :: "nat \<Rightarrow> nat \<Rightarrow> bool \<Rightarrow> string list \<Rightarrow> (node \<times> string list) result"
and parse_child :: "nat \<Rightarrow> nat \<Rightarrow> bool \<Rightarrow> string list \<Rightarrow> (node \<times> string list) result"
and parse_loop :: "nat \<Rightarrow> nat \<Rightarrow> bool \<Rightarrow> node \<Rightarrow> string list \<Rightarrow> (node \<times> string list) result"
and parse_term :: "nat \<Rightarrow> nat \<Rightarrow> string list \<Rightarrow> (node \<times> string list) result"
where
  "parse_bool 0 d is_or ts = Inl OutOfFuel"
| "parse_bool (Suc f) d is_or ts =
     rbind (parse_child f d is_or ts) (\<lambda>(n, r). parse_loop f d is_or n r)"
| "parse_child 0 d is_or ts = Inl OutOfFuel"
| "parse_child (Suc f) d is_or ts =
     (if is_or then (if d < 2 then Inl RecursionError else parse_bool f (d - 2) False ts)
      else (if d < 1 then Inl RecursionError else parse_term f (d - 1) ts))"
| "parse_loop 0 d is_or acc ts = Inl OutOfFuel"
| "parse_loop (Suc f) d is_or acc ts =
     (case ts of
        [] \<Rightarrow> Inr (acc, [])
      | t # r \<Rightarrow>
          if t = (if is_or then ''or'' else ''and'')
          then rbind (parse_child f d is_or r) (\<lambda>(n, r').
                 parse_loop f d is_or (if is_or then NOr acc n else NAnd acc n) r')
          else Inr (acc, ts))"
| "parse_term 0 d ts = Inl OutOfFuel"
| "parse_term (Suc f) d ts =
     (case ts of
        [] \<Rightarrow> Inl ValueError
      | t # r \<Rightarrow>
          if t = ''not'' then
            (if d < 1 then Inl RecursionError
             else rbind (parse_term f (d - 1) r) (\<lambda>(n, r'). Inr (NNot n, r')))
          else if t = ''('' then
            (if d < 1 then Inl RecursionError
             else rbind (parse_bool f (d - 1) True r) (\<lambda>(n, r'). rbind (expect '')'' r') (\<lambda>r''. Inr (n, r''))))
          else parse_leaf ts)"

definition parse_fuel :: "string list \<Rightarrow> nat" where
  "parse_fuel ts = 6 * length ts + 6"

text \<open>\<open>parse\<close>: a stack overflow and any unread token are a \<open>ValueError\<close>.\<close>

definition parse :: "nat \<Rightarrow> string \<Rightarrow> node result" where
  "parse frames source =
     rbind (parser_init source) (\<lambda>ts.
       case parse_bool (parse_fuel ts) frames True ts of
         Inl e \<Rightarrow> Inl (if e = RecursionError then ValueError else e)
       | Inr (n, rest) \<Rightarrow> if rest \<noteq> [] then Inl ValueError else Inr n)"

section \<open>Facts\<close>

text \<open>\<open>PolicyFacts\<close>; \<open>freeze\<close> is the identity on immutable values.\<close>

record policy_facts =
  household :: string
  as_of :: int
  pf_values :: pdict
  member_ids :: "string list"
  zone_ids :: "string list"

fun lookup_parts :: "pv \<Rightarrow> string list \<Rightarrow> pv option" where
  "lookup_parts v [] = Some v"
| "lookup_parts v (k # ks) =
     (case v of PDict d \<Rightarrow> (case map_of d k of None \<Rightarrow> None | Some w \<Rightarrow> lookup_parts w ks) | _ \<Rightarrow> None)"

definition lookup :: "pdict \<Rightarrow> string \<Rightarrow> pv result" where
  "lookup values path =
     of_opt (FactError [path]) (lookup_parts (PDict values) (split_on (CHR ''.'') path))"

text \<open>\<open>attribute\<close>: a null stays a null, a value of the wrong type is an unresolved fact.\<close>

definition attribute :: "pdict \<Rightarrow> string \<Rightarrow> val option result" where
  "attribute values path =
     rbind (lookup values path) (\<lambda>v.
       if v = PNone then Inr None
       else case attr_kind path of
              None \<Rightarrow> Inl KeyError
            | Some k \<Rightarrow> (case typed v k of Inl _ \<Rightarrow> Inl (FactError [path]) | Inr x \<Rightarrow> Inr (Some x)))"

fun lit_val :: "lit \<Rightarrow> val" where
  "lit_val (LStr s) = VStr s"
| "lit_val (LBool b) = VBool b"
| "lit_val (LNum n) = VNum n"

section \<open>Predicates over people and schedules\<close>

fun argument_value :: "pdict \<Rightarrow> node \<Rightarrow> val option result" where
  "argument_value values (NAttr p) = attribute values p"
| "argument_value values (NLit l) = Inr (Some (lit_val l))"
| "argument_value values _ = Inr None"

definition attr_paths :: "node list \<Rightarrow> string list" where
  "attr_paths ns = concat (map (\<lambda>n. case n of NAttr p \<Rightarrow> [p] | _ \<Rightarrow> []) ns)"

definition row_get :: "pv \<Rightarrow> string \<Rightarrow> pv result" where
  "row_get row k =
     (case row of PDict d \<Rightarrow> of_opt KeyError (map_of d k) | _ \<Rightarrow> Inl TypeError)"

text \<open>\<open>row["member_id"] not in ids\<close> raises; otherwise the identifier.\<close>

definition row_id :: "pv \<Rightarrow> string \<Rightarrow> string list \<Rightarrow> string result" where
  "row_id row k ids =
     rbind (row_get row k) (\<lambda>v. case v of PStr s \<Rightarrow> if s \<in> set ids then Inr s else Inl ValueError
                                        | _ \<Rightarrow> Inl ValueError)"

definition expected_row :: "policy_facts \<Rightarrow> string \<Rightarrow> int \<Rightarrow> pv \<Rightarrow> bool result" where
  "expected_row facts who minutes row =
     rbind (row_id row ''member_id'' (member_ids facts)) (\<lambda>m.
     rbind (row_get row ''expected_at'') (\<lambda>v.
       case v of
         PStr s \<Rightarrow>
           (case fromisoformat s of
              None \<Rightarrow> Inl ValueError
            | Some (t, aware) \<Rightarrow>
                if \<not> aware \<or> minutes < 0 then Inl ValueError
                else Inr (m = who \<and> 0 \<le> t - as_of facts
                          \<and> (t - as_of facts) * cedar_scale \<le> minutes * us_per_minute))
       | _ \<Rightarrow> Inl TypeError))"

definition present_row :: "policy_facts \<Rightarrow> string \<Rightarrow> pv \<Rightarrow> bool result" where
  "present_row facts who row =
     rbind (row_id row ''member_id'' (member_ids facts)) (\<lambda>m.
     rbind (row_get row ''present'') (\<lambda>v.
       case v of PBool b \<Rightarrow> Inr (m = who \<and> b) | _ \<Rightarrow> Inl ValueError))"

definition sleeping_row :: "policy_facts \<Rightarrow> string \<Rightarrow> pv \<Rightarrow> bool result" where
  "sleeping_row facts zone_id row =
     rbind (row_id row ''member_id'' (member_ids facts)) (\<lambda>m.
       if row_get row ''present'' = Inr (PBool False) then Inr False
       else rbind (row_id row ''zone_id'' (zone_ids facts)) (\<lambda>z.
            rbind (row_get row ''sleeping'') (\<lambda>v.
              case v of PBool b \<Rightarrow> Inr (z = zone_id \<and> b) | _ \<Rightarrow> Inl ValueError)))"

definition predicate_path :: "string \<Rightarrow> string" where
  "predicate_path fn =
     (if starts_with ''schedule.'' fn then ''schedule.arrivals'' else ''occupancy.members'')"

definition row_matches :: "string \<Rightarrow> policy_facts \<Rightarrow> string \<Rightarrow> int \<Rightarrow> pv \<Rightarrow> bool result" where
  "row_matches fn facts who minutes row =
     (if fn = ''schedule.expected_within'' then expected_row facts who minutes row
      else if fn = ''occupancy.present'' then present_row facts who row
      else sleeping_row facts who row)"

text \<open>The first argument when it is a string, the second when it is a number, the rows when they are a list.\<close>

definition subject_of :: "val option list \<Rightarrow> string option" where
  "subject_of vals = (case vals of Some (VStr who) # _ \<Rightarrow> Some who | _ \<Rightarrow> None)"

definition horizon_of :: "val option list \<Rightarrow> int option" where
  "horizon_of vals = (case vals of [_, Some (VNum n)] \<Rightarrow> Some n | _ \<Rightarrow> None)"

definition rows_of :: "pv \<Rightarrow> pv list option" where
  "rows_of v = (case v of PList rs \<Rightarrow> Some rs | _ \<Rightarrow> None)"

text \<open>
  \<open>predicate\<close>: the subject must be known, the rows must be a list, and any malformed row makes
  the whole predicate an unresolved fact.
\<close>

definition predicate_rows ::
  "string \<Rightarrow> node list \<Rightarrow> policy_facts \<Rightarrow> string option \<Rightarrow> int option \<Rightarrow> pv list option \<Rightarrow> bool result"
where
  "predicate_rows fn args facts subject horizon rows =
     (let ids = (if fn = ''occupancy.sleeping_in'' then zone_ids facts else member_ids facts);
          path = predicate_path fn
      in case subject of
           None \<Rightarrow> Inl (FactError (sorted_set (path # attr_paths args)))
         | Some who \<Rightarrow> (case rows of
             None \<Rightarrow> Inl (FactError (sorted_set (path # attr_paths args)))
           | Some rs \<Rightarrow>
               if who \<notin> set ids then Inl (FactError (sorted_set (path # attr_paths args)))
               else if fn = ''schedule.expected_within'' \<and> (case horizon of None \<Rightarrow> True | Some n \<Rightarrow> n < 0)
               then Inl (FactError [path])
               else (case mapM (row_matches fn facts who (case horizon of None \<Rightarrow> 0 | Some n \<Rightarrow> n)) rs of
                       Inl _ \<Rightarrow> Inl (FactError [path])
                     | Inr bs \<Rightarrow> Inr (list_ex id bs))))"

definition predicate :: "string \<Rightarrow> node list \<Rightarrow> pdict \<Rightarrow> policy_facts \<Rightarrow> bool result" where
  "predicate fn args values facts =
     rbind (mapM (argument_value values) args) (\<lambda>vals.
     rbind (lookup values (predicate_path fn)) (\<lambda>rows.
       predicate_rows fn args facts (subject_of vals) (horizon_of vals) (rows_of rows)))"

section \<open>Evaluation\<close>

definition nullable_paths :: "node \<Rightarrow> string list" where
  "nullable_paths n = attr_paths (concat (map (\<lambda>m. case m of NSet a \<Rightarrow> [a] | NUnset a \<Rightarrow> [a] | _ \<Rightarrow> []) (walk n)))"

definition required_paths :: "node \<Rightarrow> string list" where
  "required_paths n =
     attr_paths (concat (map (\<lambda>m. case m of NSet _ \<Rightarrow> [] | NUnset _ \<Rightarrow> [] | _ \<Rightarrow> children m) (walk n)))"

text \<open>
  The preflight of one item: the paths it leaves unresolved. An exception that is not a
  \<open>FactError\<close> is not caught.
\<close>

definition item_errors :: "node \<Rightarrow> pdict \<Rightarrow> policy_facts \<Rightarrow> node \<Rightarrow> string list result" where
  "item_errors root values facts item =
     (case item of
        NAttr p \<Rightarrow>
          (case attribute values p of
             Inl (FactError ps) \<Rightarrow> Inr ps
           | Inl e \<Rightarrow> Inl e
           | Inr None \<Rightarrow>
               if p \<notin> set (nullable_paths root) \<or> p \<in> set (required_paths root) then Inr [p] else Inr []
           | Inr (Some _) \<Rightarrow> Inr [])
      | NCall fn args \<Rightarrow>
          (case predicate fn args values facts of
             Inl (FactError ps) \<Rightarrow> Inr ps
           | Inl e \<Rightarrow> Inl e
           | Inr _ \<Rightarrow> Inr [])
      | _ \<Rightarrow> Inr [])"

definition py_less :: "val \<Rightarrow> val \<Rightarrow> bool result" where
  "py_less a b =
     (case (a, b) of
        (VNum x, VNum y) \<Rightarrow> Inr (x < y)
      | (VMin x, VMin y) \<Rightarrow> Inr (x < y)
      | (VStr x, VStr y) \<Rightarrow> Inr (x < y)
      | (VBool x, VBool y) \<Rightarrow> Inr (x < y)
      | (VStrs x, VStrs y) \<Rightarrow> Inr (x < y)
      | _ \<Rightarrow> Inl TypeError)"

definition compare :: "cop \<Rightarrow> val \<Rightarrow> val \<Rightarrow> bool result" where
  "compare c a b =
     (case c of
        Eq \<Rightarrow> Inr (a = b)
      | Neq \<Rightarrow> Inr (a \<noteq> b)
      | Lt \<Rightarrow> py_less a b
      | Gt \<Rightarrow> py_less b a
      | Le \<Rightarrow> rbind (py_less b a) (\<lambda>x. Inr (\<not> x))
      | Ge \<Rightarrow> rbind (py_less a b) (\<lambda>x. Inr (\<not> x)))"

definition literal_typed :: "string \<Rightarrow> node \<Rightarrow> val result" where
  "literal_typed p n =
     (case (attr_kind p, n) of (Some k, NLit l) \<Rightarrow> typed (lit_pv l) k | _ \<Rightarrow> Inl KeyError)"

text \<open>
  \<open>run\<close> on a resolved expression: every child is evaluated, there is no short circuit. The
  resolved values are the ones the preflight computed.
\<close>

fun run :: "pdict \<Rightarrow> policy_facts \<Rightarrow> node \<Rightarrow> bool result" where
  "run values facts (NAnd a b) =
     rbind (run values facts a) (\<lambda>x. rbind (run values facts b) (\<lambda>y. Inr (x \<and> y)))"
| "run values facts (NOr a b) =
     rbind (run values facts a) (\<lambda>x. rbind (run values facts b) (\<lambda>y. Inr (x \<or> y)))"
| "run values facts (NNot a) = rbind (run values facts a) (\<lambda>x. Inr (\<not> x))"
| "run values facts (NCall fn args) = predicate fn args values facts"
| "run values facts (NSet (NAttr p)) = rbind (attribute values p) (\<lambda>v. Inr (v \<noteq> None))"
| "run values facts (NUnset (NAttr p)) = rbind (attribute values p) (\<lambda>v. Inr (v = None))"
| "run values facts (NIn (NAttr p) args) =
     rbind (attribute values p) (\<lambda>v. rbind (mapM (literal_typed p) args) (\<lambda>ls.
       Inr (\<exists>l \<in> set ls. v = Some l)))"
| "run values facts (NCmp c (NAttr p) a) =
     rbind (attribute values p) (\<lambda>v. rbind (literal_typed p a) (\<lambda>l.
       case v of None \<Rightarrow> (case c of Eq \<Rightarrow> Inr False | Neq \<Rightarrow> Inr True | _ \<Rightarrow> Inl TypeError)
               | Some x \<Rightarrow> compare c x l))"
| "run values facts _ = Inl TypeError"

definition evaluate :: "node \<Rightarrow> pdict \<Rightarrow> policy_facts \<Rightarrow> bool result" where
  "evaluate n values facts =
     rbind (mapM (item_errors n values facts) (walk n)) (\<lambda>es.
       if concat es \<noteq> [] then Inl (FactError (sorted_set (concat es)))
       else run values facts n)"

section \<open>Parsing is total and well typed\<close>

text \<open>
  What the parser's checks establish: attributes are known, literals fit the attribute's type,
  order comparisons are on numbers or times, predicates have their arity and argument types.
\<close>

fun well_typed :: "node \<Rightarrow> bool" where
  "well_typed (NAnd a b) = (well_typed a \<and> well_typed b)"
| "well_typed (NOr a b) = (well_typed a \<and> well_typed b)"
| "well_typed (NNot a) = well_typed a"
| "well_typed (NCall f args) =
     (map_of FUNCTIONS f = Some (length args) \<and> arguments_ok args \<and> \<not> negative_horizon args)"
| "well_typed (NSet (NAttr p)) = (attr_kind p \<noteq> None)"
| "well_typed (NUnset (NAttr p)) = (attr_kind p \<noteq> None)"
| "well_typed (NIn (NAttr p) args) =
     (case attr_kind p of None \<Rightarrow> False | Some k \<Rightarrow> k \<noteq> K_strings \<and> list_all (literal_ok k) args)"
| "well_typed (NCmp c (NAttr p) a) =
     (case attr_kind p of
        None \<Rightarrow> False
      | Some k \<Rightarrow> k \<noteq> K_strings \<and> (is_order c \<longrightarrow> k \<in> {K_number, K_time}) \<and> literal_ok k a)"
| "well_typed _ = False"

lemma expect_Inr: "expect t ts = Inr r \<Longrightarrow> ts = t # r"
  by (auto simp: expect_def split: list.splits if_splits)

lemma parse_arguments_shorter: "parse_arguments ts = Inr (as, r) \<Longrightarrow> length r < length ts"
proof (induction ts arbitrary: as r rule: parse_arguments.induct)
  case (3 t c rest)
  then show ?case by (auto simp: rbind_Inr_iff split: if_splits)
qed (auto simp: rbind_Inr_iff)

lemma parse_argument_attr: "parse_argument t = Inr (NAttr p) \<Longrightarrow> attr_kind p \<noteq> None"
  by (auto simp: parse_argument_def split: if_splits sum.splits)

lemma parse_call_spec:
  "parse_call fn ts = Inr (n, r) \<Longrightarrow> well_typed n \<and> length r < length ts"
  by (auto simp: parse_call_def rbind_Inr_iff split: if_splits dest!: expect_Inr parse_arguments_shorter)

lemma parse_comparison_spec:
  assumes "parse_comparison p ts = Inr (n, r)" and "attr_kind p \<noteq> None"
  shows "well_typed n \<and> length r < length ts"
proof -
  obtain op ts' where ts: "ts = op # ts'"
    using assms(1) by (cases ts) (auto simp: parse_comparison_def)
  consider "op = ''is''" | "op = ''in''" | "op \<noteq> ''is''" "op \<noteq> ''in''" by blast
  then show ?thesis
  proof cases
    case 1
    with assms ts show ?thesis
      by (auto simp: parse_comparison_def rbind_Inr_iff split: list.splits if_splits dest!: expect_Inr)
  next
    case 2
    with assms ts show ?thesis
      by (auto simp: parse_comparison_def rbind_Inr_iff split: option.splits if_splits
          dest!: expect_Inr parse_arguments_shorter)
  next
    case 3
    with assms ts show ?thesis
      by (auto simp: parse_comparison_def rbind_Inr_iff split: option.splits if_splits list.splits)
  qed
qed

lemma parse_leaf_spec:
  assumes "parse_leaf ts = Inr (n, r)"
  shows "well_typed n \<and> length r < length ts"
proof -
  obtain t ts' where ts: "ts = t # ts'"
    using assms by (cases ts) (auto simp: parse_leaf_def)
  show ?thesis
  proof (cases "map_of FUNCTIONS t = None")
    case True
    with assms ts obtain a where a: "parse_argument t = Inr a"
      and c: "(case a of NAttr p \<Rightarrow> parse_comparison p ts' | _ \<Rightarrow> Inl ValueError) = Inr (n, r)"
      by (auto simp: parse_leaf_def rbind_Inr_iff)
    from c obtain p where p: "a = NAttr p" by (cases a) auto
    with c have "parse_comparison p ts' = Inr (n, r)" by simp
    from parse_comparison_spec [OF this] parse_argument_attr a p ts show ?thesis by auto
  next
    case False
    with assms ts show ?thesis by (auto simp: parse_leaf_def dest!: parse_call_spec)
  qed
qed

lemma parse_spec:
  "parse_bool f d b ts = Inr (n, r) \<Longrightarrow> well_typed n \<and> length r < length ts"
  "parse_child f d b ts = Inr (n, r) \<Longrightarrow> well_typed n \<and> length r < length ts"
  "parse_loop f d b acc ts = Inr (n, r) \<Longrightarrow> well_typed acc \<Longrightarrow> well_typed n \<and> length r \<le> length ts"
  "parse_term f d ts = Inr (n, r) \<Longrightarrow> well_typed n \<and> length r < length ts"
proof (induction f d b ts and f d b ts and f d b acc ts and f d ts arbitrary: n r and n r and n r and n r
    rule: parse_bool_parse_child_parse_loop_parse_term.induct)
  case (2 f d b ts)
  from 2(3) obtain m r1 where c: "parse_child f d b ts = Inr (m, r1)" and l: "parse_loop f d b m r1 = Inr (n, r)"
    by (auto simp: rbind_Inr_iff)
  from 2(1) [OF c] have m: "well_typed m" "length r1 < length ts" by auto
  from 2(2) [OF l m(1)] m show ?case by auto
next
  case (4 f d b ts)
  then show ?case by (auto split: if_splits)
next
  case (6 f d b acc ts)
  show ?case
  proof (cases ts)
    case Nil
    with 6(3,4) show ?thesis by simp
  next
    case (Cons t r0)
    show ?thesis
    proof (cases "t = (if b then ''or'' else ''and'')")
      case True
      with Cons 6(3) obtain m r1 where c: "parse_child f d b r0 = Inr (m, r1)"
        and l: "parse_loop f d b (if b then NOr acc m else NAnd acc m) r1 = Inr (n, r)"
        by (auto simp: rbind_Inr_iff)
      from 6(1) [OF Cons True c] have m: "well_typed m" "length r1 < length r0" by auto
      have w: "well_typed (if b then NOr acc m else NAnd acc m)" using m 6(4) by simp
      from 6(2) [OF Cons True l w] m Cons show ?thesis by auto
    next
      case False
      with Cons 6(3,4) show ?thesis by auto
    qed
  qed
next
  case (8 f d ts)
  show ?case
  proof (cases ts)
    case Nil
    with 8(3) show ?thesis by simp
  next
    case (Cons t r0)
    show ?thesis
    proof (cases "t = ''not'' \<or> t = ''(''")
      case True
      with Cons 8 show ?thesis
        by (auto simp: rbind_Inr_iff split: if_splits dest!: expect_Inr) fastforce+
    next
      case False
      with Cons 8(3) show ?thesis using parse_leaf_spec [of ts n r] by auto
    qed
  qed
qed auto


lemma parse_argument_error: "parse_argument t = Inl e \<Longrightarrow> e = ValueError"
  by (auto simp: parse_argument_def split: if_splits sum.splits)

lemma expect_error: "expect t ts = Inl e \<Longrightarrow> e = ValueError"
  by (auto simp: expect_def split: list.splits if_splits)

lemma parse_arguments_error: "parse_arguments ts = Inl e \<Longrightarrow> e = ValueError"
proof (induction ts rule: parse_arguments.induct)
  case (3 t c rest)
  then show ?case by (auto simp: rbind_Inl_iff split: if_splits dest: parse_argument_error)
qed (auto simp: rbind_Inl_iff dest: parse_argument_error)

lemmas parse_piece_errors = parse_argument_error expect_error parse_arguments_error

lemma parse_call_error: "parse_call fn ts = Inl e \<Longrightarrow> e = ValueError"
  by (auto simp: parse_call_def rbind_Inl_iff split: if_splits dest: parse_piece_errors)

lemma parse_comparison_error:
  "parse_comparison p ts = Inl e \<Longrightarrow> attr_kind p \<noteq> None \<Longrightarrow> e = ValueError"
  by (auto simp: parse_comparison_def rbind_Inl_iff split: list.splits if_splits option.splits
      dest: parse_piece_errors)

lemma parse_leaf_error:
  assumes "parse_leaf ts = Inl e"
  shows "e = ValueError"
proof (cases ts)
  case Nil
  with assms show ?thesis by (simp add: parse_leaf_def)
next
  case (Cons t ts')
  show ?thesis
  proof (cases "map_of FUNCTIONS t = None \<and> (\<exists>p. parse_argument t = Inr (NAttr p))")
    case True
    then obtain p where p: "parse_argument t = Inr (NAttr p)" by blast
    with True Cons assms have "parse_comparison p ts' = Inl e" by (simp add: parse_leaf_def)
    with parse_argument_attr [OF p] show ?thesis by (blast dest: parse_comparison_error)
  next
    case False
    with Cons assms show ?thesis
      by (auto simp: parse_leaf_def rbind_Inl_iff split: if_splits
          dest: parse_call_error parse_argument_error) (auto split: node.split_asm)
  qed
qed

lemma parse_errors:
  "parse_bool f d b ts = Inl e \<Longrightarrow> 6 * length ts + (if b then 5 else 3) \<le> f \<Longrightarrow> e \<in> {ValueError, RecursionError}"
  "parse_child f d b ts = Inl e \<Longrightarrow> 6 * length ts + (if b then 4 else 2) \<le> f \<Longrightarrow> e \<in> {ValueError, RecursionError}"
  "parse_loop f d b acc ts = Inl e \<Longrightarrow> 6 * length ts + 1 \<le> f \<Longrightarrow> e \<in> {ValueError, RecursionError}"
  "parse_term f d ts = Inl e \<Longrightarrow> 6 * length ts + 1 \<le> f \<Longrightarrow> e \<in> {ValueError, RecursionError}"
proof (induction f d b ts and f d b ts and f d b acc ts and f d ts
    rule: parse_bool_parse_child_parse_loop_parse_term.induct)
  case (2 f d b ts)
  show ?case
  proof (cases "parse_child f d b ts")
    case (Inl e')
    with 2(1) 2(3,4) show ?thesis by (auto split: if_splits)
  next
    case (Inr nr)
    then obtain n r where nr: "parse_child f d b ts = Inr (n, r)" by (cases nr) auto
    with 2(3) have "parse_loop f d b n r = Inl e" by simp
    moreover from parse_spec(2) [OF nr] have "length r < length ts" by simp
    ultimately show ?thesis using 2(2) nr 2(4) by (auto split: if_splits)
  qed
next
  case (4 f d b ts)
  then show ?case by (auto split: if_splits)
next
  case (6 f d b acc ts)
  show ?case
  proof (cases "\<exists>r0. ts = (if b then ''or'' else ''and'') # r0")
    case True
    then obtain r0 where ts: "ts = (if b then ''or'' else ''and'') # r0" by blast
    show ?thesis
    proof (cases "parse_child f d b r0")
      case (Inl e')
      with 6(1) [OF ts refl] 6(3,4) ts show ?thesis by (auto split: if_splits)
    next
      case (Inr nr)
      then obtain n r where nr: "parse_child f d b r0 = Inr (n, r)" by (cases nr) auto
      with 6(3) ts have "parse_loop f d b (if b then NOr acc n else NAnd acc n) r = Inl e" by simp
      moreover from parse_spec(2) [OF nr] have "length r < length r0" by simp
      ultimately show ?thesis
        using 6(2) [OF ts refl] nr 6(4) ts by (auto split: if_splits)
    qed
  next
    case False
    with 6(3) show ?thesis by (auto split: list.splits)
  qed
next
  case (8 f d ts)
  then show ?case
    by (auto simp: rbind_Inl_iff split: list.splits if_splits dest: parse_leaf_error expect_error)
qed (auto split: if_splits)

lemma tokenize_error: "tokenize s = Inl e \<Longrightarrow> e = ValueError"
proof (induction s rule: tokenize.induct)
  case (1 s)
  then show ?case
    by (subst (asm) tokenize.simps) (auto simp: rbind_Inl_iff split: if_splits option.splits)
qed

lemma parse_outcome:
  "case parse frames source of Inr n \<Rightarrow> well_typed n | Inl e \<Rightarrow> e = ValueError"
proof (cases "parser_init source")
  case (Inl e)
  then show ?thesis
    by (auto simp: parse_def parser_init_def Let_def split: if_splits dest: tokenize_error)
next
  case (Inr ts)
  show ?thesis
  proof (cases "parse_bool (parse_fuel ts) frames True ts")
    case (Inl e)
    with Inr parse_errors(1) [OF Inl] show ?thesis by (auto simp: parse_def parse_fuel_def)
  next
    case (Inr nr)
    with \<open>parser_init source = Inr ts\<close> parse_spec(1) show ?thesis
      by (cases nr) (auto simp: parse_def)
  qed
qed


lemma parse_well_typed: "parse frames source = Inr n \<Longrightarrow> well_typed n"
  using parse_outcome [of frames source] by simp

lemma parse_ValueError: "parse frames source = Inl e \<Longrightarrow> e = ValueError"
  using parse_outcome [of frames source] by simp

section \<open>Evaluation is total on parsed conditions\<close>

lemma attribute_error:
  "attribute values p = Inl e \<Longrightarrow> attr_kind p \<noteq> None \<Longrightarrow> e = FactError [p]"
  by (auto simp: attribute_def lookup_def rbind_Inl_iff split: if_splits sum.splits)

lemma attribute_kind:
  "attribute values p = Inr (Some x) \<Longrightarrow> attr_kind p = Some (val_kind x)"
  by (auto simp: attribute_def rbind_Inr_iff split: if_splits option.splits sum.splits
      dest: typed_kind)

lemma argument_value_error:
  "argument_value values a = Inl e \<Longrightarrow> argument_ok k a \<Longrightarrow> \<exists>p. e = FactError [p]"
  by (cases a) (auto simp: argument_ok_def dest!: attribute_error)

lemma arguments_ok_member:
  assumes "arguments_ok args" and "a \<in> set args"
  shows "\<exists>k. argument_ok k a"
proof -
  from assms(2) obtain i where "i < length args" "args ! i = a"
    by (auto simp: in_set_conv_nth)
  then have "(i, a) \<in> set (enumerate 0 args)" by (auto simp: in_set_enumerate_eq)
  with assms(1) show ?thesis unfolding arguments_ok_def list_all_iff by fast
qed

lemma predicate_rows_error:
  assumes "predicate_rows fn args facts subj hor rows = Inl e"
  shows "\<exists>ps. e = FactError ps \<and> ps \<noteq> []"
proof -
  have "e = FactError (sorted_set (predicate_path fn # attr_paths args)) \<or> e = FactError [predicate_path fn]"
    using assms unfolding predicate_rows_def Let_def
    by (cases subj; cases rows) (simp_all split: if_split_asm sum.split_asm)
  then show ?thesis by (metis list.distinct(1) sorted_set_empty_iff)
qed

lemma predicate_error:
  assumes "predicate fn args values facts = Inl e" and "arguments_ok args"
  shows "\<exists>ps. e = FactError ps \<and> ps \<noteq> []"
proof -
  from assms(1) consider
      "mapM (argument_value values) args = Inl e"
    | "lookup values (predicate_path fn) = Inl e"
    | "\<exists>ps. e = FactError ps \<and> ps \<noteq> []"
    by (auto simp: predicate_def rbind_Inl_iff dest: predicate_rows_error)
  then show ?thesis
  proof cases
    case 1
    then obtain a where "a \<in> set args" "argument_value values a = Inl e"
      by (blast dest: mapM_Inl_iff)
    with assms(2) show ?thesis by (blast dest: arguments_ok_member argument_value_error)
  qed (auto simp: lookup_def)
qed

lemma literal_ok_NLit: "literal_ok k a \<Longrightarrow> \<exists>l. a = NLit l"
  by (cases a) (auto simp: literal_ok_def)

lemma well_typed_walk:
  "well_typed n \<Longrightarrow> m \<in> set (walk n) \<Longrightarrow>
     (\<forall>p. m = NAttr p \<longrightarrow> attr_kind p \<noteq> None) \<and> (\<forall>f as. m = NCall f as \<longrightarrow> arguments_ok as)"
proof (induction n rule: well_typed.induct)
  case (4 f args)
  have "a \<in> set args \<Longrightarrow> (\<exists>p. a = NAttr p \<and> attr_kind p \<noteq> None) \<or> (\<exists>l. a = NLit l)" for a
    using 4(1) arguments_ok_member [of args a] by (cases a) (auto simp: argument_ok_def)
  with 4 show ?case by fastforce
next
  case (7 p args)
  then show ?case
  proof -
    have "a \<in> set args \<Longrightarrow> \<exists>l. a = NLit l" for a
      using 7(1) by (auto split: option.splits simp: list_all_iff intro: literal_ok_NLit)
    with 7 show ?thesis by (fastforce split: option.splits)
  qed
next
  case (8 c p a)
  then show ?case
    by (auto split: option.splits dest!: literal_ok_NLit)
qed auto

lemma item_errors_Inr:
  assumes "well_typed n" and "m \<in> set (walk n)"
  shows "\<exists>ps. item_errors root values facts m = Inr ps"
proof (cases m)
  case (NAttr p)
  with well_typed_walk [OF assms] show ?thesis
    by (auto simp: item_errors_def split: sum.splits option.splits exn.splits dest!: attribute_error)
next
  case (NCall f as)
  with well_typed_walk [OF assms] show ?thesis
    by (auto simp: item_errors_def split: sum.splits exn.splits dest!: predicate_error)
qed (auto simp: item_errors_def)


lemma required_of_cmp:
  "NCmp c (NAttr p) a \<in> set (walk root) \<Longrightarrow> p \<in> set (required_paths root)"
  by (force simp: required_paths_def attr_paths_def)

lemma required_of_in:
  "NIn (NAttr p) as \<in> set (walk root) \<Longrightarrow> p \<in> set (required_paths root)"
  by (force simp: required_paths_def attr_paths_def)

lemma item_clean_attr:
  assumes "item_errors root values facts (NAttr p) = Inr []" and "p \<in> set (required_paths root)"
  shows "\<exists>x. attribute values p = Inr (Some x) \<and> attr_kind p = Some (val_kind x)"
proof (cases "attribute values p")
  case (Inl e)
  then have "e = FactError [p] \<or> e = KeyError"
    by (auto simp: attribute_def lookup_def rbind_Inl_iff split: if_splits option.splits sum.splits)
  with Inl assms(1) show ?thesis by (auto simp: item_errors_def)
next
  case (Inr v)
  with assms show ?thesis
    by (cases v) (auto simp: item_errors_def dest: attribute_kind)
qed

lemma item_clean_attr_Inr:
  "item_errors root values facts (NAttr p) = Inr [] \<Longrightarrow> \<exists>v. attribute values p = Inr v"
  by (cases "attribute values p")
     (auto simp: item_errors_def attribute_def lookup_def rbind_Inl_iff
       split: if_split_asm option.split_asm sum.split_asm)

lemma literal_ok_typed:
  "literal_ok k a \<Longrightarrow> attr_kind p = Some k \<Longrightarrow> \<exists>l. literal_typed p a = Inr l \<and> val_kind l = k"
  by (cases a) (auto simp: literal_ok_def literal_typed_def split: sum.splits dest: typed_kind)

lemma compare_total:
  assumes "val_kind x = val_kind y" and "is_order c \<Longrightarrow> val_kind x \<in> {K_number, K_time}"
  shows "\<exists>b. compare c x y = Inr b"
  using assms by (cases c; cases x; cases y) (auto simp: compare_def py_less_def is_order_def)

lemma run_total:
  assumes "well_typed n" and "set (walk n) \<subseteq> set (walk root)"
    and "\<forall>m \<in> set (walk n). item_errors root values facts m = Inr []"
  shows "\<exists>b. run values facts n = Inr b"
  using assms
proof (induction n rule: well_typed.induct)
  case (4 f args)
  then have "item_errors root values facts (NCall f args) = Inr []" "arguments_ok args" by auto
  then show ?case
    by (cases "predicate f args values facts") (auto simp: item_errors_def dest: predicate_error)
next
  case (5 p)
  then have "item_errors root values facts (NAttr p) = Inr []" by auto
  then show ?case by (auto dest: item_clean_attr_Inr)
next
  case (6 p)
  then have "item_errors root values facts (NAttr p) = Inr []" by auto
  then show ?case by (auto dest: item_clean_attr_Inr)
next
  case (7 p args)
  then obtain k where k: "attr_kind p = Some k" "list_all (literal_ok k) args"
    by (auto split: option.splits)
  from k have "\<exists>ls. mapM (literal_typed p) args = Inr ls"
  proof (induction args)
    case (Cons a as)
    then show ?case using literal_ok_typed [of k a p] by auto
  qed simp
  moreover from 7(2) have "p \<in> set (required_paths root)" by (auto intro: required_of_in)
  with 7(3) obtain x where "attribute values p = Inr (Some x)" by (auto dest: item_clean_attr)
  ultimately show ?case by auto
next
  case (8 c p a)
  then obtain k where k: "attr_kind p = Some k" "literal_ok k a" "is_order c \<longrightarrow> k \<in> {K_number, K_time}"
    by (auto split: option.splits)
  from k obtain l where l: "literal_typed p a = Inr l" "val_kind l = k"
    by (blast dest: literal_ok_typed)
  from 8(2) have "p \<in> set (required_paths root)" by (auto intro: required_of_cmp)
  with 8(3) obtain x where x: "attribute values p = Inr (Some x)" "attr_kind p = Some (val_kind x)"
    by (auto dest: item_clean_attr)
  with k l have "\<exists>b. compare c x l = Inr b" by (intro compare_total) auto
  with x l show ?case by auto
qed fastforce+

lemma evaluate_total:
  assumes "well_typed n"
  shows "(\<exists>b. evaluate n values facts = Inr b) \<or>
         (\<exists>ps. ps \<noteq> [] \<and> evaluate n values facts = Inl (FactError ps))"
proof -
  obtain es where es: "mapM (item_errors n values facts) (walk n) = Inr es"
  proof (cases "mapM (item_errors n values facts) (walk n)")
    case (Inl e)
    then obtain m where m: "m \<in> set (walk n)" and e: "item_errors n values facts m = Inl e"
      by (blast dest: mapM_Inl_iff)
    from item_errors_Inr [OF assms m, of n "values" facts] e have False by auto
    then show ?thesis ..
  qed auto
  show ?thesis
  proof (cases "concat es = []")
    case True
    have "\<forall>m \<in> set (walk n). item_errors n values facts m = Inr []"
      using mapM_Inr_set [OF es] True by fastforce
    with run_total [OF assms, of n "values" facts] es True show ?thesis
      by (auto simp: evaluate_def)
  next
    case False
    with es show ?thesis by (simp add: evaluate_def)
  qed
qed

section \<open>More stack never changes a parse\<close>

lemma parse_frames_mono:
  "parse_bool f d b ts = Inr (n, r) \<Longrightarrow> d \<le> d' \<Longrightarrow> parse_bool f d' b ts = Inr (n, r)"
  "parse_child f d b ts = Inr (n, r) \<Longrightarrow> d \<le> d' \<Longrightarrow> parse_child f d' b ts = Inr (n, r)"
  "parse_loop f d b acc ts = Inr (n, r) \<Longrightarrow> d \<le> d' \<Longrightarrow> parse_loop f d' b acc ts = Inr (n, r)"
  "parse_term f d ts = Inr (n, r) \<Longrightarrow> d \<le> d' \<Longrightarrow> parse_term f d' ts = Inr (n, r)"
proof (induction f d b ts and f d b ts and f d b acc ts and f d ts
    arbitrary: n r d' and n r d' and n r d' and n r d'
    rule: parse_bool_parse_child_parse_loop_parse_term.induct)
  case (2 f d b ts)
  from 2(3) obtain m r1 where c: "parse_child f d b ts = Inr (m, r1)" and l: "parse_loop f d b m r1 = Inr (n, r)"
    by (auto simp: rbind_Inr_iff)
  from 2(1) [OF c 2(4)] 2(2) [OF l 2(4)] show ?case by simp
next
  case (4 f d b ts)
  show ?case
  proof (cases b)
    case True
    with 4(3) have "parse_bool f (d - 2) False ts = Inr (n, r)" "\<not> d < 2" by (simp_all split: if_split_asm)
    with 4(1) [OF True _ this(1), of "d' - 2"] 4(4) True show ?thesis by simp
  next
    case False
    with 4(3) have "parse_term f (d - 1) ts = Inr (n, r)" "\<not> d < 1" by (simp_all split: if_split_asm)
    with 4(2) [OF False _ this(1), of "d' - 1"] 4(4) False show ?thesis by simp
  qed
next
  case (6 f d b acc ts)
  show ?case
  proof (cases "ts \<noteq> [] \<and> hd ts = (if b then ''or'' else ''and'')")
    case False
    with 6(3) show ?thesis by (cases ts) auto
  next
    case True
    then obtain t r0 where ts: "ts = t # r0" and t: "t = (if b then ''or'' else ''and'')" by (cases ts) auto
    with 6(3) obtain m r1 where c: "parse_child f d b r0 = Inr (m, r1)"
      and l: "parse_loop f d b (if b then NOr acc m else NAnd acc m) r1 = Inr (n, r)"
      by (auto simp: rbind_Inr_iff)
    from 6(1) [OF ts t c 6(4)] 6(2) [OF ts t l 6(4)] ts t show ?thesis by simp
  qed
next
  case (8 f d ts)
  show ?case
  proof (cases ts)
    case Nil
    with 8(3) show ?thesis by simp
  next
    case (Cons t r0)
    consider "t = ''not''" | "t = ''(''" | "t \<noteq> ''not''" "t \<noteq> ''(''" by blast
    then show ?thesis
    proof cases
      case 1
      with Cons 8(3) obtain n1 where "parse_term f (d - 1) r0 = Inr (n1, r)" "n = NNot n1" "\<not> d < 1"
        by (auto simp: rbind_Inr_iff split: if_split_asm)
      with 8(1) [OF Cons 1 _ this(1), of "d' - 1"] 8(4) 1 Cons show ?thesis by simp
    next
      case 2
      with Cons 8(3) obtain r1 where "parse_bool f (d - 1) True r0 = Inr (n, r1)"
        "expect '')'' r1 = Inr r" "\<not> d < 1"
        by (auto simp: rbind_Inr_iff split: if_split_asm)
      with 8(2) [OF Cons _ 2 _ this(1), of "d' - 1"] 8(4) 2 Cons show ?thesis by simp
    next
      case 3
      with Cons 8(3) show ?thesis by simp
    qed
  qed
qed auto

lemma parse_mono:
  assumes "parse d s = Inr n" and "d \<le> d'"
  shows "parse d' s = Inr n"
proof -
  from assms(1) obtain ts rest where ts: "parser_init s = Inr ts"
    and pb: "parse_bool (parse_fuel ts) d True ts = Inr (n, rest)" and rest: "rest = []"
    unfolding parse_def rbind_Inr_iff
    by (elim exE conjE) (simp split: sum.split_asm prod.split_asm if_split_asm)
  from parse_frames_mono(1) [OF pb assms(2)] ts rest show ?thesis by (simp add: parse_def)
qed

section \<open>Properties\<close>



definition no_facts :: policy_facts where
  "no_facts = \<lparr>household = ''home'', as_of = 0, pf_values = [], member_ids = [], zone_ids = []\<rparr>"


end
