(* ===== verification/Schema.thy ===== *)
theory Schema
  imports Conditions
begin

text \<open>
  The household constitution of \<open>hirz/constitution/schema.py\<close>: its data, the field and model
  validators, role lineage, rule selection, the per-role mode, the approver set and the policy
  validator. The lemmas show what validation establishes: fixed authority relations, total rule
  selection, floors for high-risk classes, and no voice approval for security classes.
\<close>

section \<open>Modes, channels, quorums\<close>

datatype mode = Auto | Ask | Never

fun RANK :: "mode \<Rightarrow> nat" where
  "RANK Auto = 0"
| "RANK Ask = 1"
| "RANK Never = 2"

lemma RANK_inject: "RANK a = RANK b \<longleftrightarrow> a = b"
  by (cases a; cases b) auto

instantiation mode :: linorder
begin

definition less_eq_mode :: "mode \<Rightarrow> mode \<Rightarrow> bool" where
  "a \<le> b \<longleftrightarrow> RANK a \<le> RANK b"

definition less_mode :: "mode \<Rightarrow> mode \<Rightarrow> bool" where
  "a < b \<longleftrightarrow> RANK a < RANK b"

instance
  by standard (auto simp: less_eq_mode_def less_mode_def RANK_inject)

end

lemma mode_le_simps [simp]:
  "m \<le> Never" "Auto \<le> m" "Never \<le> m \<longleftrightarrow> m = Never" "m \<le> Auto \<longleftrightarrow> m = Auto"
  "Ask \<le> m \<longleftrightarrow> m \<noteq> Auto" "m \<le> Ask \<longleftrightarrow> m \<noteq> Never"
  by (cases m; auto simp: less_eq_mode_def)+

text \<open>\<open>if RANK[new] > RANK[mode]: mode = new\<close>, the one way a mode changes by rank.\<close>

definition tighten :: "mode \<Rightarrow> mode \<Rightarrow> mode" where
  "tighten m new = (if RANK new > RANK m then new else m)"

lemma tighten_max: "tighten m n = max m n"
  by (auto simp: tighten_def max_def less_eq_mode_def RANK_inject)

lemma tighten_ge [simp]: "m \<le> tighten m n" "n \<le> tighten m n"
  by (simp_all add: tighten_max)

datatype channel = Ch_alexa | Ch_app_push

datatype quorum = Any_adult | Quorum_owner | All_adults

section \<open>Data\<close>

record defaults =
  d_approval_ttl_minutes :: int
  d_ask_channels :: "channel list"

record role_definition =
  inherits :: "role option"
  limited_to :: "string list option"

text \<open>Numbers are Cedar fixed-point integers in ten-thousandths.\<close>

record bounds =
  min_f :: "int option"
  max_f :: "int option"
  ev_soc_floor :: "int option"

record override =
  "when" :: string
  ov_mode :: mode

record rule =
  rule_mode :: mode
  conditions :: "string list"
  overrides :: "override list"
  rule_bounds :: "bounds option"
  usd_per_day :: "int option"
  quorum :: quorum
  ask_channels :: "channel list option"
  approval_ttl_minutes :: "int option"
  allowed_requesters :: "role list option"
  never_for :: "string list"
  max_open_minutes :: "int option"
  max_minutes :: "int option"

definition plain_rule :: "mode \<Rightarrow> string list \<Rightarrow> rule" where
  "plain_rule m cs = \<lparr>rule_mode = m, conditions = cs, overrides = [], rule_bounds = None,
     usd_per_day = None, quorum = Any_adult, ask_channels = None, approval_ttl_minutes = None,
     allowed_requesters = None, never_for = [], max_open_minutes = None, max_minutes = None\<rparr>"

record quiet_period =
  days :: "string list"
  from_time :: string
  to_time :: string
  affects :: "string list"

record verification =
  require_requester_confirmation :: "string list"
  trusted_contact_methods_order :: "string list"

record constitution =
  version :: int
  c_household :: string
  c_defaults :: defaults
  roles :: "(role \<times> role_definition) list"
  autonomy :: "(string \<times> (string \<times> rule) list) list"
  per_role :: "(role \<times> (string \<times> mode) list) list"
  quiet_hours :: "quiet_period list"
  c_verification :: verification
  accept_memory_never :: bool

section \<open>Field validators\<close>

definition DOMAINS :: "string set" where
  "DOMAINS = set (map (class_domain \<circ> fst) CLASSES)"

text \<open>\<open>Defaults.channels\<close>: nonempty and without repetition.\<close>

definition valid_channels :: "channel list \<Rightarrow> bool" where
  "valid_channels cs \<longleftrightarrow> cs \<noteq> [] \<and> distinct cs"

definition valid_ttl :: "int \<Rightarrow> bool" where
  "valid_ttl t \<longleftrightarrow> 1 \<le> t \<and> t \<le> 1440"

definition valid_defaults :: "defaults \<Rightarrow> bool" where
  "valid_defaults d \<longleftrightarrow> valid_ttl (d_approval_ttl_minutes d) \<and> valid_channels (d_ask_channels d)"

definition valid_role_definition :: "role_definition \<Rightarrow> bool" where
  "valid_role_definition d =
     (case limited_to d of None \<Rightarrow> True | Some v \<Rightarrow> v \<noteq> [] \<and> set v \<subseteq> DOMAINS)"

definition valid_number :: "int \<Rightarrow> bool" where
  "valid_number n \<longleftrightarrow> cedar_min \<le> n \<and> n \<le> cedar_max"

definition opt_all :: "('a \<Rightarrow> bool) \<Rightarrow> 'a option \<Rightarrow> bool" where
  "opt_all P x = (case x of None \<Rightarrow> True | Some v \<Rightarrow> P v)"

definition valid_bounds :: "bounds \<Rightarrow> bool" where
  "valid_bounds b \<longleftrightarrow>
     opt_all valid_number (min_f b) \<and> opt_all valid_number (max_f b) \<and>
     opt_all (\<lambda>v. 0 \<le> v \<and> v \<le> cedar_scale) (ev_soc_floor b) \<and>
     (case (min_f b, max_f b) of (Some lo, Some hi) \<Rightarrow> \<not> lo > hi | _ \<Rightarrow> True)"

definition parses :: "nat \<Rightarrow> string \<Rightarrow> bool" where
  "parses frames s = (case parse frames s of Inr _ \<Rightarrow> True | Inl _ \<Rightarrow> False)"

text \<open>\<open>Rule.restrictions\<close>, \<open>Override.expression\<close> and the annotated field types.\<close>

definition valid_rule :: "nat \<Rightarrow> rule \<Rightarrow> bool" where
  "valid_rule frames r \<longleftrightarrow>
     list_all (parses frames) (conditions r) \<and>
     list_all (\<lambda>ov. parses frames (when ov)) (overrides r) \<and>
     list_all (\<lambda>ov. \<not> RANK (ov_mode ov) < RANK (rule_mode r)) (overrides r) \<and>
     opt_all valid_channels (ask_channels r) \<and>
     opt_all valid_bounds (rule_bounds r) \<and>
     opt_all (\<lambda>v. valid_number v \<and> 0 < v) (usd_per_day r) \<and>
     opt_all valid_ttl (approval_ttl_minutes r) \<and>
     list_all (\<lambda>w. w = ''unexpected_visitor'') (never_for r) \<and>
     opt_all (\<lambda>v. valid_number v \<and> 0 < v) (max_open_minutes r) \<and>
     opt_all (\<lambda>v. valid_number v \<and> 0 < v) (max_minutes r)"

definition DAYS :: "string list" where
  "DAYS = [''mon'', ''tue'', ''wed'', ''thu'', ''fri'', ''sat'', ''sun'']"

definition valid_quiet :: "quiet_period \<Rightarrow> bool" where
  "valid_quiet q \<longleftrightarrow>
     set (days q) \<subseteq> set DAYS \<and> days q \<noteq> [] \<and> affects q \<noteq> [] \<and>
     time_match (from_time q) \<and> time_match (to_time q) \<and> from_time q \<noteq> to_time q \<and>
     list_all (\<lambda>n. n \<in> set class_names \<or>
       length (filter (\<lambda>c. class_key c = n) class_names) = 1) (affects q)"

definition valid_verification :: "verification \<Rightarrow> bool" where
  "valid_verification v \<longleftrightarrow>
     set (require_requester_confirmation v) \<subseteq> set class_names \<and>
     set (trusted_contact_methods_order v) \<subseteq>
       {''app_confirmation'', ''verified_callback'', ''safe_word'', ''verified_email''}"

section \<open>Lineage, domains, rules, modes\<close>

text \<open>\<open>Constitution.lineage\<close>: follow \<open>inherits\<close> to the root, refusing a cycle.\<close>

function lineage_loop :: "(role \<times> role_definition) list \<Rightarrow> role list \<Rightarrow> role \<Rightarrow> role list result" where
  "lineage_loop rs seen r =
     (if r \<in> set seen then Inl ValueError
      else case map_of rs r of
             None \<Rightarrow> Inl KeyError
           | Some d \<Rightarrow>
               (case inherits d of
                  None \<Rightarrow> Inr (rev (seen @ [r]))
                | Some parent \<Rightarrow> lineage_loop rs (seen @ [r]) parent))"
  by pat_completeness auto
termination
proof (relation "measure (\<lambda>(rs, seen, r). card (UNIV - set seen))")
  fix rs :: "(role \<times> role_definition) list" and seen and r parent :: role
  assume "r \<notin> set seen"
  then have "UNIV - set (seen @ [r]) \<subset> UNIV - set seen" by auto
  then show "((rs, seen @ [r], parent), rs, seen, r) \<in> measure (\<lambda>(rs, seen, r). card (UNIV - set seen))"
    by (auto intro!: psubset_card_mono)
qed simp

declare lineage_loop.simps [simp del]

definition lineage :: "constitution \<Rightarrow> role \<Rightarrow> role list result" where
  "lineage p r = lineage_loop (roles p) [] r"

definition domain_allowed :: "constitution \<Rightarrow> role \<Rightarrow> string \<Rightarrow> bool result" where
  "domain_allowed p r cls =
     rbind (lineage p r) (\<lambda>rs.
     rbind (mapM (\<lambda>q. of_opt KeyError (map_of (roles p) q)) rs) (\<lambda>ds.
       Inr (list_all (\<lambda>d. case limited_to d of None \<Rightarrow> True | Some l \<Rightarrow> class_domain cls \<in> set l) ds)))"

definition op_is :: "string \<Rightarrow> string" where
  "op_is op = ''action.params.operation == \"'' @ op @ ''\"''"

fun join :: "string \<Rightarrow> string list \<Rightarrow> string" where
  "join sep [] = []"
| "join sep [x] = x"
| "join sep (x # y # xs) = x @ sep @ join sep (y # xs)"

definition contacts_condition :: string where
  "contacts_condition =
     ''((requester.surface == \"app\" and requester.role == \"owner\" and (action.params.operation == \"create\" or action.params.operation == \"invite\" or action.params.operation == \"confirm\" or action.params.operation == \"revoke\" or action.params.operation == \"remove\" or action.params.operation == \"word\")) or (requester.surface == \"app\" and (requester.role == \"owner\" or requester.role == \"adult\") and (action.params.operation == \"accept\" or action.params.operation == \"withdraw\" or action.params.operation == \"phone\" or action.params.operation == \"reply\")) or (requester.surface == \"app\" and action.params.operation == \"guess\") or (requester.surface == \"scheduler\" and action.params.operation == \"process\"))''"

definition twin_conditions :: "string list" where
  "twin_conditions =
     [''(requester.surface == \"app\" or (requester.surface == \"scheduler\" and action.params.operation == \"publish\"))'',
      ''requester.role == \"owner\"'',
      ''('' @ join '' or '' (map op_is [''start'', ''pause'', ''resume'', ''step'', ''inject'', ''publish'']) @ '')'']"

definition constitution_conditions :: "string list" where
  "constitution_conditions =
     [''((requester.surface == \"app\" and action.params.operation != \"publish\") or (requester.surface == \"scheduler\" and (action.params.operation == \"draft\" or action.params.operation == \"draft_failed\" or action.params.operation == \"publish\")))'',
      ''(action.params.operation == \"draft\" or action.params.operation == \"draft_failed\" or action.params.operation == \"review\" or action.params.operation == \"activate\" or action.params.operation == \"dismiss\" or action.params.operation == \"publish\")'',
      ''((action.params.operation != \"activate\" and action.params.operation != \"dismiss\") or requester.role == \"owner\")'']"

definition credentials_conditions :: "string list" where
  "credentials_conditions =
     [''requester.surface == \"app\"'',
      ''(action.params.operation == \"enroll\" or action.params.operation == \"recover\" or action.params.operation == \"revoke\" or action.params.operation == \"reinvite\")'',
      ''(action.params.operation != \"reinvite\" or requester.role == \"owner\")'']"

definition memory_conditions :: "bool \<Rightarrow> string list" where
  "memory_conditions never =
     [''('' @ join '' or '' (map op_is
         (if never then [''append_turn'', ''reject''] else [''append_turn'', ''propose'', ''accept'', ''reject''])) @ '')'',
      ''((action.params.operation != \"accept\" and action.params.operation != \"reject\") or requester.surface == \"app\")'']"

definition reserved_classes :: "string list" where
  "reserved_classes =
     [''governance.pause_automation'', ''governance.resume_automation'', ''governance.record_tool_request'',
      ''governance.propose_rule'', ''governance.request_plan'', ''governance.record_verification'',
      ''governance.record_constraint'', ''governance.withdraw_constraint'', ''governance.refresh_plan'',
      ''governance.record_plan'', ''governance.approve_plan'', ''governance.revise_plan'',
      ''governance.cancel_plan'', ''governance.record_observations'']"

text \<open>The rules the code fixes for governance classes; \<open>None\<close> where it fixes none.\<close>

definition governance_rule :: "constitution \<Rightarrow> string \<Rightarrow> rule option" where
  "governance_rule p cls =
     (if cls = ''governance.contacts'' then Some (plain_rule Auto [contacts_condition])
      else if cls = ''governance.twin'' then Some (plain_rule Auto twin_conditions)
      else if cls = ''governance.constitution'' then Some (plain_rule Auto constitution_conditions)
      else if cls = ''governance.credentials'' then Some (plain_rule Auto credentials_conditions)
      else if cls = ''governance.memory'' then Some (plain_rule Auto (memory_conditions (accept_memory_never p)))
      else if cls \<in> set reserved_classes
      then Some (plain_rule Auto
             (if ends_with ''resume_automation'' cls then [''requester.surface == \"app\"''] else []))
      else None)"

definition select_rule :: "constitution \<Rightarrow> string \<Rightarrow> role \<Rightarrow> rule result" where
  "select_rule p cls r =
     (case governance_rule p cls of
        Some g \<Rightarrow> Inr g
      | None \<Rightarrow>
          if length (split_on (CHR ''.'') cls) \<noteq> 2 then Inl ValueError
          else rbind (lineage p r) (\<lambda>rs.
            Inr (dict_get (dict_get (autonomy p) (class_domain cls) []) (class_key cls)
                   (plain_rule (if Adult \<in> set rs then Ask else Never) []))))"

text \<open>\<open>entries.get(action_class, entries.get("*"))\<close> for one role.\<close>

definition role_entry :: "constitution \<Rightarrow> role \<Rightarrow> string \<Rightarrow> mode option" where
  "role_entry p r cls =
     (let entries = dict_get (per_role p) r [] in
      case map_of entries cls of Some m \<Rightarrow> Some m | None \<Rightarrow> map_of entries ''*'')"

definition tighten_entry :: "mode \<Rightarrow> mode option \<Rightarrow> mode" where
  "tighten_entry m e = (case e of None \<Rightarrow> m | Some n \<Rightarrow> tighten m n)"

definition role_mode :: "constitution \<Rightarrow> string \<Rightarrow> role \<Rightarrow> mode result" where
  "role_mode p cls r =
     (if cls = ''governance.resume_automation'' then
        rbind (lineage p r) (\<lambda>rs. Inr (if Adult \<in> set rs then Auto else Never))
      else if governance_class cls then Inr (if r = Unknown then Never else Auto)
      else
        rbind (select_rule p cls r) (\<lambda>rl.
        rbind (domain_allowed p r cls) (\<lambda>allowed.
          if \<not> allowed \<or> (case allowed_requesters rl of None \<Rightarrow> False | Some as \<Rightarrow> r \<notin> set as)
          then Inr Never
          else rbind (lineage p r) (\<lambda>rs.
            Inr (fold (\<lambda>a m. tighten_entry m (role_entry p a cls)) rs (rule_mode rl))))))"

definition approver :: "constitution \<Rightarrow> string \<Rightarrow> quorum \<Rightarrow> role \<Rightarrow> bool result" where
  "approver p cls q r =
     rbind (domain_allowed p r cls) (\<lambda>allowed.
       if \<not> allowed then Inr False
       else if q = Quorum_owner then Inr (r = Owner)
       else rbind (lineage p r) (\<lambda>rs. Inr (Adult \<in> set rs)))"

definition approvers :: "constitution \<Rightarrow> string \<Rightarrow> quorum \<Rightarrow> role list result" where
  "approvers p cls q =
     rbind (mapM (\<lambda>r. rbind (approver p cls q r) (\<lambda>b. Inr (r, b))) ROLES)
       (\<lambda>rbs. Inr (map fst (filter snd rbs)))"

section \<open>The policy validator\<close>

definition inherits_of :: "constitution \<Rightarrow> role \<Rightarrow> role option" where
  "inherits_of p r = Option.bind (map_of (roles p) r) inherits"

definition limited_of :: "constitution \<Rightarrow> role \<Rightarrow> string list option" where
  "limited_of p r = Option.bind (map_of (roles p) r) limited_to"

definition validate_autonomy_entry :: "constitution \<Rightarrow> string \<Rightarrow> string \<times> rule \<Rightarrow> unit result" where
  "validate_autonomy_entry p dm nr =
     (let cls = dm @ ''.'' @ fst nr; rl = snd nr in
      rbind (guard ValueError (dm \<noteq> ''governance'')) (\<lambda>_.
      rbind (of_opt ValueError (map_of CLASSES cls)) (\<lambda>pr.
      rbind (guard ValueError (floor_outcome (band pr) = Floor_none \<or> rule_mode rl \<noteq> Auto)) (\<lambda>_.
        guard ValueError (\<not> (dm = ''security'' \<and> Ch_alexa \<in> set
          (case ask_channels rl of None \<Rightarrow> d_ask_channels (c_defaults p) | Some cs \<Rightarrow> cs)))))))"

text \<open>\<open>rule.ask_channels or defaults.ask_channels\<close>: an empty tuple counts as absent.\<close>

definition effective_channels :: "constitution \<Rightarrow> rule \<Rightarrow> channel list" where
  "effective_channels p rl =
     (case ask_channels rl of
        Some (c # cs) \<Rightarrow> c # cs
      | _ \<Rightarrow> d_ask_channels (c_defaults p))"

definition validate_security_class :: "constitution \<Rightarrow> string \<Rightarrow> unit result" where
  "validate_security_class p cls =
     (if \<not> security_class cls then Inr ()
      else rbind (select_rule p cls Owner) (\<lambda>rl.
        guard ValueError (Ch_alexa \<notin> set (effective_channels p rl))))"

definition validate_per_role_class :: "constitution \<Rightarrow> role \<Rightarrow> string \<Rightarrow> unit result" where
  "validate_per_role_class p r cls =
     (case role_entry p r cls of
        None \<Rightarrow> Inr ()
      | Some m \<Rightarrow>
          rbind (select_rule p cls r) (\<lambda>rl.
          rbind (lineage p r) (\<lambda>rs.
          rbind (domain_allowed p r cls) (\<lambda>allowed.
            let base = fold (\<lambda>a b. tighten_entry b (role_entry p a cls)) (butlast rs) (rule_mode rl);
                base' = (if allowed then base else Never)
            in guard ValueError (\<not> RANK m < RANK base')))))"

definition validate_policy :: "constitution \<Rightarrow> unit result" where
  "validate_policy p =
     rbind (guard ValueError (fst ` set (roles p) = set ROLES)) (\<lambda>_.
     rbind (mapM (lineage p) ROLES) (\<lambda>_.
     rbind (guard ValueError (inherits_of p Adult = None \<and> inherits_of p Owner = Some Adult \<and>
                              inherits_of p Caregiver = Some Adult)) (\<lambda>_.
     rbind (guard ValueError (list_all (\<lambda>r. inherits_of p r = None) [Teen, Child, Guest, Unknown])) (\<lambda>_.
     rbind (guard ValueError (case limited_of p Caregiver of
              None \<Rightarrow> False
            | Some l \<Rightarrow> set l \<subseteq> {''environment'', ''health'', ''communication''})) (\<lambda>_.
     rbind (mapM (\<lambda>(dm, rules).
              rbind (guard ValueError (dm \<in> DOMAINS)) (\<lambda>_. mapM (validate_autonomy_entry p dm) rules))
            (autonomy p)) (\<lambda>_.
     rbind (mapM (validate_security_class p) class_names) (\<lambda>_.
     rbind (mapM (\<lambda>(r, entries).
              rbind (guard ValueError (list_all (\<lambda>(n, _). n = ''*'' \<or> n \<in> set class_names) entries)) (\<lambda>_.
                mapM (validate_per_role_class p r) class_names)) (per_role p)) (\<lambda>_.
       Inr ()))))))))"

text \<open>A constitution that \<open>model_validate\<close> accepts: field types, then the model validator.\<close>

definition valid_fields :: "nat \<Rightarrow> constitution \<Rightarrow> bool" where
  "valid_fields frames p \<longleftrightarrow>
     1 \<le> version p \<and> c_household p \<noteq> [] \<and> valid_defaults (c_defaults p) \<and>
     distinct (map fst (roles p)) \<and> list_all (\<lambda>(_, d). valid_role_definition d) (roles p) \<and>
     list_all (\<lambda>(_, rules). list_all (\<lambda>(_, r). valid_rule frames r) rules) (autonomy p) \<and>
     list_all valid_quiet (quiet_hours p) \<and> valid_verification (c_verification p)"

definition valid_constitution :: "nat \<Rightarrow> constitution \<Rightarrow> bool" where
  "valid_constitution frames p \<longleftrightarrow> valid_fields frames p \<and> validate_policy p = Inr ()"

section \<open>What validation establishes\<close>

lemma plain_rule_simps [simp]:
  "rule_mode (plain_rule m cs) = m" "conditions (plain_rule m cs) = cs"
  "overrides (plain_rule m cs) = []" "rule_bounds (plain_rule m cs) = None"
  "usd_per_day (plain_rule m cs) = None" "quorum (plain_rule m cs) = Any_adult"
  "ask_channels (plain_rule m cs) = None" "approval_ttl_minutes (plain_rule m cs) = None"
  "allowed_requesters (plain_rule m cs) = None" "never_for (plain_rule m cs) = []"
  "max_open_minutes (plain_rule m cs) = None" "max_minutes (plain_rule m cs) = None"
  by (simp_all add: plain_rule_def)

lemma split_on_two:
  "split_on c s = [a, b] \<Longrightarrow> s = a @ c # b"
proof (induction s arbitrary: a)
  case (Cons x xs)
  show ?case
  proof (cases "x = c")
    case True
    with Cons.prems have "a = []" "split_on c xs = [b]" by auto
    moreover have "split_on c xs = [b] \<Longrightarrow> xs = b" for xs b
      by (induction xs arbitrary: b) (auto split: if_splits list.splits)
    ultimately show ?thesis using True by simp
  next
    case False
    with Cons.prems obtain w where "split_on c xs = [w, b]" "a = x # w"
      by (auto split: list.splits)
    with Cons.IH show ?thesis by simp
  qed
qed simp

lemma class_parts:
  assumes "length (split_on (CHR ''.'') cls) = 2"
  shows "cls = class_domain cls @ ''.'' @ class_key cls"
proof -
  obtain a b where "split_on (CHR ''.'') cls = [a, b]"
    using assms by (auto simp: length_Suc_conv numeral_2_eq_2)
  then show ?thesis by (simp add: class_domain_def class_key_def split_on_two)
qed

lemma class_names_two_parts:
  "cls \<in> set class_names \<Longrightarrow> length (split_on (CHR ''.'') cls) = 2"
proof -
  have "list_all (\<lambda>c. length (split_on (CHR ''.'') c) = 2) class_names" by code_simp
  then show "cls \<in> set class_names \<Longrightarrow> length (split_on (CHR ''.'') cls) = 2"
    by (simp add: list_all_iff)
qed

lemma governance_classes_fixed:
  "cls \<in> set class_names \<Longrightarrow> governance_class cls \<Longrightarrow> governance_rule p cls \<noteq> None"
proof -
  have "list_all (\<lambda>c. governance_class c \<longrightarrow> governance_rule p c \<noteq> None) class_names"
    by (simp add: class_names_def CLASSES_def governance_class_def starts_with_def
        governance_rule_def reserved_classes_def)
  then show "cls \<in> set class_names \<Longrightarrow> governance_class cls \<Longrightarrow> governance_rule p cls \<noteq> None"
    by (simp add: list_all_iff)
qed

lemma governance_rule_governance:
  assumes "governance_rule p cls = Some rl"
  shows "governance_class cls" and "rule_mode rl = Auto"
proof -
  let ?fixed = "[''governance.contacts'', ''governance.twin'', ''governance.constitution'',
                 ''governance.credentials'', ''governance.memory''] @ reserved_classes"
  have "list_all governance_class ?fixed" by code_simp
  moreover have "cls \<in> set ?fixed"
    using assms by (simp add: governance_rule_def split: if_split_asm)
  ultimately show "governance_class cls" unfolding list_all_iff by blast
  show "rule_mode rl = Auto"
    using assms by (auto simp: governance_rule_def split: if_split_asm)
qed

lemma governance_low:
  "map_of CLASSES cls = Some pr \<Longrightarrow> governance_class cls \<Longrightarrow> band pr = LOW"
proof -
  have "list_all (\<lambda>(c, pr). governance_class c \<longrightarrow> band pr = LOW) CLASSES" by code_simp
  then show "map_of CLASSES cls = Some pr \<Longrightarrow> governance_class cls \<Longrightarrow> band pr = LOW"
    by (auto simp: list_all_iff dest!: map_of_SomeD)
qed

lemma validate_roles:
  assumes "validate_policy p = Inr ()"
  shows "\<exists>d. map_of (roles p) r = Some d"
    and "lineage p r = Inr (if r \<in> {Owner, Caregiver} then [Adult, r] else [r])"
proof -
  from assms have keys: "fst ` set (roles p) = UNIV"
    and inh: "inherits_of p Adult = None" "inherits_of p Owner = Some Adult"
      "inherits_of p Caregiver = Some Adult" "inherits_of p Teen = None" "inherits_of p Child = None"
      "inherits_of p Guest = None" "inherits_of p Unknown = None"
    by (auto simp: validate_policy_def rbind_Inr_iff)
  have all: "\<exists>d. map_of (roles p) r = Some d" for r
    using keys by (metis UNIV_I map_of_eq_None_iff not_None_eq)
  then show "\<exists>d. map_of (roles p) r = Some d" .
  have "\<exists>d. map_of (roles p) q = Some d \<and> inherits d = inherits_of p q" for q
    using all [of q] by (auto simp: inherits_of_def)
  then obtain d where d: "\<And>q. map_of (roles p) q = Some (d q)" "\<And>q. inherits (d q) = inherits_of p q"
    by metis
  show "lineage p r = Inr (if r \<in> {Owner, Caregiver} then [Adult, r] else [r])"
    by (cases r) (simp_all add: lineage_def lineage_loop.simps d inh)
qed

lemma validate_domain_allowed:
  assumes "validate_policy p = Inr ()"
  shows "\<exists>b. domain_allowed p r cls = Inr b"
proof -
  have "\<exists>ds. mapM (\<lambda>q. of_opt KeyError (map_of (roles p) q)) rs = Inr ds" for rs
  proof (induction rs)
    case (Cons q rs)
    then show ?case using validate_roles(1) [OF assms, of q] by (auto simp: of_opt_def)
  qed simp
  then show ?thesis
    by (auto simp: domain_allowed_def validate_roles(2) [OF assms] rbind_Inr_iff)
qed

lemma validate_select_rule:
  assumes "validate_policy p = Inr ()" and "cls \<in> set class_names"
  shows "\<exists>rl. select_rule p cls r = Inr rl"
  using class_names_two_parts [OF assms(2)]
  by (auto simp: select_rule_def validate_roles(2) [OF assms(1)] split: option.splits)

lemma validate_role_mode:
  assumes "validate_policy p = Inr ()" and "cls \<in> set class_names"
  shows "\<exists>m. role_mode p cls r = Inr m"
  using validate_select_rule [OF assms, of r] validate_domain_allowed [OF assms(1), of r cls]
  by (auto simp: role_mode_def validate_roles(2) [OF assms(1)])

lemma fold_tighten_ge: "m \<le> fold (\<lambda>a m. tighten_entry m (f a)) rs m"
proof (induction rs arbitrary: m)
  case (Cons a rs)
  have "m \<le> tighten_entry m (f a)" by (simp add: tighten_entry_def split: option.splits)
  with Cons show ?case by (auto intro: order_trans)
qed simp

lemma role_mode_ge_rule:
  assumes "role_mode p cls r = Inr m" and "select_rule p cls r = Inr rl" and "\<not> governance_class cls"
  shows "rule_mode rl \<le> m"
  using assms fold_tighten_ge [of "rule_mode rl" "\<lambda>a. role_entry p a cls"]
  by (auto simp: role_mode_def governance_class_def starts_with_def rbind_Inr_iff split: if_splits)

lemma autonomy_entry_validated:
  assumes "validate_policy p = Inr ()"
    and "map_of (autonomy p) dm = Some rules" and "map_of rules k = Some rl"
  shows "validate_autonomy_entry p dm (k, rl) = Inr ()"
proof -
  from assms(1) obtain u where "mapM (\<lambda>(dm, rules).
      rbind (guard ValueError (dm \<in> DOMAINS)) (\<lambda>_. mapM (validate_autonomy_entry p dm) rules))
      (autonomy p) = Inr u"
    by (auto simp: validate_policy_def rbind_Inr_iff)
  with map_of_SomeD [OF assms(2)] obtain v where "mapM (validate_autonomy_entry p dm) rules = Inr v"
    by (fastforce dest: mapM_Inr_set simp: rbind_Inr_iff)
  with map_of_SomeD [OF assms(3)] show ?thesis by (auto dest: mapM_Inr_set)
qed

text \<open>A rule is one the code fixes, the default of an unlisted class, or a validated entry.\<close>

lemma select_rule_cases:
  assumes "select_rule p cls r = Inr rl"
  obtains (fixed) "governance_rule p cls = Some rl"
  | (unlisted) m where "rl = plain_rule m []" "m \<noteq> Auto" "length (split_on (CHR ''.'') cls) = 2"
  | (listed) rules where "map_of (autonomy p) (class_domain cls) = Some rules"
      "map_of rules (class_key cls) = Some rl" "length (split_on (CHR ''.'') cls) = 2"
proof (cases "governance_rule p cls")
  case (Some g)
  with assms fixed show thesis by (simp add: select_rule_def)
next
  case None
  with assms have two: "length (split_on (CHR ''.'') cls) = 2"
    by (auto simp: select_rule_def split: if_split_asm)
  with None assms obtain rs where rl: "rl = dict_get (dict_get (autonomy p) (class_domain cls) [])
      (class_key cls) (plain_rule (if Adult \<in> set rs then Ask else Never) [])"
    unfolding select_rule_def by (simp add: rbind_Inr_iff) blast
  show thesis
  proof (cases "map_of (dict_get (autonomy p) (class_domain cls) []) (class_key cls)")
    case None
    with rl two unlisted show thesis by (simp add: dict_get_def split: if_split_asm)
  next
    case (Some x)
    then obtain rules where "map_of (autonomy p) (class_domain cls) = Some rules" "map_of rules (class_key cls) = Some x"
      by (auto simp: dict_get_def split: option.split_asm)
    with Some rl two listed show thesis by (simp add: dict_get_def)
  qed
qed

lemma floor_not_auto:
  assumes "validate_policy p = Inr ()" and "map_of CLASSES cls = Some pr"
    and "floor_outcome (band pr) \<noteq> Floor_none" and "select_rule p cls r = Inr rl"
  shows "rule_mode rl \<noteq> Auto"
  using assms(4)
proof (cases rule: select_rule_cases)
  case fixed
  then have "governance_class cls" by (rule governance_rule_governance)
  with assms(2,3) governance_low show ?thesis by fastforce
next
  case (unlisted m)
  then show ?thesis by (simp add: plain_rule_def)
next
  case (listed rules)
  from autonomy_entry_validated [OF assms(1) listed(1,2)] class_parts [OF listed(3)] assms(2,3)
  show ?thesis by (auto simp: validate_autonomy_entry_def rbind_Inr_iff Let_def)
qed

lemma security_channels:
  assumes "validate_policy p = Inr ()" and "cls \<in> set class_names" and "security_class cls"
    and "select_rule p cls r = Inr rl"
  shows "Ch_alexa \<notin> set (effective_channels p rl)"
proof -
  from assms(1) obtain u where "mapM (validate_security_class p) class_names = Inr u"
    by (auto simp: validate_policy_def rbind_Inr_iff)
  with assms(2) have "validate_security_class p cls = Inr ()" by (auto dest: mapM_Inr_set)
  with assms(3) obtain ro where ro: "select_rule p cls Owner = Inr ro"
    and ch: "Ch_alexa \<notin> set (effective_channels p ro)"
    by (auto simp: validate_security_class_def rbind_Inr_iff)
  have "effective_channels p rl = effective_channels p ro"
    using assms(4) ro
    by (auto simp: select_rule_def dict_get_def rbind_Inr_iff effective_channels_def plain_rule_def
        split: option.splits if_splits)
  with ch show ?thesis by simp
qed

lemma approvers_adult:
  assumes "validate_policy p = Inr ()" and "approvers p cls q = Inr rs"
  shows "set rs \<subseteq> {Owner, Adult, Caregiver}" and "q = Quorum_owner \<Longrightarrow> set rs \<subseteq> {Owner}"
proof -
  have "approver p cls q r = Inr True" if "r \<in> set rs" for r
  proof -
    from assms(2) obtain rbs where
      rbs: "mapM (\<lambda>r. rbind (approver p cls q r) (\<lambda>b. Inr (r, b))) ROLES = Inr rbs"
      and rs: "rs = map fst (filter snd rbs)"
      by (auto simp: approvers_def rbind_Inr_iff)
    from that rs obtain i where i: "i < length rbs" "rbs ! i = (r, True)"
      by (auto simp: in_set_conv_nth)
    with mapM_Inr_nth [OF rbs, of i] mapM_Inr_length [OF rbs] show ?thesis
      by (auto simp: rbind_Inr_iff)
  qed
  then show "set rs \<subseteq> {Owner, Adult, Caregiver}" and "q = Quorum_owner \<Longrightarrow> set rs \<subseteq> {Owner}"
    by (fastforce simp: approver_def rbind_Inr_iff validate_roles(2) [OF assms(1)] split: if_splits)+
qed

lemma validate_approvers:
  assumes "validate_policy p = Inr ()"
  shows "\<exists>rs. approvers p cls q = Inr rs"
proof -
  have "\<exists>b. approver p cls q r = Inr b" for r
    using validate_domain_allowed [OF assms, of r cls]
    by (auto simp: approver_def validate_roles(2) [OF assms])
  then obtain b where "\<And>r. approver p cls q r = Inr (b r)" by metis
  then show ?thesis by (simp add: approvers_def mapM_map [where g = "\<lambda>r. (r, b r)"])
qed

end
