(* ===== verification/Evaluator.thy ===== *)
theory Evaluator
  imports Schema
begin

text \<open>
  Rule resolution, \<open>hirz/constitution/evaluator.py\<close>: the values a policy reads, the numeric
  guards of a rule and \<open>resolve\<close> itself. The theorems characterise the autonomous outcome
  exactly and show that resolution only ever tightens and fails closed.
\<close>

section \<open>Outcome data\<close>

datatype diagnostic_code = D_POLICY_ERROR | D_DENY_CONSTITUTION | D_DENY_BOUNDS

record diagnostic =
  code :: diagnostic_code
  paths :: "string list"

record approval_requirements =
  ttl_minutes :: int
  ap_quorum :: quorum
  channels :: "channel list"
  approver_roles :: "role list"

record rule_outcome =
  constitution_version :: int
  selected_rule :: string
  effective_mode :: mode
  conditions_met :: bool
  approval :: approval_requirements
  o_bounds :: "bounds option"
  o_budget :: "int option"
  o_max_open_minutes :: "int option"
  o_max_minutes :: "int option"
  diagnostics :: "diagnostic list"

section \<open>Values and guards\<close>

definition opt_str :: "string option \<Rightarrow> pv" where
  "opt_str x = (case x of None \<Rightarrow> PNone | Some s \<Rightarrow> PStr s)"

definition requester_dump :: "requester \<Rightarrow> pdict" where
  "requester_dump r =
     [(''member_id'', opt_str (member_id r)), (''role'', PStr (role_name (rq_role r))),
      (''surface'', PStr (surface_name (rq_surface r))), (''speaker'', opt_str (speaker r)),
      (''claimed_author'', opt_str (claimed_author r))]"

text \<open>
  \<open>action.model_dump(by_alias=True, exclude_unset=True)\<close>, without the optional fields
  \<open>plan_id\<close>, \<open>scheduled_for\<close>, \<open>expected_effect\<close> and \<open>revert\<close>, which no attribute path names.
\<close>

definition action_dump :: "action \<Rightarrow> pdict" where
  "action_dump a =
     [(''action_id'', PStr (action_id a)), (''class'', PStr (action_class a)),
      (''target'', PDict ([(''adapter'', PStr (adapter (a_target a))),
                          (''entity'', PStr (entity (a_target a)))] @
                         (if zone_set (a_target a) then [(''zone'', opt_str (zone (a_target a)))] else []))),
      (''params'', PDict (params a)), (''requested_by'', PDict (requester_dump (requested_by a))),
      (''reason'', PStr (reason a)), (''content_hash'', PStr (content_hash a))]"

text \<open>\<open>dict(values.get("requester", {}))\<close>: a mapping, or an empty sequence, else \<open>TypeError\<close>.\<close>

definition py_dict :: "pv \<Rightarrow> pdict result" where
  "py_dict v =
     (case v of PDict d \<Rightarrow> Inr d
      | PStr [] \<Rightarrow> Inr [] | PList [] \<Rightarrow> Inr []
      | _ \<Rightarrow> Inl TypeError)"

definition policy_values :: "action \<Rightarrow> policy_facts \<Rightarrow> pdict result" where
  "policy_values a facts =
     (let vs = dict_set ''action'' (PDict (action_dump a)) (pf_values facts) in
      rbind (py_dict (dict_get vs ''requester'' (PDict []))) (\<lambda>rq.
        Inr (dict_set ''requester'' (PDict (dict_update rq (requester_dump (requested_by a)))) vs)))"

text \<open>A guard: the path it reads, whether it is a lower bound, and the bound.\<close>

type_synonym guard_row = "string \<times> bool \<times> int"

definition opt_row :: "string \<Rightarrow> bool \<Rightarrow> int option \<Rightarrow> guard_row list" where
  "opt_row path ge b =
     (case b of None \<Rightarrow> [] | Some v \<Rightarrow> [(''action.params.'' @ path, ge, v)])"

definition guards :: "rule \<Rightarrow> guard_row list" where
  "guards rl =
     (case rule_bounds rl of
        None \<Rightarrow> []
      | Some b \<Rightarrow> opt_row ''target_f'' True (min_f b) @ opt_row ''target_f'' False (max_f b)
                  @ opt_row ''ev_soc_floor'' True (ev_soc_floor b)) @
     opt_row ''open_minutes'' False (max_open_minutes rl) @
     opt_row ''minutes'' False (max_minutes rl)"

definition violates :: "bool \<Rightarrow> int \<Rightarrow> int \<Rightarrow> bool" where
  "violates ge v bound \<longleftrightarrow> ge \<and> v < bound \<or> \<not> ge \<and> v > bound"

section \<open>Resolution\<close>

fun pv_truthy :: "pv \<Rightarrow> bool" where
  "pv_truthy PNone = False"
| "pv_truthy (PBool b) = b"
| "pv_truthy (PInt n) = (n \<noteq> 0)"
| "pv_truthy (PFloat (FFin (Dec c e))) = (c \<noteq> 0)"
| "pv_truthy (PFloat _) = True"
| "pv_truthy (PDec (Dec c e)) = (c \<noteq> 0)"
| "pv_truthy (PStr s) = (s \<noteq> [])"
| "pv_truthy (PList l) = (l \<noteq> [])"
| "pv_truthy (PDict d) = (d \<noteq> [])"

text \<open>Credentials are managed by the owner, or by a member for that member alone.\<close>

definition credentials_refused :: "action \<Rightarrow> bool" where
  "credentials_refused a \<longleftrightarrow>
     (let pm = dict_get (params a) ''member_id'' PNone; rm = member_id (requested_by a) in
      \<not> pv_truthy pm \<or> rm = None \<or> rm = Some []
      \<or> rq_role (requested_by a) \<noteq> Owner \<and> pm \<noteq> opt_str rm)"

type_synonym rstate = "mode \<times> string list \<times> diagnostic list"

definition guard_step :: "pdict \<Rightarrow> guard_row \<Rightarrow> rstate \<Rightarrow> rstate result" where
  "guard_step vs g st =
     (case (g, st) of ((path, ge, bound), (m, errs, dg)) \<Rightarrow>
       (case attribute vs path of
          Inl (FactError ps) \<Rightarrow> Inr (Never, errs @ ps, dg)
        | Inl e \<Rightarrow> Inl e
        | Inr None \<Rightarrow> Inr (Never, errs @ [path], dg)
        | Inr (Some (VNum v)) \<Rightarrow>
            if violates ge v bound
            then Inr (Never, errs, dg @ [\<lparr>code = D_DENY_BOUNDS, paths = [path]\<rparr>])
            else Inr (m, errs, dg)
        | Inr (Some _) \<Rightarrow> Inl TypeError))"

definition visitor_path :: string where
  "visitor_path = ''context.unexpected_visitor''"

definition visitor_step :: "rule \<Rightarrow> pdict \<Rightarrow> rstate \<Rightarrow> rstate result" where
  "visitor_step rl vs st =
     (if ''unexpected_visitor'' \<notin> set (never_for rl) then Inr st
      else case st of (m, errs, dg) \<Rightarrow>
        (case attribute vs visitor_path of
           Inl (FactError ps) \<Rightarrow> Inr (Never, errs @ ps, dg)
         | Inl e \<Rightarrow> Inl e
         | Inr None \<Rightarrow> Inr (Never, errs @ [visitor_path], dg)
         | Inr (Some (VBool b)) \<Rightarrow> Inr (if b then Never else m, errs, dg)
         | Inr (Some _) \<Rightarrow> Inl TypeError))"

definition condition_step ::
  "nat \<Rightarrow> pdict \<Rightarrow> policy_facts \<Rightarrow> string \<Rightarrow> bool \<times> string list \<Rightarrow> (bool \<times> string list) result"
where
  "condition_step frames vs facts c st =
     rbind (parse frames c) (\<lambda>n.
       case evaluate n vs facts of
         Inr b \<Rightarrow> Inr (b \<and> fst st, snd st)
       | Inl (FactError ps) \<Rightarrow> Inr (False, snd st @ ps)
       | Inl e \<Rightarrow> Inl e)"

text \<open>The first matching override decides; an unresolved one stops the search.\<close>

fun override_loop ::
  "nat \<Rightarrow> pdict \<Rightarrow> policy_facts \<Rightarrow> override list \<Rightarrow> mode \<times> string list \<Rightarrow> (mode \<times> string list) result"
where
  "override_loop frames vs facts [] st = Inr st"
| "override_loop frames vs facts (ov # ovs) (m, errs) =
     rbind (parse frames (when ov)) (\<lambda>n.
       case evaluate n vs facts of
         Inr True \<Rightarrow> Inr (tighten m (ov_mode ov), errs)
       | Inr False \<Rightarrow> override_loop frames vs facts ovs (m, errs)
       | Inl (FactError ps) \<Rightarrow> Inr (m, errs @ ps)
       | Inl e \<Rightarrow> Inl e)"

text \<open>The body of \<open>if mode != "never"\<close>: guards, visitor, conditions, overrides, demotion.\<close>

definition resolve_open ::
  "nat \<Rightarrow> rule \<Rightarrow> string \<Rightarrow> pdict \<Rightarrow> policy_facts \<Rightarrow> bool \<Rightarrow> mode
     \<Rightarrow> (mode \<times> bool \<times> string list \<times> diagnostic list) result"
where
  "resolve_open frames rl name vs facts hard_only m0 =
     rbind (foldM (guard_step vs) (guards rl) (m0, [], [])) (\<lambda>st1.
     rbind (visitor_step rl vs st1) (\<lambda>(m2, errs2, dg).
     rbind (foldM (condition_step frames vs facts)
              (if \<not> hard_only \<or> governance_class name then conditions rl else []) (True, errs2))
       (\<lambda>(met, errs3).
     rbind (override_loop frames vs facts (if hard_only then [] else overrides rl) (m2, errs3))
       (\<lambda>(m4, errs4).
       let m5 = (if m4 = Auto \<and> (\<not> met \<or> errs4 \<noteq> [])
                 then (if governance_class name then Never else Ask) else m4)
       in Inr (m5, met, errs4, dg)))))"

definition resolve ::
  "nat \<Rightarrow> constitution \<Rightarrow> action \<Rightarrow> policy_facts \<Rightarrow> bool \<Rightarrow> rule_outcome result"
where
  "resolve frames p a facts hard_only =
     (let name = action_class a; r = rq_role (requested_by a) in
      rbind (select_rule p name r) (\<lambda>rl.
      rbind (role_mode p name r) (\<lambda>rm.
      let m1 = (if name = ''governance.credentials'' \<and> credentials_refused a then Never else rm) in
      rbind (policy_values a facts) (\<lambda>vs.
      let same = (household facts = c_household p);
          m2 = (if same then m1 else Never); errs0 = (if same then [] else [''household'']) in
      rbind (if m2 = Never then Inr (Never, True, [], [])
             else resolve_open frames rl name vs facts hard_only m2) (\<lambda>(m, met, errs, dg).
      rbind (approvers p name (quorum rl)) (\<lambda>apr.
      let all_errs = errs0 @ errs;
          dg1 = dg @ (if all_errs = [] then []
                      else [\<lparr>code = D_POLICY_ERROR, paths = sorted_set all_errs\<rparr>]);
          dg2 = dg1 @ (if m = Never \<and> dg1 = [] then [\<lparr>code = D_DENY_CONSTITUTION, paths = []\<rparr>] else [])
      in Inr \<lparr>constitution_version = version p, selected_rule = name, effective_mode = m,
              conditions_met = met,
              approval = \<lparr>ttl_minutes = (case approval_ttl_minutes rl of
                             Some t \<Rightarrow> if t = 0 then d_approval_ttl_minutes (c_defaults p) else t
                           | None \<Rightarrow> d_approval_ttl_minutes (c_defaults p)),
                          ap_quorum = quorum rl, channels = effective_channels p rl,
                          approver_roles = apr\<rparr>,
              o_bounds = rule_bounds rl, o_budget = usd_per_day rl,
              o_max_open_minutes = max_open_minutes rl, o_max_minutes = max_minutes rl,
              diagnostics = dg2\<rparr>))))))"

section \<open>What each stage of resolution does\<close>

definition guard_ok :: "pdict \<Rightarrow> guard_row \<Rightarrow> bool" where
  "guard_ok vs g =
     (case g of (path, ge, bound) \<Rightarrow>
       (case attribute vs path of Inr (Some (VNum v)) \<Rightarrow> \<not> violates ge v bound | _ \<Rightarrow> False))"

definition visitor_ok :: "rule \<Rightarrow> pdict \<Rightarrow> bool" where
  "visitor_ok rl vs \<longleftrightarrow>
     ''unexpected_visitor'' \<in> set (never_for rl) \<longrightarrow> attribute vs visitor_path = Inr (Some (VBool False))"

text \<open>What a condition says of the facts: it holds, it fails, or its facts are unresolved.\<close>

definition verdict :: "nat \<Rightarrow> pdict \<Rightarrow> policy_facts \<Rightarrow> string \<Rightarrow> bool result" where
  "verdict frames vs facts c = rbind (parse frames c) (\<lambda>n. evaluate n vs facts)"

text \<open>No override tightens: the first one that does not fail holds, and its mode is automatic.\<close>

fun overrides_clear :: "nat \<Rightarrow> pdict \<Rightarrow> policy_facts \<Rightarrow> override list \<Rightarrow> bool" where
  "overrides_clear frames vs facts [] = True"
| "overrides_clear frames vs facts (ov # ovs) =
     (case verdict frames vs facts (when ov) of
        Inr True \<Rightarrow> ov_mode ov = Auto
      | Inr False \<Rightarrow> overrides_clear frames vs facts ovs
      | Inl _ \<Rightarrow> False)"

lemma guards_kind: "g \<in> set (guards rl) \<Longrightarrow> attr_kind (fst g) = Some K_number"
proof -
  have k: "attr_kind ''action.params.target_f'' = Some K_number"
    "attr_kind ''action.params.ev_soc_floor'' = Some K_number"
    "attr_kind ''action.params.open_minutes'' = Some K_number"
    "attr_kind ''action.params.minutes'' = Some K_number" by code_simp+
  assume "g \<in> set (guards rl)"
  then show ?thesis
    by (auto simp: guards_def opt_row_def k split: option.split_asm)
qed

lemma visitor_kind: "attr_kind visitor_path = Some K_bool" by code_simp

lemma attribute_of_kind:
  assumes "attr_kind p = Some k"
  obtains (err) "attribute vs p = Inl (FactError [p])" | (unset) "attribute vs p = Inr None"
  | (known) x where "attribute vs p = Inr (Some x)" "val_kind x = k"
proof (cases "attribute vs p")
  case (Inl e)
  with assms attribute_error err show thesis by (metis option.distinct(1))
next
  case (Inr o1)
  with assms attribute_kind unset known show thesis by (cases o1) fastforce+
qed

lemma guard_step_outcome:
  assumes "attr_kind (fst g) = Some K_number"
  shows "\<exists>e d. guard_step vs g (m, errs, dg) = Inr (if guard_ok vs g then m else Never, errs @ e, dg @ d) \<and>
               (guard_ok vs g \<longleftrightarrow> e = [] \<and> d = [])"
proof -
  obtain path ge bound where g: "g = (path, ge, bound)" by (cases g)
  from assms g have "attr_kind path = Some K_number" by simp
  then show ?thesis
  proof (cases rule: attribute_of_kind [where vs = vs])
    case (known x)
    then obtain v where "x = VNum v" by (cases x) auto
    with known g show ?thesis by (auto simp: guard_step_def guard_ok_def)
  qed (simp_all add: g guard_step_def guard_ok_def)
qed

lemma guards_outcome:
  assumes "\<forall>g \<in> set gs. attr_kind (fst g) = Some K_number"
  shows "\<exists>e d. foldM (guard_step vs) gs (m, errs, dg) =
                 Inr (if list_all (guard_ok vs) gs then m else Never, errs @ e, dg @ d) \<and>
               (list_all (guard_ok vs) gs \<longleftrightarrow> e = [] \<and> d = [])"
  using assms
proof (induction gs arbitrary: m errs dg)
  case (Cons g gs)
  from Cons.prems have "attr_kind (fst g) = Some K_number" by simp
  then obtain e d where
    s: "guard_step vs g (m, errs, dg) = Inr (if guard_ok vs g then m else Never, errs @ e, dg @ d)"
    and ok: "guard_ok vs g \<longleftrightarrow> e = [] \<and> d = []" using guard_step_outcome by blast
  from Cons.prems have "\<forall>g \<in> set gs. attr_kind (fst g) = Some K_number" by simp
  from Cons.IH [OF this, of "if guard_ok vs g then m else Never" "errs @ e" "dg @ d"] obtain e' d' where
    s': "foldM (guard_step vs) gs (if guard_ok vs g then m else Never, errs @ e, dg @ d) =
      Inr (if list_all (guard_ok vs) gs then if guard_ok vs g then m else Never else Never,
           (errs @ e) @ e', (dg @ d) @ d')"
    and ok': "list_all (guard_ok vs) gs \<longleftrightarrow> e' = [] \<and> d' = []" by (elim exE conjE)
  show ?case
    by (rule exI [of _ "e @ e'"], rule exI [of _ "d @ d'"]) (use s s' ok ok' in auto)
qed simp

lemma visitor_outcome:
  "\<exists>e. visitor_step rl vs (m, errs, dg) = Inr (if visitor_ok rl vs then m else Never, errs @ e, dg) \<and>
       (visitor_ok rl vs \<longrightarrow> e = [])"
proof (cases "''unexpected_visitor'' \<in> set (never_for rl)")
  case True
  from visitor_kind show ?thesis
  proof (cases rule: attribute_of_kind [where vs = vs])
    case (known x)
    then obtain b where "x = VBool b" by (cases x) auto
    with known True show ?thesis by (simp add: visitor_step_def visitor_ok_def)
  qed (use True in \<open>simp_all add: visitor_step_def visitor_ok_def\<close>)
qed (simp add: visitor_step_def visitor_ok_def)

lemma parses_verdict:
  assumes "parses frames c"
  obtains (holds) n where "parse frames c = Inr n" "evaluate n vs facts = Inr True" "verdict frames vs facts c = Inr True"
  | (fails) n where "parse frames c = Inr n" "evaluate n vs facts = Inr False" "verdict frames vs facts c = Inr False"
  | (unresolved) n ps where "parse frames c = Inr n" "evaluate n vs facts = Inl (FactError ps)" "ps \<noteq> []"
      "verdict frames vs facts c = Inl (FactError ps)"
proof -
  from assms obtain n where n: "parse frames c = Inr n"
    by (auto simp: parses_def split: sum.split_asm)
  then have v: "verdict frames vs facts c = evaluate n vs facts" by (simp add: verdict_def)
  from evaluate_total [OF parse_well_typed [OF n], of vs facts] show thesis
  proof (elim disjE exE conjE)
    fix b assume "evaluate n vs facts = Inr b"
    with n v holds fails show thesis by (cases b) auto
  qed (use n v unresolved in auto)
qed

lemma conditions_outcome:
  assumes "list_all (parses frames) cs"
  shows "\<exists>e. foldM (condition_step frames vs facts) cs (met, errs) =
               Inr (met \<and> list_all (\<lambda>c. verdict frames vs facts c = Inr True) cs, errs @ e) \<and>
             (list_all (\<lambda>c. verdict frames vs facts c = Inr True) cs \<longrightarrow> e = [])"
  using assms
proof (induction cs arbitrary: met errs)
  case (Cons c cs)
  from Cons.prems have "parses frames c" by simp
  then obtain e where s: "condition_step frames vs facts c (met, errs) =
      Inr (met \<and> verdict frames vs facts c = Inr True, errs @ e)"
    and e: "verdict frames vs facts c = Inr True \<longrightarrow> e = []"
    by (cases rule: parses_verdict [where vs = vs and facts = facts]) (auto simp: condition_step_def)
  from Cons.prems Cons.IH [of "met \<and> verdict frames vs facts c = Inr True" "errs @ e"] s e
  show ?case by fastforce
qed simp

lemma overrides_outcome:
  assumes "list_all (\<lambda>ov. parses frames (when ov)) ovs"
  shows "\<exists>m' e. override_loop frames vs facts ovs (m, errs) = Inr (m', errs @ e) \<and> m \<le> m' \<and>
           (m' = Auto \<and> e = [] \<longleftrightarrow> m = Auto \<and> overrides_clear frames vs facts ovs) \<and>
           (m' = m \<or> m' \<in> ov_mode ` set ovs)"
  using assms
proof (induction ovs)
  case (Cons ov ovs)
  from Cons.prems have "parses frames (when ov)" by simp
  then show ?case
  proof (cases rule: parses_verdict [where vs = vs and facts = facts])
    case (holds n)
    then show ?thesis
      by (cases m; cases "ov_mode ov") (simp_all add: tighten_def)
  next
    case (fails n)
    with Cons show ?thesis by fastforce
  next
    case (unresolved n ps)
    then show ?thesis by auto
  qed
qed simp

text \<open>The conditions and overrides a call reads: \<open>hard_only\<close> skips both but for governance.\<close>

definition read_conditions :: "bool \<Rightarrow> string \<Rightarrow> rule \<Rightarrow> string list" where
  "read_conditions hard_only name rl = (if \<not> hard_only \<or> governance_class name then conditions rl else [])"

definition read_overrides :: "bool \<Rightarrow> rule \<Rightarrow> override list" where
  "read_overrides hard_only rl = (if hard_only then [] else overrides rl)"

definition rule_parses :: "nat \<Rightarrow> rule \<Rightarrow> bool" where
  "rule_parses frames rl \<longleftrightarrow> list_all (parses frames) (conditions rl) \<and>
     list_all (\<lambda>ov. parses frames (when ov)) (overrides rl)"

text \<open>Everything the rule asks of the facts holds.\<close>

definition satisfied :: "nat \<Rightarrow> rule \<Rightarrow> string \<Rightarrow> pdict \<Rightarrow> policy_facts \<Rightarrow> bool \<Rightarrow> bool" where
  "satisfied frames rl name vs facts hard_only \<longleftrightarrow>
     list_all (guard_ok vs) (guards rl) \<and> visitor_ok rl vs \<and>
     list_all (\<lambda>c. verdict frames vs facts c = Inr True) (read_conditions hard_only name rl) \<and>
     overrides_clear frames vs facts (read_overrides hard_only rl)"

lemma resolve_open_outcome:
  assumes "rule_parses frames rl"
  shows "\<exists>m met e d. resolve_open frames rl name vs facts hard_only m0 = Inr (m, met, e, d) \<and> m0 \<le> m \<and>
           (m = Auto \<longleftrightarrow> m0 = Auto \<and> satisfied frames rl name vs facts hard_only) \<and>
           (m = Auto \<longrightarrow> e = [] \<and> d = []) \<and>
           (\<not> (list_all (guard_ok vs) (guards rl) \<and> visitor_ok rl vs) \<longrightarrow> m = Never) \<and>
           (governance_class name \<and> overrides rl = [] \<and> m0 \<noteq> Ask \<longrightarrow> m \<noteq> Ask)"
proof -
  let ?cs = "read_conditions hard_only name rl" and ?ovs = "read_overrides hard_only rl"
  from assms have pc: "list_all (parses frames) ?cs" and po: "list_all (\<lambda>ov. parses frames (when ov)) ?ovs"
    by (auto simp: rule_parses_def read_conditions_def read_overrides_def)
  let ?g = "list_all (guard_ok vs) (guards rl)" and ?v = "visitor_ok rl vs"
  let ?c = "list_all (\<lambda>c. verdict frames vs facts c = Inr True) ?cs"
  let ?m1 = "if ?g then m0 else Never"
  let ?m2 = "if ?v then ?m1 else Never"
  obtain e1 d1 where g: "foldM (guard_step vs) (guards rl) (m0, [], []) = Inr (?m1, e1, d1)"
    and g': "?g \<longleftrightarrow> e1 = [] \<and> d1 = []"
    using guards_outcome [of "guards rl" vs m0 "[]" "[]"] guards_kind unfolding append_Nil by blast
  obtain e2 where v: "visitor_step rl vs (?m1, e1, d1) = Inr (?m2, e1 @ e2, d1)" and v': "?v \<longrightarrow> e2 = []"
    using visitor_outcome [of rl vs ?m1 e1 d1] by auto
  obtain e3 where c: "foldM (condition_step frames vs facts) ?cs (True, e1 @ e2) = Inr (?c, (e1 @ e2) @ e3)"
    and c': "?c \<longrightarrow> e3 = []"
    using conditions_outcome [OF pc, of vs facts True "e1 @ e2"] by auto
  obtain m4 e4 where o: "override_loop frames vs facts ?ovs (?m2, (e1 @ e2) @ e3) = Inr (m4, ((e1 @ e2) @ e3) @ e4)"
    and le: "?m2 \<le> m4" and mem: "m4 = ?m2 \<or> m4 \<in> ov_mode ` set ?ovs" and o': "m4 = Auto \<and> e4 = [] \<longleftrightarrow> ?m2 = Auto \<and> overrides_clear frames vs facts ?ovs"
    using overrides_outcome [OF po, of vs facts ?m2 "(e1 @ e2) @ e3"] by blast
  define E where "E = ((e1 @ e2) @ e3) @ e4"
  define m where "m = (if m4 = Auto \<and> (\<not> ?c \<or> E \<noteq> []) then (if governance_class name then Never else Ask) else m4)"
  have r: "resolve_open frames rl name vs facts hard_only m0 = Inr (m, ?c, E, d1)"
    unfolding resolve_open_def read_conditions_def [symmetric] read_overrides_def [symmetric]
    by (simp only: g v c o rbind.simps prod.case Let_def m_def E_def)
  have auto: "m = Auto \<longleftrightarrow> m4 = Auto \<and> ?c \<and> E = []" by (auto simp: m_def)
  have le': "m0 \<le> m"
    using le by (cases m0; cases m4) (auto simp: m_def split: if_split_asm)
  have "m = Auto \<longleftrightarrow> m0 = Auto \<and> satisfied frames rl name vs facts hard_only"
    unfolding auto satisfied_def E_def using o' g' v' c' le by (auto split: if_split_asm)
  moreover have "m = Auto \<longrightarrow> E = [] \<and> d1 = []"
    unfolding auto using g' le by (auto split: if_split_asm)
  moreover have "\<not> (?g \<and> ?v) \<longrightarrow> m = Never" using le by (auto simp: m_def split: if_split_asm)
  moreover have "governance_class name \<and> overrides rl = [] \<and> m0 \<noteq> Ask \<longrightarrow> m \<noteq> Ask"
    using mem by (auto simp: m_def read_overrides_def split: if_split_asm)
  ultimately show ?thesis using r le' by blast
qed

section \<open>Resolution as a whole\<close>

definition requester_denied :: "action \<Rightarrow> bool" where
  "requester_denied a \<longleftrightarrow> action_class a = ''governance.credentials'' \<and> credentials_refused a"

lemma resolve_outcome:
  assumes sel: "select_rule p (action_class a) (rq_role (requested_by a)) = Inr rl"
    and rm: "role_mode p (action_class a) (rq_role (requested_by a)) = Inr rm"
    and vs: "policy_values a facts = Inr vs"
    and apr: "approvers p (action_class a) (quorum rl) = Inr apr"
    and prs: "rule_parses frames rl"
  obtains out where "resolve frames p a facts hard_only = Inr out"
    and "rm \<le> effective_mode out"
    and "effective_mode out = Auto \<longleftrightarrow> rm = Auto \<and> \<not> requester_denied a \<and> household facts = c_household p \<and>
           satisfied frames rl (action_class a) vs facts hard_only"
    and "effective_mode out = Auto \<Longrightarrow> diagnostics out = []"
    and "effective_mode out = Never \<Longrightarrow> diagnostics out \<noteq> []"
    and "requester_denied a \<or> household facts \<noteq> c_household p \<or>
         \<not> (list_all (guard_ok vs) (guards rl) \<and> visitor_ok rl vs) \<Longrightarrow> effective_mode out = Never"
    and "channels (approval out) = effective_channels p rl" and "approver_roles (approval out) = apr"
    and "ap_quorum (approval out) = quorum rl"
    and "governance_class (action_class a) \<Longrightarrow> overrides rl = [] \<Longrightarrow> rm \<noteq> Ask \<Longrightarrow> effective_mode out \<noteq> Ask"
proof -
  let ?m1 = "if requester_denied a then Never else rm"
  let ?same = "household facts = c_household p"
  let ?m2 = "if ?same then ?m1 else Never"
  let ?body = "if ?m2 = Never then Inr (Never, True, [], [])
               else resolve_open frames rl (action_class a) vs facts hard_only ?m2"
  from resolve_open_outcome [OF prs, of "action_class a" vs facts hard_only ?m2] obtain m met e d where
    o: "?body = Inr (m, met, e, d)" "?m2 \<le> m"
    and au: "m = Auto \<longleftrightarrow> ?m2 = Auto \<and> satisfied frames rl (action_class a) vs facts hard_only"
    and au': "m = Auto \<longrightarrow> e = [] \<and> d = []"
    and nv: "?m2 = Never \<or> \<not> (list_all (guard_ok vs) (guards rl) \<and> visitor_ok rl vs) \<longrightarrow> m = Never"
    and gv: "governance_class (action_class a) \<and> overrides rl = [] \<and> ?m2 \<noteq> Ask \<longrightarrow> m \<noteq> Ask"
    by (cases "?m2 = Never") (auto split: if_split_asm)
  have le: "rm \<le> m" using o(2) by (cases rm; cases m) (auto split: if_split_asm)
  let ?out = "resolve frames p a facts hard_only"
  from sel rm vs apr o(1) have out: "\<exists>out. ?out = Inr out \<and> effective_mode out = m \<and>
      channels (approval out) = effective_channels p rl \<and> approver_roles (approval out) = apr \<and>
      ap_quorum (approval out) = quorum rl \<and>
      (m = Auto \<longrightarrow> diagnostics out = []) \<and> (m = Never \<longrightarrow> diagnostics out \<noteq> [])"
    unfolding resolve_def Let_def requester_denied_def
    using au au' by (auto split: if_split_asm)
  then obtain out where "?out = Inr out" "effective_mode out = m"
    "channels (approval out) = effective_channels p rl" "approver_roles (approval out) = apr"
    "ap_quorum (approval out) = quorum rl"
    "m = Auto \<longrightarrow> diagnostics out = []" "m = Never \<longrightarrow> diagnostics out \<noteq> []" by blast
  moreover have "m = Auto \<longleftrightarrow> rm = Auto \<and> \<not> requester_denied a \<and> ?same \<and>
      satisfied frames rl (action_class a) vs facts hard_only"
    unfolding au by simp
  moreover have "requester_denied a \<or> \<not> ?same \<or>
      \<not> (list_all (guard_ok vs) (guards rl) \<and> visitor_ok rl vs) \<longrightarrow> m = Never"
    using nv by (auto split: if_split_asm)
  moreover have "governance_class (action_class a) \<and> overrides rl = [] \<and> rm \<noteq> Ask \<longrightarrow> m \<noteq> Ask"
    using gv by (auto split: if_split_asm)
  ultimately show thesis using that [of out] le by simp
qed


lemma parses_mono: "parses d c \<Longrightarrow> d \<le> d' \<Longrightarrow> parses d' c"
  by (auto simp: parses_def dest: parse_mono split: sum.split_asm)

lemma rule_parses_mono: "rule_parses d rl \<Longrightarrow> d \<le> d' \<Longrightarrow> rule_parses d' rl"
  by (auto simp: rule_parses_def list_all_iff dest: parses_mono)

lemma plain_rule_parses [simp]: "rule_parses d (plain_rule m cs) = list_all (parses d) cs"
  by (simp add: rule_parses_def)

lemma selected_parses:
  assumes "valid_fields frames p" and "select_rule p cls r = Inr rl" and "governance_rule p cls = None"
  shows "rule_parses frames rl"
  using assms(2)
proof (cases rule: select_rule_cases)
  case (listed rules)
  from assms(1) map_of_SomeD [OF listed(1)] map_of_SomeD [OF listed(2)] have "valid_rule frames rl"
    by (fastforce simp: valid_fields_def list_all_iff)
  then show ?thesis by (simp add: valid_rule_def rule_parses_def)
qed (use assms in simp_all)

end
