(* ===== verification/Governance.thy ===== *)
theory Governance
  imports Evaluator
begin

text \<open>
  The authority that \<open>hirz/constitution/schema.py\<close> reserves for governance classes, written there
  as condition strings. The strings are parsed and evaluated symbolically, so that the outcome of
  \<open>resolve\<close> on a governance class is a table over the requester's role, surface and operation.
\<close>

section \<open>Conditions on strings\<close>

abbreviation is_eq :: "string \<Rightarrow> string \<Rightarrow> node" where
  "is_eq p s \<equiv> NCmp Eq (NAttr p) (NLit (LStr s))"

abbreviation is_neq :: "string \<Rightarrow> string \<Rightarrow> node" where
  "is_neq p s \<equiv> NCmp Neq (NAttr p) (NLit (LStr s))"

text \<open>The tree of \<open>p == x or p == y or ...\<close>.\<close>

definition one_of :: "string \<Rightarrow> string list \<Rightarrow> node" where
  "one_of p xs = fold (\<lambda>x n. NOr n (is_eq p x)) (tl xs) (is_eq p (hd xs))"

abbreviation role_attr :: string where "role_attr \<equiv> ''requester.role''"
abbreviation surface_attr :: string where "surface_attr \<equiv> ''requester.surface''"
abbreviation operation_attr :: string where "operation_attr \<equiv> ''action.params.operation''"

text \<open>The fragment these conditions use, and its meaning under an assignment of strings.\<close>

fun str_frag :: "node \<Rightarrow> bool" where
  "str_frag (NAnd a b) = (str_frag a \<and> str_frag b)"
| "str_frag (NOr a b) = (str_frag a \<and> str_frag b)"
| "str_frag (NCmp c (NAttr p) (NLit (LStr s))) =
     (c \<in> {Eq, Neq} \<and> p \<in> {role_attr, surface_attr, operation_attr})"
| "str_frag _ = False"

fun str_sem :: "(string \<Rightarrow> string) \<Rightarrow> node \<Rightarrow> bool" where
  "str_sem s (NAnd a b) = (str_sem s a \<and> str_sem s b)"
| "str_sem s (NOr a b) = (str_sem s a \<or> str_sem s b)"
| "str_sem s (NCmp c (NAttr p) (NLit (LStr x))) = (if c = Eq then s p = x else s p \<noteq> x)"
| "str_sem s _ = False"

definition str_env :: "pdict \<Rightarrow> (string \<Rightarrow> string) \<Rightarrow> bool" where
  "str_env vs s \<longleftrightarrow> (\<forall>p \<in> {role_attr, surface_attr, operation_attr}. attribute vs p = Inr (Some (VStr (s p))))"

lemma str_kinds:
  "attr_kind role_attr = Some K_string" "attr_kind surface_attr = Some K_string"
  "attr_kind operation_attr = Some K_string"
  by code_simp+

lemma str_frag_clean:
  "str_frag n \<Longrightarrow> str_env vs s \<Longrightarrow> m \<in> set (walk n) \<Longrightarrow> item_errors root vs facts m = Inr []"
  by (induction n rule: str_frag.induct) (auto simp: item_errors_def str_env_def)

lemma str_frag_run: "str_frag n \<Longrightarrow> str_env vs s \<Longrightarrow> run vs facts n = Inr (str_sem s n)"
proof (induction n rule: str_frag.induct)
  case (3 c p x)
  then show ?case
    by (auto simp: str_env_def literal_typed_def str_kinds compare_def)
qed auto

lemma mapM_Nils: "\<forall>x \<in> set xs. f x = Inr [] \<Longrightarrow> mapM f xs = Inr (map (\<lambda>_. []) xs)"
  by (induction xs) auto

lemma str_frag_evaluate:
  assumes "str_frag n" and "str_env vs s"
  shows "evaluate n vs facts = Inr (str_sem s n)"
proof -
  have "mapM (item_errors n vs facts) (walk n) = Inr (map (\<lambda>_. []) (walk n))"
    using assms by (intro mapM_Nils ballI) (rule str_frag_clean)
  then show ?thesis by (simp add: evaluate_def str_frag_run [OF assms])
qed

lemma one_of_frag: "str_frag (fold (\<lambda>x n. NOr n (is_eq p x)) xs n) \<longleftrightarrow>
    str_frag n \<and> (xs = [] \<or> p \<in> {role_attr, surface_attr, operation_attr})"
  by (induction xs arbitrary: n) auto

lemma one_of_sem: "str_sem s (fold (\<lambda>x n. NOr n (is_eq p x)) xs n) \<longleftrightarrow> str_sem s n \<or> s p \<in> set xs"
  by (induction xs arbitrary: n) auto

section \<open>The reserved conditions, parsed\<close>

definition contacts_node :: node where
  "contacts_node =
     NOr (NOr (NOr
       (NAnd (NAnd (is_eq surface_attr ''app'') (is_eq role_attr ''owner''))
             (one_of operation_attr [''create'', ''invite'', ''confirm'', ''revoke'', ''remove'', ''word'']))
       (NAnd (NAnd (is_eq surface_attr ''app'') (one_of role_attr [''owner'', ''adult'']))
             (one_of operation_attr [''accept'', ''withdraw'', ''phone'', ''reply''])))
       (NAnd (is_eq surface_attr ''app'') (is_eq operation_attr ''guess'')))
       (NAnd (is_eq surface_attr ''scheduler'') (is_eq operation_attr ''process''))"

definition twin_nodes :: "node list" where
  "twin_nodes =
     [NOr (is_eq surface_attr ''app'')
        (NAnd (is_eq surface_attr ''scheduler'') (is_eq operation_attr ''publish'')),
      is_eq role_attr ''owner'',
      one_of operation_attr [''start'', ''pause'', ''resume'', ''step'', ''inject'', ''publish'']]"

definition constitution_nodes :: "node list" where
  "constitution_nodes =
     [NOr (NAnd (is_eq surface_attr ''app'') (is_neq operation_attr ''publish''))
        (NAnd (is_eq surface_attr ''scheduler'') (one_of operation_attr [''draft'', ''draft_failed'', ''publish''])),
      one_of operation_attr [''draft'', ''draft_failed'', ''review'', ''activate'', ''dismiss'', ''publish''],
      NOr (NAnd (is_neq operation_attr ''activate'') (is_neq operation_attr ''dismiss''))
        (is_eq role_attr ''owner'')]"

definition credentials_nodes :: "node list" where
  "credentials_nodes =
     [is_eq surface_attr ''app'',
      one_of operation_attr [''enroll'', ''recover'', ''revoke'', ''reinvite''],
      NOr (is_neq operation_attr ''reinvite'') (is_eq role_attr ''owner'')]"

definition memory_nodes :: "bool \<Rightarrow> node list" where
  "memory_nodes never =
     [one_of operation_attr
        (if never then [''append_turn'', ''reject''] else [''append_turn'', ''propose'', ''accept'', ''reject'']),
      NOr (NAnd (is_neq operation_attr ''accept'') (is_neq operation_attr ''reject''))
        (is_eq surface_attr ''app'')]"

lemmas node_defs = contacts_node_def twin_nodes_def constitution_nodes_def credentials_nodes_def
  memory_nodes_def

text \<open>Forty frames of Python stack are enough for every reserved condition.\<close>

lemma contacts_parsed: "parse 40 contacts_condition = Inr contacts_node" by code_simp

lemma twin_parsed: "map (parse 40) twin_conditions = map Inr twin_nodes" by code_simp

lemma constitution_parsed: "map (parse 40) constitution_conditions = map Inr constitution_nodes"
  by code_simp

lemma credentials_parsed: "map (parse 40) credentials_conditions = map Inr credentials_nodes"
  by code_simp

lemma memory_parsed: "map (parse 40) (memory_conditions b) = map Inr (memory_nodes b)"
proof (cases b)
  case True
  have "map (parse 40) (memory_conditions True) = map Inr (memory_nodes True)" by code_simp
  with True show ?thesis by simp
next
  case False
  have "map (parse 40) (memory_conditions False) = map Inr (memory_nodes False)" by code_simp
  with False show ?thesis by simp
qed

lemma resume_parsed: "parse 40 ''requester.surface == \"app\"'' = Inr (is_eq surface_attr ''app'')"
  by code_simp

section \<open>The authority table\<close>

definition governance_authority :: "bool \<Rightarrow> string \<Rightarrow> role \<Rightarrow> surface \<Rightarrow> string \<Rightarrow> bool" where
  "governance_authority never cls r sf op =
     (if cls = ''governance.contacts'' then
        sf = App \<and> (r = Owner \<and> op \<in> {''create'', ''invite'', ''confirm'', ''revoke'', ''remove'', ''word''} \<or>
                     r \<in> {Owner, Adult} \<and> op \<in> {''accept'', ''withdraw'', ''phone'', ''reply''} \<or> op = ''guess'')
        \<or> sf = Scheduler \<and> op = ''process''
      else if cls = ''governance.twin'' then
        r = Owner \<and> (sf = App \<and> op \<in> {''start'', ''pause'', ''resume'', ''step'', ''inject'', ''publish''} \<or>
                      sf = Scheduler \<and> op = ''publish'')
      else if cls = ''governance.constitution'' then
        sf = App \<and> (op \<in> {''draft'', ''draft_failed'', ''review''} \<or> r = Owner \<and> op \<in> {''activate'', ''dismiss''})
        \<or> sf = Scheduler \<and> op \<in> {''draft'', ''draft_failed'', ''publish''}
      else if cls = ''governance.credentials'' then
        sf = App \<and> (op \<in> {''enroll'', ''recover'', ''revoke''} \<or> r = Owner \<and> op = ''reinvite'')
      else
        op = ''append_turn'' \<or> \<not> never \<and> op = ''propose'' \<or> \<not> never \<and> sf = App \<and> op = ''accept''
        \<or> sf = App \<and> op = ''reject'')"

definition operation_classes :: "string list" where
  "operation_classes = [''governance.contacts'', ''governance.twin'', ''governance.constitution'',
     ''governance.credentials'', ''governance.memory'']"

lemma role_name_eq: "role_name r = ''owner'' \<longleftrightarrow> r = Owner" "role_name r = ''adult'' \<longleftrightarrow> r = Adult"
  by (cases r; simp)+

lemma surface_name_eq: "surface_name sf = ''app'' \<longleftrightarrow> sf = App" "surface_name sf = ''scheduler'' \<longleftrightarrow> sf = Scheduler"
  by (cases sf; simp)+

lemma requester_attributes:
  assumes "policy_values a facts = Inr vs"
  shows "attribute vs role_attr = Inr (Some (VStr (role_name (rq_role (requested_by a)))))"
    and "attribute vs surface_attr = Inr (Some (VStr (surface_name (rq_surface (requested_by a)))))"
    and "map_of (params a) ''operation'' = Some (PStr op) \<Longrightarrow> attribute vs operation_attr = Inr (Some (VStr op))"
proof -
  obtain rq where vs: "vs = dict_set ''requester'' (PDict (dict_update rq (requester_dump (requested_by a))))
      (dict_set ''action'' (PDict (action_dump a)) (pf_values facts))"
    using assms by (auto simp: policy_values_def Let_def rbind_Inr_iff)
  have s: "split_on (CHR ''.'') role_attr = [''requester'', ''role'']"
    "split_on (CHR ''.'') surface_attr = [''requester'', ''surface'']"
    "split_on (CHR ''.'') operation_attr = [''action'', ''params'', ''operation'']" by code_simp+
  note d = attribute_def lookup_def of_opt_def vs str_kinds s requester_dump_def
  show "attribute vs role_attr = Inr (Some (VStr (role_name (rq_role (requested_by a)))))"
    by (simp add: d)
  show "attribute vs surface_attr = Inr (Some (VStr (surface_name (rq_surface (requested_by a)))))"
    by (simp add: d)
  show "map_of (params a) ''operation'' = Some (PStr op) \<Longrightarrow> attribute vs operation_attr = Inr (Some (VStr op))"
    by (simp add: d action_dump_def)
qed

lemma parsed_verdicts:
  assumes "map (parse 40) cs = map Inr ns" and "40 \<le> frames" and "list_all str_frag ns" and "str_env vs s"
  shows "list_all (parses frames) cs"
    and "list_all (\<lambda>c. verdict frames vs facts c = Inr True) cs \<longleftrightarrow> list_all (str_sem s) ns"
  using assms(1,3)
proof (induction cs arbitrary: ns)
  case (Cons c cs)
  {
    case 1
    then obtain n ns' where ns: "ns = n # ns'" "parse 40 c = Inr n" by (cases ns) auto
    then have "parses frames c"
      using parse_mono [OF ns(2) assms(2)] by (simp add: parses_def)
    with ns 1 Cons.IH(1) [of ns'] show ?case by simp
  next
    case 2
    then obtain n ns' where ns: "ns = n # ns'" "parse 40 c = Inr n" by (cases ns) auto
    then have "verdict frames vs facts c = Inr (str_sem s n)"
      using 2 parse_mono [OF ns(2) assms(2)] str_frag_evaluate [OF _ assms(4)]
      by (simp add: verdict_def)
    with ns 2 Cons.IH(2) [of ns'] show ?case by simp
  }
qed auto
text \<open>The rule of an operation class, its tree, and what the tree means.\<close>

definition requester_env :: "role \<Rightarrow> surface \<Rightarrow> string \<Rightarrow> string \<Rightarrow> string" where
  "requester_env r sf op x =
     (if x = role_attr then role_name r else if x = surface_attr then surface_name sf else op)"

definition decided :: "constitution \<Rightarrow> role \<Rightarrow> surface \<Rightarrow> string \<Rightarrow> string \<Rightarrow> bool" where
  "decided p r sf op cls \<longleftrightarrow>
     (\<exists>cs ns. governance_rule p cls = Some (plain_rule Auto cs) \<and> map (parse 40) cs = map Inr ns \<and>
        list_all str_frag ns \<and>
        list_all (str_sem (requester_env r sf op)) ns = governance_authority (accept_memory_never p) cls r sf op)"

lemma decidedI:
  assumes "governance_rule p cls = Some (plain_rule Auto cs)" and "map (parse 40) cs = map Inr ns"
    and "list_all str_frag ns"
    and "list_all (str_sem (requester_env r sf op)) ns = governance_authority (accept_memory_never p) cls r sf op"
  shows "decided p r sf op cls"
  using assms unfolding decided_def by blast

lemmas tree_simps = one_of_def one_of_frag one_of_sem node_defs
lemmas table_simps = requester_env_def role_name_eq surface_name_eq governance_authority_def

lemma decided_contacts: "decided p r sf op ''governance.contacts''"
proof (rule decidedI [where cs = "[contacts_condition]" and ns = "[contacts_node]"])
  show "list_all (str_sem (requester_env r sf op)) [contacts_node] =
      governance_authority (accept_memory_never p) ''governance.contacts'' r sf op"
    by (cases sf; cases r) (auto simp: tree_simps table_simps)
qed (simp_all add: governance_rule_def contacts_parsed tree_simps)

lemma decided_twin: "decided p r sf op ''governance.twin''"
proof (rule decidedI [where cs = twin_conditions and ns = twin_nodes])
  show "list_all (str_sem (requester_env r sf op)) twin_nodes =
      governance_authority (accept_memory_never p) ''governance.twin'' r sf op"
    by (cases sf; cases "r = Owner"; cases "op = ''publish''") (simp_all add: tree_simps table_simps)
qed (simp_all add: governance_rule_def twin_parsed tree_simps)

lemma decided_constitution: "decided p r sf op ''governance.constitution''"
proof (rule decidedI [where cs = constitution_conditions and ns = constitution_nodes])
  show "list_all (str_sem (requester_env r sf op)) constitution_nodes =
      governance_authority (accept_memory_never p) ''governance.constitution'' r sf op"
    by (cases sf) (auto simp: tree_simps table_simps)
qed (simp_all add: governance_rule_def constitution_parsed tree_simps)

lemma decided_credentials: "decided p r sf op ''governance.credentials''"
proof (rule decidedI [where cs = credentials_conditions and ns = credentials_nodes])
  show "list_all (str_sem (requester_env r sf op)) credentials_nodes =
      governance_authority (accept_memory_never p) ''governance.credentials'' r sf op"
    by (cases sf; cases "r = Owner"; cases "op = ''reinvite''") (simp_all add: tree_simps table_simps)
qed (simp_all add: governance_rule_def credentials_parsed tree_simps)

lemma decided_memory: "decided p r sf op ''governance.memory''"
proof (rule decidedI [where cs = "memory_conditions (accept_memory_never p)" and ns = "memory_nodes (accept_memory_never p)"])
  show "list_all (str_sem (requester_env r sf op)) (memory_nodes (accept_memory_never p)) =
      governance_authority (accept_memory_never p) ''governance.memory'' r sf op"
    by (cases sf; cases "accept_memory_never p"; cases "op = ''accept''"; cases "op = ''reject''")
       (simp_all add: tree_simps table_simps)
qed (simp_all add: governance_rule_def memory_parsed tree_simps)

lemma operation_decided: "cls \<in> set operation_classes \<Longrightarrow> decided p r sf op cls"
proof -
  have "list_all (decided p r sf op) operation_classes"
    by (simp add: operation_classes_def decided_contacts decided_twin decided_constitution
        decided_credentials decided_memory)
  then show "cls \<in> set operation_classes \<Longrightarrow> decided p r sf op cls" by (simp only: list_all_iff)
qed

lemma operation_rule:
  assumes "cls \<in> set operation_classes" and "40 \<le> frames" and "str_env vs (requester_env r sf op)"
  obtains cs where "governance_rule p cls = Some (plain_rule Auto cs)" "list_all (parses frames) cs"
    "list_all (\<lambda>c. verdict frames vs facts c = Inr True) cs \<longleftrightarrow>
       governance_authority (accept_memory_never p) cls r sf op"
  using operation_decided [OF assms(1), of p r sf op] parsed_verdicts [OF _ assms(2) _ assms(3)] that
  unfolding decided_def by metis

lemma operation_class_known:
  assumes "cls \<in> set operation_classes"
  shows "cls \<in> set class_names" and "governance_class cls" and "cls \<noteq> ''governance.resume_automation''"
proof -
  have "list_all (\<lambda>c. c \<in> set class_names \<and> governance_class c \<and> c \<noteq> ''governance.resume_automation'') operation_classes"
    by code_simp
  then have *: "cls \<in> set class_names \<and> governance_class cls \<and> cls \<noteq> ''governance.resume_automation''"
    unfolding list_all_iff using assms by (rule bspec)
  from * show "cls \<in> set class_names" by (rule conjunct1)
  from * show "governance_class cls" by (rule conjunct2 [THEN conjunct1])
  from * show "cls \<noteq> ''governance.resume_automation''" by (rule conjunct2 [THEN conjunct2])
qed

lemma governance_outcome:
  assumes pol: "validate_policy p = Inr ()" and frames: "40 \<le> frames"
    and cls: "action_class a \<in> set operation_classes"
    and vs: "policy_values a facts = Inr vs" and op: "map_of (params a) ''operation'' = Some (PStr op)"
  shows "\<exists>out. resolve frames p a facts hard_only = Inr out \<and>
           effective_mode out =
             (if household facts = c_household p \<and> rq_role (requested_by a) \<noteq> Unknown \<and> \<not> requester_denied a \<and>
                 governance_authority (accept_memory_never p) (action_class a)
                   (rq_role (requested_by a)) (rq_surface (requested_by a)) op
              then Auto else Never)"
proof -
  let ?r = "rq_role (requested_by a)"
  have env: "str_env vs (requester_env ?r (rq_surface (requested_by a)) op)"
    using requester_attributes [OF vs] op by (simp add: str_env_def requester_env_def)
  from cls frames env obtain cs where g: "governance_rule p (action_class a) = Some (plain_rule Auto cs)"
    and prs: "list_all (parses frames) cs"
    and ok: "list_all (\<lambda>c. verdict frames vs facts c = Inr True) cs \<longleftrightarrow>
       governance_authority (accept_memory_never p) (action_class a) ?r (rq_surface (requested_by a)) op"
    by (rule operation_rule)
  from g have sel: "select_rule p (action_class a) ?r = Inr (plain_rule Auto cs)" by (simp add: select_rule_def)
  have rm: "role_mode p (action_class a) ?r = Inr (if ?r = Unknown then Never else Auto)"
    using operation_class_known [OF cls] by (simp add: role_mode_def)
  obtain apr where apr: "approvers p (action_class a) (quorum (plain_rule Auto cs)) = Inr apr"
    using validate_approvers [OF pol] by blast
  have prs': "rule_parses frames (plain_rule Auto cs)" using prs by simp
  from resolve_outcome [OF sel rm vs apr prs', of hard_only] obtain out where
    out: "resolve frames p a facts hard_only = Inr out"
    and au: "effective_mode out = Auto \<longleftrightarrow> (if ?r = Unknown then Never else Auto) = Auto \<and> \<not> requester_denied a \<and>
        household facts = c_household p \<and> satisfied frames (plain_rule Auto cs) (action_class a) vs facts hard_only"
    and ask: "effective_mode out \<noteq> Ask"
    using operation_class_known [OF cls] by (metis mode.distinct(1) mode.distinct(5) plain_rule_simps(3))
  have "satisfied frames (plain_rule Auto cs) (action_class a) vs facts hard_only \<longleftrightarrow>
      list_all (\<lambda>c. verdict frames vs facts c = Inr True) cs"
    using operation_class_known [OF cls]
    by (simp add: satisfied_def guards_def opt_row_def visitor_ok_def read_conditions_def read_overrides_def)
  with au ok have "effective_mode out = Auto \<longleftrightarrow> household facts = c_household p \<and> ?r \<noteq> Unknown \<and> \<not> requester_denied a \<and>
      governance_authority (accept_memory_never p) (action_class a) ?r (rq_surface (requested_by a)) op"
    by auto
  with ask out show ?thesis by (cases "effective_mode out") auto
qed

lemma reserved_conditions:
  assumes "governance_rule p cls = Some rl"
  shows "rule_parses 40 rl" and "overrides rl = []"
proof -
  have parsed: "list_all (parses 40) cs" if "map (parse 40) cs = map Inr ns" for cs and ns :: "node list"
    using that
  proof (induction cs arbitrary: ns)
    case (Cons c cs)
    then show ?case by (cases ns) (simp_all add: parses_def)
  qed simp
  have "list_all (parses 40) [contacts_condition]" "list_all (parses 40) twin_conditions"
    "list_all (parses 40) constitution_conditions" "list_all (parses 40) credentials_conditions"
    "list_all (parses 40) (memory_conditions (accept_memory_never p))"
    "list_all (parses 40) [''requester.surface == \"app\"'']"
    using parsed [OF twin_parsed] parsed [OF constitution_parsed] parsed [OF credentials_parsed]
      parsed [OF memory_parsed]
    by (simp_all add: parses_def contacts_parsed resume_parsed)
  with assms show "rule_parses 40 rl"
    by (auto simp: governance_rule_def split: if_split_asm)
  from assms show "overrides rl = []"
    by (auto simp: governance_rule_def split: if_split_asm)
qed
end
