(* ===== verification/Resolution.thy ===== *)
theory Resolution
  imports Governance
begin

text \<open>
  Resolution on validated constitutions: \<open>resolve\<close> of \<open>hirz/constitution/evaluator.py\<close> under the
  invariants that the policy validator of \<open>hirz/constitution/schema.py\<close> establishes. The shipped
  constitution \<open>constitutions/quinn-home.yaml\<close> is the concrete policy of the witnesses.
\<close>

section \<open>The shipped household constitution\<close>

definition quinn_security :: "(string \<times> rule) list" where
  "quinn_security =
     [(''access_code_share'', (plain_rule Never [])\<lparr>ask_channels := Some [Ch_app_push]\<rparr>),
      (''arm_disarm'', (plain_rule Ask [])\<lparr>ask_channels := Some [Ch_app_push]\<rparr>),
      (''camera_disable'', (plain_rule Ask [])\<lparr>ask_channels := Some [Ch_app_push],
         max_minutes := Some 1200000, quorum := Quorum_owner\<rparr>),
      (''door_unlock'', (plain_rule Ask [])\<lparr>allowed_requesters := Some [Owner, Adult],
         ask_channels := Some [Ch_app_push], max_open_minutes := Some 100000\<rparr>)]"

definition quinn_energy :: "(string \<times> rule) list" where
  "quinn_energy =
     [(''appliance_start'', (plain_rule Auto [''context.hour >= 7 and context.hour < 22''])\<lparr>overrides :=
         [\<lparr>when = ''context.hour >= 22 or context.hour < 7'', ov_mode = Ask\<rparr>]\<rparr>),
      (''battery_dispatch'', plain_rule Auto []),
      (''ev_charge'', plain_rule Auto [''asset.policy.needed_by is set'']),
      (''hvac_adjust'', (plain_rule Auto [''not occupancy.sleeping_in(action.target.zone)''])\<lparr>
         rule_bounds := Some \<lparr>min_f = Some 660000, max_f = Some 760000, ev_soc_floor = None\<rparr>,
         overrides := [\<lparr>when = ''occupancy.sleeping_in(action.target.zone)'', ov_mode = Ask\<rparr>]\<rparr>),
      (''optimize_cost'', (plain_rule Auto [])\<lparr>
         rule_bounds := Some \<lparr>min_f = None, max_f = None, ev_soc_floor = Some 3000\<rparr>,
         usd_per_day := Some 100000\<rparr>)]"

definition quinn_home :: constitution where
  "quinn_home =
     \<lparr>version = 7, c_household = ''quinn-home'',
      c_defaults = \<lparr>d_approval_ttl_minutes = 30, d_ask_channels = [Ch_alexa, Ch_app_push]\<rparr>,
      roles = [(Adult, \<lparr>inherits = None, limited_to = None\<rparr>),
               (Caregiver, \<lparr>inherits = Some Adult, limited_to = Some [''environment'', ''health'', ''communication'']\<rparr>),
               (Child, \<lparr>inherits = None, limited_to = None\<rparr>), (Guest, \<lparr>inherits = None, limited_to = None\<rparr>),
               (Owner, \<lparr>inherits = Some Adult, limited_to = None\<rparr>), (Teen, \<lparr>inherits = None, limited_to = None\<rparr>),
               (Unknown, \<lparr>inherits = None, limited_to = None\<rparr>)],
      autonomy =
        [(''communication'', [(''contact_emergency_services'', plain_rule Ask []),
            (''contact_trusted_contact'', plain_rule Auto []), (''notify_member'', plain_rule Auto [])]),
         (''energy'', quinn_energy),
         (''environment'', [(''comfort_profile'', plain_rule Auto []), (''lights'', plain_rule Auto []),
            (''shades'', plain_rule Auto [])]),
         (''finance'', [(''change_payee'', plain_rule Never []), (''transfer_money'', plain_rule Never []),
            (''verify_request'', plain_rule Auto [])]),
         (''health'', [(''comfort_preferences'', plain_rule Auto []), (''medical_decisions'', plain_rule Never []),
            (''routine_reminders'', plain_rule Auto [])]),
         (''security'', quinn_security)],
      per_role = [(Child, [(''*'', Never)]), (Guest, [(''*'', Never), (''environment.lights'', Auto)]),
                  (Teen, [(''energy.hvac_adjust'', Ask), (''security.door_unlock'', Never)]),
                  (Unknown, [(''*'', Never)])],
      quiet_hours = [\<lparr>days = [''mon'', ''tue'', ''wed'', ''thu'', ''sun''], from_time = ''22:30'', to_time = ''06:30'',
                      affects = [''appliance_start'', ''lights'']\<rparr>],
      c_verification = \<lparr>require_requester_confirmation = [''security.door_unlock'', ''security.camera_disable''],
        trusted_contact_methods_order =
          [''app_confirmation'', ''verified_callback'', ''safe_word'', ''verified_email'']\<rparr>,
      accept_memory_never = False\<rparr>"

lemma quinn_home_valid: "valid_constitution 40 quinn_home" by code_simp

section \<open>Validated policies resolve\<close>

lemma selected_rule_parses:
  assumes "valid_constitution fr p" and "fr \<le> frames" and "40 \<le> frames" and "select_rule p cls r = Inr rl"
  shows "rule_parses frames rl"
proof (cases "governance_rule p cls")
  case None
  from assms(1) have "valid_fields fr p" by (simp add: valid_constitution_def)
  from selected_parses [OF this assms(4) None] assms(2) show ?thesis by (rule rule_parses_mono)
next
  case (Some g)
  with assms(4) have "g = rl" by (simp add: select_rule_def)
  with Some reserved_conditions(1) assms(3) show ?thesis by (blast intro: rule_parses_mono)
qed

text \<open>One elimination rule for every theorem about a validated policy.\<close>

lemma validated_resolve:
  assumes "valid_constitution fr p" and "fr \<le> frames" and "40 \<le> frames"
    and "action_class a \<in> set class_names" and "policy_values a facts = Inr vs"
  obtains out rl rm apr where "resolve frames p a facts hard_only = Inr out"
    and "select_rule p (action_class a) (rq_role (requested_by a)) = Inr rl"
    and "role_mode p (action_class a) (rq_role (requested_by a)) = Inr rm"
    and "approvers p (action_class a) (quorum rl) = Inr apr"
    and "rm \<le> effective_mode out"
    and "effective_mode out = Auto \<longleftrightarrow> rm = Auto \<and> \<not> requester_denied a \<and> household facts = c_household p \<and>
           satisfied frames rl (action_class a) vs facts hard_only"
    and "effective_mode out = Auto \<Longrightarrow> diagnostics out = []"
    and "effective_mode out = Never \<Longrightarrow> diagnostics out \<noteq> []"
    and "requester_denied a \<or> household facts \<noteq> c_household p \<or>
         \<not> (list_all (guard_ok vs) (guards rl) \<and> visitor_ok rl vs) \<Longrightarrow> effective_mode out = Never"
    and "channels (approval out) = effective_channels p rl" and "approver_roles (approval out) = apr"
    and "ap_quorum (approval out) = quorum rl"
proof -
  from assms(1) have val: "validate_policy p = Inr ()" by (simp add: valid_constitution_def)
  obtain rl where rl: "select_rule p (action_class a) (rq_role (requested_by a)) = Inr rl"
    using validate_select_rule [OF val assms(4)] by blast
  obtain rm where rm: "role_mode p (action_class a) (rq_role (requested_by a)) = Inr rm"
    using validate_role_mode [OF val assms(4)] by blast
  obtain apr where apr: "approvers p (action_class a) (quorum rl) = Inr apr"
    using validate_approvers [OF val] by blast
  show thesis
    by (rule resolve_outcome [OF rl rm assms(5) apr selected_rule_parses [OF assms(1-3) rl], of hard_only])
       (rule that [OF _ rl rm apr])
qed

lemma high_mode:
  assumes "valid_constitution fr p" and "map_of CLASSES cls = Some pr" and "floor_outcome (band pr) \<noteq> Floor_none"
    and "select_rule p cls r = Inr rl" and "role_mode p cls r = Inr rm"
  shows "rm \<noteq> Auto"
proof -
  have "validate_policy p = Inr ()" using assms(1) by (simp add: valid_constitution_def)
  from floor_not_auto [OF this assms(2-4)] have "rule_mode rl \<noteq> Auto" .
  moreover have "\<not> governance_class cls" using governance_low [OF assms(2)] assms(3) by auto
  ultimately show ?thesis using role_mode_ge_rule [OF assms(5,4)] by auto
qed

section \<open>A concrete household\<close>

definition home_facts :: policy_facts where
  "home_facts = \<lparr>household = ''quinn-home'', as_of = 0, pf_values = [], member_ids = [], zone_ids = []\<rparr>"

definition sample_action :: "string \<Rightarrow> role \<Rightarrow> pdict \<Rightarrow> action" where
  "sample_action cls r ps =
     \<lparr>action_id = ''a1'', action_class = cls,
      a_target = \<lparr>adapter = ''twin'', entity = ''light.living_room'', zone = None, zone_set = False\<rparr>,
      params = ps,
      requested_by = \<lparr>member_id = Some ''malik'', rq_role = r, rq_surface = App, speaker = None, claimed_author = None\<rparr>,
      reason = ''asked'', plan_id = None, scheduled_for = None, expected_effect = None,
      content_hash = ''h'', a_revert = None\<rparr>"

lemma sample_values: "\<exists>vs. policy_values (sample_action cls r ps) home_facts = Inr vs"
  by (simp add: policy_values_def home_facts_def py_dict_def dict_get_def)

lemma sample_simps [simp]:
  "action_class (sample_action cls r ps) = cls" "params (sample_action cls r ps) = ps"
  "rq_role (requested_by (sample_action cls r ps)) = r"
  "rq_surface (requested_by (sample_action cls r ps)) = App"
  "household home_facts = ''quinn-home''"
  by (simp_all add: sample_action_def home_facts_def)

lemma sample_classes:
  "''environment.lights'' \<in> set class_names" "''security.door_unlock'' \<in> set class_names"
  "''governance.constitution'' \<in> set operation_classes"
  "case map_of CLASSES ''security.door_unlock'' of Some pr \<Rightarrow> floor_outcome (band pr) \<noteq> Floor_none | None \<Rightarrow> False"
  by code_simp+

section \<open>Properties\<close>



text \<open>
  C27: resolution never loosens and fails closed. The outcome is at least as strict as the mode of
  the requester's role; a household mismatch, a refused credential request, a violated or unknown
  numeric bound and a possible unexpected visitor are all terminal, with a diagnostic that says so.
\<close>

theorem resolve_only_tightens:
  assumes "valid_constitution fr p" and "fr \<le> frames" and "40 \<le> frames"
    and "action_class a \<in> set class_names" and "policy_values a facts = Inr vs"
    and "resolve frames p a facts hard_only = Inr out"
    and "select_rule p (action_class a) (rq_role (requested_by a)) = Inr rl"
    and "role_mode p (action_class a) (rq_role (requested_by a)) = Inr rm"
  shows "rm \<le> effective_mode out \<and>
    (household facts \<noteq> c_household p \<or> requester_denied a \<or> \<not> list_all (guard_ok vs) (guards rl) \<or>
       \<not> visitor_ok rl vs \<longrightarrow> effective_mode out = Never) \<and>
    (effective_mode out = Never \<longrightarrow> diagnostics out \<noteq> [])"
  using assms(1-5)
proof (rule validated_resolve [where hard_only = hard_only])
  fix out' rl' rm' apr
  assume *: "resolve frames p a facts hard_only = Inr out'"
    "select_rule p (action_class a) (rq_role (requested_by a)) = Inr rl'"
    "role_mode p (action_class a) (rq_role (requested_by a)) = Inr rm'"
    and "rm' \<le> effective_mode out'"
    and "effective_mode out' = Never \<Longrightarrow> diagnostics out' \<noteq> []"
    and "requester_denied a \<or> household facts \<noteq> c_household p \<or>
         \<not> (list_all (guard_ok vs) (guards rl') \<and> visitor_ok rl' vs) \<Longrightarrow> effective_mode out' = Never"
  moreover from * assms(6-8) have "out' = out" "rl' = rl" "rm' = rm" by simp_all
  ultimately show ?thesis by blast
qed

theorem resolve_only_tightens_witness:
  "\<exists>out rm. resolve 40 quinn_home (sample_action ''security.door_unlock'' Owner []) home_facts False = Inr out \<and>
    role_mode quinn_home ''security.door_unlock'' Owner = Inr rm \<and> rm \<le> effective_mode out \<and>
    (effective_mode out = Never \<longrightarrow> diagnostics out \<noteq> [])"
proof -
  let ?a = "sample_action ''security.door_unlock'' Owner []"
  obtain vs where vs: "policy_values ?a home_facts = Inr vs" using sample_values by blast
  have c: "action_class ?a \<in> set class_names" by (simp add: sample_classes)
  show ?thesis
  proof (rule validated_resolve [OF quinn_home_valid order_refl order_refl c vs, of False])
    fix out rl rm apr
    assume *: "resolve 40 quinn_home ?a home_facts False = Inr out"
      "select_rule quinn_home (action_class ?a) (rq_role (requested_by ?a)) = Inr rl"
      "role_mode quinn_home (action_class ?a) (rq_role (requested_by ?a)) = Inr rm"
    from resolve_only_tightens [OF quinn_home_valid order_refl order_refl c vs *] * show ?thesis by auto
  qed
qed

lemma floored_never_auto:
  assumes "valid_constitution fr p" and "fr \<le> frames" and "40 \<le> frames"
    and "map_of CLASSES (action_class a) = Some pr" and "floor_outcome (band pr) \<noteq> Floor_none"
    and "policy_values a facts = Inr vs"
  shows "\<exists>out. resolve frames p a facts hard_only = Inr out \<and> effective_mode out \<noteq> Auto"
proof -
  have "action_class a \<in> set class_names"
    using assms(4) by (force simp: class_names_def dest: map_of_SomeD)
  from assms(1-3) this assms(6) show ?thesis
  proof (rule validated_resolve [where hard_only = hard_only])
    fix out rl rm apr
    assume out: "resolve frames p a facts hard_only = Inr out"
      and rl: "select_rule p (action_class a) (rq_role (requested_by a)) = Inr rl"
      and rm: "role_mode p (action_class a) (rq_role (requested_by a)) = Inr rm"
      and "rm \<le> effective_mode out"
    with high_mode [OF assms(1,4,5) rl rm] show ?thesis by auto
  qed
qed

text \<open>
  C26: no policy makes a high or critical class autonomous. Whatever the validated constitution
  says, an action whose class has a risk floor is asked about or refused.
\<close>

theorem high_risk_never_autonomous:
  assumes "valid_constitution fr p" and "fr \<le> frames" and "40 \<le> frames"
    and "map_of CLASSES (action_class a) = Some pr" and "floor_outcome (band pr) \<noteq> Floor_none"
    and "policy_values a facts = Inr vs"
  shows "\<exists>out. resolve frames p a facts hard_only = Inr out \<and> effective_mode out \<noteq> Auto"
  using assms by (rule floored_never_auto)

theorem high_risk_never_autonomous_witness:
  "\<exists>out. resolve 40 quinn_home (sample_action ''security.door_unlock'' Owner []) home_facts False = Inr out \<and>
         effective_mode out \<noteq> Auto"
proof -
  let ?a = "sample_action ''security.door_unlock'' Owner []"
  obtain vs where vs: "policy_values ?a home_facts = Inr vs" using sample_values by blast
  obtain pr where pr: "map_of CLASSES ''security.door_unlock'' = Some pr" "floor_outcome (band pr) \<noteq> Floor_none"
    using sample_classes(4) by (cases "map_of CLASSES ''security.door_unlock''") simp_all
  have c: "map_of CLASSES (action_class ?a) = Some pr" using pr(1) by (simp only: sample_simps)
  show ?thesis by (rule high_risk_never_autonomous [OF quinn_home_valid order_refl order_refl c pr(2) vs])
qed

lemma approval_safe:
  assumes "valid_constitution fr p" and "fr \<le> frames" and "40 \<le> frames"
    and "action_class a \<in> set class_names" and "policy_values a facts = Inr vs"
  shows "\<exists>out. resolve frames p a facts hard_only = Inr out \<and>
    set (approver_roles (approval out)) \<subseteq> {Owner, Adult, Caregiver} \<and>
    (ap_quorum (approval out) = Quorum_owner \<longrightarrow> set (approver_roles (approval out)) \<subseteq> {Owner}) \<and>
    (security_class (action_class a) \<longrightarrow> Ch_alexa \<notin> set (channels (approval out)))"
  using assms
proof (rule validated_resolve [where hard_only = hard_only])
  fix out rl rm apr
  assume out: "resolve frames p a facts hard_only = Inr out"
    and rl: "select_rule p (action_class a) (rq_role (requested_by a)) = Inr rl"
    and apr: "approvers p (action_class a) (quorum rl) = Inr apr"
    and eqs: "channels (approval out) = effective_channels p rl" "approver_roles (approval out) = apr"
      "ap_quorum (approval out) = quorum rl"
  have val: "validate_policy p = Inr ()" using assms(1) by (simp add: valid_constitution_def)
  from out eqs approvers_adult [OF val apr] security_channels [OF val assms(4) _ rl]
  show ?thesis by auto
qed

text \<open>Who may approve. The approver roles of any outcome are adults (the owner alone for an owner
  quorum), and a security action can never be approved over the voice channel.
\<close>

theorem approval_requirements_safe:
  assumes "valid_constitution fr p" and "fr \<le> frames" and "40 \<le> frames"
    and "action_class a \<in> set class_names" and "policy_values a facts = Inr vs"
  shows "\<exists>out. resolve frames p a facts hard_only = Inr out \<and>
    set (approver_roles (approval out)) \<subseteq> {Owner, Adult, Caregiver} \<and>
    (ap_quorum (approval out) = Quorum_owner \<longrightarrow> set (approver_roles (approval out)) \<subseteq> {Owner}) \<and>
    (security_class (action_class a) \<longrightarrow> Ch_alexa \<notin> set (channels (approval out)))"
  using assms by (rule approval_safe)

theorem approval_requirements_safe_witness:
  "\<exists>out. resolve 40 quinn_home (sample_action ''security.door_unlock'' Owner []) home_facts False = Inr out \<and>
    set (approver_roles (approval out)) \<subseteq> {Owner, Adult, Caregiver} \<and> Ch_alexa \<notin> set (channels (approval out))"
proof -
  let ?a = "sample_action ''security.door_unlock'' Owner []"
  obtain vs where vs: "policy_values ?a home_facts = Inr vs" using sample_values by blast
  have c: "action_class ?a \<in> set class_names" by (simp add: sample_classes)
  have s: "security_class (action_class ?a)" by (simp only: sample_simps) code_simp
  from approval_requirements_safe [OF quinn_home_valid order_refl order_refl c vs, of False] s
  show ?thesis by blast
qed

text \<open>Governance authority. For contacts, the twin, the constitution, credentials and memory the
  outcome is a function of the requester's role, surface and operation, given by the table
  \<open>governance_authority\<close>; an unlisted combination is refused outright and can never be approved.
\<close>

theorem governance_authority_exact:
  assumes "validate_policy p = Inr ()" and "40 \<le> frames" and "action_class a \<in> set operation_classes"
    and "policy_values a facts = Inr vs" and "map_of (params a) ''operation'' = Some (PStr op)"
  shows "\<exists>out. resolve frames p a facts hard_only = Inr out \<and>
           effective_mode out =
             (if household facts = c_household p \<and> rq_role (requested_by a) \<noteq> Unknown \<and> \<not> requester_denied a \<and>
                 governance_authority (accept_memory_never p) (action_class a)
                   (rq_role (requested_by a)) (rq_surface (requested_by a)) op
              then Auto else Never)"
  using assms by (rule governance_outcome)

theorem governance_authority_exact_witness:
  "\<exists>out. resolve 40 quinn_home
            (sample_action ''governance.constitution'' Adult [(''operation'', PStr ''activate'')]) home_facts False = Inr out \<and>
         effective_mode out = Never"
proof -
  let ?a = "sample_action ''governance.constitution'' Adult [(''operation'', PStr ''activate'')]"
  obtain vs where vs: "policy_values ?a home_facts = Inr vs" using sample_values by blast
  have v: "validate_policy quinn_home = Inr ()" using quinn_home_valid by (simp add: valid_constitution_def)
  have c: "action_class ?a \<in> set operation_classes" by (simp add: sample_classes)
  have o: "map_of (params ?a) ''operation'' = Some (PStr ''activate'')" by simp
  from governance_authority_exact [OF v order_refl c vs o, of False] show ?thesis
    by (simp add: governance_authority_def)
qed

end
