(* ===== verification/Risk.thy ===== *)
theory Risk
  imports Complex_Main Evaluator
begin

text \<open>
  Risk scoring, \<open>hirz/risk/engine.py\<close>. \<open>score\<close> runs its checks in order inside one \<open>try\<close>:
  every factor moves the band by one step or to CRITICAL, and an exception of any check leaves the
  factors found so far and ends in CRITICAL.
\<close>

section \<open>Facts\<close>

text \<open>
  \<open>RiskFacts\<close>. An age is a finite float, known here by the rational it denotes; the baseline is
  the value before the \<open>Numeric\<close> validator reads it.
\<close>

record risk_facts =
  observation_ages_seconds :: "rat list option"
  sleeping_in_target_zone :: "bool option"
  sleeping_any :: "bool option"
  target_is_bedroom :: "bool option"
  guest_present :: "bool option"
  doorbell_online :: "bool option"
  baseline_target_f :: pv
  scam_pattern :: "bool option"

definition no_risk_facts :: risk_facts where
  "no_risk_facts = \<lparr>observation_ages_seconds = None, sleeping_in_target_zone = None, sleeping_any = None,
     target_is_bedroom = None, guest_present = None, doorbell_online = None, baseline_target_f = PNone,
     scam_pattern = None\<rparr>"

text \<open>\<open>RiskFacts.model_validate\<close>: nonnegative ages and a Cedar number; the result is the baseline.\<close>

definition validate_facts :: "risk_facts \<Rightarrow> int option result" where
  "validate_facts f =
     rbind (guard ValueError (opt_all (list_all (\<lambda>age. 0 \<le> age)) (observation_ages_seconds f))) (\<lambda>_.
       if baseline_target_f f = PNone then Inr None
       else rbind (number (baseline_target_f f)) (\<lambda>n. Inr (Some n)))"

definition required :: "'a option \<Rightarrow> string \<Rightarrow> 'a result" where
  "required v path = of_opt (FactError [path]) v"

text \<open>\<open>number(required(action.params.get(key), path))\<close>.\<close>

definition param_number :: "action \<Rightarrow> string \<Rightarrow> string \<Rightarrow> int result" where
  "param_number a key path =
     (let v = dict_get (params a) key PNone in
      if v = PNone then Inl (FactError [path]) else number v)"

section \<open>The checks, in order\<close>

type_synonym check = "risk_factor list result"

definition found :: "factor_name \<Rightarrow> effect \<Rightarrow> string list \<Rightarrow> bool \<Rightarrow> risk_factor list" where
  "found n e ev b = (if b then [\<lparr>factor = n, effect = e, evidence = ev\<rparr>] else [])"

definition check_requester :: "action \<Rightarrow> check" where
  "check_requester a =
     Inr (found Unknown_requester Plus_one_band [''unknown''] (rq_role (requested_by a) = Unknown))"

definition asleep :: "string \<Rightarrow> risk_facts \<Rightarrow> bool result" where
  "asleep name f =
     (if name = ''energy.hvac_adjust'' then required (sleeping_in_target_zone f) ''sleeping_in_target_zone''
      else if name = ''energy.appliance_start'' then required (sleeping_any f) ''sleeping_any''
      else if name = ''environment.lights'' then
        rbind (required (target_is_bedroom f) ''target_is_bedroom'') (\<lambda>bedroom.
          if bedroom then required (sleeping_in_target_zone f) ''sleeping_in_target_zone'' else Inr False)
      else Inr False)"

definition check_asleep :: "string \<Rightarrow> risk_facts \<Rightarrow> check" where
  "check_asleep name f = rbind (asleep name f) (\<lambda>b. Inr (found Occupant_asleep Plus_one_band [''asleep''] b))"

definition guest_classes :: "string list" where
  "guest_classes = [''security.door_unlock'', ''security.camera_disable'', ''security.access_code_share'']"

definition check_guest :: "string \<Rightarrow> risk_facts \<Rightarrow> check" where
  "check_guest name f =
     (if name \<in> set guest_classes
      then rbind (required (guest_present f) ''guest_present'') (\<lambda>b. Inr (found Guest_present Plus_one_band [''guest''] b))
      else Inr [])"

definition check_stale :: "profile \<Rightarrow> string \<Rightarrow> risk_facts \<Rightarrow> check" where
  "check_stale pr name f =
     rbind (required (observation_ages_seconds f) ''observation_ages_seconds'') (\<lambda>ages.
     rbind (if name = ''security.door_unlock'' then required (doorbell_online f) ''doorbell_online'' else Inr True)
       (\<lambda>online.
       let stale = map (\<lambda>_. ''observation'') (filter (\<lambda>age. age > of_int (freshness_seconds pr)) ages) @
                   (if online then [] else [''doorbell''])
       in Inr (found State_stale Plus_one_band (sorted_set stale) (stale \<noteq> []))))"

text \<open>Six degrees, in ten-thousandths.\<close>

definition check_baseline :: "action \<Rightarrow> int option \<Rightarrow> check" where
  "check_baseline a baseline =
     (if action_class a = ''energy.hvac_adjust''
      then rbind (param_number a ''target_f'' ''action.params.target_f'') (\<lambda>t.
        Inr (found Deviation_from_baseline Plus_one_band [''target_f'']
              (case baseline of None \<Rightarrow> False | Some b \<Rightarrow> \<bar>t - b\<bar> > 6 * cedar_scale)))
      else Inr [])"

definition scam_classes :: "string list" where
  "scam_classes = [''finance.transfer_money'', ''finance.change_payee'', ''security.access_code_share'',
     ''finance.verify_request'']"

definition check_scam :: "string \<Rightarrow> risk_facts \<Rightarrow> check" where
  "check_scam name f =
     (if name \<in> set scam_classes
      then rbind (required (scam_pattern f) ''scam_pattern'') (\<lambda>b. Inr (found Scam_pattern To_CRITICAL [''scam''] b))
      else Inr [])"

definition violation :: "action \<Rightarrow> guard_row \<Rightarrow> string list result" where
  "violation a g =
     (case g of (path, ge, bound) \<Rightarrow>
       rbind (param_number a (drop (length ''action.params.'') path) path) (\<lambda>v.
         Inr (if violates ge v bound then [path] else [])))"

definition check_bounds :: "action \<Rightarrow> rule \<Rightarrow> check" where
  "check_bounds a rl =
     rbind (mapM (violation a) (guards rl)) (\<lambda>vss.
       Inr (found Outside_bounds Plus_one_band (concat vss) (concat vss \<noteq> [])))"

definition checks :: "profile \<Rightarrow> action \<Rightarrow> risk_facts \<Rightarrow> int option \<Rightarrow> rule \<Rightarrow> check list" where
  "checks pr a f baseline rl =
     (let name = action_class a in
      [check_requester a, check_asleep name f, check_guest name f, check_stale pr name f,
       check_baseline a baseline, check_scam name f, check_bounds a rl])"

section \<open>Scoring\<close>

text \<open>\<open>add\<close>: what one factor does to the band.\<close>

definition raise_band :: "risk_factor \<Rightarrow> risk_band \<Rightarrow> risk_band" where
  "raise_band f b =
     (if effect f = To_CRITICAL then CRITICAL
      else risk_bands ! min (band_index b + 1) (length risk_bands - 1))"

definition scoring_error :: "exn \<Rightarrow> risk_factor" where
  "scoring_error e = \<lparr>factor = Scoring_error, effect = To_CRITICAL,
     evidence = (case e of FactError ps \<Rightarrow> ps | ValueError \<Rightarrow> [''invalid''] | _ \<Rightarrow> [''failed''])\<rparr>"

text \<open>The body of \<open>try\<close>: the checks run until one raises, which the handler turns into a factor.\<close>

fun run_checks :: "check list \<Rightarrow> risk_factor list" where
  "run_checks [] = []"
| "run_checks (Inr fs # cs) = fs @ run_checks cs"
| "run_checks (Inl e # cs) = [scoring_error e]"

definition score :: "action \<Rightarrow> risk_facts \<Rightarrow> rule \<Rightarrow> risk_assessment" where
  "score a f rl =
     (case map_of CLASSES (action_class a) of
        None \<Rightarrow> \<lparr>ra_band = CRITICAL, base_band = CRITICAL, factors = [scoring_error KeyError]\<rparr>
      | Some pr \<Rightarrow>
          (let fs = (case validate_facts f of
                       Inl e \<Rightarrow> [scoring_error e]
                     | Inr baseline \<Rightarrow> run_checks (checks pr a f baseline rl))
           in \<lparr>ra_band = fold raise_band fs (band pr), base_band = band pr, factors = fs\<rparr>))"

section \<open>Lemmas\<close>

lemma band_index_nth: "n < 4 \<Longrightarrow> band_index (risk_bands ! n) = n"
  by (auto simp: risk_bands_def numeral_eq_Suc less_Suc_eq)

lemma raise_band_index:
  "band_index (raise_band f b) = (if effect f = To_CRITICAL then 3 else min (band_index b + 1) 3)"
  by (cases b) (simp_all add: raise_band_def risk_bands_def)

lemma fold_raise_index:
  "band_index (fold raise_band fs b) =
     (if \<exists>f \<in> set fs. effect f = To_CRITICAL then 3 else min (band_index b + length fs) 3)"
proof (induction fs arbitrary: b)
  case Nil
  show ?case using band_index_le_3 [of b] by simp
next
  case (Cons f fs)
  show ?case by (auto simp: Cons.IH raise_band_index)
qed

lemma critical_index: "b = CRITICAL \<longleftrightarrow> band_index b = 3"
  by (cases b) auto

lemma scoring_error_effect [simp]: "effect (scoring_error e) = To_CRITICAL"
  by (simp add: scoring_error_def)

lemma run_checks_safe:
  "\<forall>f \<in> set (run_checks cs). effect f \<noteq> To_CRITICAL \<Longrightarrow> c \<in> set cs \<Longrightarrow>
     \<exists>fs. c = Inr fs \<and> set fs \<subseteq> set (run_checks cs)"
proof (induction cs rule: run_checks.induct)
  case (2 fs cs)
  then show ?case by fastforce
qed auto

text \<open>What a band below CRITICAL says about the facts and about the factors found.\<close>

lemma score_below_critical:
  assumes "ra_band (score a f rl) \<noteq> CRITICAL"
  obtains pr baseline where "map_of CLASSES (action_class a) = Some pr" "validate_facts f = Inr baseline"
    "\<forall>c \<in> set (checks pr a f baseline rl). \<exists>fs. c = Inr fs \<and> set fs \<subseteq> set (factors (score a f rl))"
    "\<forall>x \<in> set (factors (score a f rl)). effect x \<noteq> To_CRITICAL"
proof -
  from assms obtain pr where pr: "map_of CLASSES (action_class a) = Some pr"
    by (cases "map_of CLASSES (action_class a)") (simp_all add: score_def)
  let ?fs = "factors (score a f rl)"
  have "ra_band (score a f rl) = fold raise_band ?fs (band pr)" by (simp add: score_def pr Let_def)
  with assms have safe: "\<forall>x \<in> set ?fs. effect x \<noteq> To_CRITICAL"
    using fold_raise_index [of ?fs "band pr"] by (auto simp: critical_index split: if_split_asm)
  from safe obtain baseline where b: "validate_facts f = Inr baseline"
    by (cases "validate_facts f") (simp_all add: score_def pr Let_def)
  have "?fs = run_checks (checks pr a f baseline rl)" by (simp add: score_def pr b Let_def)
  with safe pr b that run_checks_safe show thesis by metis
qed

lemma found_member: "found n e ev b = fs \<Longrightarrow> b \<Longrightarrow> \<exists>x \<in> set fs. factor x = n \<and> effect x = e"
  by (auto simp: found_def)

lemma score_known_facts:
  assumes "ra_band (score a f rl) \<noteq> CRITICAL"
  shows "action_class a \<in> set class_names \<and> observation_ages_seconds f \<noteq> None \<and>
    (\<exists>b. asleep (action_class a) f = Inr b) \<and>
    (action_class a = ''security.door_unlock'' \<longrightarrow> doorbell_online f \<noteq> None) \<and>
    (action_class a \<in> set guest_classes \<longrightarrow> guest_present f \<noteq> None) \<and>
    (action_class a \<in> set scam_classes \<longrightarrow> scam_pattern f = Some False) \<and>
    (\<forall>g \<in> set (guards rl). \<exists>v. param_number a (drop (length ''action.params.'') (fst g)) (fst g) = Inr v)"
proof -
  from assms obtain pr baseline where pr: "map_of CLASSES (action_class a) = Some pr"
    and "\<forall>c \<in> set (checks pr a f baseline rl). \<exists>fs. c = Inr fs \<and> set fs \<subseteq> set (factors (score a f rl))"
    and safe: "\<forall>x \<in> set (factors (score a f rl)). effect x \<noteq> To_CRITICAL"
    by (rule score_below_critical)
  then have *: "\<exists>fs. check_asleep (action_class a) f = Inr fs" "\<exists>fs. check_guest (action_class a) f = Inr fs"
    "\<exists>fs. check_stale pr (action_class a) f = Inr fs" "\<exists>fs. check_bounds a rl = Inr fs"
    "\<exists>fs. check_scam (action_class a) f = Inr fs \<and> set fs \<subseteq> set (factors (score a f rl))"
    by (auto simp: checks_def Let_def)
  have "action_class a \<in> set class_names"
    using pr by (force simp: class_names_def dest: map_of_SomeD)
  moreover have "observation_ages_seconds f \<noteq> None"
    "action_class a = ''security.door_unlock'' \<longrightarrow> doorbell_online f \<noteq> None"
    using *(3) by (auto simp: check_stale_def required_def rbind_Inr_iff)
  moreover have "\<exists>b. asleep (action_class a) f = Inr b"
    using *(1) by (auto simp: check_asleep_def rbind_Inr_iff)
  moreover have "action_class a \<in> set guest_classes \<longrightarrow> guest_present f \<noteq> None"
    using *(2) by (auto simp: check_guest_def required_def rbind_Inr_iff)
  moreover have "action_class a \<in> set scam_classes \<longrightarrow> scam_pattern f = Some False"
  proof
    assume "action_class a \<in> set scam_classes"
    with *(5) obtain b where b: "scam_pattern f = Some b"
      "set (found Scam_pattern To_CRITICAL [''scam''] b) \<subseteq> set (factors (score a f rl))"
      by (auto simp: check_scam_def required_def rbind_Inr_iff)
    with safe show "scam_pattern f = Some False" by (cases b) (auto simp: found_def)
  qed
  moreover have "\<forall>g \<in> set (guards rl). \<exists>v. param_number a (drop (length ''action.params.'') (fst g)) (fst g) = Inr v"
  proof
    fix g assume "g \<in> set (guards rl)"
    moreover from *(4) obtain vss where "mapM (violation a) (guards rl) = Inr vss"
      by (auto simp: check_bounds_def rbind_Inr_iff)
    ultimately obtain y where "violation a g = Inr y" by (blast dest: mapM_Inr_set)
    then show "\<exists>v. param_number a (drop (length ''action.params.'') (fst g)) (fst g) = Inr v"
      by (cases g) (auto simp: violation_def rbind_Inr_iff)
  qed
  ultimately show ?thesis by blast
qed

section \<open>Properties\<close>

text \<open>
  C30: the exact band arithmetic. The score is CRITICAL when some factor says so, and otherwise the
  class's base band raised one step per factor and capped at CRITICAL; in particular scoring never
  lowers the base band of the catalogue.
\<close>

theorem score_band_exact:
  "ra_band (score a f rl) =
     (if \<exists>x \<in> set (factors (score a f rl)). effect x = To_CRITICAL then CRITICAL
      else risk_bands ! min (band_index (base_band (score a f rl)) + length (factors (score a f rl))) 3) \<and>
   base_band (score a f rl) \<le> ra_band (score a f rl) \<and>
   base_band (score a f rl) = (case map_of CLASSES (action_class a) of None \<Rightarrow> CRITICAL | Some pr \<Rightarrow> band pr)"
proof (cases "map_of CLASSES (action_class a)")
  case None
  then show ?thesis by (simp add: score_def)
next
  case (Some pr)
  let ?s = "score a f rl"
  have s: "ra_band ?s = fold raise_band (factors ?s) (band pr)" "base_band ?s = band pr"
    by (simp_all add: score_def Some Let_def)
  note i = fold_raise_index [of "factors ?s" "band pr"]
  have "base_band ?s \<le> ra_band ?s"
    unfolding less_eq_risk_band_def s i using band_index_le_3 [of "band pr"] by simp
  moreover have "ra_band ?s = (if \<exists>x \<in> set (factors ?s). effect x = To_CRITICAL then CRITICAL
      else risk_bands ! min (band_index (base_band ?s) + length (factors ?s)) 3)"
    using i band_index_nth [of "min (band_index (band pr) + length (factors ?s)) 3"]
    by (simp add: s band_index_inject [symmetric])
  ultimately show ?thesis using s(2) Some by simp
qed

text \<open>Scoring fails closed. A score below CRITICAL is only possible for a catalogued class whose
  observations are all known, whose doorbell, guest, bedroom and sleep facts are known where the
  class needs them, whose numeric parameters are present and legible for every guard of the rule,
  and for which no scam pattern is unknown or reported where the class asks.
\<close>

theorem score_fails_closed:
  assumes "ra_band (score a f rl) \<noteq> CRITICAL"
  shows "action_class a \<in> set class_names \<and> observation_ages_seconds f \<noteq> None \<and>
    (\<exists>b. asleep (action_class a) f = Inr b) \<and>
    (action_class a = ''security.door_unlock'' \<longrightarrow> doorbell_online f \<noteq> None) \<and>
    (action_class a \<in> set guest_classes \<longrightarrow> guest_present f \<noteq> None) \<and>
    (action_class a \<in> set scam_classes \<longrightarrow> scam_pattern f = Some False) \<and>
    (\<forall>g \<in> set (guards rl). \<exists>v. param_number a (drop (length ''action.params.'') (fst g)) (fst g) = Inr v)"
  using assms by (rule score_known_facts)

text \<open>
  A violated bound is visible. When a score below CRITICAL is given although some guard of the
  rule is violated by the action's parameters, the factor \<open>outside_bounds\<close> is among the factors,
  and the band is above the class's base band.
\<close>

theorem score_outside_bounds:
  assumes "ra_band (score a f rl) \<noteq> CRITICAL" and "(path, ge, bound) \<in> set (guards rl)"
    and "param_number a (drop (length ''action.params.'') path) path = Inr v" and "violates ge v bound"
  shows "Outside_bounds \<in> factor ` set (factors (score a f rl)) \<and>
         base_band (score a f rl) < ra_band (score a f rl)"
proof -
  from assms(1) obtain pr baseline where pr: "map_of CLASSES (action_class a) = Some pr"
    and ch: "\<forall>c \<in> set (checks pr a f baseline rl). \<exists>fs. c = Inr fs \<and> set fs \<subseteq> set (factors (score a f rl))"
    and safe: "\<forall>x \<in> set (factors (score a f rl)). effect x \<noteq> To_CRITICAL"
    by (rule score_below_critical)
  then obtain fs where fs: "check_bounds a rl = Inr fs" "set fs \<subseteq> set (factors (score a f rl))"
    by (auto simp: checks_def Let_def)
  then obtain vss where vss: "mapM (violation a) (guards rl) = Inr vss"
    and f: "fs = found Outside_bounds Plus_one_band (concat vss) (concat vss \<noteq> [])"
    by (auto simp: check_bounds_def rbind_Inr_iff)
  from assms(3,4) have "violation a (path, ge, bound) = Inr [path]" by (simp add: violation_def)
  with vss assms(2) have "[path] \<in> set vss" by (auto dest!: mapM_Inr_set)
  then have "concat vss \<noteq> []" by auto
  with f found_member obtain x where x: "x \<in> set fs" "factor x = Outside_bounds" by metis
  with fs(2) have mem: "x \<in> set (factors (score a f rl))" by blast
  then have len: "0 < length (factors (score a f rl))" by (cases "factors (score a f rl)") auto
  have s: "ra_band (score a f rl) = fold raise_band (factors (score a f rl)) (band pr)"
    "base_band (score a f rl) = band pr"
    by (simp_all add: score_def pr Let_def)
  from assms(1) safe have "band_index (ra_band (score a f rl)) = min (band_index (band pr) + length (factors (score a f rl))) 3"
    "band_index (ra_band (score a f rl)) \<noteq> 3"
    unfolding s(1) fold_raise_index critical_index by auto
  with len have "band_index (band pr) < band_index (ra_band (score a f rl))" by simp
  moreover from x(2) mem have "Outside_bounds \<in> factor ` set (factors (score a f rl))" by (metis imageI)
  ultimately show ?thesis using s(2) by (simp add: less_risk_band_def)
qed

text \<open>A heating request within reach of the guards, and one that a rule's bound refuses.\<close>

definition heat_action :: "int \<Rightarrow> action" where
  "heat_action t =
     \<lparr>action_id = ''a2'', action_class = ''energy.hvac_adjust'',
      a_target = \<lparr>adapter = ''twin'', entity = ''hvac.living_room'', zone = Some ''z'', zone_set = True\<rparr>,
      params = [(''target_f'', PInt t)],
      requested_by = \<lparr>member_id = Some ''malik'', rq_role = Owner, rq_surface = App, speaker = None, claimed_author = None\<rparr>,
      reason = ''asked'', plan_id = None, scheduled_for = None, expected_effect = None,
      content_hash = ''h'', a_revert = None\<rparr>"

definition heat_facts :: risk_facts where
  "heat_facts = no_risk_facts\<lparr>observation_ages_seconds := Some [5], sleeping_in_target_zone := Some False\<rparr>"

definition heat_rule :: rule where
  "heat_rule = (plain_rule Auto [])\<lparr>rule_bounds := Some \<lparr>min_f = Some 660000, max_f = Some 760000, ev_soc_floor = None\<rparr>\<rparr>"

theorem score_fails_closed_witness:
  "ra_band (score (heat_action 70) heat_facts heat_rule) = LOW \<and>
   action_class (heat_action 70) \<in> set class_names \<and> (\<exists>b. asleep (action_class (heat_action 70)) heat_facts = Inr b)"
proof -
  have l: "ra_band (score (heat_action 70) heat_facts heat_rule) = LOW" by code_simp
  then have "ra_band (score (heat_action 70) heat_facts heat_rule) \<noteq> CRITICAL" by simp
  from score_fails_closed [OF this] l show ?thesis by blast
qed

theorem score_outside_bounds_witness:
  "ra_band (score (heat_action 80) heat_facts heat_rule) = MEDIUM \<and>
   Outside_bounds \<in> factor ` set (factors (score (heat_action 80) heat_facts heat_rule))"
proof -
  have l: "ra_band (score (heat_action 80) heat_facts heat_rule) = MEDIUM" by code_simp
  then have n: "ra_band (score (heat_action 80) heat_facts heat_rule) \<noteq> CRITICAL" by simp
  have g: "(''action.params.target_f'', False, 760000) \<in> set (guards heat_rule)" by code_simp
  have v: "param_number (heat_action 80) (drop (length ''action.params.'') ''action.params.target_f'')
      ''action.params.target_f'' = Inr 800000" by code_simp
  have w: "violates False 800000 760000" by code_simp
  from score_outside_bounds [OF n g v w] l show ?thesis by blast
qed

end
