(* ===== verification/Context.thy ===== *)
theory Context
  imports Risk
begin

text \<open>
  Fact selection, \<open>hirz/pipeline/context.py\<close>: quiet hours, the doorbell press window and
  \<open>extract\<close>, which turns one household snapshot into policy facts and risk facts. Rows are the
  typed rows that the snapshot validator of \<open>hirz/graph/context.py\<close> hands over, identifiers are
  their canonical strings and timestamps keep their JSON text. The offset of a time zone at an
  instant comes from the zone database and is the parameter \<open>tz\<close>.
\<close>

section \<open>Snapshot rows\<close>

record member_row =
  m_id :: string
  m_role :: role

record asset_row =
  as_id :: string
  as_kind :: string
  room_kind :: "string option"

record binding_row =
  b_adapter :: string
  b_entity_id :: string
  b_asset_id :: string

record event_row =
  e_kind :: string
  e_member_id :: "string option"
  starts_at :: string
  ends_at :: string
  expected_at :: "string option"
  e_row :: pdict

record preference_row =
  p_member_id :: string
  p_key :: string
  p_value :: pv

record policy_row =
  pol_asset_id :: string
  pol_row :: pdict

record contact_row =
  c_id :: string
  c_party :: string

record observation =
  o_household_id :: string
  o_domain :: "string option"
  o_member_id :: "string option"
  o_asset_id :: "string option"
  observed_at :: string
  o_source :: string
  o_state :: pdict

record snapshot =
  s_household_id :: string
  s_scope :: string
  s_as_of :: int
  s_stale :: bool
  timezone :: string
  autonomy_paused :: bool
  s_members :: "member_row list"
  s_assets :: "asset_row list"
  asset_bindings :: "binding_row list"
  observations :: "observation list"
  schedule_events :: "event_row list"
  preferences :: "preference_row list"
  asset_policies :: "policy_row list"
  trusted_contacts :: "contact_row list"

record supplemental =
  su_household_id :: string
  su_observed_at :: string
  su_source :: string
  su_scam_pattern :: bool

record press =
  pr_asset_id :: string
  last_press_at :: string
  expected :: pv

record facts =
  f_policy :: policy_facts
  f_risk :: risk_facts
  paused :: bool
  quiet :: bool
  f_press :: "press option"

text \<open>\<open>NewerDoorbellPress\<close> is told apart by the pipeline; every other failure is a \<open>ValueError\<close> there.\<close>

datatype context_exn = Context_error | Newer_press | Raised exn

type_synonym 'a cresult = "context_exn + 'a"

definition lift :: "'a result \<Rightarrow> 'a cresult" where
  "lift r = (case r of Inl e \<Rightarrow> Inl (Raised e) | Inr x \<Rightarrow> Inr x)"

text \<open>An aware timestamp; comparing a naive one with an aware one is a \<open>TypeError\<close>.\<close>

definition instant :: "string \<Rightarrow> int result" where
  "instant s =
     (case fromisoformat s of
        None \<Rightarrow> Inl ValueError | Some (t, False) \<Rightarrow> Inl TypeError | Some (t, True) \<Rightarrow> Inr t)"

text \<open>\<open>{key(r): r for r in rows}\<close>.\<close>

definition dict_of :: "('r \<Rightarrow> string) \<Rightarrow> 'r list \<Rightarrow> (string \<times> 'r) list" where
  "dict_of key rows = fold (\<lambda>r d. dict_set (key r) r d) rows []"

section \<open>The doorbell and quiet hours\<close>

definition active_doorbell_press :: "int option \<Rightarrow> int \<Rightarrow> bool" where
  "active_doorbell_press p now =
     (case p of None \<Rightarrow> False | Some t \<Rightarrow> 0 \<le> now - t \<and> now - t \<le> 60 * us_per_second)"

definition two_digits :: "int \<Rightarrow> string" where
  "two_digits n = [char_of (nat (48 + n div 10)), char_of (nat (48 + n mod 10))]"

text \<open>\<open>strftime("%H:%M")\<close>.\<close>

definition hhmm :: "int \<Rightarrow> string" where
  "hhmm m = two_digits (m div 60) @ '':'' @ two_digits (m mod 60)"

definition quiet_period_active :: "quiet_period \<Rightarrow> string \<Rightarrow> int \<Rightarrow> bool" where
  "quiet_period_active q name local =
     (if name \<notin> set (affects q) \<and> class_key name \<notin> set (affects q) then False
      else
        let time = hhmm (minute_of_day local);
            crosses = from_time q > to_time q;
            start = (if crosses \<and> time < to_time q then local - us_per_day else local)
        in if DAYS ! nat (weekday start) \<notin> set (days q) then False
           else if \<not> crosses then from_time q \<le> time \<and> time < to_time q
           else time \<ge> from_time q \<or> time < to_time q)"

definition quiet_now :: "constitution \<Rightarrow> string \<Rightarrow> int \<Rightarrow> bool" where
  "quiet_now p name local = list_ex (\<lambda>q. quiet_period_active q name local) (Schema.quiet_hours p)"

section \<open>Observations\<close>

definition ASSET_DOMAINS :: "(string \<times> string) list" where
  "ASSET_DOMAINS =
     [(''ev'', ''ev''), (''home_battery'', ''energy''), (''solar'', ''energy''), (''doorbell'', ''doorbell''),
      (''appliance'', ''devices''), (''hvac_zone'', ''devices''), (''lock'', ''devices''), (''camera'', ''devices''),
      (''light'', ''devices''), (''shade'', ''devices'')]"

definition st_has :: "observation \<Rightarrow> string \<Rightarrow> bool" where
  "st_has ob k \<longleftrightarrow> dict_get (o_state ob) k PNone \<noteq> PNone"

definition st_time :: "observation \<Rightarrow> string \<Rightarrow> int option result" where
  "st_time ob k =
     (case dict_get (o_state ob) k PNone of
        PNone \<Rightarrow> Inr None
      | PStr s \<Rightarrow> (case fromisoformat s of Some (t, True) \<Rightarrow> Inr (Some t) | _ \<Rightarrow> Inl ValueError)
      | _ \<Rightarrow> Inl ValueError)"

definition after :: "int option \<Rightarrow> int \<Rightarrow> bool" where
  "after t now = (case t of None \<Rightarrow> False | Some x \<Rightarrow> x > now)"

text \<open>\<open>Observation.one_subject\<close>: which facts a reading of a domain may carry.\<close>

definition one_subject :: "observation \<Rightarrow> unit result" where
  "one_subject ob =
     rbind (of_opt ValueError (case fromisoformat (observed_at ob) of Some (t, True) \<Rightarrow> Some t | _ \<Rightarrow> None)) (\<lambda>now.
     rbind (st_time ob ''last_press_at'') (\<lambda>pressed.
     rbind (st_time ob ''last_motion_at'') (\<lambda>motion.
     rbind (guard ValueError (\<not> (o_member_id ob \<noteq> None \<and> o_asset_id ob \<noteq> None))) (\<lambda>_.
     rbind (guard ValueError (\<not> after pressed now)) (\<lambda>_.
       if o_domain ob = None then Inr ()
       else
         rbind (guard ValueError (\<not> after motion now)) (\<lambda>_.
         rbind (guard ValueError ((motion = None) = (\<not> st_has ob ''motion_classification''))) (\<lambda>_.
         rbind (guard ValueError (motion = None \<or> o_domain ob = Some ''doorbell'' \<and> o_asset_id ob \<noteq> None)) (\<lambda>_.
         rbind (guard ValueError (\<not> (st_has ob ''camera_armed'' \<or> st_has ob ''cover_position_percent'')
                 \<or> o_domain ob = Some ''devices'' \<and> o_asset_id ob \<noteq> None)) (\<lambda>_.
         rbind (guard ValueError (\<not> (st_has ob ''present'' \<or> st_has ob ''sleeping'' \<or> st_has ob ''zone_id'')
                 \<or> o_domain ob = Some ''presence'' \<and> o_member_id ob \<noteq> None)) (\<lambda>_.
         rbind (guard ValueError (\<not> st_has ob ''recovery_score''
                 \<or> o_domain ob = Some ''wearable'' \<and> o_member_id ob \<noteq> None)) (\<lambda>_.
         rbind (guard ValueError (pressed = None \<or> o_domain ob = Some ''doorbell'' \<and> o_asset_id ob \<noteq> None)) (\<lambda>_.
           guard ValueError (\<not> st_has ob ''price_band''
             \<or> o_domain ob = Some ''energy'' \<and> o_member_id ob = None \<and> o_asset_id ob = None)))))))))))))"

definition observation_subject :: "observation \<Rightarrow> string" where
  "observation_subject ob =
     (case o_asset_id ob of Some a \<Rightarrow> a
      | None \<Rightarrow> (case o_member_id ob of Some m \<Rightarrow> m | None \<Rightarrow> o_household_id ob))"

definition kind_of :: "(string \<times> string) list \<Rightarrow> string option \<Rightarrow> string option" where
  "kind_of kinds x = Option.bind x (map_of kinds)"

definition domain_scope :: "observation \<Rightarrow> string set \<Rightarrow> (string \<times> string) list \<Rightarrow> bool" where
  "domain_scope ob members kinds =
     (case o_member_id ob of
        Some m \<Rightarrow> m \<in> members \<and> (o_domain ob = None \<or> o_domain ob \<in> {Some ''presence'', Some ''wearable''})
      | None \<Rightarrow>
          (case o_asset_id ob of
             Some a \<Rightarrow> (case map_of kinds a of
                          None \<Rightarrow> False
                        | Some k \<Rightarrow> o_domain ob = None \<or> o_domain ob = map_of ASSET_DOMAINS k)
           | None \<Rightarrow> o_domain ob = None \<or> o_domain ob = Some ''energy''))"

definition validate_observation_scope ::
  "observation \<Rightarrow> string \<Rightarrow> string set \<Rightarrow> (string \<times> string) list \<Rightarrow> int \<Rightarrow> unit result"
where
  "validate_observation_scope ob hid members kinds now =
     rbind (instant (observed_at ob)) (\<lambda>t.
     let kind = kind_of kinds (o_asset_id ob) in
     rbind (guard ValueError (o_household_id ob = hid \<and> \<not> t > now)) (\<lambda>_.
     rbind (guard ValueError (domain_scope ob members kinds)) (\<lambda>_.
     rbind (guard ValueError (\<not> (st_has ob ''charging'' \<or> st_has ob ''charge_limit'')
             \<or> o_domain ob = Some ''ev'' \<and> kind = Some ''ev'')) (\<lambda>_.
     rbind (guard ValueError (\<not> st_has ob ''dispatch_kw''
             \<or> o_domain ob = Some ''energy'' \<and> kind = Some ''home_battery'')) (\<lambda>_.
     rbind (guard ValueError (\<not> st_has ob ''mode''
             \<or> o_domain ob = Some ''devices'' \<and> kind = Some ''hvac_zone'')) (\<lambda>_.
     rbind (guard ValueError (\<not> st_has ob ''camera_armed'' \<or> kind = Some ''camera'')) (\<lambda>_.
     rbind (guard ValueError (\<not> st_has ob ''cover_position_percent'' \<or> kind = Some ''shade'')) (\<lambda>_.
       guard ValueError (case dict_get (o_state ob) ''zone_id'' PNone of
                           PNone \<Rightarrow> True
                         | PStr z \<Rightarrow> map_of kinds z = Some ''hvac_zone''
                         | _ \<Rightarrow> False)))))))))"

type_synonym streams = "((string \<times> string) \<times> observation) list"

text \<open>
  One reading: a simultaneous reading that differs is a conflict, an older one is ignored, a newer
  one replaces the stream's reading.
\<close>

definition stream_step ::
  "snapshot \<Rightarrow> string set \<Rightarrow> (string \<times> string) list \<Rightarrow> observation \<Rightarrow> streams \<Rightarrow> streams cresult"
where
  "stream_step sn members kinds ob st =
     rbind (lift (one_subject ob)) (\<lambda>_.
     rbind (lift (validate_observation_scope ob (s_household_id sn) members kinds (s_as_of sn))) (\<lambda>_.
       case o_domain ob of
         None \<Rightarrow> Inr st
       | Some dm \<Rightarrow>
           (let key = (observation_subject ob, dm) in
            case map_of st key of
              None \<Rightarrow> Inr (dict_set key ob st)
            | Some old \<Rightarrow>
                rbind (lift (instant (observed_at old))) (\<lambda>told.
                rbind (lift (instant (observed_at ob))) (\<lambda>tnew.
                  if told = tnew \<and> (o_state old \<noteq> o_state ob \<or> o_source old \<noteq> o_source ob)
                  then Inl Context_error
                  else if told \<ge> tnew then Inr st
                  else Inr (dict_set key ob st))))))"

definition collect_streams :: "snapshot \<Rightarrow> string set \<Rightarrow> (string \<times> string) list \<Rightarrow> streams cresult" where
  "collect_streams sn members kinds = foldM (stream_step sn members kinds) (observations sn) []"

section \<open>Targets\<close>

definition aggregate_class :: "string \<Rightarrow> bool" where
  "aggregate_class n \<longleftrightarrow> n \<in> {''energy.optimize_cost'', ''environment.comfort_profile''}"

definition device_class :: "string \<Rightarrow> bool" where
  "device_class n \<longleftrightarrow>
     (starts_with ''energy.'' n \<or> starts_with ''environment.'' n \<or> starts_with ''security.'' n)
     \<and> \<not> aggregate_class n"

definition household_class :: "string \<Rightarrow> bool" where
  "household_class n \<longleftrightarrow> aggregate_class n \<or> starts_with ''governance.'' n \<or> starts_with ''finance.'' n
     \<or> n \<in> {''health.medical_decisions'', ''communication.contact_emergency_services''}"

text \<open>The target's asset and the subjects whose readings the action needs.\<close>

definition select_target ::
  "snapshot \<Rightarrow> action \<Rightarrow> string list option \<Rightarrow> string list \<Rightarrow> string list
     \<Rightarrow> (string option \<times> string list) cresult"
where
  "select_target sn a required_assets members assets =
     (let name = action_class a; t = a_target a in
      if device_class name then
        (case filter (\<lambda>b. b_adapter b = adapter t \<and> b_entity_id b = entity t) (asset_bindings sn) of
           [b] \<Rightarrow> if b_asset_id b \<in> set assets then Inr (Some (b_asset_id b), [b_asset_id b])
                  else Inl Context_error
         | _ \<Rightarrow> Inl Context_error)
      else if household_class name then
        if entity t \<noteq> s_household_id sn \<or> adapter t \<noteq> ''household'' then Inl Context_error
        else if \<not> aggregate_class name then Inr (None, [])
        else (case required_assets of
                None \<Rightarrow> Inr (None, assets)
              | Some rs \<Rightarrow> if set rs \<subseteq> set assets then Inr (None, rs) else Inl Context_error)
      else if name \<in> {''communication.notify_member'', ''health.routine_reminders'', ''health.comfort_preferences''} then
        if adapter t \<noteq> ''member'' \<or> entity t \<notin> set members then Inl Context_error else Inr (None, [])
      else if name = ''communication.contact_trusted_contact'' then
        if adapter t \<noteq> ''contacts'' \<or>
           entity t \<notin> c_id ` set (filter (\<lambda>c. c_party c = ''person'') (trusted_contacts sn))
        then Inl Context_error else Inr (None, [])
      else Inl Context_error)"

section \<open>Supplemental evidence\<close>

definition age_seconds :: "int \<Rightarrow> int \<Rightarrow> rat" where
  "age_seconds now t = of_int (now - t) / of_int us_per_second"

definition evidence_step ::
  "snapshot \<Rightarrow> supplemental \<Rightarrow> bool option \<times> rat list \<Rightarrow> (bool option \<times> rat list) cresult"
where
  "evidence_step sn it st =
     rbind (lift (instant (su_observed_at it))) (\<lambda>t.
       if su_household_id it \<noteq> s_household_id sn \<or> t > s_as_of sn then Inl Context_error
       else if fst st \<noteq> None \<and> fst st \<noteq> Some (su_scam_pattern it) then Inl Context_error
       else Inr (Some (su_scam_pattern it), snd st @ [age_seconds (s_as_of sn) t]))"

section \<open>Occupancy\<close>

definition is_true :: "pdict \<Rightarrow> string \<Rightarrow> bool" where
  "is_true r k \<longleftrightarrow> map_of r k = Some (PBool True)"

definition is_bool :: "pdict \<Rightarrow> string \<Rightarrow> bool" where
  "is_bool r k = (case map_of r k of Some (PBool _) \<Rightarrow> True | _ \<Rightarrow> False)"

definition any_known :: "string \<Rightarrow> pdict list \<Rightarrow> bool \<Rightarrow> bool option" where
  "any_known field selected known =
     (if list_ex (\<lambda>r. is_true r field) selected then Some True
      else if known \<and> list_all (\<lambda>r. is_bool r field) selected then Some False
      else None)"

definition person_row :: "observation \<Rightarrow> pdict" where
  "person_row ob = dict_set ''member_id'' (opt_str (o_member_id ob)) (o_state ob)"

definition person_rows :: "observation list \<Rightarrow> pdict list" where
  "person_rows people =
     map person_row (filter (\<lambda>ob. map_of (o_state ob) ''available'' \<noteq> Some (PBool False)) people)"

definition zone_of :: "pdict \<Rightarrow> string option" where
  "zone_of r = (case map_of r ''zone_id'' of Some (PStr z) \<Rightarrow> Some z | _ \<Rightarrow> None)"

definition zone_sleeping :: "action \<Rightarrow> string list \<Rightarrow> pdict list \<Rightarrow> bool \<Rightarrow> bool option" where
  "zone_sleeping a zones at_home known =
     (case zone (a_target a) of
        None \<Rightarrow> None
      | Some z \<Rightarrow>
          if z = [] then None
          else any_known ''sleeping'' (filter (\<lambda>r. zone_of r = Some z) at_home)
                 (known \<and> list_all (\<lambda>r. case zone_of r of Some y \<Rightarrow> y \<in> set zones | None \<Rightarrow> False) at_home))"

section \<open>The doorbell press\<close>

definition in_window :: "int \<Rightarrow> event_row \<Rightarrow> bool result" where
  "in_window t e = rbind (instant (starts_at e)) (\<lambda>s. rbind (instant (ends_at e)) (\<lambda>f. Inr (s \<le> t \<and> t < f)))"

fun any_within :: "int \<Rightarrow> event_row list \<Rightarrow> bool result" where
  "any_within t [] = Inr False"
| "any_within t (e # es) = rbind (in_window t e) (\<lambda>b. if b then Inr True else any_within t es)"

definition check_bound :: "string \<Rightarrow> string list \<Rightarrow> press option \<Rightarrow> unit cresult" where
  "check_bound name bells bound =
     (case bound of
        None \<Rightarrow> Inr ()
      | Some b \<Rightarrow> guard Context_error (name = ''security.door_unlock'' \<and> bells = [pr_asset_id b]
                   \<and> (\<exists>x \<in> {True, False}. expected b = PBool x)))"

text \<open>The press an unlock request is about: the bound one, or the active one.\<close>

definition select_press ::
  "int \<Rightarrow> string \<Rightarrow> pv \<Rightarrow> event_row list \<Rightarrow> press option \<Rightarrow> press option cresult"
where
  "select_press now bell press_text arrivals bound =
     rbind (case press_text of
              PStr s \<Rightarrow> if s = [] then Inr None else lift (rbind (instant s) (\<lambda>t. Inr (Some t)))
            | PNone \<Rightarrow> Inr None
            | _ \<Rightarrow> Inl (Raised TypeError)) (\<lambda>pressed.
       case bound of
         Some b \<Rightarrow>
           rbind (lift (instant (last_press_at b))) (\<lambda>bound_at.
             if bound_at > now then Inl Context_error
             else if after pressed bound_at then Inl Newer_press
             else Inr (Some b))
       | None \<Rightarrow>
           (case (pressed, press_text) of
              (Some t, PStr s) \<Rightarrow>
                if active_doorbell_press (Some t) now
                then rbind (lift (any_within t arrivals)) (\<lambda>ex.
                       Inr (Some \<lparr>pr_asset_id = bell, last_press_at = s, expected = PBool ex\<rparr>))
                else Inr None
            | _ \<Rightarrow> Inr None))"

definition press_expected :: "press \<Rightarrow> bool" where
  "press_expected b = pv_truthy (expected b)"

section \<open>Prices and ages\<close>

definition reads_price :: "node \<Rightarrow> bool" where
  "reads_price n = list_ex (\<lambda>m. m = NAttr ''context.price_band'') (walk n)"

definition needs_price :: "nat \<Rightarrow> rule \<Rightarrow> bool result" where
  "needs_price frames rl =
     rbind (mapM (parse frames) (conditions rl @ map when (overrides rl))) (\<lambda>ns. Inr (list_ex reads_price ns))"

definition subject_age :: "int \<Rightarrow> (string \<times> observation) list \<Rightarrow> string \<Rightarrow> rat cresult" where
  "subject_age now obs s =
     (case map_of obs s of
        None \<Rightarrow> Inl (Raised KeyError)
      | Some ob \<Rightarrow> rbind (lift (instant (observed_at ob))) (\<lambda>t. Inr (age_seconds now t)))"

section \<open>Extraction\<close>

definition obs_dump :: "observation \<Rightarrow> pv" where
  "obs_dump ob = PDict (
     [(''household_id'', PStr (o_household_id ob))] @
     (case o_domain ob of None \<Rightarrow> [] | Some d \<Rightarrow> [(''domain'', PStr d)]) @
     (case o_member_id ob of None \<Rightarrow> [] | Some d \<Rightarrow> [(''member_id'', PStr d)]) @
     (case o_asset_id ob of None \<Rightarrow> [] | Some d \<Rightarrow> [(''asset_id'', PStr d)]) @
     [(''observed_at'', PStr (observed_at ob)), (''source'', PStr (o_source ob)), (''state'', PDict (o_state ob))])"

definition press_dump :: "press \<Rightarrow> pv" where
  "press_dump b = PDict [(''asset_id'', PStr (pr_asset_id b)), (''last_press_at'', PStr (last_press_at b)),
     (''expected'', expected b)]"

definition supplemental_dump :: "supplemental \<Rightarrow> pv" where
  "supplemental_dump it = PDict [(''household_id'', PStr (su_household_id it)),
     (''observed_at'', PStr (su_observed_at it)), (''source'', PStr (su_source it)),
     (''scam_pattern'', PBool (su_scam_pattern it))]"

text \<open>The readings of one subject: each asset's own domain, each member's presence.\<close>

definition subject_readings :: "(string \<times> asset_row) list \<Rightarrow> string list \<Rightarrow> streams \<Rightarrow> (string \<times> observation) list" where
  "subject_readings assets members st =
     concat (map (\<lambda>(s, d). case map_of st (s, d) of None \<Rightarrow> [] | Some ob \<Rightarrow> [(s, ob)])
       (map (\<lambda>(k, r). (k, dict_get ASSET_DOMAINS (as_kind r) [])) assets @ map (\<lambda>m. (m, ''presence'')) members))"

definition arrival_dump :: "event_row \<Rightarrow> pv list" where
  "arrival_dump e =
     (case (expected_at e, e_member_id e) of
        (Some x, Some m) \<Rightarrow>
          if x \<noteq> [] \<and> m \<noteq> [] then [PDict [(''member_id'', PStr m), (''expected_at'', PStr x)]] else []
      | _ \<Rightarrow> [])"

definition occupancy_dict :: "bool option \<Rightarrow> bool \<Rightarrow> pdict list \<Rightarrow> pdict" where
  "occupancy_dict sleeping known rows =
     (case sleeping of None \<Rightarrow> [] | Some b \<Rightarrow> [(''sleeping_any'', PBool b)]) @
     (if known then
        [(''present_members'', PList (map (\<lambda>r. dict_get r ''member_id'' PNone) (filter (\<lambda>r. is_true r ''present'') rows))),
         (''members'', PList (map PDict rows))]
      else [])"

text \<open>What the doorbell says: whether it is online, and the press the request is about.\<close>

definition doorbell_facts ::
  "int \<Rightarrow> string \<Rightarrow> string list \<Rightarrow> (string \<times> observation) list \<Rightarrow> event_row list \<Rightarrow> press option
     \<Rightarrow> (bool option \<times> press option \<times> string list) cresult"
where
  "doorbell_facts now name bells obs arrivals bound =
     (case bells of
        [bell] \<Rightarrow>
          if name = ''security.door_unlock'' then
            (let st = (case map_of obs bell of None \<Rightarrow> [] | Some ob \<Rightarrow> o_state ob) in
             rbind (select_press now bell (dict_get st ''last_press_at'' PNone) arrivals bound) (\<lambda>pb.
               Inr (case map_of st ''available'' of Some (PBool b) \<Rightarrow> Some b | _ \<Rightarrow> None, pb, [bell])))
          else Inr (None, None, [])
      | _ \<Rightarrow> Inr (None, None, []))"

text \<open>The household's tariff reading, when a condition asks for the price band.\<close>

definition tariff_facts :: "bool \<Rightarrow> string \<Rightarrow> streams \<Rightarrow> (observation \<times> pdict) option" where
  "tariff_facts needed hid st =
     (if \<not> needed then None
      else case map_of st (hid, ''energy'') of
             None \<Rightarrow> None
           | Some ob \<Rightarrow> Some (ob,
               if map_of (o_state ob) ''available'' \<noteq> Some (PBool False) \<and> st_has ob ''price_band''
               then [(''price_band'', dict_get (o_state ob) ''price_band'' PNone)] else []))"

definition baseline_of :: "snapshot \<Rightarrow> action \<Rightarrow> pv" where
  "baseline_of sn a =
     (case filter (\<lambda>r. Some (p_member_id r) = member_id (requested_by a) \<and> p_key r = ''temperature_target_f'')
             (preferences sn) of
        [r] \<Rightarrow> p_value r
      | _ \<Rightarrow> PNone)"

definition asset_dict :: "snapshot \<Rightarrow> (string \<times> asset_row) list \<Rightarrow> (string \<times> observation) list \<Rightarrow> string option \<Rightarrow> pdict" where
  "asset_dict sn assets obs target =
     [(''state'', PDict (case map_of obs (case target of None \<Rightarrow> [] | Some t \<Rightarrow> t) of
                           None \<Rightarrow> [] | Some ob \<Rightarrow> o_state ob)),
      (''policy'', PDict (case filter (\<lambda>r. Some (pol_asset_id r) = target) (asset_policies sn) of
                            [r] \<Rightarrow> pol_row r | _ \<Rightarrow> [])),
      (''room_kind'', opt_str (Option.bind target (\<lambda>t. Option.bind (map_of assets t) room_kind)))]"

definition bedroom :: "(string \<times> asset_row) list \<Rightarrow> string option \<Rightarrow> bool option" where
  "bedroom assets target =
     map_option (\<lambda>k. k = ''bedroom'') (Option.bind target (\<lambda>t. Option.bind (map_of assets t) room_kind))"

text \<open>The readings an action needs and what they say, before the facts are assembled.\<close>

record gathered =
  g_target :: "string option"
  g_streams :: streams
  g_obs :: "(string \<times> observation) list"
  g_required :: "string list"
  g_people :: "observation list"
  g_scam :: "bool option"
  g_ages :: "rat list"
  g_online :: "bool option"
  g_press :: "press option"
  g_extra :: pdict

abbreviation members_of :: "snapshot \<Rightarrow> (string \<times> member_row) list" where
  "members_of sn \<equiv> dict_of m_id (s_members sn)"

abbreviation assets_of :: "snapshot \<Rightarrow> (string \<times> asset_row) list" where
  "assets_of sn \<equiv> dict_of as_id (s_assets sn)"

definition assets_with :: "string \<Rightarrow> snapshot \<Rightarrow> string list" where
  "assets_with k sn = map fst (filter (\<lambda>(_, r). as_kind r = k) (assets_of sn))"

definition arrivals_of :: "snapshot \<Rightarrow> event_row list" where
  "arrivals_of sn = filter (\<lambda>e. e_kind e = ''arrival'') (schedule_events sn)"

definition people_of :: "snapshot \<Rightarrow> (string \<times> observation) list \<Rightarrow> observation list" where
  "people_of sn obs = concat (map (\<lambda>m. case map_of obs m of None \<Rightarrow> [] | Some ob \<Rightarrow> [ob]) (map fst (members_of sn)))"

definition people_ids :: "observation list \<Rightarrow> string list" where
  "people_ids people = concat (map (\<lambda>ob. case o_member_id ob of None \<Rightarrow> [] | Some m \<Rightarrow> [m]) people)"

definition press_context :: "press option \<Rightarrow> pdict" where
  "press_context b = (case b of None \<Rightarrow> [] | Some b \<Rightarrow> [(''unexpected_visitor'', PBool (\<not> press_expected b))])"

definition gather ::
  "nat \<Rightarrow> snapshot \<Rightarrow> constitution \<Rightarrow> action \<Rightarrow> supplemental list \<Rightarrow> press option \<Rightarrow> string list option
     \<Rightarrow> gathered cresult"
where
  "gather frames sn p a evs bound required_assets =
     rbind (select_target sn a required_assets (map fst (members_of sn)) (map fst (assets_of sn))) (\<lambda>(target, req0).
     rbind (collect_streams sn (set (map fst (members_of sn))) (map (\<lambda>(k, r). (k, as_kind r)) (assets_of sn))) (\<lambda>st.
     let obs0 = subject_readings (assets_of sn) (map fst (members_of sn)) st; people = people_of sn obs0;
         bells = assets_with ''doorbell'' sn in
     rbind (foldM (evidence_step sn) evs (None, [])) (\<lambda>(scam, ages).
     rbind (check_bound (action_class a) bells bound) (\<lambda>_.
     rbind (doorbell_facts (s_as_of sn) (action_class a) bells obs0 (arrivals_of sn) bound) (\<lambda>(online, pressed, req2).
     rbind (lift (select_rule p (action_class a) (rq_role (requested_by a)))) (\<lambda>rl.
     rbind (lift (needs_price frames rl)) (\<lambda>np.
     let tariff = tariff_facts np (s_household_id sn) st in
       Inr \<lparr>g_target = target, g_streams = st,
            g_obs = (case tariff of None \<Rightarrow> obs0 | Some (ob, _) \<Rightarrow> dict_set (s_household_id sn) ob obs0),
            g_required = req0 @ people_ids people @ req2 @ (case tariff of None \<Rightarrow> [] | Some _ \<Rightarrow> [s_household_id sn]),
            g_people = people, g_scam = scam, g_ages = ages, g_online = online, g_press = pressed,
            g_extra = press_context pressed @ (case tariff of None \<Rightarrow> [] | Some (_, e) \<Rightarrow> e)\<rparr>)))))))"

definition all_known :: "snapshot \<Rightarrow> pdict list \<Rightarrow> bool" where
  "all_known sn rows \<longleftrightarrow> length rows = length (members_of sn) \<and> list_all (\<lambda>r. is_bool r ''present'') rows"

definition guest_row :: "snapshot \<Rightarrow> pdict \<Rightarrow> bool" where
  "guest_row sn r =
     (case map_of r ''member_id'' of
        Some (PStr m) \<Rightarrow> (case map_of (members_of sn) m of None \<Rightarrow> False | Some row \<Rightarrow> m_role row = Guest)
      | _ \<Rightarrow> False)"

definition read_subjects :: "gathered \<Rightarrow> string list" where
  "read_subjects g = sorted_set (filter (\<lambda>s. s \<in> fst ` set (g_obs g)) (g_required g))"

definition risk_facts_of :: "snapshot \<Rightarrow> action \<Rightarrow> gathered \<Rightarrow> rat list \<Rightarrow> risk_facts" where
  "risk_facts_of sn a g ages =
     (let rows = person_rows (g_people g); known = all_known sn rows;
          at_home = filter (\<lambda>r. is_true r ''present'') rows in
      \<lparr>observation_ages_seconds =
         (if set (g_required g) \<subseteq> fst ` set (g_obs g) then Some (g_ages g @ ages) else None),
       sleeping_in_target_zone = zone_sleeping a (assets_with ''hvac_zone'' sn) at_home known,
       sleeping_any = any_known ''sleeping'' at_home known,
       target_is_bedroom = bedroom (assets_of sn) (g_target g),
       guest_present = any_known ''present'' (filter (guest_row sn) rows) known,
       doorbell_online = g_online g, baseline_target_f = baseline_of sn a, scam_pattern = g_scam g\<rparr>)"

definition context_dict :: "constitution \<Rightarrow> string \<Rightarrow> int \<Rightarrow> gathered \<Rightarrow> pdict" where
  "context_dict p name local g =
     [(''hour'', PInt (hour_of_day local)), (''weekday'', PStr (DAYS ! nat (weekday local))),
      (''time'', PStr (hhmm (minute_of_day local))), (''is_quiet_hours'', PBool (quiet_now p name local))] @ g_extra g"

definition fact_values ::
  "constitution \<Rightarrow> snapshot \<Rightarrow> action \<Rightarrow> supplemental list \<Rightarrow> dec \<Rightarrow> int \<Rightarrow> gathered \<Rightarrow> pdict"
where
  "fact_values p sn a evs used local g =
     (let rows = person_rows (g_people g); known = all_known sn rows in
      [(''context'', PDict (context_dict p (action_class a) local g)),
       (''occupancy'', PDict (occupancy_dict
          (any_known ''sleeping'' (filter (\<lambda>r. is_true r ''present'') rows) known) known rows)),
       (''asset'', PDict (asset_dict sn (assets_of sn) (g_obs g) (g_target g))),
       (''household'', PDict [(''budget_used_today'', PDec used)]),
       (''schedule'', PDict [(''arrival_windows'', PList (map (\<lambda>e. PDict (e_row e)) (arrivals_of sn))),
          (''arrivals'', PList (concat (map arrival_dump (arrivals_of sn))))]),
       (''observations'', PList (map (\<lambda>s. case map_of (g_obs g) s of None \<Rightarrow> PNone | Some ob \<Rightarrow> obs_dump ob)
          (read_subjects g)))] @
      (case g_press g of None \<Rightarrow> [] | Some b \<Rightarrow> [(''doorbell'', press_dump b)]) @
      [(''supplemental'', PList (map supplemental_dump evs))])"

definition extract_facts ::
  "nat \<Rightarrow> (string \<Rightarrow> int \<Rightarrow> int) \<Rightarrow> snapshot \<Rightarrow> constitution \<Rightarrow> action \<Rightarrow> supplemental list \<Rightarrow> dec
     \<Rightarrow> press option \<Rightarrow> string list option \<Rightarrow> facts cresult"
where
  "extract_facts frames tz sn p a evs used bound required_assets =
     (if s_stale sn \<or> s_scope sn \<noteq> ''all'' then Inl Context_error
      else if (case zone (a_target a) of None \<Rightarrow> False | Some z \<Rightarrow> z \<notin> set (assets_with ''hvac_zone'' sn))
      then Inl Context_error
      else
        let local = s_as_of sn + tz (timezone sn) (s_as_of sn) in
        rbind (gather frames sn p a evs bound required_assets) (\<lambda>g.
        rbind (mapM (subject_age (s_as_of sn) (g_obs g)) (read_subjects g)) (\<lambda>ages.
        rbind (lift (validate_facts (risk_facts_of sn a g ages))) (\<lambda>_.
          Inr \<lparr>f_policy = \<lparr>household = c_household p, as_of = s_as_of sn,
                          pf_values = fact_values p sn a evs used local g,
                          member_ids = map fst (members_of sn), zone_ids = assets_with ''hvac_zone'' sn\<rparr>,
               f_risk = risk_facts_of sn a g ages, paused = autonomy_paused sn,
               quiet = quiet_now p (action_class a) local, f_press = g_press g\<rparr>))))"

section \<open>Quiet hours as intervals\<close>

definition digit :: "int \<Rightarrow> char" where
  "digit n = char_of (nat (48 + n))"

lemma digit_val_digit: "0 \<le> a \<Longrightarrow> a < 10 \<Longrightarrow> digit_val (digit a) = a"
  by (simp add: digit_def digit_val_def take_bit_nat_eq_self)

lemma digit_eq: "0 \<le> a \<Longrightarrow> a < 10 \<Longrightarrow> 0 \<le> b \<Longrightarrow> b < 10 \<Longrightarrow> digit a = digit b \<longleftrightarrow> a = b"
  by (metis digit_val_digit)

lemma digit_less: "0 \<le> a \<Longrightarrow> a < 10 \<Longrightarrow> 0 \<le> b \<Longrightarrow> b < 10 \<Longrightarrow> digit a < digit b \<longleftrightarrow> a < b"
  by (simp add: digit_def less_char_def take_bit_nat_eq_self)

lemma hhmm_digits:
  assumes "0 \<le> a" "a < 1440"
  obtains h h' m m' where "a = 600 * h + 60 * h' + 10 * m + m'" "0 \<le> h" "h < 10" "0 \<le> h'" "h' < 10"
    "0 \<le> m" "m < 6" "0 \<le> m'" "m' < 10" "hhmm a = [digit h, digit h', CHR '':'', digit m, digit m']"
proof -
  have 1: "a = 60 * (a div 60) + a mod 60" "0 \<le> a mod 60" "a mod 60 < 60" by simp_all
  have 2: "a div 60 = 10 * (a div 60 div 10) + a div 60 mod 10" "0 \<le> a div 60 mod 10" "a div 60 mod 10 < 10"
    by simp_all
  have 3: "a mod 60 = 10 * (a mod 60 div 10) + a mod 60 mod 10" "0 \<le> a mod 60 mod 10" "a mod 60 mod 10 < 10"
    by simp_all
  show thesis
  proof (rule that [of "a div 60 div 10" "a div 60 mod 10" "a mod 60 div 10" "a mod 60 mod 10"])
    show "hhmm a = [digit (a div 60 div 10), digit (a div 60 mod 10), CHR '':'', digit (a mod 60 div 10),
        digit (a mod 60 mod 10)]"
      by (simp add: hhmm_def two_digits_def digit_def)
  qed (use 1 2 3 assms in linarith)+
qed

lemma hhmm_less:
  assumes "0 \<le> a" "a < 1440" "0 \<le> b" "b < 1440"
  shows "hhmm a < hhmm b \<longleftrightarrow> a < b"
proof -
  obtain h h' m m' where a: "a = 600 * h + 60 * h' + 10 * m + m'" "0 \<le> h" "h < 10" "0 \<le> h'" "h' < 10"
    "0 \<le> m" "m < 6" "0 \<le> m'" "m' < 10" "hhmm a = [digit h, digit h', CHR '':'', digit m, digit m']"
    by (rule hhmm_digits [OF assms(1,2)])
  obtain k k' n n' where b: "b = 600 * k + 60 * k' + 10 * n + n'" "0 \<le> k" "k < 10" "0 \<le> k'" "k' < 10"
    "0 \<le> n" "n < 6" "0 \<le> n'" "n' < 10" "hhmm b = [digit k, digit k', CHR '':'', digit n, digit n']"
    by (rule hhmm_digits [OF assms(3,4)])
  have "hhmm a < hhmm b \<longleftrightarrow> h < k \<or> h = k \<and> (h' < k' \<or> h' = k' \<and> (m < n \<or> m = n \<and> m' < n'))"
    unfolding a(10) b(10) using a(2-9) b(2-9) by (simp add: digit_eq digit_less)
  also have "\<dots> \<longleftrightarrow> a < b" unfolding a(1) b(1) using a(2-9) b(2-9) by linarith
  finally show ?thesis .
qed

lemma time_match_digits:
  assumes "time_match s"
  shows "s = hhmm (time_minutes s) \<and> 0 \<le> time_minutes s \<and> time_minutes s < 1440"
proof -
  have d: "\<exists>n. c = digit n \<and> 0 \<le> n \<and> n < 10" if "is_digit c" for c
  proof -
    from that have b: "48 \<le> (of_char c :: nat)" "(of_char c :: nat) \<le> 57"
      by (simp_all add: is_digit_def less_eq_char_def)
    then show ?thesis
      by (intro exI [of _ "int (of_char c) - 48"]) (simp add: digit_def nat_int_add)
  qed
  from assms obtain a b c x where s: "s = [a, b, CHR '':'', c, x]"
    and dd: "is_digit a" "is_digit b" "is_digit c" "is_digit x"
    and lim: "a \<in> {CHR ''0'', CHR ''1''} \<or> a = CHR ''2'' \<and> b \<le> CHR ''3''" "c \<le> CHR ''5''"
    by (cases s rule: time_match.cases) (auto simp: is_digit_def less_eq_char_def)
  from d [OF dd(1)] d [OF dd(2)] d [OF dd(3)] d [OF dd(4)] obtain h h' m m' where
    e: "a = digit h" "b = digit h'" "c = digit m" "x = digit m'"
    and r: "0 \<le> h" "h < 10" "0 \<le> h'" "h' < 10" "0 \<le> m" "m < 10" "0 \<le> m'" "m' < 10" by blast
  have k: "CHR ''0'' = digit 0" "CHR ''1'' = digit 1" "CHR ''2'' = digit 2" "CHR ''3'' = digit 3" "CHR ''5'' = digit 5"
    by code_simp+
  from lim r have l: "h \<le> 1 \<or> h = 2 \<and> h' \<le> 3" "m \<le> 5"
    unfolding e k by (auto simp: digit_eq digit_less le_less)
  have t: "time_minutes s = (10 * h + h') * 60 + (10 * m + m')"
    using r by (simp add: s e time_minutes_def digits_val_def digit_val_digit numeral_3_eq_3)
  have split: "(q * 60 + y) div 60 = q \<and> (q * 60 + y) mod 60 = y" if "0 \<le> y" "y < 60" for q y :: int
    using that by simp
  have "((10 * h + h') * 60 + (10 * m + m')) div 60 = 10 * h + h' \<and>
      ((10 * h + h') * 60 + (10 * m + m')) mod 60 = 10 * m + m'"
    using r l by (intro split) linarith+
  moreover have "(10 * h + h') div 10 = h" "(10 * h + h') mod 10 = h'" "(10 * m + m') div 10 = m" "(10 * m + m') mod 10 = m'"
    using r by simp_all
  ultimately have "hhmm (time_minutes s) = s"
    by (simp only: t hhmm_def two_digits_def) (simp add: s e digit_def)
  moreover have "0 \<le> time_minutes s \<and> time_minutes s < 1440"
  proof -
    have "10 * h + h' \<le> 23" using l(1) r by auto
    then show ?thesis unfolding t using r l(2) by simp
  qed
  ultimately show ?thesis by simp
qed


text \<open>The window of a quiet period that starts on the civil day \<open>k\<close>, in microseconds.\<close>

definition quiet_window :: "quiet_period \<Rightarrow> int \<Rightarrow> int \<Rightarrow> bool" where
  "quiet_window q k local \<longleftrightarrow>
     k * us_per_day + time_minutes (from_time q) * us_per_minute \<le> local \<and>
     local < k * us_per_day + time_minutes (to_time q) * us_per_minute
               + (if time_minutes (to_time q) < time_minutes (from_time q) then us_per_day else 0)"

lemma window_days:
  fixes k d f t r :: int
  assumes "0 \<le> r" "r < us_per_day" "0 \<le> f" "f < us_per_day" "0 \<le> t" "t < us_per_day"
  shows "k * us_per_day + f \<le> d * us_per_day + r \<and>
         d * us_per_day + r < k * us_per_day + t + (if t < f then us_per_day else 0) \<longleftrightarrow>
         k = d \<and> f \<le> r \<and> (r < t \<or> t < f) \<or> k = d - 1 \<and> t < f \<and> r < t"
proof (cases "k = d \<or> k = d - 1")
  case True
  then show ?thesis using assms by (auto simp: us_defs algebra_simps)
next
  case False
  then have "k \<le> d - 2 \<or> k \<ge> d + 1" by linarith
  then show ?thesis using assms by (auto simp: us_defs split: if_split_asm)
qed

lemma quiet_period_interval:
  assumes "valid_quiet q"
  shows "quiet_period_active q name local \<longleftrightarrow>
    (name \<in> set (affects q) \<or> class_key name \<in> set (affects q)) \<and>
    (\<exists>k. DAYS ! nat ((k + 3) mod 7) \<in> set (days q) \<and> quiet_window q k local)"
proof -
  let ?f = "time_minutes (from_time q)" and ?t = "time_minutes (to_time q)"
  let ?d = "local div us_per_day" and ?r = "local mod us_per_day" and ?m = "minute_of_day local"
  from assms have tm: "time_match (from_time q)" "time_match (to_time q)" and ne: "from_time q \<noteq> to_time q"
    by (simp_all add: valid_quiet_def)
  note F = time_match_digits [OF tm(1)] and T = time_match_digits [OF tm(2)]
  have m: "0 \<le> ?m" "?m < 1440" using minute_of_day_range by blast+
  have lt: "to_time q < from_time q \<longleftrightarrow> ?t < ?f" "hhmm ?m < to_time q \<longleftrightarrow> ?m < ?t" "hhmm ?m < from_time q \<longleftrightarrow> ?m < ?f"
    using F T m hhmm_less by metis+
  have r: "0 \<le> ?r" "?r < us_per_day" by (simp_all add: us_defs)
  have mr: "?m < x \<longleftrightarrow> ?r < x * us_per_minute" for x
  proof -
    have "?r = ?m * us_per_minute + ?r mod us_per_minute" "0 \<le> ?r mod us_per_minute" "?r mod us_per_minute < us_per_minute"
      by (simp_all add: minute_of_day_def us_per_minute_def us_per_second_def)
    then show ?thesis unfolding us_per_minute_def us_per_second_def by linarith
  qed
  have w: "quiet_window q k local \<longleftrightarrow>
      k = ?d \<and> ?f \<le> ?m \<and> (?m < ?t \<or> ?t < ?f) \<or> k = ?d - 1 \<and> ?t < ?f \<and> ?m < ?t" for k
  proof -
    have "local = ?d * us_per_day + ?r" by simp
    then have "quiet_window q k local \<longleftrightarrow>
        k * us_per_day + ?f * us_per_minute \<le> ?d * us_per_day + ?r \<and>
        ?d * us_per_day + ?r < k * us_per_day + ?t * us_per_minute
          + (if ?t * us_per_minute < ?f * us_per_minute then us_per_day else 0)"
      by (simp add: quiet_window_def us_defs)
    also have "\<dots> \<longleftrightarrow> k = ?d \<and> ?f * us_per_minute \<le> ?r \<and> (?r < ?t * us_per_minute \<or> ?t * us_per_minute < ?f * us_per_minute)
        \<or> k = ?d - 1 \<and> ?t * us_per_minute < ?f * us_per_minute \<and> ?r < ?t * us_per_minute"
      using F T r by (intro window_days) (simp_all add: us_defs)
    also have "\<dots> \<longleftrightarrow> k = ?d \<and> ?f \<le> ?m \<and> (?m < ?t \<or> ?t < ?f) \<or> k = ?d - 1 \<and> ?t < ?f \<and> ?m < ?t"
      using mr [of ?f] mr [of ?t] by (auto simp: us_defs)
    finally show ?thesis .
  qed
  have day: "weekday local = (?d + 3) mod 7" "weekday (local - us_per_day) = (?d - 1 + 3) mod 7"
  proof -
    show "weekday local = (?d + 3) mod 7" by (simp add: weekday_def)
    have "(local - us_per_day) div us_per_day = ?d - 1"
      using div_mult_self1 [of us_per_day local "-1"] by (simp add: us_defs)
    then show "weekday (local - us_per_day) = (?d - 1 + 3) mod 7" by (simp add: weekday_def)
  qed
  have "?t \<noteq> ?f" using F T ne by metis
  then show ?thesis
    unfolding quiet_period_active_def Let_def w
    by (cases "?t < ?f"; cases "?m < ?t"; cases "?m < ?f")
       (auto simp: lt day not_less [symmetric] simp del: not_less)
qed


section \<open>The newest reading of a stream wins\<close>

definition stream_key :: "observation \<Rightarrow> (string \<times> string) option" where
  "stream_key ob = map_option (\<lambda>d. (observation_subject ob, d)) (o_domain ob)"

definition obs_time :: "observation \<Rightarrow> int option" where
  "obs_time ob = (case instant (observed_at ob) of Inl _ \<Rightarrow> None | Inr t \<Rightarrow> Some t)"

lemma lift_Inr_iff [simp]: "lift r = Inr x \<longleftrightarrow> r = Inr x"
  by (cases r) (simp_all add: lift_def)

lemma scope_not_future:
  assumes "validate_observation_scope ob hid ms ks now = Inr ()"
  shows "\<exists>t. instant (observed_at ob) = Inr t \<and> t \<le> now" and "o_household_id ob = hid"
  using assms by (auto simp: validate_observation_scope_def rbind_Inr_iff Let_def)

text \<open>What the streams know after a prefix of the readings.\<close>

definition streams_ok :: "snapshot \<Rightarrow> observation list \<Rightarrow> streams \<Rightarrow> bool" where
  "streams_ok sn seen st \<longleftrightarrow>
     (\<forall>key ob. map_of st key = Some ob \<longrightarrow>
        ob \<in> set seen \<and> stream_key ob = Some key \<and> o_household_id ob = s_household_id sn \<and>
        (\<exists>t \<le> s_as_of sn. obs_time ob = Some t \<and>
           (\<forall>x \<in> set seen. stream_key x = Some key \<longrightarrow> (\<exists>u \<le> t. obs_time x = Some u)))) \<and>
     (\<forall>x \<in> set seen. \<forall>key. stream_key x = Some key \<longrightarrow> map_of st key \<noteq> None)"

lemma stream_step_ok:
  assumes "streams_ok sn seen st" and "stream_step sn ms ks ob st = Inr st'"
  shows "streams_ok sn (seen @ [ob]) st'"
proof -
  from assms(2) have v: "validate_observation_scope ob (s_household_id sn) ms ks (s_as_of sn) = Inr ()"
    by (auto simp: stream_step_def rbind_Inr_iff)
  then obtain t where t: "instant (observed_at ob) = Inr t" "t \<le> s_as_of sn" and h: "o_household_id ob = s_household_id sn"
    using scope_not_future by blast
  then have ot: "obs_time ob = Some t" by (simp add: obs_time_def)
  show ?thesis
  proof (cases "o_domain ob")
    case None
    with assms(2) v have "st' = st" by (auto simp: stream_step_def rbind_Inr_iff)
    moreover from None have "stream_key ob = None" by (simp add: stream_key_def)
    ultimately show ?thesis using assms(1) by (auto simp: streams_ok_def)
  next
    case (Some d)
    let ?key = "(observation_subject ob, d)"
    from Some have k: "stream_key ob = Some ?key" by (simp add: stream_key_def)
    show ?thesis
    proof (cases "map_of st ?key")
      case None
      with Some assms(2) v have st': "st' = dict_set ?key ob st"
        by (auto simp: stream_step_def rbind_Inr_iff Let_def)
      from None assms(1) have fresh: "stream_key x \<noteq> Some ?key" if "x \<in> set seen" for x
        using that unfolding streams_ok_def by blast
      show ?thesis
        unfolding streams_ok_def st' using assms(1) fresh ot t h k
        by (auto simp: streams_ok_def)
    next
      case old: (Some old)
      with assms(1) obtain told where told: "obs_time old = Some told" "told \<le> s_as_of sn"
        and mx: "\<And>x. x \<in> set seen \<Longrightarrow> stream_key x = Some ?key \<Longrightarrow> \<exists>u \<le> told. obs_time x = Some u"
        unfolding streams_ok_def by blast
      from told(1) have io: "instant (observed_at old) = Inr told"
        by (simp add: obs_time_def split: sum.split_asm)
      from Some old assms(2) v io t(1) have st': "st' = (if told \<ge> t then st else dict_set ?key ob st)"
        by (auto simp: stream_step_def rbind_Inr_iff Let_def split: if_split_asm)
      show ?thesis
      proof (cases "told \<ge> t")
        case True
        with st' have st'': "st' = st" by simp
        have "\<exists>tt \<le> s_as_of sn. obs_time x = Some tt \<and>
            (\<forall>y \<in> set (seen @ [ob]). stream_key y = Some key \<longrightarrow> (\<exists>u \<le> tt. obs_time y = Some u))"
          if m: "map_of st key = Some x" for key x
        proof -
          from assms(1) m obtain tt where tt: "tt \<le> s_as_of sn" "obs_time x = Some tt"
            "\<forall>y \<in> set seen. stream_key y = Some key \<longrightarrow> (\<exists>u \<le> tt. obs_time y = Some u)"
            unfolding streams_ok_def by blast
          moreover have "stream_key ob = Some key \<longrightarrow> (\<exists>u \<le> tt. obs_time ob = Some u)"
            using m k old told(1) tt(2) True ot by auto
          ultimately show ?thesis by auto
        qed
        moreover have "\<forall>key x. map_of st key = Some x \<longrightarrow> x \<in> set seen \<and> stream_key x = Some key \<and>
            o_household_id x = s_household_id sn"
          "\<forall>x \<in> set seen. \<forall>key. stream_key x = Some key \<longrightarrow> map_of st key \<noteq> None"
          using assms(1) unfolding streams_ok_def by blast+
        ultimately show ?thesis unfolding streams_ok_def st'' using k old by auto
      next
        case False
        then have "\<exists>u \<le> t. obs_time x = Some u" if "x \<in> set seen" "stream_key x = Some ?key" for x
          using mx [OF that] by auto
        with False show ?thesis
          unfolding streams_ok_def st' using assms(1) ot t h k
          by (auto simp: streams_ok_def)
      qed
    qed
  qed
qed

lemma collect_streams_ok:
  assumes "collect_streams sn ms ks = Inr st"
  shows "streams_ok sn (observations sn) st"
proof -
  have "streams_ok sn (seen @ obs) st'" if "foldM (stream_step sn ms ks) obs st = Inr st'" "streams_ok sn seen st"
    for seen obs st st'
    using that
  proof (induction obs arbitrary: seen st)
    case (Cons ob obs)
    from Cons.prems(1) obtain st1 where "stream_step sn ms ks ob st = Inr st1"
      "foldM (stream_step sn ms ks) obs st1 = Inr st'" by (auto simp: rbind_Inr_iff)
    with Cons.IH [of st1 "seen @ [ob]"] stream_step_ok [OF Cons.prems(2)] show ?case by simp
  qed simp
  from this [of "observations sn" "[]" st "[]"] assms show ?thesis
    by (simp add: collect_streams_def streams_ok_def)
qed


section \<open>What an extraction establishes\<close>

lemma gather_Inr:
  assumes "gather frames sn p a evs bound ra = Inr g"
  obtains req0 where "select_target sn a ra (map fst (members_of sn)) (map fst (assets_of sn)) = Inr (g_target g, req0)"
    "collect_streams sn (set (map fst (members_of sn))) (map (\<lambda>(k, r). (k, as_kind r)) (assets_of sn)) = Inr (g_streams g)"
    "set req0 \<subseteq> set (g_required g)"
    "fst ` set (g_obs g) \<subseteq> insert (s_household_id sn)
       (fst ` set (subject_readings (assets_of sn) (map fst (members_of sn)) (g_streams g)))"
proof -
  have d: "fst ` set obs \<subseteq> insert h (fst ` set obs)" for h :: string and obs :: "(string \<times> observation) list" by blast
  have "\<exists>req0. select_target sn a ra (map fst (members_of sn)) (map fst (assets_of sn)) = Inr (g_target g, req0) \<and>
    collect_streams sn (set (map fst (members_of sn))) (map (\<lambda>(k, r). (k, as_kind r)) (assets_of sn)) = Inr (g_streams g) \<and>
    set req0 \<subseteq> set (g_required g) \<and>
    fst ` set (g_obs g) \<subseteq> insert (s_household_id sn)
       (fst ` set (subject_readings (assets_of sn) (map fst (members_of sn)) (g_streams g)))"
    using assms d unfolding gather_def
    by (clarsimp simp: rbind_Inr_iff Let_def dict_set_dom split: option.split prod.split)
  then show thesis using that by blast
qed

lemma extract_Inr:
  assumes "extract_facts frames tz sn p a evs used bound ra = Inr f"
  obtains g ages where "gather frames sn p a evs bound ra = Inr g" "f_risk f = risk_facts_of sn a g ages"
    "\<not> s_stale sn" "s_scope sn = ''all''"
    "pf_values (f_policy f) = fact_values p sn a evs used (s_as_of sn + tz (timezone sn) (s_as_of sn)) g"
    "household (f_policy f) = c_household p" "paused f = autonomy_paused sn"
    "quiet f = quiet_now p (action_class a) (s_as_of sn + tz (timezone sn) (s_as_of sn))"
    "f_press f = g_press g"
  using assms that unfolding extract_facts_def Let_def
  by (auto simp: rbind_Inr_iff split: if_split_asm)

text \<open>A device action names an asset of the household, and needs a reading of it.\<close>

lemma device_target:
  assumes "select_target sn a ra ms as = Inr (target, req)" and "device_class (action_class a)"
  obtains b where "target = Some (b_asset_id b)" "req = [b_asset_id b]" "b_asset_id b \<in> set as"
    "b \<in> set (asset_bindings sn)" "b_adapter b = adapter (a_target a)" "b_entity_id b = entity (a_target a)"
proof -
  let ?bs = "filter (\<lambda>b. b_adapter b = adapter (a_target a) \<and> b_entity_id b = entity (a_target a)) (asset_bindings sn)"
  from assms obtain b where b: "?bs = [b]" "b_asset_id b \<in> set as" "target = Some (b_asset_id b)" "req = [b_asset_id b]"
    unfolding select_target_def Let_def by (simp split: list.split_asm if_split_asm)
  from b(1) have "b \<in> set ?bs" by simp
  then have "b \<in> set (asset_bindings sn)" "b_adapter b = adapter (a_target a)" "b_entity_id b = entity (a_target a)"
    by simp_all
  with b(2-4) that show thesis by blast
qed

lemma subject_readings_member:
  assumes "s \<in> fst ` set (subject_readings as ms st)" and "s \<notin> set ms"
  shows "\<exists>d. map_of st (s, d) \<noteq> None"
proof -
  from assms(1) obtain ob where "(s, ob) \<in> set (subject_readings as ms st)" by auto
  then obtain d where "(s, ob) \<in> set (case map_of st (s, d) of None \<Rightarrow> [] | Some ob \<Rightarrow> [(s, ob)])"
    unfolding subject_readings_def by (auto split: option.split_asm) 
  then show ?thesis by (cases "map_of st (s, d)") auto
qed

lemma missing_reading_unknown:
  assumes "extract_facts frames tz sn p a evs used bound ra = Inr f" and "device_class (action_class a)"
    and "\<And>b. b \<in> set (asset_bindings sn) \<Longrightarrow> b_adapter b = adapter (a_target a) \<Longrightarrow> b_entity_id b = entity (a_target a) \<Longrightarrow>
      b_asset_id b \<noteq> s_household_id sn \<and> b_asset_id b \<notin> set (map fst (members_of sn)) \<and>
      (\<forall>ob \<in> set (observations sn). \<forall>d. stream_key ob \<noteq> Some (b_asset_id b, d))"
  shows "observation_ages_seconds (f_risk f) = None"
proof -
  from assms(1) obtain g ages where g: "gather frames sn p a evs bound ra = Inr g" "f_risk f = risk_facts_of sn a g ages"
    by (rule extract_Inr)
  from g(1) obtain req0 where
    sel: "select_target sn a ra (map fst (members_of sn)) (map fst (assets_of sn)) = Inr (g_target g, req0)"
    and st: "collect_streams sn (set (map fst (members_of sn))) (map (\<lambda>(k, r). (k, as_kind r)) (assets_of sn)) = Inr (g_streams g)"
    and req: "set req0 \<subseteq> set (g_required g)"
    and obs: "fst ` set (g_obs g) \<subseteq> insert (s_household_id sn)
       (fst ` set (subject_readings (assets_of sn) (map fst (members_of sn)) (g_streams g)))"
    by (rule gather_Inr)
  from sel assms(2) obtain b where t: "req0 = [b_asset_id b]" and b: "b \<in> set (asset_bindings sn)"
    "b_adapter b = adapter (a_target a)" "b_entity_id b = entity (a_target a)"
    by (rule device_target)
  let ?t = "b_asset_id b"
  have no: "?t \<noteq> s_household_id sn" "?t \<notin> set (map fst (members_of sn))"
    "\<forall>ob \<in> set (observations sn). \<forall>d. stream_key ob \<noteq> Some (?t, d)"
    using assms(3) [OF b] by auto
  have "?t \<notin> fst ` set (g_obs g)"
  proof
    assume "?t \<in> fst ` set (g_obs g)"
    with obs no(1) have "?t \<in> fst ` set (subject_readings (assets_of sn) (map fst (members_of sn)) (g_streams g))" by blast
    from subject_readings_member [OF this no(2)] obtain d ob where "map_of (g_streams g) (?t, d) = Some ob" by blast
    with collect_streams_ok [OF st] no(3) show False unfolding streams_ok_def by blast
  qed
  moreover have "?t \<in> set (g_required g)" using req t by simp
  ultimately show ?thesis unfolding g(2) risk_facts_of_def Let_def by auto
qed

lemma tariff_extra: "tariff_facts np hid st = Some (ob, e) \<Longrightarrow> map_of e ''unexpected_visitor'' = None"
  by (auto simp: tariff_facts_def split: if_split_asm option.split_asm)

lemma gather_extra:
  assumes "gather frames sn p a evs bound ra = Inr g"
  shows "map_of (g_extra g) ''unexpected_visitor'' =
           (case g_press g of None \<Rightarrow> None | Some b \<Rightarrow> Some (PBool (\<not> press_expected b)))"
  using assms unfolding gather_def
  by (clarsimp simp: rbind_Inr_iff Let_def press_context_def dest!: tariff_extra split: option.split)

text \<open>The press an extraction binds is what the visitor attribute of its facts says.\<close>

lemma visitor_attribute:
  assumes "extract_facts frames tz sn p a evs used bound ra = Inr f"
  shows "\<exists>vs. policy_values a (f_policy f) = Inr vs \<and>
    (\<forall>b. f_press f = Some b \<longrightarrow> attribute vs visitor_path = Inr (Some (VBool (\<not> press_expected b))))"
proof -
  from assms obtain g ages where g: "gather frames sn p a evs bound ra = Inr g"
    and v: "pf_values (f_policy f) = fact_values p sn a evs used (s_as_of sn + tz (timezone sn) (s_as_of sn)) g"
    and b: "f_press f = g_press g"
    by (rule extract_Inr)
  let ?vals = "pf_values (f_policy f)"
  have keys: "map_of ?vals ''requester'' = None"
    "map_of ?vals ''context'' = Some (PDict (context_dict p (action_class a) (s_as_of sn + tz (timezone sn) (s_as_of sn)) g))"
    unfolding v fact_values_def by (simp_all add: Let_def split: option.split)
  have sp: "split_on (CHR ''.'') visitor_path = [''context'', ''unexpected_visitor'']" by code_simp
  obtain vs where vs: "policy_values a (f_policy f) = Inr vs" and ctx: "map_of vs ''context'' = map_of ?vals ''context''"
    using keys(1) by (simp add: policy_values_def Let_def py_dict_def dict_get_def)
  have "attribute vs visitor_path = Inr (Some (VBool (\<not> press_expected x)))" if "f_press f = Some x" for x
    using that b gather_extra [OF g]
    by (simp add: attribute_def lookup_def sp of_opt_def ctx keys(2) context_dict_def visitor_kind)
  with vs show ?thesis by blast
qed

section \<open>Properties\<close>

text \<open>
  C31: quiet hours are intervals. The string comparisons of \<open>quiet_hours\<close>, with their special case
  for periods that cross midnight, say exactly that the local instant lies in the window of a
  listed period that affects the class and starts on one of its days.
\<close>

theorem quiet_hours_intervals:
  assumes "list_all valid_quiet (Schema.quiet_hours p)"
  shows "quiet_now p name local \<longleftrightarrow>
    (\<exists>q \<in> set (Schema.quiet_hours p). (name \<in> set (affects q) \<or> class_key name \<in> set (affects q)) \<and>
       (\<exists>k. DAYS ! nat ((k + 3) mod 7) \<in> set (days q) \<and> quiet_window q k local))"
proof -
  have "quiet_period_active q name local \<longleftrightarrow> (name \<in> set (affects q) \<or> class_key name \<in> set (affects q)) \<and>
      (\<exists>k. DAYS ! nat ((k + 3) mod 7) \<in> set (days q) \<and> quiet_window q k local)"
    if "q \<in> set (Schema.quiet_hours p)" for q
    using assms that by (intro quiet_period_interval) (simp add: list_all_iff)
  then show ?thesis by (auto simp: quiet_now_def list_ex_iff)
qed

definition night_policy :: constitution where
  "night_policy = \<lparr>version = 1, c_household = ''h'',
     c_defaults = \<lparr>d_approval_ttl_minutes = 30, d_ask_channels = [Ch_app_push]\<rparr>, roles = [], autonomy = [], per_role = [],
     quiet_hours = [\<lparr>days = [''sun''], from_time = ''22:30'', to_time = ''06:30'', affects = [''lights'']\<rparr>],
     c_verification = \<lparr>require_requester_confirmation = [], trusted_contact_methods_order = []\<rparr>,
     accept_memory_never = False\<rparr>"

text \<open>Monday 6:00 belongs to the period that started on Sunday; day 3 after the epoch was a Sunday.\<close>

theorem quiet_hours_intervals_witness:
  "quiet_now night_policy ''environment.lights'' (4 * us_per_day + 360 * us_per_minute) \<and>
   (\<exists>q \<in> set (Schema.quiet_hours night_policy).
      (''environment.lights'' \<in> set (affects q) \<or> class_key ''environment.lights'' \<in> set (affects q)) \<and>
      (\<exists>k. DAYS ! nat ((k + 3) mod 7) \<in> set (days q) \<and> quiet_window q k (4 * us_per_day + 360 * us_per_minute)))"
proof -
  have v: "list_all valid_quiet (Schema.quiet_hours night_policy)" by code_simp
  have q: "quiet_now night_policy ''environment.lights'' (4 * us_per_day + 360 * us_per_minute)" by code_simp
  with quiet_hours_intervals [OF v, of "''environment.lights''" "4 * us_per_day + 360 * us_per_minute"]
  show ?thesis by blast
qed

text \<open>Of each stream the newest reading is kept. Every reading the extraction uses belongs to the
  household, was taken no later than the snapshot, is filed under its own subject and domain, and no
  other reading of the same stream is newer; a stream with readings never stays empty.
\<close>

theorem newest_reading_kept:
  assumes "collect_streams sn ms ks = Inr st"
  shows "(\<forall>key ob. map_of st key = Some ob \<longrightarrow>
      ob \<in> set (observations sn) \<and> stream_key ob = Some key \<and> o_household_id ob = s_household_id sn \<and>
      (\<exists>t \<le> s_as_of sn. obs_time ob = Some t \<and>
         (\<forall>x \<in> set (observations sn). stream_key x = Some key \<longrightarrow> (\<exists>u \<le> t. obs_time x = Some u)))) \<and>
    (\<forall>x \<in> set (observations sn). \<forall>key. stream_key x = Some key \<longrightarrow> map_of st key \<noteq> None)"
  using collect_streams_ok [OF assms] unfolding streams_ok_def .

definition lamp_reading :: "string \<Rightarrow> bool \<Rightarrow> observation" where
  "lamp_reading time on = \<lparr>o_household_id = ''h'', o_domain = Some ''devices'', o_member_id = None,
     o_asset_id = Some ''lamp'', observed_at = time, o_source = ''twin'', o_state = [(''on'', PBool on)]\<rparr>"

definition lamp_home :: "observation list \<Rightarrow> snapshot" where
  "lamp_home obs = \<lparr>s_household_id = ''h'', s_scope = ''all'', s_as_of = 1791930900000000, s_stale = False,
     timezone = ''UTC'', autonomy_paused = False, s_members = [],
     s_assets = [\<lparr>as_id = ''lamp'', as_kind = ''light'', room_kind = Some ''other''\<rparr>],
     asset_bindings = [\<lparr>b_adapter = ''twin'', b_entity_id = ''light.living_room'', b_asset_id = ''lamp''\<rparr>],
     observations = obs, schedule_events = [], preferences = [], asset_policies = [], trusted_contacts = []\<rparr>"

definition two_readings :: "observation list" where
  "two_readings = [lamp_reading ''2026-10-13T17:34:00-05:00'' True, lamp_reading ''2026-10-13T17:33:00-05:00'' False]"

theorem newest_reading_kept_witness:
  "collect_streams (lamp_home two_readings) {} [(''lamp'', ''light'')] =
     Inr [((''lamp'', ''devices''), lamp_reading ''2026-10-13T17:34:00-05:00'' True)] \<and>
   (\<exists>t \<le> s_as_of (lamp_home two_readings). obs_time (lamp_reading ''2026-10-13T17:34:00-05:00'' True) = Some t)"
proof -
  have c: "collect_streams (lamp_home two_readings) {} [(''lamp'', ''light'')] =
     Inr [((''lamp'', ''devices''), lamp_reading ''2026-10-13T17:34:00-05:00'' True)]" by code_simp
  from newest_reading_kept [OF c]
  have "\<exists>t \<le> s_as_of (lamp_home two_readings). obs_time (lamp_reading ''2026-10-13T17:34:00-05:00'' True) = Some t"
    by (elim conjE allE [of _ "(''lamp'', ''devices'')"]) auto
  with c show ?thesis by blast
qed

text \<open>
  A device without a reading is critical. When a device action's asset has no reading at all in
  the snapshot, the facts extracted for it score CRITICAL under every rule, so that the action is
  never carried out on stale knowledge of the device.
\<close>

theorem missing_reading_critical:
  assumes "extract_facts frames tz sn p a evs used bound ra = Inr f" and "device_class (action_class a)"
    and "\<And>b. b \<in> set (asset_bindings sn) \<Longrightarrow> b_adapter b = adapter (a_target a) \<Longrightarrow> b_entity_id b = entity (a_target a) \<Longrightarrow>
      b_asset_id b \<noteq> s_household_id sn \<and> b_asset_id b \<notin> set (map fst (members_of sn)) \<and>
      (\<forall>ob \<in> set (observations sn). \<forall>d. stream_key ob \<noteq> Some (b_asset_id b, d))"
  shows "ra_band (score a (f_risk f) rl) = CRITICAL"
proof (rule ccontr)
  assume "ra_band (score a (f_risk f) rl) \<noteq> CRITICAL"
  then have "observation_ages_seconds (f_risk f) \<noteq> None" using score_known_facts by blast
  with missing_reading_unknown [OF assms] show False by blast
qed

definition lamp_action :: action where
  "lamp_action =
     \<lparr>action_id = ''a3'', action_class = ''environment.lights'',
      a_target = \<lparr>adapter = ''twin'', entity = ''light.living_room'', zone = None, zone_set = False\<rparr>,
      params = [], requested_by = \<lparr>member_id = None, rq_role = Adult, rq_surface = App, speaker = None, claimed_author = None\<rparr>,
      reason = ''asked'', plan_id = None, scheduled_for = None, expected_effect = None,
      content_hash = ''h'', a_revert = None\<rparr>"

definition adult_policy :: constitution where
  "adult_policy = night_policy\<lparr>roles := [(Adult, \<lparr>inherits = None, limited_to = None\<rparr>)]\<rparr>"

definition no_offset :: "string \<Rightarrow> int \<Rightarrow> int" where
  "no_offset z t = 0"

definition succeeds :: "'e + 'a \<Rightarrow> bool" where
  "succeeds r = (case r of Inl _ \<Rightarrow> False | Inr _ \<Rightarrow> True)"

theorem missing_reading_critical_witness:
  "\<exists>f. extract_facts 40 no_offset (lamp_home []) adult_policy lamp_action [] (Dec 0 0) None None = Inr f \<and>
       ra_band (score lamp_action (f_risk f) (plain_rule Auto [])) = CRITICAL"
proof -
  have "succeeds (extract_facts 40 no_offset (lamp_home []) adult_policy lamp_action [] (Dec 0 0) None None)"
    by code_simp
  then obtain f where f: "extract_facts 40 no_offset (lamp_home []) adult_policy lamp_action [] (Dec 0 0) None None = Inr f"
    by (auto simp: succeeds_def split: sum.split_asm)
  have d: "device_class (action_class lamp_action)" by code_simp
  have n: "b_asset_id b \<noteq> s_household_id (lamp_home []) \<and> b_asset_id b \<notin> set (map fst (members_of (lamp_home []))) \<and>
      (\<forall>ob \<in> set (observations (lamp_home [])). \<forall>d. stream_key ob \<noteq> Some (b_asset_id b, d))"
    if "b \<in> set (asset_bindings (lamp_home []))" for b
    using that by (simp add: lamp_home_def dict_of_def)
  from f missing_reading_critical [OF f d n, of "plain_rule Auto []"] show ?thesis by blast
qed

end
