(* ===== verification/Wire.thy ===== *)
theory Wire
  imports Prelude
begin

text \<open>
  JSON as it is signed and as it is stored. \<open>canonical\<close>: what the RFC 8785 encoder under
  \<open>hirz/pipeline/hashing.py\<close> accepts, integers up to 2^53 - 1 and finite floats; money is written as a
  string and is always accepted. \<open>jsonb\<close>: what PostgreSQL gives back for a stored value; a float of at
  least 10^16 is written with an exponent, stored as a number and read back as an integer. An instant is
  known by its POSIX seconds, a \<open>Decimal\<close>, which like its ISO text is written as a string.
\<close>

definition stamp :: "int \<Rightarrow> pv" where
  "stamp t = PDec (Dec t (- 6))"

definition wire_int :: "int \<Rightarrow> bool" where
  "wire_int n \<longleftrightarrow> \<bar>n\<bar> < 9007199254740992"

fun canonical :: "pv \<Rightarrow> bool" where
  "canonical (PInt n) = wire_int n"
| "canonical (PFloat x) = (case x of FFin _ \<Rightarrow> True | _ \<Rightarrow> False)"
| "canonical (PList vs) = list_all canonical vs"
| "canonical (PDict d) = list_all (\<lambda>(k, v). canonical v) d"
| "canonical _ = True"

text \<open>The integer that a float is read back as, if it is.\<close>

definition large_float :: "dec \<Rightarrow> int option" where
  "large_float d = (case d of Dec c e \<Rightarrow>
     if 0 \<le> e \<and> 10 ^ 16 \<le> \<bar>c\<bar> * 10 ^ nat e then Some (c * 10 ^ nat e)
     else if e < 0 \<and> 10 ^ 16 * 10 ^ nat (- e) \<le> \<bar>c\<bar> then Some (c div 10 ^ nat (- e)) else None)"

fun jsonb :: "pv \<Rightarrow> pv" where
  "jsonb (PFloat (FFin d)) = (case large_float d of None \<Rightarrow> PFloat (FFin d) | Some n \<Rightarrow> PInt n)"
| "jsonb (PList vs) = PList (map jsonb vs)"
| "jsonb (PDict d) = PDict (map (\<lambda>(k, v). (k, jsonb v)) d)"
| "jsonb v = v"

lemma stamp_inject [simp]: "stamp s = stamp t \<longleftrightarrow> s = t"
  by (simp add: stamp_def)

lemma stamp_simps [simp]: "canonical (stamp t)" "jsonb (stamp t) = stamp t" "stamp t \<noteq> PNone" "PNone \<noteq> stamp t"
  by (simp_all add: stamp_def)

lemma jsonb_idem [simp]: "jsonb (jsonb v) = jsonb v"
proof (induction v rule: jsonb.induct)
  case (1 d)
  then show ?case by (cases "large_float d") simp_all
next
  case (3 d)
  have "map (\<lambda>(k, v). (k, jsonb v)) (map (\<lambda>(k, v). (k, jsonb v)) d) = map (\<lambda>(k, v). (k, jsonb v)) d"
    unfolding map_map by (rule map_cong [OF refl]) (use 3 in auto)
  then show ?case by simp
qed simp_all

text \<open>A value that is read back changed is refused by the encoder.\<close>

lemma large_float_int: "large_float d = Some n \<Longrightarrow> \<not> wire_int n"
proof (cases d)
  case (Dec c e)
  assume l: "large_float d = Some n"
  have "10 ^ 16 \<le> \<bar>n\<bar>"
  proof (cases "0 \<le> e")
    case True
    with l Dec show ?thesis by (auto simp: large_float_def abs_mult split: if_split_asm)
  next
    case False
    let ?b = "(10::int) ^ nat (- e)"
    from False l Dec have b: "10 ^ 16 * ?b \<le> \<bar>c\<bar>" and n: "n = c div ?b" by (auto simp: large_float_def split: if_split_asm)
    have p: "0 < ?b" by simp
    show ?thesis
    proof (cases "0 \<le> c")
      case True
      with b have "10 ^ 16 \<le> c div ?b" using zdiv_mono1 [of "10 ^ 16 * ?b" c ?b] p by simp
      with n show ?thesis by simp
    next
      case False
      with b have "c \<le> (- (10 ^ 16)) * ?b" by simp
      then have "c div ?b \<le> - (10 ^ 16)" using zdiv_mono1 [of c "(- (10 ^ 16)) * ?b" ?b] p
        by (metis nonzero_mult_div_cancel_right less_irrefl)
      with n show ?thesis by simp
    qed
  qed
  then show ?thesis by (simp add: wire_int_def)
qed

lemma jsonb_canonical: "jsonb v \<noteq> v \<Longrightarrow> \<not> canonical (jsonb v)"
proof (induction v rule: jsonb.induct)
  case (1 d)
  then show ?case using large_float_int [of d] by (cases "large_float d") simp_all
next
  case (2 vs)
  have "map jsonb vs = vs" if "\<And>v. v \<in> set vs \<Longrightarrow> jsonb v = v"
    by (rule map_idI) (use that in auto)
  with 2 obtain v where "v \<in> set vs" "jsonb v \<noteq> v" by auto
  with 2 show ?case by (auto simp: list_all_iff)
next
  case (3 d)
  have "map (\<lambda>(k, v). (k, jsonb v)) d = d" if "\<And>k v. (k, v) \<in> set d \<Longrightarrow> jsonb v = v"
    by (rule map_idI) (use that in auto)
  with 3 obtain k v where "(k, v) \<in> set d" "jsonb v \<noteq> v" by auto
  with 3 show ?case by (fastforce simp: list_all_iff)
qed simp_all

text \<open>The digest of \<open>hashing.py\<close>: a hash of the canonical text.\<close>

definition digest :: "(pv \<Rightarrow> string) \<Rightarrow> pv \<Rightarrow> string result" where
  "digest H v = (if canonical v then Inr (H v) else Inl ValueError)"

lemma digest_Inr_iff [result_simps]: "digest H v = Inr h \<longleftrightarrow> canonical v \<and> h = H v"
  by (auto simp: digest_def)

lemma digest_Inl_iff [result_simps]: "digest H v = Inl e \<longleftrightarrow> \<not> canonical v \<and> e = ValueError"
  by (auto simp: digest_def)

end
