(* ===== verification/Contracts.thy ===== *)
theory Contracts
  imports Complex_Main Times Wire
begin

text \<open>
  Content hashes (\<open>hirz/pipeline/hashing.py\<close>) and the local device commands with their bounded
  endings (\<open>hirz/executor/contracts.py\<close>). The digest, SHA-256 over the canonical JSON of a value,
  is the parameter \<open>H\<close>. The product \<open>float(str(minutes)) * 60\<close> is the parameter \<open>secs\<close>: IEEE
  multiplication is not exact on decimals.
\<close>

section \<open>Numbers\<close>

fun dec_rat :: "dec \<Rightarrow> rat" where
  "dec_rat (Dec c e) = (if 0 \<le> e then of_int c * 10 ^ nat e else of_int c / 10 ^ nat (- e))"

fun num_of :: "pv \<Rightarrow> rat option" where
  "num_of (PBool b) = Some (if b then 1 else 0)"
| "num_of (PInt n) = Some (of_int n)"
| "num_of (PFloat (FFin d)) = Some (dec_rat d)"
| "num_of (PDec d) = Some (dec_rat d)"
| "num_of _ = None"

text \<open>Python's \<open>==\<close>: numbers by value whatever their type, other values by structure.\<close>

definition py_eq :: "pv \<Rightarrow> pv \<Rightarrow> bool" where
  "py_eq v w = (case (num_of v, num_of w) of
     (Some x, Some y) \<Rightarrow> x = y | (None, None) \<Rightarrow> v = w | _ \<Rightarrow> False)"

fun is_bool_value :: "pv \<Rightarrow> bool" where
  "is_bool_value (PBool _) = True"
| "is_bool_value _ = False"

text \<open>\<open>number(value, low, high)\<close>: an int or a finite float in range, never a Boolean.\<close>

fun in_range :: "pv \<Rightarrow> rat \<Rightarrow> rat \<Rightarrow> bool" where
  "in_range (PInt n) low high = (low \<le> of_int n \<and> of_int n \<le> high)"
| "in_range (PFloat (FFin d)) low high = (low \<le> dec_rat d \<and> dec_rat d \<le> high)"
| "in_range _ low high = False"

definition has_keys :: "pdict \<Rightarrow> string list \<Rightarrow> bool" where
  "has_keys d ks \<longleftrightarrow> set (map fst d) = set ks"

definition val_at :: "pdict \<Rightarrow> string \<Rightarrow> pv" where
  "val_at d k = dict_get d k PNone"

section \<open>Content hashes\<close>

definition target_dump :: "target \<Rightarrow> pv" where
  "target_dump t = PDict [(''adapter'', PStr (adapter t)), (''entity'', PStr (entity t)),
     (''zone'', case zone t of None \<Rightarrow> PNone | Some z \<Rightarrow> PStr z)]"

definition revert_dump :: "revert \<Rightarrow> pv" where
  "revert_dump r = PDict [(''after_s'', after_s r),
     (''inverse'', PDict [(''class'', PStr (inv_class (inverse r))), (''target'', target_dump (inv_target (inverse r))),
        (''params'', PDict (inv_params (inverse r)))])]"

text \<open>What the hash covers; an instant stands for its canonical timestamp.\<close>

definition hash_payload :: "action \<Rightarrow> pv" where
  "hash_payload a = PDict (
     [(''class'', PStr (action_class a)), (''target'', target_dump (a_target a)), (''params'', PDict (params a)),
      (''scheduled_for'', case scheduled_for a of None \<Rightarrow> PNone | Some t \<Rightarrow> stamp t)] @
     (case a_revert a of None \<Rightarrow> [] | Some r \<Rightarrow> [(''revert'', revert_dump r)]))"

definition action_hash :: "(pv \<Rightarrow> string) \<Rightarrow> action \<Rightarrow> string" where
  "action_hash H a = ''sha256:'' @ H (hash_payload a)"

text \<open>\<open>Action.model_validate\<close>: the constraints on fields that the types do not carry.\<close>

definition valid_target :: "target \<Rightarrow> bool" where
  "valid_target t \<longleftrightarrow> adapter t \<noteq> [] \<and> entity t \<noteq> []"

fun valid_after :: "pv \<Rightarrow> bool" where
  "valid_after (PInt n) = (1 / 1000000 \<le> (of_int n :: rat))"
| "valid_after (PFloat (FFin d)) = (1 / 1000000 \<le> dec_rat d)"
| "valid_after _ = False"

definition valid_action :: "action \<Rightarrow> bool" where
  "valid_action a \<longleftrightarrow> action_id a \<noteq> [] \<and> action_class a \<in> fst ` set CLASSES \<and> valid_target (a_target a) \<and>
     (case a_revert a of None \<Rightarrow> True
      | Some r \<Rightarrow> valid_after (after_s r) \<and> valid_target (inv_target (inverse r)))"

definition ingest :: "(pv \<Rightarrow> string) \<Rightarrow> action \<Rightarrow> action result" where
  "ingest H a =
     rbind (guard ValueError (valid_action a)) (\<lambda>_.
     rbind (digest H (hash_payload a)) (\<lambda>_.
     rbind (guard ValueError (content_hash a = action_hash H a)) (\<lambda>_. Inr a)))"

section \<open>Commands\<close>

definition SUPPORTED :: "(string \<times> string \<times> string) list" where
  "SUPPORTED =
     [(''environment.lights'', ''devices'', ''on''), (''energy.hvac_adjust'', ''devices'', ''target_f''),
      (''energy.ev_charge'', ''ev'', ''charging''), (''energy.battery_dispatch'', ''energy'', ''dispatch_kw''),
      (''energy.appliance_start'', ''devices'', ''on''), (''security.door_unlock'', ''devices'', ''locked'')]"

definition command_attr :: "string \<Rightarrow> string" where
  "command_attr name = (case map_of SUPPORTED name of None \<Rightarrow> [] | Some (_, attr) \<Rightarrow> attr)"

definition lights_ok :: "pdict \<Rightarrow> bool" where
  "lights_ok ps \<longleftrightarrow> has_keys ps [''on''] \<and> is_bool_value (val_at ps ''on'')"

definition hvac_ok :: "pdict \<Rightarrow> string \<Rightarrow> bool" where
  "hvac_ok ps adp \<longleftrightarrow>
     (has_keys ps [''target_f''] \<or> has_keys ps [''target_f'', ''mode'']) \<and> in_range (val_at ps ''target_f'') 66 76 \<and>
     (''mode'' \<notin> fst ` set ps \<or>
      adp = ''twin'' \<and> val_at ps ''mode'' \<in> {PStr ''heat'', PStr ''cool'', PStr ''off''})"

definition ev_ok :: "pdict \<Rightarrow> bool" where
  "ev_ok ps \<longleftrightarrow>
     (has_keys ps [''charging''] \<or> has_keys ps [''charging'', ''charge_limit'']) \<and>
     is_bool_value (val_at ps ''charging'') \<and>
     (val_at ps ''charging'' \<noteq> PBool True \<or> ''charge_limit'' \<in> fst ` set ps) \<and>
     (''charge_limit'' \<notin> fst ` set ps \<or> in_range (val_at ps ''charge_limit'') 0 (8 / 10))"

definition battery_ok :: "pdict \<Rightarrow> bool" where
  "battery_ok ps \<longleftrightarrow> has_keys ps [''dispatch_kw''] \<and> in_range (val_at ps ''dispatch_kw'') (-5) 5"

definition unlock_ok :: "pdict \<Rightarrow> bool" where
  "unlock_ok ps \<longleftrightarrow> has_keys ps [''locked'', ''open_minutes''] \<and>
     (val_at ps ''locked'' = PBool False \<and> in_range (val_at ps ''open_minutes'') (1 / 100) 10 \<or>
      val_at ps ''locked'' = PBool True \<and> py_eq (val_at ps ''open_minutes'') (PInt 0))"

definition parameters :: "string \<Rightarrow> pdict \<Rightarrow> string \<Rightarrow> unit result" where
  "parameters name ps adp = guard ValueError (
     if name = ''environment.lights'' then lights_ok ps
     else if name = ''energy.hvac_adjust'' then hvac_ok ps adp
     else if adp = ''twin'' \<and> name = ''energy.ev_charge'' then ev_ok ps
     else if adp = ''twin'' \<and> name = ''energy.battery_dispatch'' then battery_ok ps
     else if adp = ''twin'' \<and> name = ''energy.appliance_start'' then ps = []
     else adp = ''twin'' \<and> name = ''security.door_unlock'' \<and> unlock_ok ps)"

text \<open>A consistent deadline on the command's own state.\<close>

definition effect_ok :: "action \<Rightarrow> bool" where
  "effect_ok a =
     (let attr = command_attr (action_class a); want = dict_get (params a) attr (PBool True) in
      case expected_effect a of
        None \<Rightarrow> False
      | Some ef \<Rightarrow> ef_entity ef = entity (a_target a) \<and> ef_attr ef = attr \<and> py_eq (ef_value ef) want \<and>
          (case scheduled_for a of None \<Rightarrow> True | Some t \<Rightarrow> \<not> ef_by ef \<le> t) \<and>
          (is_bool_value want \<longrightarrow> is_bool_value (ef_value ef)))"

definition bounded :: "action \<Rightarrow> bool" where
  "bounded a \<longleftrightarrow>
     dict_get (params a) ''charging'' PNone = PBool True \<or>
     \<not> py_eq (dict_get (params a) ''dispatch_kw'' (PInt 0)) (PInt 0) \<or>
     action_class a = ''security.door_unlock'' \<and> dict_get (params a) ''locked'' PNone = PBool False"

text \<open>The ending a class may have.\<close>

definition ending_allowed :: "(pv \<Rightarrow> pv) \<Rightarrow> action \<Rightarrow> revert \<Rightarrow> bool" where
  "ending_allowed secs a r =
     (let ps = inv_params (inverse r) in
      if action_class a = ''energy.ev_charge'' then has_keys ps [''charging''] \<and> py_eq (val_at ps ''charging'') (PBool False)
      else if action_class a = ''energy.battery_dispatch'' then
        has_keys ps [''dispatch_kw''] \<and> py_eq (val_at ps ''dispatch_kw'') (PInt 0)
      else if action_class a = ''security.door_unlock'' then
        has_keys ps [''locked'', ''open_minutes''] \<and> py_eq (val_at ps ''locked'') (PBool True) \<and>
        py_eq (val_at ps ''open_minutes'') (PInt 0) \<and> val_at (params a) ''locked'' = PBool False \<and>
        py_eq (after_s r) (secs (val_at (params a) ''open_minutes''))
      else action_class a \<in> {''environment.lights'', ''energy.hvac_adjust''})"

definition validate_revert :: "(pv \<Rightarrow> pv) \<Rightarrow> action \<Rightarrow> unit result" where
  "validate_revert secs a =
     (case a_revert a of
        None \<Rightarrow> Inr ()
      | Some r \<Rightarrow>
          rbind (guard ValueError (scheduled_for a \<noteq> None)) (\<lambda>_.
          rbind (parameters (inv_class (inverse r)) (inv_params (inverse r)) (adapter (inv_target (inverse r)))) (\<lambda>_.
          rbind (guard ValueError (adapter (inv_target (inverse r)) = adapter (a_target a) \<and>
                   entity (inv_target (inverse r)) = entity (a_target a) \<and> zone (inv_target (inverse r)) = zone (a_target a) \<and>
                   inv_class (inverse r) = action_class a)) (\<lambda>_.
            guard ValueError (ending_allowed secs a r)))))"

definition validate :: "(pv \<Rightarrow> string) \<Rightarrow> (pv \<Rightarrow> pv) \<Rightarrow> action \<Rightarrow> action result" where
  "validate H secs a =
     rbind (guard ValueError (valid_action a)) (\<lambda>_.
     rbind (guard ValueError (adapter (a_target a) \<in> {''ha'', ''twin''} \<and> action_class a \<in> fst ` set SUPPORTED)) (\<lambda>_.
     rbind (parameters (action_class a) (params a) (adapter (a_target a))) (\<lambda>_.
     rbind (guard ValueError (effect_ok a)) (\<lambda>_.
     rbind (guard ValueError (\<not> (bounded a \<and> a_revert a = None))) (\<lambda>_.
     rbind (validate_revert secs a) (\<lambda>_. ingest H a))))))"

section \<open>Endings\<close>

text \<open>\<open>timedelta(seconds=s)\<close>, to the nearest microsecond, a tie to the even one.\<close>

definition round_even :: "rat \<Rightarrow> int" where
  "round_even x =
     (let f = \<lfloor>x\<rfloor>; d = x - of_int f in
      if d < 1 / 2 then f else if d > 1 / 2 then f + 1 else if even f then f else f + 1)"

definition seconds_us :: "pv \<Rightarrow> int" where
  "seconds_us s = (case num_of s of None \<Rightarrow> 0 | Some x \<Rightarrow> round_even (x * 1000000))"

definition is_expired :: "action \<Rightarrow> int \<Rightarrow> bool" where
  "is_expired a now =
     (case expected_effect a of
        None \<Rightarrow> True
      | Some ef \<Rightarrow> now \<ge> ef_by ef \<or>
          action_class a \<noteq> ''security.door_unlock'' \<and>
          (case (a_revert a, scheduled_for a) of
             (Some r, Some t) \<Rightarrow> now \<ge> t + seconds_us (after_s r)
           | _ \<Rightarrow> False))"

text \<open>The limits of \<open>timedelta\<close> and of \<open>datetime\<close>, 9999-12-31T23:59:59.999999Z; beyond them the sum raises.\<close>

definition last_instant :: int where "last_instant = 253402300799999999"
definition longest_span :: int where "longest_span = 86399999999999999999"

definition opening_time :: "action \<Rightarrow> int option \<Rightarrow> int \<Rightarrow> int" where
  "opening_time a start t =
     (case start of
        Some s \<Rightarrow> if action_class a = ''security.door_unlock'' then s else t
      | None \<Rightarrow> t)"

definition ending_time :: "action \<Rightarrow> int option \<Rightarrow> int \<Rightarrow> revert \<Rightarrow> int" where
  "ending_time a start t r = opening_time a start t + seconds_us (after_s r)"

definition in_time :: "action \<Rightarrow> int option \<Rightarrow> int \<Rightarrow> revert \<Rightarrow> bool" where
  "in_time a start t r \<longleftrightarrow> seconds_us (after_s r) \<le> longest_span \<and> ending_time a start t r + 10 * us_per_second \<le> last_instant"

definition ending :: "(pv \<Rightarrow> string) \<Rightarrow> (pv \<Rightarrow> pv) \<Rightarrow> action \<Rightarrow> int option \<Rightarrow> action result" where
  "ending H secs a start =
     (case (a_revert a, scheduled_for a) of
        (Some r, Some t) \<Rightarrow>
          rbind (guard OverflowError (in_time a start t r)) (\<lambda>_.
          rbind (of_opt KeyError (map_of SUPPORTED (action_class a))) (\<lambda>(_, attr).
          rbind (of_opt KeyError (map_of (inv_params (inverse r)) attr)) (\<lambda>v.
            let fin = ending_time a start t r;
                b = a\<lparr>action_id := action_id a @ '':ending'', action_class := inv_class (inverse r),
                      params := inv_params (inverse r), a_revert := None, scheduled_for := Some fin,
                      expected_effect := Some \<lparr>ef_entity = entity (a_target a), ef_attr = attr, ef_value = v,
                                              ef_by = fin + 10 * us_per_second\<rparr>,
                      reason := ''Exact preauthorized bounded ending''\<rparr>
            in rbind (digest H (hash_payload b)) (\<lambda>_. validate H secs (b\<lparr>content_hash := action_hash H b\<rparr>)))))
      | _ \<Rightarrow> Inl TypeError)"

text \<open>The command that restores the state seen before the action.\<close>

definition inverse_of :: "action \<Rightarrow> pdict \<Rightarrow> inverse_action option result" where
  "inverse_of a st =
     (if action_class a = ''security.door_unlock'' then
        (if map_of st ''locked'' \<noteq> Some (PBool True) then Inl ValueError
         else Inr (Some \<lparr>inv_class = action_class a, inv_target = a_target a,
                        inv_params = [(''locked'', PBool True), (''open_minutes'', PInt 0)]\<rparr>))
      else if action_class a = ''energy.appliance_start'' then Inr None
      else if list_all (\<lambda>k. dict_get st k PNone \<noteq> PNone) (map fst (params a))
      then Inr (Some \<lparr>inv_class = action_class a, inv_target = a_target a,
                     inv_params = map (\<lambda>k. (k, val_at st k)) (map fst (params a))\<rparr>)
      else Inl ValueError)"

section \<open>Lemmas\<close>

lemma ingest_Inr:
  "ingest H a = Inr b \<longleftrightarrow> b = a \<and> valid_action a \<and> canonical (hash_payload a) \<and> content_hash a = action_hash H a"
  by (auto simp: ingest_def rbind_Inr_iff digest_Inr_iff)

lemma validate_Inr:
  "validate H secs a = Inr b \<Longrightarrow>
     b = a \<and> valid_action a \<and> canonical (hash_payload a) \<and> content_hash a = action_hash H a \<and> adapter (a_target a) \<in> {''ha'', ''twin''} \<and>
     action_class a \<in> fst ` set SUPPORTED \<and> parameters (action_class a) (params a) (adapter (a_target a)) = Inr () \<and>
     effect_ok a \<and> (bounded a \<longrightarrow> a_revert a \<noteq> None) \<and> validate_revert secs a = Inr ()"
  by (auto simp: validate_def rbind_Inr_iff ingest_Inr)

lemma hash_payload_simps [simp]:
  "hash_payload (a\<lparr>content_hash := h\<rparr>) = hash_payload a"
  by (simp add: hash_payload_def)

lemma py_eq_refl [simp]: "py_eq v v"
  by (simp add: py_eq_def split: option.split)

lemma hash_payload_inject:
  assumes "hash_payload a = hash_payload b"
  shows "action_class a = action_class b" "params a = params b" "scheduled_for a = scheduled_for b"
    "adapter (a_target a) = adapter (a_target b)" "entity (a_target a) = entity (a_target b)"
    "zone (a_target a) = zone (a_target b)" "map_option revert_dump (a_revert a) = map_option revert_dump (a_revert b)"
  using assms
  by (auto simp: hash_payload_def target_dump_def split: option.split_asm)

text \<open>What the inverse of a validated action looks like, class by class.\<close>

lemma has_keys_map_of: "has_keys d ks \<Longrightarrow> k \<in> set ks \<Longrightarrow> \<exists>v. map_of d k = Some v"
proof -
  assume "has_keys d ks" "k \<in> set ks"
  then have "k \<in> fst ` set d" by (simp add: has_keys_def)
  then show "\<exists>v. map_of d k = Some v" by (metis map_of_eq_None_iff not_None_eq)
qed

lemma has_keys_absent: "has_keys d ks \<Longrightarrow> k \<notin> set ks \<Longrightarrow> map_of d k = None"
  by (auto simp: has_keys_def map_of_eq_None_iff)

lemma supported_classes:
  assumes "cls \<in> fst ` set SUPPORTED"
  obtains "cls = ''environment.lights''" | "cls = ''energy.hvac_adjust''" | "cls = ''energy.ev_charge''"
  | "cls = ''energy.battery_dispatch''" | "cls = ''energy.appliance_start''" | "cls = ''security.door_unlock''"
proof -
  from assms have "cls = ''environment.lights'' \<or> cls = ''energy.hvac_adjust'' \<or> cls = ''energy.ev_charge''
      \<or> cls = ''energy.battery_dispatch'' \<or> cls = ''energy.appliance_start'' \<or> cls = ''security.door_unlock''"
    unfolding SUPPORTED_def by (simp only: list.set image_insert image_empty fst_conv insert_iff empty_iff simp_thms)
  then show thesis by (elim disjE) (erule that)+
qed

text \<open>The parameters of a safe ending: the command's attribute is given and nothing stays running.\<close>

definition rests :: "string \<Rightarrow> pdict \<Rightarrow> bool" where
  "rests cls ps \<longleftrightarrow>
     (\<exists>v. map_of ps (command_attr cls) = Some v) \<and> dict_get ps ''charging'' PNone \<noteq> PBool True \<and>
     py_eq (dict_get ps ''dispatch_kw'' (PInt 0)) (PInt 0) \<and>
     (cls = ''security.door_unlock'' \<longrightarrow> dict_get ps ''locked'' PNone = PBool True)"

lemma command_attrs:
  "command_attr ''environment.lights'' = ''on''" "command_attr ''energy.hvac_adjust'' = ''target_f''"
  "command_attr ''energy.ev_charge'' = ''charging''" "command_attr ''energy.battery_dispatch'' = ''dispatch_kw''"
  "command_attr ''energy.appliance_start'' = ''on''" "command_attr ''security.door_unlock'' = ''locked''"
  by code_simp+

lemma bool_value_cases: "is_bool_value v \<Longrightarrow> py_eq v (PBool b) \<Longrightarrow> v = PBool b"
  by (cases v rule: is_bool_value.cases) (auto simp: py_eq_def split: if_split_asm)

lemma ending_rests:
  assumes "action_class a \<in> fst ` set SUPPORTED" and "ending_allowed secs a r"
    and "parameters (action_class a) (inv_params (inverse r)) adp = Inr ()"
  shows "rests (action_class a) (inv_params (inverse r))"
  using assms(1)
proof (cases rule: supported_classes)
  case 1
  with assms(3) have k: "has_keys (inv_params (inverse r)) [''on'']" by (simp add: parameters_def lights_ok_def)
  with 1 show ?thesis
    using has_keys_map_of [OF k, of "''on''"] has_keys_absent [OF k, of "''charging''"]
      has_keys_absent [OF k, of "''dispatch_kw''"]
    by (simp add: rests_def command_attrs dict_get_def)
next
  case 2
  with assms(3) have k: "has_keys (inv_params (inverse r)) [''target_f''] \<or> has_keys (inv_params (inverse r)) [''target_f'', ''mode'']"
    by (simp add: parameters_def hvac_ok_def)
  then show ?thesis
  proof
    assume k: "has_keys (inv_params (inverse r)) [''target_f'']"
    with 2 show ?thesis
      using has_keys_map_of [OF k, of "''target_f''"] has_keys_absent [OF k, of "''charging''"]
        has_keys_absent [OF k, of "''dispatch_kw''"]
      by (simp add: rests_def command_attrs dict_get_def)
  next
    assume k: "has_keys (inv_params (inverse r)) [''target_f'', ''mode'']"
    with 2 show ?thesis
      using has_keys_map_of [OF k, of "''target_f''"] has_keys_absent [OF k, of "''charging''"]
        has_keys_absent [OF k, of "''dispatch_kw''"]
      by (simp add: rests_def command_attrs dict_get_def)
  qed
next
  case 3
  with assms(2) have k: "has_keys (inv_params (inverse r)) [''charging'']"
    and f: "py_eq (val_at (inv_params (inverse r)) ''charging'') (PBool False)"
    by (simp_all add: ending_allowed_def Let_def)
  have "ev_ok (inv_params (inverse r))"
    using assms(3) unfolding 3 parameters_def by (cases "adp = ''twin''") simp_all
  then have "is_bool_value (val_at (inv_params (inverse r)) ''charging'')"
    unfolding ev_ok_def by (elim conjE)
  from bool_value_cases [OF this f] 3 show ?thesis
    using has_keys_map_of [OF k, of "''charging''"] has_keys_absent [OF k, of "''dispatch_kw''"]
    by (simp add: rests_def command_attrs dict_get_def val_at_def)
next
  case 4
  with assms(2) have k: "has_keys (inv_params (inverse r)) [''dispatch_kw'']"
    and f: "py_eq (val_at (inv_params (inverse r)) ''dispatch_kw'') (PInt 0)"
    by (simp_all add: ending_allowed_def Let_def)
  with 4 show ?thesis
    using has_keys_map_of [OF k, of "''dispatch_kw''"] has_keys_absent [OF k, of "''charging''"]
    by (auto simp: rests_def command_attrs dict_get_def val_at_def)
next
  case 5
  with assms(2) show ?thesis by (simp add: ending_allowed_def Let_def)
next
  case 6
  with assms(2) have k: "has_keys (inv_params (inverse r)) [''locked'', ''open_minutes'']"
    and f: "py_eq (val_at (inv_params (inverse r)) ''locked'') (PBool True)"
    by (simp_all add: ending_allowed_def Let_def)
  have "unlock_ok (inv_params (inverse r))"
    using assms(3) unfolding 6 parameters_def by simp
  then have "is_bool_value (val_at (inv_params (inverse r)) ''locked'')"
    unfolding unlock_ok_def by (elim conjE disjE) simp_all
  from bool_value_cases [OF this f] 6 show ?thesis
    using has_keys_map_of [OF k, of "''locked''"] has_keys_absent [OF k, of "''charging''"]
      has_keys_absent [OF k, of "''dispatch_kw''"]
    by (simp add: rests_def command_attrs dict_get_def val_at_def)
qed

lemma supported_attr: "cls \<in> fst ` set SUPPORTED \<Longrightarrow> \<exists>dm. map_of SUPPORTED cls = Some (dm, command_attr cls)"
proof -
  have "list_all (\<lambda>c. case map_of SUPPORTED c of None \<Rightarrow> False | Some (_, x) \<Rightarrow> x = command_attr c) (map fst SUPPORTED)"
    by code_simp
  then show "cls \<in> fst ` set SUPPORTED \<Longrightarrow> \<exists>dm. map_of SUPPORTED cls = Some (dm, command_attr cls)"
    by (fastforce simp: list_all_iff split: option.split_asm)
qed

lemma revert_canonical:
  "canonical (hash_payload a) \<Longrightarrow> a_revert a = Some r \<Longrightarrow> canonical (PDict (inv_params (inverse r)))"
  by (simp add: hash_payload_def revert_dump_def)

lemma target_canonical: "canonical (target_dump t)"
  by (simp add: target_dump_def split: option.split)

text \<open>The command that \<open>ending\<close> builds, and that it passes every check once it has its hash.\<close>

definition ending_command :: "action \<Rightarrow> int \<Rightarrow> revert \<Rightarrow> pv \<Rightarrow> action" where
  "ending_command a fin r v =
     a\<lparr>action_id := action_id a @ '':ending'', action_class := inv_class (inverse r),
       params := inv_params (inverse r), a_revert := None, scheduled_for := Some fin,
       expected_effect := Some \<lparr>ef_entity = entity (a_target a), ef_attr = command_attr (action_class a), ef_value = v,
                               ef_by = fin + 10 * us_per_second\<rparr>,
       reason := ''Exact preauthorized bounded ending''\<rparr>"

lemma ending_command_fields [simp]:
  "action_class (ending_command a fin r v) = inv_class (inverse r)" "a_target (ending_command a fin r v) = a_target a"
  "params (ending_command a fin r v) = inv_params (inverse r)" "a_revert (ending_command a fin r v) = None"
  "scheduled_for (ending_command a fin r v) = Some fin" "requested_by (ending_command a fin r v) = requested_by a"
  "action_id (ending_command a fin r v) = action_id a @ '':ending''"
  "expected_effect (ending_command a fin r v) = Some \<lparr>ef_entity = entity (a_target a), ef_attr = command_attr (action_class a),
     ef_value = v, ef_by = fin + 10 * us_per_second\<rparr>"
  by (simp_all add: ending_command_def)

lemma ending_command_valid:
  assumes V: "validate H secs a = Inr a'" and r: "a_revert a = Some r"
    and v: "map_of (inv_params (inverse r)) (command_attr (action_class a)) = Some v"
    and re: "rests (action_class a) (inv_params (inverse r))" and b_def: "b = ending_command a fin r v"
  shows "canonical (hash_payload b)"
    and "validate H secs (b\<lparr>content_hash := action_hash H b\<rparr>) = Inr (b\<lparr>content_hash := action_hash H b\<rparr>)"
proof -
  note V = validate_Inr [OF V]
  from V r have p: "parameters (action_class a) (inv_params (inverse r)) (adapter (a_target a)) = Inr ()"
    and c: "inv_class (inverse r) = action_class a"
    by (auto simp: validate_revert_def rbind_Inr_iff)
  have sup: "action_class a \<in> fst ` set SUPPORTED" and va: "valid_action a"
    and ad: "adapter (a_target a) \<in> {''ha'', ''twin''}" using V by blast+
  from V r revert_canonical have k: "canonical (PDict (inv_params (inverse r)))" by blast
  then show k: "canonical (hash_payload b)" by (simp add: b_def hash_payload_def target_canonical)
  let ?e = "b\<lparr>content_hash := action_hash H b\<rparr>"
  have fields: "action_class ?e = action_class a" "a_target ?e = a_target a" "params ?e = inv_params (inverse r)"
    "a_revert ?e = None" "scheduled_for ?e = Some fin" "content_hash ?e = action_hash H ?e"
    "expected_effect ?e = Some \<lparr>ef_entity = entity (a_target a), ef_attr = command_attr (action_class a), ef_value = v,
        ef_by = fin + 10 * us_per_second\<rparr>"
    by (simp_all add: b_def c action_hash_def)
  have "effect_ok ?e" using v by (simp add: effect_ok_def fields Let_def dict_get_def us_per_second_def)
  moreover have "\<not> bounded ?e" using re by (auto simp: bounded_def fields rests_def)
  moreover have "valid_action ?e" using va by (simp add: valid_action_def fields) (simp add: b_def)
  moreover have "validate_revert secs ?e = Inr ()" by (simp add: validate_revert_def fields)
  moreover have "canonical (hash_payload ?e)" using k by simp
  ultimately show "validate H secs ?e = Inr ?e"
    using sup ad p fields(6) unfolding validate_def ingest_def digest_def by (simp add: fields(1-5) guard_def)
qed

lemma ending_validated: "ending H secs a start = Inr e \<Longrightarrow> validate H secs e = Inr e"
  by (auto simp: ending_def Let_def rbind_Inr_iff dest: validate_Inr split: option.split_asm)

lemma ending_exists:
  assumes v: "validate H secs a = Inr a'" and r: "a_revert a = Some r"
  shows "\<exists>t. scheduled_for a = Some t \<and> rests (action_class a) (inv_params (inverse r)) \<and> inv_class (inverse r) = action_class a \<and>
    (in_time a start t r \<longrightarrow>
      (\<exists>v. let b = ending_command a (ending_time a start t r) r v in
         ending H secs a start = Inr (b\<lparr>content_hash := action_hash H b\<rparr>))) \<and>
    (\<not> in_time a start t r \<longrightarrow> ending H secs a start = Inl OverflowError)"
proof -
  note V = validate_Inr [OF v]
  from V r obtain t where t: "scheduled_for a = Some t"
    and p: "parameters (action_class a) (inv_params (inverse r)) (adapter (a_target a)) = Inr ()"
    and c: "inv_class (inverse r) = action_class a" and ea: "ending_allowed secs a r"
    by (auto simp: validate_revert_def rbind_Inr_iff)
  have sup: "action_class a \<in> fst ` set SUPPORTED" using V by blast
  have re: "rests (action_class a) (inv_params (inverse r))" by (rule ending_rests [OF sup ea p])
  then obtain w where w: "map_of (inv_params (inverse r)) (command_attr (action_class a)) = Some w"
    by (auto simp: rests_def)
  obtain dm where dm: "map_of SUPPORTED (action_class a) = Some (dm, command_attr (action_class a))"
    using supported_attr [OF sup] by blast
  let ?b = "ending_command a (ending_time a start t r) r w"
  have e: "ending H secs a start = rbind (guard OverflowError (in_time a start t r)) (\<lambda>_.
      rbind (digest H (hash_payload ?b)) (\<lambda>_. validate H secs (?b\<lparr>content_hash := action_hash H ?b\<rparr>)))"
    by (simp add: ending_def r t dm w Let_def of_opt_def ending_command_def)
  note b = ending_command_valid [OF v r w re refl]
  have "ending H secs a start = Inr (?b\<lparr>content_hash := action_hash H ?b\<rparr>)" if "in_time a start t r"
    using e that b(1) b(2) by (simp add: guard_def digest_def)
  moreover have "ending H secs a start = Inl OverflowError" if "\<not> in_time a start t r"
    using e that by (simp add: guard_def)
  ultimately show ?thesis using t re c by (auto simp: Let_def)
qed

section \<open>Properties\<close>

text \<open>
  C32: every bounded command can be ended. An accepted action with a revert has a scheduled start, and when the
  time of its ending and that of its effect are instants a datetime can hold, its ending exists: itself an accepted
  command of the same class on the same target, which leaves nothing running (no charging, no battery dispatch, the
  door locked), cannot be reverted again and carries a matching content hash. When they are not, as for an
  \<open>after_s\<close> of 1e300, which the validator accepts, \<open>ending\<close> raises \<open>OverflowError\<close>; it has no other failure.
\<close>

theorem ending_total_and_safe:
  assumes "validate H secs a = Inr a'" and "a_revert a = Some r"
  shows "\<exists>t. scheduled_for a = Some t \<and>
    (if in_time a start t r
     then \<exists>e. ending H secs a start = Inr e \<and> validate H secs e = Inr e \<and>
        action_class e = action_class a \<and> a_target e = a_target a \<and> params e = inv_params (inverse r) \<and>
        rests (action_class e) (params e) \<and> a_revert e = None \<and> scheduled_for e = Some (ending_time a start t r) \<and>
        content_hash e = action_hash H e \<and> requested_by e = requested_by a
     else ending H secs a start = Inl OverflowError)"
proof -
  from ending_exists [OF assms, of start] obtain t where t: "scheduled_for a = Some t"
    and x: "rests (action_class a) (inv_params (inverse r))" "inv_class (inverse r) = action_class a"
    and e: "in_time a start t r \<Longrightarrow> \<exists>v. let b = ending_command a (ending_time a start t r) r v in
         ending H secs a start = Inr (b\<lparr>content_hash := action_hash H b\<rparr>)"
    and o: "\<not> in_time a start t r \<Longrightarrow> ending H secs a start = Inl OverflowError" by blast
  show ?thesis
  proof (cases "in_time a start t r")
    case True
    from e [OF this] obtain v where "ending H secs a start =
        Inr (ending_command a (ending_time a start t r) r v\<lparr>content_hash := action_hash H (ending_command a (ending_time a start t r) r v)\<rparr>)"
      by (auto simp: Let_def)
    then show ?thesis using True t x ending_validated by (force simp: action_hash_def)
  next
    case False
    with t o show ?thesis by auto
  qed
qed

definition sample_hash :: "pv \<Rightarrow> string" where
  "sample_hash v = ''d''"

definition sample_secs :: "pv \<Rightarrow> pv" where
  "sample_secs v = (case v of PInt n \<Rightarrow> PInt (60 * n) | _ \<Rightarrow> v)"

definition unlock_action :: action where
  "unlock_action =
     \<lparr>action_id = ''u1'', action_class = ''security.door_unlock'',
      a_target = \<lparr>adapter = ''twin'', entity = ''lock.front_door'', zone = None, zone_set = False\<rparr>,
      params = [(''locked'', PBool False), (''open_minutes'', PInt 5)],
      requested_by = \<lparr>member_id = Some ''m'', rq_role = Adult, rq_surface = App, speaker = None, claimed_author = None\<rparr>,
      reason = ''guest'', plan_id = None, scheduled_for = Some 0,
      expected_effect = Some \<lparr>ef_entity = ''lock.front_door'', ef_attr = ''locked'', ef_value = PBool False, ef_by = 10000000\<rparr>,
      content_hash = ''sha256:d'',
      a_revert = Some \<lparr>after_s = PInt 300, inverse = \<lparr>inv_class = ''security.door_unlock'',
        inv_target = \<lparr>adapter = ''twin'', entity = ''lock.front_door'', zone = None, zone_set = False\<rparr>,
        inv_params = [(''locked'', PBool True), (''open_minutes'', PInt 0)]\<rparr>\<rparr>\<rparr>"

theorem ending_total_and_safe_witness:
  "\<exists>e. ending sample_hash sample_secs unlock_action (Some 7000000) = Inr e \<and>
       rests ''security.door_unlock'' (params e) \<and> scheduled_for e = Some 307000000"
proof -
  have v: "validate sample_hash sample_secs unlock_action = Inr unlock_action" by code_simp
  obtain r where r: "a_revert unlock_action = Some r" by (simp add: unlock_action_def)
  then have "after_s r = PInt 300" by (auto simp: unlock_action_def)
  then have "ending_time unlock_action (Some 7000000) 0 r = 307000000"
    by (simp add: ending_time_def opening_time_def unlock_action_def seconds_us_def round_even_def)
  moreover from \<open>after_s r = PInt 300\<close> have "in_time unlock_action (Some 7000000) 0 r"
    by (simp add: in_time_def ending_time_def opening_time_def unlock_action_def seconds_us_def round_even_def
        longest_span_def last_instant_def us_per_second_def)
  ultimately show ?thesis using ending_total_and_safe [OF v r, of "Some 7000000"]
    by (auto simp: unlock_action_def)
qed

text \<open>
  C33: the content hash binds the command. When the digest does not collide on their payloads, two ingested actions with
  the same content hash have the same class, target, parameters, start and revert.
\<close>

theorem content_hash_binds:
  assumes "inj_on H {hash_payload a, hash_payload b}" and "ingest H a = Inr a'" and "ingest H b = Inr b'" and "content_hash a = content_hash b"
  shows "action_class a = action_class b \<and> params a = params b \<and> scheduled_for a = scheduled_for b \<and>
    adapter (a_target a) = adapter (a_target b) \<and> entity (a_target a) = entity (a_target b) \<and>
    zone (a_target a) = zone (a_target b) \<and> map_option revert_dump (a_revert a) = map_option revert_dump (a_revert b)"
proof -
  from assms(2-4) have "H (hash_payload a) = H (hash_payload b)"
    by (simp add: ingest_Inr action_hash_def)
  with assms(1) have "hash_payload a = hash_payload b" by (auto dest: inj_onD)
  then show ?thesis by (intro conjI hash_payload_inject)
qed

definition sample_digest :: "pv \<Rightarrow> string" where
  "sample_digest v = (case v of PDict kvs \<Rightarrow> concat (map fst kvs) | _ \<Rightarrow> [])"

theorem content_hash_binds_witness:
  "let a = unlock_action\<lparr>content_hash := action_hash sample_digest unlock_action\<rparr>; b = a\<lparr>reason := ''again''\<rparr> in
    inj_on sample_digest {hash_payload a, hash_payload b} \<and>
    ingest sample_digest a = Inr a \<and> ingest sample_digest b = Inr b \<and> params a = params b"
proof -
  define a where "a = unlock_action\<lparr>content_hash := action_hash sample_digest unlock_action\<rparr>"
  define b where "b = a\<lparr>reason := ''again''\<rparr>"
  have v: "valid_action unlock_action" "canonical (hash_payload unlock_action)" by code_simp+
  have k: "canonical (hash_payload a)" "canonical (hash_payload b)"
    using v(2) by (simp_all add: a_def b_def hash_payload_def)
  have a: "ingest sample_digest a = Inr a"
    using v k by (simp add: ingest_Inr a_def valid_action_def action_hash_def)
  have p: "hash_payload b = hash_payload a" by (simp add: b_def hash_payload_def)
  with a k have b: "ingest sample_digest b = Inr b"
    by (simp add: ingest_Inr b_def valid_action_def action_hash_def)
  from p have i: "inj_on sample_digest {hash_payload a, hash_payload b}" by simp
  have "content_hash a = content_hash b" by (simp add: b_def)
  from content_hash_binds [OF i a b this] a b i show ?thesis
    by (simp add: a_def b_def Let_def)
qed

end
