(* ===== verification/Assess.thy ===== *)
theory Assess
  imports Resolution Context Contracts
begin

text \<open>
  The assessment of one request, \<open>hirz/pipeline/service.py\<close> from \<open>result\<close> to \<open>assess_operation\<close>:
  who asks and in which roles, the checks before any fact is read, the facts, the early and the
  full resolution, the risk score, and the gates that turn a permitted request into a question.
  What \<open>assess\<close> calls in components that have no theory here is a field of \<open>desk\<close>: the theorems
  hold for whatever those answer. Decimal amounts are exact.
\<close>

section \<open>Decisions\<close>

datatype kind = Kexecute | Kask | Kdeny | Kverify

record constitution_evidence =
  ce_version :: int
  ce_rule :: string
  ce_mode :: mode
  ce_met :: bool

datatype boundary_answer = Not_evaluated | Allow | Refuse

record boundary_evidence =
  be_engine :: string
  be_result :: boundary_answer
  context_hash :: "string option"
  be_roles :: "(role \<times> bool) list"

record budget_evidence =
  local_date :: int
  bud_class :: string
  used :: dec
  proposed :: "dec option"
  cap :: int
  reserved :: dec

record approval_evidence =
  ae_approval_id :: string
  ae_quorum :: quorum
  ae_expires_at :: int

text \<open>
  \<open>speakable\<close> and \<open>narration\<close>, what the explainer attaches for people, are one opaque value; no
  code of the pipeline reads them back.
\<close>

record decision =
  d_kind :: kind
  d_event :: event_type
  d_action_id :: string
  d_risk :: "risk_assessment option"
  d_constitution :: constitution_evidence
  d_boundary :: boundary_evidence
  d_approval :: "approval_evidence option"
  d_budget :: "budget_evidence option"
  rejected :: "string list"
  audit_id :: "int option"
  d_status :: "string option"
  narration :: pv

text \<open>
  The gates of an evaluation, a dictionary with one key per field: an absent key is \<open>None\<close> or
  \<open>False\<close>. The gates of a bounded ending are the key \<open>ending\<close> of the evaluation.
\<close>

record gates =
  g_constitution :: "string list option"
  g_pause :: bool
  g_risk :: "string list option"
  g_quiet :: bool
  g_budget :: bool
  risk_band :: "nat option"
  risk_factors :: "string list option"
  unmet :: "string list option"

definition no_gates :: gates where
  "no_gates = \<lparr>g_constitution = None, g_pause = False, g_risk = None, g_quiet = False, g_budget = False,
     risk_band = None, risk_factors = None, unmet = None\<rparr>"

record evaluation =
  ev_decision :: decision
  ev_action :: action
  outcomes :: "rule_outcome list"
  ev_facts :: "facts option"
  ev_gates :: gates
  ending_gates :: "gates option"
  ev_diagnostics :: "string list"

fun asks :: "event_type \<Rightarrow> bool" where
  "asks ASK_CONSTITUTION = True"
| "asks ASK_RISK = True"
| "asks ASK_BUDGET = True"
| "asks ASK_UNRESOLVED_CONDITION = True"
| "asks ASK_REQUESTER_CONFIRMATION = True"
| "asks _ = False"

definition kind_of_event :: "event_type \<Rightarrow> kind" where
  "kind_of_event e =
     (if e = EXECUTE then Kexecute else if e = VERIFY then Kverify else if asks e then Kask else Kdeny)"

text \<open>\<open>result\<close>.\<close>

definition conclude :: "evaluation \<Rightarrow> event_type \<Rightarrow> evaluation" where
  "conclude ev e = ev\<lparr>ev_decision := (ev_decision ev)\<lparr>d_event := e, d_kind := kind_of_event e\<rparr>\<rparr>"

text \<open>What a principal is recorded by, without the proofs of one request.\<close>

definition identity :: "principal \<Rightarrow> principal" where
  "identity p = p\<lparr>passkey_verified := False, requester_confirmed := False, verified_action_hash := None\<rparr>"

text \<open>
  The text of a cost is known by the decimal that it spells: format \<open>f\<close> writes no exponent, and
  writes zero without a sign.
\<close>

fun plain_decimal :: "dec \<Rightarrow> dec" where
  "plain_decimal (Dec c e) = (if c = 0 then Dec 0 (min e 0) else if e > 0 then Dec (c * 10 ^ nat e) 0 else Dec c e)"

definition estimate :: "dec option \<Rightarrow> dec option result" where
  "estimate cost =
     (case cost of
        None \<Rightarrow> Inr None
      | Some d \<Rightarrow> if dec_rat d < 0 then Inl ValueError else Inr (Some (plain_decimal d)))"

fun dec_add :: "dec \<Rightarrow> dec \<Rightarrow> dec" where
  "dec_add (Dec c e) (Dec c' e') =
     (let m = min e e' in Dec (c * 10 ^ nat (e - m) + c' * 10 ^ nat (e' - m)) m)"

text \<open>The value of a cap, kept in ten-thousandths.\<close>

definition cap_rat :: "int \<Rightarrow> rat" where
  "cap_rat n = of_int n / of_int cedar_scale"

section \<open>The desk: what one assessment consults\<close>

record version_row =
  vr_version :: int
  vr_status :: string
  vr_compiled :: string

record desk =
  frames :: nat
  tz :: "string \<Rightarrow> int \<Rightarrow> int"
  policy :: constitution
  compiled_policy :: string
  require_active :: bool
  active_version :: "version_row option"
  resolve_requester :: "principal \<Rightarrow> requester result"
  prepare_constraint :: "action \<Rightarrow> int \<Rightarrow> principal \<Rightarrow> unit result"
  prepare_memory :: "action \<Rightarrow> principal \<Rightarrow> unit result"
  prepare_companion :: "action \<Rightarrow> principal \<Rightarrow> unit result"
  prepare_tool :: "action \<Rightarrow> principal \<Rightarrow> unit result"
  prepare_mutation :: "action \<Rightarrow> principal \<Rightarrow> unit result"
  plan_authority :: "action \<Rightarrow> principal \<Rightarrow> unit result"
  budget_scope :: "action \<Rightarrow> string list option result"
  take_snapshot :: "int \<Rightarrow> snapshot result"
  clock_first :: int
  clock_second :: int
  usage_of :: "string \<Rightarrow> int \<Rightarrow> dec"
  confirmed :: "action \<Rightarrow> requester \<Rightarrow> bool"

text \<open>A preview: the overlay of simulated facts, and a simulated scam pattern.\<close>

type_synonym preview = "(snapshot \<Rightarrow> snapshot result) \<times> supplemental option"

fun value_error :: "exn \<Rightarrow> bool" where
  "value_error ValueError = True"
| "value_error (FactError _) = True"
| "value_error PlanAuthorityChanged = True"
| "value_error _ = False"

definition tool_classes :: "string list" where
  "tool_classes = [''governance.record_tool_request'', ''governance.propose_rule'', ''governance.request_plan'',
     ''governance.record_verification'']"

definition guarded :: "string list" where
  "guarded = [''governance.refresh_plan'', ''governance.record_plan'', ''governance.approve_plan'',
     ''governance.revise_plan'', ''governance.cancel_plan'', ''governance.record_observations'']"

section \<open>Before any fact is read\<close>

text \<open>\<open>dict.fromkeys((requester.role, claimed_role or requester.role))\<close>.\<close>

definition role_variants :: "requester \<Rightarrow> principal \<Rightarrow> role list" where
  "role_variants rq pr =
     (case claimed_role pr of
        None \<Rightarrow> [rq_role rq]
      | Some c \<Rightarrow> if c = rq_role rq then [rq_role rq] else [rq_role rq, c])"

definition with_role :: "action \<Rightarrow> role \<Rightarrow> action" where
  "with_role a r = a\<lparr>requested_by := (requested_by a)\<lparr>rq_role := r\<rparr>\<rparr>"

definition initial_evaluation :: "constitution \<Rightarrow> action \<Rightarrow> evaluation" where
  "initial_evaluation p a =
     \<lparr>ev_decision = \<lparr>d_kind = Kdeny, d_event = DENY_CONSTITUTION, d_action_id = action_id a, d_risk = None,
        d_constitution = \<lparr>ce_version = version p, ce_rule = action_class a, ce_mode = Never, ce_met = False\<rparr>,
        d_boundary = \<lparr>be_engine = ''dogwood-local'', be_result = Not_evaluated, context_hash = None, be_roles = []\<rparr>,
        d_approval = None, d_budget = None, rejected = [], audit_id = None, d_status = None, narration = PNone\<rparr>,
      ev_action = a, outcomes = [], ev_facts = None, ev_gates = no_gates, ending_gates = None, ev_diagnostics = []\<rparr>"

text \<open>The stored constitution is the compiled one, or a bootstrap operation runs before activation.\<close>

definition active_policy :: "desk \<Rightarrow> action \<Rightarrow> bool" where
  "active_policy k a =
     (let bootstrap = (action_class a = ''governance.constitution'' \<or>
            action_class a = ''governance.credentials'' \<and>
            dict_get (params a) ''operation'' PNone \<in> {PStr ''enroll'', PStr ''recover''}) in
      \<not> require_active k \<or>
      (case active_version k of
         None \<Rightarrow> False
       | Some row \<Rightarrow> vr_version row = version (policy k) \<and>
           (if vr_status row = ''active'' then vr_compiled row = compiled_policy k else bootstrap)))"

text \<open>One preparation: whether it applies, its answer, and the reason a refusal is given.\<close>

type_synonym preparation = "bool \<times> unit result \<times> string list"

fun run_preparations :: "preparation list \<Rightarrow> string list option result" where
  "run_preparations [] = Inr None"
| "run_preparations ((applies, answer, why) # ps) =
     (if \<not> applies then run_preparations ps
      else case answer of
        Inr _ \<Rightarrow> run_preparations ps
      | Inl e \<Rightarrow> if value_error e then Inr (Some why) else Inl e)"

definition preparations :: "desk \<Rightarrow> action \<Rightarrow> principal \<Rightarrow> int \<Rightarrow> preparation list" where
  "preparations k a pr now =
     (let name = action_class a in
      [(name \<in> {''governance.record_constraint'', ''governance.withdraw_constraint''},
        prepare_constraint k a now pr, [''Invalid or unauthorized constraint mutation'']),
       (name = ''governance.memory'', prepare_memory k a pr, []),
       (name \<in> {''governance.credentials'', ''governance.constitution'', ''governance.contacts'', ''governance.twin''},
        prepare_companion k a pr, []),
       (name \<in> set tool_classes, prepare_tool k a pr, []),
       (name \<in> set guarded, prepare_mutation k a pr, []),
       (plan_id a \<noteq> None \<and> plan_id a \<noteq> Some [], plan_authority k a pr,
        [''Plan execution lacks current approver authority''])])"

text \<open>\<open>any(policy.role_mode(...) == "never" for role in roles)\<close>, which stops at the first.\<close>

fun never_for_some :: "constitution \<Rightarrow> string \<Rightarrow> role list \<Rightarrow> bool result" where
  "never_for_some p name [] = Inr False"
| "never_for_some p name (r # rs) =
     rbind (role_mode p name r) (\<lambda>m. if m = Never then Inr True else never_for_some p name rs)"

section \<open>Outcomes, gates and the decision\<close>

definition error_paths :: "rule_outcome list \<Rightarrow> string list" where
  "error_paths outs = sorted_set (concat (map (\<lambda>out. concat (map paths
     (filter (\<lambda>d. code d = D_POLICY_ERROR) (diagnostics out)))) outs))"

text \<open>\<open>max(outcomes, key=...)\<close>: the first outcome of the strictest mode.\<close>

fun worst :: "rule_outcome list \<Rightarrow> rule_outcome option" where
  "worst [] = None"
| "worst (out # outs) =
     (case worst outs of
        None \<Rightarrow> Some out
      | Some w \<Rightarrow> Some (if RANK (effective_mode w) > RANK (effective_mode out) then w else out))"

fun band_value :: "risk_band \<Rightarrow> string" where
  "band_value LOW = ''low''"
| "band_value MEDIUM = ''medium''"
| "band_value HIGH = ''high''"
| "band_value CRITICAL = ''critical''"

definition risk_values :: "risk_assessment \<Rightarrow> principal \<Rightarrow> pdict \<Rightarrow> pdict" where
  "risk_values risk pr vs =
     dict_set ''requester'' (PDict [(''claimed_role'', case claimed_role pr of None \<Rightarrow> PNone | Some r \<Rightarrow> PStr (role_name r))])
       (dict_set ''risk'' (PDict [(''band'', PStr (band_value (ra_band risk))),
          (''factors'', PList (map (PStr \<circ> factor_str \<circ> factor) (factors risk)))]) vs)"

text \<open>\<open>[str(i) for i, o in enumerate(outcomes) if ...]\<close>; there are at most two outcomes.\<close>

definition indices :: "('a \<Rightarrow> bool) \<Rightarrow> 'a list \<Rightarrow> string list" where
  "indices P xs = map (\<lambda>i. [char_of (48 + i)]) (filter (\<lambda>i. P (xs ! i)) [0..<length xs])"

definition factor_names :: "risk_assessment \<Rightarrow> string list" where
  "factor_names risk = map (factor_str \<circ> factor) (factors risk)"

text \<open>The soft gates; \<open>full\<close> says that the cost would reach the cap exactly.\<close>

definition soft_gates :: "bool \<Rightarrow> facts \<Rightarrow> rule_outcome list \<Rightarrow> risk_assessment \<Rightarrow> bool \<Rightarrow> gates" where
  "soft_gates governance f outs risk full =
     no_gates\<lparr>g_constitution := (if list_ex (\<lambda>out. effective_mode out = Ask) outs
                then Some (indices (\<lambda>out. effective_mode out = Ask) outs) else None),
              g_pause := (\<not> governance \<and> paused f),
              g_risk := (if ra_band risk = HIGH then Some (factor_names risk) else None),
              g_quiet := (\<not> governance \<and> quiet f),
              g_budget := full\<rparr>"

definition bind_facts :: "rule_outcome list \<Rightarrow> risk_assessment \<Rightarrow> gates \<Rightarrow> gates" where
  "bind_facts outs risk g =
     (if g = no_gates then g
      else g\<lparr>risk_band := Some (band_index (ra_band risk)), risk_factors := Some (sort (factor_names risk)),
             unmet := Some (indices (\<lambda>out. \<not> conditions_met out) outs)\<rparr>)"

definition gate_event :: "gates \<Rightarrow> event_type" where
  "gate_event g =
     (if g_constitution g \<noteq> None \<or> g_pause g then ASK_CONSTITUTION
      else if g_risk g \<noteq> None then ASK_RISK
      else if g_budget g then ASK_BUDGET
      else if g_quiet g then ASK_CONSTITUTION
      else EXECUTE)"

definition over_budget :: "dec \<Rightarrow> dec option \<Rightarrow> int \<Rightarrow> bool" where
  "over_budget u cost c =
     (case cost of None \<Rightarrow> True | Some d \<Rightarrow> dec_rat (dec_add u d) > cap_rat c)"

definition at_cap :: "dec \<Rightarrow> dec option \<Rightarrow> int \<Rightarrow> bool" where
  "at_cap u cost c = (case cost of None \<Rightarrow> False | Some d \<Rightarrow> dec_rat (dec_add u d) = cap_rat c)"

text \<open>From the budget on: the last part of \<open>assess\<close>.\<close>

definition decide_gates ::
  "evaluation \<Rightarrow> string \<Rightarrow> facts \<Rightarrow> rule_outcome list \<Rightarrow> risk_assessment \<Rightarrow> int option \<Rightarrow> dec \<Rightarrow> dec option \<Rightarrow> int \<Rightarrow> evaluation"
where
  "decide_gates ev name f outs risk budget u cost day =
     (let governance = governance_class name in
      case (if governance then None else budget) of
        None \<Rightarrow>
          (let g = bind_facts outs risk (soft_gates governance f outs risk False)
           in conclude (ev\<lparr>ev_gates := g\<rparr>) (gate_event g))
      | Some c \<Rightarrow>
          (let ev1 = ev\<lparr>ev_decision := (ev_decision ev)\<lparr>d_budget := Some
                 \<lparr>local_date = day, bud_class = name, used = u, proposed = cost, cap = c, reserved = Dec 0 0\<rparr>\<rparr>\<rparr> in
           if over_budget u cost c then conclude ev1 DENY_BUDGET
           else
             let g = bind_facts outs risk (soft_gates governance f outs risk (at_cap u cost c))
             in conclude (ev1\<lparr>ev_gates := g\<rparr>) (gate_event g)))"

text \<open>From the outcomes on.\<close>

definition settle ::
  "desk \<Rightarrow> evaluation \<Rightarrow> action \<Rightarrow> principal \<Rightarrow> requester \<Rightarrow> facts \<Rightarrow> rule_outcome list \<Rightarrow> risk_assessment
     \<Rightarrow> dec \<Rightarrow> dec option \<Rightarrow> int \<Rightarrow> evaluation"
where
  "settle k ev a pr rq f outs risk u cost day =
     (let name = action_class a in
      if list_ex (\<lambda>out. effective_mode out = Never) outs then ev
      else if ra_band risk = CRITICAL then
        conclude ev (if name = ''finance.verify_request'' then VERIFY else DENY_RISK)
      else if name \<in> set (require_requester_confirmation (c_verification (policy k))) \<and>
              \<not> requester_confirmed pr \<and> \<not> confirmed k a rq then
        conclude ev ASK_REQUESTER_CONFIRMATION
      else if ev_diagnostics ev \<noteq> [] then conclude ev ASK_UNRESOLVED_CONDITION
      else decide_gates ev name f outs risk (Option.bind (worst outs) o_budget) u cost day)"

text \<open>The evaluation once facts, risk and outcomes are known.\<close>

definition judged ::
  "desk \<Rightarrow> evaluation \<Rightarrow> action \<Rightarrow> facts \<Rightarrow> rule_outcome list \<Rightarrow> risk_assessment \<Rightarrow> evaluation"
where
  "judged k ev a f outs risk =
     ev\<lparr>ev_facts := Some f, outcomes := outs,
        ev_decision := (ev_decision ev)\<lparr>d_risk := Some risk,
          d_constitution := \<lparr>ce_version = version (policy k), ce_rule = action_class a,
            ce_mode = (case worst outs of None \<Rightarrow> Never | Some w \<Rightarrow> effective_mode w),
            ce_met = list_all conditions_met outs\<rparr>\<rparr>,
        ev_diagnostics := error_paths outs\<rparr>"

text \<open>From the facts on.\<close>

definition assess_facts ::
  "desk \<Rightarrow> evaluation \<Rightarrow> action \<Rightarrow> principal \<Rightarrow> requester \<Rightarrow> facts \<Rightarrow> dec \<Rightarrow> dec option \<Rightarrow> int \<Rightarrow> evaluation result"
where
  "assess_facts k ev a pr rq f u cost day =
     (let name = action_class a; p = policy k; variants = map (with_role a) (role_variants rq pr);
          ev1 = ev\<lparr>ev_facts := Some f\<rparr>; governance = governance_class name in
      if governance \<and> ends_with ''resume_automation'' name \<and> p_surface pr \<noteq> App then Inr ev1
      else
        rbind (mapM (\<lambda>v. resolve (frames k) p v (f_policy f) True) variants) (\<lambda>early.
        if list_ex (\<lambda>out. effective_mode out = Never) early
        then Inr (ev1\<lparr>ev_diagnostics := error_paths early\<rparr>)
        else
          rbind (select_rule p name (rq_role rq)) (\<lambda>rl.
          let risk = score a (if governance then no_risk_facts\<lparr>observation_ages_seconds := Some []\<rparr> else f_risk f) rl;
              f2 = f\<lparr>f_policy := (f_policy f)\<lparr>pf_values := risk_values risk pr (pf_values (f_policy f))\<rparr>\<rparr> in
          rbind (mapM (\<lambda>v. resolve (frames k) p v (f_policy f2) False) variants) (\<lambda>outs.
            Inr (settle k (judged k ev1 a f2 outs risk) a pr rq f2 outs risk u cost day)))))"

section \<open>Assessment\<close>

definition local_day :: "desk \<Rightarrow> snapshot \<Rightarrow> int \<Rightarrow> int" where
  "local_day k sn now = (now + tz k (timezone sn) now) div us_per_day"

text \<open>What the failures of the fact extraction come to.\<close>

definition context_refusal :: "evaluation \<Rightarrow> context_exn \<Rightarrow> evaluation result" where
  "context_refusal ev e =
     (case e of
        Newer_press \<Rightarrow> Inr (conclude (ev\<lparr>ev_decision := (ev_decision ev)\<lparr>rejected := [''a newer doorbell press'']\<rparr>\<rparr>)
                        DENY_APPROVAL_MISMATCH)
      | Context_error \<Rightarrow> Inr (ev\<lparr>ev_diagnostics := [''context'']\<rparr>)
      | Raised x \<Rightarrow> if value_error x then Inr (ev\<lparr>ev_diagnostics := [''context'']\<rparr>) else Inl x)"

definition read_facts ::
  "desk \<Rightarrow> evaluation \<Rightarrow> action \<Rightarrow> principal \<Rightarrow> requester \<Rightarrow> dec option \<Rightarrow> supplemental list \<Rightarrow> int \<Rightarrow> press option
     \<Rightarrow> snapshot option \<Rightarrow> evaluation result"
where
  "read_facts k ev a pr rq cost evs now bound previewed =
     rbind (case previewed of Some sn \<Rightarrow> Inr sn | None \<Rightarrow> take_snapshot k (min now (clock_first k))) (\<lambda>sn0.
     let sn = (if now > clock_second k then sn0\<lparr>s_as_of := now, observations := []\<rparr> else sn0);
         day = local_day k sn now; u = usage_of k (action_class a) day in
     case rbind (lift (budget_scope k a)) (\<lambda>required_assets.
            extract_facts (frames k) (tz k) sn (policy k) a evs u bound required_assets) of
       Inl e \<Rightarrow> context_refusal ev e
     | Inr f \<Rightarrow> assess_facts k ev a pr rq f u cost day)"

text \<open>The snapshot of a preview, and the evidence with its scam pattern.\<close>

definition preview_snapshot ::
  "desk \<Rightarrow> int \<Rightarrow> preview option \<Rightarrow> supplemental list \<Rightarrow> (snapshot option \<times> supplemental list) result"
where
  "preview_snapshot k now preview evs =
     (case preview of
        None \<Rightarrow> Inr (None, evs)
      | Some (ov, scam) \<Rightarrow>
          rbind (take_snapshot k now) (\<lambda>sn. rbind (ov sn) (\<lambda>sn'.
            Inr (Some sn', evs @ (case scam of None \<Rightarrow> [] | Some s \<Rightarrow> [s])))))"

definition assess ::
  "desk \<Rightarrow> action \<Rightarrow> principal \<Rightarrow> dec option \<Rightarrow> supplemental list \<Rightarrow> int \<Rightarrow> preview option \<Rightarrow> press option \<Rightarrow> evaluation result"
where
  "assess k a0 pr cost evs now preview bound =
     rbind (resolve_requester k pr) (\<lambda>rq.
     let a = a0\<lparr>requested_by := rq\<rparr>; ev = initial_evaluation (policy k) a in
     if \<not> active_policy k a then Inr ev
     else
       rbind (run_preparations (preparations k a pr now)) (\<lambda>refusal.
       case refusal of
         Some why \<Rightarrow> Inr (ev\<lparr>ev_decision := (ev_decision ev)\<lparr>rejected := why\<rparr>\<rparr>)
       | None \<Rightarrow>
           (case preview_snapshot k now preview evs of
              Inl e \<Rightarrow> if value_error e then Inr (ev\<lparr>ev_diagnostics := [''context'']\<rparr>) else Inl e
            | Inr (previewed, evs') \<Rightarrow>
                rbind (never_for_some (policy k) (action_class a) (role_variants rq pr)) (\<lambda>never.
                  if never then Inr ev
                  else read_facts k ev a pr rq cost evs' now bound previewed))))"

text \<open>An action with a bounded ending is assessed with its ending.\<close>

definition stricter :: "decision \<Rightarrow> decision \<Rightarrow> bool" where
  "stricter other d \<longleftrightarrow> d_kind other \<in> {Kdeny, Kverify} \<or> d_kind other = Kask \<and> d_kind d = Kexecute"

definition raise_risk :: "decision \<Rightarrow> decision \<Rightarrow> decision" where
  "raise_risk other d =
     (case (d_risk other, d_risk d) of
        (Some r', Some r) \<Rightarrow> if band_index (ra_band r') > band_index (ra_band r) then d\<lparr>d_risk := Some r'\<rparr> else d
      | _ \<Rightarrow> d)"

definition merge_ending :: "evaluation \<Rightarrow> evaluation \<Rightarrow> evaluation" where
  "merge_ending ev other =
     (let ev1 = ev\<lparr>ending_gates := Some (ev_gates other)\<rparr>;
          ev2 = (if stricter (ev_decision other) (ev_decision ev1)
                 then conclude ev1 (d_event (ev_decision other)) else ev1)
      in ev2\<lparr>ev_decision := raise_risk (ev_decision other) (ev_decision ev2)\<rparr>)"

definition assess_operation ::
  "(pv \<Rightarrow> string) \<Rightarrow> (pv \<Rightarrow> pv) \<Rightarrow> desk \<Rightarrow> action \<Rightarrow> principal \<Rightarrow> dec option \<Rightarrow> supplemental list \<Rightarrow> int
     \<Rightarrow> preview option \<Rightarrow> press option \<Rightarrow> evaluation result"
where
  "assess_operation H secs k a pr cost evs now preview bound =
     rbind (assess k a pr cost evs now preview bound) (\<lambda>ev.
     if a_revert a \<noteq> None \<and> d_kind (ev_decision ev) \<in> {Kexecute, Kask} then
       rbind (ending H secs a None) (\<lambda>fin.
       rbind (assess k (fin\<lparr>plan_id := None\<rparr>)
                (if action_class a = ''security.door_unlock'' \<and>
                    d_event (ev_decision ev) \<noteq> ASK_REQUESTER_CONFIRMATION
                 then pr\<lparr>requester_confirmed := True\<rparr> else pr)
                (Some (Dec 0 0)) evs now preview None) (\<lambda>other.
         Inr (merge_ending ev other)))
     else Inr ev)"

section \<open>Conclusions\<close>

lemma conclude_simps [simp]:
  "d_event (ev_decision (conclude ev e)) = e" "d_kind (ev_decision (conclude ev e)) = kind_of_event e"
  "d_risk (ev_decision (conclude ev e)) = d_risk (ev_decision ev)" "ev_action (conclude ev e) = ev_action ev"
  "outcomes (conclude ev e) = outcomes ev" "ev_facts (conclude ev e) = ev_facts ev"
  "ev_gates (conclude ev e) = ev_gates ev" "ev_diagnostics (conclude ev e) = ev_diagnostics ev"
  "ending_gates (conclude ev e) = ending_gates ev"
  "d_budget (ev_decision (conclude ev e)) = d_budget (ev_decision ev)"
  "d_action_id (ev_decision (conclude ev e)) = d_action_id (ev_decision ev)"
  "audit_id (ev_decision (conclude ev e)) = audit_id (ev_decision ev)"
  "d_approval (ev_decision (conclude ev e)) = d_approval (ev_decision ev)"
  by (simp_all add: conclude_def)

lemma kind_of_event_simps [simp]:
  "kind_of_event e = Kexecute \<longleftrightarrow> e = EXECUTE" "kind_of_event e = Kask \<longleftrightarrow> asks e"
  "kind_of_event e = Kverify \<longleftrightarrow> e = VERIFY"
  by (cases e; simp add: kind_of_event_def)+

text \<open>The kind of a decision is the kind of its event.\<close>

definition coherent :: "decision \<Rightarrow> bool" where
  "coherent d \<longleftrightarrow> d_kind d = kind_of_event (d_event d)"

lemma coherent_conclude [simp]: "coherent (ev_decision (conclude ev e))"
  by (simp add: coherent_def)

lemma initial_simps [simp]:
  "d_kind (ev_decision (initial_evaluation p a)) = Kdeny" "coherent (ev_decision (initial_evaluation p a))"
  "d_event (ev_decision (initial_evaluation p a)) = DENY_CONSTITUTION"
  "ev_action (initial_evaluation p a) = a" "outcomes (initial_evaluation p a) = []"
  "ending_gates (initial_evaluation p a) = None" "audit_id (ev_decision (initial_evaluation p a)) = None"
  "ev_facts (initial_evaluation p a) = None" "ev_gates (initial_evaluation p a) = no_gates"
  "d_action_id (ev_decision (initial_evaluation p a)) = action_id a"
  "d_budget (ev_decision (initial_evaluation p a)) = None"
  "d_approval (ev_decision (initial_evaluation p a)) = None"
  by (simp_all add: initial_evaluation_def coherent_def kind_of_event_def)

lemma judged_simps [simp]:
  "ev_action (judged k ev a f outs risk) = ev_action ev" "outcomes (judged k ev a f outs risk) = outs"
  "ev_facts (judged k ev a f outs risk) = Some f" "ev_gates (judged k ev a f outs risk) = ev_gates ev"
  "ending_gates (judged k ev a f outs risk) = ending_gates ev"
  "ev_diagnostics (judged k ev a f outs risk) = error_paths outs"
  "d_kind (ev_decision (judged k ev a f outs risk)) = d_kind (ev_decision ev)"
  "d_event (ev_decision (judged k ev a f outs risk)) = d_event (ev_decision ev)"
  "d_risk (ev_decision (judged k ev a f outs risk)) = Some risk"
  "d_budget (ev_decision (judged k ev a f outs risk)) = d_budget (ev_decision ev)"
  "audit_id (ev_decision (judged k ev a f outs risk)) = audit_id (ev_decision ev)"
  "d_action_id (ev_decision (judged k ev a f outs risk)) = d_action_id (ev_decision ev)"
  by (simp_all add: judged_def)

section \<open>Gates\<close>

lemma bind_facts_simps [simp]:
  "g_constitution (bind_facts outs risk g) = g_constitution g" "g_pause (bind_facts outs risk g) = g_pause g"
  "g_risk (bind_facts outs risk g) = g_risk g" "g_quiet (bind_facts outs risk g) = g_quiet g"
  "g_budget (bind_facts outs risk g) = g_budget g"
  by (simp_all add: bind_facts_def)

lemma gate_event_bind [simp]: "gate_event (bind_facts outs risk g) = gate_event g"
  by (simp add: gate_event_def)

lemma gate_event_kind: "gate_event g = EXECUTE \<or> asks (gate_event g)"
  by (simp add: gate_event_def)

lemma gate_event_execute:
  "gate_event (soft_gates gov f outs risk full) = EXECUTE \<longleftrightarrow>
     (\<forall>out \<in> set outs. effective_mode out \<noteq> Ask) \<and> ra_band risk \<noteq> HIGH \<and> \<not> full \<and> (gov \<or> \<not> paused f \<and> \<not> quiet f)"
  by (auto simp: gate_event_def soft_gates_def no_gates_def list_ex_iff)

lemma execute_no_gates:
  "gate_event (soft_gates gov f outs risk full) = EXECUTE \<Longrightarrow> bind_facts outs risk (soft_gates gov f outs risk full) = no_gates"
  unfolding gate_event_execute by (auto simp: soft_gates_def no_gates_def list_ex_iff bind_facts_def)

text \<open>A cost is within a budget when it is known and does not pass the cap.\<close>

definition within_budget :: "int option \<Rightarrow> dec \<Rightarrow> dec option \<Rightarrow> bool" where
  "within_budget b u cost \<longleftrightarrow>
     (case b of None \<Rightarrow> True | Some c \<Rightarrow> (\<exists>d. cost = Some d \<and> dec_rat (dec_add u d) \<le> cap_rat c))"

lemma decide_gates_event:
  "d_event (ev_decision (decide_gates ev name f outs risk b u cost day)) =
     (let gov = governance_class name; b' = (if gov then None else b) in
      if \<not> within_budget b' u cost then DENY_BUDGET
      else gate_event (soft_gates gov f outs risk (case b' of None \<Rightarrow> False | Some c \<Rightarrow> at_cap u cost c)))"
  by (auto simp: decide_gates_def Let_def within_budget_def over_budget_def split: option.splits if_splits)

lemma decide_gates_kind:
  "d_kind (ev_decision (decide_gates ev name f outs risk b u cost day)) =
     kind_of_event (d_event (ev_decision (decide_gates ev name f outs risk b u cost day)))"
  by (auto simp: decide_gates_def Let_def split: option.splits if_splits)

lemma decide_gates_frame [simp]:
  "outcomes (decide_gates ev name f outs risk b u cost day) = outcomes ev"
  "ev_facts (decide_gates ev name f outs risk b u cost day) = ev_facts ev"
  "ev_action (decide_gates ev name f outs risk b u cost day) = ev_action ev"
  "ev_diagnostics (decide_gates ev name f outs risk b u cost day) = ev_diagnostics ev"
  "ending_gates (decide_gates ev name f outs risk b u cost day) = ending_gates ev"
  "d_risk (ev_decision (decide_gates ev name f outs risk b u cost day)) = d_risk (ev_decision ev)"
  "audit_id (ev_decision (decide_gates ev name f outs risk b u cost day)) = audit_id (ev_decision ev)"
  "d_action_id (ev_decision (decide_gates ev name f outs risk b u cost day)) = d_action_id (ev_decision ev)"
  by (auto simp: decide_gates_def Let_def split: option.splits if_splits)

section \<open>Settling\<close>

text \<open>The requester confirmed the request where the policy asks for it.\<close>

definition cleared :: "desk \<Rightarrow> action \<Rightarrow> principal \<Rightarrow> requester \<Rightarrow> bool" where
  "cleared k a pr rq \<longleftrightarrow> action_class a \<in> set (require_requester_confirmation (c_verification (policy k)))
     \<longrightarrow> requester_confirmed pr \<or> confirmed k a rq"

lemma settle_frame [simp]:
  "outcomes (settle k ev a pr rq f outs risk u cost day) = outcomes ev"
  "ev_facts (settle k ev a pr rq f outs risk u cost day) = ev_facts ev"
  "ev_action (settle k ev a pr rq f outs risk u cost day) = ev_action ev"
  "ev_diagnostics (settle k ev a pr rq f outs risk u cost day) = ev_diagnostics ev"
  "ending_gates (settle k ev a pr rq f outs risk u cost day) = ending_gates ev"
  "d_risk (ev_decision (settle k ev a pr rq f outs risk u cost day)) = d_risk (ev_decision ev)"
  "audit_id (ev_decision (settle k ev a pr rq f outs risk u cost day)) = audit_id (ev_decision ev)"
  "d_action_id (ev_decision (settle k ev a pr rq f outs risk u cost day)) = d_action_id (ev_decision ev)"
  by (simp_all add: settle_def Let_def)

lemma settle_coherent:
  "coherent (ev_decision ev) \<Longrightarrow> coherent (ev_decision (settle k ev a pr rq f outs risk u cost day))"
  by (simp add: settle_def Let_def coherent_def decide_gates_kind)

lemma settle_open:
  assumes "d_kind (ev_decision ev) = Kdeny"
    and "d_kind (ev_decision (settle k ev a pr rq f outs risk u cost day)) \<in> {Kexecute, Kask}"
  shows "(\<forall>out \<in> set outs. effective_mode out \<noteq> Never) \<and> ra_band risk \<noteq> CRITICAL"
  using assms by (auto simp: settle_def Let_def list_ex_iff split: if_split_asm)

lemma mode_auto_iff: "m \<noteq> Never \<and> m \<noteq> Ask \<longleftrightarrow> m = Auto"
  by (cases m) auto

lemma band_below_high: "b < HIGH \<longleftrightarrow> b \<noteq> CRITICAL \<and> b \<noteq> HIGH"
  by (cases b) (auto simp: less_risk_band_def)

lemma at_cap_iff:
  "within_budget (Some c) u cost \<and> \<not> at_cap u cost c \<longleftrightarrow> (\<exists>d. cost = Some d \<and> dec_rat (dec_add u d) < cap_rat c)"
  by (auto simp: within_budget_def at_cap_def)

lemma settle_execute_iff:
  assumes "d_kind (ev_decision ev) = Kdeny"
  shows "d_kind (ev_decision (settle k ev a pr rq f outs risk u cost day)) = Kexecute \<longleftrightarrow>
    (\<forall>out \<in> set outs. effective_mode out = Auto) \<and> ra_band risk < HIGH \<and> cleared k a pr rq \<and> ev_diagnostics ev = [] \<and>
    (governance_class (action_class a) \<or>
     \<not> paused f \<and> \<not> quiet f \<and>
     (\<forall>c. Option.bind (worst outs) o_budget = Some c \<longrightarrow> (\<exists>d. cost = Some d \<and> dec_rat (dec_add u d) < cap_rat c)))"
proof -
  let ?b = "Option.bind (worst outs) o_budget"
  let ?gov = "governance_class (action_class a)"
  have "(\<forall>out \<in> set outs. effective_mode out = Auto) \<longleftrightarrow>
      (\<forall>out \<in> set outs. effective_mode out \<noteq> Never) \<and> (\<forall>out \<in> set outs. effective_mode out \<noteq> Ask)"
    using mode_auto_iff by blast
  moreover have "d_kind (ev_decision (decide_gates ev (action_class a) f outs risk ?b u cost day)) = Kexecute \<longleftrightarrow>
      (\<forall>out \<in> set outs. effective_mode out \<noteq> Ask) \<and> ra_band risk \<noteq> HIGH \<and>
      (?gov \<or> \<not> paused f \<and> \<not> quiet f \<and>
        (\<forall>c. ?b = Some c \<longrightarrow> (\<exists>d. cost = Some d \<and> dec_rat (dec_add u d) < cap_rat c)))"
  proof (cases "?gov \<or> ?b = None")
    case True
    then show ?thesis
      by (auto simp: decide_gates_kind decide_gates_event Let_def gate_event_execute within_budget_def)
  next
    case False
    then obtain c where "?b = Some c" "\<not> ?gov" by auto
    then show ?thesis using at_cap_iff [of c u cost]
      by (auto simp: decide_gates_kind decide_gates_event Let_def gate_event_execute)
  qed
  ultimately show ?thesis
    using assms by (auto simp: settle_def Let_def list_ex_iff cleared_def band_below_high split: if_split)
qed


section \<open>Assessing\<close>

lemma context_refusal_deny:
  "context_refusal ev e = Inr ev' \<Longrightarrow> d_kind (ev_decision ev) = Kdeny \<Longrightarrow> d_kind (ev_decision ev') = Kdeny"
  by (auto simp: context_refusal_def conclude_def kind_of_event_def split: context_exn.splits if_split_asm)

lemma context_refusal_coherent:
  "context_refusal ev e = Inr ev' \<Longrightarrow> coherent (ev_decision ev) \<Longrightarrow> coherent (ev_decision ev')"
  by (auto simp: context_refusal_def coherent_def split: context_exn.splits if_split_asm)

text \<open>What the facts-level assessment did when it did not refuse.\<close>

lemma assess_facts_openE:
  assumes "assess_facts k ev a pr rq f u cost day = Inr ev'" and "d_kind (ev_decision ev) = Kdeny"
    and "d_kind (ev_decision ev') \<in> {Kexecute, Kask}"
  obtains early rl risk f2 outs where
    "mapM (\<lambda>v. resolve (frames k) (policy k) v (f_policy f) True) (map (with_role a) (role_variants rq pr)) = Inr early"
    and "\<forall>out \<in> set early. effective_mode out \<noteq> Never"
    and "select_rule (policy k) (action_class a) (rq_role rq) = Inr rl"
    and "risk = score a (if governance_class (action_class a)
           then no_risk_facts\<lparr>observation_ages_seconds := Some []\<rparr> else f_risk f) rl"
    and "f2 = f\<lparr>f_policy := (f_policy f)\<lparr>pf_values := risk_values risk pr (pf_values (f_policy f))\<rparr>\<rparr>"
    and "mapM (\<lambda>v. resolve (frames k) (policy k) v (f_policy f2) False) (map (with_role a) (role_variants rq pr)) = Inr outs"
    and "ev' = settle k (judged k (ev\<lparr>ev_facts := Some f\<rparr>) a f2 outs risk) a pr rq f2 outs risk u cost day"
  using assms
  by (auto simp: assess_facts_def Let_def rbind_Inr_iff list_ex_iff split: if_split_asm intro!: that)

lemma assess_facts_coherent:
  assumes "assess_facts k ev a pr rq f u cost day = Inr ev'" and "coherent (ev_decision ev)"
  shows "coherent (ev_decision ev')"
  using assms
  by (auto simp: assess_facts_def Let_def rbind_Inr_iff split: if_split_asm intro!: settle_coherent)
     (simp_all add: coherent_def)

text \<open>An assessment that does not refuse read its facts from one snapshot.\<close>

lemma assess_openE:
  assumes "assess k a0 pr cost evs now preview bound = Inr ev"
    and "d_kind (ev_decision ev) \<in> {Kexecute, Kask}"
  obtains rq a sn evs' req f u day where "resolve_requester k pr = Inr rq" and "a = a0\<lparr>requested_by := rq\<rparr>"
    and "active_policy k a" and "run_preparations (preparations k a pr now) = Inr None"
    and "never_for_some (policy k) (action_class a) (role_variants rq pr) = Inr False"
    and "budget_scope k a = Inr req" and "day = local_day k sn now" and "u = usage_of k (action_class a) day"
    and "extract_facts (frames k) (tz k) sn (policy k) a evs' u bound req = Inr f"
    and "assess_facts k (initial_evaluation (policy k) a) a pr rq f u cost day = Inr ev"
proof -
  from assms(1) obtain rq where rq: "resolve_requester k pr = Inr rq" by (auto simp: assess_def rbind_Inr_iff)
  define a where "a = a0\<lparr>requested_by := rq\<rparr>"
  have act: "active_policy k a" using assms rq by (auto simp: assess_def Let_def a_def split: if_split_asm)
  obtain refusal where pre: "run_preparations (preparations k a pr now) = Inr refusal"
    using assms(1) rq act by (auto simp: assess_def Let_def a_def rbind_Inr_iff)
  have none: "refusal = None"
    using assms rq act pre by (cases refusal) (auto simp: assess_def Let_def a_def)
  obtain previewed evs' where ps: "preview_snapshot k now preview evs = Inr (previewed, evs')"
    using assms rq act pre none
    by (cases "preview_snapshot k now preview evs") (auto simp: assess_def Let_def a_def split: if_split_asm)
  have body: "rbind (never_for_some (policy k) (action_class a) (role_variants rq pr)) (\<lambda>never.
             if never then Inr (initial_evaluation (policy k) a)
             else read_facts k (initial_evaluation (policy k) a) a pr rq cost evs' now bound previewed) = Inr ev"
    using assms(1) rq act pre none ps unfolding assess_def Let_def a_def by simp
  have nv: "never_for_some (policy k) (action_class a) (role_variants rq pr) = Inr False"
    and rd: "read_facts k (initial_evaluation (policy k) a) a pr rq cost evs' now bound previewed = Inr ev"
    using body assms(2) by (auto simp: rbind_Inr_iff split: if_split_asm)
  from rd obtain sn0 where sn0: "(case previewed of Some sn \<Rightarrow> Inr sn | None \<Rightarrow> take_snapshot k (min now (clock_first k))) = Inr sn0"
    by (auto simp: read_facts_def rbind_Inr_iff)
  define sn where "sn = (if now > clock_second k then sn0\<lparr>s_as_of := now, observations := []\<rparr> else sn0)"
  have "\<exists>req f. budget_scope k a = Inr req \<and>
      extract_facts (frames k) (tz k) sn (policy k) a evs' (usage_of k (action_class a) (local_day k sn now)) bound req = Inr f \<and>
      assess_facts k (initial_evaluation (policy k) a) a pr rq f (usage_of k (action_class a) (local_day k sn now)) cost (local_day k sn now) = Inr ev"
    using rd sn0 assms(2)
    by (auto simp: read_facts_def Let_def sn_def [symmetric] rbind_Inr_iff split: sum.split_asm dest: context_refusal_deny)
  then show thesis using that [OF rq a_def act] pre none nv by blast
qed


lemma case_sum_value: "(case s of Inl e \<Rightarrow> f e | Inr x \<Rightarrow> g x) = y \<Longrightarrow> (\<exists>e. f e = y) \<or> (\<exists>x. g x = y)"
  by (cases s) auto

lemma read_facts_Inr:
  "read_facts k ev a pr rq cost evs now bound previewed = Inr ev' \<Longrightarrow>
     (\<exists>e. context_refusal ev e = Inr ev') \<or> (\<exists>f u day. assess_facts k ev a pr rq f u cost day = Inr ev')"
  unfolding read_facts_def Let_def rbind_Inr_iff by (elim exE conjE) (drule case_sum_value, blast)

lemma assess_coherent:
  assumes "assess k a0 pr cost evs now preview bound = Inr ev"
  shows "coherent (ev_decision ev)"
proof -
  from assms obtain rq where rq: "resolve_requester k pr = Inr rq" by (auto simp: assess_def rbind_Inr_iff)
  let ?a = "a0\<lparr>requested_by := rq\<rparr>" and ?ev = "initial_evaluation (policy k) (a0\<lparr>requested_by := rq\<rparr>)"
  have frame: "coherent (d\<lparr>rejected := w\<rparr>) = coherent d" for d w by (simp add: coherent_def)
  have "coherent (ev_decision ev) \<or> (\<exists>previewed evs'. read_facts k ?ev ?a pr rq cost evs' now bound previewed = Inr ev)"
    using assms rq unfolding assess_def Let_def
    by (auto simp: rbind_Inr_iff frame split: if_split_asm option.split_asm sum.split_asm)
  then show ?thesis
    using read_facts_Inr context_refusal_coherent assess_facts_coherent initial_simps(2) by metis
qed

lemma mapM_compose: "mapM f (map g xs) = mapM (f \<circ> g) xs"
  by (induction xs) auto

lemma role_variants_nonempty [simp]: "role_variants rq pr \<noteq> []"
  by (simp add: role_variants_def split: option.split)

text \<open>Where no rule outcome was reached the request is refused.\<close>

lemma assess_facts_no_outcomes:
  assumes "assess_facts k ev a pr rq f u cost day = Inr ev'" and "d_kind (ev_decision ev) = Kdeny" and "outcomes ev = []"
  shows "outcomes ev' = [] \<and> d_kind (ev_decision ev') = Kdeny \<or>
    (\<exists>risk f2 outs. outs \<noteq> [] \<and> ev' = settle k (judged k (ev\<lparr>ev_facts := Some f\<rparr>) a f2 outs risk) a pr rq f2 outs risk u cost day)"
  using assms
  by (auto simp: assess_facts_def Let_def rbind_Inr_iff split: if_split_asm dest!: mapM_Inr_length)
     (metis length_0_conv role_variants_nonempty)+

lemma assess_cases:
  assumes "assess k a0 pr cost evs now preview bound = Inr ev"
  obtains "outcomes ev = []" and "d_kind (ev_decision ev) = Kdeny"
  | rq f u day risk f2 outs where "resolve_requester k pr = Inr rq" and "outs \<noteq> []"
      and "ev = settle k (judged k (initial_evaluation (policy k) (a0\<lparr>requested_by := rq\<rparr>)\<lparr>ev_facts := Some f\<rparr>)
             (a0\<lparr>requested_by := rq\<rparr>) f2 outs risk) (a0\<lparr>requested_by := rq\<rparr>) pr rq f2 outs risk u cost day"
proof -
  from assms obtain rq where rq: "resolve_requester k pr = Inr rq" by (auto simp: assess_def rbind_Inr_iff)
  let ?a = "a0\<lparr>requested_by := rq\<rparr>" and ?ev = "initial_evaluation (policy k) (a0\<lparr>requested_by := rq\<rparr>)"
  have "outcomes ev = [] \<and> d_kind (ev_decision ev) = Kdeny \<or>
      (\<exists>previewed evs'. read_facts k ?ev ?a pr rq cost evs' now bound previewed = Inr ev)"
    using assms rq unfolding assess_def Let_def
    by (auto simp: rbind_Inr_iff split: if_split_asm option.split_asm sum.split_asm)
  then consider "outcomes ev = []" "d_kind (ev_decision ev) = Kdeny"
    | previewed evs' where "read_facts k ?ev ?a pr rq cost evs' now bound previewed = Inr ev" by blast
  then show thesis
  proof cases
    case 1
    then show thesis by (rule that(1))
  next
    case 2
    from read_facts_Inr [OF this] obtain f u day e
      where "context_refusal ?ev e = Inr ev \<or> assess_facts k ?ev ?a pr rq f u cost day = Inr ev" by blast
    then show thesis
    proof
      assume c: "context_refusal ?ev e = Inr ev"
      then have "outcomes ev = []" by (auto simp: context_refusal_def split: context_exn.splits if_split_asm)
      moreover from c have "d_kind (ev_decision ev) = Kdeny" by (rule context_refusal_deny) simp
      ultimately show thesis by (rule that(1))
    next
      assume "assess_facts k ?ev ?a pr rq f u cost day = Inr ev"
      from assess_facts_no_outcomes [OF this] show thesis using that rq by auto
    qed
  qed
qed

lemma decide_gates_budget:
  assumes "d_budget (ev_decision ev) = None"
  shows "d_budget (ev_decision (decide_gates ev name f outs risk b u cost day)) =
    (if governance_class name then None
     else map_option (\<lambda>c. \<lparr>local_date = day, bud_class = name, used = u, proposed = cost, cap = c, reserved = Dec 0 0\<rparr>) b)"
  using assms by (auto simp: decide_gates_def Let_def split: option.splits)

lemma settle_budget:
  assumes "d_budget (ev_decision ev) = None"
    and "d_budget (ev_decision (settle k ev a pr rq f outs risk u cost day)) = Some b"
  shows "\<not> governance_class (action_class a) \<and> Option.bind (worst outs) o_budget = Some (cap b) \<and> used b = u \<and>
    proposed b = cost \<and> local_date b = day \<and> bud_class b = action_class a \<and> reserved b = Dec 0 0"
  using assms by (auto simp: settle_def Let_def decide_gates_budget split: if_split_asm)

lemma execute_exactly:
  assumes "assess k a0 pr cost evs now preview bound = Inr ev"
  shows "d_kind (ev_decision ev) = Kexecute \<longleftrightarrow>
    outcomes ev \<noteq> [] \<and> (\<forall>out \<in> set (outcomes ev). effective_mode out = Auto) \<and> ev_diagnostics ev = [] \<and>
    (\<exists>risk f rq. d_risk (ev_decision ev) = Some risk \<and> ra_band risk < HIGH \<and> ev_facts ev = Some f \<and>
       resolve_requester k pr = Inr rq \<and> cleared k (a0\<lparr>requested_by := rq\<rparr>) pr rq \<and>
       (governance_class (action_class a0) \<or>
        \<not> paused f \<and> \<not> quiet f \<and>
        (\<forall>b. d_budget (ev_decision ev) = Some b \<longrightarrow> (\<exists>d. cost = Some d \<and> dec_rat (dec_add (used b) d) < cap_rat (cap b))) \<and>
        (d_budget (ev_decision ev) = None \<longrightarrow> Option.bind (worst (outcomes ev)) o_budget = None)))"
  using assms
proof (cases rule: assess_cases)
  case 1
  then show ?thesis by simp
next
  case (2 rq f u day risk f2 outs)
  let ?a = "a0\<lparr>requested_by := rq\<rparr>"
  let ?j = "judged k (initial_evaluation (policy k) ?a\<lparr>ev_facts := Some f\<rparr>) ?a f2 outs risk"
  have k: "d_kind (ev_decision ?j) = Kdeny" and nb: "d_budget (ev_decision ?j) = None" by simp_all
  have b: "\<not> governance_class (action_class a0) \<and> Option.bind (worst outs) o_budget = Some (cap b) \<and> used b = u"
    if "d_budget (ev_decision ev) = Some b" for b
    using settle_budget [OF nb that [unfolded 2(3)]] by simp
  have x: "d_kind (ev_decision ev) = Kexecute \<Longrightarrow> \<not> governance_class (action_class a0) \<Longrightarrow>
      d_budget (ev_decision ev) = None \<Longrightarrow> Option.bind (worst outs) o_budget = None"
    using nb k unfolding 2(3) by (auto simp: settle_def Let_def decide_gates_budget split: if_split_asm)
  have ev: "outcomes ev = outs" "ev_facts ev = Some f2" "d_risk (ev_decision ev) = Some risk" "ev_diagnostics ev = error_paths outs"
    by (simp_all add: 2(3))
  have e: "d_kind (ev_decision ev) = Kexecute \<longleftrightarrow> (\<forall>out \<in> set outs. effective_mode out = Auto) \<and> ra_band risk < HIGH \<and>
      cleared k ?a pr rq \<and> error_paths outs = [] \<and> (governance_class (action_class a0) \<or> \<not> paused f2 \<and> \<not> quiet f2 \<and>
      (\<forall>c. Option.bind (worst outs) o_budget = Some c \<longrightarrow> (\<exists>d. cost = Some d \<and> dec_rat (dec_add u d) < cap_rat c)))"
    using settle_execute_iff [OF k, of k ?a pr rq f2 outs risk u cost day] by (simp add: 2(3))
  show ?thesis
  proof (cases "d_budget (ev_decision ev)")
    case None
    with e x ev 2(1,2) show ?thesis by auto
  next
    case (Some bud)
    with e ev b [OF Some] 2(1,2) show ?thesis by auto
  qed
qed

text \<open>
  C38: exactness of execution. A request is executed without a question exactly when its evidence
  shows nothing to ask: rule outcomes for every role, all of them automatic; a risk band below HIGH;
  the requester's confirmation where the policy demands one; no unresolved fact; and, outside
  governance, no pause, no quiet hours, and a cost that stays strictly below the day's cap.
\<close>

theorem assess_execute_iff:
  assumes "assess k a0 pr cost evs now preview bound = Inr ev"
  shows "d_kind (ev_decision ev) = Kexecute \<longleftrightarrow>
    outcomes ev \<noteq> [] \<and> (\<forall>out \<in> set (outcomes ev). effective_mode out = Auto) \<and> ev_diagnostics ev = [] \<and>
    (\<exists>risk f rq. d_risk (ev_decision ev) = Some risk \<and> ra_band risk < HIGH \<and> ev_facts ev = Some f \<and>
       resolve_requester k pr = Inr rq \<and> cleared k (a0\<lparr>requested_by := rq\<rparr>) pr rq \<and>
       (governance_class (action_class a0) \<or>
        \<not> paused f \<and> \<not> quiet f \<and>
        (\<forall>b. d_budget (ev_decision ev) = Some b \<longrightarrow> (\<exists>d. cost = Some d \<and> dec_rat (dec_add (used b) d) < cap_rat (cap b))) \<and>
        (d_budget (ev_decision ev) = None \<longrightarrow> Option.bind (worst (outcomes ev)) o_budget = None)))"
  using assms by (rule execute_exactly)


lemma never_for_some_False:
  "never_for_some p name rs = Inr False \<Longrightarrow> r \<in> set rs \<Longrightarrow> \<exists>m. role_mode p name r = Inr m \<and> m \<noteq> Never"
  by (induction rs) (auto simp: rbind_Inr_iff split: if_split_asm)

lemma open_sound:
  assumes "assess k a0 pr cost evs now preview bound = Inr ev" and "d_kind (ev_decision ev) \<in> {Kexecute, Kask}"
  shows "\<exists>rq a f risk. resolve_requester k pr = Inr rq \<and> a = a0\<lparr>requested_by := rq\<rparr> \<and> ev_action ev = a \<and> active_policy k a \<and>
    ev_facts ev = Some f \<and> d_risk (ev_decision ev) = Some risk \<and> ra_band risk \<noteq> CRITICAL \<and>
    (\<forall>r \<in> set (role_variants rq pr). \<exists>m. role_mode (policy k) (action_class a) r = Inr m \<and> m \<noteq> Never) \<and>
    mapM (\<lambda>r. resolve (frames k) (policy k) (with_role a r) (f_policy f) False) (role_variants rq pr) = Inr (outcomes ev) \<and>
    (\<forall>out \<in> set (outcomes ev). effective_mode out \<noteq> Never)"
proof -
  obtain rq a sn evs' req f u day where a: "resolve_requester k pr = Inr rq" "a = a0\<lparr>requested_by := rq\<rparr>" "active_policy k a"
      "never_for_some (policy k) (action_class a) (role_variants rq pr) = Inr False"
    and f: "assess_facts k (initial_evaluation (policy k) a) a pr rq f u cost day = Inr ev"
    using assess_openE [OF assms] by metis
  from assess_facts_openE [OF f initial_simps(1) assms(2)] obtain risk f2 outs where
    o: "mapM (\<lambda>v. resolve (frames k) (policy k) v (f_policy f2) False) (map (with_role a) (role_variants rq pr)) = Inr outs"
    and ev: "ev = settle k (judged k (initial_evaluation (policy k) a\<lparr>ev_facts := Some f\<rparr>) a f2 outs risk) a pr rq f2 outs risk u cost day"
    by metis
  have "mapM (\<lambda>r. resolve (frames k) (policy k) (with_role a r) (f_policy f2) False) (role_variants rq pr) = Inr outs"
    using o by (simp add: mapM_compose comp_def)
  moreover have "(\<forall>out \<in> set outs. effective_mode out \<noteq> Never) \<and> ra_band risk \<noteq> CRITICAL"
    using assms(2) unfolding ev by (rule settle_open [rotated]) simp
  ultimately show ?thesis using a never_for_some_False [OF a(4)] by (auto simp: ev)
qed

text \<open>
  C39: nothing forbidden is ever put to a person. When an assessment executes or asks, the stored
  constitution was the active one, no role in which the request is made is forbidden by the
  constitution, the outcomes on record are the resolutions of the rule for every such role on the
  extracted facts and none of them forbids, and the risk is below CRITICAL.
\<close>

theorem assess_open_sound:
  assumes "assess k a0 pr cost evs now preview bound = Inr ev" and "d_kind (ev_decision ev) \<in> {Kexecute, Kask}"
  shows "\<exists>rq a f risk. resolve_requester k pr = Inr rq \<and> a = a0\<lparr>requested_by := rq\<rparr> \<and> ev_action ev = a \<and> active_policy k a \<and>
    ev_facts ev = Some f \<and> d_risk (ev_decision ev) = Some risk \<and> ra_band risk \<noteq> CRITICAL \<and>
    (\<forall>r \<in> set (role_variants rq pr). \<exists>m. role_mode (policy k) (action_class a) r = Inr m \<and> m \<noteq> Never) \<and>
    mapM (\<lambda>r. resolve (frames k) (policy k) (with_role a r) (f_policy f) False) (role_variants rq pr) = Inr (outcomes ev) \<and>
    (\<forall>out \<in> set (outcomes ev). effective_mode out \<noteq> Never)"
  using assms by (rule open_sound)

lemma merge_ending_kind:
  "d_kind (ev_decision (merge_ending ev other)) =
     (if stricter (ev_decision other) (ev_decision ev) then kind_of_event (d_event (ev_decision other)) else d_kind (ev_decision ev))"
  by (simp add: merge_ending_def Let_def raise_risk_def split: option.split)

text \<open>An operation is no more permitted than its ending. A bounded operation is executed without a
  question only when both the action and its ending are, on the same facts; it is put to a person
  only when neither is refused.
\<close>

theorem assess_operation_strict:
  assumes "assess_operation H secs k a pr cost evs now preview bound = Inr ev" and "a_revert a \<noteq> None"
    and "d_kind (ev_decision ev) \<in> {Kexecute, Kask}"
  shows "\<exists>ev1 fin pr2 other. assess k a pr cost evs now preview bound = Inr ev1 \<and> ending H secs a None = Inr fin \<and>
    pr2 \<in> {pr, pr\<lparr>requester_confirmed := True\<rparr>} \<and>
    assess k (fin\<lparr>plan_id := None\<rparr>) pr2 (Some (Dec 0 0)) evs now preview None = Inr other \<and>
    d_kind (ev_decision ev1) \<in> {Kexecute, Kask} \<and> d_kind (ev_decision other) \<in> {Kexecute, Kask} \<and>
    (d_kind (ev_decision ev) = Kexecute \<longleftrightarrow> d_kind (ev_decision ev1) = Kexecute \<and> d_kind (ev_decision other) = Kexecute)"
proof -
  from assms(1) obtain ev1 where ev1: "assess k a pr cost evs now preview bound = Inr ev1"
    by (auto simp: assess_operation_def rbind_Inr_iff)
  have k1: "d_kind (ev_decision ev1) \<in> {Kexecute, Kask}"
    using assms ev1 by (auto simp: assess_operation_def split: if_split_asm)
  define pr2 where "pr2 = (if action_class a = ''security.door_unlock'' \<and> d_event (ev_decision ev1) \<noteq> ASK_REQUESTER_CONFIRMATION
                 then pr\<lparr>requester_confirmed := True\<rparr> else pr)"
  obtain fin other where fin: "ending H secs a None = Inr fin"
    and other: "assess k (fin\<lparr>plan_id := None\<rparr>) pr2 (Some (Dec 0 0)) evs now preview None = Inr other"
    and ev: "ev = merge_ending ev1 other"
    using assms(1,2) ev1 k1 by (auto simp: assess_operation_def rbind_Inr_iff pr2_def [symmetric])
  have c: "kind_of_event (d_event (ev_decision other)) = d_kind (ev_decision other)"
    using assess_coherent [OF other] by (simp add: coherent_def)
  have "d_kind (ev_decision other) \<in> {Kexecute, Kask} \<and>
    (d_kind (ev_decision ev) = Kexecute \<longleftrightarrow> d_kind (ev_decision ev1) = Kexecute \<and> d_kind (ev_decision other) = Kexecute)"
    using assms(3) k1 c unfolding ev merge_ending_kind c stricter_def
    by (cases "d_kind (ev_decision other)") (auto split: if_split_asm)
  then show ?thesis using ev1 fin other k1 by (intro exI [of _ ev1] exI [of _ fin] exI [of _ pr2] exI [of _ other]) (simp add: pr2_def)
qed


section \<open>A lamp in a household\<close>

definition central :: "string \<Rightarrow> int \<Rightarrow> int" where
  "central z t = - 18000 * us_per_second"

definition lamp_requester :: requester where
  "lamp_requester = \<lparr>member_id = Some ''m'', rq_role = Adult, rq_surface = App, speaker = None, claimed_author = None\<rparr>"

definition lamp_desk :: desk where
  "lamp_desk = \<lparr>frames = 40, tz = central, policy = quinn_home, compiled_policy = ''p'', require_active = True,
     active_version = Some \<lparr>vr_version = 7, vr_status = ''active'', vr_compiled = ''p''\<rparr>,
     resolve_requester = (\<lambda>_. Inr lamp_requester), prepare_constraint = (\<lambda>_ _ _. Inr ()), prepare_memory = (\<lambda>_ _. Inr ()),
     prepare_companion = (\<lambda>_ _. Inr ()), prepare_tool = (\<lambda>_ _. Inr ()), prepare_mutation = (\<lambda>_ _. Inr ()),
     plan_authority = (\<lambda>_ _. Inr ()), budget_scope = (\<lambda>_. Inr None), take_snapshot = (\<lambda>_. Inr (lamp_home two_readings)),
     clock_first = 1791930900000000, clock_second = 1791930900000000, usage_of = (\<lambda>_ _. Dec 0 0),
     confirmed = (\<lambda>_ _. False)\<rparr>"

definition app_user :: principal where
  "app_user = \<lparr>provider = ''apple'', sub = ''s1'', p_surface = App, claimed_role = None, requester_confirmed = False,
     passkey_verified = False, verified_action_hash = None, credential_id = None\<rparr>"

text \<open>The lamp for ten minutes.\<close>

definition lamp_on :: action where
  "lamp_on = lamp_action\<lparr>params := [(''on'', PBool True)], content_hash := ''sha256:d'', scheduled_for := Some 1791930900000000,
     expected_effect := Some \<lparr>ef_entity = ''light.living_room'', ef_attr = ''on'', ef_value = PBool True, ef_by = 1791930910000000\<rparr>,
     a_revert := Some \<lparr>after_s = PInt 600, inverse = \<lparr>inv_class = ''environment.lights'',
        inv_target = \<lparr>adapter = ''twin'', entity = ''light.living_room'', zone = None, zone_set = False\<rparr>,
        inv_params = [(''on'', PBool False)]\<rparr>\<rparr>\<rparr>"

definition kind_of_result :: "evaluation result \<Rightarrow> kind option" where
  "kind_of_result r = (case r of Inl _ \<Rightarrow> None | Inr ev \<Rightarrow> Some (d_kind (ev_decision ev)))"

lemma kind_of_result_Some: "kind_of_result r = Some c \<Longrightarrow> \<exists>ev. r = Inr ev \<and> d_kind (ev_decision ev) = c"
  by (auto simp: kind_of_result_def split: sum.split_asm)

lemma lamp_executes:
  "kind_of_result (assess lamp_desk lamp_on app_user None [] 1791930900000000 None None) = Some Kexecute"
  by code_simp

lemma lamp_operation_executes:
  "kind_of_result (assess_operation sample_hash sample_secs lamp_desk lamp_on app_user None [] 1791930900000000 None None) = Some Kexecute"
  by code_simp


theorem assess_execute_iff_witness:
  "\<exists>ev risk f. assess lamp_desk lamp_on app_user None [] 1791930900000000 None None = Inr ev \<and>
     d_kind (ev_decision ev) = Kexecute \<and> outcomes ev \<noteq> [] \<and> d_risk (ev_decision ev) = Some risk \<and> ra_band risk < HIGH \<and>
     ev_facts ev = Some f \<and> \<not> paused f \<and> \<not> quiet f"
proof -
  obtain ev where ev: "assess lamp_desk lamp_on app_user None [] 1791930900000000 None None = Inr ev"
    and e: "d_kind (ev_decision ev) = Kexecute"
    using kind_of_result_Some [OF lamp_executes] by blast
  have "\<not> governance_class (action_class lamp_on)" by code_simp
  with e assess_execute_iff [OF ev] have "outcomes ev \<noteq> [] \<and> (\<exists>risk f. d_risk (ev_decision ev) = Some risk \<and> ra_band risk < HIGH \<and>
     ev_facts ev = Some f \<and> \<not> paused f \<and> \<not> quiet f)" by blast
  with ev e show ?thesis by blast
qed

theorem assess_open_sound_witness:
  "\<exists>ev f. assess lamp_desk lamp_on app_user None [] 1791930900000000 None None = Inr ev \<and> ev_facts ev = Some f \<and>
     active_policy lamp_desk (lamp_on\<lparr>requested_by := lamp_requester\<rparr>) \<and>
     mapM (\<lambda>r. resolve 40 quinn_home (with_role (lamp_on\<lparr>requested_by := lamp_requester\<rparr>) r) (f_policy f) False) [Adult] = Inr (outcomes ev)"
proof -
  obtain ev where ev: "assess lamp_desk lamp_on app_user None [] 1791930900000000 None None = Inr ev"
    and e: "d_kind (ev_decision ev) \<in> {Kexecute, Kask}"
    using kind_of_result_Some [OF lamp_executes] by blast
  have s: "frames lamp_desk = 40" "policy lamp_desk = quinn_home" "resolve_requester lamp_desk app_user = Inr lamp_requester"
    "role_variants lamp_requester app_user = [Adult]"
    by (simp_all add: lamp_desk_def role_variants_def app_user_def lamp_requester_def)
  from assess_open_sound [OF ev e] show ?thesis unfolding s using ev by (elim exE conjE) (simp add: s(4))
qed

theorem assess_operation_strict_witness:
  "\<exists>ev fin pr2 other. assess_operation sample_hash sample_secs lamp_desk lamp_on app_user None [] 1791930900000000 None None = Inr ev \<and>
     ending sample_hash sample_secs lamp_on None = Inr fin \<and>
     assess lamp_desk (fin\<lparr>plan_id := None\<rparr>) pr2 (Some (Dec 0 0)) [] 1791930900000000 None None = Inr other \<and>
     d_kind (ev_decision other) = Kexecute"
proof -
  obtain ev where ev: "assess_operation sample_hash sample_secs lamp_desk lamp_on app_user None [] 1791930900000000 None None = Inr ev"
    and e: "d_kind (ev_decision ev) = Kexecute"
    using kind_of_result_Some [OF lamp_operation_executes] by blast
  have r: "a_revert lamp_on \<noteq> None" by (simp add: lamp_on_def)
  from e have i: "d_kind (ev_decision ev) \<in> {Kexecute, Kask}" by simp
  from assess_operation_strict [OF ev r i] e ev show ?thesis by blast
qed

end
