(* ===== verification/Audit_Log.thy ===== *)
theory Audit_Log
  imports Models Wire
begin

text \<open>
  The signed audit log: the transactional writer of \<open>hirz/pipeline/audit.py\<close> and the verifier of
  \<open>hirz/audit/__init__.py\<close>. The digest \<open>H\<close> (SHA-256 of canonical JSON), the signature function
  \<open>sign\<close> of the writer's private key and the check \<open>ver\<close> of the public key are parameters; what
  is used of them is stated as hypotheses: signatures verify, digests have their format, and, for
  tamper evidence alone, digests do not collide. A payload that has no canonical JSON is refused by the
  writer, and the verifier hashes a payload as the database gives it back (\<open>jsonb\<close>), so a payload
  holding a float of 10^16 or more is written but never verifies.
\<close>

section \<open>Rows\<close>

record audit_row =
  r_household :: string
  r_seq :: int
  r_event :: string
  r_payload :: pv
  prev_hash :: string
  curr_hash :: string
  key_fingerprint :: string
  signature :: string
  created_at :: int

text \<open>The tables of one household: the log in sequence order, and the pointer to its head.\<close>

record audit_db =
  log :: "audit_row list"
  pointer :: "(int \<times> string) option"

definition ZERO :: string where
  "ZERO = replicate 64 (CHR ''0'')"

text \<open>What is hashed and signed; an instant stands for its canonical timestamp.\<close>

definition envelope :: "string \<Rightarrow> int \<Rightarrow> string \<Rightarrow> pv \<Rightarrow> string \<Rightarrow> string \<Rightarrow> int \<Rightarrow> pv" where
  "envelope hid sq ev pl prev fp at' = PDict
     [(''household_id'', PStr hid), (''seq'', PInt sq), (''event_type'', PStr ev), (''payload'', pl),
      (''prev_hash'', PStr prev), (''key_fingerprint'', PStr fp), (''created_at'', stamp at')]"

definition row_envelope :: "audit_row \<Rightarrow> pv" where
  "row_envelope r = envelope (r_household r) (r_seq r) (r_event r) (r_payload r) (prev_hash r) (key_fingerprint r) (created_at r)"

section \<open>The writer\<close>

text \<open>\<open>PipelineError\<close> with its reason, or the \<open>ValueError\<close> of data that is not canonical; nothing is written then.\<close>

datatype audit_exn = Invalid_pointer | Unordered_batch | Invalid_data

text \<open>An event to append; the payload of a decision carries the sequence number it is stored under.\<close>

type_synonym audit_event = "int \<times> string \<times> (int \<Rightarrow> pv)"

text \<open>Where the next row goes: after a checked head, or at the start of an empty log.\<close>

definition next_position :: "string \<Rightarrow> int \<Rightarrow> audit_db \<Rightarrow> audit_exn + (int \<times> string)" where
  "next_position fp at' db =
     (let head = (if log db = [] then None else Some (last (log db))) in
      case pointer db of
        None \<Rightarrow> if head = None then Inr (1, ZERO) else Inl Invalid_pointer
      | Some (pseq, phash) \<Rightarrow>
          let sq = pseq + 1 in
          (case head of
             None \<Rightarrow> if sq \<noteq> 1 \<or> phash \<noteq> ZERO then Inl Invalid_pointer else Inr (sq, phash)
           | Some h \<Rightarrow>
               if r_seq h \<noteq> sq - 1 \<or> curr_hash h \<noteq> phash \<or> key_fingerprint h \<noteq> fp \<or> created_at h > at'
               then Inl Invalid_pointer else Inr (sq, phash)))"

fun write_rows ::
  "(pv \<Rightarrow> string) \<Rightarrow> (string \<Rightarrow> string) \<Rightarrow> string \<Rightarrow> string \<Rightarrow> audit_event list \<Rightarrow> int \<Rightarrow> string \<Rightarrow> int
     \<Rightarrow> audit_exn + audit_row list"
where
  "write_rows H sign fp hid [] sq prev before = Inr []"
| "write_rows H sign fp hid ((at', ev, pl) # es) sq prev before =
     (if at' < before then Inl Unordered_batch
      else if \<not> canonical (envelope hid sq ev (pl sq) prev fp at') then Inl Invalid_data
      else
        let cur = H (envelope hid sq ev (pl sq) prev fp at');
            r = \<lparr>r_household = hid, r_seq = sq, r_event = ev, r_payload = pl sq, prev_hash = prev,
                 curr_hash = cur, key_fingerprint = fp, signature = sign cur, created_at = at'\<rparr>
        in rbind (write_rows H sign fp hid es (sq + 1) cur at') (\<lambda>rs. Inr (r # rs)))"

definition append_many ::
  "(pv \<Rightarrow> string) \<Rightarrow> (string \<Rightarrow> string) \<Rightarrow> string \<Rightarrow> string \<Rightarrow> audit_event list \<Rightarrow> audit_db
     \<Rightarrow> audit_exn + (int list \<times> audit_db)"
where
  "append_many H sign fp hid es db =
     (case es of
        [] \<Rightarrow> Inr ([], db)
      | (at', _, _) # _ \<Rightarrow>
          rbind (next_position fp at' db) (\<lambda>(sq, prev).
          rbind (write_rows H sign fp hid es sq prev at') (\<lambda>rs.
            Inr (map r_seq rs, \<lparr>log = log db @ rs, pointer = Some (r_seq (last rs), curr_hash (last rs))\<rparr>))))"

definition append_one ::
  "(pv \<Rightarrow> string) \<Rightarrow> (string \<Rightarrow> string) \<Rightarrow> string \<Rightarrow> string \<Rightarrow> int \<Rightarrow> string \<Rightarrow> (int \<Rightarrow> pv) \<Rightarrow> audit_db
     \<Rightarrow> audit_exn + (int \<times> audit_db)"
where
  "append_one H sign fp hid at' ev pl db =
     rbind (append_many H sign fp hid [(at', ev, pl)] db) (\<lambda>(sqs, db'). Inr (hd sqs, db'))"

section \<open>The verifier\<close>

definition is_hex :: "char \<Rightarrow> bool" where
  "is_hex c \<longleftrightarrow> is_digit c \<or> c \<in> set ''abcdef''"

definition hex64 :: "string \<Rightarrow> bool" where
  "hex64 s \<longleftrightarrow> length s = 64 \<and> list_all is_hex s"

text \<open>The field constraints of \<open>AuditEvent\<close>.\<close>

definition valid_row :: "audit_row \<Rightarrow> bool" where
  "valid_row r \<longleftrightarrow> 0 < r_seq r \<and> r_event r \<noteq> [] \<and> (\<exists>d. r_payload r = PDict d) \<and> hex64 (prev_hash r) \<and>
     hex64 (curr_hash r) \<and> hex64 (key_fingerprint r) \<and> signature r \<noteq> []"

datatype audit_fail = Malformed | Invalid_canonical | Household_mismatch | Noncontiguous | Prev_mismatch | Time_backwards
  | Untrusted_key | Hash_mismatch | Bad_signature | Missing_genesis | Pointer_mismatch | Bad_range | Unknown_household

record checker =
  ck_household :: string
  ck_fingerprint :: string
  ck_count :: nat
  ck_first :: "int option"
  ck_last :: "audit_row option"

definition new_checker :: "string \<Rightarrow> string \<Rightarrow> checker" where
  "new_checker hid fp = \<lparr>ck_household = hid, ck_fingerprint = fp, ck_count = 0, ck_first = None, ck_last = None\<rparr>"

definition valid_row_exec :: "audit_row \<Rightarrow> bool" where
  "valid_row_exec r = (0 < r_seq r \<and> r_event r \<noteq> [] \<and> (case r_payload r of PDict _ \<Rightarrow> True | _ \<Rightarrow> False) \<and>
     hex64 (prev_hash r) \<and> hex64 (curr_hash r) \<and> hex64 (key_fingerprint r) \<and> signature r \<noteq> [])"

lemma valid_row_code [code]: "valid_row r = valid_row_exec r"
  unfolding valid_row_def valid_row_exec_def by (cases "r_payload r") auto

definition feed ::
  "(pv \<Rightarrow> string) \<Rightarrow> (string \<Rightarrow> string \<Rightarrow> bool) \<Rightarrow> audit_row \<Rightarrow> checker \<Rightarrow> audit_fail + checker"
where
  "feed H ver r ck =
     rbind (guard Malformed (valid_row r)) (\<lambda>_.
     rbind (guard Household_mismatch (r_household r = ck_household ck)) (\<lambda>_.
     rbind (guard Noncontiguous (case ck_last ck of None \<Rightarrow> True | Some l \<Rightarrow> r_seq r = r_seq l + 1)) (\<lambda>_.
     rbind (guard Prev_mismatch (\<not> (r_seq r = 1 \<and> prev_hash r \<noteq> ZERO) \<and>
              (case ck_last ck of None \<Rightarrow> True | Some l \<Rightarrow> prev_hash r = curr_hash l))) (\<lambda>_.
     rbind (guard Time_backwards (case ck_last ck of None \<Rightarrow> True | Some l \<Rightarrow> \<not> created_at r < created_at l)) (\<lambda>_.
     rbind (guard Untrusted_key (key_fingerprint r = ck_fingerprint ck)) (\<lambda>_.
     rbind (guard Invalid_canonical (canonical (row_envelope r))) (\<lambda>_.
     rbind (guard Hash_mismatch (H (row_envelope r) = curr_hash r)) (\<lambda>_.
     rbind (guard Bad_signature (ver (signature r) (curr_hash r))) (\<lambda>_.
       Inr (ck\<lparr>ck_first := (case ck_first ck of None \<Rightarrow> Some (r_seq r) | Some f \<Rightarrow> Some f),
               ck_last := Some r, ck_count := ck_count ck + 1\<rparr>))))))))))"

text \<open>A row as the database gives it back.\<close>

definition read_row :: "audit_row \<Rightarrow> audit_row" where
  "read_row r = r\<lparr>r_payload := jsonb (r_payload r)\<rparr>"

text \<open>One row of the stream of \<open>verify_database\<close>.\<close>

definition feed_chain ::
  "(pv \<Rightarrow> string) \<Rightarrow> (string \<Rightarrow> string \<Rightarrow> bool) \<Rightarrow> audit_row \<Rightarrow> checker \<Rightarrow> audit_fail + checker"
where
  "feed_chain H ver r ck =
     rbind (guard Missing_genesis (\<not> (ck_last ck = None \<and> r_seq r \<noteq> 1))) (\<lambda>_. feed H ver r ck)"

definition pointer_matches :: "checker \<Rightarrow> audit_db \<Rightarrow> bool" where
  "pointer_matches ck db =
     (let hs = (case ck_last ck of None \<Rightarrow> 0 | Some l \<Rightarrow> r_seq l);
          hh = (case ck_last ck of None \<Rightarrow> ZERO | Some l \<Rightarrow> curr_hash l)
      in case pointer db of None \<Rightarrow> ck_count ck = 0 | Some (ps, ph) \<Rightarrow> ps = hs \<and> ph = hh)"

definition verify_database ::
  "(pv \<Rightarrow> string) \<Rightarrow> (string \<Rightarrow> string \<Rightarrow> bool) \<Rightarrow> string \<Rightarrow> string \<Rightarrow> bool \<Rightarrow> (int \<times> int) option \<Rightarrow> audit_db
     \<Rightarrow> audit_fail + (checker \<times> audit_row list)"
where
  "verify_database H ver hid fp known selected db =
     rbind (guard Unknown_household known) (\<lambda>_.
     rbind (foldM (feed_chain H ver) (map read_row (log db)) (new_checker hid fp)) (\<lambda>ck.
     rbind (guard Pointer_mismatch (pointer_matches ck db)) (\<lambda>_.
     rbind (guard Bad_range (case selected of None \<Rightarrow> True
              | Some (lo, hi) \<Rightarrow> 1 \<le> lo \<and> lo \<le> hi \<and>
                  hi \<le> (case ck_last ck of None \<Rightarrow> 0 | Some l \<Rightarrow> r_seq l))) (\<lambda>_.
       Inr (ck, filter (\<lambda>r. case selected of None \<Rightarrow> True | Some (lo, hi) \<Rightarrow> lo \<le> r_seq r \<and> r_seq r \<le> hi) (map read_row (log db)))))))"

section \<open>Chains\<close>

text \<open>What the verifier accepts, as a predicate on the rows from position \<open>n\<close> after \<open>prev\<close>.\<close>

fun chain ::
  "(pv \<Rightarrow> string) \<Rightarrow> (string \<Rightarrow> string \<Rightarrow> bool) \<Rightarrow> string \<Rightarrow> string \<Rightarrow> int \<Rightarrow> string \<Rightarrow> int option \<Rightarrow> audit_row list \<Rightarrow> bool"
where
  "chain H ver hid fp n prev before [] = True"
| "chain H ver hid fp n prev before (r # rs) =
     (valid_row r \<and> r_household r = hid \<and> r_seq r = n \<and> prev_hash r = prev \<and>
      (case before of None \<Rightarrow> True | Some t \<Rightarrow> t \<le> created_at r) \<and> key_fingerprint r = fp \<and>
      canonical (row_envelope r) \<and> H (row_envelope r) = curr_hash r \<and> ver (signature r) (curr_hash r) \<and>
      chain H ver hid fp (n + 1) (curr_hash r) (Some (created_at r)) rs)"

lemma chain_append:
  "chain H ver hid fp n prev before (rs @ ss) \<longleftrightarrow>
     chain H ver hid fp n prev before rs \<and>
     (if rs = [] then chain H ver hid fp n prev before ss
      else chain H ver hid fp (n + int (length rs)) (curr_hash (last rs)) (Some (created_at (last rs))) ss)"
  by (induction rs arbitrary: n prev before) (auto simp: add_ac)

lemma chain_seqs: "chain H ver hid fp n prev before rs \<Longrightarrow> map r_seq rs = map (\<lambda>i. n + int i) [0 ..< length rs]"
proof (induction rs arbitrary: n prev before)
  case (Cons r rs)
  then have "map r_seq rs = map (\<lambda>i. n + 1 + int i) [0 ..< length rs]" and "r_seq r = n" by auto
  then show ?case by (simp add: upt_conv_Cons map_Suc_upt [symmetric] add_ac del: upt_Suc)
qed simp

text \<open>Feeding a checker that stands after \<open>l\<close>.\<close>

lemma feed_step:
  assumes "ck_household ck = hid" "ck_fingerprint ck = fp" "ck_last ck = Some l" "0 < r_seq l"
  shows "feed_chain H ver r ck = Inr x \<longleftrightarrow>
      (valid_row r \<and> r_household r = hid \<and> r_seq r = r_seq l + 1 \<and> prev_hash r = curr_hash l \<and>
       created_at l \<le> created_at r \<and> key_fingerprint r = fp \<and> canonical (row_envelope r) \<and> H (row_envelope r) = curr_hash r \<and> ver (signature r) (curr_hash r)) \<and>
      x = ck\<lparr>ck_first := (case ck_first ck of None \<Rightarrow> Some (r_seq r) | Some f \<Rightarrow> Some f), ck_last := Some r,
        ck_count := ck_count ck + 1\<rparr>"
  using assms by (auto simp: feed_chain_def feed_def rbind_Inr_iff)

lemma feed_after:
  assumes "ck_household ck = hid" "ck_fingerprint ck = fp" "ck_last ck = Some l" "0 < r_seq l"
  shows "((\<exists>ck'. foldM (feed_chain H ver) rs ck = Inr ck') \<longleftrightarrow>
          chain H ver hid fp (r_seq l + 1) (curr_hash l) (Some (created_at l)) rs) \<and>
         (\<forall>ck'. foldM (feed_chain H ver) rs ck = Inr ck' \<longrightarrow>
            ck_last ck' = Some (last (l # rs)) \<and> ck_count ck' = ck_count ck + length rs)"
  using assms
proof (induction rs arbitrary: ck l)
  case (Cons r rs)
  note f = feed_step [OF Cons.prems, of H ver r]
  let ?ck = "ck\<lparr>ck_first := (case ck_first ck of None \<Rightarrow> Some (r_seq r) | Some f \<Rightarrow> Some f), ck_last := Some r,
      ck_count := ck_count ck + 1\<rparr>"
  show ?case
  proof (cases "\<exists>x. feed_chain H ver r ck = Inr x")
    case True
    then have x: "feed_chain H ver r ck = Inr ?ck" using f by blast
    then have ok: "valid_row r \<and> r_household r = hid \<and> r_seq r = r_seq l + 1 \<and> prev_hash r = curr_hash l \<and>
       created_at l \<le> created_at r \<and> key_fingerprint r = fp \<and> canonical (row_envelope r) \<and> H (row_envelope r) = curr_hash r \<and> ver (signature r) (curr_hash r)"
      using f by blast
    have "((\<exists>ck'. foldM (feed_chain H ver) rs ?ck = Inr ck') \<longleftrightarrow>
          chain H ver hid fp (r_seq r + 1) (curr_hash r) (Some (created_at r)) rs) \<and>
         (\<forall>ck'. foldM (feed_chain H ver) rs ?ck = Inr ck' \<longrightarrow>
            ck_last ck' = Some (last (r # rs)) \<and> ck_count ck' = ck_count ?ck + length rs)"
      using Cons.prems ok by (intro Cons.IH) simp_all
    then show ?thesis using x ok by simp
  next
    case False
    then have "\<not> chain H ver hid fp (r_seq l + 1) (curr_hash l) (Some (created_at l)) (r # rs)"
      using f by auto
    moreover from False have "\<not> (\<exists>ck'. foldM (feed_chain H ver) (r # rs) ck = Inr ck')"
      by (auto simp: rbind_Inr_iff)
    ultimately show ?thesis by blast
  qed
qed simp

lemma feed_first:
  "feed_chain H ver r (new_checker hid fp) = Inr x \<longleftrightarrow>
      (valid_row r \<and> r_household r = hid \<and> r_seq r = 1 \<and> prev_hash r = ZERO \<and> key_fingerprint r = fp \<and>
       canonical (row_envelope r) \<and> H (row_envelope r) = curr_hash r \<and> ver (signature r) (curr_hash r)) \<and>
      x = (new_checker hid fp)\<lparr>ck_first := Some (r_seq r), ck_last := Some r, ck_count := 1\<rparr>"
  by (auto simp: feed_chain_def feed_def rbind_Inr_iff new_checker_def)

text \<open>The stream check accepts exactly the chains from genesis.\<close>

lemma feed_all:
  "((\<exists>ck. foldM (feed_chain H ver) rs (new_checker hid fp) = Inr ck) \<longleftrightarrow> chain H ver hid fp 1 ZERO None rs) \<and>
   (\<forall>ck. foldM (feed_chain H ver) rs (new_checker hid fp) = Inr ck \<longrightarrow>
      ck_last ck = (if rs = [] then None else Some (last rs)) \<and> ck_count ck = length rs)"
proof (cases rs)
  case (Cons r ss)
  note f = feed_first [of H ver r hid fp]
  let ?ck = "(new_checker hid fp)\<lparr>ck_first := Some (r_seq r), ck_last := Some r, ck_count := 1\<rparr>"
  show ?thesis
  proof (cases "\<exists>x. feed_chain H ver r (new_checker hid fp) = Inr x")
    case True
    then have x: "feed_chain H ver r (new_checker hid fp) = Inr ?ck" using f by blast
    then have ok: "valid_row r \<and> r_household r = hid \<and> r_seq r = 1 \<and> prev_hash r = ZERO \<and> key_fingerprint r = fp \<and>
       canonical (row_envelope r) \<and> H (row_envelope r) = curr_hash r \<and> ver (signature r) (curr_hash r)" using f by blast
    have "((\<exists>ck'. foldM (feed_chain H ver) ss ?ck = Inr ck') \<longleftrightarrow>
          chain H ver hid fp (r_seq r + 1) (curr_hash r) (Some (created_at r)) ss) \<and>
         (\<forall>ck'. foldM (feed_chain H ver) ss ?ck = Inr ck' \<longrightarrow>
            ck_last ck' = Some (last (r # ss)) \<and> ck_count ck' = ck_count ?ck + length ss)"
      using ok by (intro feed_after) (simp_all add: new_checker_def)
    then show ?thesis using x ok Cons by simp
  next
    case False
    then have "\<not> chain H ver hid fp 1 ZERO None rs" using f Cons by auto
    moreover from False have "\<not> (\<exists>ck. foldM (feed_chain H ver) rs (new_checker hid fp) = Inr ck)"
      by (auto simp: rbind_Inr_iff Cons)
    ultimately show ?thesis by blast
  qed
qed (simp add: new_checker_def)

text \<open>The invariant of the tables: a chain from genesis, and a pointer at its head.\<close>

definition audit_ok :: "(pv \<Rightarrow> string) \<Rightarrow> (string \<Rightarrow> string \<Rightarrow> bool) \<Rightarrow> string \<Rightarrow> string \<Rightarrow> audit_db \<Rightarrow> bool" where
  "audit_ok H ver hid fp db \<longleftrightarrow> chain H ver hid fp 1 ZERO None (log db) \<and>
     (case pointer db of
        None \<Rightarrow> log db = []
      | Some (ps, ph) \<Rightarrow> ps = int (length (log db)) \<and> ph = (if log db = [] then ZERO else curr_hash (last (log db))))"

lemma last_seq: "chain H ver hid fp n prev before rs \<Longrightarrow> rs \<noteq> [] \<Longrightarrow> r_seq (last rs) = n + int (length rs) - 1"
  by (induction rs arbitrary: n prev before) auto

text \<open>Rows that are read back as they were written; a canonical row that is not cannot be verified.\<close>

definition plain_log :: "audit_db \<Rightarrow> bool" where
  "plain_log db \<longleftrightarrow> (\<forall>r \<in> set (log db). jsonb (r_payload r) = r_payload r)"

lemma row_envelope_canonical: "canonical (row_envelope r) \<longleftrightarrow> wire_int (r_seq r) \<and> canonical (r_payload r)"
  by (simp add: row_envelope_def envelope_def)

lemma read_row_plain: "canonical (row_envelope (read_row r)) \<Longrightarrow> jsonb (r_payload r) = r_payload r"
  using jsonb_canonical [of "r_payload r"] by (auto simp: row_envelope_canonical read_row_def)

lemma read_row_id: "jsonb (r_payload r) = r_payload r \<Longrightarrow> read_row r = r"
  by (simp add: read_row_def)

lemma plain_log_read: "plain_log db \<Longrightarrow> map read_row (log db) = log db"
  by (intro map_idI) (simp add: plain_log_def read_row_id)

lemma chain_canonical: "chain H ver hid fp n prev before rs \<Longrightarrow> r \<in> set rs \<Longrightarrow> canonical (row_envelope r)"
  by (induction rs arbitrary: n prev before) auto

lemma chain_plain: "chain H ver hid fp n prev before (map read_row (log db)) \<Longrightarrow> plain_log db"
  unfolding plain_log_def by (intro ballI read_row_plain) (rule chain_canonical, assumption, simp)

abbreviation accepts :: "(pv \<Rightarrow> string) \<Rightarrow> (string \<Rightarrow> string \<Rightarrow> bool) \<Rightarrow> string \<Rightarrow> string \<Rightarrow> audit_db \<Rightarrow> bool" where
  "accepts H ver hid fp db \<equiv> \<exists>ck rs. verify_database H ver hid fp True None db = Inr (ck, rs)"

lemma verify_database_iff: "accepts H ver hid fp db \<longleftrightarrow> audit_ok H ver hid fp db \<and> plain_log db"
proof (cases "\<exists>ck. foldM (feed_chain H ver) (map read_row (log db)) (new_checker hid fp) = Inr ck")
  case True
  then obtain ck where ck: "foldM (feed_chain H ver) (map read_row (log db)) (new_checker hid fp) = Inr ck" by blast
  then have "chain H ver hid fp 1 ZERO None (map read_row (log db))"
    using feed_all [of H ver "map read_row (log db)" hid fp] by blast
  then have p: "plain_log db" by (rule chain_plain)
  note r = plain_log_read [OF p]
  then have c: "chain H ver hid fp 1 ZERO None (log db)" and l: "ck_last ck = (if log db = [] then None else Some (last (log db)))"
    "ck_count ck = length (log db)"
    using ck feed_all [of H ver "log db" hid fp] by (simp_all only: r) blast+
  have "pointer_matches ck db \<longleftrightarrow> (case pointer db of None \<Rightarrow> log db = []
      | Some (ps, ph) \<Rightarrow> ps = int (length (log db)) \<and> ph = (if log db = [] then ZERO else curr_hash (last (log db))))"
    using last_seq [OF c] by (simp add: pointer_matches_def l Let_def split: option.split)
  then show ?thesis
    using ck c p by (auto simp: verify_database_def audit_ok_def guard_def)
next
  case False
  then have "\<not> chain H ver hid fp 1 ZERO None (map read_row (log db))"
    using feed_all [of H ver "map read_row (log db)" hid fp] by blast
  then have "\<not> (audit_ok H ver hid fp db \<and> plain_log db)" using plain_log_read by (auto simp: audit_ok_def)
  moreover from False have "\<not> accepts H ver hid fp db"
    by (auto simp: verify_database_def rbind_Inr_iff)
  ultimately show ?thesis by blast
qed

section \<open>Writing keeps the invariant\<close>

text \<open>What is used of the cryptography: formats, and that a signature of the key verifies.\<close>

definition crypto_ok :: "(pv \<Rightarrow> string) \<Rightarrow> (string \<Rightarrow> string) \<Rightarrow> (string \<Rightarrow> string \<Rightarrow> bool) \<Rightarrow> string \<Rightarrow> bool" where
  "crypto_ok H sign ver fp \<longleftrightarrow> (\<forall>v. hex64 (H v)) \<and> (\<forall>h. ver (sign h) h) \<and> (\<forall>h. sign h \<noteq> []) \<and> hex64 fp"

definition valid_event :: "audit_event \<Rightarrow> bool" where
  "valid_event e \<longleftrightarrow> fst (snd e) \<noteq> [] \<and> (\<forall>n. \<exists>d. snd (snd e) n = PDict d)"

definition stored :: "audit_row \<Rightarrow> int \<times> string \<times> pv" where
  "stored r = (created_at r, r_event r, r_payload r)"

definition stores :: "int \<Rightarrow> audit_event \<Rightarrow> int \<times> string \<times> pv" where
  "stores n e = (fst e, fst (snd e), snd (snd e) n)"

fun ordered_from :: "int \<Rightarrow> audit_event list \<Rightarrow> bool" where
  "ordered_from t [] = True"
| "ordered_from t (e # es) = (t \<le> fst e \<and> ordered_from (fst e) es)"

lemma hex64_ZERO: "hex64 ZERO"
  by code_simp

lemma write_rows_Inr:
  assumes "crypto_ok H sign ver fp" and "list_all valid_event es" and "hex64 prev" and "0 < sq"
    and "write_rows H sign fp hid es sq prev before = Inr rs"
  shows "chain H ver hid fp sq prev (Some before) rs \<and> length rs = length es \<and>
    map stored rs = map (\<lambda>(i, e). stores (sq + int i) e) (enumerate 0 es)"
  using assms(2-5)
proof (induction es arbitrary: sq prev before rs)
  case (Cons e es)
  obtain t ev pl where e: "e = (t, ev, pl)" by (cases e)
  let ?cur = "H (envelope hid sq ev (pl sq) prev fp t)"
  let ?r = "\<lparr>r_household = hid, r_seq = sq, r_event = ev, r_payload = pl sq, prev_hash = prev,
                 curr_hash = ?cur, key_fingerprint = fp, signature = sign ?cur, created_at = t\<rparr>"
  from Cons.prems(4) e obtain rs' where w: "write_rows H sign fp hid es (sq + 1) ?cur t = Inr rs'"
    and rs: "rs = ?r # rs'" and t: "before \<le> t"
    by (auto simp: rbind_Inr_iff Let_def split: if_split_asm)
  have "chain H ver hid fp (sq + 1) ?cur (Some t) rs' \<and> length rs' = length es \<and>
      map stored rs' = map (\<lambda>(i, e). stores (sq + 1 + int i) e) (enumerate 0 es)"
    using Cons.prems assms(1) w by (intro Cons.IH) (simp_all add: crypto_ok_def)
  moreover have "map (\<lambda>(i, e). stores (sq + 1 + int i) e) (enumerate 0 es) =
      map (\<lambda>(i, e). stores (sq + int i) e) (enumerate (Suc 0) es)"
    by (simp add: enumerate_Suc_eq comp_def case_prod_beta add_ac)
  moreover have "canonical (row_envelope ?r)"
    using Cons.prems(4) by (auto simp: e row_envelope_def split: if_split_asm)
  moreover have "valid_row ?r"
    using Cons.prems assms(1) by (auto simp: valid_row_def crypto_ok_def valid_event_def e)
  moreover have "stored ?r = stores sq e" by (simp add: stored_def stores_def e)
  ultimately show ?case
    using assms(1) t by (simp add: rs row_envelope_def crypto_ok_def)
qed simp

text \<open>The payloads of a batch, each under its own number.\<close>

fun payloads :: "int \<Rightarrow> audit_event list \<Rightarrow> pv list" where
  "payloads n [] = []"
| "payloads n (e # es) = snd (snd e) n # payloads (n + 1) es"

lemma payloads_stored:
  "map stored rs = map (\<lambda>(i, e). stores (n + int i) e) (enumerate k es) \<Longrightarrow> map r_payload rs = payloads (n + int k) es"
proof (induction es arbitrary: rs k)
  case (Cons e es)
  then obtain r rs' where rs: "rs = r # rs'" "stored r = stores (n + int k) e"
    and st: "map stored rs' = map (\<lambda>(i, e). stores (n + int i) e) (enumerate (Suc k) es)"
    by (cases rs) auto
  from Cons.IH [OF st] rs(2) show ?case by (simp add: rs(1) stored_def stores_def add_ac)
qed simp

text \<open>A batch is written exactly when its payloads are canonical.\<close>

lemma write_rows_total:
  assumes "ordered_from before es" and "0 < sq" and "sq + int (length es) \<le> 9007199254740992"
  shows "if list_all canonical (payloads sq es) then \<exists>rs. write_rows H sign fp hid es sq prev before = Inr rs
    else write_rows H sign fp hid es sq prev before = Inl Invalid_data"
  using assms
proof (induction es arbitrary: sq prev before)
  case (Cons e es)
  obtain t ev pl where e: "e = (t, ev, pl)" by (cases e)
  have c: "canonical (envelope hid sq ev (pl sq) prev fp t) \<longleftrightarrow> canonical (pl sq)"
    using Cons.prems by (simp add: envelope_def wire_int_def)
  from Cons.prems e Cons.IH [of t "sq + 1" "H (envelope hid sq ev (pl sq) prev fp t)"]
  show ?case by (auto simp: Let_def c split: if_split_asm)
qed simp

lemma chain_last_fp: "chain H ver hid fp n prev before rs \<Longrightarrow> rs \<noteq> [] \<Longrightarrow> key_fingerprint (last rs) = fp \<and> hex64 (curr_hash (last rs))"
  by (induction rs arbitrary: n prev before) (auto simp: valid_row_def)

lemma next_position_ok:
  assumes "audit_ok H ver hid fp db"
  shows "next_position fp t db =
    (if log db \<noteq> [] \<and> created_at (last (log db)) > t then Inl Invalid_pointer
     else Inr (int (length (log db)) + 1, if log db = [] then ZERO else curr_hash (last (log db))))"
proof (cases "log db = []")
  case True
  with assms show ?thesis by (auto simp: next_position_def audit_ok_def Let_def split: option.split)
next
  case False
  from assms have c: "chain H ver hid fp 1 ZERO None (log db)" by (simp add: audit_ok_def)
  from False assms obtain ps ph where p: "pointer db = Some (ps, ph)" "ps = int (length (log db))"
    "ph = curr_hash (last (log db))"
    by (auto simp: audit_ok_def split: option.split_asm)
  with False last_seq [OF c False] chain_last_fp [OF c False] show ?thesis
    by (simp add: next_position_def Let_def)
qed

lemma append_many_ok:
  assumes "crypto_ok H sign ver fp" and "audit_ok H ver hid fp db" and "list_all valid_event es"
    and "append_many H sign fp hid es db = Inr (sqs, db')"
  shows "audit_ok H ver hid fp db' \<and> sqs = map (\<lambda>i. int (length (log db)) + 1 + int i) [0 ..< length es] \<and>
    (\<exists>rs. log db' = log db @ rs \<and>
       map stored rs = map (\<lambda>(i, e). stores (int (length (log db)) + 1 + int i) e) (enumerate 0 es))"
proof (cases es)
  case Nil
  with assms show ?thesis by (simp add: append_many_def)
next
  case (Cons e es')
  let ?n = "int (length (log db)) + 1" and ?prev = "if log db = [] then ZERO else curr_hash (last (log db))"
  from assms(4) Cons obtain rs where np: "next_position fp (fst e) db = Inr (?n, ?prev)"
    and w: "write_rows H sign fp hid es ?n ?prev (fst e) = Inr rs" and s: "sqs = map r_seq rs"
    and db': "db' = \<lparr>log = log db @ rs, pointer = Some (r_seq (last rs), curr_hash (last rs))\<rparr>"
    using next_position_ok [OF assms(2), of "fst e"]
    by (cases e) (auto simp: append_many_def rbind_Inr_iff split: if_split_asm)
  from assms(2) have c: "chain H ver hid fp 1 ZERO None (log db)" by (simp add: audit_ok_def)
  have "hex64 ?prev" using hex64_ZERO chain_last_fp [OF c] by auto
  from write_rows_Inr [OF assms(1,3) this _ w] have
    ch: "chain H ver hid fp ?n ?prev (Some (fst e)) rs" and len: "length rs = length es"
    and st: "map stored rs = map (\<lambda>(i, e). stores (?n + int i) e) (enumerate 0 es)" by auto
  have ne: "rs \<noteq> []" using len Cons by auto
  have "created_at (last (log db)) \<le> fst e" if "log db \<noteq> []"
    using np next_position_ok [OF assms(2), of "fst e"] that by (auto split: if_split_asm)
  moreover have "created_at (hd rs) = fst e"
    using st len Cons by (cases rs) (auto simp: stored_def stores_def)
  ultimately have "chain H ver hid fp 1 ZERO None (log db @ rs)"
    using c ch ne by (cases rs) (auto simp: chain_append add_ac)
  moreover have "r_seq (last rs) = int (length (log db)) + int (length rs)"
    using last_seq [OF ch ne] by simp
  ultimately have "audit_ok H ver hid fp db'" using ne by (simp add: audit_ok_def db')
  moreover have "sqs = map (\<lambda>i. ?n + int i) [0 ..< length es]" using chain_seqs [OF ch] s len by simp
  ultimately show ?thesis using st db' by auto
qed

lemma append_many_total:
  assumes "audit_ok H ver hid fp db" and "ordered_from (if log db = [] then (case es of [] \<Rightarrow> 0 | e # _ \<Rightarrow> fst e) else created_at (last (log db))) es"
    and "length (log db) + length es < 9007199254740992"
  shows "if list_all canonical (payloads (int (length (log db)) + 1) es) then \<exists>sqs db'. append_many H sign fp hid es db = Inr (sqs, db')
    else append_many H sign fp hid es db = Inl Invalid_data"
proof (cases es)
  case (Cons e es')
  obtain t ev pl where e: "e = (t, ev, pl)" by (cases e)
  let ?n = "int (length (log db)) + 1" and ?prev = "if log db = [] then ZERO else curr_hash (last (log db))"
  have np: "next_position fp t db = Inr (?n, ?prev)"
    using next_position_ok [OF assms(1), of t] assms(2) Cons e by (auto split: if_split_asm)
  have a: "append_many H sign fp hid es db = rbind (write_rows H sign fp hid es ?n ?prev t) (\<lambda>rs.
            Inr (map r_seq rs, \<lparr>log = log db @ rs, pointer = Some (r_seq (last rs), curr_hash (last rs))\<rparr>))"
    using np Cons e by (simp add: append_many_def)
  have "ordered_from t es" using assms(2) Cons e by simp
  moreover have "?n + int (length es) \<le> 9007199254740992" using assms(3) by linarith
  ultimately show ?thesis using write_rows_total [of t es ?n H sign fp hid ?prev] by (auto simp: a split: if_split_asm)
qed (simp add: append_many_def)

lemma envelope_inject:
  "row_envelope r = row_envelope s \<longleftrightarrow> r_household r = r_household s \<and> r_seq r = r_seq s \<and> r_event r = r_event s \<and>
     r_payload r = r_payload s \<and> prev_hash r = prev_hash s \<and> key_fingerprint r = key_fingerprint s \<and> created_at r = created_at s"
  by (auto simp: row_envelope_def envelope_def)

lemma chain_unique:
  assumes "inj_on H (row_envelope ` (set rs \<union> set ss))" and "chain H ver hid fp 1 ZERO None rs"
    and "chain H ver' hid' fp' 1 ZERO None ss" and "rs \<noteq> []" and "ss \<noteq> []" and "curr_hash (last rs) = curr_hash (last ss)"
  shows "map row_envelope rs = map row_envelope ss"
  using assms
proof (induction rs arbitrary: ss rule: rev_induct)
  case (snoc x xs)
  obtain ys y where ss: "ss = ys @ [y]" using snoc.prems(5) by (cases ss rule: rev_cases) auto
  have hx: "H (row_envelope x) = curr_hash x" and hy: "H (row_envelope y) = curr_hash y"
    using snoc.prems(2,3) ss by (auto simp: chain_append split: if_split_asm)
  with snoc.prems(6) ss have "H (row_envelope x) = H (row_envelope y)" by simp
  then have eq: "row_envelope x = row_envelope y" using ss by (intro inj_onD [OF snoc.prems(1)]) auto
  have "r_seq x = 1 + int (length xs)" "r_seq y = 1 + int (length ys)"
    using last_seq [OF snoc.prems(2)] last_seq [OF snoc.prems(3)] ss by auto
  with eq have len: "length xs = length ys" by (simp add: envelope_inject)
  show ?case
  proof (cases "xs = []")
    case True
    with len ss eq show ?thesis by simp
  next
    case False
    with len have ny: "ys \<noteq> []" by auto
    have "prev_hash x = curr_hash (last xs)" "prev_hash y = curr_hash (last ys)"
      using snoc.prems(2,3) ss False ny by (auto simp: chain_append)
    with eq have "curr_hash (last xs) = curr_hash (last ys)" by (simp add: envelope_inject)
    moreover have "chain H ver hid fp 1 ZERO None xs" "chain H ver' hid' fp' 1 ZERO None ys"
      using snoc.prems(2,3) ss by (auto simp: chain_append)
    moreover have "inj_on H (row_envelope ` (set xs \<union> set ys))"
      using snoc.prems(1) ss by (auto intro: inj_on_subset)
    ultimately have "map row_envelope xs = map row_envelope ys" using snoc.IH False ny by blast
    with eq ss show ?thesis by simp
  qed
qed simp

section \<open>The log as an interface\<close>

text \<open>
  What the components that write evidence rely on: an append stores its event under the number it
  returns, after everything stored before, and keeps the invariant.
\<close>

locale event_log =
  fixes append :: "'ev \<Rightarrow> 'st \<Rightarrow> 'err + (int \<times> 'st)"
    and entries :: "'st \<Rightarrow> 'en list"
    and entry :: "int \<Rightarrow> 'ev \<Rightarrow> 'en"
    and ok :: "'st \<Rightarrow> bool"
    and valid :: "'ev \<Rightarrow> bool"
  assumes append_ok: "\<lbrakk>ok st; valid e; append e st = Inr (n, st')\<rbrakk> \<Longrightarrow> ok st'"
    and append_entries: "\<lbrakk>ok st; valid e; append e st = Inr (n, st')\<rbrakk> \<Longrightarrow>
      entries st' = entries st @ [entry n e] \<and> n = int (length (entries st'))"
begin

lemma appends_extend:
  assumes "foldM (\<lambda>e st. rbind (append e st) (\<lambda>(n, st'). Inr st')) es st = Inr st'" and "ok st" and "list_all valid es"
  shows "ok st' \<and> (\<exists>xs. entries st' = entries st @ xs \<and> length xs = length es)"
  using assms
proof (induction es arbitrary: st)
  case (Cons e es)
  from Cons.prems(1) obtain n st1 where a: "append e st = Inr (n, st1)"
    and f: "foldM (\<lambda>e st. rbind (append e st) (\<lambda>(n, st'). Inr st')) es st1 = Inr st'"
    by (auto simp: rbind_Inr_iff)
  from Cons.prems(2,3) a have "ok st1" "entries st1 = entries st @ [entry n e]"
    using append_ok append_entries by auto
  with Cons.IH [OF f] Cons.prems(3) show ?case by auto
qed simp

lemma entry_kept:
  assumes "ok st" and "valid e" and "append e st = Inr (n, st1)" and "list_all valid es"
    and "foldM (\<lambda>e st. rbind (append e st) (\<lambda>(n, st'). Inr st')) es st1 = Inr st2"
  shows "0 < n \<and> nat n \<le> length (entries st2) \<and> entries st2 ! nat (n - 1) = entry n e"
proof -
  have e: "entries st1 = entries st @ [entry n e]" "n = int (length (entries st1))" and "ok st1"
    using append_entries append_ok assms(1-3) by blast+
  with appends_extend [OF assms(5)] assms(4) obtain xs where "entries st2 = entries st1 @ xs" by blast
  moreover have "n = int (length (entries st @ [entry n e]))" using e by metis
  ultimately show ?thesis using e(1) by (simp add: nth_append)
qed

end

lemma append_one_spec:
  assumes "crypto_ok H sign ver fp \<and> audit_ok H ver hid fp db" and "valid_event e"
    and "append_one H sign fp hid (fst e) (fst (snd e)) (snd (snd e)) db = Inr (n, db')"
  shows "crypto_ok H sign ver fp \<and> audit_ok H ver hid fp db'"
    and "map stored (log db') = map stored (log db) @ [stores n e] \<and> n = int (length (map stored (log db')))"
proof -
  from assms(3) obtain sqs where a: "append_many H sign fp hid [e] db = Inr (sqs, db')" and n: "n = hd sqs"
    by (auto simp: append_one_def rbind_Inr_iff)
  have c: "crypto_ok H sign ver fp" and o: "audit_ok H ver hid fp db" and v: "list_all valid_event [e]"
    using assms(1,2) by simp_all
  from append_many_ok [OF c o v a] obtain rs where "audit_ok H ver hid fp db'"
    and s: "sqs = [int (length (log db)) + 1]" and l: "log db' = log db @ rs"
    and st: "map stored rs = [stores (int (length (log db)) + 1) e]"
    by auto
  then show "crypto_ok H sign ver fp \<and> audit_ok H ver hid fp db'" using assms(1) by blast
  from arg_cong [OF st, of length] have "length rs = 1" by simp
  with l st s n show "map stored (log db') = map stored (log db) @ [stores n e] \<and> n = int (length (map stored (log db')))"
    by simp
qed

interpretation evidence: event_log
  "\<lambda>e. append_one H sign fp hid (fst e) (fst (snd e)) (snd (snd e))" "\<lambda>db. map stored (log db)" stores
  "\<lambda>db. crypto_ok H sign ver fp \<and> audit_ok H ver hid fp db" valid_event
  for H sign ver fp hid
  by unfold_locales (use append_one_spec in blast)+

section \<open>A concrete log\<close>

definition demo_H :: "pv \<Rightarrow> string" where
  "demo_H v = replicate 64 (CHR ''a'')"

definition demo_sign :: "string \<Rightarrow> string" where
  "demo_sign h = ''signed'' @ h"

definition demo_ver :: "string \<Rightarrow> string \<Rightarrow> bool" where
  "demo_ver sg h \<longleftrightarrow> sg = ''signed'' @ h"

definition demo_fp :: string where
  "demo_fp = replicate 64 (CHR ''b'')"

definition demo_event :: audit_event where
  "demo_event = (5, ''EXECUTE'', \<lambda>n. PDict [(''audit_id'', PInt n)])"

definition empty_log :: audit_db where
  "empty_log = \<lparr>log = [], pointer = None\<rparr>"

definition one_log :: audit_db where
  "one_log = (let cur = demo_H (envelope ''h'' 1 ''EXECUTE'' (PDict [(''audit_id'', PInt 1)]) ZERO demo_fp 5) in
     \<lparr>log = [\<lparr>r_household = ''h'', r_seq = 1, r_event = ''EXECUTE'', r_payload = PDict [(''audit_id'', PInt 1)],
       prev_hash = ZERO, curr_hash = cur, key_fingerprint = demo_fp, signature = demo_sign cur, created_at = 5\<rparr>],
      pointer = Some (1, cur)\<rparr>)"

lemma demo_crypto: "crypto_ok demo_H demo_sign demo_ver demo_fp"
proof -
  have "hex64 (replicate 64 (CHR ''a''))" "hex64 (replicate 64 (CHR ''b''))" by code_simp+
  then show ?thesis by (simp add: crypto_ok_def demo_H_def demo_sign_def demo_ver_def demo_fp_def)
qed

lemma demo_event_valid: "valid_event demo_event"
  by (simp add: valid_event_def demo_event_def)

lemma empty_log_ok: "audit_ok demo_H demo_ver ''h'' demo_fp empty_log"
  by (simp add: audit_ok_def empty_log_def)

lemma one_log_written: "append_many demo_H demo_sign demo_fp ''h'' [demo_event] empty_log = Inr ([1], one_log)"
  by (simp add: append_many_def next_position_def empty_log_def demo_event_def one_log_def Let_def envelope_def wire_int_def)

lemma one_log_ok: "audit_ok demo_H demo_ver ''h'' demo_fp one_log"
  using append_many_ok [OF demo_crypto empty_log_ok _ one_log_written] demo_event_valid by simp

lemma empty_log_accepted: "accepts demo_H demo_ver ''h'' demo_fp empty_log"
  unfolding verify_database_iff using empty_log_ok by (simp add: plain_log_def empty_log_def)

lemma one_log_accepted: "accepts demo_H demo_ver ''h'' demo_fp one_log"
  unfolding verify_database_iff using one_log_ok by (simp add: plain_log_def one_log_def Let_def)

section \<open>Properties\<close>

text \<open>
  C34: the writer and the verifier agree. On tables the verifier accepts, a batch of fewer rows than keep the
  sequence number below 2^53, whose times do not run backwards, is written when its payloads are canonical JSON
  (RFC 8785: no integer of 2^53 or more, no infinite float), and is otherwise refused as invalid data. When
  written, the new rows carry the next sequence numbers without a gap, store exactly the events of the batch and
  leave every earlier row as it was; and the verifier accepts the result exactly when the database gives the new
  payloads back as they were written, which it does unless one holds a float of 10^16 or more.
\<close>

theorem append_keeps_log_verified:
  fixes H sign ver fp hid db es
  defines "n \<equiv> int (length (log db)) + 1"
  assumes "crypto_ok H sign ver fp" and "accepts H ver hid fp db" and "list_all valid_event es"
    and "ordered_from (if log db = [] then (case es of [] \<Rightarrow> 0 | e # _ \<Rightarrow> fst e) else created_at (last (log db))) es"
    and "length (log db) + length es < 9007199254740992"
  shows "if list_all canonical (payloads n es)
    then \<exists>sqs db' rs. append_many H sign fp hid es db = Inr (sqs, db') \<and>
      sqs = map (\<lambda>i. n + int i) [0 ..< length es] \<and> log db' = log db @ rs \<and>
      map stored rs = map (\<lambda>(i, e). stores (n + int i) e) (enumerate 0 es) \<and>
      (accepts H ver hid fp db' \<longleftrightarrow> list_all (\<lambda>v. jsonb v = v) (payloads n es))
    else append_many H sign fp hid es db = Inl Invalid_data"
proof -
  have ok: "audit_ok H ver hid fp db" and p: "plain_log db" using assms(3) by (simp_all only: verify_database_iff)
  note t = append_many_total [OF ok assms(5,6), of sign, folded n_def]
  show ?thesis
  proof (cases "list_all canonical (payloads n es)")
    case True
    with t obtain sqs db' where a: "append_many H sign fp hid es db = Inr (sqs, db')" by auto
    from append_many_ok [OF assms(2) ok assms(4) a] obtain rs where ok': "audit_ok H ver hid fp db'"
      and s: "sqs = map (\<lambda>i. n + int i) [0 ..< length es]" and l: "log db' = log db @ rs"
      and st: "map stored rs = map (\<lambda>(i, e). stores (n + int i) e) (enumerate 0 es)" unfolding n_def by blast
    have "map r_payload rs = payloads n es" using payloads_stored [OF st] by simp
    then have "plain_log db' \<longleftrightarrow> list_all (\<lambda>v. jsonb v = v) (payloads n es)"
      using p by (auto simp: plain_log_def l list_all_iff simp flip: \<open>map r_payload rs = payloads n es\<close>)
    with ok' have "accepts H ver hid fp db' \<longleftrightarrow> list_all (\<lambda>v. jsonb v = v) (payloads n es)"
      by (simp only: verify_database_iff simp_thms)
    with True a s l st show ?thesis by auto
  qed (use t in auto)
qed

theorem append_keeps_log_verified_witness:
  "(\<exists>sqs db'. append_many demo_H demo_sign demo_fp ''h'' [demo_event] one_log = Inr (sqs, db') \<and>
     accepts demo_H demo_ver ''h'' demo_fp db' \<and> sqs = [2]) \<and>
   append_many demo_H demo_sign demo_fp ''h'' [(5, ''EXECUTE'', \<lambda>n. PDict [(''at'', PInt 9007199254740992)])] one_log = Inl Invalid_data"
proof -
  have a: "accepts demo_H demo_ver ''h'' demo_fp one_log" by (rule one_log_accepted)
  let ?bad = "(5, ''EXECUTE'', \<lambda>n. PDict [(''at'', PInt 9007199254740992)])"
  have o: "ordered_from (if log one_log = [] then (case [e] of [] \<Rightarrow> 0 | e # _ \<Rightarrow> fst e)
      else created_at (last (log one_log))) [e]" if "fst e = 5" for e :: audit_event
    using that by (simp add: one_log_def Let_def)
  have v: "list_all valid_event [demo_event]" by (simp add: demo_event_valid)
  have w: "list_all valid_event [?bad]" by (simp add: valid_event_def)
  have l: "length (log one_log) + length [e] < 9007199254740992" for e :: audit_event by (simp add: one_log_def Let_def)
  show ?thesis
    using append_keeps_log_verified [OF demo_crypto a v o l] append_keeps_log_verified [OF demo_crypto a w o l]
    by (fastforce simp: one_log_def Let_def demo_event_def wire_int_def)
qed

text \<open>
  C35: accepted logs are complete chains. When the verifier accepts the tables, the rows are numbered
  1 to n without a gap, belong to the household, are signed under the trusted key, never run
  backwards in time, each names the hash of its predecessor, and the pointer names the head.
\<close>

theorem accepted_log_is_chain:
  assumes "accepts H ver hid fp db"
  shows "map r_seq (log db) = map (\<lambda>i. 1 + int i) [0 ..< length (log db)] \<and>
    (\<forall>r \<in> set (log db). r_household r = hid \<and> key_fingerprint r = fp \<and> curr_hash r = H (row_envelope r) \<and>
       ver (signature r) (curr_hash r)) \<and>
    sorted (map created_at (log db)) \<and>
    (\<forall>i. Suc i < length (log db) \<longrightarrow> prev_hash (log db ! Suc i) = curr_hash (log db ! i)) \<and>
    (log db \<noteq> [] \<longrightarrow> pointer db = Some (int (length (log db)), curr_hash (last (log db))))"
proof -
  have ok: "audit_ok H ver hid fp db" using assms by (simp only: verify_database_iff)
  then have c: "chain H ver hid fp 1 ZERO None (log db)" by (simp add: audit_ok_def)
  have rows: "\<forall>r \<in> set rs. r_household r = hid \<and> key_fingerprint r = fp \<and> curr_hash r = H (row_envelope r) \<and>
       ver (signature r) (curr_hash r)" if "chain H ver hid fp n prev before rs" for n prev before rs
    using that by (induction rs arbitrary: n prev before) auto
  have times: "sorted (map created_at rs) \<and> (case before of None \<Rightarrow> True | Some t \<Rightarrow> \<forall>r \<in> set rs. t \<le> created_at r)"
    if "chain H ver hid fp n prev before rs" for n prev before rs
    using that
  proof (induction rs arbitrary: n prev before)
    case (Cons r rs)
    then have "sorted (map created_at rs) \<and> (\<forall>x \<in> set rs. created_at r \<le> created_at x)"
      using Cons.IH [of "n + 1" "curr_hash r" "Some (created_at r)"] by simp
    with Cons.prems show ?case by (force split: option.split)
  qed (simp split: option.split)
  have links: "prev_hash (rs ! Suc i) = curr_hash (rs ! i)"
    if "chain H ver hid fp n prev before rs" "Suc i < length rs" for n prev before rs i
    using that
  proof (induction rs arbitrary: n prev before i)
    case (Cons r rs)
    show ?case
    proof (cases i)
      case 0
      with Cons.prems show ?thesis by (cases rs) auto
    next
      case (Suc j)
      with Cons.IH [of "n + 1" "curr_hash r" "Some (created_at r)" j] Cons.prems show ?thesis by simp
    qed
  qed simp
  have "log db \<noteq> [] \<Longrightarrow> pointer db = Some (int (length (log db)), curr_hash (last (log db)))"
    using ok by (auto simp: audit_ok_def split: option.split_asm)
  moreover have "sorted (map created_at (log db))" using times [OF c] by simp
  ultimately show ?thesis using chain_seqs [OF c] rows [OF c] links [OF c] by blast
qed

theorem accepted_log_is_chain_witness:
  "accepts demo_H demo_ver ''h'' demo_fp one_log \<and> map r_seq (log one_log) = [1]"
proof -
  have a: "accepts demo_H demo_ver ''h'' demo_fp one_log" by (rule one_log_accepted)
  from accepted_log_is_chain [OF a] a show ?thesis by (simp add: one_log_def Let_def)
qed

text \<open>
  C36: tamper evidence. When the digest has no collision among their rows, two accepted logs with the
  same head hash hold the same history: every row agrees in household, number, event, payload, time and key.
\<close>

theorem head_hash_fixes_history:
  assumes "inj_on H (row_envelope ` (set (log db) \<union> set (log db')))" and "accepts H ver hid fp db" and "accepts H ver' hid' fp' db'"
    and "log db \<noteq> []" and "log db' \<noteq> []" and "curr_hash (last (log db)) = curr_hash (last (log db'))"
  shows "length (log db) = length (log db') \<and> map stored (log db) = map stored (log db') \<and>
    map r_seq (log db) = map r_seq (log db') \<and> hid = hid' \<and> fp = fp'"
proof -
  have c: "chain H ver hid fp 1 ZERO None (log db)" and c': "chain H ver' hid' fp' 1 ZERO None (log db')"
    using assms(2,3) by (simp_all only: verify_database_iff audit_ok_def)
  from chain_unique [OF assms(1) c c' assms(4-6)] have e: "map row_envelope (log db) = map row_envelope (log db')" .
  then have len: "length (log db) = length (log db')" by (rule map_eq_imp_length_eq)
  have nth: "row_envelope (log db ! i) = row_envelope (log db' ! i)" if "i < length (log db)" for i
    using e that len by (metis nth_map)
  then have "map stored (log db) = map stored (log db')" "map r_seq (log db) = map r_seq (log db')"
    using len by (auto simp: list_eq_iff_nth_eq stored_def envelope_inject)
  moreover have "hid = hid' \<and> fp = fp'"
    using c c' assms(4,5) nth [of 0] by (cases "log db"; cases "log db'") (auto simp: envelope_inject)
  ultimately show ?thesis using len by blast
qed

theorem head_hash_fixes_history_witness:
  "accepts demo_H demo_ver ''h'' demo_fp one_log \<and> map stored (log one_log) = map stored (log one_log)"
proof -
  have a: "accepts demo_H demo_ver ''h'' demo_fp one_log" by (rule one_log_accepted)
  have i: "inj_on demo_H (row_envelope ` (set (log one_log) \<union> set (log one_log)))" and n: "log one_log \<noteq> []"
    by (simp_all add: one_log_def Let_def)
  from head_hash_fixes_history [OF i a a n n refl] a show ?thesis by blast
qed

text \<open>
  Evidence is permanent. Once an event was appended under a number, every state reached by
  further appends still stores exactly that event under that number.
\<close>

theorem recorded_event_permanent:
  assumes "crypto_ok H sign ver fp" and "accepts H ver hid fp db" and "valid_event e" and "list_all valid_event es"
    and "append_one H sign fp hid (fst e) (fst (snd e)) (snd (snd e)) db = Inr (n, db1)"
    and "foldM (\<lambda>e db. rbind (append_one H sign fp hid (fst e) (fst (snd e)) (snd (snd e)) db) (\<lambda>(n, db'). Inr db')) es db1 = Inr db2"
  shows "0 < n \<and> nat n \<le> length (log db2) \<and> stored (log db2 ! nat (n - 1)) = stores n e"
proof -
  have "crypto_ok H sign ver fp \<and> audit_ok H ver hid fp db" using assms(1,2) by (simp only: verify_database_iff)
  from evidence.entry_kept [OF this assms(3,5,4,6)] show ?thesis by (auto simp: nth_map)
qed

theorem recorded_event_permanent_witness:
  "\<exists>db2. foldM (\<lambda>e db. rbind (append_one demo_H demo_sign demo_fp ''h'' (fst e) (fst (snd e)) (snd (snd e)) db)
        (\<lambda>(n, db'). Inr db')) [demo_event] one_log = Inr db2 \<and>
     stored (log db2 ! 0) = stores 1 demo_event"
proof -
  have a: "accepts demo_H demo_ver ''h'' demo_fp empty_log" by (rule empty_log_accepted)
  have w: "append_one demo_H demo_sign demo_fp ''h'' (fst demo_event) (fst (snd demo_event)) (snd (snd demo_event)) empty_log
      = Inr (1, one_log)"
    using one_log_written by (simp add: append_one_def)
  have o: "ordered_from (if log one_log = [] then (case [demo_event] of [] \<Rightarrow> 0 | e # _ \<Rightarrow> fst e)
      else created_at (last (log one_log))) [demo_event]" by (simp add: one_log_def demo_event_def Let_def)
  have "length (log one_log) + length [demo_event] < 9007199254740992"
    "list_all canonical (payloads (int (length (log one_log)) + 1) [demo_event])"
    by (simp_all add: one_log_def Let_def demo_event_def wire_int_def)
  then obtain sqs db2 where "append_many demo_H demo_sign demo_fp ''h'' [demo_event] one_log = Inr (sqs, db2)"
    using append_many_total [OF one_log_ok o, of demo_sign] by auto
  then have f: "foldM (\<lambda>e db. rbind (append_one demo_H demo_sign demo_fp ''h'' (fst e) (fst (snd e)) (snd (snd e)) db)
        (\<lambda>(n, db'). Inr db')) [demo_event] one_log = Inr db2"
    by (simp add: append_one_def)
  have v: "list_all valid_event [demo_event]" by (simp add: demo_event_valid)
  from recorded_event_permanent [OF demo_crypto a demo_event_valid v w f] f show ?thesis by auto
qed

text \<open>C37: (Audit log, \<open>verify_database\<close>) the full verification accepts exactly the logs whose rows form one signed chain from the
  first number to the head that the pointer names, and whose payloads come back from the database as they were hashed: nothing
  damaged is accepted, and nothing sound is refused.\<close>

theorem verification_exact: "(\<exists>ck rs. verify_database H ver hid fp True None db = Inr (ck, rs)) \<longleftrightarrow>
    chain H ver hid fp 1 ZERO None (log db) \<and>
    pointer db \<in> (if log db = [] then {None, Some (0, ZERO)} else {Some (int (length (log db)), curr_hash (last (log db)))}) \<and>
    plain_log db"
  unfolding verify_database_iff audit_ok_def by (auto split: option.split)

end
