(* ===== verification/House.thy ===== *)
theory House
  imports Assess Audit_Log
begin

text \<open>
  The household's tables as the pipeline uses them, and the small operations on them: the member an
  account belongs to (\<open>hirz/graph/accounts.py\<close>), the amount reserved on a day (\<open>usage\<close>), current
  credentials, and the audited writes. An operation returns the changed tables or raises; what was
  changed before an exception is lost with its transaction, as in the code.
\<close>

section \<open>Tables\<close>

text \<open>
  The binding of an approval to one proposal. A stored JSON value is known by the value it
  describes; \<open>b_gates\<close> and \<open>b_ending\<close> are the keys of \<open>gates\<close>.
\<close>

record binding =
  b_hash :: string
  b_requester :: principal
  b_resolved :: requester
  b_cost :: "dec option"
  b_policy :: string
  b_gates :: gates
  b_ending :: "gates option"
  b_doorbell :: "press option"

datatype approval_status = Pending | Approved | Rejected | Expired | Redeemed

record approval_row =
  approval_id :: string
  ap_action_id :: string
  ap_status :: approval_status
  ap_binding :: binding
  ap_created_at :: int
  expires_at :: int

record vote_row =
  v_approval_id :: string
  v_member_id :: string
  v_approved :: bool
  v_principal :: principal
  v_created_at :: int

record lifecycle =
  lc_decision :: decision
  lc_approval_id :: "string option"
  lc_member_id :: "string option"
  lc_retry :: nat
  ending_of :: "string option"
  retry_of :: "string option"

record action_row =
  proposal :: action
  ar_principal :: principal
  ar_cost :: "dec option"
  grant_seq :: "int option"
  attempt_seq :: "int option"
  ar_lifecycle :: "lifecycle option"
  due_at :: "int option"
  execution_status :: "string option"
  lifecycle_seq :: "int option"

record house =
  actions :: "action_row list"
  approvals :: "approval_row list"
  votes :: "vote_row list"
  accounts :: "(string \<times> string \<times> string) list"
  roster :: "(string \<times> role) list"
  passkeys :: "(string \<times> string \<times> bool) list"
  home_paused :: bool
  notices :: "(string \<times> string \<times> int) list"
  audit :: audit_db

text \<open>
  What does not change during a transaction: the keys and digests, the desk's hooks, the policy
  bundle's fingerprint, the narration of the explainer and the boundary engine of
  \<open>hirz/constitution/boundary.py\<close> (\<open>inputs_of\<close> is \<open>boundary_input\<close>, \<open>line\<close> the trace line of an
  event, \<open>helper\<close> the answer of the engine's process to a trace, \<open>None\<close> when it fails).
\<close>

record bevent =
  be_timestamp :: int
  be_class :: string
  be_inputs :: pv

record plant =
  household_id :: string
  H :: "pv \<Rightarrow> string"
  sign :: "string \<Rightarrow> string"
  ver :: "string \<Rightarrow> string \<Rightarrow> bool"
  fp :: string
  secs :: "pv \<Rightarrow> pv"
  base_desk :: desk
  fingerprint :: string
  narrate :: "decision \<Rightarrow> action option \<Rightarrow> pv"
  inputs_of :: "action \<Rightarrow> policy_facts \<Rightarrow> int \<Rightarrow> string \<Rightarrow> role option \<Rightarrow> string \<Rightarrow> bool \<Rightarrow> pv result"
  line :: "bevent \<Rightarrow> bool \<Rightarrow> string"
  helper :: "string list \<Rightarrow> pv option"
  memory_command :: "pdict \<Rightarrow> bool"
  device_bindings :: "binding_row list"
  commit :: "action \<Rightarrow> decision \<Rightarrow> principal \<Rightarrow> int \<Rightarrow> house \<Rightarrow> house result"

section \<open>Members and credentials\<close>

definition linked_members :: "house \<Rightarrow> principal \<Rightarrow> (string \<times> role) list" where
  "linked_members h pr =
     concat (map (\<lambda>(prov, sb, m). if prov = provider pr \<and> sb = sub pr then filter (\<lambda>(i, r). i = m) (roster h) else [])
       (accounts h))"

definition resolve_member :: "house \<Rightarrow> principal \<Rightarrow> requester result" where
  "resolve_member h pr =
     (case linked_members h pr of
        [] \<Rightarrow> Inr \<lparr>member_id = None, rq_role = Unknown, rq_surface = p_surface pr, speaker = None, claimed_author = None\<rparr>
      | [(m, r)] \<Rightarrow> Inr \<lparr>member_id = Some m, rq_role = r, rq_surface = p_surface pr, speaker = None, claimed_author = None\<rparr>
      | _ \<Rightarrow> Inl PipelineError)"

definition credential_current :: "house \<Rightarrow> principal \<Rightarrow> bool result" where
  "credential_current h pr =
     (case credential_id pr of
        None \<Rightarrow> Inr True
      | Some c \<Rightarrow> rbind (resolve_member h pr) (\<lambda>m.
          Inr (list_ex (\<lambda>(i, cr, revoked). Some i = member_id m \<and> cr = c \<and> \<not> revoked) (passkeys h))))"

section \<open>Reserved amounts\<close>

definition pv_get :: "pv \<Rightarrow> string \<Rightarrow> pv" where
  "pv_get v k = (case v of PDict d \<Rightarrow> dict_get d k PNone | _ \<Rightarrow> PNone)"

definition pv_amount :: "pv \<Rightarrow> dec" where
  "pv_amount v = (case v of PDec d \<Rightarrow> d | _ \<Rightarrow> Dec 0 0)"

definition dec_sum :: "dec list \<Rightarrow> dec" where
  "dec_sum ds = foldr dec_add ds (Dec 0 0)"

text \<open>The amounts of granted actions, joined on the grant, and the adjustments, of one class and day.\<close>

definition is_grant :: "house \<Rightarrow> int \<Rightarrow> bool" where
  "is_grant h n \<longleftrightarrow> list_ex (\<lambda>x. grant_seq x = Some n) (actions h)"

definition about :: "string \<Rightarrow> int \<Rightarrow> pv \<Rightarrow> bool" where
  "about name day v \<longleftrightarrow> pv_get v ''class'' = PStr name \<and> pv_get v ''local_date'' = PInt day"

definition grants_of :: "house \<Rightarrow> audit_row \<Rightarrow> nat" where
  "grants_of h r = length (filter (\<lambda>x. grant_seq x = Some (r_seq r)) (actions h))"

definition reserved_rows :: "house \<Rightarrow> string \<Rightarrow> int \<Rightarrow> dec list" where
  "reserved_rows h name day =
     concat (map (\<lambda>r. if about name day (pv_get (r_payload r) ''budget'')
                      then replicate (grants_of h r) (pv_amount (pv_get (pv_get (r_payload r) ''budget'') ''reserved''))
                      else []) (log (audit h)))"

definition adjustment_rows :: "house \<Rightarrow> string \<Rightarrow> int \<Rightarrow> dec list" where
  "adjustment_rows h name day =
     map (\<lambda>r. pv_amount (pv_get (r_payload r) ''delta''))
       (filter (\<lambda>r. r_event r = ''RESERVATION_ADJUSTED'' \<and> about name day (r_payload r)) (log (audit h)))"

definition usage :: "house \<Rightarrow> string \<Rightarrow> int \<Rightarrow> dec" where
  "usage h name day = dec_add (dec_sum (reserved_rows h name day)) (dec_sum (adjustment_rows h name day))"

section \<open>Audited writes\<close>

fun event_name :: "event_type \<Rightarrow> string" where
  "event_name DRY_RUN = ''DRY_RUN''"
| "event_name PLAN_REFRESH = ''PLAN_REFRESH''"
| "event_name RESERVATION_ADJUSTED = ''RESERVATION_ADJUSTED''"
| "event_name EXECUTE = ''EXECUTE''"
| "event_name ASK_CONSTITUTION = ''ASK_CONSTITUTION''"
| "event_name ASK_RISK = ''ASK_RISK''"
| "event_name ASK_BUDGET = ''ASK_BUDGET''"
| "event_name ASK_UNRESOLVED_CONDITION = ''ASK_UNRESOLVED_CONDITION''"
| "event_name ASK_REQUESTER_CONFIRMATION = ''ASK_REQUESTER_CONFIRMATION''"
| "event_name DENY_CONSTITUTION = ''DENY_CONSTITUTION''"
| "event_name DENY_RISK = ''DENY_RISK''"
| "event_name DENY_BUDGET = ''DENY_BUDGET''"
| "event_name DENY_BOUNDARY = ''DENY_BOUNDARY''"
| "event_name DENY_APPROVAL_MISMATCH = ''DENY_APPROVAL_MISMATCH''"
| "event_name DENY_APPROVAL_EXPIRED = ''DENY_APPROVAL_EXPIRED''"
| "event_name DENY_APPROVAL_USED = ''DENY_APPROVAL_USED''"
| "event_name DENY_APPROVAL_UNAUTHORIZED = ''DENY_APPROVAL_UNAUTHORIZED''"
| "event_name VERIFY = ''VERIFY''"
| "event_name APPROVED = ''APPROVED''"
| "event_name REJECTED = ''REJECTED''"
| "event_name EXPIRED = ''EXPIRED''"
| "event_name TWIN_CHECKPOINT = ''TWIN_CHECKPOINT''"
| "event_name SCHEDULED = ''SCHEDULED''"
| "event_name EXECUTION_HELD = ''EXECUTION_HELD''"
| "event_name EXECUTION_CANCELLED = ''EXECUTION_CANCELLED''"
| "event_name ENDING_AUTHORIZED = ''ENDING_AUTHORIZED''"
| "event_name OBSERVATIONS_RECORDED = ''OBSERVATIONS_RECORDED''"
| "event_name PLAN_APPROVED = ''PLAN_APPROVED''"
| "event_name PLAN_CANCELLED = ''PLAN_CANCELLED''"
| "event_name NOTICE_PENDING = ''NOTICE_PENDING''"
| "event_name EXECUTION_ATTEMPTED = ''EXECUTION_ATTEMPTED''"
| "event_name EXECUTED = ''EXECUTED''"
| "event_name VERIFIED = ''VERIFIED''"
| "event_name VERIFY_FAILED = ''VERIFY_FAILED''"
| "event_name ROLLED_BACK = ''ROLLED_BACK''"
| "event_name CONSTRAINT_RECORDED = ''CONSTRAINT_RECORDED''"
| "event_name CONSTRAINT_WITHDRAWN = ''CONSTRAINT_WITHDRAWN''"
| "event_name PLAN_CREATED = ''PLAN_CREATED''"
| "event_name PLAN_REVISED = ''PLAN_REVISED''"
| "event_name CONSTITUTION_PROPOSED = ''CONSTITUTION_PROPOSED''"
| "event_name CONSTITUTION_ACTIVATED = ''CONSTITUTION_ACTIVATED''"
| "event_name POLICY_PUBLICATION = ''POLICY_PUBLICATION''"
| "event_name POLICY_ERROR = ''POLICY_ERROR''"
| "event_name ADAPTER_ERROR = ''ADAPTER_ERROR''"
| "event_name LINK_REJECTED = ''LINK_REJECTED''"
| "event_name OUT_OF_BAND_CHANGE = ''OUT_OF_BAND_CHANGE''"
| "event_name AUTONOMY_PAUSED = ''AUTONOMY_PAUSED''"
| "event_name AUTONOMY_RESUMED = ''AUTONOMY_RESUMED''"
| "event_name AUDIT_ANCHORED = ''AUDIT_ANCHORED''"
| "event_name MEMORY_PROPOSED = ''MEMORY_PROPOSED''"
| "event_name MEMORY_ACCEPTED = ''MEMORY_ACCEPTED''"
| "event_name MEMORY_REJECTED = ''MEMORY_REJECTED''"

fun kind_name :: "kind \<Rightarrow> string" where
  "kind_name Kexecute = ''execute''"
| "kind_name Kask = ''ask''"
| "kind_name Kdeny = ''deny''"
| "kind_name Kverify = ''verify''"

fun mode_name :: "mode \<Rightarrow> string" where
  "mode_name Auto = ''auto''"
| "mode_name Ask = ''ask''"
| "mode_name Never = ''never''"

fun quorum_name :: "quorum \<Rightarrow> string" where
  "quorum_name Any_adult = ''any_adult''"
| "quorum_name Quorum_owner = ''owner''"
| "quorum_name All_adults = ''all_adults''"

fun answer_name :: "boundary_answer \<Rightarrow> string" where
  "answer_name Not_evaluated = ''not_evaluated''"
| "answer_name Allow = ''allow''"
| "answer_name Refuse = ''deny''"

definition opt_pv :: "('a \<Rightarrow> pv) \<Rightarrow> 'a option \<Rightarrow> pv" where
  "opt_pv f x = (case x of None \<Rightarrow> PNone | Some v \<Rightarrow> f v)"

definition risk_dump :: "risk_assessment \<Rightarrow> pv" where
  "risk_dump r = PDict [(''band'', PStr (band_value (ra_band r))), (''base_band'', PStr (band_value (base_band r))),
     (''factors'', PList (map (\<lambda>f. PDict [(''factor'', PStr (factor_str (factor f))),
        (''effect'', PStr (if effect f = To_CRITICAL then ''critical'' else ''+1 band'')),
        (''evidence'', PList (map PStr (evidence f)))]) (factors r)))]"

definition budget_dump :: "budget_evidence \<Rightarrow> pv" where
  "budget_dump b = PDict [(''local_date'', PInt (local_date b)), (''class'', PStr (bud_class b)), (''used'', PDec (used b)),
     (''proposed'', opt_pv PDec (proposed b)), (''cap'', PDec (Dec (cap b) 0)), (''reserved'', PDec (reserved b))]"

text \<open>\<open>decision.model_dump(mode="json", by_alias=True)\<close>.\<close>

definition decision_dump :: "decision \<Rightarrow> pv" where
  "decision_dump d = PDict (
     [(''decision'', PStr (kind_name (d_kind d))), (''event_type'', PStr (event_name (d_event d))),
      (''action_id'', PStr (d_action_id d)), (''risk'', opt_pv risk_dump (d_risk d)),
      (''constitution'', PDict [(''version'', PInt (ce_version (d_constitution d))), (''rule'', PStr (ce_rule (d_constitution d))),
         (''mode'', PStr (mode_name (ce_mode (d_constitution d)))), (''conditions_met'', PBool (ce_met (d_constitution d)))]),
      (''boundary'', PDict [(''engine'', PStr (be_engine (d_boundary d))), (''result'', PStr (answer_name (be_result (d_boundary d)))),
         (''context_hash'', opt_str (context_hash (d_boundary d))),
         (''roles'', PDict (map (\<lambda>(r, b). (role_name r, PBool b)) (be_roles (d_boundary d))))]),
      (''approval'', opt_pv (\<lambda>x. PDict [(''approval_id'', PStr (ae_approval_id x)), (''quorum'', PStr (quorum_name (ae_quorum x))),
         (''expires_at'', stamp (ae_expires_at x))]) (d_approval d)),
      (''budget'', opt_pv budget_dump (d_budget d)),
      (''explain'', PDict [(''rejected'', PList (map PStr (rejected d)))]),
      (''audit_id'', opt_pv PInt (audit_id d))] @
     (case d_status d of None \<Rightarrow> [] | Some s \<Rightarrow> [(''status'', PStr s)]) @
     (if narration d = PNone then [] else [(''narration'', narration d)]))"

definition audit_error :: "audit_exn \<Rightarrow> exn" where
  "audit_error x = (if x = Invalid_data then ValueError else PipelineError)"

definition write_event :: "plant \<Rightarrow> int \<Rightarrow> event_type \<Rightarrow> (int \<Rightarrow> pv) \<Rightarrow> house \<Rightarrow> (int \<times> house) result" where
  "write_event p now e payload h =
     (case append_one (H p) (sign p) (fp p) (household_id p) now (event_name e) payload (audit h) of
        Inl x \<Rightarrow> Inl (audit_error x)
      | Inr (n, db) \<Rightarrow> Inr (n, h\<lparr>audit := db\<rparr>))"

text \<open>\<open>prepared\<close>, and \<open>record\<close>: the unresolved paths, then the decision under its own number.\<close>

definition narrated :: "plant \<Rightarrow> decision \<Rightarrow> action option \<Rightarrow> decision" where
  "narrated p d a = d\<lparr>narration := narrate p d a\<rparr>"

definition record_decision ::
  "plant \<Rightarrow> decision \<Rightarrow> action option \<Rightarrow> string list \<Rightarrow> int \<Rightarrow> house \<Rightarrow> (decision \<times> house) result"
where
  "record_decision p d a errs now h =
     (let d1 = narrated p d a in
      rbind (foldM (\<lambda>path h. rbind (write_event p now POLICY_ERROR (\<lambda>_. PDict [(''paths'', PList [PStr path])]) h)
                     (\<lambda>(_, h'). Inr h')) errs h) (\<lambda>h1.
      rbind (write_event p now (d_event d1) (\<lambda>n. decision_dump (d1\<lparr>audit_id := Some n\<rparr>)) h1) (\<lambda>(n, h2).
        Inr (d1\<lparr>audit_id := Some n\<rparr>, h2))))"

section \<open>Rows\<close>

text \<open>
  A proposal read back from its JSON text has every optional field set and its numbers as the database gives
  them back; two proposals compare equal exactly when they read back the same.
\<close>

definition jsonb_dict :: "pdict \<Rightarrow> pdict" where
  "jsonb_dict d = map (\<lambda>(k, v). (k, jsonb v)) d"

definition reload :: "action \<Rightarrow> action" where
  "reload a = a\<lparr>a_target := (a_target a)\<lparr>zone_set := True\<rparr>, params := jsonb_dict (params a),
     expected_effect := map_option (\<lambda>e. e\<lparr>ef_value := jsonb (ef_value e)\<rparr>) (expected_effect a),
     a_revert := map_option (\<lambda>r. r\<lparr>after_s := jsonb (after_s r),
       inverse := (inverse r)\<lparr>inv_target := (inv_target (inverse r))\<lparr>zone_set := True\<rparr>,
         inv_params := jsonb_dict (inv_params (inverse r))\<rparr>\<rparr>) (a_revert a)\<rparr>"

definition find_action :: "house \<Rightarrow> string \<Rightarrow> action_row option" where
  "find_action h i = List.find (\<lambda>x. action_id (proposal x) = i) (actions h)"

definition find_approval :: "house \<Rightarrow> string \<Rightarrow> approval_row option" where
  "find_approval h i = List.find (\<lambda>x. approval_id x = i) (approvals h)"

definition pending :: "house \<Rightarrow> string \<Rightarrow> approval_row option" where
  "pending h i = List.find (\<lambda>x. ap_action_id x = i \<and> ap_status x \<in> {Pending, Approved}) (approvals h)"

definition set_status :: "string \<Rightarrow> approval_status \<Rightarrow> house \<Rightarrow> house" where
  "set_status i st h =
     h\<lparr>approvals := map (\<lambda>x. if approval_id x = i then x\<lparr>ap_status := st\<rparr> else x) (approvals h)\<rparr>"

definition update_action :: "string \<Rightarrow> (action_row \<Rightarrow> action_row) \<Rightarrow> house \<Rightarrow> house" where
  "update_action i f h = h\<lparr>actions := map (\<lambda>x. if action_id (proposal x) = i then f x else x) (actions h)\<rparr>"

definition new_action_row :: "action \<Rightarrow> principal \<Rightarrow> dec option \<Rightarrow> action_row" where
  "new_action_row a pr cost = \<lparr>proposal = reload a, ar_principal = identity pr, ar_cost = cost, grant_seq = None, attempt_seq = None,
     ar_lifecycle = None, due_at = None, execution_status = None, lifecycle_seq = None\<rparr>"

text \<open>An insert is refused when the primary key is taken.\<close>

definition insert_action :: "action_row \<Rightarrow> house \<Rightarrow> house result" where
  "insert_action x h =
     (if find_action h (action_id (proposal x)) \<noteq> None then Inl PipelineError else Inr (h\<lparr>actions := actions h @ [x]\<rparr>))"

definition insert_approval :: "approval_row \<Rightarrow> house \<Rightarrow> house result" where
  "insert_approval x h =
     (if find_approval h (approval_id x) \<noteq> None \<or> pending h (ap_action_id x) \<noteq> None \<or> \<not> expires_at x > ap_created_at x
      then Inl PipelineError else Inr (h\<lparr>approvals := approvals h @ [x]\<rparr>))"

section \<open>The desk of a household\<close>

definition confirmed_requester :: "plant \<Rightarrow> house \<Rightarrow> int \<Rightarrow> action \<Rightarrow> requester \<Rightarrow> bool" where
  "confirmed_requester p h now a rq =
     (case member_id rq of
        None \<Rightarrow> False
      | Some m \<Rightarrow>
          require_active (base_desk p) \<and> security_class (action_class a) \<and>
          list_ex (\<lambda>v. v_member_id v = m \<and> v_approved v \<and>
            list_ex (\<lambda>x. approval_id x = v_approval_id v \<and> ap_action_id x = action_id a \<and> ap_status x \<in> {Pending, Approved} \<and>
               expires_at x > now \<and> b_policy (ap_binding x) = fingerprint p) (approvals h) \<and>
            (let w = v_principal v in
             p_surface w = App \<and> credential_id w \<noteq> None \<and> credential_id w \<noteq> Some [] \<and> passkey_verified w \<and>
             requester_confirmed w \<and> verified_action_hash w = Some (content_hash a) \<and> credential_current h w = Inr True \<and>
             (case resolve_member h w of Inl _ \<Rightarrow> False | Inr m' \<Rightarrow> member_id m' = Some m))) (votes h))"

text \<open>The graph's snapshot with the household's members and its pause flag.\<close>

definition house_snapshot :: "plant \<Rightarrow> house \<Rightarrow> int \<Rightarrow> snapshot result" where
  "house_snapshot p h t =
     rbind (take_snapshot (base_desk p) t) (\<lambda>sn.
       Inr (sn\<lparr>autonomy_paused := home_paused h, s_members := map (\<lambda>(i, r). \<lparr>m_id = i, m_role = r\<rparr>) (roster h)\<rparr>))"

definition desk_of :: "plant \<Rightarrow> house \<Rightarrow> desk" where
  "desk_of p h = (base_desk p)\<lparr>resolve_requester := resolve_member h, take_snapshot := house_snapshot p h,
     usage_of := usage h, confirmed := confirmed_requester p h (clock_second (base_desk p))\<rparr>"

end
