(* ===== verification/Boundary.thy ===== *)
theory Boundary
  imports House
begin

text \<open>
  The local policy boundary, \<open>hirz/constitution/boundary.py\<close> and \<open>boundary_check\<close> of the
  pipeline: the second, independent evaluator must permit for every role in which a request is made.
  The engine's process is the parameter \<open>helper\<close>: its JSON answer to a trace, or nothing.
\<close>

section \<open>Verdicts\<close>

definition verdict_ok :: "nat \<Rightarrow> pv \<Rightarrow> bool" where
  "verdict_ok i v =
     (case v of
        PDict d \<Rightarrow>
          py_eq (dict_get d ''index'' PNone) (PInt (int i)) \<and>
          (case dict_get d ''timestamp'' PNone of PInt _ \<Rightarrow> True | _ \<Rightarrow> False) \<and>
          dict_get d ''verdict'' PNone \<in> {PStr ''allow'', PStr ''deny''} \<and>
          dict_get d ''errors'' PNone = PList [] \<and>
          (case dict_get d ''determining_rules'' PNone of PList _ \<Rightarrow> True | _ \<Rightarrow> False)
      | _ \<Rightarrow> False)"

text \<open>\<open>_verdicts\<close>; \<open>None\<close> is \<open>BoundaryError\<close>.\<close>

definition verdicts :: "pv \<Rightarrow> pv list option" where
  "verdicts answer =
     (case pv_get answer ''verdicts'' of
        PList vs \<Rightarrow> if vs \<noteq> [] \<and> list_all (\<lambda>i. verdict_ok i (vs ! i)) [0..<length vs] then Some vs else None
      | _ \<Rightarrow> None)"

definition replay :: "plant \<Rightarrow> string list \<Rightarrow> pv list option" where
  "replay p trace = Option.bind (helper p trace) verdicts"

definition allows :: "pv list \<Rightarrow> bool" where
  "allows vs \<longleftrightarrow> pv_get (last vs) ''verdict'' = PStr ''allow''"

section \<open>Authorization\<close>

text \<open>The approvals enter the trace in order; a denied one never becomes a response.\<close>

fun approval_trace :: "plant \<Rightarrow> int \<Rightarrow> bevent list \<Rightarrow> int \<Rightarrow> string list \<Rightarrow> string list option" where
  "approval_trace p now [] previous trace = Some trace"
| "approval_trace p now (e # es) previous trace =
     (if be_class e \<noteq> ''governance.approve_action'' \<or> \<not> (previous \<le> be_timestamp e \<and> be_timestamp e \<le> now) then None
      else
        let asked = trace @ [line p e False] in
        (case replay p asked of
           None \<Rightarrow> None
         | Some vs \<Rightarrow> approval_trace p now es (be_timestamp e) (if allows vs then asked @ [line p e True] else asked)))"

definition authorize_event :: "plant \<Rightarrow> bevent \<Rightarrow> bevent list \<Rightarrow> bool" where
  "authorize_event p act es =
     (case approval_trace p (be_timestamp act) es (- 1) [] of
        None \<Rightarrow> False
      | Some trace \<Rightarrow>
          (case replay p (trace @ [line p act False]) of
             None \<Rightarrow> False
           | Some vs \<Rightarrow> length vs = length es + 1 \<and> pv_get (last vs) ''timestamp'' = PInt (be_timestamp act) \<and> allows vs))"

section \<open>The boundary check of an evaluation\<close>

text \<open>The lowered role that the facts carry.\<close>

definition claimed_in :: "facts \<Rightarrow> role option" where
  "claimed_in f =
     (case map_of (pf_values (f_policy f)) ''requester'' of
        Some (PDict d) \<Rightarrow> List.find (\<lambda>r. dict_get d ''claimed_role'' PNone = PStr (role_name r)) ROLES
      | _ \<Rightarrow> None)"

definition boundary_roles :: "evaluation \<Rightarrow> facts \<Rightarrow> role list" where
  "boundary_roles ev f =
     (let r = rq_role (requested_by (ev_action ev)) in
      case claimed_in f of None \<Rightarrow> [r] | Some c \<Rightarrow> if c = r then [r] else [r, c])"

definition channel_of :: "principal \<Rightarrow> string" where
  "channel_of pr = (if p_surface pr = App then ''app_push'' else ''alexa'')"

text \<open>\<open>int(at.timestamp())\<close> of an instant after the epoch.\<close>

definition seconds_of :: "int \<Rightarrow> int" where
  "seconds_of t = t div us_per_second"

definition boundary_answer_for ::
  "plant \<Rightarrow> evaluation \<Rightarrow> facts \<Rightarrow> rule_outcome \<Rightarrow> int \<Rightarrow> int option \<Rightarrow> (principal \<times> requester) option \<Rightarrow> role \<Rightarrow> (role \<times> bool) result"
where
  "boundary_answer_for p ev f out now approved_at voter r =
     (let a = with_role (ev_action ev) r in
      rbind (inputs_of p a (f_policy f) (ttl_minutes (approval out)) (household_id p @ '':'' @ action_id a)
               (map_option (rq_role \<circ> snd) voter) (case voter of None \<Rightarrow> [] | Some (v, _) \<Rightarrow> channel_of v)
               (approved_at \<noteq> None)) (\<lambda>inputs.
        Inr (r, authorize_event p
          \<lparr>be_timestamp = seconds_of now, be_class = action_class a, be_inputs = inputs\<rparr>
          (case approved_at of
             None \<Rightarrow> []
           | Some t \<Rightarrow> [\<lparr>be_timestamp = seconds_of t, be_class = ''governance.approve_action'', be_inputs = inputs\<rparr>]))))"

definition boundary_check ::
  "plant \<Rightarrow> house \<Rightarrow> evaluation \<Rightarrow> int \<Rightarrow> int option \<Rightarrow> principal option \<Rightarrow> evaluation result"
where
  "boundary_check p h ev now approved_at voter =
     (case (ev_facts ev, outcomes ev) of
        (Some f, out # _) \<Rightarrow>
          rbind (case voter of None \<Rightarrow> Inr None | Some v \<Rightarrow> rbind (resolve_member h v) (\<lambda>m. Inr (Some (v, m)))) (\<lambda>w.
          rbind (mapM (boundary_answer_for p ev f out now approved_at w) (boundary_roles ev f)) (\<lambda>answers.
            let allowed = list_all snd answers in
            Inr (conclude (ev\<lparr>ev_decision := (ev_decision ev)\<lparr>d_boundary :=
                   \<lparr>be_engine = ''dogwood-local'', be_result = (if allowed then Allow else Refuse),
                    context_hash = Some (''sha256:'' @ H p (PDict (pf_values (f_policy f)))), be_roles = answers\<rparr>\<rparr>\<rparr>)
                 (if allowed then EXECUTE else DENY_BOUNDARY))))
      | _ \<Rightarrow> Inl TypeError)"

section \<open>Lemmas\<close>

text \<open>Approvals that the trace accepted are approval events in time order.\<close>

fun ordered_approvals :: "int \<Rightarrow> int \<Rightarrow> bevent list \<Rightarrow> bool" where
  "ordered_approvals now previous [] = True"
| "ordered_approvals now previous (e # es) =
     (be_class e = ''governance.approve_action'' \<and> previous \<le> be_timestamp e \<and> be_timestamp e \<le> now \<and>
      ordered_approvals now (be_timestamp e) es)"

lemma approval_trace_ordered:
  "approval_trace p now es previous trace = Some t \<Longrightarrow> ordered_approvals now previous es"
  by (induction es arbitrary: previous trace) (auto simp: Let_def split: if_split_asm option.split_asm)

lemma verdicts_Some:
  "verdicts v = Some vs \<longleftrightarrow> pv_get v ''verdicts'' = PList vs \<and> vs \<noteq> [] \<and> (\<forall>i < length vs. verdict_ok i (vs ! i))"
  by (auto simp: verdicts_def list_all_iff split: pv.splits)

text \<open>
  C40: the boundary fails closed. An event is authorized only on a well-formed answer of the engine to
  a trace that ends with the event itself: a nonempty list of verdicts without errors, numbered in
  order, one per approval and one for the event, the last of them \<open>allow\<close> at the event's own time;
  and only with approvals that are approval events in time order, none later than the event. A
  missing, malformed, short or erroneous answer is a refusal.
\<close>

theorem boundary_fails_closed:
  assumes "authorize_event p act es"
  shows "\<exists>trace answer vs. helper p (trace @ [line p act False]) = Some answer \<and>
    pv_get answer ''verdicts'' = PList vs \<and> length vs = length es + 1 \<and>
    (\<forall>i < length vs. verdict_ok i (vs ! i)) \<and>
    pv_get (last vs) ''verdict'' = PStr ''allow'' \<and> pv_get (last vs) ''timestamp'' = PInt (be_timestamp act) \<and>
    ordered_approvals (be_timestamp act) (- 1) es"
proof -
  from assms obtain trace vs where t: "approval_trace p (be_timestamp act) es (- 1) [] = Some trace"
    and r: "replay p (trace @ [line p act False]) = Some vs"
    and v: "length vs = length es + 1" "pv_get (last vs) ''timestamp'' = PInt (be_timestamp act)" "allows vs"
    by (auto simp: authorize_event_def split: option.split_asm)
  from r obtain answer where a: "helper p (trace @ [line p act False]) = Some answer" "verdicts answer = Some vs"
    by (auto simp: replay_def Option.bind_eq_Some_conv)
  show ?thesis
    using a v approval_trace_ordered [OF t] unfolding verdicts_Some allows_def by blast
qed

section \<open>A household's plant\<close>

text \<open>An engine that allows every event at one second.\<close>

definition demo_verdict :: "nat \<Rightarrow> pv" where
  "demo_verdict i = PDict [(''index'', PInt (int i)), (''timestamp'', PInt 1791930900), (''verdict'', PStr ''allow''),
     (''errors'', PList []), (''determining_rules'', PList [])]"

definition demo_plant :: plant where
  "demo_plant = \<lparr>household_id = ''h'', H = demo_H, sign = demo_sign, ver = demo_ver, fp = demo_fp, secs = sample_secs,
     base_desk = lamp_desk, fingerprint = ''f'', narrate = (\<lambda>_ _. PNone), inputs_of = (\<lambda>_ _ _ _ _ _ _. Inr PNone),
     line = (\<lambda>_ _. []), helper = (\<lambda>tr. Some (PDict [(''verdicts'', PList (map demo_verdict [0..<(length tr + 1) div 2]))])),
     memory_command = (\<lambda>_. True),
     device_bindings = [\<lparr>b_adapter = ''twin'', b_entity_id = ''light.living_room'', b_asset_id = ''lamp''\<rparr>], commit = (\<lambda>_ _ _ _ h. Inr h)\<rparr>"

theorem boundary_fails_closed_witness:
  "authorize_event demo_plant \<lparr>be_timestamp = 1791930900, be_class = ''environment.lights'', be_inputs = PNone\<rparr>
     [\<lparr>be_timestamp = 1791930800, be_class = ''governance.approve_action'', be_inputs = PNone\<rparr>] \<and>
   ordered_approvals 1791930900 (- 1) [\<lparr>be_timestamp = 1791930800, be_class = ''governance.approve_action'', be_inputs = PNone\<rparr>]"
proof -
  have a: "authorize_event demo_plant \<lparr>be_timestamp = 1791930900, be_class = ''environment.lights'', be_inputs = PNone\<rparr>
     [\<lparr>be_timestamp = 1791930800, be_class = ''governance.approve_action'', be_inputs = PNone\<rparr>]" by code_simp
  from boundary_fails_closed [OF a] a show ?thesis by (elim exE conjE) simp
qed

lemma boundary_answer_role: "boundary_answer_for p ev f out now approved_at w r = Inr x \<Longrightarrow> fst x = r"
  by (auto simp: boundary_answer_for_def Let_def rbind_Inr_iff)

lemma boundary_check_allowed:
  assumes "boundary_check p h ev now approved_at voter = Inr ev'" and "d_kind (ev_decision ev') = Kexecute"
  shows "\<exists>f answers. ev_facts ev = Some f \<and> be_roles (d_boundary (ev_decision ev')) = answers \<and>
    map fst answers = boundary_roles ev f \<and> (\<forall>(r, b) \<in> set answers. b)"
proof -
  from assms obtain f out rest w answers where f: "ev_facts ev = Some f" "outcomes ev = out # rest"
    and m: "mapM (boundary_answer_for p ev f out now approved_at w) (boundary_roles ev f) = Inr answers"
    and ev': "be_roles (d_boundary (ev_decision ev')) = answers" and all: "list_all snd answers"
    by (auto simp: boundary_check_def Let_def conclude_def rbind_Inr_iff kind_of_event_def split: option.split_asm list.split_asm if_split_asm)
  have "map fst answers = boundary_roles ev f"
  proof (rule nth_equalityI)
    show "length (map fst answers) = length (boundary_roles ev f)" using mapM_Inr_length [OF m] by simp
    fix i assume "i < length (map fst answers)"
    with mapM_Inr_nth [OF m, of i] mapM_Inr_length [OF m] show "map fst answers ! i = boundary_roles ev f ! i"
      using boundary_answer_role by fastforce
  qed
  with f ev' all show ?thesis by (auto simp: list_all_iff)
qed

lemma boundary_check_frame:
  assumes "boundary_check p h ev now approved_at voter = Inr ev'"
  shows "ev_action ev' = ev_action ev \<and> outcomes ev' = outcomes ev \<and> ev_facts ev' = ev_facts ev \<and>
    d_action_id (ev_decision ev') = d_action_id (ev_decision ev) \<and> d_budget (ev_decision ev') = d_budget (ev_decision ev) \<and>
    audit_id (ev_decision ev') = audit_id (ev_decision ev) \<and> ev_gates ev' = ev_gates ev \<and>
    d_event (ev_decision ev') \<in> {EXECUTE, DENY_BOUNDARY} \<and> coherent (ev_decision ev')"
  using assms
  by (auto simp: boundary_check_def Let_def rbind_Inr_iff split: option.split_asm list.split_asm if_split_asm)

end
