(* ===== verification/Storage.thy ===== *)
theory Storage
  imports House
begin

text \<open>
  The lifecycle of queued work, \<open>hirz/executor/storage.py\<close>: audited transitions, notices, the
  refusal of overlapping bounded operations, scheduling, and the preauthorized ending of a bounded
  operation with the check that a stored ending is the one its opening was granted.
\<close>

section \<open>Transitions and notices\<close>

definition row :: "house \<Rightarrow> string \<Rightarrow> action_row result" where
  "row h i = of_opt PipelineError (find_action h i)"

definition transition ::
  "plant \<Rightarrow> string \<Rightarrow> string \<Rightarrow> event_type \<Rightarrow> pdict \<Rightarrow> int \<Rightarrow> house \<Rightarrow> (int \<times> house) result"
where
  "transition p i status e details now h =
     rbind (write_event p now e (\<lambda>_. PDict ([(''action_id'', PStr i), (''status'', PStr status)] @ details)) h) (\<lambda>(n, h1).
       Inr (n, update_action i (\<lambda>x. x\<lparr>execution_status := Some status, lifecycle_seq := Some n\<rparr>) h1))"

text \<open>
  Several rows in one statement: the events are signed in order under one lock, then each row gets
  its own number.
\<close>

definition transition_many ::
  "plant \<Rightarrow> string list \<Rightarrow> string \<Rightarrow> event_type \<Rightarrow> pdict \<Rightarrow> int \<Rightarrow> house \<Rightarrow> house result"
where
  "transition_many p is status e details now h =
     (if is = [] then Inr h
      else case append_many (H p) (sign p) (fp p) (household_id p)
             (map (\<lambda>i. (now, event_name e, \<lambda>_. PDict ([(''action_id'', PStr i), (''status'', PStr status)] @ details))) is) (audit h) of
             Inl x \<Rightarrow> Inl (audit_error x)
           | Inr (ns, db) \<Rightarrow>
               Inr (fold (\<lambda>(i, n). update_action i (\<lambda>x. x\<lparr>execution_status := Some status, lifecycle_seq := Some n\<rparr>))
                      (zip is ns) (h\<lparr>audit := db\<rparr>)))"

text \<open>A member is told of a pending reason once.\<close>

definition notice :: "plant \<Rightarrow> string \<Rightarrow> string \<Rightarrow> string \<Rightarrow> int \<Rightarrow> house \<Rightarrow> house result" where
  "notice p member i message now h =
     (if list_ex (\<lambda>(m, msg, _). m = member \<and> msg = message) (notices h) then Inr h
      else
        rbind (write_event p now NOTICE_PENDING (\<lambda>_. PDict [(''action_id'', PStr i), (''member_id'', PStr member),
                 (''message'', PStr message), (''delivery'', PStr ''pending'')]) h) (\<lambda>(n, h1).
          Inr (h1\<lparr>notices := notices h1 @ [(member, message, n)]\<rparr>)))"

section \<open>Overlaps\<close>

text \<open>Rows with a lifecycle that are neither cancelled, skipped nor held; a row without a status is not selected.\<close>

definition live_row :: "action_row \<Rightarrow> bool" where
  "live_row x \<longleftrightarrow> ar_lifecycle x \<noteq> None \<and>
     (case execution_status x of None \<Rightarrow> False | Some s \<Rightarrow> s \<notin> {''cancelled'', ''skipped'', ''held''})"

definition same_target :: "target \<Rightarrow> target \<Rightarrow> bool" where
  "same_target s t \<longleftrightarrow> adapter s = adapter t \<and> entity s = entity t \<and> zone s = zone t"

definition starts_before :: "action \<Rightarrow> action \<Rightarrow> bool" where
  "starts_before a b = (case (scheduled_for a, scheduled_for b) of (Some s, Some t) \<Rightarrow> s < t | _ \<Rightarrow> False)"

text \<open>Two operations on one target whose intervals meet, unless the candidate's ending is verified.\<close>

definition clash :: "(string \<times> action) list \<Rightarrow> string list \<Rightarrow> action \<Rightarrow> action \<Rightarrow> bool" where
  "clash ends completed a c =
     (case (map_of ends (action_id a), map_of ends (action_id c)) of
        (Some fin, Some cfin) \<Rightarrow> same_target (a_target c) (a_target a) \<and> starts_before c fin \<and> starts_before a cfin \<and>
          action_id cfin \<notin> set completed
      | _ \<Rightarrow> False)"

fun overlap_loop ::
  "(string \<times> action) list \<Rightarrow> string list \<Rightarrow> string option \<Rightarrow> action list \<Rightarrow> action list \<Rightarrow> unit result"
where
  "overlap_loop ends completed retried [] cs = Inr ()"
| "overlap_loop ends completed retried (a # as) cs =
     (if list_ex (\<lambda>c. action_id c \<noteq> action_id a \<and> Some (action_id c) \<noteq> retried \<and> clash ends completed a c) cs
      then Inl ValueError else overlap_loop ends completed retried as (cs @ [a]))"

definition check_overlaps :: "plant \<Rightarrow> house \<Rightarrow> action list \<Rightarrow> string option \<Rightarrow> unit result" where
  "check_overlaps p h as retried =
     (let bounded_ones = filter (\<lambda>a. a_revert a \<noteq> None) as in
      if bounded_ones = [] then Inr ()
      else
        let cs = filter (\<lambda>a. a_revert a \<noteq> None) (map proposal (filter live_row (actions h))) in
        rbind (mapM (\<lambda>a. rbind (ending (H p) (secs p) a None) (\<lambda>fin. Inr (action_id a, fin))) (cs @ bounded_ones)) (\<lambda>ends0.
        let ends = fold (\<lambda>(i, fin). dict_set i fin) ends0 [];
            completed = map (action_id \<circ> proposal) (filter (\<lambda>x. execution_status x = Some ''verified'' \<and>
               action_id (proposal x) \<in> (action_id \<circ> snd) ` set ends) (actions h))
        in overlap_loop ends completed retried bounded_ones cs))"

section \<open>Scheduling\<close>

definition scheduled ::
  "plant \<Rightarrow> action \<Rightarrow> decision \<Rightarrow> string option \<Rightarrow> string option \<Rightarrow> int \<Rightarrow> house \<Rightarrow> (decision \<times> house) result"
where
  "scheduled p a d apr retried now h =
     rbind (check_overlaps p h [a] retried) (\<lambda>_.
     let d1 = narrated p (d\<lparr>d_status := Some ''executing''\<rparr>) (Some a) in
     rbind (transition p (action_id a) ''scheduled'' SCHEDULED [(''decision'', decision_dump d1)] now h) (\<lambda>(n, h1).
       Inr (d1\<lparr>audit_id := Some n\<rparr>,
            update_action (action_id a) (\<lambda>x. x\<lparr>due_at := Some (case scheduled_for a of None \<Rightarrow> now | Some t \<Rightarrow> t),
              ar_lifecycle := Some \<lparr>lc_decision = d1, lc_approval_id = apr, lc_member_id = member_id (requested_by a),
                lc_retry = 0, ending_of = None, retry_of = None\<rparr>\<rparr>) h1)))"

definition repeated :: "plant \<Rightarrow> action_row \<Rightarrow> decision result" where
  "repeated p x =
     (case ar_lifecycle x of
        None \<Rightarrow> Inl TypeError
      | Some lc \<Rightarrow>
          Inr (narrated p ((lc_decision lc)\<lparr>d_status := (if execution_status x = Some ''scheduled'' then Some ''executing''
                 else execution_status x), audit_id := lifecycle_seq x\<rparr>) (Some (proposal x))))"

section \<open>Endings\<close>

definition effect_dump :: "expected_effect \<Rightarrow> pv" where
  "effect_dump e = PDict [(''entity'', PStr (ef_entity e)), (''attr'', PStr (ef_attr e)), (''value'', ef_value e), (''by'', stamp (ef_by e))]"

text \<open>\<open>action.model_dump(mode="json", by_alias=True)\<close>.\<close>

definition action_json :: "action \<Rightarrow> pv" where
  "action_json a = PDict (
     [(''action_id'', PStr (action_id a)), (''class'', PStr (action_class a)), (''target'', target_dump (a_target a)),
      (''params'', PDict (params a)), (''requested_by'', PDict (requester_dump (requested_by a))), (''reason'', PStr (reason a)),
      (''plan_id'', opt_str (plan_id a)), (''scheduled_for'', opt_pv stamp (scheduled_for a)),
      (''expected_effect'', opt_pv effect_dump (expected_effect a)), (''content_hash'', PStr (content_hash a))] @
     (case a_revert a of None \<Rightarrow> [] | Some r \<Rightarrow> [(''revert'', revert_dump r)]))"

text \<open>A row of the log by its number, its payload as the database gives it back.\<close>

definition find_event :: "house \<Rightarrow> int \<Rightarrow> audit_row result" where
  "find_event h n = of_opt PipelineError (map_option read_row (List.find (\<lambda>r. r_seq r = n) (log (audit h))))"

definition authorize_ending :: "plant \<Rightarrow> action \<Rightarrow> decision \<Rightarrow> int \<Rightarrow> house \<Rightarrow> house result" where
  "authorize_ending p a d now h =
     (if a_revert a = None then Inr h
      else
        rbind (ending (H p) (secs p) a (Some now)) (\<lambda>fin.
        rbind (row h (action_id a)) (\<lambda>opening.
        rbind (write_event p now ENDING_AUTHORIZED (\<lambda>_. PDict [(''opening'', PStr (action_id a)), (''opening_hash'', PStr (content_hash a)),
                 (''grant_seq'', opt_pv PInt (audit_id d)), (''ending'', action_json fin)]) h) (\<lambda>(n, h1).
        rbind (of_opt TypeError (ar_lifecycle opening)) (\<lambda>lc.
          insert_action \<lparr>proposal = reload fin, ar_principal = identity (ar_principal opening), ar_cost = None,
            grant_seq = Some n, attempt_seq = None,
            ar_lifecycle = Some \<lparr>lc_decision = d\<lparr>d_action_id := action_id fin, audit_id := Some n\<rparr>, lc_approval_id = None,
              lc_member_id = lc_member_id lc, lc_retry = 0, ending_of = Some (action_id a), retry_of = None\<rparr>,
            due_at = scheduled_for fin, execution_status = Some ''scheduled'', lifecycle_seq = Some n\<rparr> h1)))))"

text \<open>\<open>Verification(...).feed(row)\<close> on a single row.\<close>

definition verified_row :: "plant \<Rightarrow> audit_row \<Rightarrow> bool" where
  "verified_row p r = (case feed (H p) (ver p) r (new_checker (household_id p) (fp p)) of Inl _ \<Rightarrow> False | Inr _ \<Rightarrow> True)"

definition pv_str :: "pv \<Rightarrow> string result" where
  "pv_str v = (case v of PStr s \<Rightarrow> Inr s | _ \<Rightarrow> Inl TypeError)"

definition validate_ending :: "plant \<Rightarrow> house \<Rightarrow> action \<Rightarrow> audit_row \<Rightarrow> unit result" where
  "validate_ending p h a g =
     rbind (pv_str (pv_get (r_payload g) ''opening'')) (\<lambda>i.
     rbind (row h i) (\<lambda>parent.
     rbind (guard ValueError (r_event g = event_name ENDING_AUTHORIZED \<and> attempt_seq parent \<noteq> None \<and>
              opt_pv PInt (grant_seq parent) = pv_get (r_payload g) ''grant_seq'' \<and>
              PStr (content_hash (proposal parent)) = pv_get (r_payload g) ''opening_hash'')) (\<lambda>_.
     rbind (ending (H p) (secs p) (proposal parent) (Some (created_at g))) (\<lambda>fin.
     rbind (digest (H p) (action_json fin)) (\<lambda>d1.
     rbind (digest (H p) (action_json a)) (\<lambda>d2.
     rbind (digest (H p) (pv_get (r_payload g) ''ending'')) (\<lambda>d3.
     rbind (guard ValueError (d1 = d2 \<and> d3 = d2)) (\<lambda>_.
     rbind (of_opt PipelineError (grant_seq parent)) (\<lambda>n.
     rbind (find_event h n) (\<lambda>original.
       guard ValueError (verified_row p original \<and> r_event original = event_name EXECUTE)))))))))))"

end
