(* ===== verification/Pipeline.thy ===== *)
theory Pipeline
  imports Boundary Storage
begin

text \<open>
  Approvals, grants and execution claims, \<open>hirz/pipeline/service.py\<close> from \<open>binding\<close> on, and the one
  retry of \<open>hirz/executor/storage.py\<close>. Each operation is the body of one serialized transaction: it
  takes the tables and returns them changed, or raises and leaves them as they were. The clock is
  read where the code reads it and is an argument; so is the fresh identifier of a new approval.
  The deployment is the local one: no AWS policy route is configured.
\<close>

section \<open>Bindings\<close>

definition binding_of :: "plant \<Rightarrow> action \<Rightarrow> principal \<Rightarrow> dec option \<Rightarrow> evaluation \<Rightarrow> binding result" where
  "binding_of p a pr cost ev =
     rbind (estimate cost) (\<lambda>c.
       Inr \<lparr>b_hash = content_hash a, b_requester = identity pr, b_resolved = requested_by (ev_action ev), b_cost = c,
            b_policy = fingerprint p, b_gates = ev_gates ev, b_ending = ending_gates ev, b_doorbell = None\<rparr>)"

text \<open>A gate with a list may only lose members, the risk band may only fall, other gates stay.\<close>

definition list_covered :: "string list option \<Rightarrow> string list option \<Rightarrow> bool" where
  "list_covered old new = (case new of None \<Rightarrow> True | Some v \<Rightarrow> (case old of None \<Rightarrow> False | Some u \<Rightarrow> set v \<subseteq> set u))"

definition gates_covered :: "gates \<Rightarrow> gates \<Rightarrow> bool" where
  "gates_covered old new \<longleftrightarrow>
     list_covered (g_constitution old) (g_constitution new) \<and> (g_pause new \<longrightarrow> g_pause old) \<and>
     list_covered (g_risk old) (g_risk new) \<and> (g_quiet new \<longrightarrow> g_quiet old) \<and> (g_budget new \<longrightarrow> g_budget old) \<and>
     (case risk_band new of None \<Rightarrow> True | Some b \<Rightarrow> (case risk_band old of None \<Rightarrow> False | Some b' \<Rightarrow> b \<le> b')) \<and>
     list_covered (risk_factors old) (risk_factors new) \<and> list_covered (unmet old) (unmet new)"

definition compatible :: "binding \<Rightarrow> binding \<Rightarrow> bool" where
  "compatible old new \<longleftrightarrow>
     b_hash old = b_hash new \<and> b_requester old = b_requester new \<and> b_resolved old = b_resolved new \<and>
     b_cost old = b_cost new \<and> b_policy old = b_policy new \<and>
     (b_doorbell new = None \<or> b_doorbell old = b_doorbell new) \<and>
     gates_covered (b_gates old) (b_gates new) \<and> (b_ending new = None \<or> b_ending old = b_ending new)"

section \<open>Asking\<close>

definition first_outcome :: "evaluation \<Rightarrow> rule_outcome result" where
  "first_outcome ev = (case outcomes ev of [] \<Rightarrow> Inl KeyError | out # _ \<Rightarrow> Inr out)"

definition approval_of :: "approval_row \<Rightarrow> rule_outcome \<Rightarrow> approval_evidence" where
  "approval_of x out = \<lparr>ae_approval_id = approval_id x, ae_quorum = ap_quorum (approval out), ae_expires_at = expires_at x\<rparr>"

definition expire :: "plant \<Rightarrow> approval_row \<Rightarrow> int \<Rightarrow> house \<Rightarrow> house result" where
  "expire p x now h =
     rbind (write_event p now EXPIRED (\<lambda>_. PDict [(''approval_id'', PStr (approval_id x))]) (set_status (approval_id x) Expired h))
       (\<lambda>(_, h1). Inr h1)"

text \<open>The approval a question is put under: the open one when it still fits, else a new one.\<close>

definition open_approval ::
  "plant \<Rightarrow> string \<Rightarrow> action \<Rightarrow> binding \<Rightarrow> rule_outcome \<Rightarrow> int \<Rightarrow> house \<Rightarrow> (approval_row \<times> house) result"
where
  "open_approval p fresh a bnd out now h =
     rbind (case pending h (action_id a) of
              None \<Rightarrow> Inr (None, h)
            | Some x \<Rightarrow> if now \<ge> expires_at x \<or> \<not> compatible (ap_binding x) bnd
                        then rbind (expire p x now h) (\<lambda>h1. Inr (None, h1)) else Inr (Some x, h)) (\<lambda>(found, h1).
     case found of
       Some x \<Rightarrow> Inr (x, h1)
     | None \<Rightarrow>
         (let x = \<lparr>approval_id = ''apr_'' @ fresh, ap_action_id = action_id a, ap_status = Pending, ap_binding = bnd,
                   ap_created_at = now, expires_at = now + ttl_minutes (approval out) * us_per_minute\<rparr>
          in rbind (insert_approval x h1) (\<lambda>h2. Inr (x, h2))))"

definition ask ::
  "plant \<Rightarrow> string \<Rightarrow> evaluation \<Rightarrow> action \<Rightarrow> principal \<Rightarrow> dec option \<Rightarrow> int \<Rightarrow> house \<Rightarrow> (evaluation \<times> house) result"
where
  "ask p fresh ev a pr cost now h =
     (let confirming = (d_event (ev_decision ev) = ASK_REQUESTER_CONFIRMATION) in
      if d_kind (ev_decision ev) \<noteq> Kask \<or> d_event (ev_decision ev) = ASK_UNRESOLVED_CONDITION \<or>
         confirming \<and> \<not> (require_active (base_desk p) \<and> security_class (action_class a)) then Inr (ev, h)
      else
        rbind (if \<not> confirming then Inr ev
               else assess_operation (H p) (secs p) (desk_of p h) a (pr\<lparr>requester_confirmed := True\<rparr>) cost [] now None None)
          (\<lambda>seen.
        if confirming \<and> d_kind (ev_decision seen) \<in> {Kdeny, Kverify} then Inr (seen, h)
        else
          let ev1 = ev\<lparr>ev_gates := ev_gates seen, ending_gates := ending_gates seen, outcomes := outcomes seen\<rparr> in
          rbind (binding_of p a pr cost ev1) (\<lambda>b.
          rbind (first_outcome ev1) (\<lambda>out.
          let bnd = b\<lparr>b_doorbell := Option.bind (ev_facts ev1) f_press\<rparr> in
          rbind (open_approval p fresh a bnd out now h) (\<lambda>(x, h1).
            Inr (ev1\<lparr>ev_decision := (ev_decision ev1)\<lparr>d_approval := Some (approval_of x out)\<rparr>\<rparr>, h1))))))"

section \<open>Votes\<close>

definition channel_allowed :: "principal \<Rightarrow> action \<Rightarrow> rule_outcome \<Rightarrow> bool" where
  "channel_allowed pr a out \<longleftrightarrow>
     p_surface pr \<noteq> Scheduler \<and>
     (if p_surface pr = App then Ch_app_push else Ch_alexa) \<in> set (channels (approval out)) \<and>
     (claimed_role pr = None \<or> claimed_role pr \<in> Some ` set (approver_roles (approval out))) \<and>
     (\<not> security_class (action_class a) \<or>
      p_surface pr = App \<and> passkey_verified pr \<and> verified_action_hash pr = Some (content_hash a))"

definition eligible_members :: "house \<Rightarrow> rule_outcome \<Rightarrow> string list" where
  "eligible_members h out = map fst (filter (\<lambda>(m, r). r \<in> set (approver_roles (approval out))) (roster h))"

text \<open>A vote counts when its member may approve, still holds the account, and used an allowed channel.\<close>

definition vote_counts :: "house \<Rightarrow> action \<Rightarrow> rule_outcome \<Rightarrow> vote_row \<Rightarrow> bool result" where
  "vote_counts h a out v =
     rbind (resolve_member h (v_principal v)) (\<lambda>m.
       if v_member_id v \<in> set (eligible_members h out) \<and> member_id m = Some (v_member_id v) \<and>
          channel_allowed (v_principal v) a out
       then credential_current h (v_principal v) else Inr False)"

text \<open>The accepted votes, or nothing once a counted vote rejects.\<close>

fun tally :: "house \<Rightarrow> action \<Rightarrow> rule_outcome \<Rightarrow> vote_row list \<Rightarrow> vote_row list \<Rightarrow> vote_row list option result" where
  "tally h a out [] acc = Inr (Some acc)"
| "tally h a out (v # vs) acc =
     rbind (vote_counts h a out v) (\<lambda>c.
       if \<not> c then tally h a out vs acc else if \<not> v_approved v then Inr None else tally h a out vs (acc @ [v]))"

definition quorum_met :: "rule_outcome \<Rightarrow> string list \<Rightarrow> string list \<Rightarrow> bool" where
  "quorum_met out eligible accepted \<longleftrightarrow> eligible \<noteq> [] \<and>
     (if ap_quorum (approval out) = All_adults then set eligible \<subseteq> set accepted else accepted \<noteq> [])"

text \<open>Satisfied, the first accepted voter, and the time of the last accepted vote.\<close>

definition eligible_votes ::
  "house \<Rightarrow> string \<Rightarrow> evaluation \<Rightarrow> (bool \<times> principal option \<times> int option) result"
where
  "eligible_votes h i ev =
     rbind (first_outcome ev) (\<lambda>out.
     rbind (tally h (ev_action ev) out (filter (\<lambda>v. v_approval_id v = i) (votes h)) []) (\<lambda>t.
       case t of
         None \<Rightarrow> Inr (False, None, None)
       | Some acc \<Rightarrow>
           (let ok = quorum_met out (eligible_members h out) (map v_member_id acc) in
            Inr (ok, map_option v_principal (if acc = [] then None else Some (hd acc)),
                 if ok then Some (Max (set (map v_created_at acc))) else None))))"

section \<open>Proposals\<close>

text \<open>Whether the request is the stored proposal, its grant, and the action to assess.\<close>

definition proposal_step ::
  "plant \<Rightarrow> action \<Rightarrow> principal \<Rightarrow> dec option \<Rightarrow> house \<Rightarrow> (bool \<times> int option \<times> action \<times> house) result"
where
  "proposal_step p a pr cost h =
     rbind (estimate cost) (\<lambda>c.
     case find_action h (action_id a) of
       Some x \<Rightarrow> rbind (ingest (H p) (proposal x)) (\<lambda>stored.
         Inr (proposal x = reload a \<and> ar_principal x = identity pr \<and> ar_cost x = c, grant_seq x, stored, h))
     | None \<Rightarrow> rbind (insert_action (new_action_row a pr c) h) (\<lambda>h1. Inr (True, None, a, h1)))"

section \<open>Authorization\<close>

text \<open>
  Classes whose grant is committed by another component (\<open>commit\<close>): tool requests, plan
  mutations, memory and constraints.
\<close>

definition commits_first :: "string \<Rightarrow> bool" where
  "commits_first name \<longleftrightarrow> name \<in> set tool_classes \<or> name \<in> set guarded \<or> name = ''governance.memory''"

definition constraint_class :: "string \<Rightarrow> bool" where
  "constraint_class name \<longleftrightarrow> name \<in> {''governance.record_constraint'', ''governance.withdraw_constraint''}"

definition committed_class :: "string \<Rightarrow> bool" where
  "committed_class name \<longleftrightarrow> commits_first name \<or> constraint_class name"

definition pause_class :: "string \<Rightarrow> bool" where
  "pause_class name \<longleftrightarrow> name \<in> {''governance.pause_automation'', ''governance.resume_automation''}"

definition set_pause :: "plant \<Rightarrow> action \<Rightarrow> int \<Rightarrow> house \<Rightarrow> house result" where
  "set_pause p a now h =
     (let want = ends_with ''pause_automation'' (action_class a) in
      if \<not> pause_class (action_class a) \<or> home_paused h = want then Inr h
      else rbind (write_event p now (if want then AUTONOMY_PAUSED else AUTONOMY_RESUMED)
                    (\<lambda>_. PDict [(''action_id'', PStr (action_id a))]) (h\<lparr>home_paused := want\<rparr>)) (\<lambda>(_, h1). Inr h1))"

text \<open>From the recorded decision on: the grant, the redeemed approval and the effects of the class.\<close>

definition grant ::
  "plant \<Rightarrow> evaluation \<Rightarrow> action \<Rightarrow> principal \<Rightarrow> dec option \<Rightarrow> approval_row option \<Rightarrow> int \<Rightarrow> house \<Rightarrow> (evaluation \<times> house) result"
where
  "grant p ev a pr cost apr now h =
     (let d = (case d_budget (ev_decision ev) of
                 None \<Rightarrow> ev_decision ev
               | Some b \<Rightarrow> (ev_decision ev)\<lparr>d_budget := Some (b\<lparr>reserved := (case cost of None \<Rightarrow> Dec 0 0 | Some c \<Rightarrow> c)\<rparr>)\<rparr>) in
      rbind (record_decision p d (Some (ev_action ev)) (ev_diagnostics ev) now h) (\<lambda>(d1, h1).
      let h2 = update_action (action_id a) (\<lambda>x. x\<lparr>grant_seq := audit_id d1\<rparr>) h1;
          h3 = (case apr of None \<Rightarrow> h2 | Some x \<Rightarrow> set_status (approval_id x) Redeemed h2) in
      rbind (if commits_first (action_class a) then commit p (ev_action ev) d1 pr now h3 else Inr h3) (\<lambda>h4.
      let h5 = update_action (action_id a) (\<lambda>x. x\<lparr>ar_lifecycle := map_option (\<lambda>lc. lc\<lparr>lc_decision := d1\<rparr>) (ar_lifecycle x)\<rparr>) h4 in
      rbind (if constraint_class (action_class a) then commit p (ev_action ev) d1 pr now h5 else Inr h5) (\<lambda>h6.
      rbind (set_pause p a now h6) (\<lambda>h7. Inr (ev\<lparr>ev_decision := d1\<rparr>, h7))))))"

text \<open>What a presented approval says before anything else is looked at; \<open>None\<close> goes on.\<close>

definition approval_refusal ::
  "string option \<Rightarrow> approval_row option \<Rightarrow> action \<Rightarrow> int \<Rightarrow> house \<Rightarrow> (event_type \<times> house) option"
where
  "approval_refusal apr_id apr a now h =
     (if apr_id = None \<or> apr_id = Some [] then None
      else case apr of
        None \<Rightarrow> Some (DENY_APPROVAL_MISMATCH, h)
      | Some x \<Rightarrow>
          if ap_action_id x \<noteq> action_id a then Some (DENY_APPROVAL_MISMATCH, h)
          else if ap_status x = Redeemed then Some (DENY_APPROVAL_USED, h)
          else if now \<ge> expires_at x \<or> ap_status x = Expired
               then Some (DENY_APPROVAL_EXPIRED, set_status (approval_id x) Expired h)
          else if ap_status x = Rejected then Some (DENY_APPROVAL_UNAUTHORIZED, h)
          else None)"

text \<open>The ending of a bounded operation must pass too, before and at the boundary.\<close>

datatype ending_verdict = Ending_ok | Ending_refused event_type | Ending_asks

definition authorize_ending_check ::
  "plant \<Rightarrow> action \<Rightarrow> principal \<Rightarrow> approval_row option \<Rightarrow> int option \<Rightarrow> principal option \<Rightarrow> int \<Rightarrow> house \<Rightarrow> ending_verdict result"
where
  "authorize_ending_check p a pr apr approved_at voter now h =
     (if a_revert a = None then Inr Ending_ok
      else
        rbind (ending (H p) (secs p) a None) (\<lambda>fin.
        rbind (assess (desk_of p h) (fin\<lparr>plan_id := None\<rparr>)
                 (if action_class a = ''security.door_unlock'' then pr\<lparr>requester_confirmed := True\<rparr> else pr)
                 (Some (Dec 0 0)) [] now None None) (\<lambda>fev.
          if d_kind (ev_decision fev) \<in> {Kdeny, Kverify} then Inr (Ending_refused DENY_CONSTITUTION)
          else if d_kind (ev_decision fev) = Kask \<and> apr = None then Inr Ending_asks
          else rbind (boundary_check p h fev now approved_at voter) (\<lambda>fev'.
            Inr (if d_kind (ev_decision fev') = Kexecute then Ending_ok else Ending_refused DENY_BOUNDARY)))))"

text \<open>From the accepted votes on.\<close>

definition authorize_passed ::
  "plant \<Rightarrow> string \<Rightarrow> evaluation \<Rightarrow> action \<Rightarrow> principal \<Rightarrow> dec option \<Rightarrow> int \<Rightarrow> int \<Rightarrow> string option \<Rightarrow> approval_row option
     \<Rightarrow> int option \<Rightarrow> principal option \<Rightarrow> bool \<Rightarrow> house \<Rightarrow> (evaluation \<times> house) result"
where
  "authorize_passed p fresh ev a pr cost now later apr_id apr approved_at voter enqueue h =
     (if enqueue then
        (let ev1 = conclude ev EXECUTE in
         rbind (scheduled p (ev_action ev1) (ev_decision ev1) apr_id None later h) (\<lambda>(d, h1). Inr (ev1\<lparr>ev_decision := d\<rparr>, h1)))
      else
        rbind (authorize_ending_check p a pr apr approved_at voter now h) (\<lambda>verdict.
        case verdict of
          Ending_refused e \<Rightarrow> Inr (conclude ev e, h)
        | Ending_asks \<Rightarrow> ask p fresh (conclude ev ASK_CONSTITUTION) a pr cost now h
        | Ending_ok \<Rightarrow>
            rbind (boundary_check p h ev now approved_at voter) (\<lambda>ev1.
            if d_kind (ev_decision ev1) \<noteq> Kexecute then Inr (ev1, h)
            else (case apr of
                    None \<Rightarrow> grant p ev1 a pr cost None now h
                  | Some x \<Rightarrow>
                      if later \<ge> expires_at x then Inr (conclude ev1 DENY_APPROVAL_EXPIRED, set_status (approval_id x) Expired h)
                      else grant p ev1 a pr cost (Some x) now h))))"

definition authorize ::
  "plant \<Rightarrow> string \<Rightarrow> evaluation \<Rightarrow> action \<Rightarrow> principal \<Rightarrow> dec option \<Rightarrow> int \<Rightarrow> int \<Rightarrow> string option \<Rightarrow> approval_row option
     \<Rightarrow> bool \<Rightarrow> house \<Rightarrow> (evaluation \<times> house) result"
where
  "authorize p fresh ev a pr cost now later apr_id apr enqueue h =
     (let bound = (case apr of None \<Rightarrow> False | Some x \<Rightarrow> b_doorbell (ap_binding x) \<noteq> None) in
      if d_kind (ev_decision ev) = Kdeny \<and> \<not> bound then Inr (ev, h)
      else case approval_refusal apr_id apr a now h of
        Some (e, h1) \<Rightarrow> Inr (conclude ev e, h1)
      | None \<Rightarrow>
          if d_kind (ev_decision ev) \<in> {Kdeny, Kverify} \<or>
             d_event (ev_decision ev) \<in> {ASK_REQUESTER_CONFIRMATION, ASK_UNRESOLVED_CONDITION} then Inr (ev, h)
          else (case apr of
            Some x \<Rightarrow>
              rbind (binding_of p a pr cost ev) (\<lambda>current.
              if \<not> compatible (ap_binding x) current then
                ask p fresh (conclude ev ASK_CONSTITUTION) a pr cost now (set_status (approval_id x) Expired h)
              else
                rbind (eligible_votes h (approval_id x) ev) (\<lambda>(ok, voter, approved_at).
                  if \<not> ok then Inr (conclude ev DENY_APPROVAL_UNAUTHORIZED, h)
                  else authorize_passed p fresh ev a pr cost now later apr_id apr approved_at voter enqueue h))
          | None \<Rightarrow>
              if d_kind (ev_decision ev) = Kask then ask p fresh ev a pr cost now h
              else authorize_passed p fresh ev a pr cost now later apr_id None None None enqueue h))"


section \<open>Requests\<close>

text \<open>The answer: a decision, or the stored decision of an earlier grant.\<close>

datatype reply = Decided decision | Replayed pv

definition finish :: "plant \<Rightarrow> evaluation \<Rightarrow> int \<Rightarrow> house \<Rightarrow> (reply \<times> house) result" where
  "finish p ev now h =
     (if audit_id (ev_decision ev) \<noteq> None then Inr (Decided (ev_decision ev), h)
      else rbind (record_decision p (ev_decision ev) (Some (ev_action ev)) (ev_diagnostics ev) now h) (\<lambda>(d, h1). Inr (Decided d, h1)))"

text \<open>
  \<open>mutate_locked\<close>. \<open>review\<close> is the requester review of the tool call: whether the request's binding
  was accepted, when there is one. An unconfirmed request under review unwinds the transaction.
\<close>

record call =
  c_action :: action
  c_principal :: principal
  c_cost :: "dec option"
  c_evidence :: "supplemental list"
  c_redeem :: bool
  c_approval_id :: "string option"
  c_enqueue :: bool
  c_review :: "bool option"
  c_fresh :: string
  c_now :: int
  c_later :: int

definition review_of :: "call \<Rightarrow> bool option" where
  "review_of c =
     (if p_surface (c_principal c) = Alexa \<and> \<not> security_class (action_class (c_action c)) then c_review c else None)"

definition caller :: "call \<Rightarrow> principal" where
  "caller c = (if review_of c = Some True then (c_principal c)\<lparr>requester_confirmed := True\<rparr> else c_principal c)"

definition presented :: "call \<Rightarrow> house \<Rightarrow> approval_row option" where
  "presented c h =
     (if c_redeem c then (case c_approval_id c of None \<Rightarrow> None | Some i \<Rightarrow> if i = [] then None else find_approval h i) else None)"

definition bound_press :: "call \<Rightarrow> approval_row option \<Rightarrow> press option" where
  "bound_press c apr =
     (case apr of None \<Rightarrow> None
      | Some x \<Rightarrow> if ap_action_id x = action_id (c_action c) then b_doorbell (ap_binding x) else None)"

text \<open>From the assessment on.\<close>

definition mutate_assessed ::
  "plant \<Rightarrow> call \<Rightarrow> evaluation \<Rightarrow> bool \<Rightarrow> int option \<Rightarrow> house \<Rightarrow> (reply \<times> house) result"
where
  "mutate_assessed p c ev matched granted h =
     (let a = c_action c; pr = caller c; now = c_now c in
      if \<not> matched then finish p (conclude ev DENY_APPROVAL_MISMATCH) now h
      else case granted of
        Some n \<Rightarrow>
          if action_class a = ''governance.memory'' \<or> constraint_class (action_class a)
          then rbind (find_event h n) (\<lambda>r. Inr (Replayed (r_payload r), h))
          else finish p (conclude ev DENY_APPROVAL_USED) now h
      | None \<Rightarrow>
          if c_redeem c then
            rbind (authorize p (c_fresh c) ev a pr (c_cost c) now (c_later c) (c_approval_id c) (presented c h) (c_enqueue c) h)
              (\<lambda>(ev1, h1). finish p ev1 now h1)
          else
            rbind (if d_kind (ev_decision ev) = Kexecute then boundary_check p h ev now None None else Inr ev) (\<lambda>ev1.
            rbind (ask p (c_fresh c) ev1 a pr (c_cost c) now h) (\<lambda>(ev2, h1). finish p ev2 now h1)))"

definition mutate_locked :: "plant \<Rightarrow> call \<Rightarrow> house \<Rightarrow> (reply \<times> house) result" where
  "mutate_locked p c h =
     rbind (ingest (H p) (c_action c)) (\<lambda>a.
     rbind (guard ValueError (action_class a = ''governance.memory'' \<longrightarrow> memory_command p (params a))) (\<lambda>_.
     rbind (proposal_step p a (caller c) (c_cost c) h) (\<lambda>(matched, granted, stored, h1).
     rbind (if c_enqueue c \<and> matched then rbind (row h1 (action_id a)) (\<lambda>x. Inr (if ar_lifecycle x = None then None else Some x))
            else Inr None) (\<lambda>previous.
     case previous of
       Some x \<Rightarrow> rbind (repeated p x) (\<lambda>d. Inr (Decided d, h1))
     | None \<Rightarrow>
         rbind (assess_operation (H p) (secs p) (desk_of p h1) (if matched then stored else a) (caller c) (c_cost c)
                  (c_evidence c) (c_now c) None (bound_press c (presented c h1))) (\<lambda>ev.
         if review_of c \<noteq> None \<and> d_event (ev_decision ev) = ASK_REQUESTER_CONFIRMATION then Inl RequesterReview
         else mutate_assessed p c ev matched granted h1)))))"

section \<open>Voting\<close>

definition vote_evaluation :: "constitution \<Rightarrow> action \<Rightarrow> rule_outcome \<Rightarrow> evaluation" where
  "vote_evaluation pol a out =
     (initial_evaluation pol a)\<lparr>outcomes := [out],
        ev_decision := (ev_decision (initial_evaluation pol a))\<lparr>d_kind := Kask, d_event := ASK_CONSTITUTION,
          d_constitution := \<lparr>ce_version = version pol, ce_rule = action_class a, ce_mode = effective_mode out, ce_met = False\<rparr>\<rparr>\<rparr>"

text \<open>The answer to a vote on no approval.\<close>

definition unknown_decision :: "constitution \<Rightarrow> decision" where
  "unknown_decision pol =
     \<lparr>d_kind = Kdeny, d_event = DENY_APPROVAL_MISMATCH, d_action_id = ''unknown'', d_risk = None,
      d_constitution = \<lparr>ce_version = version pol, ce_rule = ''unknown'', ce_mode = Never, ce_met = False\<rparr>,
      d_boundary = \<lparr>be_engine = ''dogwood-local'', be_result = Not_evaluated, context_hash = None, be_roles = []\<rparr>,
      d_approval = None, d_budget = None, rejected = [], audit_id = None, d_status = None, narration = PNone\<rparr>"

definition vote_payload :: "approval_row \<Rightarrow> string \<Rightarrow> action \<Rightarrow> bool \<Rightarrow> principal \<Rightarrow> pv" where
  "vote_payload x m a approved pr =
     PDict [(''approval_id'', PStr (approval_id x)), (''member_id'', PStr m), (''action_hash'', PStr (content_hash a)),
       (''approved'', PBool approved), (''surface'', PStr (surface_name (p_surface pr))),
       (''passkey_verified'', PBool (passkey_verified pr)), (''verified_action_hash'', opt_str (verified_action_hash pr))]"

text \<open>A vote that may be cast: the first of a member is stored, a later one repeats it.\<close>

definition cast_vote ::
  "plant \<Rightarrow> approval_row \<Rightarrow> evaluation \<Rightarrow> action \<Rightarrow> requester \<Rightarrow> principal \<Rightarrow> bool \<Rightarrow> int \<Rightarrow> house \<Rightarrow> (bool \<times> house) result"
where
  "cast_vote p x ev a m pr approved now h =
     rbind (of_opt TypeError (member_id m)) (\<lambda>i.
     case List.find (\<lambda>v. v_approval_id v = approval_id x \<and> v_member_id v = i) (votes h) of
       Some v \<Rightarrow> Inr (v_approved v, h)
     | None \<Rightarrow>
         (let h1 = h\<lparr>votes := votes h @ [\<lparr>v_approval_id = approval_id x, v_member_id = i, v_approved = approved,
                     v_principal = pr, v_created_at = now\<rparr>]\<rparr> in
          rbind (write_event p now (if approved then APPROVED else REJECTED) (\<lambda>_. vote_payload x i a approved pr) h1) (\<lambda>(_, h2).
          rbind (eligible_votes h2 (approval_id x) ev) (\<lambda>(ok, _).
            Inr (approved, set_status (approval_id x) (if \<not> approved then Rejected else if ok then Approved else Pending) h2)))))"

text \<open>The event of a vote and what it changes.\<close>

definition vote_event ::
  "plant \<Rightarrow> approval_row \<Rightarrow> evaluation \<Rightarrow> rule_outcome \<Rightarrow> action \<Rightarrow> requester \<Rightarrow> principal \<Rightarrow> bool \<Rightarrow> int \<Rightarrow> house
     \<Rightarrow> (event_type \<times> house) result"
where
  "vote_event p x ev out a m pr approved now h =
     (if ap_status x = Redeemed then Inr (DENY_APPROVAL_USED, h)
      else if now \<ge> expires_at x \<or> ap_status x = Expired then Inr (DENY_APPROVAL_EXPIRED, set_status (approval_id x) Expired h)
      else if b_doorbell (ap_binding x) \<noteq> None \<and> d_kind (ev_decision ev) = Kdeny then Inr (d_event (ev_decision ev), h)
      else if ap_status x = Rejected \<or> rq_role m \<notin> set (approver_roles (approval out)) \<or> \<not> channel_allowed pr (ev_action ev) out
      then Inr (DENY_APPROVAL_UNAUTHORIZED, h)
      else
        rbind (credential_current h pr) (\<lambda>current.
        if \<not> current then Inr (DENY_APPROVAL_UNAUTHORIZED, h)
        else rbind (cast_vote p x ev a m pr approved now h) (\<lambda>(final, h1). Inr (if final then APPROVED else REJECTED, h1))))"

definition vote_locked ::
  "plant \<Rightarrow> string \<Rightarrow> principal \<Rightarrow> bool \<Rightarrow> int \<Rightarrow> house \<Rightarrow> (decision \<times> house) result"
where
  "vote_locked p apr_id pr approved now h =
     (let pol = policy (base_desk p); k = desk_of p h in
      case find_approval h apr_id of
        None \<Rightarrow> record_decision p (unknown_decision pol) None [] now h
      | Some x \<Rightarrow>
          rbind (row h (ap_action_id x)) (\<lambda>stored.
          rbind (ingest (H p) (proposal stored)) (\<lambda>a.
          rbind (resolve_member h (ar_principal stored)) (\<lambda>rq.
          rbind (resolve (frames k) pol (a\<lparr>requested_by := rq\<rparr>)
                   \<lparr>household = c_household pol, as_of = now, pf_values = [], member_ids = [], zone_ids = []\<rparr> False) (\<lambda>out0.
          rbind (case b_doorbell (ap_binding x) of
                   None \<Rightarrow> Inr (vote_evaluation pol a out0)
                 | Some press \<Rightarrow> assess k a (ar_principal stored) (ar_cost stored) [] now None (Some press)) (\<lambda>ev.
          let out = (case outcomes ev of [] \<Rightarrow> out0 | o' # _ \<Rightarrow> o') in
          rbind (resolve_member h pr) (\<lambda>m.
          rbind (vote_event p x ev out a m pr approved now h) (\<lambda>(e, h1).
          let ev1 = conclude (ev\<lparr>ev_decision := (ev_decision ev)\<lparr>d_approval := Some (approval_of x out)\<rparr>\<rparr>) e;
              d = (if e = APPROVED then (ev_decision ev1)\<lparr>d_kind := Kask\<rparr>
                   else if e = REJECTED then (ev_decision ev1)\<lparr>d_kind := Kdeny\<rparr> else ev_decision ev1)
          in record_decision p d (Some (ev_action ev1)) (ev_diagnostics ev1) now h1))))))))"

section \<open>Claiming an execution\<close>

definition claimable :: "action \<Rightarrow> decision \<Rightarrow> bool" where
  "claimable a d \<longleftrightarrow> adapter (a_target a) \<in> {''ha'', ''twin''} \<and>
     action_class a \<in> {''environment.lights'', ''energy.hvac_adjust'', ''energy.ev_charge'', ''energy.battery_dispatch'',
       ''energy.appliance_start'', ''security.door_unlock''} \<and>
     \<not> (action_class a = ''security.door_unlock'' \<and> adapter (a_target a) \<noteq> ''twin'') \<and>
     d_kind d = Kexecute \<and> d_event d = EXECUTE \<and> d_action_id d = action_id a \<and> audit_id d \<noteq> None"

text \<open>A grant is used within ten seconds, or it is the grant of an ending.\<close>

definition grant_current :: "plant \<Rightarrow> house \<Rightarrow> action_row \<Rightarrow> action \<Rightarrow> decision \<Rightarrow> audit_row \<Rightarrow> int \<Rightarrow> unit result" where
  "grant_current p h x a d g now =
     (case Option.bind (ar_lifecycle x) ending_of of
        Some _ \<Rightarrow> validate_ending p h a g
      | None \<Rightarrow> guard ValueError (r_event g = event_name EXECUTE \<and> 0 \<le> now - created_at g \<and>
          now - created_at g \<le> 10 * us_per_second \<and> H p (r_payload g) = H p (decision_dump d)))"

definition timely :: "action_row \<Rightarrow> action \<Rightarrow> int \<Rightarrow> bool" where
  "timely x a now \<longleftrightarrow>
     (case ar_lifecycle x of
        None \<Rightarrow> scheduled_for a = None
      | Some lc \<Rightarrow> execution_status x = Some ''scheduled'' \<and>
          (case due_at x of None \<Rightarrow> False | Some t \<Rightarrow> t \<le> now) \<and> (ending_of lc \<noteq> None \<or> \<not> is_expired a now))"

definition requester_holds :: "plant \<Rightarrow> house \<Rightarrow> action_row \<Rightarrow> action \<Rightarrow> int \<Rightarrow> unit result" where
  "requester_holds p h x a now =
     (case ar_lifecycle x of
        None \<Rightarrow> Inr ()
      | Some lc \<Rightarrow>
          if ending_of lc \<noteq> None then Inr ()
          else
            rbind (resolve_member h (ar_principal x)) (\<lambda>m.
            rbind (guard ValueError (member_id m = lc_member_id lc)) (\<lambda>_.
            rbind (if plan_id a \<noteq> None \<and> plan_id a \<noteq> Some [] then plan_authority (base_desk p) a (ar_principal x) else Inr ()) (\<lambda>_.
              guard ValueError (case List.find (\<lambda>y. ap_action_id y = action_id a \<and> ap_status y = Redeemed) (approvals h) of
                None \<Rightarrow> True | Some y \<Rightarrow> now < expires_at y)))))"

definition bound_device :: "plant \<Rightarrow> action \<Rightarrow> bool" where
  "bound_device p a =
     (case filter (\<lambda>b. b_adapter b = adapter (a_target a) \<and> b_entity_id b = entity (a_target a)) (device_bindings p) of
        [b] \<Rightarrow> (case zone (a_target a) of None \<Rightarrow> True | Some z \<Rightarrow> b_asset_id b = z)
      | _ \<Rightarrow> False)"

definition claim_locked :: "plant \<Rightarrow> action \<Rightarrow> decision \<Rightarrow> int \<Rightarrow> house \<Rightarrow> (int \<times> house) result" where
  "claim_locked p a0 d now h =
     rbind (ingest (H p) a0) (\<lambda>a.
     rbind (guard ValueError (claimable a d)) (\<lambda>_.
     rbind (row h (action_id a)) (\<lambda>x.
     rbind (guard ValueError (attempt_seq x = None \<and> grant_seq x = audit_id d \<and> H p (action_json (proposal x)) = H p (action_json a))) (\<lambda>_.
     rbind (of_opt ValueError (grant_seq x)) (\<lambda>n.
     rbind (find_event h n) (\<lambda>g.
     rbind (guard ValueError (verified_row p g)) (\<lambda>_.
     rbind (grant_current p h x a d g now) (\<lambda>_.
     rbind (guard ValueError (timely x a now)) (\<lambda>_.
     rbind (requester_holds p h x a now) (\<lambda>_.
     rbind (guard ValueError (bound_device p a)) (\<lambda>_.
     rbind (if ar_lifecycle x \<noteq> None then authorize_ending p a d now h else Inr h) (\<lambda>h1.
     rbind (write_event p now EXECUTION_ATTEMPTED (\<lambda>_. PDict [(''action_id'', PStr (action_id a)),
              (''content_hash'', PStr (content_hash a)), (''grant_seq'', opt_pv PInt (audit_id d))]) h1) (\<lambda>(sq, h2).
       Inr (sq, update_action (action_id a) (\<lambda>y. if ar_lifecycle x = None then y\<lparr>attempt_seq := Some sq\<rparr>
              else y\<lparr>attempt_seq := Some sq, execution_status := Some ''executing'', lifecycle_seq := Some sq\<rparr>) h2))))))))))))))"

text \<open>Every refusal is one error; a plan that lost its authority is told apart.\<close>

definition claim_execution :: "plant \<Rightarrow> action \<Rightarrow> decision \<Rightarrow> int \<Rightarrow> house \<Rightarrow> (int \<times> house) result" where
  "claim_execution p a d now h =
     (case claim_locked p a d now h of
        Inr r \<Rightarrow> Inr r
      | Inl e \<Rightarrow> Inl (if e = PlanAuthorityChanged then PlanAuthorityChanged else PipelineError))"

fun outcome_status :: "event_type \<Rightarrow> string option" where
  "outcome_status EXECUTED = Some ''dispatched''"
| "outcome_status VERIFIED = Some ''verified''"
| "outcome_status VERIFY_FAILED = Some ''failed''"
| "outcome_status _ = None"

definition outcome_locked :: "plant \<Rightarrow> action \<Rightarrow> int \<Rightarrow> event_type \<Rightarrow> int \<Rightarrow> house \<Rightarrow> house result" where
  "outcome_locked p a attempt e now h =
     rbind (row h (action_id a)) (\<lambda>x.
     rbind (guard ValueError (attempt_seq x = Some attempt)) (\<lambda>_.
     rbind (of_opt ValueError (outcome_status e)) (\<lambda>status.
       if ar_lifecycle x \<noteq> None
       then rbind (transition p (action_id a) status e [(''execution_attempt_seq'', PInt attempt)] now h) (\<lambda>(_, h1). Inr h1)
       else rbind (write_event p now e (\<lambda>_. PDict [(''action_id'', PStr (action_id a)), (''execution_attempt_seq'', PInt attempt)]) h)
              (\<lambda>(_, h1). Inr h1))))"

text \<open>An exception inside a transaction rolls it back and is reported as one error.\<close>

definition sealed :: "'a result \<Rightarrow> 'a result" where
  "sealed r = (case r of Inl _ \<Rightarrow> Inl PipelineError | Inr x \<Rightarrow> Inr x)"

definition execution_outcome :: "plant \<Rightarrow> action \<Rightarrow> int \<Rightarrow> event_type \<Rightarrow> int \<Rightarrow> house \<Rightarrow> house result" where
  "execution_outcome p a attempt e now h = sealed (outcome_locked p a attempt e now h)"

section \<open>Entry points\<close>

text \<open>\<open>evaluate\<close> assesses and asks the boundary, and writes nothing.\<close>

definition evaluate_action ::
  "plant \<Rightarrow> action \<Rightarrow> principal \<Rightarrow> dec option \<Rightarrow> supplemental list \<Rightarrow> preview option \<Rightarrow> int \<Rightarrow> int \<Rightarrow> house \<Rightarrow> decision result"
where
  "evaluate_action p a0 pr cost evs pre now later h =
     rbind (ingest (H p) a0) (\<lambda>a.
     rbind (estimate cost) (\<lambda>_.
     sealed (
       rbind (assess_operation (H p) (secs p) (desk_of p h) a pr cost evs now pre None) (\<lambda>ev.
       rbind (if d_kind (ev_decision ev) = Kexecute then boundary_check p h ev later None None else Inr ev) (\<lambda>ev1.
         Inr (narrated p (ev_decision ev1) (Some (ev_action ev1))))))))"

definition mutate :: "plant \<Rightarrow> call \<Rightarrow> house \<Rightarrow> (reply \<times> house) result" where
  "mutate p c h =
     rbind (ingest (H p) (c_action c)) (\<lambda>_.
     rbind (estimate (c_cost c)) (\<lambda>_.
       sealed (mutate_locked p c h)))"

definition propose :: "plant \<Rightarrow> call \<Rightarrow> house \<Rightarrow> (reply \<times> house) result" where
  "propose p c h = mutate p (c\<lparr>c_redeem := False, c_approval_id := None, c_enqueue := False\<rparr>) h"

definition redeem :: "plant \<Rightarrow> call \<Rightarrow> house \<Rightarrow> (reply \<times> house) result" where
  "redeem p c h = mutate p (c\<lparr>c_redeem := True, c_enqueue := False\<rparr>) h"

definition enqueue :: "plant \<Rightarrow> call \<Rightarrow> house \<Rightarrow> (reply \<times> house) result" where
  "enqueue p c h =
     rbind (validate (H p) (secs p) (c_action c)) (\<lambda>_.
       mutate p (c\<lparr>c_evidence := [], c_redeem := True, c_enqueue := True\<rparr>) h)"

definition vote :: "plant \<Rightarrow> string \<Rightarrow> principal \<Rightarrow> bool \<Rightarrow> int \<Rightarrow> house \<Rightarrow> (decision \<times> house) result" where
  "vote p i pr approved now h = sealed (vote_locked p i pr approved now h)"

section \<open>Retrying\<close>

text \<open>A late opening is shortened to the original absolute ending, never extended.\<close>

definition retry_action :: "plant \<Rightarrow> string \<Rightarrow> action \<Rightarrow> int \<Rightarrow> action option result" where
  "retry_action p fresh a now =
     (let b = a\<lparr>action_id := fresh, scheduled_for := Some now\<rparr> in
      rbind (case a_revert a of
               None \<Rightarrow> Inr (Some b)
             | Some r \<Rightarrow>
                 rbind (ending (H p) (secs p) a None) (\<lambda>fin.
                 rbind (of_opt TypeError (scheduled_for fin)) (\<lambda>t.
                   Inr (if t - now \<le> 0 then None
                        else Some (b\<lparr>a_revert := Some (r\<lparr>after_s := PFloat (FFin (Dec (t - now) (- 6)))\<rparr>)\<rparr>))))) (\<lambda>made.
        Inr (map_option (\<lambda>b. b\<lparr>content_hash := action_hash (H p) b\<rparr>) made)))"

text \<open>
  The retry is proposed, assessed and scheduled like its parent, under the parent's principal. The
  link to a plan (\<open>plan_actions\<close>) is a table of the plan component.
\<close>

definition retry_made ::
  "plant \<Rightarrow> string \<Rightarrow> action \<Rightarrow> action_row \<Rightarrow> action \<Rightarrow> int \<Rightarrow> house \<Rightarrow> (decision option \<times> house) result"
where
  "retry_made p fresh_approval original parent a now h =
     rbind (proposal_step p a (ar_principal parent) (ar_cost parent) h) (\<lambda>(_, _, _, h1).
     rbind (assess_operation (H p) (secs p) (desk_of p h1) a (ar_principal parent) (ar_cost parent) [] now None None) (\<lambda>ev.
     if d_kind (ev_decision ev) \<noteq> Kexecute then
       rbind (ask p fresh_approval ev a (ar_principal parent) (ar_cost parent) now h1) (\<lambda>(ev1, h2).
       rbind (record_decision p (ev_decision ev1) (Some (ev_action ev1)) (ev_diagnostics ev1) now h2) (\<lambda>(d, h3). Inr (Some d, h3)))
     else
       rbind (scheduled p (ev_action ev) (ev_decision ev) None (Some (action_id original)) now h1) (\<lambda>(d, h2).
       let h3 = update_action (action_id a) (\<lambda>x. x\<lparr>ar_lifecycle := map_option
                  (\<lambda>l. l\<lparr>lc_retry := 1, retry_of := Some (action_id original)\<rparr>) (ar_lifecycle x)\<rparr>) h2 in
       rbind (write_event p now SCHEDULED (\<lambda>_. PDict [(''action_id'', PStr (action_id a)), (''retry_of'', PStr (action_id original))]) h3)
         (\<lambda>(_, h4). Inr (Some d, h4)))))"

definition retry ::
  "plant \<Rightarrow> string \<Rightarrow> string \<Rightarrow> action \<Rightarrow> int \<Rightarrow> house \<Rightarrow> (decision option \<times> house) result"
where
  "retry p fresh fresh_approval original now h =
     rbind (row h (action_id original)) (\<lambda>parent.
     if execution_status parent \<noteq> Some ''failed'' then Inr (None, h)
     else
       rbind (of_opt TypeError (ar_lifecycle parent)) (\<lambda>lc.
       if lc_retry lc \<noteq> 0 \<or>
          list_ex (\<lambda>x. Option.bind (ar_lifecycle x) retry_of = Some (action_id original)) (actions h) then Inr (None, h)
       else
         rbind (retry_action p fresh original now) (\<lambda>made.
         case made of None \<Rightarrow> Inr (None, h) | Some a \<Rightarrow> retry_made p fresh_approval original parent a now h)))"

end
