(* ===== verification/Tables.thy ===== *)
theory Tables
  imports Pipeline
begin

text \<open>
  The invariant of the household's tables and the order in which they grow. \<open>house_ok\<close> says what
  every transaction keeps: a verified log, keys that are unique, one open approval per action, one
  vote per member, grants and attempts that point into the log, and a grant behind every redeemed
  approval. \<open>extends\<close> says what never changes once written: the log, the commands of the rows, grants and
  attempts, votes, and the final states of an approval. \<open>other_write\<close> lists what the components beside the
  pipeline's own transactions write to these tables.
\<close>

section \<open>Growing tables\<close>

definition grows :: "('a \<Rightarrow> 'a \<Rightarrow> bool) \<Rightarrow> 'a list \<Rightarrow> 'a list \<Rightarrow> bool" where
  "grows R xs ys \<longleftrightarrow> length xs \<le> length ys \<and> (\<forall>i < length xs. R (xs ! i) (ys ! i))"

lemma grows_refl: "(\<And>x. R x x) \<Longrightarrow> grows R xs xs"
  by (simp add: grows_def)

lemma grows_trans:
  "grows R xs ys \<Longrightarrow> grows R ys zs \<Longrightarrow> (\<And>x y z. R x y \<Longrightarrow> R y z \<Longrightarrow> R x z) \<Longrightarrow> grows R xs zs"
  unfolding grows_def by (meson le_trans less_le_trans)

lemma grows_append: "(\<And>x. R x x) \<Longrightarrow> grows R xs (xs @ ys)"
  by (simp add: grows_def nth_append)

lemma grows_map: "(\<And>x. x \<in> set xs \<Longrightarrow> R x (f x)) \<Longrightarrow> grows R xs (map f xs)"
  by (simp add: grows_def)

lemma grows_member: "grows R xs ys \<Longrightarrow> x \<in> set xs \<Longrightarrow> \<exists>y \<in> set ys. R x y"
  by (metis grows_def in_set_conv_nth less_le_trans)

section \<open>What stays\<close>

text \<open>
  Two proposals of the same command: they read back the same but for the requester, in whose name a plan
  schedules its actions.
\<close>

definition same_command :: "action \<Rightarrow> action \<Rightarrow> bool" where
  "same_command a b \<longleftrightarrow> reload (a\<lparr>requested_by := requested_by b\<rparr>) = reload b"

lemma jsonb_dict_idem [simp]: "jsonb_dict (jsonb_dict d) = jsonb_dict d"
  by (simp add: jsonb_dict_def comp_def case_prod_unfold)

lemma reload_idem [simp]: "reload (reload a) = reload a"
  by (simp add: reload_def option.map_comp comp_def)

lemma reload_id [simp]: "action_id (reload a) = action_id a" "content_hash (reload a) = content_hash a"
  "action_class (reload a) = action_class a" "requested_by (reload a) = requested_by a"
  by (simp_all add: reload_def)

lemma reload_requester: "reload (a\<lparr>requested_by := m\<rparr>) = (reload a)\<lparr>requested_by := m\<rparr>"
  by (simp add: reload_def)

lemma same_command_refl [simp]: "same_command a a"
  by (simp add: same_command_def)

lemma same_command_id: "same_command a b \<Longrightarrow> action_id b = action_id a"
  unfolding same_command_def by (drule arg_cong [of _ _ action_id]) simp

lemma same_command_trans: "same_command a b \<Longrightarrow> same_command b c \<Longrightarrow> same_command a c"
proof -
  assume "same_command a b" and c: "same_command b c"
  then have b: "(reload a)\<lparr>requested_by := requested_by b\<rparr> = reload b" by (simp add: same_command_def reload_requester)
  have "(reload a)\<lparr>requested_by := requested_by c\<rparr> = ((reload a)\<lparr>requested_by := requested_by b\<rparr>)\<lparr>requested_by := requested_by c\<rparr>"
    by simp
  also have "\<dots> = reload c" using c unfolding b by (simp add: same_command_def reload_requester)
  finally show "same_command a c" by (simp add: same_command_def reload_requester)
qed

lemma same_command_reload: "same_command (reload a) (reload (a\<lparr>requested_by := m\<rparr>))" "same_command a (reload (a\<lparr>requested_by := m\<rparr>))"
  by (simp_all add: same_command_def reload_requester)

definition keeps_row :: "action_row \<Rightarrow> action_row \<Rightarrow> bool" where
  "keeps_row x y \<longleftrightarrow> same_command (proposal x) (proposal y) \<and> ar_cost y = ar_cost x \<and>
     (grant_seq x \<noteq> None \<longrightarrow> grant_seq y = grant_seq x) \<and> (attempt_seq x \<noteq> None \<longrightarrow> attempt_seq y = attempt_seq x)"

definition open_status :: "approval_status \<Rightarrow> bool" where
  "open_status s \<longleftrightarrow> s \<in> {Pending, Approved}"

text \<open>An open approval may go anywhere; a rejected one may still expire; the others are final.\<close>

definition status_step :: "approval_status \<Rightarrow> approval_status \<Rightarrow> bool" where
  "status_step s t \<longleftrightarrow> s = t \<or> open_status s \<or> s = Rejected \<and> t = Expired"

definition keeps_approval :: "approval_row \<Rightarrow> approval_row \<Rightarrow> bool" where
  "keeps_approval x y \<longleftrightarrow> approval_id y = approval_id x \<and> ap_action_id y = ap_action_id x \<and> ap_binding y = ap_binding x \<and>
     ap_created_at y = ap_created_at x \<and> expires_at y = expires_at x \<and> status_step (ap_status x) (ap_status y)"

lemma keeps_row_refl [simp]: "keeps_row x x"
  by (simp add: keeps_row_def)

lemma keeps_row_trans: "keeps_row x y \<Longrightarrow> keeps_row y z \<Longrightarrow> keeps_row x z"
  by (auto simp: keeps_row_def intro: same_command_trans)

lemma keeps_row_id: "keeps_row x y \<Longrightarrow> action_id (proposal y) = action_id (proposal x)"
  by (simp add: keeps_row_def same_command_id)

lemma status_step_refl [simp]: "status_step s s"
  by (simp add: status_step_def)

lemma status_step_trans: "status_step s t \<Longrightarrow> status_step t u \<Longrightarrow> status_step s u"
  by (auto simp: status_step_def open_status_def)

lemma keeps_approval_refl [simp]: "keeps_approval x x"
  by (simp add: keeps_approval_def)

lemma keeps_approval_trans: "keeps_approval x y \<Longrightarrow> keeps_approval y z \<Longrightarrow> keeps_approval x z"
  by (auto simp: keeps_approval_def intro: status_step_trans)

definition extends :: "house \<Rightarrow> house \<Rightarrow> bool" where
  "extends h h' \<longleftrightarrow> grows keeps_row (actions h) (actions h') \<and> grows keeps_approval (approvals h) (approvals h') \<and>
     grows (=) (votes h) (votes h') \<and> grows (=) (log (audit h)) (log (audit h'))"

lemma extends_refl [simp]: "extends h h"
  by (simp add: extends_def grows_refl)

lemma extends_trans: "extends h1 h2 \<Longrightarrow> extends h2 h3 \<Longrightarrow> extends h1 h3"
  unfolding extends_def
  by (intro conjI; elim conjE; erule (1) grows_trans; blast intro: keeps_row_trans keeps_approval_trans)

section \<open>The invariant\<close>

definition row_ok :: "nat \<Rightarrow> action_row \<Rightarrow> bool" where
  "row_ok n x \<longleftrightarrow> (\<forall>s. grant_seq x = Some s \<longrightarrow> 1 \<le> s \<and> s \<le> int n) \<and>
     (\<forall>s. attempt_seq x = Some s \<longrightarrow> 1 \<le> s \<and> s \<le> int n \<and> grant_seq x \<noteq> None)"

definition granted :: "house \<Rightarrow> string \<Rightarrow> bool" where
  "granted h i \<longleftrightarrow> (\<exists>x \<in> set (actions h). action_id (proposal x) = i \<and> grant_seq x \<noteq> None)"

definition approval_ok :: "house \<Rightarrow> approval_row \<Rightarrow> bool" where
  "approval_ok h x \<longleftrightarrow> ap_created_at x < expires_at x \<and> (ap_status x = Redeemed \<longrightarrow> granted h (ap_action_id x))"

text \<open>The partial unique index on open approvals.\<close>

definition one_open :: "approval_row list \<Rightarrow> bool" where
  "one_open xs \<longleftrightarrow> (\<forall>i < length xs. \<forall>j < length xs. i \<noteq> j \<longrightarrow> open_status (ap_status (xs ! i)) \<longrightarrow>
     open_status (ap_status (xs ! j)) \<longrightarrow> ap_action_id (xs ! i) \<noteq> ap_action_id (xs ! j))"

definition house_ok :: "plant \<Rightarrow> house \<Rightarrow> bool" where
  "house_ok p h \<longleftrightarrow> audit_ok (H p) (ver p) (household_id p) (fp p) (audit h) \<and>
     distinct (map (action_id \<circ> proposal) (actions h)) \<and> distinct (map approval_id (approvals h)) \<and>
     distinct (map (\<lambda>v. (v_approval_id v, v_member_id v)) (votes h)) \<and>
     list_all (row_ok (length (log (audit h)))) (actions h) \<and> (\<forall>x \<in> set (approvals h). approval_ok h x) \<and> one_open (approvals h)"

definition sane :: "plant \<Rightarrow> bool" where
  "sane p \<longleftrightarrow> crypto_ok (H p) (sign p) (ver p) (fp p)"

text \<open>What a transaction from one state to another has to show.\<close>

definition safe :: "plant \<Rightarrow> house \<Rightarrow> house \<Rightarrow> bool" where
  "safe p h h' \<longleftrightarrow> house_ok p h' \<and> extends h h'"

lemma safe_trans: "safe p h1 h2 \<Longrightarrow> safe p h2 h3 \<Longrightarrow> safe p h1 h3"
  by (auto simp: safe_def intro: extends_trans)

lemma safe_refl: "house_ok p h \<Longrightarrow> safe p h h"
  by (simp add: safe_def)

section \<open>Rows found\<close>

lemma find_Some_iff: "List.find P xs = Some x \<Longrightarrow> x \<in> set xs \<and> P x"
  by (induction xs) (auto split: if_split_asm)

lemma find_action_Some: "find_action h i = Some x \<Longrightarrow> x \<in> set (actions h) \<and> action_id (proposal x) = i"
  unfolding find_action_def by (auto dest: find_Some_iff)

lemma find_approval_Some: "find_approval h i = Some x \<Longrightarrow> x \<in> set (approvals h) \<and> approval_id x = i"
  unfolding find_approval_def by (auto dest: find_Some_iff)

lemma pending_Some: "pending h i = Some x \<Longrightarrow> x \<in> set (approvals h) \<and> ap_action_id x = i \<and> open_status (ap_status x)"
  unfolding pending_def open_status_def by (auto dest: find_Some_iff)

lemma find_action_None: "find_action h i = None \<longleftrightarrow> i \<notin> (action_id \<circ> proposal) ` set (actions h)"
  by (auto simp: find_action_def find_None_iff)

lemma find_approval_None: "find_approval h i = None \<longleftrightarrow> i \<notin> approval_id ` set (approvals h)"
  by (auto simp: find_approval_def find_None_iff)

lemma pending_None: "pending h i = None \<longleftrightarrow> (\<forall>x \<in> set (approvals h). ap_action_id x = i \<longrightarrow> \<not> open_status (ap_status x))"
  by (auto simp: pending_def find_None_iff open_status_def)

lemma unique_action:
  "house_ok p h \<Longrightarrow> x \<in> set (actions h) \<Longrightarrow> y \<in> set (actions h) \<Longrightarrow> action_id (proposal x) = action_id (proposal y) \<Longrightarrow> x = y"
  by (auto simp: house_ok_def distinct_map inj_on_def)

lemma unique_approval:
  "house_ok p h \<Longrightarrow> x \<in> set (approvals h) \<Longrightarrow> y \<in> set (approvals h) \<Longrightarrow> approval_id x = approval_id y \<Longrightarrow> x = y"
  by (auto simp: house_ok_def distinct_map inj_on_def)

lemma find_action_unique: "house_ok p h \<Longrightarrow> x \<in> set (actions h) \<Longrightarrow> find_action h (action_id (proposal x)) = Some x"
proof (cases "find_action h (action_id (proposal x))")
  case None
  assume "x \<in> set (actions h)"
  with None show ?thesis by (auto simp: find_action_None)
next
  case (Some y)
  assume "house_ok p h" "x \<in> set (actions h)"
  with Some unique_action find_action_Some [OF Some] show ?thesis by blast
qed

section \<open>Writes\<close>

lemma event_name_nonempty [simp]: "event_name e \<noteq> []"
  by (cases e) simp_all

lemma append_one_row:
  assumes "crypto_ok Hf sg vf f" and "audit_ok Hf vf hid f db" and "valid_event (now, e, pl)"
    and "append_one Hf sg f hid now e pl db = Inr (n, db')"
  shows "audit_ok Hf vf hid f db' \<and> (\<exists>r. log db' = log db @ [r] \<and> r_seq r = n \<and> stored r = (now, e, pl n)) \<and>
    n = int (length (log db'))"
proof -
  from assms(4) obtain sqs where a: "append_many Hf sg f hid [(now, e, pl)] db = Inr (sqs, db')" and n: "n = hd sqs"
    by (auto simp: append_one_def rbind_Inr_iff)
  from append_many_ok [OF assms(1,2) _ a] assms(3) obtain rs where ok: "audit_ok Hf vf hid f db'"
    and s: "sqs = [int (length (log db)) + 1]" and l: "log db' = log db @ rs"
    and st: "map stored rs = [stores (int (length (log db)) + 1) (now, e, pl)]" by auto
  from st obtain r where r: "rs = [r]" "stored r = stores (int (length (log db)) + 1) (now, e, pl)" by auto
  from ok have "chain Hf vf hid f 1 ZERO None (log db @ [r])" using l r by (simp add: audit_ok_def)
  from last_seq [OF this] have "r_seq r = int (length (log db)) + 1" by simp
  with ok s n l r show ?thesis by (auto simp: stores_def)
qed

lemma house_ok_audit:
  assumes "house_ok p h" and "audit_ok (H p) (ver p) (household_id p) (fp p) db" and "length (log (audit h)) \<le> length (log db)"
  shows "house_ok p (h\<lparr>audit := db\<rparr>)"
proof -
  have "list_all (row_ok (length (log db))) (actions h)"
    using assms(1,3) unfolding house_ok_def list_all_iff row_ok_def by fastforce
  then show ?thesis using assms(1,2) by (auto simp: house_ok_def approval_ok_def granted_def)
qed

lemma write_event_safe:
  assumes "sane p" and "house_ok p h" and "\<And>n. \<exists>d. pl n = PDict d" and "write_event p now e pl h = Inr (n, h')"
  shows "safe p h h'"
    and "\<exists>db r. h' = h\<lparr>audit := db\<rparr> \<and> log db = log (audit h) @ [r] \<and> r_seq r = n \<and> stored r = (now, event_name e, pl n)"
    and "n = int (length (log (audit h')))"
proof -
  from assms(4) obtain db where a: "append_one (H p) (sign p) (fp p) (household_id p) now (event_name e) pl (audit h) = Inr (n, db)"
    and h': "h' = h\<lparr>audit := db\<rparr>" by (auto simp: write_event_def split: sum.split_asm prod.split_asm)
  have v: "valid_event (now, event_name e, pl)" using assms(3) by (simp add: valid_event_def)
  have o: "audit_ok (H p) (ver p) (household_id p) (fp p) (audit h)" using assms(2) by (simp add: house_ok_def)
  from append_one_row [OF assms(1) [unfolded sane_def] o v a] obtain r
    where db: "audit_ok (H p) (ver p) (household_id p) (fp p) db" "log db = log (audit h) @ [r]" "r_seq r = n"
      "stored r = (now, event_name e, pl n)" "n = int (length (log db))" by blast
  then show "safe p h h'"
    using house_ok_audit [OF assms(2) db(1)] h' by (auto simp: safe_def extends_def grows_refl grows_append)
  from db h' show "\<exists>db r. h' = h\<lparr>audit := db\<rparr> \<and> log db = log (audit h) @ [r] \<and> r_seq r = n \<and> stored r = (now, event_name e, pl n)"
    and "n = int (length (log (audit h')))" by auto
qed

section \<open>Status and row updates\<close>

lemma set_status_safe:
  assumes "house_ok p h" and "\<And>x. x \<in> set (approvals h) \<Longrightarrow> approval_id x = i \<Longrightarrow>
      status_step (ap_status x) st \<and> (open_status st \<longrightarrow> open_status (ap_status x)) \<and> (st = Redeemed \<longrightarrow> granted h (ap_action_id x))"
  shows "safe p h (set_status i st h)"
proof -
  let ?f = "\<lambda>x. if approval_id x = i then x\<lparr>ap_status := st\<rparr> else x"
  have a: "approvals (set_status i st h) = map ?f (approvals h)" "actions (set_status i st h) = actions h"
    "votes (set_status i st h) = votes h" "audit (set_status i st h) = audit h" by (simp_all add: set_status_def)
  have ids: "map approval_id (map ?f (approvals h)) = map approval_id (approvals h)" by simp
  have dist: "distinct (map approval_id (map ?f (approvals h)))" unfolding ids using assms(1) by (simp add: house_ok_def)
  have "\<forall>x \<in> set (approvals (set_status i st h)). approval_ok (set_status i st h) x"
    using assms by (auto simp: a house_ok_def approval_ok_def granted_def)
  moreover have "one_open (map ?f (approvals h))"
    using assms unfolding one_open_def house_ok_def by (auto simp: nth_mem split: if_splits)
  moreover have "grows keeps_approval (approvals h) (map ?f (approvals h))"
    by (rule grows_map) (use assms(2) in \<open>auto simp: keeps_approval_def\<close>)
  ultimately show ?thesis
    using assms(1) dist unfolding safe_def house_ok_def extends_def a by (simp add: grows_refl)
qed

lemma set_status_found:
  assumes "house_ok p h" and "x \<in> set (approvals h)" and "status_step (ap_status x) st"
    and "open_status st \<Longrightarrow> open_status (ap_status x)" and "st = Redeemed \<Longrightarrow> granted h (ap_action_id x)"
  shows "safe p h (set_status (approval_id x) st h)"
  by (rule set_status_safe [OF assms(1)]) (use assms(2-5) unique_approval [OF assms(1)] in blast)

lemma update_action_safe:
  assumes "house_ok p h" and "\<And>x. x \<in> set (actions h) \<Longrightarrow> action_id (proposal x) = i \<Longrightarrow>
      keeps_row x (f x) \<and> row_ok (length (log (audit h))) (f x)"
  shows "safe p h (update_action i f h)"
proof -
  let ?f = "\<lambda>x. if action_id (proposal x) = i then f x else x"
  have a: "actions (update_action i f h) = map ?f (actions h)" "approvals (update_action i f h) = approvals h"
    "votes (update_action i f h) = votes h" "audit (update_action i f h) = audit h" by (simp_all add: update_action_def)
  have k: "x \<in> set (actions h) \<Longrightarrow> keeps_row x (?f x)" for x using assms(2) by simp
  then have ids: "map (action_id \<circ> proposal) (map ?f (actions h)) = map (action_id \<circ> proposal) (actions h)"
    by (auto simp: keeps_row_id)
  have "distinct (map (action_id \<circ> proposal) (map ?f (actions h)))" unfolding ids using assms(1) by (simp add: house_ok_def)
  moreover have "list_all (row_ok (length (log (audit h)))) (map ?f (actions h))"
    using assms by (auto simp: house_ok_def list_all_iff)
  moreover have "granted h j \<Longrightarrow> granted (update_action i f h) j" for j
    using k unfolding granted_def a by (metis (no_types, lifting) image_eqI keeps_row_def keeps_row_id list.set_map)
  then have "\<forall>x \<in> set (approvals h). approval_ok (update_action i f h) x"
    using assms(1) by (auto simp: house_ok_def approval_ok_def)
  moreover have "grows keeps_row (actions h) (map ?f (actions h))" by (rule grows_map) (rule k)
  ultimately show ?thesis
    using assms(1) unfolding safe_def house_ok_def extends_def a by (simp add: grows_refl)
qed

lemma insert_action_safe:
  assumes "house_ok p h" and "insert_action x h = Inr h'" and "row_ok (length (log (audit h))) x"
  shows "safe p h h' \<and> h' = h\<lparr>actions := actions h @ [x]\<rparr>"
proof -
  from assms(2) have n: "find_action h (action_id (proposal x)) = None" and h': "h' = h\<lparr>actions := actions h @ [x]\<rparr>"
    by (auto simp: insert_action_def split: if_split_asm)
  with assms(1,3) show ?thesis
    by (auto simp: safe_def house_ok_def extends_def find_action_None approval_ok_def granted_def grows_refl grows_append)
qed

lemma one_open_append:
  "one_open xs \<Longrightarrow> \<forall>y \<in> set xs. ap_action_id y = ap_action_id x \<longrightarrow> \<not> open_status (ap_status y) \<Longrightarrow> one_open (xs @ [x])"
  unfolding one_open_def by (auto simp: nth_append less_Suc_eq split: if_splits)

lemma insert_approval_safe:
  assumes "house_ok p h" and "insert_approval x h = Inr h'" and "ap_status x = Pending"
  shows "safe p h h' \<and> h' = h\<lparr>approvals := approvals h @ [x]\<rparr>"
proof -
  from assms(2) have n: "find_approval h (approval_id x) = None" "pending h (ap_action_id x) = None" "ap_created_at x < expires_at x"
    and h': "h' = h\<lparr>approvals := approvals h @ [x]\<rparr>"
    by (auto simp: insert_approval_def split: if_split_asm)
  have "one_open (approvals h @ [x])"
    using n(2) assms(1) by (intro one_open_append) (auto simp: house_ok_def pending_None)
  with assms(1,3) n h' show ?thesis
    by (auto simp: safe_def house_ok_def extends_def find_approval_None approval_ok_def granted_def grows_refl grows_append)
qed

lemma insert_vote_safe:
  assumes "house_ok p h" and "List.find (\<lambda>v. v_approval_id v = i \<and> v_member_id v = m) (votes h) = None"
    and "v_approval_id v = i" and "v_member_id v = m"
  shows "safe p h (h\<lparr>votes := votes h @ [v]\<rparr>)"
  using assms
  by (auto simp: safe_def house_ok_def extends_def find_None_iff approval_ok_def granted_def grows_refl grows_append)

lemma record_decision_safe:
  assumes "sane p" and "house_ok p h" and "record_decision p d a errs now h = Inr (d', h')"
  shows "safe p h h' \<and> (\<exists>db. h' = h\<lparr>audit := db\<rparr>) \<and> audit_id d' = Some (int (length (log (audit h')))) \<and>
    (\<exists>r rs. log (audit h') = log (audit h) @ rs @ [r] \<and> r_seq r = int (length (log (audit h'))) \<and>
       stored r = (now, event_name (d_event d), decision_dump d') \<and> (\<forall>x \<in> set rs. r_event x = event_name POLICY_ERROR \<and> (\<exists>path. r_payload x = PDict [(''paths'', PList [PStr path])]))) \<and>
    d' = (narrated p d a)\<lparr>audit_id := audit_id d'\<rparr>"
proof -
  let ?step = "\<lambda>path h. rbind (write_event p now POLICY_ERROR (\<lambda>_. PDict [(''paths'', PList [PStr path])]) h) (\<lambda>(_, h'). Inr h')"
  let ?d = "narrated p d a"
  let ?I = "\<lambda>g. safe p h g \<and> (\<exists>db. g = h\<lparr>audit := db\<rparr>) \<and>
     (\<exists>rs. log (audit g) = log (audit h) @ rs \<and> (\<forall>x \<in> set rs. r_event x = event_name POLICY_ERROR \<and> (\<exists>path. r_payload x = PDict [(''paths'', PList [PStr path])])))"
  from assms(3) obtain h1 n where f: "foldM ?step errs h = Inr h1"
    and w: "write_event p now (d_event ?d) (\<lambda>n. decision_dump (?d\<lparr>audit_id := Some n\<rparr>)) h1 = Inr (n, h')"
    and d': "d' = ?d\<lparr>audit_id := Some n\<rparr>"
    by (auto simp: record_decision_def Let_def rbind_Inr_iff)
  have "?I h1"
  proof (rule foldM_invariant [OF f])
    show "?I h" using assms(2) safe_refl by (auto intro!: exI [of _ "audit h"])
    fix path g g' assume i: "?I g" and s: "?step path g = Inr g'"
    then have ok: "house_ok p g" by (simp add: safe_def)
    from s obtain m where w: "write_event p now POLICY_ERROR (\<lambda>_. PDict [(''paths'', PList [PStr path])]) g = Inr (m, g')"
      by (auto simp: rbind_Inr_iff)
    have pd: "\<exists>dd. (\<lambda>_. PDict [(''paths'', PList [PStr path])]) k = PDict dd" for k :: int by simp
    from write_event_safe(1,2) [OF assms(1) ok pd w] i show "?I g'"
      by (auto intro: safe_trans simp: stored_def)
  qed
  then have ok: "house_ok p h1" by (simp add: safe_def)
  have pd: "\<exists>dd. decision_dump (?d\<lparr>audit_id := Some k\<rparr>) = PDict dd" for k by (simp add: decision_dump_def)
  have ev: "d_event ?d = d_event d" by (simp add: narrated_def)
  from write_event_safe [OF assms(1) ok pd w] \<open>?I h1\<close> d' show ?thesis
    unfolding ev by (auto intro: safe_trans simp: stored_def)
qed

end
