(* ===== verification/Transactions.thy ===== *)
theory Transactions
  imports Tables
begin

text \<open>
  Every transaction of the pipeline keeps the invariant of the tables and only extends them: asking,
  scheduling, granting, a whole request, a vote, a claim with its preauthorized ending, an outcome,
  a notice and a retry. The elimination rules list the ways through an operation; the properties of
  the lifecycle rest on them.
\<close>

section \<open>Asking\<close>

lemma status_to_expired: "s \<noteq> Redeemed \<Longrightarrow> status_step s Expired"
  by (cases s) (auto simp: status_step_def open_status_def)

lemma expire_status_safe:
  "house_ok p h \<Longrightarrow> x \<in> set (approvals h) \<Longrightarrow> ap_status x \<noteq> Redeemed \<Longrightarrow> safe p h (set_status (approval_id x) Expired h)"
  by (rule set_status_found) (auto simp: status_to_expired open_status_def)

lemma set_status_frame [simp]:
  "actions (set_status i st h) = actions h" "votes (set_status i st h) = votes h" "audit (set_status i st h) = audit h"
  "roster (set_status i st h) = roster h" "accounts (set_status i st h) = accounts h" "passkeys (set_status i st h) = passkeys h"
  "home_paused (set_status i st h) = home_paused h"
  by (simp_all add: set_status_def)

lemma update_action_frame [simp]:
  "approvals (update_action i f h) = approvals h" "votes (update_action i f h) = votes h" "audit (update_action i f h) = audit h"
  "roster (update_action i f h) = roster h" "home_paused (update_action i f h) = home_paused h"
  by (simp_all add: update_action_def)

lemma expire_safe:
  assumes "sane p" and "house_ok p h" and "x \<in> set (approvals h)" and "ap_status x \<noteq> Redeemed" and "expire p x now h = Inr h'"
  shows "safe p h h' \<and> actions h' = actions h \<and> votes h' = votes h"
proof -
  let ?h = "set_status (approval_id x) Expired h"
  have s: "safe p h ?h" using assms(2-4) by (rule expire_status_safe)
  then have ok: "house_ok p ?h" by (simp add: safe_def)
  from assms(5) obtain n where w: "write_event p now EXPIRED (\<lambda>_. PDict [(''approval_id'', PStr (approval_id x))]) ?h = Inr (n, h')"
    by (auto simp: expire_def rbind_Inr_iff)
  have pd: "\<exists>d. (\<lambda>_. PDict [(''approval_id'', PStr (approval_id x))]) k = PDict d" for k :: int by simp
  from write_event_safe(1,2) [OF assms(1) ok pd w] s show ?thesis by (auto intro: safe_trans)
qed

lemma open_approval_safe:
  assumes "sane p" and "house_ok p h" and "open_approval p fresh a bnd out now h = Inr (x, h')"
  shows "safe p h h' \<and> actions h' = actions h \<and> votes h' = votes h"
proof -
  from assms(3) obtain found h1 where
    c: "(case pending h (action_id a) of None \<Rightarrow> Inr (None, h)
         | Some x \<Rightarrow> if now \<ge> expires_at x \<or> \<not> compatible (ap_binding x) bnd
             then rbind (expire p x now h) (\<lambda>h1. Inr (None, h1)) else Inr (Some x, h)) = Inr (found, h1)"
    and r: "(case found of Some x \<Rightarrow> Inr (x, h1)
     | None \<Rightarrow> (let x = \<lparr>approval_id = ''apr_'' @ fresh, ap_action_id = action_id a, ap_status = Pending, ap_binding = bnd,
                   ap_created_at = now, expires_at = now + ttl_minutes (approval out) * us_per_minute\<rparr>
          in rbind (insert_approval x h1) (\<lambda>h2. Inr (x, h2)))) = Inr (x, h')"
    unfolding open_approval_def rbind_Inr_iff by auto
  have s: "safe p h h1 \<and> actions h1 = actions h \<and> votes h1 = votes h"
  proof (cases "pending h (action_id a)")
    case None
    with c assms(2) safe_refl show ?thesis by auto
  next
    case (Some y)
    from pending_Some [OF Some] have y: "y \<in> set (approvals h)" "ap_status y \<noteq> Redeemed" by (auto simp: open_status_def)
    show ?thesis
      using c Some expire_safe [OF assms(1,2) y] safe_refl [OF assms(2)] by (auto simp: rbind_Inr_iff split: if_split_asm)
  qed
  then have ok: "house_ok p h1" by (simp add: safe_def)
  show ?thesis
  proof (cases found)
    case None
    with r obtain y where i: "insert_approval y h1 = Inr h'" and y: "ap_status y = Pending"
      by (auto simp: Let_def rbind_Inr_iff)
    from insert_approval_safe [OF ok i y] s show ?thesis by (auto intro: safe_trans)
  next
    case (Some y)
    with r s show ?thesis by auto
  qed
qed

lemma ask_safe:
  assumes "sane p" and "house_ok p h" and "ask p fresh ev a pr cost now h = Inr (ev', h')"
  shows "safe p h h' \<and> actions h' = actions h \<and> votes h' = votes h"
  using assms(3) open_approval_safe [OF assms(1,2)] safe_refl [OF assms(2)]
  unfolding ask_def Let_def by (auto simp: rbind_Inr_iff split: if_split_asm)

section \<open>Scheduling\<close>

lemma row_ok_frame:
  assumes "grant_seq y = grant_seq x" and "attempt_seq y = attempt_seq x"
  shows "row_ok n y = row_ok n x"
  using assms by (simp add: row_ok_def)

lemma rows_ok: "house_ok p h \<Longrightarrow> x \<in> set (actions h) \<Longrightarrow> row_ok (length (log (audit h))) x"
  by (simp add: house_ok_def list_all_iff)

text \<open>Updates that leave proposals, grants and attempts alone.\<close>

lemma update_other_safe:
  assumes "house_ok p h" and "\<And>x. proposal (f x) = proposal x \<and> ar_principal (f x) = ar_principal x \<and> ar_cost (f x) = ar_cost x \<and>
      grant_seq (f x) = grant_seq x \<and> attempt_seq (f x) = attempt_seq x"
  shows "safe p h (update_action i f h)"
  by (rule update_action_safe [OF assms(1)]) (use assms(2) rows_ok [OF assms(1)] in \<open>auto simp: keeps_row_def row_ok_def\<close>)

lemma transition_safe:
  assumes "sane p" and "house_ok p h" and "transition p i status e details now h = Inr (n, h')"
  shows "safe p h h'"
proof -
  from assms(3) obtain h1 where
    w: "write_event p now e (\<lambda>_. PDict ([(''action_id'', PStr i), (''status'', PStr status)] @ details)) h = Inr (n, h1)"
    and h': "h' = update_action i (\<lambda>x. x\<lparr>execution_status := Some status, lifecycle_seq := Some n\<rparr>) h1"
    by (auto simp: transition_def rbind_Inr_iff)
  have pd: "\<exists>d. (\<lambda>_. PDict ([(''action_id'', PStr i), (''status'', PStr status)] @ details)) k = PDict d" for k :: int by simp
  have s: "safe p h h1" using write_event_safe(1) [OF assms(1,2) pd w] .
  then have "safe p h1 h'" unfolding h' by (intro update_other_safe) (simp_all add: safe_def)
  with s show ?thesis by (rule safe_trans)
qed

lemma scheduled_Inr:
  assumes "scheduled p a d apr retried now h = Inr (d', h')"
  obtains n h1 where "check_overlaps p h [a] retried = Inr ()"
    and "transition p (action_id a) ''scheduled'' SCHEDULED
      [(''decision'', decision_dump (narrated p (d\<lparr>d_status := Some ''executing''\<rparr>) (Some a)))] now h = Inr (n, h1)"
    and "d' = (narrated p (d\<lparr>d_status := Some ''executing''\<rparr>) (Some a))\<lparr>audit_id := Some n\<rparr>"
    and "h' = update_action (action_id a) (\<lambda>x. x\<lparr>due_at := Some (case scheduled_for a of None \<Rightarrow> now | Some t \<Rightarrow> t),
              ar_lifecycle := Some \<lparr>lc_decision = narrated p (d\<lparr>d_status := Some ''executing''\<rparr>) (Some a), lc_approval_id = apr,
                lc_member_id = member_id (requested_by a), lc_retry = 0, ending_of = None, retry_of = None\<rparr>\<rparr>) h1"
  using assms by (auto simp: scheduled_def Let_def rbind_Inr_iff intro: that)

lemma scheduled_safe:
  assumes "sane p" and "house_ok p h" and "scheduled p a d apr retried now h = Inr (d', h')"
  shows "safe p h h'"
  using assms(3)
proof (rule scheduled_Inr)
  fix n h1 assume t: "transition p (action_id a) ''scheduled'' SCHEDULED
      [(''decision'', decision_dump (narrated p (d\<lparr>d_status := Some ''executing''\<rparr>) (Some a)))] now h = Inr (n, h1)"
    and h': "h' = update_action (action_id a) (\<lambda>x. x\<lparr>due_at := Some (case scheduled_for a of None \<Rightarrow> now | Some t \<Rightarrow> t),
              ar_lifecycle := Some \<lparr>lc_decision = narrated p (d\<lparr>d_status := Some ''executing''\<rparr>) (Some a), lc_approval_id = apr,
                lc_member_id = member_id (requested_by a), lc_retry = 0, ending_of = None, retry_of = None\<rparr>\<rparr>) h1"
  have s: "safe p h h1" using assms(1,2) t by (rule transition_safe)
  then have "safe p h1 h'" unfolding h' by (intro update_other_safe) (simp_all add: safe_def)
  with s show ?thesis by (rule safe_trans)
qed

section \<open>Granting\<close>

lemma update_action_member:
  "x \<in> set (actions h) \<Longrightarrow> action_id (proposal x) = i \<Longrightarrow> f x \<in> set (actions (update_action i f h))"
  by (force simp: update_action_def)

lemma house_ok_paused [simp]: "house_ok p (h\<lparr>home_paused := b\<rparr>) = house_ok p h"
  by (simp add: house_ok_def approval_ok_def granted_def)

lemma extends_paused [simp]: "extends h (h'\<lparr>home_paused := b\<rparr>) = extends h h'"
  by (simp add: extends_def)

lemma set_pause_safe:
  assumes "sane p" and "house_ok p h" and "set_pause p a now h = Inr h'"
  shows "safe p h h' \<and> actions h' = actions h \<and> approvals h' = approvals h"
proof (cases "\<not> pause_class (action_class a) \<or> home_paused h = ends_with ''pause_automation'' (action_class a)")
  case True
  with assms safe_refl show ?thesis by (auto simp: set_pause_def Let_def)
next
  case False
  let ?w = "ends_with ''pause_automation'' (action_class a)"
  from assms(3) False obtain n where w: "write_event p now (if ?w then AUTONOMY_PAUSED else AUTONOMY_RESUMED)
      (\<lambda>_. PDict [(''action_id'', PStr (action_id a))]) (h\<lparr>home_paused := ?w\<rparr>) = Inr (n, h')"
    by (auto simp: set_pause_def Let_def rbind_Inr_iff)
  have pd: "\<exists>d. (\<lambda>_. PDict [(''action_id'', PStr (action_id a))]) k = PDict d" for k :: int by simp
  have ok: "house_ok p (h\<lparr>home_paused := ?w\<rparr>)" using assms(2) by simp
  from write_event_safe(1,2) [OF assms(1) ok pd w] show ?thesis by (auto simp: safe_def extends_def)
qed

section \<open>What the other components write\<close>

text \<open>
  Plans, the executor, memory, the tools and the companion append rows to the log, expire approvals that were not
  redeemed, change the requester, the principal and the lifecycle of rows, insert ungranted rows for new
  proposals, put a new pending approval in the place of an expired one, and write their own tables and the
  household's. None of them marks a row as granted or attempted, and none casts a vote.
\<close>

inductive other_write :: "plant \<Rightarrow> house \<Rightarrow> house \<Rightarrow> bool" for p :: plant where
  noted: "other_write p h (h\<lparr>audit := db\<rparr>)"
    if "list_all valid_event es" and "append_many (H p) (sign p) (fp p) (household_id p) es (audit h) = Inr (ns, db)"
| closed: "other_write p h (set_status i Expired h)"
    if "\<And>x. x \<in> set (approvals h) \<Longrightarrow> approval_id x = i \<Longrightarrow> ap_status x \<noteq> Redeemed"
| relabelled: "other_write p h (update_action i f h)"
    if "\<And>x. x \<in> set (actions h) \<Longrightarrow> action_id (proposal x) = i \<Longrightarrow> same_command (proposal x) (proposal (f x)) \<and>
      ar_cost (f x) = ar_cost x \<and> grant_seq (f x) = grant_seq x \<and> attempt_seq (f x) = attempt_seq x"
| proposed: "other_write p h h'" if "insert_action (new_action_row a pr c) h = Inr h'"
| asked: "other_write p h h'" if "insert_approval x h = Inr h'" and "ap_status x = Pending"
| aside: "other_write p h h'" if "actions h' = actions h" and "approvals h' = approvals h" and "votes h' = votes h" and "audit h' = audit h"

abbreviation other_writes :: "plant \<Rightarrow> house \<Rightarrow> house \<Rightarrow> bool" where
  "other_writes p \<equiv> (other_write p)\<^sup>*\<^sup>*"

text \<open>A component that commits a grant of its own class writes nothing else.\<close>

definition commit_ok :: "plant \<Rightarrow> bool" where
  "commit_ok p \<longleftrightarrow> (\<forall>a d pr now h h'. commit p a d pr now h = Inr h' \<longrightarrow> other_writes p h h')"

definition hooked :: "plant \<Rightarrow> action \<Rightarrow> bool" where
  "hooked p a \<longleftrightarrow> (committed_class (action_class a) \<longrightarrow> commit_ok p)"

lemma new_row_ok [simp]: "row_ok n (new_action_row a pr c)"
  by (simp add: row_ok_def new_action_row_def)

lemma aside_safe:
  assumes "house_ok p h" and "actions h' = actions h" and "approvals h' = approvals h" and "votes h' = votes h" and "audit h' = audit h"
  shows "safe p h h'"
  using assms by (simp add: safe_def house_ok_def extends_def approval_ok_def granted_def grows_refl)

lemma batch_safe:
  assumes "sane p" and "house_ok p h" and "list_all valid_event es"
    and "append_many (H p) (sign p) (fp p) (household_id p) es (audit h) = Inr (ns, db)"
  shows "safe p h (h\<lparr>audit := db\<rparr>)"
proof -
  have "audit_ok (H p) (ver p) (household_id p) (fp p) (audit h)" using assms(2) by (simp add: house_ok_def)
  from append_many_ok [OF assms(1) [unfolded sane_def] this assms(3,4)] obtain rs
    where "audit_ok (H p) (ver p) (household_id p) (fp p) db" and l: "log db = log (audit h) @ rs" by blast
  from house_ok_audit [OF assms(2) this(1)] l show ?thesis
    by (simp add: safe_def extends_def grows_refl grows_append)
qed

lemma other_write_safe:
  assumes "other_write p h h'" and "sane p" and "house_ok p h"
  shows "safe p h h'"
  using assms(1,3)
proof (cases rule: other_write.cases)
  case (noted es ns db)
  with batch_safe [OF assms(2,3)] show ?thesis by blast
next
  case (closed i)
  have "safe p h (set_status i Expired h)"
    by (rule set_status_safe [OF assms(3)]) (use closed(2) in \<open>auto simp: status_to_expired open_status_def\<close>)
  with closed(1) show ?thesis by simp
next
  case (relabelled i f)
  have "safe p h (update_action i f h)"
    by (rule update_action_safe [OF assms(3)])
       (use relabelled(2) assms(3) in \<open>auto simp: keeps_row_def row_ok_def house_ok_def list_all_iff\<close>)
  with relabelled(1) show ?thesis by simp
next
  case (proposed a pr c)
  with insert_action_safe [OF assms(3)] show ?thesis by auto
next
  case (asked x)
  with insert_approval_safe [OF assms(3)] show ?thesis by blast
next
  case aside
  with aside_safe [OF assms(3)] show ?thesis by blast
qed

lemma other_writes_safe: "other_writes p h h' \<Longrightarrow> sane p \<Longrightarrow> house_ok p h \<Longrightarrow> safe p h h'"
proof (induction rule: rtranclp_induct)
  case base
  then show ?case by (simp add: safe_refl)
next
  case (step g h')
  then have s: "safe p h g" by blast
  then have "safe p g h'" using other_write_safe [OF step(2) step(4)] by (simp add: safe_def)
  with s show ?case by (rule safe_trans)
qed

text \<open>Grants and attempts together; the other components leave them, and add rows without them.\<close>

definition marks :: "house \<Rightarrow> (string \<times> int option \<times> int option) list" where
  "marks h = map (\<lambda>x. (action_id (proposal x), grant_seq x, attempt_seq x)) (actions h)"

definition adds_unmarked :: "house \<Rightarrow> house \<Rightarrow> bool" where
  "adds_unmarked h h' \<longleftrightarrow> (\<exists>is. marks h' = marks h @ map (\<lambda>i. (i, None, None)) is)"

lemma adds_unmarked_refl: "marks h' = marks h \<Longrightarrow> adds_unmarked h h'"
  unfolding adds_unmarked_def by (rule exI [of _ "[]"]) simp

lemma adds_unmarked_trans: "adds_unmarked h1 h2 \<Longrightarrow> adds_unmarked h2 h3 \<Longrightarrow> adds_unmarked h1 h3"
  unfolding adds_unmarked_def by (metis append.assoc map_append)

lemma other_write_marks:
  assumes "other_write p h h'"
  shows "adds_unmarked h h'"
  using assms
proof cases
  case relabelled
  then have "marks h' = marks h" by (auto simp: marks_def update_action_def same_command_id)
  then show ?thesis by (rule adds_unmarked_refl)
next
  case (proposed a pr c)
  then have "marks h' = marks h @ map (\<lambda>i. (i, None, None)) [action_id a]"
    by (auto simp: insert_action_def marks_def new_action_row_def split: if_split_asm)
  then show ?thesis unfolding adds_unmarked_def by blast
qed (auto simp: marks_def insert_approval_def split: if_split_asm intro!: adds_unmarked_refl)

lemma other_writes_marks: "other_writes p h h' \<Longrightarrow> adds_unmarked h h'"
  by (induction rule: rtranclp_induct) (auto intro: adds_unmarked_refl adds_unmarked_trans other_write_marks)

section \<open>The steps of a grant\<close>

text \<open>The decision a grant records: with the cost reserved.\<close>

definition reserving :: "decision \<Rightarrow> dec option \<Rightarrow> decision" where
  "reserving d cost = (case d_budget d of
      None \<Rightarrow> d
    | Some b \<Rightarrow> d\<lparr>d_budget := Some (b\<lparr>reserved := (case cost of None \<Rightarrow> Dec 0 0 | Some c \<Rightarrow> c)\<rparr>)\<rparr>)"

lemma grant_Inr:
  assumes "grant p ev a pr cost apr now h = Inr (ev', h')" and "\<not> committed_class (action_class a)"
  obtains d1 h1 h3 where
    "record_decision p (reserving (ev_decision ev) cost) (Some (ev_action ev)) (ev_diagnostics ev) now h = Inr (d1, h1)"
    and "h3 = (case apr of None \<Rightarrow> update_action (action_id a) (\<lambda>x. x\<lparr>grant_seq := audit_id d1\<rparr>) h1
               | Some x \<Rightarrow> set_status (approval_id x) Redeemed (update_action (action_id a) (\<lambda>x. x\<lparr>grant_seq := audit_id d1\<rparr>) h1))"
    and "set_pause p a now (update_action (action_id a) (\<lambda>x. x\<lparr>ar_lifecycle :=
           map_option (\<lambda>lc. lc\<lparr>lc_decision := d1\<rparr>) (ar_lifecycle x)\<rparr>) h3) = Inr h'"
    and "ev' = ev\<lparr>ev_decision := d1\<rparr>"
  using assms by (auto simp: grant_def Let_def rbind_Inr_iff committed_class_def reserving_def intro: that)

text \<open>A grant of any class: the component that commits it works between the mark and the pause.\<close>

lemma grant_any_Inr:
  assumes "grant p ev a pr cost apr now h = Inr (ev', h')" and "hooked p a"
  obtains d1 h1 h3 h4 h6 where
    "record_decision p (reserving (ev_decision ev) cost) (Some (ev_action ev)) (ev_diagnostics ev) now h = Inr (d1, h1)"
    and "h3 = (case apr of None \<Rightarrow> update_action (action_id a) (\<lambda>x. x\<lparr>grant_seq := audit_id d1\<rparr>) h1
               | Some x \<Rightarrow> set_status (approval_id x) Redeemed (update_action (action_id a) (\<lambda>x. x\<lparr>grant_seq := audit_id d1\<rparr>) h1))"
    and "other_writes p h3 h4"
    and "other_writes p (update_action (action_id a) (\<lambda>x. x\<lparr>ar_lifecycle :=
           map_option (\<lambda>lc. lc\<lparr>lc_decision := d1\<rparr>) (ar_lifecycle x)\<rparr>) h4) h6"
    and "set_pause p a now h6 = Inr h'" and "ev' = ev\<lparr>ev_decision := d1\<rparr>"
proof -
  from assms(1) obtain d1 h1 h3 h4 h6 where
    g: "record_decision p (reserving (ev_decision ev) cost) (Some (ev_action ev)) (ev_diagnostics ev) now h = Inr (d1, h1)"
      "h3 = (case apr of None \<Rightarrow> update_action (action_id a) (\<lambda>x. x\<lparr>grant_seq := audit_id d1\<rparr>) h1
               | Some x \<Rightarrow> set_status (approval_id x) Redeemed (update_action (action_id a) (\<lambda>x. x\<lparr>grant_seq := audit_id d1\<rparr>) h1))"
    and c1: "(if commits_first (action_class a) then commit p (ev_action ev) d1 pr now h3 else Inr h3) = Inr h4"
    and c2: "(if constraint_class (action_class a) then commit p (ev_action ev) d1 pr now
          (update_action (action_id a) (\<lambda>x. x\<lparr>ar_lifecycle := map_option (\<lambda>lc. lc\<lparr>lc_decision := d1\<rparr>) (ar_lifecycle x)\<rparr>) h4)
        else Inr (update_action (action_id a) (\<lambda>x. x\<lparr>ar_lifecycle := map_option (\<lambda>lc. lc\<lparr>lc_decision := d1\<rparr>) (ar_lifecycle x)\<rparr>) h4)) = Inr h6"
    and e: "set_pause p a now h6 = Inr h'" "ev' = ev\<lparr>ev_decision := d1\<rparr>"
    by (auto simp: grant_def Let_def rbind_Inr_iff reserving_def)
  have o: "other_writes p h3 h4"
    using c1 assms(2) by (auto simp: hooked_def committed_class_def commit_ok_def split: if_split_asm)
  have o': "other_writes p (update_action (action_id a) (\<lambda>x. x\<lparr>ar_lifecycle :=
         map_option (\<lambda>lc. lc\<lparr>lc_decision := d1\<rparr>) (ar_lifecycle x)\<rparr>) h4) h6"
    using c2 assms(2) by (auto simp: hooked_def committed_class_def commit_ok_def split: if_split_asm)
  from that [OF g o o' e] show thesis .
qed

text \<open>Marking a row that has no grant with the number of the last event.\<close>

lemma mark_grant_safe:
  assumes ok: "house_ok p h" and x: "x \<in> set (actions h)" "action_id (proposal x) = i" and none: "grant_seq x = None"
    and n: "n = int (length (log (audit h)))" and pos: "log (audit h) \<noteq> []"
  shows "safe p h (update_action i (\<lambda>x. x\<lparr>grant_seq := Some n\<rparr>) h)"
    and "granted (update_action i (\<lambda>x. x\<lparr>grant_seq := Some n\<rparr>) h) i"
proof -
  show "safe p h (update_action i (\<lambda>x. x\<lparr>grant_seq := Some n\<rparr>) h)"
  proof (rule update_action_safe [OF ok])
    fix y assume y: "y \<in> set (actions h)" "action_id (proposal y) = i"
    have yx: "y = x" by (rule unique_action [OF ok y(1) x(1)]) (simp add: x y)
    have at: "attempt_seq x = None" using rows_ok [OF ok x(1)] none by (auto simp: row_ok_def)
    have "1 \<le> n" using n pos by (simp add: Suc_le_eq)
    then show "keeps_row y (y\<lparr>grant_seq := Some n\<rparr>) \<and> row_ok (length (log (audit h))) (y\<lparr>grant_seq := Some n\<rparr>)"
      unfolding yx keeps_row_def row_ok_def using none at n by simp
  qed
  have "x\<lparr>grant_seq := Some n\<rparr> \<in> set (actions (update_action i (\<lambda>x. x\<lparr>grant_seq := Some n\<rparr>) h))"
    using x by (rule update_action_member)
  then show "granted (update_action i (\<lambda>x. x\<lparr>grant_seq := Some n\<rparr>) h) i"
    unfolding granted_def by (rule bexI [rotated]) (simp add: x)
qed

lemma redeem_safe:
  assumes "house_ok p h" and "granted h i" and "\<And>y. apr = Some y \<Longrightarrow> y \<in> set (approvals h) \<and> ap_action_id y = i \<and> open_status (ap_status y)"
  shows "safe p h (case apr of None \<Rightarrow> h | Some x \<Rightarrow> set_status (approval_id x) Redeemed h)"
proof (cases apr)
  case None
  with safe_refl [OF assms(1)] show ?thesis by simp
next
  case (Some y)
  with assms(3) have "y \<in> set (approvals h)" "ap_action_id y = i" "open_status (ap_status y)" by auto
  with assms(1,2) Some set_status_found [of p h y Redeemed] show ?thesis by (simp add: status_step_def open_status_def)
qed

text \<open>The row marked, the approval redeemed and the lifecycle updated, before the effects of the class.\<close>

lemma grant_stage_safe:
  assumes "sane p" and "house_ok p h" and r: "record_decision p d act errs now h = Inr (d1, h1)"
    and h3: "h3 = (case apr of None \<Rightarrow> update_action (action_id a) (\<lambda>x. x\<lparr>grant_seq := audit_id d1\<rparr>) h1
               | Some x \<Rightarrow> set_status (approval_id x) Redeemed (update_action (action_id a) (\<lambda>x. x\<lparr>grant_seq := audit_id d1\<rparr>) h1))"
    and x: "find_action h (action_id a) = Some x" and none: "grant_seq x = None"
    and apr: "\<And>y. apr = Some y \<Longrightarrow> y \<in> set (approvals h) \<and> ap_action_id y = action_id a \<and> open_status (ap_status y)"
  shows "safe p h h3"
proof -
  let ?h2 = "update_action (action_id a) (\<lambda>x. x\<lparr>grant_seq := audit_id d1\<rparr>) h1"
  note rd = record_decision_safe [OF assms(1,2) r]
  have s1: "safe p h h1" using rd by (rule conjunct1)
  obtain db where h1: "h1 = h\<lparr>audit := db\<rparr>" using rd by blast
  have n: "audit_id d1 = Some (int (length (log (audit h1))))" using rd by blast
  have pos: "log (audit h1) \<noteq> []" using rd by fastforce
  from s1 have ok1: "house_ok p h1" by (simp add: safe_def)
  have x1: "x \<in> set (actions h1)" "action_id (proposal x) = action_id a" using find_action_Some [OF x] h1 by simp_all
  note mark = mark_grant_safe [OF ok1 x1 none refl pos, folded n]
  from mark(1) have ok2: "house_ok p ?h2" by (simp add: safe_def)
  have "safe p ?h2 h3" unfolding h3 by (rule redeem_safe [OF ok2 mark(2)]) (use apr h1 in auto)
  then show ?thesis using s1 mark(1) by (blast intro: safe_trans)
qed

lemma grant_safe:
  assumes "sane p" and "house_ok p h" and "grant p ev a pr cost apr now h = Inr (ev', h')"
    and "hooked p a" and "find_action h (action_id a) = Some x" and "grant_seq x = None"
    and "\<And>y. apr = Some y \<Longrightarrow> y \<in> set (approvals h) \<and> ap_action_id y = action_id a \<and> open_status (ap_status y)"
  shows "safe p h h'"
  using assms(3,4)
proof (rule grant_any_Inr)
  fix d1 :: decision and h1 h3 h4 h6
  let ?h5 = "update_action (action_id a) (\<lambda>x. x\<lparr>ar_lifecycle := map_option (\<lambda>lc. lc\<lparr>lc_decision := d1\<rparr>) (ar_lifecycle x)\<rparr>) h4"
  assume r: "record_decision p (reserving (ev_decision ev) cost) (Some (ev_action ev)) (ev_diagnostics ev) now h = Inr (d1, h1)"
    and h3: "h3 = (case apr of None \<Rightarrow> update_action (action_id a) (\<lambda>x. x\<lparr>grant_seq := audit_id d1\<rparr>) h1
               | Some x \<Rightarrow> set_status (approval_id x) Redeemed (update_action (action_id a) (\<lambda>x. x\<lparr>grant_seq := audit_id d1\<rparr>) h1))"
    and w: "other_writes p h3 h4" "other_writes p ?h5 h6" and sp: "set_pause p a now h6 = Inr h'"
  have s3: "safe p h h3" by (rule grant_stage_safe [OF assms(1,2) r h3 assms(5-7)])
  then have s4: "safe p h3 h4" using other_writes_safe [OF w(1) assms(1)] by (simp add: safe_def)
  then have s5: "safe p h4 ?h5" by (intro update_other_safe) (simp_all add: safe_def)
  then have s6: "safe p ?h5 h6" using other_writes_safe [OF w(2) assms(1)] by (simp add: safe_def)
  then have "safe p h6 h'" using set_pause_safe [OF assms(1) _ sp] by (simp add: safe_def)
  with s3 s4 s5 s6 show ?thesis by (blast intro: safe_trans)
qed

section \<open>Requests\<close>

text \<open>The ways through the last stage when nothing is queued.\<close>

lemma authorize_passedE:
  assumes "authorize_passed p fresh ev a pr cost now later apr_id apr approved_at voter False h = Inr (ev', h')"
  obtains (refused) e where "e \<in> {DENY_CONSTITUTION, DENY_BOUNDARY}" and "ev' = conclude ev e" and "h' = h"
  | (asked) "ask p fresh (conclude ev ASK_CONSTITUTION) a pr cost now h = Inr (ev', h')"
  | (stopped) "boundary_check p h ev now approved_at voter = Inr ev'" and "d_kind (ev_decision ev') \<noteq> Kexecute" and "h' = h"
  | (late) ev1 x where "boundary_check p h ev now approved_at voter = Inr ev1" and "apr = Some x" and "later \<ge> expires_at x"
      and "ev' = conclude ev1 DENY_APPROVAL_EXPIRED" and "h' = set_status (approval_id x) Expired h"
  | (passed) ev1 where "authorize_ending_check p a pr apr approved_at voter now h = Inr Ending_ok"
      and "boundary_check p h ev now approved_at voter = Inr ev1" and "d_kind (ev_decision ev1) = Kexecute"
      and "apr \<noteq> None \<Longrightarrow> later < expires_at (the apr)" and "grant p ev1 a pr cost apr now h = Inr (ev', h')"
proof -
  from assms obtain verdict where v: "authorize_ending_check p a pr apr approved_at voter now h = Inr verdict"
    and r: "(case verdict of Ending_refused e \<Rightarrow> Inr (conclude ev e, h)
        | Ending_asks \<Rightarrow> ask p fresh (conclude ev ASK_CONSTITUTION) a pr cost now h
        | Ending_ok \<Rightarrow>
            rbind (boundary_check p h ev now approved_at voter) (\<lambda>ev1.
            if d_kind (ev_decision ev1) \<noteq> Kexecute then Inr (ev1, h)
            else (case apr of
                    None \<Rightarrow> grant p ev1 a pr cost None now h
                  | Some x \<Rightarrow>
                      if later \<ge> expires_at x then Inr (conclude ev1 DENY_APPROVAL_EXPIRED, set_status (approval_id x) Expired h)
                      else grant p ev1 a pr cost (Some x) now h))) = Inr (ev', h')"
    unfolding authorize_passed_def by (simp only: if_False) (erule rbind_InrE)
  show thesis
  proof (cases verdict)
    case (Ending_refused e)
    with v have "e \<in> {DENY_CONSTITUTION, DENY_BOUNDARY}"
      by (auto simp: authorize_ending_check_def rbind_Inr_iff split: if_split_asm)
    then show thesis by (rule refused) (use r Ending_refused in simp_all)
  next
    case Ending_asks
    with r have "ask p fresh (conclude ev ASK_CONSTITUTION) a pr cost now h = Inr (ev', h')" by simp
    then show thesis by (rule asked)
  next
    case Ending_ok
    with r obtain ev1 where b: "boundary_check p h ev now approved_at voter = Inr ev1"
      and q: "(if d_kind (ev_decision ev1) \<noteq> Kexecute then Inr (ev1, h)
            else (case apr of
                    None \<Rightarrow> grant p ev1 a pr cost None now h
                  | Some x \<Rightarrow>
                      if later \<ge> expires_at x then Inr (conclude ev1 DENY_APPROVAL_EXPIRED, set_status (approval_id x) Expired h)
                      else grant p ev1 a pr cost (Some x) now h)) = Inr (ev', h')"
      by (simp only: ending_verdict.case) (rule rbind_InrE)
    consider "d_kind (ev_decision ev1) \<noteq> Kexecute" | "d_kind (ev_decision ev1) = Kexecute" "apr = None"
      | x where "d_kind (ev_decision ev1) = Kexecute" "apr = Some x" "later \<ge> expires_at x"
      | x where "d_kind (ev_decision ev1) = Kexecute" "apr = Some x" "\<not> later \<ge> expires_at x" by (cases apr) auto
    then show thesis
    proof cases
      case 1
      show thesis by (rule stopped) (use 1 q b in simp_all)
    next
      case 2
      show thesis by (rule passed [OF v [unfolded Ending_ok] b 2(1)]) (use 2 q in simp_all)
    next
      case 3
      show thesis by (rule late [OF b 3(2,3)]) (use 3 q in simp_all)
    next
      case 4
      show thesis by (rule passed [OF v [unfolded Ending_ok] b 4(1)]) (use 4 q in simp_all)
    qed
  qed
qed

lemma authorize_passed_safe:
  assumes "sane p" and "house_ok p h" and "hooked p a"
    and "find_action h (action_id a) = Some x" and "grant_seq x = None"
    and "\<And>y. apr = Some y \<Longrightarrow> y \<in> set (approvals h) \<and> ap_action_id y = action_id a \<and> open_status (ap_status y)"
    and "authorize_passed p fresh ev a pr cost now later apr_id apr approved_at voter queued h = Inr (ev', h')"
  shows "safe p h h'"
proof (cases queued)
  case True
  with assms(7) scheduled_safe [OF assms(1,2)] show ?thesis by (auto simp: authorize_passed_def Let_def rbind_Inr_iff)
next
  case False
  with assms(7) have "authorize_passed p fresh ev a pr cost now later apr_id apr approved_at voter False h = Inr (ev', h')" by simp
  then show ?thesis
  proof (cases rule: authorize_passedE)
    case (late ev1 y)
    with assms(6) [of y] expire_status_safe [OF assms(2)] show ?thesis by (auto simp: open_status_def)
  next
    case (passed ev1)
    show ?thesis by (rule grant_safe [OF assms(1,2) passed(5) assms(3-6)])
  qed (use ask_safe [OF assms(1,2)] safe_refl [OF assms(2)] in auto)
qed

lemma approval_refusal_safe:
  assumes "house_ok p h" and "\<And>y. apr = Some y \<Longrightarrow> y \<in> set (approvals h)"
    and "approval_refusal apr_id apr a now h = Some (e, h')"
  shows "safe p h h'"
  using assms safe_refl [OF assms(1)] expire_status_safe [OF assms(1)]
  by (auto simp: approval_refusal_def split: if_split_asm option.split_asm)

lemma approval_refusal_None:
  assumes "approval_refusal apr_id (Some y) a now h = None" and "apr_id \<noteq> None" and "apr_id \<noteq> Some []"
  shows "ap_action_id y = action_id a \<and> open_status (ap_status y) \<and> now < expires_at y"
  using assms by (cases "ap_status y") (auto simp: approval_refusal_def open_status_def split: if_split_asm)

lemma authorize_safe:
  assumes "sane p" and "house_ok p h" and "hooked p a"
    and "find_action h (action_id a) = Some x" and "grant_seq x = None"
    and "\<And>y. apr = Some y \<Longrightarrow> y \<in> set (approvals h) \<and> apr_id \<noteq> None \<and> apr_id \<noteq> Some []"
    and "authorize p fresh ev a pr cost now later apr_id apr queued h = Inr (ev', h')"
  shows "safe p h h'"
proof (cases "approval_refusal apr_id apr a now h")
  case (Some r)
  obtain e h1 where r: "r = (e, h1)" by force
  from approval_refusal_safe [OF assms(2) _ Some [unfolded r]] assms(6) have "safe p h h1" by blast
  with Some r assms(7) safe_refl [OF assms(2)] show ?thesis by (auto simp: authorize_def Let_def split: if_split_asm)
next
  case None
  have passed: "authorize_passed p fresh ev a pr cost now later apr_id apr t v queued h = Inr (ev', h') \<Longrightarrow> safe p h h'" for t v
    by (rule authorize_passed_safe [OF assms(1-5)])
       (use assms(6) approval_refusal_None None in \<open>auto simp del: split_paired_All\<close>)
  have expired: "ask p fresh ev1 a pr cost now (set_status (approval_id y) Expired h) = Inr (ev', h') \<Longrightarrow> safe p h h'"
    if "apr = Some y" for y ev1
  proof -
    assume k: "ask p fresh ev1 a pr cost now (set_status (approval_id y) Expired h) = Inr (ev', h')"
    have "y \<in> set (approvals h)" "ap_status y \<noteq> Redeemed"
      using assms(6) [OF that] approval_refusal_None [of apr_id y a now h] None that by (auto simp: open_status_def)
    then have s: "safe p h (set_status (approval_id y) Expired h)" using expire_status_safe [OF assms(2)] by blast
    then have "house_ok p (set_status (approval_id y) Expired h)" by (simp add: safe_def)
    from ask_safe [OF assms(1) this k] s show ?thesis using safe_trans by blast
  qed
  show ?thesis
    using assms(7) None passed expired ask_safe [OF assms(1,2)] safe_refl [OF assms(2)]
    unfolding authorize_def Let_def
    by (auto simp: rbind_Inr_iff split: if_split_asm option.split_asm prod.split_asm)
qed

lemma finish_safe:
  assumes "sane p" and "house_ok p h" and "finish p ev now h = Inr (r, h')"
  shows "safe p h h'"
  using assms(3) record_decision_safe [OF assms(1,2)] safe_refl [OF assms(2)]
  by (auto simp: finish_def rbind_Inr_iff split: if_split_asm)

text \<open>After the proposal step the row exists, and carries the grant that the step returned.\<close>

lemma proposal_step_safe:
  assumes "house_ok p h" and "proposal_step p a pr cost h = Inr (matched, g0, st0, h')"
  shows "safe p h h' \<and> (\<exists>x. find_action h' (action_id a) = Some x \<and> grant_seq x = g0) \<and> approvals h' = approvals h \<and>
    votes h' = votes h \<and> audit h' = audit h"
proof (cases "find_action h (action_id a)")
  case None
  from assms(2) None obtain c where i: "insert_action (new_action_row a pr c) h = Inr h'" and g: "g0 = None"
    by (auto simp: proposal_step_def rbind_Inr_iff)
  from insert_action_safe [OF assms(1) i] have s: "safe p h h'" and h': "h' = h\<lparr>actions := actions h @ [new_action_row a pr c]\<rparr>" by (rule conjunct1, simp, simp)
  then have "find_action h' (action_id a) = Some (new_action_row a pr c)"
    using find_action_unique [of p h' "new_action_row a pr c"] by (simp add: safe_def new_action_row_def)
  with s g h' show ?thesis by (simp add: new_action_row_def)
next
  case (Some x)
  with assms(2) safe_refl [OF assms(1)] show ?thesis by (auto simp: proposal_step_def rbind_Inr_iff)
qed

lemma presented_Some:
  "presented c h = Some y \<Longrightarrow> y \<in> set (approvals h) \<and> c_approval_id c \<noteq> None \<and> c_approval_id c \<noteq> Some []"
  by (auto simp: presented_def dest: find_approval_Some split: if_split_asm option.split_asm)

lemma mutate_assessed_safe:
  assumes "sane p" and "house_ok p h" and "hooked p (c_action c)"
    and "find_action h (action_id (c_action c)) = Some x" and "grant_seq x = g0"
    and "mutate_assessed p c ev matched g0 h = Inr (r, h')"
  shows "safe p h h'"
proof (cases "\<not> matched \<or> g0 \<noteq> None")
  case True
  with assms(6) finish_safe [OF assms(1,2)] safe_refl [OF assms(2)] show ?thesis
    by (auto simp: mutate_assessed_def Let_def rbind_Inr_iff split: if_split_asm option.split_asm)
next
  case False
  then have g: "grant_seq x = None" using assms(5) by simp
  have fin: "safe p h h1 \<Longrightarrow> finish p ev1 now h1 = Inr (r, h') \<Longrightarrow> safe p h h'" for ev1 now h1
    using finish_safe [OF assms(1)] safe_trans by (auto simp: safe_def intro: extends_trans)
  show ?thesis
  proof (cases "c_redeem c")
    case True
    with False assms(6) obtain ev1 h1 where
      au: "authorize p (c_fresh c) ev (c_action c) (caller c) (c_cost c) (c_now c) (c_later c) (c_approval_id c) (presented c h) (c_enqueue c) h
             = Inr (ev1, h1)" and f: "finish p ev1 (c_now c) h1 = Inr (r, h')"
      by (auto simp: mutate_assessed_def Let_def rbind_Inr_iff)
    from authorize_safe [OF assms(1-4) g presented_Some au] have "safe p h h1" by blast
    from fin [OF this f] show ?thesis .
  next
    case nr: False
    with False assms(6) obtain ev1 ev2 h1 where k: "ask p (c_fresh c) ev1 (c_action c) (caller c) (c_cost c) (c_now c) h = Inr (ev2, h1)"
      and f: "finish p ev2 (c_now c) h1 = Inr (r, h')"
      by (auto simp: mutate_assessed_def Let_def rbind_Inr_iff)
    from ask_safe [OF assms(1,2) k] have "safe p h h1" by blast
    from fin [OF this f] show ?thesis .
  qed
qed

lemma ingest_same: "ingest Hf a = Inr b \<Longrightarrow> b = a"
  by (simp add: ingest_Inr)

text \<open>A request is a proposal step, then the answer of queued work or the assessment.\<close>

lemma mutate_lockedE:
  assumes "mutate_locked p c h = Inr (r, h')"
  obtains (repeated) matched g0 st0 h1 x where
      "proposal_step p (c_action c) (caller c) (c_cost c) h = Inr (matched, g0, st0, h1)" and "c_enqueue c" and "matched"
      and "find_action h1 (action_id (c_action c)) = Some x" and "ar_lifecycle x \<noteq> None" and "h' = h1"
  | (assessed) matched g0 st0 h1 ev where
      "proposal_step p (c_action c) (caller c) (c_cost c) h = Inr (matched, g0, st0, h1)"
      and "assess_operation (H p) (secs p) (desk_of p h1) (if matched then st0 else c_action c) (caller c) (c_cost c)
                  (c_evidence c) (c_now c) None (bound_press c (presented c h1)) = Inr ev"
      and "mutate_assessed p c ev matched g0 h1 = Inr (r, h')"
proof -
  from assms [unfolded mutate_locked_def] obtain a1 where a1: "ingest (H p) (c_action c) = Inr a1"
    and "rbind (guard ValueError (action_class a1 = ''governance.memory'' \<longrightarrow> memory_command p (params a1))) (\<lambda>_.
     rbind (proposal_step p a1 (caller c) (c_cost c) h) (\<lambda>(matched, g0, st0, h1).
     rbind (if c_enqueue c \<and> matched then rbind (row h1 (action_id a1)) (\<lambda>x. Inr (if ar_lifecycle x = None then None else Some x))
            else Inr None) (\<lambda>previous.
     case previous of
       Some x \<Rightarrow> rbind (repeated p x) (\<lambda>d. Inr (Decided d, h1))
     | None \<Rightarrow>
         rbind (assess_operation (H p) (secs p) (desk_of p h1) (if matched then st0 else a1) (caller c) (c_cost c)
                  (c_evidence c) (c_now c) None (bound_press c (presented c h1))) (\<lambda>ev.
         if review_of c \<noteq> None \<and> d_event (ev_decision ev) = ASK_REQUESTER_CONFIRMATION then Inl RequesterReview
         else mutate_assessed p c ev matched g0 h1)))) = Inr (r, h')"
    by (rule rbind_InrE)
  from this(2) [unfolded ingest_same [OF a1]] obtain t where
    ps: "proposal_step p (c_action c) (caller c) (c_cost c) h = Inr t"
    and q: "(case t of (matched, g0, st0, h1) \<Rightarrow>
     rbind (if c_enqueue c \<and> matched then rbind (row h1 (action_id (c_action c))) (\<lambda>x. Inr (if ar_lifecycle x = None then None else Some x))
            else Inr None) (\<lambda>previous.
     case previous of
       Some x \<Rightarrow> rbind (repeated p x) (\<lambda>d. Inr (Decided d, h1))
     | None \<Rightarrow>
         rbind (assess_operation (H p) (secs p) (desk_of p h1) (if matched then st0 else c_action c) (caller c) (c_cost c)
                  (c_evidence c) (c_now c) None (bound_press c (presented c h1))) (\<lambda>ev.
         if review_of c \<noteq> None \<and> d_event (ev_decision ev) = ASK_REQUESTER_CONFIRMATION then Inl RequesterReview
         else mutate_assessed p c ev matched g0 h1))) = Inr (r, h')"
    by (elim rbind_InrE)
  obtain matched g0 st0 h1 where t: "t = (matched, g0, st0, h1)" by (cases t) auto
  from q obtain previous where
    pv: "(if c_enqueue c \<and> matched then rbind (row h1 (action_id (c_action c)))
              (\<lambda>x. Inr (if ar_lifecycle x = None then None else Some x)) else Inr None) = Inr previous"
    and rest: "(case previous of
       Some x \<Rightarrow> rbind (repeated p x) (\<lambda>d. Inr (Decided d, h1))
     | None \<Rightarrow>
         rbind (assess_operation (H p) (secs p) (desk_of p h1) (if matched then st0 else c_action c) (caller c) (c_cost c)
                  (c_evidence c) (c_now c) None (bound_press c (presented c h1))) (\<lambda>ev.
         if review_of c \<noteq> None \<and> d_event (ev_decision ev) = ASK_REQUESTER_CONFIRMATION then Inl RequesterReview
         else mutate_assessed p c ev matched g0 h1)) = Inr (r, h')"
    unfolding t prod.case by (rule rbind_InrE)
  show thesis
  proof (cases previous)
    case None
    then obtain ev where as: "assess_operation (H p) (secs p) (desk_of p h1) (if matched then st0 else c_action c) (caller c) (c_cost c)
                  (c_evidence c) (c_now c) None (bound_press c (presented c h1)) = Inr ev"
      and me: "(if review_of c \<noteq> None \<and> d_event (ev_decision ev) = ASK_REQUESTER_CONFIRMATION then Inl RequesterReview
         else mutate_assessed p c ev matched g0 h1) = Inr (r, h')"
      using rest by (simp only: option.case) (rule rbind_InrE)
    from me have "mutate_assessed p c ev matched g0 h1 = Inr (r, h')" by (simp split: if_split_asm)
    then show thesis by (rule assessed [OF ps [unfolded t] as])
  next
    case (Some x)
    with pv t have "c_enqueue c" "matched" "find_action h1 (action_id (c_action c)) = Some x" "ar_lifecycle x \<noteq> None"
      by (auto simp: rbind_Inr_iff row_def of_opt_def split: if_split_asm option.split_asm)
    moreover have "h' = h1" using rest t Some by (auto simp: rbind_Inr_iff)
    ultimately show thesis using repeated ps t by blast
  qed
qed

lemma mutate_safe:
  assumes "sane p" and "house_ok p h" and "hooked p (c_action c)"
    and "mutate_locked p c h = Inr (r, h')"
  shows "safe p h h'"
proof -
  from assms(4) obtain matched g0 st0 h1 where
    ps: "proposal_step p (c_action c) (caller c) (c_cost c) h = Inr (matched, g0, st0, h1)"
    and rest: "h' = h1 \<or> (\<exists>ev. mutate_assessed p c ev matched g0 h1 = Inr (r, h'))"
    by (rule mutate_lockedE) blast+
  from proposal_step_safe [OF assms(2) ps] obtain x where s: "safe p h h1"
    and x: "find_action h1 (action_id (c_action c)) = Some x" "grant_seq x = g0" by blast
  from s have ok: "house_ok p h1" by (simp add: safe_def)
  from rest show ?thesis
  proof
    assume "h' = h1"
    with s show ?thesis by simp
  next
    assume "\<exists>ev. mutate_assessed p c ev matched g0 h1 = Inr (r, h')"
    then have "safe p h1 h'" using mutate_assessed_safe [OF assms(1) ok assms(3) x] by blast
    with s show ?thesis by (rule safe_trans)
  qed
qed

section \<open>Votes\<close>

lemma cast_vote_safe:
  assumes "sane p" and "house_ok p h" and "x \<in> set (approvals h)" and "open_status (ap_status x)"
    and "cast_vote p x ev a m pr approved now h = Inr (final, h')"
  shows "safe p h h' \<and> actions h' = actions h"
proof -
  from assms(5) obtain i where
    c: "(case List.find (\<lambda>v. v_approval_id v = approval_id x \<and> v_member_id v = i) (votes h) of
       Some v \<Rightarrow> Inr (v_approved v, h)
     | None \<Rightarrow>
         (let h1 = h\<lparr>votes := votes h @ [\<lparr>v_approval_id = approval_id x, v_member_id = i, v_approved = approved,
                     v_principal = pr, v_created_at = now\<rparr>]\<rparr> in
          rbind (write_event p now (if approved then APPROVED else REJECTED) (\<lambda>_. vote_payload x i a approved pr) h1) (\<lambda>(_, h2).
          rbind (eligible_votes h2 (approval_id x) ev) (\<lambda>(ok, _).
            Inr (approved, set_status (approval_id x) (if \<not> approved then Rejected else if ok then Approved else Pending) h2))))) = Inr (final, h')"
    unfolding cast_vote_def by (rule rbind_InrE)
  show ?thesis
  proof (cases "List.find (\<lambda>v. v_approval_id v = approval_id x \<and> v_member_id v = i) (votes h)")
    case (Some v)
    with c safe_refl [OF assms(2)] show ?thesis by simp
  next
    case None
    define h1 where "h1 = h\<lparr>votes := votes h @ [\<lparr>v_approval_id = approval_id x, v_member_id = i, v_approved = approved,
                     v_principal = pr, v_created_at = now\<rparr>]\<rparr>"
    have s1: "safe p h h1" unfolding h1_def by (rule insert_vote_safe [OF assms(2) None]) simp_all
    then have ok1: "house_ok p h1" by (simp add: safe_def)
    from c None obtain n h2 st where
      w: "write_event p now (if approved then APPROVED else REJECTED) (\<lambda>_. vote_payload x i a approved pr) h1 = Inr (n, h2)"
      and h': "h' = set_status (approval_id x) st h2" and st: "st \<in> {Rejected, Approved, Pending}"
      unfolding h1_def [symmetric] Let_def by (auto simp: rbind_Inr_iff split: if_split_asm)
    have pd: "\<exists>d. (\<lambda>_. vote_payload x i a approved pr) k = PDict d" for k :: int by (simp add: vote_payload_def)
    note we = write_event_safe [OF assms(1) ok1 pd w]
    from we(2) obtain db where h2: "h2 = h1\<lparr>audit := db\<rparr>" by blast
    have x2: "x \<in> set (approvals h2)" using assms(3) h2 by (simp add: h1_def)
    have "house_ok p h2" using we(1) by (simp add: safe_def)
    from set_status_found [OF this x2, of st] st assms(4) have "safe p h2 h'"
      unfolding h' by (auto simp: status_step_def open_status_def)
    with s1 we(1) have "safe p h h'" by (blast intro: safe_trans)
    moreover have "actions h' = actions h" using h2 by (simp add: h' h1_def)
    ultimately show ?thesis by simp
  qed
qed

lemma vote_event_safe:
  assumes "sane p" and "house_ok p h" and "x \<in> set (approvals h)" and "vote_event p x ev out a m pr approved now h = Inr (e, h')"
  shows "safe p h h' \<and> actions h' = actions h"
proof (cases "ap_status x = Redeemed \<or> now \<ge> expires_at x \<or> ap_status x = Expired \<or> ap_status x = Rejected")
  case True
  then show ?thesis
    using assms(4) safe_refl [OF assms(2)] expire_status_safe [OF assms(2,3)]
    unfolding vote_event_def by (auto split: if_split_asm)
next
  case False
  then have "open_status (ap_status x)" by (cases "ap_status x") (auto simp: open_status_def)
  with assms(4) False cast_vote_safe [OF assms(1-3)] safe_refl [OF assms(2)] show ?thesis
    unfolding vote_event_def by (auto simp: rbind_Inr_iff split: if_split_asm)
qed

text \<open>A vote is recorded under the approval it names, or under no approval.\<close>

lemma vote_lockedE:
  assumes "vote_locked p i pr approved now h = Inr (d, h')"
  obtains (unknown) "find_approval h i = None"
      and "record_decision p (unknown_decision (policy (base_desk p))) None [] now h = Inr (d, h')"
  | (known) x y a ev out m e h1 d0 where "find_approval h i = Some x" and "find_action h (ap_action_id x) = Some y"
      and "proposal y = a" and "resolve_member h pr = Inr m"
      and "vote_event p x ev out a m pr approved now h = Inr (e, h1)" and "d_event d0 = e" and "d_kind d0 \<noteq> Kexecute \<or> e = EXECUTE"
      and "b_doorbell (ap_binding x) \<noteq> None \<Longrightarrow> coherent (ev_decision ev)"
      and "record_decision p d0 (Some (ev_action ev)) (ev_diagnostics ev) now h1 = Inr (d, h')"
proof (cases "find_approval h i")
  case None
  with assms show thesis by (intro unknown) (simp_all add: vote_locked_def Let_def)
next
  case (Some x)
  let ?out = "\<lambda>ev out0. case outcomes ev of [] \<Rightarrow> out0 | o' # _ \<Rightarrow> o'"
  let ?ev = "\<lambda>ev out e. conclude (ev\<lparr>ev_decision := (ev_decision ev)\<lparr>d_approval := Some (approval_of x out)\<rparr>\<rparr>) e"
  let ?d = "\<lambda>ev e. if e = APPROVED then (ev_decision ev)\<lparr>d_kind := Kask\<rparr>
                   else if e = REJECTED then (ev_decision ev)\<lparr>d_kind := Kdeny\<rparr> else ev_decision ev"
  from assms [unfolded vote_locked_def Let_def Some option.case] obtain y a out0 ev m t where
    y: "row h (ap_action_id x) = Inr y" and a: "ingest (H p) (proposal y) = Inr a" and m: "resolve_member h pr = Inr m"
    and ev: "(case b_doorbell (ap_binding x) of None \<Rightarrow> Inr (vote_evaluation (policy (base_desk p)) a out0)
       | Some press \<Rightarrow> assess (desk_of p h) a (ar_principal y) (ar_cost y) [] now None (Some press)) = Inr ev"
    and t: "vote_event p x ev (?out ev out0) a m pr approved now h = Inr t"
    and r: "(case t of (e, h1) \<Rightarrow> record_decision p (?d (?ev ev (?out ev out0) e) e) (Some (ev_action (?ev ev (?out ev out0) e)))
           (ev_diagnostics (?ev ev (?out ev out0) e)) now h1) = Inr (d, h')"
    by (elim rbind_InrE)
  obtain e h1 where e: "t = (e, h1)" by force
  have act: "ev_action (?ev ev (?out ev out0) e) = ev_action ev" "ev_diagnostics (?ev ev (?out ev out0) e) = ev_diagnostics ev"
    by (simp_all add: conclude_def)
  show thesis
  proof (rule known [OF Some _ ingest_same [OF a, symmetric] m t [unfolded e]])
    show "find_action h (ap_action_id x) = Some y" using y by (simp add: row_def of_opt_def split: option.split_asm)
    show "coherent (ev_decision ev)" if "b_doorbell (ap_binding x) \<noteq> None" using ev that by (auto dest: assess_coherent)
    show "record_decision p (?d (?ev ev (?out ev out0) e) e) (Some (ev_action ev)) (ev_diagnostics ev) now h1 = Inr (d, h')"
      using r unfolding e prod.case act .
  qed (auto simp: conclude_def kind_of_event_def)
qed

lemma vote_safe:
  assumes "sane p" and "house_ok p h" and "vote_locked p i pr approved now h = Inr (d, h')"
  shows "safe p h h' \<and> actions h' = actions h"
  using assms(3)
proof (cases rule: vote_lockedE)
  case unknown
  from record_decision_safe [OF assms(1,2) unknown(2)] show ?thesis by auto
next
  case (known x y a ev out m e h1 d0)
  from find_approval_Some [OF known(1)] have "x \<in> set (approvals h)" by simp
  from vote_event_safe [OF assms(1,2) this known(5)] have s: "safe p h h1" and a: "actions h1 = actions h" by simp_all
  from s have "house_ok p h1" by (simp add: safe_def)
  note rd = record_decision_safe [OF assms(1) this known(9)]
  then have "safe p h1 h'" by (rule conjunct1)
  moreover have "actions h' = actions h1" using rd by auto
  ultimately show ?thesis using s a safe_trans by auto
qed

section \<open>Execution\<close>

lemma write_event_frame:
  assumes "write_event p now e pl h = Inr (n, h')"
  shows "actions h' = actions h \<and> approvals h' = approvals h \<and> votes h' = votes h \<and> roster h' = roster h \<and>
    accounts h' = accounts h \<and> passkeys h' = passkeys h \<and> home_paused h' = home_paused h"
  using assms by (auto simp: write_event_def split: sum.split_asm)

lemma authorize_ending_safe:
  assumes "sane p" and "house_ok p h" and "authorize_ending p a d now h = Inr h'"
  shows "safe p h h' \<and> (\<forall>x \<in> set (actions h). x \<in> set (actions h'))"
proof (cases "a_revert a")
  case None
  with assms(3) safe_refl [OF assms(2)] show ?thesis by (simp add: authorize_ending_def)
next
  case (Some r)
  with assms(3) obtain fin n h1 z where
    w: "write_event p now ENDING_AUTHORIZED (\<lambda>_. PDict [(''opening'', PStr (action_id a)), (''opening_hash'', PStr (content_hash a)),
                 (''grant_seq'', opt_pv PInt (audit_id d)), (''ending'', action_json fin)]) h = Inr (n, h1)"
    and i: "insert_action z h1 = Inr h'" and z: "grant_seq z = Some n" "attempt_seq z = None"
    by (auto simp: authorize_ending_def rbind_Inr_iff)
  have pd: "\<exists>dd. (\<lambda>_. PDict [(''opening'', PStr (action_id a)), (''opening_hash'', PStr (content_hash a)),
       (''grant_seq'', opt_pv PInt (audit_id d)), (''ending'', action_json fin)]) k = PDict dd" for k :: int by simp
  note we = write_event_safe [OF assms(1,2) pd w]
  from we(1) have ok1: "house_ok p h1" by (simp add: safe_def)
  have "log (audit h1) \<noteq> []" using we(2) by auto
  then have "row_ok (length (log (audit h1))) z" using z we(3) by (simp add: row_ok_def Suc_le_eq)
  from insert_action_safe [OF ok1 i this] we(1) write_event_frame [OF w] show ?thesis by (auto intro: safe_trans)
qed

lemma claim_lockedE:
  assumes "claim_locked p a d now h = Inr (sq, h')"
  obtains x n g h1 h2 where "ingest (H p) a = Inr a" and "claimable a d"
    and "find_action h (action_id a) = Some x" and "attempt_seq x = None" and "grant_seq x = audit_id d"
    and "H p (action_json (proposal x)) = H p (action_json a)" and "grant_seq x = Some n"
    and "find_event h n = Inr g" and "verified_row p g" and "grant_current p h x a d g now = Inr ()"
    and "timely x a now" and "requester_holds p h x a now = Inr ()" and "bound_device p a"
    and "(if ar_lifecycle x \<noteq> None then authorize_ending p a d now h else Inr h) = Inr h1"
    and "write_event p now EXECUTION_ATTEMPTED (\<lambda>_. PDict [(''action_id'', PStr (action_id a)),
              (''content_hash'', PStr (content_hash a)), (''grant_seq'', opt_pv PInt (audit_id d))]) h1 = Inr (sq, h2)"
    and "h' = update_action (action_id a) (\<lambda>y. if ar_lifecycle x = None then y\<lparr>attempt_seq := Some sq\<rparr>
              else y\<lparr>attempt_seq := Some sq, execution_status := Some ''executing'', lifecycle_seq := Some sq\<rparr>) h2"
proof -
  from assms [unfolded claim_locked_def] obtain b x n g h1 t where
    b: "ingest (H p) a = Inr b" and c: "guard ValueError (claimable b d) = Inr ()" and x: "row h (action_id b) = Inr x"
    and q: "guard ValueError (attempt_seq x = None \<and> grant_seq x = audit_id d \<and> H p (action_json (proposal x)) = H p (action_json b)) = Inr ()"
    and n: "of_opt ValueError (grant_seq x) = Inr n" and g: "find_event h n = Inr g" and v: "guard ValueError (verified_row p g) = Inr ()"
    and gc: "grant_current p h x b d g now = Inr ()" and ti: "guard ValueError (timely x b now) = Inr ()"
    and rh: "requester_holds p h x b now = Inr ()" and bd: "guard ValueError (bound_device p b) = Inr ()"
    and h1: "(if ar_lifecycle x \<noteq> None then authorize_ending p b d now h else Inr h) = Inr h1"
    and w: "write_event p now EXECUTION_ATTEMPTED (\<lambda>_. PDict [(''action_id'', PStr (action_id b)),
              (''content_hash'', PStr (content_hash b)), (''grant_seq'', opt_pv PInt (audit_id d))]) h1 = Inr t"
    and h': "(case t of (sq, h2) \<Rightarrow> Inr (sq, update_action (action_id b) (\<lambda>y. if ar_lifecycle x = None then y\<lparr>attempt_seq := Some sq\<rparr>
              else y\<lparr>attempt_seq := Some sq, execution_status := Some ''executing'', lifecycle_seq := Some sq\<rparr>) h2)) = (Inr (sq, h') :: (int \<times> house) result)"
    by (elim rbind_unitE rbind_InrE)
  note ab = ingest_same [OF b]
  obtain h2 where t: "t = (sq, h2)" using h' by (cases t) simp
  show thesis
    by (rule that [of x n g h1 h2])
       (use b c x q n g v gc ti rh bd h1 w h' in \<open>simp_all add: ab t guard_def row_def of_opt_def split: if_split_asm option.split_asm\<close>)
qed

lemma claim_safe:
  assumes "sane p" and "house_ok p h" and "claim_locked p a d now h = Inr (sq, h')"
  shows "safe p h h'"
  using assms(3)
proof (rule claim_lockedE)
  fix x :: action_row and n g h1 h2
  let ?f = "\<lambda>y. if ar_lifecycle x = None then y\<lparr>attempt_seq := Some sq\<rparr>
              else y\<lparr>attempt_seq := Some sq, execution_status := Some ''executing'', lifecycle_seq := Some sq\<rparr>"
  assume x: "find_action h (action_id a) = Some x" and none: "attempt_seq x = None" and n: "grant_seq x = Some n"
    and e: "(if ar_lifecycle x \<noteq> None then authorize_ending p a d now h else Inr h) = Inr h1"
    and w: "write_event p now EXECUTION_ATTEMPTED (\<lambda>_. PDict [(''action_id'', PStr (action_id a)),
              (''content_hash'', PStr (content_hash a)), (''grant_seq'', opt_pv PInt (audit_id d))]) h1 = Inr (sq, h2)"
    and h': "h' = update_action (action_id a) ?f h2"
  have s1: "safe p h h1 \<and> (\<forall>x \<in> set (actions h). x \<in> set (actions h1))"
    using e authorize_ending_safe [OF assms(1,2)] safe_refl [OF assms(2)] by (simp split: if_split_asm)
  then have ok1: "house_ok p h1" by (simp add: safe_def)
  have pd: "\<exists>dd. (\<lambda>_. PDict [(''action_id'', PStr (action_id a)), (''content_hash'', PStr (content_hash a)),
       (''grant_seq'', opt_pv PInt (audit_id d))]) k = PDict dd" for k :: int by simp
  note we = write_event_safe [OF assms(1) ok1 pd w]
  then have ok2: "house_ok p h2" by (simp add: safe_def)
  have x2: "x \<in> set (actions h2)" "action_id (proposal x) = action_id a"
    using find_action_Some [OF x] s1 write_event_frame [OF w] by simp_all
  have pos: "1 \<le> sq" "sq \<le> int (length (log (audit h2)))" using we(2,3) by auto
  have "safe p h2 h'" unfolding h'
  proof (rule update_action_safe [OF ok2])
    fix y assume y: "y \<in> set (actions h2)" "action_id (proposal y) = action_id a"
    have yx: "y = x" by (rule unique_action [OF ok2 y(1) x2(1)]) (simp add: x2 y)
    show "keeps_row y (?f y) \<and> row_ok (length (log (audit h2))) (?f y)"
      unfolding yx using none n pos rows_ok [OF ok2 x2(1)] by (simp add: keeps_row_def row_ok_def)
  qed
  with s1 we(1) show ?thesis by (blast intro: safe_trans)
qed

lemma outcome_safe:
  assumes "sane p" and "house_ok p h" and "outcome_locked p a attempt e now h = Inr h'"
  shows "safe p h h'"
proof -
  have pd: "\<exists>dd. (\<lambda>_. PDict [(''action_id'', PStr (action_id a)), (''execution_attempt_seq'', PInt attempt)]) k = PDict dd" for k :: int
    by simp
  from assms(3) show ?thesis
    using transition_safe [OF assms(1,2)] write_event_safe(1) [OF assms(1,2) pd]
    by (auto simp: outcome_locked_def rbind_Inr_iff split: if_split_asm)
qed

section \<open>Retries and notices\<close>

lemma notice_safe:
  assumes "sane p" and "house_ok p h" and "notice p m i msg now h = Inr h'"
  shows "safe p h h'"
proof -
  have pd: "\<exists>dd. (\<lambda>_. PDict [(''action_id'', PStr i), (''member_id'', PStr m), (''message'', PStr msg),
       (''delivery'', PStr ''pending'')]) k = PDict dd" for k :: int by simp
  have "safe p h (g\<lparr>notices := ns\<rparr>) = safe p h g" for g ns
    by (simp add: safe_def house_ok_def extends_def approval_ok_def granted_def)
  with assms(3) show ?thesis
    using write_event_safe(1) [OF assms(1,2) pd] safe_refl [OF assms(2)]
    by (auto simp: notice_def rbind_Inr_iff split: if_split_asm)
qed

lemma retry_made_safe:
  assumes "sane p" and "house_ok p h" and "retry_made p fresh a parent b now h = Inr (r, h')"
  shows "safe p h h'"
proof -
  from assms(3) [unfolded retry_made_def] obtain t where
    ps: "proposal_step p b (ar_principal parent) (ar_cost parent) h = Inr t"
    and q: "(case t of (_, _, _, h1) \<Rightarrow>
     rbind (assess_operation (H p) (secs p) (desk_of p h1) b (ar_principal parent) (ar_cost parent) [] now None None) (\<lambda>ev.
     if d_kind (ev_decision ev) \<noteq> Kexecute then
       rbind (ask p fresh ev b (ar_principal parent) (ar_cost parent) now h1) (\<lambda>(ev1, h2).
       rbind (record_decision p (ev_decision ev1) (Some (ev_action ev1)) (ev_diagnostics ev1) now h2) (\<lambda>(d, h3). Inr (Some d, h3)))
     else
       rbind (scheduled p (ev_action ev) (ev_decision ev) None (Some (action_id a)) now h1) (\<lambda>(d, h2).
       let h3 = update_action (action_id b) (\<lambda>x. x\<lparr>ar_lifecycle := map_option
                  (\<lambda>l. l\<lparr>lc_retry := 1, retry_of := Some (action_id a)\<rparr>) (ar_lifecycle x)\<rparr>) h2 in
       rbind (write_event p now SCHEDULED (\<lambda>_. PDict [(''action_id'', PStr (action_id b)), (''retry_of'', PStr (action_id a))]) h3)
         (\<lambda>(_, h4). Inr (Some d, h4))))) = Inr (r, h')" by (rule rbind_InrE)
  obtain mt g0 st0 h1 where t: "t = (mt, g0, st0, h1)" by (cases t)
  from proposal_step_safe [OF assms(2) ps [unfolded t]] have s1: "safe p h h1" by blast
  then have ok1: "house_ok p h1" by (simp add: safe_def)
  have rec: "safe p h1 h2 \<Longrightarrow> record_decision p d x errs now h2 = Inr (d', h3) \<Longrightarrow> safe p h1 h3" for h2 d x errs d' h3
    using record_decision_safe [OF assms(1), of h2 d x errs now d' h3] safe_trans by (auto simp: safe_def intro: extends_trans)
  have pd: "\<exists>dd. (\<lambda>_. PDict [(''action_id'', PStr (action_id b)), (''retry_of'', PStr (action_id a))]) k = PDict dd" for k :: int by simp
  have up: "safe p h1 h2 \<Longrightarrow> safe p h1 (update_action (action_id b) (\<lambda>x. x\<lparr>ar_lifecycle := map_option
                  (\<lambda>l. l\<lparr>lc_retry := 1, retry_of := Some (action_id a)\<rparr>) (ar_lifecycle x)\<rparr>) h2)" for h2
    by (rule safe_trans, assumption, rule update_other_safe) (simp_all add: safe_def)
  have we: "safe p h1 h3 \<Longrightarrow> write_event p now SCHEDULED (\<lambda>_. PDict [(''action_id'', PStr (action_id b)), (''retry_of'', PStr (action_id a))]) h3
       = Inr (n, h4) \<Longrightarrow> safe p h1 h4" for h3 n h4
    using write_event_safe(1) [OF assms(1) _ pd, of h3 now SCHEDULED n h4] safe_trans by (auto simp: safe_def intro: extends_trans)
  have "safe p h1 h'"
    using q unfolding t prod.case
    by (auto simp: rbind_Inr_iff Let_def split: if_split_asm
        dest!: ask_safe [OF assms(1) ok1] scheduled_safe [OF assms(1) ok1] intro: rec up we)
  with s1 show ?thesis by (rule safe_trans)
qed

lemma retry_safe:
  assumes "sane p" and "house_ok p h" and "retry p fresh fresh' a now h = Inr (r, h')"
  shows "safe p h h'"
  using assms(3) retry_made_safe [OF assms(1,2)] safe_refl [OF assms(2)]
  by (auto simp: retry_def rbind_Inr_iff split: if_split_asm option.split_asm)

end
