(* ===== verification/Lifecycle.thy ===== *)
theory Lifecycle
  imports Transactions
begin

text \<open>
  The household as a state machine. A step is one committed transaction: a request of any class, a vote, a
  claim, an outcome, a retry, a notice, an audited transition of the executor, or one of the writes of the other
  components (\<open>other_write\<close>); a request of a class that another component commits runs that component, whose
  part of the transaction is such writes (\<open>commit_ok\<close>). Policies, clocks and the graph may differ at every step;
  the digest and the keys of the log stay. The laws of a state machine with an invariant and a
  growing history are a locale, interpreted here on the household.
\<close>

section \<open>Machines that keep an invariant and a history\<close>

locale machine =
  fixes step :: "'s \<Rightarrow> 's \<Rightarrow> bool" and inv :: "'s \<Rightarrow> bool" and ext :: "'s \<Rightarrow> 's \<Rightarrow> bool"
  assumes step_inv: "inv s \<Longrightarrow> step s t \<Longrightarrow> inv t"
    and step_ext: "inv s \<Longrightarrow> step s t \<Longrightarrow> ext s t"
    and ext_refl: "ext s s"
    and ext_trans: "ext s t \<Longrightarrow> ext t u \<Longrightarrow> ext s u"
begin

lemma runs_inv: "step\<^sup>*\<^sup>* s t \<Longrightarrow> inv s \<Longrightarrow> inv t"
  by (induction rule: rtranclp_induct) (auto intro: step_inv)

lemma runs_ext: "step\<^sup>*\<^sup>* s t \<Longrightarrow> inv s \<Longrightarrow> ext s t"
proof (induction rule: rtranclp_induct)
  case base
  show ?case by (rule ext_refl)
next
  case (step t u)
  then have "inv t" using runs_inv by blast
  with step show ?case by (blast intro: ext_trans step_ext)
qed

end

section \<open>Steps of a household\<close>

definition same_keys :: "plant \<Rightarrow> plant \<Rightarrow> bool" where
  "same_keys p q \<longleftrightarrow> household_id q = household_id p \<and> H q = H p \<and> sign q = sign p \<and> ver q = ver p \<and> fp q = fp p"

inductive step :: "plant \<Rightarrow> house \<Rightarrow> house \<Rightarrow> bool" for p :: plant where
  request: "step p h h'" if "same_keys p q" and "hooked q (c_action c)" and "mutate q c h = Inr (r, h')"
| voting: "step p h h'" if "same_keys p q" and "vote q i pr approved now h = Inr (d, h')"
| claim: "step p h h'" if "same_keys p q" and "claim_execution q a d now h = Inr (sq, h')"
| outcome: "step p h h'" if "same_keys p q" and "execution_outcome q a n e now h = Inr h'"
| retrying: "step p h h'" if "same_keys p q" and "retry q fresh fresh' a now h = Inr (dd, h')"
| noticing: "step p h h'" if "same_keys p q" and "notice q m i msg now h = Inr h'"
| moving: "step p h h'" if "same_keys p q" and "transition q i status e details now h = Inr (n, h')"
| elsewhere: "step p h h'" if "other_write p h h'"

inductive_cases stepE: "step p h h'"

lemma sealed_Inr [simp]: "sealed r = Inr x \<longleftrightarrow> r = Inr x"
  by (cases r) (simp_all add: sealed_def)

lemma claim_execution_Inr [simp]: "claim_execution p a d now h = Inr x \<longleftrightarrow> claim_locked p a d now h = Inr x"
  by (cases "claim_locked p a d now h") (simp_all add: claim_execution_def)

lemma mutate_Inr: "mutate p c h = Inr x \<Longrightarrow> mutate_locked p c h = Inr x"
  by (auto simp: mutate_def rbind_Inr_iff)

lemma same_keys_sane: "same_keys p q \<Longrightarrow> sane q = sane p"
  by (simp add: same_keys_def sane_def)

lemma same_keys_ok: "same_keys p q \<Longrightarrow> house_ok q h = house_ok p h"
  by (simp add: same_keys_def house_ok_def)

lemma same_keys_safe: "same_keys p q \<Longrightarrow> safe q h h' = safe p h h'"
  by (simp add: safe_def same_keys_ok)

lemmas transactions_safe = mutate_safe vote_safe [THEN conjunct1] claim_safe outcome_safe retry_safe notice_safe transition_safe

lemma step_safe:
  assumes "step p h h'" and "sane p" and "house_ok p h"
  shows "safe p h h'"
  using assms
proof (induction rule: step.induct)
  case (elsewhere h h')
  then show ?case using other_write_safe by blast
qed (auto simp: execution_outcome_def same_keys_safe [symmetric] same_keys_sane [symmetric] same_keys_ok [symmetric]
       dest!: mutate_Inr simp: vote_def intro: transactions_safe)

interpretation household: machine "step p" "\<lambda>h. sane p \<and> house_ok p h" extends for p
proof
  fix s t u :: house
  show "sane p \<and> house_ok p s \<Longrightarrow> step p s t \<Longrightarrow> sane p \<and> house_ok p t"
    and "sane p \<and> house_ok p s \<Longrightarrow> step p s t \<Longrightarrow> extends s t"
    using step_safe [of p s t] by (simp_all add: safe_def)
  show "extends s s" by simp
  show "extends s t \<Longrightarrow> extends t u \<Longrightarrow> extends s u" by (rule extends_trans)
qed

end
