(* ===== verification/Samples.thy ===== *)
theory Samples
  imports Lifecycle
begin

text \<open>A household on which the properties of the transactions are applied: one adult, one lamp.\<close>

definition budget_home :: constitution where
  "budget_home = quinn_home\<lparr>autonomy := map (\<lambda>(d, rs). (d, map (\<lambda>(n, r). (n, if n = ''lights'' then r\<lparr>usd_per_day := Some 100000\<rparr> else r)) rs))
     (autonomy quinn_home)\<rparr>"

definition lamp_plant :: plant where
  "lamp_plant = demo_plant\<lparr>base_desk := lamp_desk\<lparr>policy := budget_home\<rparr>\<rparr>"

definition lamp_house :: house where
  "lamp_house = \<lparr>actions = [], approvals = [], votes = [], accounts = [(''apple'', ''s1'', ''m1'')], roster = [(''m1'', Adult)],
     passkeys = [], home_paused = False, notices = [], audit = empty_log\<rparr>"

definition lamp_request :: action where
  "lamp_request = (let a = lamp_action\<lparr>params := [(''on'', PBool True)]\<rparr> in a\<lparr>content_hash := action_hash demo_H a\<rparr>)"

definition lamp_call :: call where
  "lamp_call = \<lparr>c_action = lamp_request, c_principal = app_user, c_cost = Some (Dec 1 0), c_evidence = [],
     c_redeem = True, c_approval_id = None, c_enqueue = False, c_review = None, c_fresh = ''0'', c_now = 1791930900000000,
     c_later = 1791930900000000\<rparr>"

text \<open>The same home while automation is paused: the request was asked about and waits for a vote.\<close>

definition lamp_question :: approval_row where
  "lamp_question = \<lparr>approval_id = ''apr_0'', ap_action_id = ''a3'', ap_status = Pending,
     ap_binding = \<lparr>b_hash = content_hash lamp_request, b_requester = app_user,
       b_resolved = \<lparr>member_id = Some ''m1'', rq_role = Adult, rq_surface = App, speaker = None, claimed_author = None\<rparr>,
       b_cost = Some (Dec 1 0), b_policy = ''f'',
       b_gates = no_gates\<lparr>g_pause := True, risk_band := Some 0, risk_factors := Some [], unmet := Some []\<rparr>,
       b_ending = None, b_doorbell = None\<rparr>,
     ap_created_at = 1791930900000000, expires_at = 1791932700000000\<rparr>"

definition paused_house :: house where
  "paused_house = lamp_house\<lparr>home_paused := True, actions := [new_action_row lamp_request app_user (Some (Dec 1 0))],
     approvals := [lamp_question]\<rparr>"

definition answer_call :: call where
  "answer_call = lamp_call\<lparr>c_approval_id := Some ''apr_0''\<rparr>"

section \<open>Runs\<close>

lemma lamp_plant_sane: "sane lamp_plant"
  using demo_crypto by (simp add: sane_def lamp_plant_def demo_plant_def)

lemma lamp_house_new: "actions lamp_house = []" "approvals lamp_house = []" "votes lamp_house = []" "audit lamp_house = empty_log"
  by (simp_all add: lamp_house_def)

lemma lamp_house_ok: "house_ok lamp_plant lamp_house"
  using empty_log_ok by (simp add: house_ok_def one_open_def lamp_house_new lamp_plant_def demo_plant_def)

lemma paused_house_ok: "house_ok demo_plant paused_house"
  using empty_log_ok
  by (simp add: house_ok_def one_open_def paused_house_def lamp_house_new demo_plant_def row_ok_def
      new_action_row_def approval_ok_def lamp_question_def)

lemma demo_plant_sane: "sane demo_plant"
  using demo_crypto by (simp add: sane_def demo_plant_def)

text \<open>The request is granted with a budget, and the grant is claimed.\<close>

lemma lamp_runs:
  "case mutate lamp_plant lamp_call lamp_house of
     Inr (Decided d, h1) \<Rightarrow> d_budget d \<noteq> None \<and> granted h1 ''a3'' \<and>
       (case claim_execution lamp_plant lamp_request d 1791930901000000 h1 of Inr _ \<Rightarrow> True | Inl _ \<Rightarrow> False)
   | _ \<Rightarrow> False"
  by code_simp

lemma lamp_runE:
  obtains d b h1 sq h2 where "mutate lamp_plant lamp_call lamp_house = Inr (Decided d, h1)" and "d_budget d = Some b"
    and "granted h1 ''a3''" and "claim_execution lamp_plant lamp_request d 1791930901000000 h1 = Inr (sq, h2)"
proof -
  from lamp_runs obtain d h1 where m: "mutate lamp_plant lamp_call lamp_house = Inr (Decided d, h1)"
    and r: "d_budget d \<noteq> None \<and> granted h1 ''a3'' \<and>
       (case claim_execution lamp_plant lamp_request d 1791930901000000 h1 of Inr _ \<Rightarrow> True | Inl _ \<Rightarrow> False)"
    by (cases "mutate lamp_plant lamp_call lamp_house") (auto split: prod.split_asm reply.split_asm)
  from r obtain b where b: "d_budget d = Some b" by blast
  from r obtain sq h2 where "claim_execution lamp_plant lamp_request d 1791930901000000 h1 = Inr (sq, h2)"
    by (cases "claim_execution lamp_plant lamp_request d 1791930901000000 h1") auto
  with m b r show thesis by (intro that [of d h1 b sq h2]) simp_all
qed

text \<open>While paused, the vote satisfies the question and the request is granted on it.\<close>

lemma paused_runs:
  "case vote demo_plant ''apr_0'' app_user True 1791930900000000 paused_house of
     Inr (_, h0) \<Rightarrow> votes h0 \<noteq> [] \<and> home_paused h0 \<and>
       (case mutate demo_plant answer_call h0 of Inr (_, h1) \<Rightarrow> granted h1 ''a3'' \<and> \<not> granted h0 ''a3'' | Inl _ \<Rightarrow> False)
   | Inl _ \<Rightarrow> False"
  by code_simp

lemma paused_runE:
  obtains d h0 r h1 where "vote demo_plant ''apr_0'' app_user True 1791930900000000 paused_house = Inr (d, h0)" and "votes h0 \<noteq> []" and "home_paused h0"
    and "mutate demo_plant answer_call h0 = Inr (r, h1)" and "granted h1 ''a3''" and "\<not> granted h0 ''a3''"
proof -
  from paused_runs obtain d h0 where v: "vote demo_plant ''apr_0'' app_user True 1791930900000000 paused_house = Inr (d, h0)"
    and r: "votes h0 \<noteq> [] \<and> home_paused h0 \<and>
       (case mutate demo_plant answer_call h0 of Inr (_, h1) \<Rightarrow> granted h1 ''a3'' \<and> \<not> granted h0 ''a3'' | Inl _ \<Rightarrow> False)"
    by (cases "vote demo_plant ''apr_0'' app_user True 1791930900000000 paused_house") auto
  from r obtain r1 h1 where "mutate demo_plant answer_call h0 = Inr (r1, h1)" "granted h1 ''a3''" "\<not> granted h0 ''a3''"
    by (cases "mutate demo_plant answer_call h0") auto
  with v r show thesis by (intro that [of d h0 r1 h1]) simp_all
qed

lemma lamp_class: "\<not> committed_class (action_class lamp_request)" "action_id lamp_request = ''a3''"
  "action_class lamp_request = ''environment.lights''" by code_simp+

lemma lamp_call_simps: "c_action lamp_call = lamp_request" "c_action answer_call = lamp_request"
  by (simp_all add: lamp_call_def answer_call_def)

end
