(* ===== verification/Authority.thy ===== *)
theory Authority
  imports Samples
begin

text \<open>
  What stands behind a grant. A request grants its action at most once, only after the whole
  assessment, the approval with its votes where one is asked for, and the boundary for every role;
  a vote grants nothing; the reserved amounts of a day stay under the cap.
\<close>

section \<open>Grants in the tables\<close>

definition grants :: "house \<Rightarrow> (string \<times> int option) list" where
  "grants h = map (\<lambda>x. (action_id (proposal x), grant_seq x)) (actions h)"

lemma granted_grants: "granted h i \<longleftrightarrow> (\<exists>n. (i, Some n) \<in> set (grants h))"
  by (simp add: granted_def grants_def image_iff) metis

lemma grants_cong: "actions h' = actions h \<Longrightarrow> grants h' = grants h"
  by (simp add: grants_def)

lemma grants_update:
  "(\<And>x. proposal (f x) = proposal x \<and> grant_seq (f x) = grant_seq x) \<Longrightarrow> grants (update_action i f h) = grants h"
  by (auto simp: grants_def update_action_def)

lemma grants_mark:
  "grants (update_action i (\<lambda>x. x\<lparr>grant_seq := n\<rparr>) h) = map (\<lambda>(j, m). if j = i then (j, n) else (j, m)) (grants h)"
  by (auto simp: grants_def update_action_def)

lemma granted_mark: "granted (update_action i (\<lambda>x. x\<lparr>grant_seq := n\<rparr>) h) j \<Longrightarrow> granted h j \<or> j = i"
  by (auto simp: granted_grants grants_mark split: if_split_asm)

lemma grants_marks: "grants h = map (\<lambda>(i, g, t). (i, g)) (marks h)"
  by (simp add: grants_def marks_def)

lemma marks_grants: "marks h' = marks h \<Longrightarrow> grants h' = grants h"
  by (simp add: grants_marks)

lemma marks_cong: "actions h' = actions h \<Longrightarrow> marks h' = marks h"
  by (simp add: marks_def)

lemma marks_update:
  "(\<And>x. proposal (f x) = proposal x \<and> grant_seq (f x) = grant_seq x \<and> attempt_seq (f x) = attempt_seq x) \<Longrightarrow>
     marks (update_action i f h) = marks h"
  by (auto simp: marks_def update_action_def)

lemma marks_mark:
  "marks (update_action i (\<lambda>x. x\<lparr>grant_seq := n\<rparr>) h) = map (\<lambda>(j, g, t). if j = i then (j, n, t) else (j, g, t)) (marks h)"
  by (auto simp: marks_def update_action_def)

lemma transition_marks: "transition p i status e details now h = Inr (n, h') \<Longrightarrow> marks h' = marks h"
  by (auto simp: transition_def rbind_Inr_iff marks_update dest!: write_event_frame intro: marks_cong)

lemma scheduled_marks:
  assumes "scheduled p a d apr retried now h = Inr (d', h')"
  shows "marks h' = marks h \<and> audit_id d' \<noteq> None"
  using assms by (rule scheduled_Inr) (auto simp: marks_update dest!: transition_marks)

lemma record_decision_frame:
  assumes "record_decision p d a errs now h = Inr (d', h')"
  shows "\<exists>db. h' = h\<lparr>audit := db\<rparr>" and "audit_id d' \<noteq> None" and "d_kind d' = d_kind d" and "d_event d' = d_event d"
    and "d_budget d' = d_budget d" and "d_action_id d' = d_action_id d"
proof -
  let ?step = "\<lambda>path h. rbind (write_event p now POLICY_ERROR (\<lambda>_. PDict [(''paths'', PList [PStr path])]) h) (\<lambda>(_, h'). Inr h')"
  from assms obtain h1 n where f: "foldM ?step errs h = Inr h1"
    and w: "write_event p now (d_event (narrated p d a)) (\<lambda>n. decision_dump ((narrated p d a)\<lparr>audit_id := Some n\<rparr>)) h1 = Inr (n, h')"
    and d': "d' = (narrated p d a)\<lparr>audit_id := Some n\<rparr>"
    by (auto simp: record_decision_def Let_def rbind_Inr_iff)
  have "\<exists>db. h1 = h\<lparr>audit := db\<rparr>"
  proof (rule foldM_invariant [OF f])
    show "\<exists>db. h = h\<lparr>audit := db\<rparr>" by (rule exI [of _ "audit h"]) simp
  qed (auto simp: write_event_def rbind_Inr_iff split: sum.split_asm)
  with w show "\<exists>db. h' = h\<lparr>audit := db\<rparr>" by (auto simp: write_event_def split: sum.split_asm)
  show "audit_id d' \<noteq> None" and "d_kind d' = d_kind d" and "d_event d' = d_event d"
    and "d_budget d' = d_budget d" and "d_action_id d' = d_action_id d"
    by (simp_all add: d' narrated_def)
qed

lemma finish_frame:
  assumes "finish p ev now h = Inr (r, h')"
  shows "\<exists>db d. h' = h\<lparr>audit := db\<rparr> \<and> r = Decided d \<and> audit_id d \<noteq> None \<and> d_kind d = d_kind (ev_decision ev) \<and>
    d_event d = d_event (ev_decision ev)"
proof (cases "audit_id (ev_decision ev) = None")
  case True
  with assms obtain d where "record_decision p (ev_decision ev) (Some (ev_action ev)) (ev_diagnostics ev) now h = Inr (d, h')"
    and "r = Decided d" by (auto simp: finish_def rbind_Inr_iff)
  with record_decision_frame [OF this(1)] show ?thesis by blast
next
  case False
  with assms show ?thesis by (auto simp: finish_def intro!: exI [of _ "audit h"])
qed

section \<open>A grant is made once\<close>

text \<open>
  A request for an action that already has a grant makes no second one: no row, approval or vote
  changes, and the answer is a refusal (used or mismatched approval), the stored state of queued
  work, or for memory and constraint requests the recorded decision of that grant.
\<close>

theorem granted_once:
  assumes "find_action h (action_id (c_action c)) = Some x" and "grant_seq x = Some n" and "mutate p c h = Inr (r, h')"
  shows "actions h' = actions h \<and> approvals h' = approvals h \<and> votes h' = votes h \<and>
    ((\<exists>d. r = Decided d \<and> d_kind d = Kdeny \<and> d_event d \<in> {DENY_APPROVAL_USED, DENY_APPROVAL_MISMATCH}) \<or>
     (c_enqueue c \<and> ar_lifecycle x \<noteq> None \<and> h' = h) \<or>
     (\<exists>g. (action_class (c_action c) = ''governance.memory'' \<or> constraint_class (action_class (c_action c))) \<and>
        find_event h n = Inr g \<and> r = Replayed (r_payload g) \<and> h' = h))"
proof -
  have step: "proposal_step p (c_action c) (caller c) (c_cost c) h = Inr (matched, g0, st0, h1) \<Longrightarrow> h1 = h \<and> g0 = Some n" for matched g0 st0 h1
    using assms(1,2) by (auto simp: proposal_step_def rbind_Inr_iff)
  from assms(3) have "mutate_locked p c h = Inr (r, h')" by (rule mutate_Inr)
  then show ?thesis
  proof (cases rule: mutate_lockedE)
    case (repeated matched g0 st0 h1 y)
    with step [OF repeated(1)] assms(1) show ?thesis by simp
  next
    case (assessed matched g0 st0 h1 ev)
    with step [OF assessed(1)] have h1: "h1 = h" and m: "mutate_assessed p c ev matched (Some n) h = Inr (r, h')" by simp_all
    show ?thesis
    proof (cases "matched \<and> (action_class (c_action c) = ''governance.memory'' \<or> constraint_class (action_class (c_action c)))")
      case True
      with m show ?thesis by (auto simp: mutate_assessed_def Let_def rbind_Inr_iff)
    next
      case False
      with m obtain e where "finish p (conclude ev e) (c_now c) h = Inr (r, h')"
        and "e \<in> {DENY_APPROVAL_USED, DENY_APPROVAL_MISMATCH}"
        by (auto simp: mutate_assessed_def Let_def split: if_split_asm)
      with finish_frame [OF this(1)] show ?thesis by (auto simp: kind_of_event_def)
    qed
  qed
qed

section \<open>What a proposal does not change\<close>

text \<open>Two states that differ only in rows without a grant look the same to assessment, votes and boundary.\<close>

definition alike :: "house \<Rightarrow> house \<Rightarrow> bool" where
  "alike h h' \<longleftrightarrow> approvals h' = approvals h \<and> votes h' = votes h \<and> accounts h' = accounts h \<and> roster h' = roster h \<and>
     passkeys h' = passkeys h \<and> home_paused h' = home_paused h \<and> audit h' = audit h \<and>
     filter (\<lambda>x. grant_seq x \<noteq> None) (actions h') = filter (\<lambda>x. grant_seq x \<noteq> None) (actions h)"

lemma alikeD:
  assumes "alike h h'"
  shows "approvals h' = approvals h" and "votes h' = votes h" and "accounts h' = accounts h" and "roster h' = roster h"
    and "passkeys h' = passkeys h" and "home_paused h' = home_paused h" and "audit h' = audit h"
    and "filter (\<lambda>x. grant_seq x \<noteq> None) (actions h') = filter (\<lambda>x. grant_seq x \<noteq> None) (actions h)"
  using assms unfolding alike_def by blast+

lemma alike_members:
  assumes "alike h h'"
  shows "resolve_member h' = resolve_member h" and "credential_current h' = credential_current h"
    and "eligible_members h' = eligible_members h"
proof -
  show m: "resolve_member h' = resolve_member h"
    by (rule ext) (unfold resolve_member_def linked_members_def alikeD [OF assms], rule refl)
  show "credential_current h' = credential_current h"
    by (rule ext) (unfold credential_current_def m alikeD [OF assms], rule refl)
  show "eligible_members h' = eligible_members h"
    by (rule ext) (unfold eligible_members_def alikeD [OF assms], rule refl)
qed

lemma filter_narrow:
  assumes "filter P xs = filter P ys" and "\<And>x. Q x \<Longrightarrow> P x"
  shows "filter Q xs = filter Q ys"
proof -
  have "filter Q zs = filter Q (filter P zs)" for zs using assms(2) by (induction zs) auto
  with assms(1) show ?thesis by metis
qed

lemma alike_usage:
  assumes "alike h h'"
  shows "usage h' = usage h"
proof -
  have g: "grants_of h' = grants_of h"
  proof
    fix r :: audit_row
    have "filter (\<lambda>x. grant_seq x = Some (r_seq r)) (actions h') = filter (\<lambda>x. grant_seq x = Some (r_seq r)) (actions h)"
      by (rule filter_narrow [OF alikeD(8) [OF assms]]) simp
    then show "grants_of h' r = grants_of h r" by (simp add: grants_of_def)
  qed
  show ?thesis by (intro ext) (unfold usage_def reserved_rows_def adjustment_rows_def g alikeD [OF assms], rule refl)
qed

lemma alike_desk:
  assumes "alike h h'"
  shows "desk_of p h' = desk_of p h"
proof -
  have c: "confirmed_requester p h' = confirmed_requester p h"
    by (intro ext) (unfold confirmed_requester_def alike_members [OF assms] alikeD [OF assms], rule refl)
  have s: "house_snapshot p h' = house_snapshot p h"
    by (intro ext) (unfold house_snapshot_def alikeD [OF assms], rule refl)
  show ?thesis by (unfold desk_of_def c s alike_members [OF assms] alike_usage [OF assms], rule refl)
qed

lemma alike_votes:
  assumes "alike h h'"
  shows "eligible_votes h' = eligible_votes h"
proof -
  have v: "vote_counts h' = vote_counts h"
    by (intro ext) (unfold vote_counts_def alike_members [OF assms], rule refl)
  have t: "tally h' = tally h"
  proof (intro ext)
    fix a out vs acc
    show "tally h' a out vs acc = tally h a out vs acc"
      by (induction vs arbitrary: acc) (auto simp only: tally.simps v intro!: arg_cong2 [where f = rbind] ext)
  qed
  show ?thesis by (intro ext) (unfold eligible_votes_def t alikeD [OF assms] alike_members [OF assms], rule refl)
qed

lemma alike_boundary:
  assumes "alike h h'"
  shows "boundary_check p h' = boundary_check p h"
  by (intro ext) (unfold boundary_check_def boundary_answer_for_def alike_members [OF assms], rule refl)

lemma alike_presented: "alike h h' \<Longrightarrow> presented c h' = presented c h"
  by (unfold presented_def find_approval_def) (simp only: alikeD)

lemma proposal_step_alike:
  assumes "proposal_step p a pr cost h = Inr (matched, g0, st0, h1)"
  shows "alike h h1 \<and> (\<forall>i. granted h1 i \<longleftrightarrow> granted h i) \<and> (matched \<longrightarrow> st0 \<in> {a, reload a})"
proof (cases "find_action h (action_id a)")
  case None
  with assms obtain y where h1: "h1 = h\<lparr>actions := actions h @ [y]\<rparr>" and y: "grant_seq y = None" and st: "st0 = a"
    by (auto simp: proposal_step_def rbind_Inr_iff insert_action_def new_action_row_def split: if_split_asm)
  from y have "granted h1 i \<longleftrightarrow> granted h i" for i unfolding h1 granted_def by auto
  with h1 y st show ?thesis by (simp add: alike_def)
next
  case (Some x)
  with assms show ?thesis by (auto simp: proposal_step_def rbind_Inr_iff alike_def dest!: ingest_same)
qed

section \<open>What a grant rests on\<close>

text \<open>The approval that carries a decision, and what sanctions a grant.\<close>

definition approves ::
  "plant \<Rightarrow> house \<Rightarrow> action \<Rightarrow> principal \<Rightarrow> dec option \<Rightarrow> int \<Rightarrow> evaluation \<Rightarrow> approval_row \<Rightarrow> principal option \<Rightarrow> int option \<Rightarrow> bool"
where
  "approves p h a pr cost now ev x voter approved_at \<longleftrightarrow>
     ap_action_id x = action_id a \<and> open_status (ap_status x) \<and> now < expires_at x \<and>
     (\<exists>b. binding_of p a pr cost ev = Inr b \<and> compatible (ap_binding x) b) \<and>
     eligible_votes h (approval_id x) ev = Inr (True, voter, approved_at)"

definition sanctioned ::
  "plant \<Rightarrow> house \<Rightarrow> action \<Rightarrow> principal \<Rightarrow> dec option \<Rightarrow> int \<Rightarrow> evaluation \<Rightarrow> approval_row option \<Rightarrow> principal option \<Rightarrow> int option \<Rightarrow> bool"
where
  "sanctioned p h a pr cost now ev apr voter approved_at \<longleftrightarrow>
     (case apr of
        None \<Rightarrow> d_kind (ev_decision ev) = Kexecute \<and> approved_at = None \<and> voter = None
      | Some x \<Rightarrow> d_kind (ev_decision ev) \<in> {Kexecute, Kask} \<and> approves p h a pr cost now ev x voter approved_at)"

lemma grant_marks:
  assumes "grant p ev a pr cost apr now h = Inr (ev', h')" and "\<not> committed_class (action_class a)"
  shows "\<exists>n. marks h' = map (\<lambda>(j, g, t). if j = action_id a then (j, Some n, t) else (j, g, t)) (marks h) \<and>
    audit_id (ev_decision ev') = Some n \<and> d_kind (ev_decision ev') = d_kind (ev_decision ev) \<and>
    d_event (ev_decision ev') = d_event (ev_decision ev)"
  using assms
proof (rule grant_Inr)
  fix d1 :: decision and h1 h3
  let ?h2 = "update_action (action_id a) (\<lambda>x. x\<lparr>grant_seq := audit_id d1\<rparr>) h1"
  let ?h5 = "update_action (action_id a) (\<lambda>x. x\<lparr>ar_lifecycle := map_option (\<lambda>lc. lc\<lparr>lc_decision := d1\<rparr>) (ar_lifecycle x)\<rparr>) h3"
  assume r: "record_decision p (reserving (ev_decision ev) cost) (Some (ev_action ev)) (ev_diagnostics ev) now h = Inr (d1, h1)"
    and h3: "h3 = (case apr of None \<Rightarrow> ?h2 | Some x \<Rightarrow> set_status (approval_id x) Redeemed ?h2)"
    and sp: "set_pause p a now ?h5 = Inr h'" and ev': "ev' = ev\<lparr>ev_decision := d1\<rparr>"
  note rd = record_decision_frame [OF r]
  obtain n where n: "audit_id d1 = Some n" using rd(2) by auto
  have "marks h1 = marks h" using rd(1) by (auto intro: marks_cong)
  moreover have "marks h3 = marks ?h2" by (auto simp: h3 marks_def split: option.split)
  moreover have "marks ?h5 = marks h3" by (rule marks_update) simp
  moreover have "actions h' = actions ?h5"
    using sp by (auto simp: set_pause_def Let_def rbind_Inr_iff dest!: write_event_frame split: if_split_asm)
  then have "marks h' = marks ?h5" by (rule marks_cong)
  ultimately have "marks h' = map (\<lambda>(j, g, t). if j = action_id a then (j, Some n, t) else (j, g, t)) (marks h)"
    using n marks_mark [of "action_id a" "Some n" h1] by simp
  moreover have "d_kind d1 = d_kind (ev_decision ev)" "d_event d1 = d_event (ev_decision ev)"
    using rd(3,4) by (simp_all add: reserving_def split: option.split)
  ultimately show ?thesis using n ev' by auto
qed

lemma grant_rows:
  assumes "grant p ev a pr cost apr now h = Inr (ev', h')" and "\<not> committed_class (action_class a)"
  shows "\<exists>n. grants h' = map (\<lambda>(j, m). if j = action_id a then (j, Some n) else (j, m)) (grants h) \<and>
    audit_id (ev_decision ev') = Some n \<and> d_kind (ev_decision ev') = d_kind (ev_decision ev) \<and>
    d_event (ev_decision ev') = d_event (ev_decision ev)"
proof -
  from grant_marks [OF assms] obtain n where
    m: "marks h' = map (\<lambda>(j, g, t). if j = action_id a then (j, Some n, t) else (j, g, t)) (marks h)"
    and r: "audit_id (ev_decision ev') = Some n \<and> d_kind (ev_decision ev') = d_kind (ev_decision ev) \<and>
      d_event (ev_decision ev') = d_event (ev_decision ev)" by blast
  have "grants h' = map (\<lambda>(j, m). if j = action_id a then (j, Some n) else (j, m)) (grants h)"
    unfolding grants_marks m by (auto simp: comp_def)
  with r show ?thesis by blast
qed

text \<open>Authorization leaves the grants alone, or it grants after every check.\<close>

lemma passed_marks:
  assumes "sane p" and "house_ok p h"
    and "authorize_passed p fresh ev a pr cost now later apr_id apr approved_at voter queued h = Inr (ev', h')"
  obtains (kept) "marks h' = marks h"
  | (granting) ev1 where "\<not> queued" and "boundary_check p h ev now approved_at voter = Inr ev1"
      and "d_kind (ev_decision ev1) = Kexecute" and "\<And>x. apr = Some x \<Longrightarrow> later < expires_at x"
      and "grant p ev1 a pr cost apr now h = Inr (ev', h')"
proof (cases queued)
  case True
  with assms(3) have "marks h' = marks h"
    by (auto simp: authorize_passed_def Let_def rbind_Inr_iff dest: scheduled_marks)
  then show thesis by (rule kept)
next
  case False
  with assms(3) have "authorize_passed p fresh ev a pr cost now later apr_id apr approved_at voter False h = Inr (ev', h')" by simp
  then show thesis
  proof (cases rule: authorize_passedE)
    case refused
    then show thesis by (intro kept) simp
  next
    case asked
    from ask_safe [OF assms(1,2) asked] show thesis by (intro kept marks_cong) simp
  next
    case stopped
    then show thesis by (intro kept) simp
  next
    case (late ev1 x)
    then show thesis by (intro kept) (simp add: marks_def)
  next
    case (passed ev1)
    show thesis by (rule granting [OF False passed(2,3) _ passed(5)]) (use passed(4) in auto)
  qed
qed

text \<open>What \<open>authorize\<close> does once neither the assessment nor the presented approval has stopped it.\<close>

definition authorize_open ::
  "plant \<Rightarrow> string \<Rightarrow> evaluation \<Rightarrow> action \<Rightarrow> principal \<Rightarrow> dec option \<Rightarrow> int \<Rightarrow> int \<Rightarrow> string option \<Rightarrow> approval_row option
     \<Rightarrow> bool \<Rightarrow> house \<Rightarrow> (evaluation \<times> house) result"
where
  "authorize_open p fresh ev a pr cost now later apr_id apr queued h =
     (case apr of
            Some x \<Rightarrow>
              rbind (binding_of p a pr cost ev) (\<lambda>current.
              if \<not> compatible (ap_binding x) current then
                ask p fresh (conclude ev ASK_CONSTITUTION) a pr cost now (set_status (approval_id x) Expired h)
              else
                rbind (eligible_votes h (approval_id x) ev) (\<lambda>(ok, voter, approved_at).
                  if \<not> ok then Inr (conclude ev DENY_APPROVAL_UNAUTHORIZED, h)
                  else authorize_passed p fresh ev a pr cost now later apr_id apr approved_at voter queued h))
          | None \<Rightarrow>
              if d_kind (ev_decision ev) = Kask then ask p fresh ev a pr cost now h
              else authorize_passed p fresh ev a pr cost now later apr_id None None None queued h)"

lemma authorize_reaches:
  assumes "authorize p fresh ev a pr cost now later apr_id apr queued h = Inr (ev', h')"
  obtains (stopped) "marks h' = marks h"
  | (opened) "approval_refusal apr_id apr a now h = None" and "d_kind (ev_decision ev) \<in> {Kexecute, Kask}"
      and "authorize_open p fresh ev a pr cost now later apr_id apr queued h = Inr (ev', h')"
proof (cases "approval_refusal apr_id apr a now h")
  case (Some r)
  have same: "marks (snd r) = marks h" using Some
    by (auto simp: approval_refusal_def marks_def split: if_split_asm option.split_asm)
  have "ev' = ev \<and> h' = h \<or> h' = snd r"
    using assms Some by (cases r) (auto simp: authorize_def Let_def split: if_split_asm)
  with same show thesis by (intro stopped) auto
next
  case None
  show thesis
  proof (cases "d_kind (ev_decision ev) \<in> {Kdeny, Kverify} \<or>
      d_event (ev_decision ev) \<in> {ASK_REQUESTER_CONFIRMATION, ASK_UNRESOLVED_CONDITION}")
    case True
    then have "h' = h" using assms unfolding authorize_def Let_def None option.case by (simp split: if_split_asm)
    then show thesis by (intro stopped) simp
  next
    case False
    then have k: "d_kind (ev_decision ev) \<noteq> Kdeny" "d_kind (ev_decision ev) \<in> {Kexecute, Kask}"
      by (cases "d_kind (ev_decision ev)"; simp)+
    with False assms have "authorize_open p fresh ev a pr cost now later apr_id apr queued h = Inr (ev', h')"
      unfolding authorize_def authorize_open_def Let_def None option.case by simp
    with None k(2) show thesis by (rule opened)
  qed
qed

lemma authorizeE:
  assumes "sane p" and "house_ok p h" and "\<And>y. apr = Some y \<Longrightarrow> y \<in> set (approvals h) \<and> apr_id \<noteq> None \<and> apr_id \<noteq> Some []"
    and "authorize p fresh ev a pr cost now later apr_id apr queued h = Inr (ev', h')"
  obtains (kept) "marks h' = marks h"
  | (granting) approved_at voter ev1 where "\<not> queued" and "sanctioned p h a pr cost now ev apr voter approved_at"
      and "\<And>x. apr = Some x \<Longrightarrow> later < expires_at x"
      and "boundary_check p h ev now approved_at voter = Inr ev1" and "d_kind (ev_decision ev1) = Kexecute"
      and "grant p ev1 a pr cost apr now h = Inr (ev', h')"
  using assms(4)
proof (cases rule: authorize_reaches)
  case stopped
  then show thesis by (rule kept)
next
  case opened
  have asked: "ask p fresh e a pr cost now g = Inr (ev', h') \<Longrightarrow> house_ok p g \<Longrightarrow> actions g = actions h \<Longrightarrow> thesis" for e g
    using ask_safe [OF assms(1), of g fresh e a pr cost now ev' h'] kept marks_cong by metis
  have passed: thesis if "authorize_passed p fresh ev a pr cost now later apr_id apr t v queued h = Inr (ev', h')"
    and "sanctioned p h a pr cost now ev apr v t" for t v
    using assms(1,2) that(1)
  proof (cases rule: passed_marks)
    case gr: (granting ev1)
    show thesis by (rule granting [OF gr(1) that(2) gr(4,2,3,5)])
  qed (rule kept)
  show thesis
  proof (cases apr)
    case None
    show thesis
    proof (cases "d_kind (ev_decision ev) = Kask")
      case True
      with opened(3) None show thesis by (intro asked [of ev h] assms(2)) (simp_all add: authorize_open_def)
    next
      case False
      with opened None show thesis by (intro passed [of None None]) (simp_all add: authorize_open_def sanctioned_def)
    qed
  next
    case (Some x)
    have x: "x \<in> set (approvals h)" "ap_action_id x = action_id a \<and> open_status (ap_status x) \<and> now < expires_at x"
      using assms(3) [OF Some] approval_refusal_None [of apr_id x a now h] opened(1) Some by auto
    then have "ap_status x \<noteq> Redeemed" by (auto simp: open_status_def)
    with x(1) have exp: "house_ok p (set_status (approval_id x) Expired h)"
      using expire_status_safe [OF assms(2)] by (auto simp: safe_def)
    from opened(3) [unfolded authorize_open_def Some option.case] obtain b where b: "binding_of p a pr cost ev = Inr b"
      and r: "(if \<not> compatible (ap_binding x) b then
            ask p fresh (conclude ev ASK_CONSTITUTION) a pr cost now (set_status (approval_id x) Expired h)
          else
            rbind (eligible_votes h (approval_id x) ev) (\<lambda>(ok, voter, approved_at).
              if \<not> ok then Inr (conclude ev DENY_APPROVAL_UNAUTHORIZED, h)
              else authorize_passed p fresh ev a pr cost now later apr_id (Some x) approved_at voter queued h)) = Inr (ev', h')"
      by (rule rbind_InrE)
    show thesis
    proof (cases "compatible (ap_binding x) b")
      case False
      with r show thesis by (intro asked [OF _ exp, of "conclude ev ASK_CONSTITUTION"]) simp_all
    next
      case True
      with r obtain ok v t where vs: "eligible_votes h (approval_id x) ev = Inr (ok, v, t)"
        and q: "(if \<not> ok then Inr (conclude ev DENY_APPROVAL_UNAUTHORIZED, h)
              else authorize_passed p fresh ev a pr cost now later apr_id (Some x) t v queued h) = Inr (ev', h')"
        by (auto elim!: rbind_InrE)
      show thesis
      proof (cases ok)
        case okT: True
        show thesis
          by (rule passed [of t v]) (use q okT Some opened(2) x(2) b True vs in \<open>auto simp: sanctioned_def approves_def\<close>)
      qed (use q in \<open>auto intro: kept\<close>)
    qed
  qed
qed

text \<open>A request that grants, seen from the state before it.\<close>

lemma authority_of_grant:
  assumes "sane p" and "house_ok p h" and "\<not> committed_class (action_class (c_action c))"
    and "mutate_locked p c h = Inr (r, h')" and "\<not> granted h i" and "granted h' i"
  obtains a ev ev1 ev2 approved_at voter h1 where "i = action_id (c_action c)" and "c_redeem c" and "\<not> c_enqueue c"
    and "a \<in> {c_action c, reload (c_action c)}"
    and "assess_operation (H p) (secs p) (desk_of p h) a (caller c) (c_cost c) (c_evidence c) (c_now c) None
           (bound_press c (presented c h)) = Inr ev"
    and "sanctioned p h (c_action c) (caller c) (c_cost c) (c_now c) ev (presented c h) voter approved_at"
    and "\<And>x. presented c h = Some x \<Longrightarrow> c_later c < expires_at x"
    and "boundary_check p h ev (c_now c) approved_at voter = Inr ev1" and "d_kind (ev_decision ev1) = Kexecute"
    and "alike h h1" and "house_ok p h1" and "\<not> granted h1 i"
    and "grant p ev1 (c_action c) (caller c) (c_cost c) (presented c h) (c_now c) h1 = Inr (ev2, h')"
    and "r = Decided (ev_decision ev2)" and "d_kind (ev_decision ev2) = Kexecute" and "d_event (ev_decision ev2) = EXECUTE"
    and "(i, audit_id (ev_decision ev2)) \<in> set (grants h')" and "audit_id (ev_decision ev2) \<noteq> None"
  using assms(4)
proof (cases rule: mutate_lockedE)
  case (repeated matched g0 st0 h1 x)
  with proposal_step_alike [OF repeated(1)] assms(5,6) show thesis by simp
next
  case (assessed matched g0 st0 h1 ev)
  from proposal_step_alike [OF assessed(1)] have al: "alike h h1" and gr: "\<And>i. granted h1 i \<longleftrightarrow> granted h i"
    and st: "matched \<Longrightarrow> st0 \<in> {c_action c, reload (c_action c)}" by auto
  from proposal_step_safe [OF assms(2) assessed(1)] have ok1: "house_ok p h1" by (auto simp: safe_def)
  have same: "grants h' \<noteq> grants h1" using assms(5,6) gr [of i] by (auto simp: granted_grants)
  have fin: "finish p e t g = Inr (r, h') \<Longrightarrow> grants h' = grants g" for e t g
    using finish_frame [of p e t g r h'] by (auto intro: grants_cong)
  show thesis
  proof (cases "matched \<and> g0 = None \<and> c_redeem c")
    case False
    have askg: "ask p (c_fresh c) e (c_action c) (caller c) (c_cost c) (c_now c) h1 = Inr (e', g) \<Longrightarrow> grants g = grants h1" for e e' g
      using ask_safe [OF assms(1) ok1] grants_cong by blast
    from False have "grants h' = grants h1"
      using assessed(3)
      by (auto simp: mutate_assessed_def Let_def rbind_Inr_iff split: if_split_asm option.split_asm dest!: fin askg)
    with same show thesis by simp
  next
    case True
    with assessed(3) obtain ev2 h2 where
      au: "authorize p (c_fresh c) ev (c_action c) (caller c) (c_cost c) (c_now c) (c_later c) (c_approval_id c)
             (presented c h1) (c_enqueue c) h1 = Inr (ev2, h2)" and f: "finish p ev2 (c_now c) h2 = Inr (r, h')"
      by (auto simp: mutate_assessed_def Let_def rbind_Inr_iff)
    show thesis
    proof (rule authorizeE [OF assms(1) ok1 presented_Some au])
      assume "marks h2 = marks h1"
      with fin [OF f] marks_grants [of h2 h1] same show thesis by simp
    next
      fix approved_at voter ev1
      assume g: "\<not> c_enqueue c" "sanctioned p h1 (c_action c) (caller c) (c_cost c) (c_now c) ev (presented c h1) voter approved_at"
        "\<And>x. presented c h1 = Some x \<Longrightarrow> c_later c < expires_at x"
        "boundary_check p h1 ev (c_now c) approved_at voter = Inr ev1" "d_kind (ev_decision ev1) = Kexecute"
        "grant p ev1 (c_action c) (caller c) (c_cost c) (presented c h1) (c_now c) h1 = Inr (ev2, h2)"
      from grant_rows [OF g(6) assms(3)] obtain n where
        rows: "grants h2 = map (\<lambda>(j, m). if j = action_id (c_action c) then (j, Some n) else (j, m)) (grants h1)"
        and n: "audit_id (ev_decision ev2) = Some n" and k: "d_kind (ev_decision ev2) = d_kind (ev_decision ev1)"
        and e: "d_event (ev_decision ev2) = d_event (ev_decision ev1)" by blast
      from f n have r: "r = Decided (ev_decision ev2)" and h2: "h2 = h'" by (simp_all add: finish_def)
      from assms(6) obtain m where m: "(i, Some m) \<in> set (grants h')" by (auto simp: granted_grants)
      have nb: "(i, Some k) \<notin> set (grants h1)" for k using assms(5) gr [of i] by (simp add: granted_grants)
      from m have "i = action_id (c_action c) \<and> m = n"
        unfolding h2 [symmetric] rows using nb by (auto split: if_split_asm)
      with m have i: "i = action_id (c_action c)" and mem: "(i, Some n) \<in> set (grants h')" by simp_all
      have ex: "d_event (ev_decision ev1) = EXECUTE"
        using boundary_check_frame [OF g(4)] g(5) by (auto simp: coherent_def kind_of_event_def)
      note al_eqs = alike_desk [OF al] alike_presented [OF al] alike_boundary [OF al]
      have sa: "sanctioned p h (c_action c) (caller c) (c_cost c) (c_now c) ev (presented c h) voter approved_at"
        using g(2) unfolding sanctioned_def approves_def al_eqs alike_votes [OF al] .
      show thesis
        by (rule that [OF i _ g(1) _ _ sa _ _ g(5) al ok1 _ _ r _ _ _]) 
           (use True st assessed(2) g(3,4,6) k e ex n mem gr [of i] assms(5) g(5) h2 in \<open>simp_all add: al_eqs\<close>)
    qed
  qed
qed

text \<open>
  C1: nothing is granted without authority. When a request (other than one committed by another
  component) turns an action that had no grant into a granted one, it is a redemption of that very
  action; the full assessment against the current state is open; the boundary allowed the action; and
  either the assessment executes by itself, or the presented approval belongs to the action, is open
  and unexpired before and after the boundary call, is compatible with the current binding, and the
  votes of eligible members satisfy it. The recorded decision is an EXECUTE and is the row's grant.
\<close>

theorem grant_has_authority:
  assumes "sane p" and "house_ok p h" and "\<not> committed_class (action_class (c_action c))"
    and "mutate p c h = Inr (r, h')" and "\<not> granted h i" and "granted h' i"
  shows "i = action_id (c_action c) \<and> c_redeem c \<and> \<not> c_enqueue c \<and>
    (\<exists>a ev ev1 approved_at voter d. a \<in> {c_action c, reload (c_action c)} \<and>
       assess_operation (H p) (secs p) (desk_of p h) a (caller c) (c_cost c) (c_evidence c) (c_now c) None
         (bound_press c (presented c h)) = Inr ev \<and>
       (case presented c h of
          None \<Rightarrow> d_kind (ev_decision ev) = Kexecute \<and> approved_at = None \<and> voter = None
        | Some x \<Rightarrow> d_kind (ev_decision ev) \<in> {Kexecute, Kask} \<and> c_later c < expires_at x \<and>
            approves p h (c_action c) (caller c) (c_cost c) (c_now c) ev x voter approved_at) \<and>
       boundary_check p h ev (c_now c) approved_at voter = Inr ev1 \<and> d_kind (ev_decision ev1) = Kexecute \<and>
       r = Decided d \<and> d_kind d = Kexecute \<and> d_event d = EXECUTE \<and> (i, audit_id d) \<in> set (grants h') \<and> audit_id d \<noteq> None)"
proof (rule authority_of_grant [OF assms(1-3) mutate_Inr [OF assms(4)] assms(5,6)])
  fix a ev ev1 ev2 approved_at voter h1
  assume *: "i = action_id (c_action c)" "c_redeem c" "\<not> c_enqueue c" "a \<in> {c_action c, reload (c_action c)}"
    "assess_operation (H p) (secs p) (desk_of p h) a (caller c) (c_cost c) (c_evidence c) (c_now c) None
         (bound_press c (presented c h)) = Inr ev"
    and sa: "sanctioned p h (c_action c) (caller c) (c_cost c) (c_now c) ev (presented c h) voter approved_at"
    and late: "\<And>x. presented c h = Some x \<Longrightarrow> c_later c < expires_at x"
    and **: "boundary_check p h ev (c_now c) approved_at voter = Inr ev1" "d_kind (ev_decision ev1) = Kexecute"
    "r = Decided (ev_decision ev2)" "d_kind (ev_decision ev2) = Kexecute" "d_event (ev_decision ev2) = EXECUTE"
    "(i, audit_id (ev_decision ev2)) \<in> set (grants h')" "audit_id (ev_decision ev2) \<noteq> None"
  have case_of: "case presented c h of
          None \<Rightarrow> d_kind (ev_decision ev) = Kexecute \<and> approved_at = None \<and> voter = None
        | Some x \<Rightarrow> d_kind (ev_decision ev) \<in> {Kexecute, Kask} \<and> c_later c < expires_at x \<and>
            approves p h (c_action c) (caller c) (c_cost c) (c_now c) ev x voter approved_at"
    using sa late by (simp add: sanctioned_def split: option.split_asm)
  show ?thesis using * ** case_of by (intro conjI exI) (assumption+)
qed

section \<open>Votes\<close>

lemma tally_Some:
  assumes "tally h a out vs acc = Inr (Some acc')"
  shows "\<exists>vs'. acc' = acc @ vs' \<and> (\<forall>v \<in> set vs'. v \<in> set vs \<and> v_approved v \<and> vote_counts h a out v = Inr True) \<and>
    (\<forall>v \<in> set vs. vote_counts h a out v = Inr True \<longrightarrow> v \<in> set vs')"
  using assms
proof (induction vs arbitrary: acc)
  case Nil
  then show ?case by simp
next
  case (Cons v vs)
  then obtain c where c: "vote_counts h a out v = Inr c"
    and r: "(if \<not> c then tally h a out vs acc else if \<not> v_approved v then Inr None else tally h a out vs (acc @ [v])) = Inr (Some acc')"
    by (auto elim!: rbind_InrE)
  show ?case
  proof (cases c)
    case True
    with r have "v_approved v" "tally h a out vs (acc @ [v]) = Inr (Some acc')" by (auto split: if_split_asm)
    with Cons.IH [OF this(2)] c True show ?thesis by auto
  next
    case False
    with r Cons.IH [of acc] c show ?thesis by auto
  qed
qed

lemma vote_counts_True:
  assumes "vote_counts h a out v = Inr True"
  shows "\<exists>m. resolve_member h (v_principal v) = Inr m \<and> member_id m = Some (v_member_id v) \<and>
    v_member_id v \<in> set (eligible_members h out) \<and> channel_allowed (v_principal v) a out \<and>
    credential_current h (v_principal v) = Inr True"
  using assms by (auto simp: vote_counts_def rbind_Inr_iff split: if_split_asm)

lemma eligible_members_iff:
  "m \<in> set (eligible_members h out) \<longleftrightarrow> (\<exists>r \<in> set (approver_roles (approval out)). (m, r) \<in> set (roster h))"
  by (force simp: eligible_members_def)

lemma satisfied_consent:
  assumes "eligible_votes h i ev = Inr (True, voter, approved_at)"
  shows "\<exists>out counted. outcomes ev \<noteq> [] \<and> out = hd (outcomes ev) \<and> counted \<noteq> {} \<and> voter \<in> Some ` v_principal ` counted \<and>
    counted = {v \<in> set (votes h). v_approval_id v = i \<and> vote_counts h (ev_action ev) out v = Inr True} \<and>
    (\<forall>v \<in> counted. v_approved v \<and> (\<exists>r \<in> set (approver_roles (approval out)). (v_member_id v, r) \<in> set (roster h)) \<and>
       (\<exists>m. resolve_member h (v_principal v) = Inr m \<and> member_id m = Some (v_member_id v)) \<and>
       credential_current h (v_principal v) = Inr True \<and>
       (security_class (action_class (ev_action ev)) \<longrightarrow> p_surface (v_principal v) = App \<and> passkey_verified (v_principal v) \<and>
          verified_action_hash (v_principal v) = Some (content_hash (ev_action ev)))) \<and>
    (ap_quorum (approval out) = All_adults \<longrightarrow> set (eligible_members h out) \<subseteq> v_member_id ` counted)"
proof -
  let ?vs = "filter (\<lambda>v. v_approval_id v = i) (votes h)"
  from assms [unfolded eligible_votes_def] obtain out t0 where fo: "first_outcome ev = Inr out"
    and t0: "tally h (ev_action ev) out ?vs [] = Inr t0"
    and c: "(case t0 of None \<Rightarrow> Inr (False, None, None)
       | Some acc \<Rightarrow>
           (let ok = quorum_met out (eligible_members h out) (map v_member_id acc) in
            Inr (ok, map_option v_principal (if acc = [] then None else Some (hd acc)),
                 if ok then Some (Max (set (map v_created_at acc))) else None))) = (Inr (True, voter, approved_at) :: _ result)"
    by (elim rbind_InrE)
  have o: "outcomes ev \<noteq> []" "out = hd (outcomes ev)" using fo by (auto simp: first_outcome_def split: list.split_asm)
  from c obtain acc where acc: "t0 = Some acc" by (cases t0) auto
  note t = t0 [unfolded acc]
  note e = c [unfolded acc option.case Let_def sum.inject prod.inject]
  have q: "quorum_met out (eligible_members h out) (map v_member_id acc)" by (rule eqTrueE [OF conjunct1 [OF e]])
  have v: "voter = map_option v_principal (if acc = [] then None else Some (hd acc))"
    by (rule sym [OF conjunct1 [OF conjunct2 [OF e]]])
  have ta: "(\<forall>v \<in> set acc. v \<in> set ?vs \<and> v_approved v \<and> vote_counts h (ev_action ev) out v = Inr True) \<and>
    (\<forall>v \<in> set ?vs. vote_counts h (ev_action ev) out v = Inr True \<longrightarrow> v \<in> set acc)"
    using tally_Some [OF t] by (elim exE conjE) (unfold append_Nil, hypsubst, intro conjI, assumption+)
  have good: "v \<in> set ?vs \<and> v_approved v \<and> vote_counts h (ev_action ev) out v = Inr True" if "v \<in> set acc" for v
    using conjunct1 [OF ta] that by blast
  have all: "v \<in> set acc" if "v \<in> set ?vs" "vote_counts h (ev_action ev) out v = Inr True" for v
    using conjunct2 [OF ta] that by blast
  have ne: "acc \<noteq> []" using q by (auto simp: quorum_met_def split: if_split_asm)
  have set_acc: "set acc = {v \<in> set (votes h). v_approval_id v = i \<and> vote_counts h (ev_action ev) out v = Inr True}"
  proof (intro equalityI subsetI CollectI)
    fix v assume "v \<in> set acc"
    from good [OF this] show "v \<in> set (votes h) \<and> v_approval_id v = i \<and> vote_counts h (ev_action ev) out v = Inr True" by simp
  next
    fix v assume "v \<in> {v \<in> set (votes h). v_approval_id v = i \<and> vote_counts h (ev_action ev) out v = Inr True}"
    then show "v \<in> set acc" by (intro all) simp_all
  qed
  have each: "v_approved w \<and> (\<exists>r \<in> set (approver_roles (approval out)). (v_member_id w, r) \<in> set (roster h)) \<and>
       (\<exists>m. resolve_member h (v_principal w) = Inr m \<and> member_id m = Some (v_member_id w)) \<and>
       credential_current h (v_principal w) = Inr True \<and>
       (security_class (action_class (ev_action ev)) \<longrightarrow> p_surface (v_principal w) = App \<and> passkey_verified (v_principal w) \<and>
          verified_action_hash (v_principal w) = Some (content_hash (ev_action ev)))" if "w \<in> set acc" for w
    using good [OF that] vote_counts_True [of h "ev_action ev" out w] by (auto simp: eligible_members_iff channel_allowed_def)
  have "voter \<in> Some ` v_principal ` set acc" using v ne by (cases acc) auto
  moreover have "ap_quorum (approval out) = All_adults \<longrightarrow> set (eligible_members h out) \<subseteq> v_member_id ` set acc"
    using q by (auto simp: quorum_met_def)
  moreover have "\<forall>w \<in> set acc. v_approved w \<and> (\<exists>r \<in> set (approver_roles (approval out)). (v_member_id w, r) \<in> set (roster h)) \<and>
       (\<exists>m. resolve_member h (v_principal w) = Inr m \<and> member_id m = Some (v_member_id w)) \<and>
       credential_current h (v_principal w) = Inr True \<and>
       (security_class (action_class (ev_action ev)) \<longrightarrow> p_surface (v_principal w) = App \<and> passkey_verified (v_principal w) \<and>
          verified_action_hash (v_principal w) = Some (content_hash (ev_action ev)))" using each by blast
  moreover have "set acc \<noteq> {}" using ne by simp
  ultimately show ?thesis using o set_acc by (intro exI [of _ out] exI [of _ "set acc"]) (intro conjI; assumption)
qed

text \<open>Satisfied votes are real consent. When the votes on an approval satisfy the rule, there is a
  counted vote; every counted vote is a stored approval of this very approval, cast by a present
  member whose role may approve, through an account that still resolves to that member and a
  credential that is not revoked; no such member's counted vote rejects; under \<open>all_adults\<close> every
  eligible member's vote is counted; and for a security class each counted vote came from the app
  with a passkey over exactly the hash of the action.
\<close>

theorem satisfied_votes_consent:
  assumes "eligible_votes h i ev = Inr (True, voter, approved_at)"
  shows "\<exists>out counted. outcomes ev \<noteq> [] \<and> out = hd (outcomes ev) \<and> counted \<noteq> {} \<and> voter \<in> Some ` v_principal ` counted \<and>
    counted = {v \<in> set (votes h). v_approval_id v = i \<and> vote_counts h (ev_action ev) out v = Inr True} \<and>
    (\<forall>v \<in> counted. v_approved v \<and> (\<exists>r \<in> set (approver_roles (approval out)). (v_member_id v, r) \<in> set (roster h)) \<and>
       (\<exists>m. resolve_member h (v_principal v) = Inr m \<and> member_id m = Some (v_member_id v)) \<and>
       credential_current h (v_principal v) = Inr True \<and>
       (security_class (action_class (ev_action ev)) \<longrightarrow> p_surface (v_principal v) = App \<and> passkey_verified (v_principal v) \<and>
          verified_action_hash (v_principal v) = Some (content_hash (ev_action ev)))) \<and>
    (ap_quorum (approval out) = All_adults \<longrightarrow> set (eligible_members h out) \<subseteq> v_member_id ` counted)"
  using assms by (rule satisfied_consent)

lemma cast_vote_rows:
  assumes "cast_vote p x ev a m pr approved now h = Inr (final, h')"
  shows "votes h' = votes h \<or> (\<exists>v. member_id m = Some (v_member_id v) \<and> v_approval_id v = approval_id x \<and> v_approved v = approved \<and>
    v_principal v = pr \<and> v_created_at v = now \<and> (v_approval_id v, v_member_id v) \<notin> (\<lambda>w. (v_approval_id w, v_member_id w)) ` set (votes h) \<and>
    votes h' = votes h @ [v])"
proof -
  from assms obtain i where m: "member_id m = Some i" and
    c: "(case List.find (\<lambda>v. v_approval_id v = approval_id x \<and> v_member_id v = i) (votes h) of
       Some v \<Rightarrow> Inr (v_approved v, h)
     | None \<Rightarrow>
         (let h1 = h\<lparr>votes := votes h @ [\<lparr>v_approval_id = approval_id x, v_member_id = i, v_approved = approved,
                     v_principal = pr, v_created_at = now\<rparr>]\<rparr> in
          rbind (write_event p now (if approved then APPROVED else REJECTED) (\<lambda>_. vote_payload x i a approved pr) h1) (\<lambda>(_, h2).
          rbind (eligible_votes h2 (approval_id x) ev) (\<lambda>(ok, _).
            Inr (approved, set_status (approval_id x) (if \<not> approved then Rejected else if ok then Approved else Pending) h2))))) = Inr (final, h')"
    unfolding cast_vote_def by (elim rbind_InrE) (simp only: of_opt_Inr_iff)
  show ?thesis
  proof (cases "List.find (\<lambda>v. v_approval_id v = approval_id x \<and> v_member_id v = i) (votes h)")
    case (Some v)
    with c show ?thesis by simp
  next
    case None
    let ?v = "\<lparr>v_approval_id = approval_id x, v_member_id = i, v_approved = approved, v_principal = pr, v_created_at = now\<rparr>"
    from c None have "votes h' = votes h @ [?v]"
      by (auto simp: Let_def rbind_Inr_iff dest!: write_event_frame)
    moreover have "(approval_id x, i) \<notin> (\<lambda>w. (v_approval_id w, v_member_id w)) ` set (votes h)"
      using None by (auto simp: find_None_iff)
    ultimately show ?thesis using m by (intro disjI2 exI [of _ ?v]) simp
  qed
qed

lemma vote_event_rows:
  assumes "vote_event p x ev out a m pr approved now h = Inr (e, h')" and "b_doorbell (ap_binding x) = None \<or> coherent (ev_decision ev)"
  shows "e \<noteq> EXECUTE \<and> (votes h' = votes h \<or>
    (open_status (ap_status x) \<and> now < expires_at x \<and> rq_role m \<in> set (approver_roles (approval out)) \<and>
     channel_allowed pr (ev_action ev) out \<and> credential_current h pr = Inr True \<and>
     (\<exists>v. member_id m = Some (v_member_id v) \<and> v_approval_id v = approval_id x \<and> v_approved v = approved \<and>
        v_principal v = pr \<and> v_created_at v = now \<and> (v_approval_id v, v_member_id v) \<notin> (\<lambda>w. (v_approval_id w, v_member_id w)) ` set (votes h) \<and>
        votes h' = votes h @ [v])))"
proof (cases "ap_status x = Redeemed \<or> (now \<ge> expires_at x \<or> ap_status x = Expired) \<or>
    (b_doorbell (ap_binding x) \<noteq> None \<and> d_kind (ev_decision ev) = Kdeny) \<or>
    (ap_status x = Rejected \<or> rq_role m \<notin> set (approver_roles (approval out)) \<or> \<not> channel_allowed pr (ev_action ev) out)")
  case True
  then have "votes h' = votes h \<and> (e \<noteq> EXECUTE \<or> (b_doorbell (ap_binding x) \<noteq> None \<and> d_kind (ev_decision ev) = Kdeny \<and> e = d_event (ev_decision ev)))"
    using assms(1) unfolding vote_event_def by (auto split: if_split_asm)
  with assms(2) show ?thesis by (auto simp: coherent_def kind_of_event_def)
next
  case False
  then have o: "open_status (ap_status x)" by (cases "ap_status x") (auto simp: open_status_def)
  from False have n: "\<not> ap_status x = Redeemed" "\<not> (now \<ge> expires_at x \<or> ap_status x = Expired)"
    "\<not> (b_doorbell (ap_binding x) \<noteq> None \<and> d_kind (ev_decision ev) = Kdeny)"
    "\<not> (ap_status x = Rejected \<or> rq_role m \<notin> set (approver_roles (approval out)) \<or> \<not> channel_allowed pr (ev_action ev) out)"
    by blast+
  from assms(1) have "rbind (credential_current h pr) (\<lambda>current.
        if \<not> current then Inr (DENY_APPROVAL_UNAUTHORIZED, h)
        else rbind (cast_vote p x ev a m pr approved now h) (\<lambda>(final, h1). Inr (if final then APPROVED else REJECTED, h1))) = Inr (e, h')"
    unfolding vote_event_def if_not_P [OF n(1)] if_not_P [OF n(2)] if_not_P [OF n(3)] if_not_P [OF n(4)] .
  then obtain current where cu: "credential_current h pr = Inr current"
    and r: "(if \<not> current then Inr (DENY_APPROVAL_UNAUTHORIZED, h)
        else rbind (cast_vote p x ev a m pr approved now h) (\<lambda>(final, h1). Inr (if final then APPROVED else REJECTED, h1))) = Inr (e, h')"
    by (rule rbind_InrE)
  show ?thesis
  proof (cases current)
    case True
    with r obtain final where cv: "cast_vote p x ev a m pr approved now h = Inr (final, h')" and e: "e = (if final then APPROVED else REJECTED)"
      by (auto elim!: rbind_InrE)
    have "now < expires_at x" using False by simp
    with cast_vote_rows [OF cv] e o False cu True show ?thesis by (simp split: if_split)
  next
    case False
    with r show ?thesis by auto
  qed
qed

text \<open>A vote is only a vote. Whatever is voted, the answer never executes and no action row changes;
  at most one vote is stored, the first of its member on that approval, as cast, on an open and
  unexpired approval, by an account that resolves to the member with a current credential.
\<close>

theorem vote_grants_nothing:
  assumes "sane p" and "house_ok p h" and "vote p i pr approved now h = Inr (d, h')"
  shows "d_kind d \<noteq> Kexecute \<and> actions h' = actions h \<and>
    (votes h' = votes h \<or>
     (\<exists>x m v. find_approval h i = Some x \<and> open_status (ap_status x) \<and> now < expires_at x \<and>
        resolve_member h pr = Inr m \<and> member_id m = Some (v_member_id v) \<and> credential_current h pr = Inr True \<and>
        v_approval_id v = i \<and> v_approved v = approved \<and> v_principal v = pr \<and>
        (v_approval_id v, v_member_id v) \<notin> (\<lambda>w. (v_approval_id w, v_member_id w)) ` set (votes h) \<and> votes h' = votes h @ [v]))"
proof -
  from assms(3) have v: "vote_locked p i pr approved now h = Inr (d, h')" by (simp add: vote_def)
  then have a: "actions h' = actions h" using vote_safe [OF assms(1,2)] by blast
  from v show ?thesis
  proof (cases rule: vote_lockedE)
    case unknown
    with a record_decision_frame [OF unknown(2)] show ?thesis by (auto simp: unknown_decision_def)
  next
    case (known x y a0 ev out m e h1 d0)
    have "b_doorbell (ap_binding x) = None \<or> coherent (ev_decision ev)" using known(8) by blast
    note rows = vote_event_rows [OF known(5) this]
    note rd = record_decision_frame [OF known(9)]
    have k: "d_kind d \<noteq> Kexecute" using rd(3) known(7) conjunct1 [OF rows] by simp
    have vs: "votes h' = votes h1" using rd(1) by (elim exE) simp
    have i: "approval_id x = i" using find_approval_Some [OF known(1)] by simp
    from conjunct2 [OF rows] show ?thesis unfolding vs [symmetric] i
    proof (elim disjE conjE exE)
      assume "votes h' = votes h"
      with k a show ?thesis by simp
    next
      fix v assume "open_status (ap_status x)" "now < expires_at x" "credential_current h pr = Inr True"
        "member_id m = Some (v_member_id v)" "v_approval_id v = i" "v_approved v = approved" "v_principal v = pr"
        "(v_approval_id v, v_member_id v) \<notin> (\<lambda>w. (v_approval_id w, v_member_id w)) ` set (votes h)" "votes h' = votes h @ [v]"
      with k a known(1,4) show ?thesis
        by (intro conjI disjI2 exI [of _ x] exI [of _ m] exI [of _ v])
    qed
  qed
qed

section \<open>On the sample household\<close>

theorem grant_has_authority_witness:
  "\<exists>r h' a ev d. mutate lamp_plant lamp_call lamp_house = Inr (r, h') \<and> a \<in> {lamp_request, reload lamp_request} \<and>
     assess_operation demo_H sample_secs (desk_of lamp_plant lamp_house) a (caller lamp_call) (Some (Dec 1 0)) [] 1791930900000000 None None = Inr ev \<and>
     d_kind (ev_decision ev) = Kexecute \<and> r = Decided d \<and> (''a3'', audit_id d) \<in> set (grants h') \<and> audit_id d \<noteq> None"
proof (rule lamp_runE)
  fix d b h1 sq h2
  assume m: "mutate lamp_plant lamp_call lamp_house = Inr (Decided d, h1)" and g: "granted h1 ''a3''"
  have n: "\<not> granted lamp_house ''a3''" by (simp add: granted_def lamp_house_new)
  have c: "\<not> committed_class (action_class (c_action lamp_call))" unfolding lamp_call_simps by (rule lamp_class(1))
  have p: "presented lamp_call lamp_house = None" by (simp add: presented_def lamp_call_def)
  have e: "H lamp_plant = demo_H" "secs lamp_plant = sample_secs" "c_cost lamp_call = Some (Dec 1 0)" "c_evidence lamp_call = []"
    "c_now lamp_call = 1791930900000000" "bound_press lamp_call None = None"
    by (simp_all add: lamp_plant_def demo_plant_def lamp_call_def bound_press_def)
  from grant_has_authority [OF lamp_plant_sane lamp_house_ok c m n g]
  have "\<exists>a ev. a \<in> {lamp_request, reload lamp_request} \<and>
     assess_operation demo_H sample_secs (desk_of lamp_plant lamp_house) a (caller lamp_call) (Some (Dec 1 0)) [] 1791930900000000 None None = Inr ev \<and>
     d_kind (ev_decision ev) = Kexecute \<and> (''a3'', audit_id d) \<in> set (grants h1) \<and> audit_id d \<noteq> None"
    unfolding p e option.case lamp_call_simps by blast
  with m show ?thesis by blast
qed

definition idle_plant :: plant where
  "idle_plant = lamp_plant\<lparr>base_desk := (base_desk lamp_plant)\<lparr>active_version := None\<rparr>\<rparr>"

definition granted_house :: house where
  "granted_house = lamp_house\<lparr>actions := [(new_action_row lamp_request app_user (Some (Dec 1 0)))\<lparr>grant_seq := Some 1\<rparr>]\<rparr>"

theorem granted_once_witness:
  "\<exists>r h'. mutate idle_plant lamp_call granted_house = Inr (r, h') \<and> actions h' = actions granted_house \<and>
     (\<exists>d. r = Decided d \<and> d_kind d = Kdeny \<and> d_event d \<in> {DENY_APPROVAL_USED, DENY_APPROVAL_MISMATCH})"
proof -
  have "case mutate idle_plant lamp_call granted_house of Inr _ \<Rightarrow> True | Inl _ \<Rightarrow> False" by code_simp
  then obtain r h' where m: "mutate idle_plant lamp_call granted_house = Inr (r, h')"
    by (cases "mutate idle_plant lamp_call granted_house") auto
  have f: "find_action granted_house (action_id (c_action lamp_call)) = Some (hd (actions granted_house))" by code_simp
  have g: "grant_seq (hd (actions granted_house)) = Some 1" by (simp add: granted_house_def)
  have c: "\<not> c_enqueue lamp_call" "\<not> (action_class (c_action lamp_call) = ''governance.memory'' \<or> constraint_class (action_class (c_action lamp_call)))"
    by code_simp+
  from granted_once [OF f g m] c m show ?thesis by blast
qed

definition answered_house :: house where
  "answered_house = paused_house\<lparr>votes := [\<lparr>v_approval_id = ''apr_0'', v_member_id = ''m1'', v_approved = True,
     v_principal = app_user, v_created_at = 1791930900000000\<rparr>]\<rparr>"

definition lamp_outcome :: rule_outcome where
  "lamp_outcome = \<lparr>constitution_version = 7, selected_rule = ''environment.lights'', effective_mode = Ask, conditions_met = True,
     approval = \<lparr>ttl_minutes = 30, ap_quorum = Any_adult, channels = [Ch_alexa, Ch_app_push], approver_roles = [Owner, Adult]\<rparr>,
     o_bounds = None, o_budget = None, o_max_open_minutes = None, o_max_minutes = None, diagnostics = []\<rparr>"

theorem satisfied_votes_consent_witness:
  "\<exists>counted voter t. eligible_votes answered_house ''apr_0'' (vote_evaluation budget_home lamp_request lamp_outcome) = Inr (True, voter, t) \<and>
     counted \<noteq> {} \<and> counted \<subseteq> set (votes answered_house)"
proof -
  let ?e = "eligible_votes answered_house ''apr_0'' (vote_evaluation budget_home lamp_request lamp_outcome)"
  have "case ?e of Inr (True, _) \<Rightarrow> True | _ \<Rightarrow> False" by code_simp
  then obtain voter t where e: "?e = Inr (True, voter, t)" by (cases ?e) (auto split: bool.split_asm)
  from satisfied_votes_consent [OF e] e show ?thesis by blast
qed

theorem vote_grants_nothing_witness:
  "\<exists>d h' v. vote demo_plant ''apr_0'' app_user True 1791930900000000 paused_house = Inr (d, h') \<and> d_kind d \<noteq> Kexecute \<and>
     votes h' = [v] \<and> v_approved v \<and> v_principal v = app_user"
proof (rule paused_runE)
  fix d h0 r h1
  assume v: "vote demo_plant ''apr_0'' app_user True 1791930900000000 paused_house = Inr (d, h0)" and n: "votes h0 \<noteq> []"
  have e: "votes paused_house = []" by (simp add: paused_house_def lamp_house_new)
  from vote_grants_nothing [OF demo_plant_sane paused_house_ok v] n v show ?thesis unfolding e by auto
qed

end
