(* ===== verification/Ledger.thy ===== *)
theory Ledger
  imports Authority
begin

text \<open>
  The whole history of a household. Every reachable state keeps the invariant of the tables; what was
  written stays; an execution is claimed at most once and only on a verified grant; and the tables
  refine an abstract ledger, in which an action is first granted and then claimed, each at most once.
\<close>

section \<open>Reachable states\<close>

definition new_house :: "house \<Rightarrow> bool" where
  "new_house h \<longleftrightarrow> actions h = [] \<and> approvals h = [] \<and> votes h = [] \<and> log (audit h) = [] \<and> pointer (audit h) = None"

lemma new_house_ok: "new_house h \<Longrightarrow> house_ok p h"
  by (simp add: new_house_def house_ok_def audit_ok_def one_open_def)

text \<open>
  C4: every history of transactions and of writes of the other components leaves a verified log and consistent tables: the log is a signed chain of
  canonical rows with the pointer at its head, and passes the full verification exactly when the database gives
  every payload back as it was written (none holds a float of 10^16 or more); action identifiers, approval identifiers and the voters of an approval are
  unique, an action has at most one open approval, every grant and attempt is the number of a stored
  event, an attempt has a grant, and a redeemed approval belongs to a granted action.
\<close>

theorem reachable_tables_consistent:
  assumes "sane p" and "new_house h0" and "(step p)\<^sup>*\<^sup>* h0 h"
  shows "audit_ok (H p) (ver p) (household_id p) (fp p) (audit h) \<and>
    (accepts (H p) (ver p) (household_id p) (fp p) (audit h) \<longleftrightarrow> plain_log (audit h)) \<and>
    distinct (map (action_id \<circ> proposal) (actions h)) \<and> distinct (map approval_id (approvals h)) \<and>
    distinct (map (\<lambda>v. (v_approval_id v, v_member_id v)) (votes h)) \<and> one_open (approvals h) \<and>
    (\<forall>x \<in> set (actions h). (grant_seq x \<noteq> None \<longrightarrow> grant_seq x \<in> Some ` r_seq ` set (log (audit h))) \<and>
       (attempt_seq x \<noteq> None \<longrightarrow> attempt_seq x \<in> Some ` r_seq ` set (log (audit h)) \<and> grant_seq x \<noteq> None)) \<and>
    (\<forall>x \<in> set (approvals h). ap_status x = Redeemed \<longrightarrow> granted h (ap_action_id x))"
proof -
  have ok: "house_ok p h" using household.runs_inv [OF assms(3)] new_house_ok [OF assms(2)] assms(1) by blast
  then have au: "audit_ok (H p) (ver p) (household_id p) (fp p) (audit h)" by (simp add: house_ok_def)
  then have "map r_seq (log (audit h)) = map (\<lambda>i. 1 + int i) [0 ..< length (log (audit h))]"
    using chain_seqs by (auto simp: audit_ok_def)
  then have seqs: "r_seq ` set (log (audit h)) = (\<lambda>i. 1 + int i) ` {0 ..< length (log (audit h))}"
    by (metis list.set_map set_upt)
  have num: "Some n \<in> Some ` r_seq ` set (log (audit h))" if "1 \<le> n" "n \<le> int (length (log (audit h)))" for n
    unfolding seqs using that by (intro imageI image_eqI [of _ _ "nat (n - 1)"]) auto
  have "\<forall>x \<in> set (actions h). (grant_seq x \<noteq> None \<longrightarrow> grant_seq x \<in> Some ` r_seq ` set (log (audit h))) \<and>
       (attempt_seq x \<noteq> None \<longrightarrow> attempt_seq x \<in> Some ` r_seq ` set (log (audit h)) \<and> grant_seq x \<noteq> None)"
  proof
    fix x assume "x \<in> set (actions h)"
    from rows_ok [OF ok this] num show "(grant_seq x \<noteq> None \<longrightarrow> grant_seq x \<in> Some ` r_seq ` set (log (audit h))) \<and>
       (attempt_seq x \<noteq> None \<longrightarrow> attempt_seq x \<in> Some ` r_seq ` set (log (audit h)) \<and> grant_seq x \<noteq> None)"
      by (cases "grant_seq x"; cases "attempt_seq x") (simp_all add: row_ok_def)
  qed
  with ok au show ?thesis unfolding verify_database_iff by (simp add: house_ok_def approval_ok_def)
qed

lemma grows_take: "grows (=) xs ys \<Longrightarrow> take (length xs) ys = xs"
  by (auto simp: grows_def intro!: nth_equalityI)

text \<open>
  C7: history is permanent. Along every run from a consistent state, over the transactions of the pipeline and
  the writes of the other components, each row keeps its command (everything of its proposal but the requester, in
  whose name a plan schedules it) and its cost and never loses or changes a grant or an attempt; each approval keeps its
  binding and deadline, and one that was redeemed or expired stays so; the votes and the log only grow
  at the end.
\<close>

theorem history_permanent:
  assumes "sane p" and "house_ok p h" and "(step p)\<^sup>*\<^sup>* h h'"
  shows "(\<forall>i < length (actions h). i < length (actions h') \<and> keeps_row (actions h ! i) (actions h' ! i)) \<and>
    (\<forall>i < length (approvals h). i < length (approvals h') \<and> keeps_approval (approvals h ! i) (approvals h' ! i)) \<and>
    take (length (votes h)) (votes h') = votes h \<and> take (length (log (audit h))) (log (audit h')) = log (audit h)"
proof -
  have "extends h h'" using household.runs_ext [OF assms(3)] assms(1,2) by blast
  then have "grows keeps_row (actions h) (actions h')" "grows keeps_approval (approvals h) (approvals h')"
    and "grows (=) (votes h) (votes h')" "grows (=) (log (audit h)) (log (audit h'))" by (simp_all add: extends_def)
  then show ?thesis by (intro conjI grows_take) (simp_all add: grows_def)
qed

section \<open>Claims\<close>

text \<open>An authorized ending is a new row that carries the grant of its own event.\<close>

lemma authorize_ending_rows:
  assumes "authorize_ending p a d now h = Inr h'"
  shows "actions h' = actions h \<or>
    (\<exists>z n. actions h' = actions h @ [z] \<and> action_id (proposal z) \<notin> (action_id \<circ> proposal) ` set (actions h) \<and>
       grant_seq z = Some n \<and> attempt_seq z = None)"
proof (cases "a_revert a")
  case None
  with assms show ?thesis by (simp add: authorize_ending_def)
next
  case (Some r)
  with assms obtain fin n h1 z where
    w: "write_event p now ENDING_AUTHORIZED (\<lambda>_. PDict [(''opening'', PStr (action_id a)), (''opening_hash'', PStr (content_hash a)),
                 (''grant_seq'', opt_pv PInt (audit_id d)), (''ending'', action_json fin)]) h = Inr (n, h1)"
    and i: "insert_action z h1 = Inr h'" and z: "grant_seq z = Some n" "attempt_seq z = None"
    by (auto simp: authorize_ending_def rbind_Inr_iff)
  have "actions h1 = actions h" using write_event_frame [OF w] by simp
  with i z show ?thesis
    by (auto simp: insert_action_def find_action_None split: if_split_asm)
qed

lemma claim_rows:
  assumes "claim_locked p a d now h = Inr (sq, h')" and "house_ok p h"
  obtains x n zs where "x \<in> set (actions h)" and "action_id (proposal x) = action_id a" and "grant_seq x = Some n" and "attempt_seq x = None"
    and "marks h' = map (\<lambda>(j, g, t). if j = action_id a then (j, g, Some sq) else (j, g, t)) (marks h) @ zs"
    and "zs = [] \<or> (\<exists>i m. zs = [(i, Some m, None)] \<and> i \<notin> fst ` set (marks h))"
  using assms(1)
proof (rule claim_lockedE)
  fix x :: action_row and n g h1 h2
  let ?f = "\<lambda>y. if ar_lifecycle x = None then y\<lparr>attempt_seq := Some sq\<rparr>
              else y\<lparr>attempt_seq := Some sq, execution_status := Some ''executing'', lifecycle_seq := Some sq\<rparr>"
  assume x: "find_action h (action_id a) = Some x" and none: "attempt_seq x = None" and n: "grant_seq x = Some n"
    and e: "(if ar_lifecycle x \<noteq> None then authorize_ending p a d now h else Inr h) = Inr h1"
    and w: "write_event p now EXECUTION_ATTEMPTED (\<lambda>_. PDict [(''action_id'', PStr (action_id a)),
              (''content_hash'', PStr (content_hash a)), (''grant_seq'', opt_pv PInt (audit_id d))]) h1 = Inr (sq, h2)"
    and h': "h' = update_action (action_id a) ?f h2"
  from e obtain ys where ys: "actions h1 = actions h @ ys" and
    y: "ys = [] \<or> (\<exists>z n. ys = [z] \<and> action_id (proposal z) \<notin> (action_id \<circ> proposal) ` set (actions h) \<and> grant_seq z = Some n \<and> attempt_seq z = None)"
    using authorize_ending_rows [of p a d now h h1] by (auto split: if_split_asm)
  have m: "marks h' = map (\<lambda>(j, g, t). if j = action_id a then (j, g, Some sq) else (j, g, t)) (marks h2)"
    unfolding h' by (auto simp: marks_def update_action_def)
  have m2: "marks h2 = marks h @ map (\<lambda>x. (action_id (proposal x), grant_seq x, attempt_seq x)) ys"
    using write_event_frame [OF w] ys by (simp add: marks_def)
  have mem: "x \<in> set (actions h)" "action_id (proposal x) = action_id a" using find_action_Some [OF x] by simp_all
  have fsts: "fst ` set (marks h) = (action_id \<circ> proposal) ` set (actions h)" by (force simp: marks_def)
  show thesis
  proof (cases "ys = []")
    case True
    with m m2 show thesis by (intro that [OF mem n none, of "[]"]) simp_all
  next
    case False
    with y obtain z k where z: "ys = [z]" "action_id (proposal z) \<notin> (action_id \<circ> proposal) ` set (actions h)" "grant_seq z = Some k"
      "attempt_seq z = None" by blast
    then have "action_id (proposal z) \<noteq> action_id a" using mem by force
    with m m2 z fsts show thesis
      by (intro that [OF mem n none, of "[(action_id (proposal z), Some k, None)]"]) simp_all
  qed
qed

text \<open>
  C3: an action is dispatched at most once. After a claim succeeded, no later claim for the same action succeeds,
  whatever transactions of the pipeline and writes of the other components (\<open>other_write\<close>) came in between.
\<close>

theorem claim_at_most_once:
  assumes "sane p" and "house_ok p h" and "same_keys p q" and "claim_execution q a d now h = Inr (sq, h')"
    and "(step p)\<^sup>*\<^sup>* h' h''" and "same_keys p q'" and "action_id b = action_id a"
  shows "\<exists>e. claim_execution q' b d' now' h'' = Inl e"
proof (rule ccontr)
  assume "\<not> ?thesis"
  then obtain t where t: "claim_locked q' b d' now' h'' = Inr t" by (cases "claim_execution q' b d' now' h''") auto
  from assms(4) have c: "claim_locked q a d now h = Inr (sq, h')" by simp
  have s1: "step p h h'" using assms(3,4) by (rule step.claim)
  have ok1: "house_ok p h'" using step_safe [OF s1 assms(1,2)] by (simp add: safe_def)
  have ok2: "house_ok p h''" and ex: "extends h' h''"
    using household.runs_inv [OF assms(5)] household.runs_ext [OF assms(5)] ok1 assms(1) by blast+
  have okq: "house_ok q h" using same_keys_ok [OF assms(3)] assms(2) by simp
  obtain x n zs where x: "x \<in> set (actions h)" "action_id (proposal x) = action_id a"
    and m: "marks h' = map (\<lambda>(j, g, t). if j = action_id a then (j, g, Some sq) else (j, g, t)) (marks h) @ zs"
    by (rule claim_rows [OF c okq])
  have "(action_id a, grant_seq x, attempt_seq x) \<in> set (marks h)" using x by (force simp: marks_def)
  then have "(action_id a, grant_seq x, Some sq) \<in> set (marks h')" unfolding m by force
  then obtain y where y: "y \<in> set (actions h')" "action_id (proposal y) = action_id a" "attempt_seq y = Some sq"
    by (auto simp: marks_def)
  from ex obtain z where z: "z \<in> set (actions h'')" "keeps_row y z"
    using grows_member [of keeps_row "actions h'" "actions h''" y] y(1) by (auto simp: extends_def)
  then have za: "action_id (proposal z) = action_id b" "attempt_seq z \<noteq> None" using y assms(7) by (auto simp: keeps_row_def same_command_id)
  with find_action_unique [OF ok2 z(1)] have f: "find_action h'' (action_id b) = Some z" by simp
  obtain sq' h3 where "t = (sq', h3)" by force
  with t have "claim_locked q' b d' now' h'' = Inr (sq', h3)" by simp
  then obtain x' where "find_action h'' (action_id b) = Some x'" "attempt_seq x' = None" by (rule claim_lockedE)
  with f za show False by simp
qed

text \<open>A verified row is one that is read back as it was written.\<close>

lemma find_event_Inr: "find_event h k = Inr r \<Longrightarrow> verified_row p r \<Longrightarrow> r \<in> set (log (audit h)) \<and> r_seq r = k"
proof -
  assume f: "find_event h k = Inr r" and v: "verified_row p r"
  from f obtain r0 where r0: "List.find (\<lambda>r. r_seq r = k) (log (audit h)) = Some r0" and r: "r = read_row r0"
    by (auto simp: find_event_def)
  from v have "canonical (row_envelope r)"
    by (auto simp: verified_row_def feed_def rbind_Inr_iff split: sum.split_asm)
  then have "r = r0" unfolding r by (intro read_row_id read_row_plain)
  then show ?thesis using find_Some_iff [OF r0] by simp
qed

text \<open>A validated ending belongs to an operation that was attempted under a verified EXECUTE.\<close>

lemma validate_ending_first:
  assumes "validate_ending p h a g = Inr ()"
  shows "r_event g = ''ENDING_AUTHORIZED'' \<and>
    (\<exists>y first. y \<in> set (actions h) \<and> attempt_seq y \<noteq> None \<and> first \<in> set (log (audit h)) \<and>
       grant_seq y = Some (r_seq first) \<and> verified_row p first \<and> r_event first = ''EXECUTE'')"
proof -
  from assms [unfolded validate_ending_def] obtain i y fin n first where
    y: "row h i = Inr y" and
    g: "guard ValueError (r_event g = event_name ENDING_AUTHORIZED \<and> attempt_seq y \<noteq> None \<and>
              opt_pv PInt (grant_seq y) = pv_get (r_payload g) ''grant_seq'' \<and>
              PStr (content_hash (proposal y)) = pv_get (r_payload g) ''opening_hash'') = Inr ()"
    and n: "of_opt PipelineError (grant_seq y) = Inr n" and o: "find_event h n = Inr first"
    and v: "guard ValueError (verified_row p first \<and> r_event first = event_name EXECUTE) = Inr ()"
    by (elim rbind_unitE rbind_InrE)
  from y have "y \<in> set (actions h)" by (auto simp: row_def dest: find_action_Some)
  with g n v find_event_Inr [OF o, of p] show ?thesis by (intro conjI exI [of _ y] exI [of _ first]) simp_all
qed

lemma claim_event:
  assumes "sane p" and "house_ok p h" and "(if b then authorize_ending p a d now h else Inr h) = Inr h1"
    and "write_event p now EXECUTION_ATTEMPTED (\<lambda>_. PDict [(''action_id'', PStr (action_id a)),
              (''content_hash'', PStr (content_hash a)), (''grant_seq'', opt_pv PInt (audit_id d))]) h1 = Inr (sq, h2)"
  shows "\<exists>r \<in> set (log (audit h2)). r_seq r = sq \<and> r_event r = ''EXECUTION_ATTEMPTED'' \<and>
       pv_get (r_payload r) ''content_hash'' = PStr (content_hash a)"
proof -
  have ok1: "house_ok p h1"
    using assms(3) authorize_ending_safe [OF assms(1,2)] assms(2) by (auto simp: safe_def split: if_split_asm)
  have pd: "\<exists>dd. (\<lambda>_. PDict [(''action_id'', PStr (action_id a)), (''content_hash'', PStr (content_hash a)),
       (''grant_seq'', opt_pv PInt (audit_id d))]) k = PDict dd" for k :: int by simp
  from write_event_safe(2) [OF assms(1) ok1 pd assms(4)] obtain db r where h2: "h2 = h1\<lparr>audit := db\<rparr>" and
    db: "log db = log (audit h1) @ [r]" and "r_seq r = sq"
    and "stored r = (now, event_name EXECUTION_ATTEMPTED, PDict [(''action_id'', PStr (action_id a)), (''content_hash'', PStr (content_hash a)),
       (''grant_seq'', opt_pv PInt (audit_id d))])" by blast
  moreover have "r \<in> set (log (audit h2))" by (simp add: h2 db)
  ultimately show ?thesis by (intro bexI [of _ r]) (simp_all add: stored_def pv_get_def dict_get_def)
qed

text \<open>An execution is claimed only on its own grant. A successful claim is for a supported device
  class on a bound device; the row carries the grant that the decision names and no attempt, and the
  digest of its proposal is that of the action; the grant's event is stored and verified, and it is
  either the EXECUTE decision itself, recorded at most ten seconds ago with the digest of this
  decision, or the authorization of the ending of an attempted operation that was itself granted by a
  verified EXECUTE. The claim is recorded in the log under its own number.
\<close>

theorem claim_has_grant:
  assumes "sane p" and "house_ok p h" and "claim_execution p a d now h = Inr (sq, h')"
  shows "\<exists>x n g. find_action h (action_id a) = Some x \<and> grant_seq x = Some n \<and> audit_id d = Some n \<and> attempt_seq x = None \<and>
    d_kind d = Kexecute \<and> d_action_id d = action_id a \<and> H p (action_json (proposal x)) = H p (action_json a) \<and>
    g \<in> set (log (audit h)) \<and> r_seq g = n \<and> verified_row p g \<and> bound_device p a \<and>
    (case Option.bind (ar_lifecycle x) ending_of of
       None \<Rightarrow> r_event g = ''EXECUTE'' \<and> 0 \<le> now - created_at g \<and> now - created_at g \<le> 10 * us_per_second \<and>
         H p (r_payload g) = H p (decision_dump d)
     | Some _ \<Rightarrow> r_event g = ''ENDING_AUTHORIZED'' \<and>
         (\<exists>y first. y \<in> set (actions h) \<and> attempt_seq y \<noteq> None \<and> first \<in> set (log (audit h)) \<and>
            grant_seq y = Some (r_seq first) \<and> verified_row p first \<and> r_event first = ''EXECUTE'')) \<and>
    (\<exists>r \<in> set (log (audit h')). r_seq r = sq \<and> r_event r = ''EXECUTION_ATTEMPTED'' \<and>
       pv_get (r_payload r) ''content_hash'' = PStr (content_hash a))"
proof -
  from assms(3) have "claim_locked p a d now h = Inr (sq, h')" by simp
  then show ?thesis
  proof (rule claim_lockedE)
    fix x :: action_row and n g h1 h2
    assume cl: "claimable a d" and x: "find_action h (action_id a) = Some x" "attempt_seq x = None" "grant_seq x = audit_id d"
      "H p (action_json (proposal x)) = H p (action_json a)" "grant_seq x = Some n"
      and g: "find_event h n = Inr g" "verified_row p g" and gc: "grant_current p h x a d g now = Inr ()"
      and bd: "bound_device p a"
      and e: "(if ar_lifecycle x \<noteq> None then authorize_ending p a d now h else Inr h) = Inr h1"
      and w: "write_event p now EXECUTION_ATTEMPTED (\<lambda>_. PDict [(''action_id'', PStr (action_id a)),
              (''content_hash'', PStr (content_hash a)), (''grant_seq'', opt_pv PInt (audit_id d))]) h1 = Inr (sq, h2)"
      and h': "h' = update_action (action_id a) (\<lambda>y. if ar_lifecycle x = None then y\<lparr>attempt_seq := Some sq\<rparr>
              else y\<lparr>attempt_seq := Some sq, execution_status := Some ''executing'', lifecycle_seq := Some sq\<rparr>) h2"
    have current: "case Option.bind (ar_lifecycle x) ending_of of
       None \<Rightarrow> r_event g = ''EXECUTE'' \<and> 0 \<le> now - created_at g \<and> now - created_at g \<le> 10 * us_per_second \<and>
         H p (r_payload g) = H p (decision_dump d)
     | Some _ \<Rightarrow> r_event g = ''ENDING_AUTHORIZED'' \<and>
         (\<exists>y first. y \<in> set (actions h) \<and> attempt_seq y \<noteq> None \<and> first \<in> set (log (audit h)) \<and>
            grant_seq y = Some (r_seq first) \<and> verified_row p first \<and> r_event first = ''EXECUTE'')"
      using gc validate_ending_first [of p h a g] by (auto simp: grant_current_def split: option.split_asm option.split)
    have ev: "\<exists>r \<in> set (log (audit h')). r_seq r = sq \<and> r_event r = ''EXECUTION_ATTEMPTED'' \<and>
       pv_get (r_payload r) ''content_hash'' = PStr (content_hash a)"
      using claim_event [OF assms(1,2) e w] by (simp add: h')
    note found = find_event_Inr [OF g]
    from x(3,5) have "audit_id d = Some n" by simp
    with cl x found g(2) bd current ev show ?thesis
      by (intro exI [of _ x] exI [of _ n] exI [of _ g] conjI) (simp_all add: claimable_def)
  qed
qed

section \<open>The abstract ledger\<close>

lemmas step_cases = stepE [consumes 1, case_names request voting claim outcome retrying noticing moving elsewhere]

text \<open>Granted and claimed actions. A bounded claim also grants the ending of its operation.\<close>

type_synonym ledger = "string set \<times> string set"

inductive ledger_step :: "ledger \<Rightarrow> ledger \<Rightarrow> bool" where
  idle: "ledger_step s s"
| granting: "ledger_step (G, C) (insert i G, C)" if "i \<notin> G"
| claiming: "ledger_step (G, C) (G, insert i C)" if "i \<in> G" and "i \<notin> C"
| claiming_bounded: "ledger_step (G, C) (insert e G, insert i C)" if "i \<in> G" and "i \<notin> C" and "e \<notin> G" and "e \<notin> C"

inductive_simps ledger_simps: "ledger_step (G, C) (G', C')"

definition ledger_of :: "house \<Rightarrow> ledger" where
  "ledger_of h = ({i. \<exists>g t. (i, Some g, t) \<in> set (marks h)}, {i. \<exists>g t. (i, g, Some t) \<in> set (marks h)})"

lemma ledger_cong: "set (marks h') = set (marks h) \<Longrightarrow> ledger_of h' = ledger_of h"
  by (simp add: ledger_of_def)

lemma marks_distinct: "house_ok p h \<Longrightarrow> distinct (map fst (marks h))"
  by (simp add: house_ok_def marks_def comp_def)

lemma marks_key: "house_ok p h \<Longrightarrow> (i, g, t) \<in> set (marks h) \<Longrightarrow> (i, g', t') \<in> set (marks h) \<Longrightarrow> g' = g \<and> t' = t"
  using eq_key_imp_eq_value [OF marks_distinct, of p h i "(g, t)" "(g', t')"] by simp

text \<open>Marking the grant or the attempt of one action.\<close>

lemma mark_grant_iff:
  "(j, g, t) \<in> set (map (\<lambda>(j, g, t). if j = i then (j, Some n, t) else (j, g, t)) xs) \<longleftrightarrow>
     (if j = i then g = Some n \<and> (\<exists>g'. (i, g', t) \<in> set xs) else (j, g, t) \<in> set xs)"
  by (force simp: image_iff split: if_splits)

lemma mark_attempt_iff:
  "(j, g, t) \<in> set (map (\<lambda>(j, g, t). if j = i then (j, g, Some n) else (j, g, t)) xs) \<longleftrightarrow>
     (if j = i then t = Some n \<and> (\<exists>t'. (i, g, t') \<in> set xs) else (j, g, t) \<in> set xs)"
  by (force simp: image_iff split: if_splits)

lemma mark_grant_sets:
  fixes xs :: "(string \<times> int option \<times> int option) list"
  assumes "(i, g0, t0) \<in> set xs" and "ys = map (\<lambda>(j, g, t). if j = i then (j, Some n, t) else (j, g, t)) xs"
  shows "{j. \<exists>g t. (j, Some g, t) \<in> set ys} = insert i {j. \<exists>g t. (j, Some g, t) \<in> set xs}"
    and "{j. \<exists>g t. (j, g, Some t) \<in> set ys} = {j. \<exists>g t. (j, g, Some t) \<in> set xs}"
proof -
  show "{j. \<exists>g t. (j, Some g, t) \<in> set ys} = insert i {j. \<exists>g t. (j, Some g, t) \<in> set xs}"
  proof (rule set_eqI)
    fix j show "j \<in> {j. \<exists>g t. (j, Some g, t) \<in> set ys} \<longleftrightarrow> j \<in> insert i {j. \<exists>g t. (j, Some g, t) \<in> set xs}"
      unfolding assms(2) mem_Collect_eq insert_iff mark_grant_iff using assms(1) by (cases "j = i") auto
  qed
  show "{j. \<exists>g t. (j, g, Some t) \<in> set ys} = {j. \<exists>g t. (j, g, Some t) \<in> set xs}"
  proof (rule set_eqI)
    fix j show "j \<in> {j. \<exists>g t. (j, g, Some t) \<in> set ys} \<longleftrightarrow> j \<in> {j. \<exists>g t. (j, g, Some t) \<in> set xs}"
      unfolding assms(2) mem_Collect_eq insert_iff mark_grant_iff using assms(1) by (cases "j = i") auto
  qed
qed

lemma mark_attempt_sets:
  fixes xs :: "(string \<times> int option \<times> int option) list"
  assumes "(i, g0, t0) \<in> set xs" and "ys = map (\<lambda>(j, g, t). if j = i then (j, g, Some n) else (j, g, t)) xs"
  shows "{j. \<exists>g t. (j, Some g, t) \<in> set ys} = {j. \<exists>g t. (j, Some g, t) \<in> set xs}"
    and "{j. \<exists>g t. (j, g, Some t) \<in> set ys} = insert i {j. \<exists>g t. (j, g, Some t) \<in> set xs}"
proof -
  show "{j. \<exists>g t. (j, Some g, t) \<in> set ys} = {j. \<exists>g t. (j, Some g, t) \<in> set xs}"
  proof (rule set_eqI)
    fix j show "j \<in> {j. \<exists>g t. (j, Some g, t) \<in> set ys} \<longleftrightarrow> j \<in> {j. \<exists>g t. (j, Some g, t) \<in> set xs}"
      unfolding assms(2) mem_Collect_eq insert_iff mark_attempt_iff using assms(1) by (cases "j = i") auto
  qed
  show "{j. \<exists>g t. (j, g, Some t) \<in> set ys} = insert i {j. \<exists>g t. (j, g, Some t) \<in> set xs}"
  proof (rule set_eqI)
    fix j show "j \<in> {j. \<exists>g t. (j, g, Some t) \<in> set ys} \<longleftrightarrow> j \<in> insert i {j. \<exists>g t. (j, g, Some t) \<in> set xs}"
      unfolding assms(2) mem_Collect_eq insert_iff mark_attempt_iff using assms(1) by (cases "j = i") auto
  qed
qed

lemma fresh_grant_sets:
  "{j. \<exists>g t. (j, Some g, t) \<in> set (ys @ [(i, Some k, None)])} = insert i {j. \<exists>g t. (j, Some g, t) \<in> set ys}"
  "{j. \<exists>g t. (j, g, Some t) \<in> set (ys @ [(i, Some k, None)])} = {j. \<exists>g t. (j, g, Some t) \<in> set ys}"
  by auto

text \<open>A proposed row has no marks.\<close>

lemma proposal_step_ledger:
  assumes "proposal_step p a pr cost h = Inr (matched, g0, st0, h1)"
  shows "ledger_of h1 = ledger_of h \<and> (\<forall>x. find_action h1 (action_id a) = Some x \<longrightarrow> house_ok p h \<longrightarrow> grant_seq x = g0)"
proof (cases "find_action h (action_id a)")
  case None
  with assms obtain y where h1: "h1 = h\<lparr>actions := actions h @ [y]\<rparr>" and y: "grant_seq y = None" "attempt_seq y = None"
    by (auto simp: proposal_step_def rbind_Inr_iff insert_action_def new_action_row_def split: if_split_asm)
  have "ledger_of h1 = ledger_of h" by (auto simp: ledger_of_def marks_def h1 y)
  moreover have "house_ok p h \<Longrightarrow> find_action h1 (action_id a) = Some x \<Longrightarrow> grant_seq x = g0" for x
    using proposal_step_safe [OF _ assms] by auto
  ultimately show ?thesis by blast
next
  case (Some x)
  with assms show ?thesis by (auto simp: proposal_step_def rbind_Inr_iff)
qed

lemma unmarked_ledger:
  assumes "adds_unmarked h h'"
  shows "ledger_of h' = ledger_of h"
proof -
  from assms obtain ks where m: "marks h' = marks h @ map (\<lambda>i. (i, None, None)) ks" by (auto simp: adds_unmarked_def)
  have "(i, Some g, t) \<in> set (marks h') \<longleftrightarrow> (i, Some g, t) \<in> set (marks h)"
    "(i, t, Some g) \<in> set (marks h') \<longleftrightarrow> (i, t, Some g) \<in> set (marks h)" for i g t
    unfolding m by auto
  then show ?thesis by (simp add: ledger_of_def)
qed

lemma grant_ledger:
  assumes "grant p ev a pr cost apr now h = Inr (ev', h')" and "hooked p a" and "house_ok p h"
    and "find_action h (action_id a) = Some x" and "grant_seq x = None"
  shows "ledger_step (ledger_of h) (ledger_of h')"
  using assms(1,2)
proof (rule grant_any_Inr)
  fix d1 :: decision and h1 h3 h4 h6
  let ?h2 = "update_action (action_id a) (\<lambda>x. x\<lparr>grant_seq := audit_id d1\<rparr>) h1"
  let ?h5 = "update_action (action_id a) (\<lambda>x. x\<lparr>ar_lifecycle := map_option (\<lambda>lc. lc\<lparr>lc_decision := d1\<rparr>) (ar_lifecycle x)\<rparr>) h4"
  assume r: "record_decision p (reserving (ev_decision ev) cost) (Some (ev_action ev)) (ev_diagnostics ev) now h = Inr (d1, h1)"
    and h3: "h3 = (case apr of None \<Rightarrow> ?h2 | Some x \<Rightarrow> set_status (approval_id x) Redeemed ?h2)"
    and w: "other_writes p h3 h4" "other_writes p ?h5 h6" and sp: "set_pause p a now h6 = Inr h'"
  note rd = record_decision_frame [OF r]
  obtain n where n: "audit_id d1 = Some n" using rd(2) by auto
  have "marks h1 = marks h" using rd(1) by (auto intro: marks_cong)
  moreover have "marks h3 = marks ?h2" by (auto simp: h3 marks_def split: option.split)
  ultimately have m: "marks h3 = map (\<lambda>(j, g, t). if j = action_id a then (j, Some n, t) else (j, g, t)) (marks h)"
    using n marks_mark [of "action_id a" "Some n" h1] by simp
  have "marks ?h5 = marks h4" by (rule marks_update) simp
  moreover have "actions h' = actions h6"
    using sp by (auto simp: set_pause_def Let_def rbind_Inr_iff dest!: write_event_frame split: if_split_asm)
  then have "marks h' = marks h6" by (rule marks_cong)
  ultimately have l3: "ledger_of h' = ledger_of h3"
    using unmarked_ledger [OF other_writes_marks [OF w(1)]] unmarked_ledger [OF other_writes_marks [OF w(2)]]
    by (simp add: ledger_of_def)
  have x: "(action_id a, None, attempt_seq x) \<in> set (marks h)"
    using find_action_Some [OF assms(4)] assms(5) by (force simp: marks_def)
  have none: "(action_id a, Some k, t) \<notin> set (marks h)" for k t using marks_key [OF assms(3) x] by blast
  obtain G C where l: "ledger_of h = (G, C)" by force
  have "ledger_of h' = (insert (action_id a) G, C)"
    unfolding l3 using l mark_grant_sets [OF x m] by (simp add: ledger_of_def)
  moreover have "action_id a \<notin> G" using l none by (auto simp: ledger_of_def)
  ultimately show ?thesis unfolding l by (simp add: ledger_step.granting)
qed

lemma mutate_ledger:
  assumes "sane p" and "house_ok p h" and "hooked p (c_action c)" and "mutate_locked p c h = Inr (r, h')"
  shows "ledger_step (ledger_of h) (ledger_of h')"
  using assms(4)
proof (cases rule: mutate_lockedE)
  case (repeated matched g0 st0 h1 x)
  with proposal_step_ledger [OF repeated(1)] show ?thesis by (simp add: ledger_step.idle)
next
  case (assessed matched g0 st0 h1 ev)
  note ps = proposal_step_safe [OF assms(2) assessed(1)]
  then have ok1: "house_ok p h1" by (auto simp: safe_def)
  from ps obtain x where x: "find_action h1 (action_id (c_action c)) = Some x" "grant_seq x = g0" by blast
  have l1: "ledger_of h1 = ledger_of h" using proposal_step_ledger [OF assessed(1)] by blast
  have fin: "finish p e t g = Inr (r, h') \<Longrightarrow> marks h' = marks g" for e t g
    using finish_frame [of p e t g r h'] by (auto intro: marks_cong)
  have same: "marks h' = marks h1 \<Longrightarrow> ledger_step (ledger_of h) (ledger_of h')"
    using ledger_cong [of h' h1] l1 by (simp add: ledger_step.idle)
  show ?thesis
  proof (cases "matched \<and> g0 = None \<and> c_redeem c")
    case False
    have askg: "ask p (c_fresh c) e (c_action c) (caller c) (c_cost c) (c_now c) h1 = Inr (e', g) \<Longrightarrow> marks g = marks h1" for e e' g
      using ask_safe [OF assms(1) ok1] marks_cong by blast
    from False have "marks h' = marks h1"
      using assessed(3)
      by (auto simp: mutate_assessed_def Let_def rbind_Inr_iff split: if_split_asm option.split_asm dest!: fin askg)
    then show ?thesis by (rule same)
  next
    case True
    with assessed(3) obtain ev2 h2 where
      au: "authorize p (c_fresh c) ev (c_action c) (caller c) (c_cost c) (c_now c) (c_later c) (c_approval_id c)
             (presented c h1) (c_enqueue c) h1 = Inr (ev2, h2)" and f: "finish p ev2 (c_now c) h2 = Inr (r, h')"
      by (auto simp: mutate_assessed_def Let_def rbind_Inr_iff)
    show ?thesis
    proof (rule authorizeE [OF assms(1) ok1 presented_Some au])
      assume "marks h2 = marks h1"
      with fin [OF f] show ?thesis by (intro same) simp
    next
      fix ev1
      assume "grant p ev1 (c_action c) (caller c) (c_cost c) (presented c h1) (c_now c) h1 = Inr (ev2, h2)"
      from grant_ledger [OF this assms(3) ok1 x(1)] True x(2) l1 ledger_cong [of h' h2] fin [OF f] show ?thesis by simp
    qed
  qed
qed

lemma retry_ledger:
  assumes "sane p" and "house_ok p h" and "retry p fresh fresh' a now h = Inr (r, h')"
  shows "ledger_of h' = ledger_of h"
proof (cases "h' = h")
  case False
  with assms(3) obtain parent b where "retry_made p fresh' a parent b now h = Inr (r, h')"
    by (auto simp: retry_def rbind_Inr_iff split: if_split_asm option.split_asm)
  from this [unfolded retry_made_def] obtain t where
    ps: "proposal_step p b (ar_principal parent) (ar_cost parent) h = Inr t"
    and q: "(case t of (_, _, _, h1) \<Rightarrow>
     rbind (assess_operation (H p) (secs p) (desk_of p h1) b (ar_principal parent) (ar_cost parent) [] now None None) (\<lambda>ev.
     if d_kind (ev_decision ev) \<noteq> Kexecute then
       rbind (ask p fresh' ev b (ar_principal parent) (ar_cost parent) now h1) (\<lambda>(ev1, h2).
       rbind (record_decision p (ev_decision ev1) (Some (ev_action ev1)) (ev_diagnostics ev1) now h2) (\<lambda>(d, h3). Inr (Some d, h3)))
     else
       rbind (scheduled p (ev_action ev) (ev_decision ev) None (Some (action_id a)) now h1) (\<lambda>(d, h2).
       let h3 = update_action (action_id b) (\<lambda>x. x\<lparr>ar_lifecycle := map_option
                  (\<lambda>l. l\<lparr>lc_retry := 1, retry_of := Some (action_id a)\<rparr>) (ar_lifecycle x)\<rparr>) h2 in
       rbind (write_event p now SCHEDULED (\<lambda>_. PDict [(''action_id'', PStr (action_id b)), (''retry_of'', PStr (action_id a))]) h3)
         (\<lambda>(_, h4). Inr (Some d, h4))))) = Inr (r, h')" by (rule rbind_InrE)
  obtain mt g0 st0 h1 where t: "t = (mt, g0, st0, h1)" by (cases t)
  have ok1: "house_ok p h1" using proposal_step_safe [OF assms(2) ps [unfolded t]] by (auto simp: safe_def)
  have askm: "ask p fresh' e b (ar_principal parent) (ar_cost parent) now h1 = Inr (e', g) \<Longrightarrow> marks g = marks h1" for e e' g
    using ask_safe [OF assms(1) ok1] marks_cong by blast
  have rec: "record_decision p d x errs now g = Inr (d', g') \<Longrightarrow> marks g' = marks g" for d x errs g d' g'
    using record_decision_frame(1) [of p d x errs now g d' g'] by (auto intro: marks_cong)
  have sch: "scheduled p x d None y now h1 = Inr (d', g) \<Longrightarrow> marks g = marks h1" for x d y d' g
    using scheduled_marks by blast
  have we: "write_event p now e pl g = Inr (n, g') \<Longrightarrow> marks g' = marks g" for e pl g n g'
    using write_event_frame [of p now e pl g n g'] by (auto intro: marks_cong)
  have "marks h' = marks h1"
    using q unfolding t prod.case
    by (auto simp: rbind_Inr_iff Let_def marks_update split: if_split_asm dest!: askm rec sch we)
  then show ?thesis using ledger_cong [of h' h1] proposal_step_ledger [OF ps [unfolded t]] by simp
qed simp

lemma claim_ledger:
  assumes "claim_locked p a d now h = Inr (sq, h')" and "house_ok p h"
  shows "ledger_step (ledger_of h) (ledger_of h')"
proof -
  obtain x n zs where x: "x \<in> set (actions h)" "action_id (proposal x) = action_id a" "grant_seq x = Some n" "attempt_seq x = None"
    and m: "marks h' = map (\<lambda>(j, g, t). if j = action_id a then (j, g, Some sq) else (j, g, t)) (marks h) @ zs"
    and z: "zs = [] \<or> (\<exists>i m. zs = [(i, Some m, None)] \<and> i \<notin> fst ` set (marks h))"
    by (rule claim_rows [OF assms])
  have mem: "(action_id a, Some n, None) \<in> set (marks h)" using x by (force simp: marks_def)
  have none: "(action_id a, g, Some k) \<notin> set (marks h)" for g k using marks_key [OF assms(2) mem] by blast
  obtain G C where l: "ledger_of h = (G, C)" by force
  then have a: "action_id a \<in> G" "action_id a \<notin> C" using mem none by (auto simp: ledger_of_def)
  show ?thesis
  proof (cases "zs = []")
    case True
    have "ledger_of h' = (G, insert (action_id a) C)"
      using l mark_attempt_sets [OF mem m [unfolded True append_Nil2]] by (simp add: ledger_of_def)
    with a show ?thesis unfolding l by (simp add: ledger_step.claiming)
  next
    case False
    with z obtain i k where i: "zs = [(i, Some k, None)]" "i \<notin> fst ` set (marks h)" by blast
    let ?ys = "map (\<lambda>(j, g, t). if j = action_id a then (j, g, Some sq) else (j, g, t)) (marks h)"
    have "ledger_of h' = (insert i {j. \<exists>g t. (j, Some g, t) \<in> set ?ys}, {j. \<exists>g t. (j, g, Some t) \<in> set ?ys})"
      unfolding ledger_of_def m i(1) fresh_grant_sets by (rule refl)
    then have "ledger_of h' = (insert i G, insert (action_id a) C)"
      using l unfolding mark_attempt_sets [OF mem refl] by (simp add: ledger_of_def)
    moreover have "i \<notin> G" "i \<notin> C" using l i(2) by (force simp: ledger_of_def)+
    ultimately show ?thesis unfolding l using a by (simp add: ledger_step.claiming_bounded)
  qed
qed

text \<open>
  C5: the household refines the ledger. Every step of the tables, a transaction of the pipeline with what a
  component commits in it or a write of another component, is one step of the abstract ledger: it leaves the granted and claimed actions alone, grants one action that had no grant, or claims one
  granted action that was not claimed, granting at most its fresh ending with it.
\<close>

theorem tables_refine_ledger:
  assumes "sane p" and "house_ok p h" and "step p h h'"
  shows "ledger_step (ledger_of h) (ledger_of h')"
  using assms(3)
proof (cases rule: step_cases)
  case (request q c r)
  with assms(1,2) show ?thesis
    by (intro mutate_ledger [of q]) (auto simp: same_keys_sane same_keys_ok dest: mutate_Inr)
next
  case (voting q i pr approved now d)
  then have "actions h' = actions h"
    using vote_safe [of q h i pr approved now d h'] assms(1,2) by (auto simp: vote_def same_keys_sane same_keys_ok)
  then show ?thesis using ledger_cong [of h' h] marks_cong [of h' h] by (simp add: ledger_step.idle)
next
  case (claim q a d now sq)
  with assms(2) show ?thesis by (intro claim_ledger [of q]) (auto simp: same_keys_ok)
next
  case (outcome q a n e now)
  then have "marks h' = marks h"
    by (auto simp: execution_outcome_def outcome_locked_def rbind_Inr_iff split: if_split_asm
        dest!: transition_marks write_event_frame intro: marks_cong)
  then show ?thesis using ledger_cong [of h' h] by (simp add: ledger_step.idle)
next
  case (retrying q fresh fresh' a now dd)
  with assms(1,2) retry_ledger [of q h] show ?thesis by (simp add: same_keys_sane same_keys_ok ledger_step.idle)
next
  case (noticing q m i msg now)
  then have "actions h' = actions h"
    by (auto simp: notice_def rbind_Inr_iff split: if_split_asm dest!: write_event_frame)
  then show ?thesis using ledger_cong [of h' h] marks_cong [of h' h] by (simp add: ledger_step.idle)
next
  case (moving q i status e details now n)
  then have "marks h' = marks h" by (auto dest: transition_marks)
  then show ?thesis using ledger_cong [of h' h] by (simp add: ledger_step.idle)
next
  case elsewhere
  then show ?thesis using unmarked_ledger [OF other_write_marks] by (simp add: ledger_step.idle)
qed

section \<open>On the sample household\<close>

lemma same_keys_refl: "same_keys p p" by (simp add: same_keys_def)

lemma lamp_stepE:
  obtains d h1 sq h2 where "step lamp_plant lamp_house h1" and "granted h1 ''a3''"
    and "claim_execution lamp_plant lamp_request d 1791930901000000 h1 = Inr (sq, h2)" and "step lamp_plant h1 h2" and "house_ok lamp_plant h1"
proof (rule lamp_runE)
  fix d b h1 sq h2
  assume m: "mutate lamp_plant lamp_call lamp_house = Inr (Decided d, h1)" and g: "granted h1 ''a3''"
    and c: "claim_execution lamp_plant lamp_request d 1791930901000000 h1 = Inr (sq, h2)"
  have k: "\<not> committed_class (action_class (c_action lamp_call))" unfolding lamp_call_simps by (rule lamp_class(1))
  have "hooked lamp_plant (c_action lamp_call)" using k by (simp add: hooked_def)
  with same_keys_refl have s: "step lamp_plant lamp_house h1" using m by (rule step.request)
  have "step lamp_plant h1 h2" using same_keys_refl c by (rule step.claim)
  with s g c show thesis
    by (rule that) (use step_safe [OF s lamp_plant_sane lamp_house_ok] in \<open>simp add: safe_def\<close>)
qed

theorem reachable_tables_consistent_witness:
  "\<exists>h. (step lamp_plant)\<^sup>*\<^sup>* lamp_house h \<and> granted h ''a3'' \<and> audit_ok demo_H demo_ver ''h'' demo_fp (audit h) \<and>
     (accepts demo_H demo_ver ''h'' demo_fp (audit h) \<longleftrightarrow> plain_log (audit h))"
proof (rule lamp_stepE)
  fix d h1 sq h2
  assume s: "step lamp_plant lamp_house h1" and g: "granted h1 ''a3''"
  have n: "new_house lamp_house" by (simp add: new_house_def lamp_house_new empty_log_def)
  from s have r: "(step lamp_plant)\<^sup>*\<^sup>* lamp_house h1" by (rule r_into_rtranclp)
  from reachable_tables_consistent [OF lamp_plant_sane n r] r g show ?thesis
    by (intro exI [of _ h1]) (simp add: lamp_plant_def demo_plant_def)
qed

theorem history_permanent_witness:
  "\<exists>h1 h2. (step lamp_plant)\<^sup>*\<^sup>* h1 h2 \<and> granted h1 ''a3'' \<and> take (length (log (audit h1))) (log (audit h2)) = log (audit h1)"
proof (rule lamp_stepE)
  fix d h1 sq h2
  assume s: "step lamp_plant h1 h2" and g: "granted h1 ''a3''" and ok: "house_ok lamp_plant h1"
  from s have r: "(step lamp_plant)\<^sup>*\<^sup>* h1 h2" by (rule r_into_rtranclp)
  from history_permanent [OF lamp_plant_sane ok r] r g show ?thesis by blast
qed

theorem claim_at_most_once_witness:
  "\<exists>d h1 h2 sq e. claim_execution lamp_plant lamp_request d 1791930901000000 h1 = Inr (sq, h2) \<and>
     claim_execution lamp_plant lamp_request d 1791930902000000 h2 = Inl e"
proof (rule lamp_stepE)
  fix d h1 sq h2
  assume c: "claim_execution lamp_plant lamp_request d 1791930901000000 h1 = Inr (sq, h2)" and ok: "house_ok lamp_plant h1"
  from claim_at_most_once [OF lamp_plant_sane ok same_keys_refl c rtranclp.rtrancl_refl same_keys_refl refl] c show ?thesis by blast
qed

theorem claim_has_grant_witness:
  "\<exists>d h1 h2 sq x n. claim_execution lamp_plant lamp_request d 1791930901000000 h1 = Inr (sq, h2) \<and>
     find_action h1 ''a3'' = Some x \<and> grant_seq x = Some n \<and> audit_id d = Some n"
proof (rule lamp_stepE)
  fix d h1 sq h2
  assume c: "claim_execution lamp_plant lamp_request d 1791930901000000 h1 = Inr (sq, h2)" and ok: "house_ok lamp_plant h1"
  from claim_has_grant [OF lamp_plant_sane ok c] c show ?thesis unfolding lamp_class by blast
qed

theorem tables_refine_ledger_witness:
  "\<exists>h1 h2. step lamp_plant h1 h2 \<and> granted h1 ''a3'' \<and> ledger_step (ledger_of h1) (ledger_of h2)"
proof (rule lamp_stepE)
  fix d h1 sq h2
  assume s: "step lamp_plant h1 h2" and g: "granted h1 ''a3''" and ok: "house_ok lamp_plant h1"
  from tables_refine_ledger [OF lamp_plant_sane ok s] s g show ?thesis by blast
qed

end
