(* ===== verification/Budget.thy ===== *)
theory Budget
  imports Authority
begin

text \<open>
  The day's account. What \<open>usage\<close> reads back is the sum of the costs of the granted actions and the
  recorded adjustments; a grant raises the account of its class and day by exactly its cost, no other
  event of the request touches it, and the account stays within the cap of the constitution.
\<close>

section \<open>Sums of decimals\<close>

lemma dec_rat_scale: "m \<le> e \<Longrightarrow> dec_rat (Dec (c * 10 ^ nat (e - m)) m) = dec_rat (Dec c e)"
proof (cases "0 \<le> m")
  case True
  assume "m \<le> e"
  with True have "nat e = nat (e - m) + nat m" by simp
  then show ?thesis using True \<open>m \<le> e\<close> by (simp add: power_add)
next
  case False
  assume le: "m \<le> e"
  show ?thesis
  proof (cases "0 \<le> e")
    case True
    with False le have "nat (e - m) = nat e + nat (- m)" by simp
    then show ?thesis using True False by (simp add: power_add)
  next
    case neg: False
    with le have "nat (- m) = nat (e - m) + nat (- e)" by simp
    then show ?thesis using neg False by (simp add: power_add)
  qed
qed

lemma dec_rat_same: "dec_rat (Dec (a + b) m) = dec_rat (Dec a m) + dec_rat (Dec b m)"
  by (simp add: distrib_right add_divide_distrib)

lemma dec_rat_add: "dec_rat (dec_add x y) = dec_rat x + dec_rat y"
proof (cases x; cases y)
  fix c e c' e' assume xy: "x = Dec c e" "y = Dec c' e'"
  have "dec_rat (dec_add x y) = dec_rat (Dec (c * 10 ^ nat (e - min e e')) (min e e')) + dec_rat (Dec (c' * 10 ^ nat (e' - min e e')) (min e e'))"
    by (simp only: xy dec_add.simps Let_def dec_rat_same)
  then show ?thesis by (simp only: xy dec_rat_scale min.cobounded1 min.cobounded2)
qed

lemma dec_rat_zero [simp]: "dec_rat (Dec 0 e) = 0"
  by simp

lemma dec_sum_append: "dec_rat (dec_sum (xs @ ys)) = dec_rat (dec_sum xs) + dec_rat (dec_sum ys)"
  by (induction xs) (simp_all add: dec_sum_def dec_rat_add)

lemma dec_sum_Nil: "dec_rat (dec_sum []) = 0"
  by (simp add: dec_sum_def)

lemma dec_sum_Cons: "dec_rat (dec_sum (x # xs)) = dec_rat x + dec_rat (dec_sum xs)"
  by (simp add: dec_sum_def dec_rat_add)

section \<open>The account of a log\<close>

text \<open>What one event adds to the account of a class on a day.\<close>

definition event_amounts :: "house \<Rightarrow> string \<Rightarrow> int \<Rightarrow> audit_row \<Rightarrow> dec list" where
  "event_amounts h name day r =
     (if about name day (pv_get (r_payload r) ''budget'')
      then replicate (grants_of h r) (pv_amount (pv_get (pv_get (r_payload r) ''budget'') ''reserved'')) else [])"

lemma usage_rat:
  "dec_rat (usage h name day) = dec_rat (dec_sum (concat (map (event_amounts h name day) (log (audit h))))) + dec_rat (dec_sum (adjustment_rows h name day))"
proof -
  have "reserved_rows h name day = concat (map (event_amounts h name day) (log (audit h)))"
    unfolding reserved_rows_def event_amounts_def by (rule refl)
  then show ?thesis by (simp add: usage_def dec_rat_add)
qed

text \<open>An event that is no adjustment and has no budget adds nothing.\<close>

definition free_event :: "audit_row \<Rightarrow> bool" where
  "free_event r \<longleftrightarrow> r_event r \<noteq> ''RESERVATION_ADJUSTED'' \<and> pv_get (r_payload r) ''budget'' = PNone"

lemma about_none [simp]: "\<not> about name day PNone"
  by (simp add: about_def pv_get_def)

lemma free_amounts: "\<forall>r \<in> set rs. free_event r \<Longrightarrow> concat (map (event_amounts h name day) rs) = []"
  by (simp add: event_amounts_def free_event_def)

text \<open>The account after more events, when the older events kept their grants.\<close>

lemma usage_extended:
  assumes "log (audit h') = log (audit h) @ rs @ [g] @ ts" and "\<forall>r \<in> set (rs @ ts). free_event r"
    and "\<And>r. r \<in> set (log (audit h)) \<Longrightarrow> grants_of h' r = grants_of h r" and "r_event g \<noteq> ''RESERVATION_ADJUSTED''"
  shows "dec_rat (usage h' name day) = dec_rat (usage h name day) + dec_rat (dec_sum (event_amounts h' name day g))"
proof -
  have "map (event_amounts h' name day) (log (audit h)) = map (event_amounts h name day) (log (audit h))"
    using assms(3) by (intro map_cong refl) (simp add: event_amounts_def)
  moreover have "adjustment_rows h' name day = adjustment_rows h name day"
    using assms(2,4) unfolding adjustment_rows_def assms(1) by (auto simp: free_event_def filter_empty_conv)
  moreover have "concat (map (event_amounts h' name day) rs) = []" "concat (map (event_amounts h' name day) ts) = []"
    using assms(2) by (intro free_amounts; simp)+
  ultimately show ?thesis
    by (simp only: usage_rat assms(1) map_append concat_append list.map concat.simps append_Nil2 dec_sum_append dec_sum_Nil)
qed

section \<open>Budgets of open assessments\<close>

lemma settle_within:
  assumes "d_budget (ev_decision ev) = None"
    and "d_budget (ev_decision (settle k ev a pr rq f outs risk u cost day)) = Some b"
    and "d_kind (ev_decision (settle k ev a pr rq f outs risk u cost day)) \<in> {Kexecute, Kask}"
  shows "within_budget (Some (cap b)) u cost"
proof (rule ccontr)
  assume n: "\<not> ?thesis"
  from settle_budget [OF assms(1,2)] have b: "\<not> governance_class (action_class a)" "Option.bind (worst outs) o_budget = Some (cap b)" by simp_all
  from assms(1,2) have "settle k ev a pr rq f outs risk u cost day =
      decide_gates ev (action_class a) f outs risk (Option.bind (worst outs) o_budget) u cost day"
    by (auto simp: settle_def Let_def split: if_split_asm)
  with assms(3) n b show False by (simp add: decide_gates_kind decide_gates_event Let_def)
qed

lemma assess_budget:
  assumes "assess k a0 pr cost evs now preview bound = Inr ev" and "d_kind (ev_decision ev) \<in> {Kexecute, Kask}"
    and "d_budget (ev_decision ev) = Some b"
  shows "used b = usage_of k (bud_class b) (local_date b) \<and> bud_class b = action_class a0 \<and> within_budget (Some (cap b)) (used b) cost"
proof -
  obtain rq a sn evs' req f u day where a: "a = a0\<lparr>requested_by := rq\<rparr>" and u: "u = usage_of k (action_class a) day"
    and f: "assess_facts k (initial_evaluation (policy k) a) a pr rq f u cost day = Inr ev"
    using assess_openE [OF assms(1,2)] by metis
  from assess_facts_openE [OF f initial_simps(1) assms(2)] obtain risk f2 outs where
    ev: "ev = settle k (judged k (initial_evaluation (policy k) a\<lparr>ev_facts := Some f\<rparr>) a f2 outs risk) a pr rq f2 outs risk u cost day"
    by metis
  let ?e = "judged k (initial_evaluation (policy k) a\<lparr>ev_facts := Some f\<rparr>) a f2 outs risk"
  have nb: "d_budget (ev_decision ?e) = None" by (simp add: judged_def initial_evaluation_def)
  note sb = settle_budget [OF nb assms(3) [unfolded ev]] and sw = settle_within [OF nb assms(3) [unfolded ev] assms(2) [unfolded ev]]
  show ?thesis using sb sw u by (simp add: a)
qed

lemma merge_ending_budget [simp]: "d_budget (ev_decision (merge_ending ev other)) = d_budget (ev_decision ev)"
  by (simp add: merge_ending_def Let_def raise_risk_def split: option.split)

lemma assess_operation_budget:
  assumes "assess_operation Hf sf k a0 pr cost evs now preview bound = Inr ev" and "d_kind (ev_decision ev) \<in> {Kexecute, Kask}"
    and "d_budget (ev_decision ev) = Some b"
  shows "used b = usage_of k (bud_class b) (local_date b) \<and> bud_class b = action_class a0 \<and> within_budget (Some (cap b)) (used b) cost"
proof -
  from assms(1) [unfolded assess_operation_def] obtain ev1 where ev1: "assess k a0 pr cost evs now preview bound = Inr ev1"
    and r: "ev = ev1 \<or> d_kind (ev_decision ev1) \<in> {Kexecute, Kask} \<and> (\<exists>other. ev = merge_ending ev1 other)"
    by (elim rbind_InrE) (auto elim!: rbind_InrE split: if_split_asm)
  show ?thesis by (rule assess_budget [OF ev1]) (use r assms(2,3) in auto)
qed

section \<open>A grant on the account\<close>

lemma decision_dump_budget:
  "pv_get (decision_dump d) ''budget'' = opt_pv budget_dump (d_budget d)"
  by (simp add: decision_dump_def pv_get_def dict_get_def)

lemma budget_dump_about: "about name day (budget_dump b) \<longleftrightarrow> bud_class b = name \<and> local_date b = day"
  by (simp add: about_def budget_dump_def pv_get_def dict_get_def)

lemma budget_dump_reserved: "pv_amount (pv_get (budget_dump b) ''reserved'') = reserved b"
  by (simp add: budget_dump_def pv_get_def dict_get_def pv_amount_def)

text \<open>The log of a grant: policy errors, the decision, and the change of the pause flag.\<close>

lemma record_decision_log:
  assumes "record_decision p d a errs now h = Inr (d', h')" and "sane p" and "house_ok p h"
  obtains rs g where "log (audit h') = log (audit h) @ rs @ [g]" and "\<forall>r \<in> set rs. free_event r"
    and "r_event g = event_name (d_event d)" and "r_payload g = decision_dump d'" and "audit_id d' = Some (r_seq g)"
    and "r_seq g = int (length (log (audit h')))"
proof -
  from record_decision_safe [OF assms(2,3,1)] obtain g rs where l: "log (audit h') = log (audit h) @ rs @ [g]"
    and g: "r_seq g = int (length (log (audit h')))" "stored g = (now, event_name (d_event d), decision_dump d')"
    and rs: "\<forall>x \<in> set rs. r_event x = event_name POLICY_ERROR \<and> (\<exists>path. r_payload x = PDict [(''paths'', PList [PStr path])])"
    and a: "audit_id d' = Some (int (length (log (audit h'))))" by blast
  have "\<forall>r \<in> set rs. free_event r" using rs by (auto simp: free_event_def pv_get_def dict_get_def)
  with l g a show thesis by (intro that [of rs g]) (simp_all add: stored_def)
qed

lemma set_pause_log:
  assumes "set_pause p a now h = Inr h'" and "sane p" and "house_ok p h"
  obtains ts where "log (audit h') = log (audit h) @ ts" and "\<forall>r \<in> set ts. free_event r"
proof (cases "\<not> pause_class (action_class a) \<or> home_paused h = ends_with ''pause_automation'' (action_class a)")
  case True
  with assms(1) that [of "[]"] show thesis by (auto simp: set_pause_def Let_def)
next
  case False
  let ?w = "ends_with ''pause_automation'' (action_class a)"
  from assms(1) False obtain n where w: "write_event p now (if ?w then AUTONOMY_PAUSED else AUTONOMY_RESUMED)
      (\<lambda>_. PDict [(''action_id'', PStr (action_id a))]) (h\<lparr>home_paused := ?w\<rparr>) = Inr (n, h')"
    by (auto simp: set_pause_def Let_def rbind_Inr_iff)
  have pd: "\<exists>d. (\<lambda>_. PDict [(''action_id'', PStr (action_id a))]) k = PDict d" for k :: int by simp
  have ok: "house_ok p (h\<lparr>home_paused := ?w\<rparr>)" using assms(3) by simp
  from write_event_safe(2) [OF assms(2) ok pd w] obtain r where "log (audit h') = log (audit h) @ [r]"
    and "stored r = (now, event_name (if ?w then AUTONOMY_PAUSED else AUTONOMY_RESUMED), PDict [(''action_id'', PStr (action_id a))])" by auto
  then show thesis by (intro that [of "[r]"]) (simp_all add: free_event_def stored_def pv_get_def dict_get_def split: if_split_asm)
qed

lemma grants_of_map: "grants_of h r = length (filter (\<lambda>(i, n). n = Some (r_seq r)) (grants h))"
  unfolding grants_of_def grants_def by (simp add: filter_map comp_def)

lemma length_filter_one:
  "distinct (map fst xs) \<Longrightarrow> (i, m) \<in> set xs \<Longrightarrow> (\<And>j k. (j, k) \<in> set xs \<Longrightarrow> k \<noteq> Some n) \<Longrightarrow>
     length (filter (\<lambda>(j, k). k = Some n) (map (\<lambda>(j, k). if j = i then (j, Some n) else (j, k)) xs)) = 1"
proof (induction xs)
  case (Cons x xs)
  obtain j k where x: "x = (j, k)" by force
  show ?case
  proof (cases "j = i")
    case True
    then have "i \<notin> fst ` set xs" using Cons.prems(1) by (simp add: x)
    then have "map (\<lambda>(j, k). if j = i then (j, Some n) else (j, k)) xs = xs" by (intro map_idI) force
    moreover have "filter (\<lambda>(j, k). k = Some n) xs = []"
      using Cons.prems(3) by (auto simp: filter_empty_conv)
    ultimately show ?thesis using True by (simp add: x)
  next
    case False
    with Cons.prems have d: "distinct (map fst xs)" "(i, m) \<in> set xs" and k: "k \<noteq> Some n" by (auto simp: x)
    have "length (filter (\<lambda>(j, k). k = Some n) (map (\<lambda>(j, k). if j = i then (j, Some n) else (j, k)) xs)) = 1"
      by (rule Cons.IH [OF d]) (use Cons.prems(3) in auto)
    with x False k show ?thesis by simp
  qed
qed simp

lemma length_filter_other:
  assumes "n \<noteq> s" and "\<And>k. (i, k) \<in> set xs \<Longrightarrow> k = None"
  shows "length (filter (\<lambda>(j, k). k = Some s) (map (\<lambda>(j, k). if j = i then (j, Some n) else (j, k)) xs)) =
    length (filter (\<lambda>(j, k). k = Some s) xs)"
  using assms(2)
proof (induction xs)
  case (Cons x xs)
  obtain j k where x: "x = (j, k)" by force
  from Cons have "length (filter (\<lambda>(j, k). k = Some s) (map (\<lambda>(j, k). if j = i then (j, Some n) else (j, k)) xs)) =
    length (filter (\<lambda>(j, k). k = Some s) xs)" by simp
  moreover have "j = i \<Longrightarrow> k = None" using Cons.prems [of k] by (simp add: x)
  ultimately show ?case using assms(1) by (simp add: x)
qed simp

text \<open>
  A grant adds exactly its reserved amount, to the class and day of its budget.
\<close>

lemma grants_distinct: "house_ok p h \<Longrightarrow> distinct (map fst (grants h))"
  by (simp add: house_ok_def grants_def comp_def)

lemma grants_bound: "house_ok p h \<Longrightarrow> (j, Some k) \<in> set (grants h) \<Longrightarrow> k \<le> int (length (log (audit h)))"
  unfolding grants_def using rows_ok by (fastforce simp: row_ok_def)

lemma log_bound: "house_ok p h \<Longrightarrow> r \<in> set (log (audit h)) \<Longrightarrow> r_seq r \<le> int (length (log (audit h)))"
proof -
  assume "house_ok p h" "r \<in> set (log (audit h))"
  then have "map r_seq (log (audit h)) = map (\<lambda>i. 1 + int i) [0 ..< length (log (audit h))]"
    using chain_seqs by (auto simp: house_ok_def audit_ok_def)
  with \<open>r \<in> set _\<close> have "r_seq r \<in> (\<lambda>i. 1 + int i) ` {0 ..< length (log (audit h))}" by (metis image_eqI list.set_map set_upt)
  then show ?thesis by auto
qed

lemma grant_usage:
  assumes "sane p" and "house_ok p h" and "grant p ev a pr cost apr now h = Inr (ev', h')" and "\<not> committed_class (action_class a)"
    and "find_action h (action_id a) = Some x" and "grant_seq x = None"
    and "d_event (ev_decision ev) = EXECUTE" and b: "d_budget (ev_decision ev) = Some b"
    and apr: "\<And>y. apr = Some y \<Longrightarrow> y \<in> set (approvals h) \<and> ap_action_id y = action_id a \<and> open_status (ap_status y)"
  shows "dec_rat (usage h' (bud_class b) (local_date b)) =
      dec_rat (usage h (bud_class b) (local_date b)) + dec_rat (case cost of None \<Rightarrow> Dec 0 0 | Some c \<Rightarrow> c)"
  using assms(3,4)
proof (rule grant_Inr)
  fix d1 :: decision and h1 h3
  let ?h2 = "update_action (action_id a) (\<lambda>x. x\<lparr>grant_seq := audit_id d1\<rparr>) h1"
  let ?h5 = "update_action (action_id a) (\<lambda>x. x\<lparr>ar_lifecycle := map_option (\<lambda>lc. lc\<lparr>lc_decision := d1\<rparr>) (ar_lifecycle x)\<rparr>) h3"
  assume r: "record_decision p (reserving (ev_decision ev) cost) (Some (ev_action ev)) (ev_diagnostics ev) now h = Inr (d1, h1)"
    and h3: "h3 = (case apr of None \<Rightarrow> ?h2 | Some x \<Rightarrow> set_status (approval_id x) Redeemed ?h2)"
    and sp: "set_pause p a now ?h5 = Inr h'" and ev': "ev' = ev\<lparr>ev_decision := d1\<rparr>"
  obtain rs g where l1: "log (audit h1) = log (audit h) @ rs @ [g]" and rs: "\<forall>r \<in> set rs. free_event r"
    and g: "r_event g = event_name (d_event (reserving (ev_decision ev) cost))" "r_payload g = decision_dump d1"
    and n: "audit_id d1 = Some (r_seq g)" and len: "r_seq g = int (length (log (audit h1)))"
    by (rule record_decision_log [OF r assms(1,2)])
  have "safe p h h3" by (rule grant_stage_safe [OF assms(1,2) r h3 assms(5,6) apr])
  moreover from this have "safe p h3 ?h5" by (intro update_other_safe) (simp_all add: safe_def)
  ultimately have "safe p h ?h5" by (rule safe_trans)
  then have ok5: "house_ok p ?h5" by (simp add: safe_def)
  obtain ts where ts: "log (audit h') = log (audit ?h5) @ ts" "\<forall>r \<in> set ts. free_event r"
    by (rule set_pause_log [OF sp assms(1) ok5])
  have "audit ?h5 = audit h1" by (simp add: h3 split: option.split)
  with ts(1) l1 have l: "log (audit h') = log (audit h) @ rs @ [g] @ ts" by simp
  obtain m where m: "audit_id (ev_decision ev') = Some m"
    and rows: "grants h' = map (\<lambda>(j, k). if j = action_id a then (j, Some m) else (j, k)) (grants h)"
    using grant_rows [OF assms(3,4)] by blast
  have mg: "m = r_seq g" using m n ev' by simp
  have big: "int (length (log (audit h))) < r_seq g" using len l1 by simp
  have old: "k \<noteq> Some (r_seq g)" if "(j, k) \<in> set (grants h)" for j k
    using grants_bound [OF assms(2)] that big by (cases k) fastforce+
  have free: "(action_id a, None) \<in> set (grants h)"
    using find_action_Some [OF assms(5)] assms(6) by (force simp: grants_def)
  from length_filter_one [OF grants_distinct [OF assms(2)] free old]
  have one: "grants_of h' g = 1" unfolding grants_of_map rows mg .
  have same: "grants_of h' r = grants_of h r" if "r \<in> set (log (audit h))" for r :: audit_row
    unfolding grants_of_map rows
  proof (rule length_filter_other)
    show "m \<noteq> r_seq r" using log_bound [OF assms(2) that] big mg by simp
    show "k = None" if "(action_id a, k) \<in> set (grants h)" for k
      using that free grants_distinct [OF assms(2)] by (metis eq_key_imp_eq_value)
  qed
  have bd: "d_budget d1 = Some (b\<lparr>reserved := (case cost of None \<Rightarrow> Dec 0 0 | Some c \<Rightarrow> c)\<rparr>)"
    using record_decision_frame(5) [OF r] b by (simp add: reserving_def)
  have am: "event_amounts h' (bud_class b) (local_date b) g = [case cost of None \<Rightarrow> Dec 0 0 | Some c \<Rightarrow> c]"
    unfolding event_amounts_def g(2) decision_dump_budget bd opt_pv_def option.case one
    by (simp add: budget_dump_about budget_dump_reserved)
  have ne: "r_event g \<noteq> ''RESERVATION_ADJUSTED''" using g(1) assms(7) by (simp add: reserving_def split: option.split)
  have fr: "\<forall>r \<in> set (rs @ ts). free_event r" using rs ts(2) by auto
  from usage_extended [OF l fr same ne, of "bud_class b" "local_date b"]
  show ?thesis unfolding am by (simp only: dec_sum_Cons dec_sum_Nil add_0_right)
qed

lemma grant_budget:
  assumes "grant p ev a pr cost apr now h = Inr (ev', h')" and "\<not> committed_class (action_class a)"
  shows "d_budget (ev_decision ev') = d_budget (reserving (ev_decision ev) cost)"
  using assms
proof (rule grant_Inr)
  fix d1 :: decision and h1 h3
  assume "record_decision p (reserving (ev_decision ev) cost) (Some (ev_action ev)) (ev_diagnostics ev) now h = Inr (d1, h1)"
    and "ev' = ev\<lparr>ev_decision := d1\<rparr>"
  with record_decision_frame(5) [OF this(1)] show ?thesis by simp
qed

text \<open>The row that a grant marks.\<close>

lemma granted_row:
  assumes "grant p ev a pr cost apr now h = Inr (ev', h')" and "\<not> committed_class (action_class a)" and "house_ok p h"
    and "\<not> granted h (action_id a)" and "granted h' (action_id a)"
  obtains x where "find_action h (action_id a) = Some x" and "grant_seq x = None"
proof -
  from grant_rows [OF assms(1,2)] obtain n where
    g: "grants h' = map (\<lambda>(j, m). if j = action_id a then (j, Some n) else (j, m)) (grants h)" by blast
  have "fst ` set (grants h') = fst ` set (grants h)" unfolding g by force
  moreover have "action_id a \<in> fst ` set (grants h')" using assms(5) by (force simp: granted_grants)
  ultimately have "action_id a \<in> fst ` set (grants h)" by simp
  then obtain x where x: "x \<in> set (actions h)" "action_id (proposal x) = action_id a" by (auto simp: grants_def)
  with assms(4) have "grant_seq x = None" unfolding granted_def by blast
  moreover have "find_action h (action_id a) = Some x" using find_action_unique [OF assms(3) x(1)] x(2) by simp
  ultimately show thesis by (rule that [rotated])
qed

text \<open>
  C6: the day's cap holds at every grant. When a request grants an action and the recorded decision
  carries a budget, the cost is known, the account of that class and day has grown by exactly the
  cost, and it is still within the cap.
\<close>

theorem granted_within_budget:
  assumes "sane p" and "house_ok p h" and "\<not> committed_class (action_class (c_action c))"
    and "mutate p c h = Inr (Decided d, h')" and "\<not> granted h i" and "granted h' i" and "d_budget d = Some b"
  shows "bud_class b = action_class (c_action c) \<and>
    (\<exists>cost. c_cost c = Some cost \<and> reserved b = cost \<and>
       dec_rat (usage h' (bud_class b) (local_date b)) = dec_rat (usage h (bud_class b) (local_date b)) + dec_rat cost \<and>
       dec_rat (usage h' (bud_class b) (local_date b)) \<le> cap_rat (cap b))"
proof (rule authority_of_grant [OF assms(1-3) mutate_Inr [OF assms(4)] assms(5,6)])
  fix a ev ev1 ev2 approved_at voter h1
  assume i: "i = action_id (c_action c)" and a: "a \<in> {c_action c, reload (c_action c)}"
    and as: "assess_operation (H p) (secs p) (desk_of p h) a (caller c) (c_cost c) (c_evidence c) (c_now c) None
         (bound_press c (presented c h)) = Inr ev"
    and sa: "sanctioned p h (c_action c) (caller c) (c_cost c) (c_now c) ev (presented c h) voter approved_at"
    and bc: "boundary_check p h ev (c_now c) approved_at voter = Inr ev1" and k1: "d_kind (ev_decision ev1) = Kexecute"
    and al: "alike h h1" and ok1: "house_ok p h1" and ng: "\<not> granted h1 i"
    and gr: "grant p ev1 (c_action c) (caller c) (c_cost c) (presented c h) (c_now c) h1 = Inr (ev2, h')"
    and d: "Decided d = Decided (ev_decision ev2)"
  have k: "d_kind (ev_decision ev) \<in> {Kexecute, Kask}" using sa by (auto simp: sanctioned_def split: option.split_asm)
  have e1: "d_event (ev_decision ev1) = EXECUTE"
    using boundary_check_frame [OF bc] k1 by (auto simp: coherent_def kind_of_event_def)
  have same_b: "d_budget (ev_decision ev1) = d_budget (ev_decision ev)" using boundary_check_frame [OF bc] by simp
  from assms(7) d grant_budget [OF gr assms(3)] obtain b0 where b0: "d_budget (ev_decision ev1) = Some b0"
    and b: "b = b0\<lparr>reserved := (case c_cost c of None \<Rightarrow> Dec 0 0 | Some c \<Rightarrow> c)\<rparr>"
    by (auto simp: reserving_def split: option.split_asm)
  note ab = assess_operation_budget [OF as k b0 [unfolded same_b]]
  have "action_class a = action_class (c_action c)" using a by auto
  with ab have cls: "bud_class b = action_class (c_action c)" by (simp add: b)
  from ab obtain cost where cost: "c_cost c = Some cost"
    and cap: "dec_rat (dec_add (usage h (bud_class b) (local_date b)) cost) \<le> cap_rat (cap b)"
    by (auto simp: within_budget_def b desk_of_def)
  obtain x where x: "find_action h1 (action_id (c_action c)) = Some x" "grant_seq x = None"
    using granted_row [OF gr assms(3) ok1 ng [unfolded i] assms(6) [unfolded i]] .
  have apr: "y \<in> set (approvals h1) \<and> ap_action_id y = action_id (c_action c) \<and> open_status (ap_status y)"
    if "presented c h = Some y" for y
    using presented_Some [OF that] sa that by (simp add: sanctioned_def approves_def alikeD(1) [OF al])
  from grant_usage [OF assms(1) ok1 gr assms(3) x e1 b0 apr]
  have "dec_rat (usage h' (bud_class b) (local_date b)) = dec_rat (usage h (bud_class b) (local_date b)) + dec_rat cost"
    by (simp add: b cost alike_usage [OF al])
  with cls cap cost show ?thesis by (simp add: b dec_rat_add)
qed

section \<open>On the sample household\<close>

theorem granted_within_budget_witness:
  "\<exists>d b h'. mutate lamp_plant lamp_call lamp_house = Inr (Decided d, h') \<and> d_budget d = Some b \<and>
     dec_rat (usage h' (bud_class b) (local_date b)) \<le> cap_rat (cap b)"
proof (rule lamp_runE)
  fix d b h1 sq h2
  assume m: "mutate lamp_plant lamp_call lamp_house = Inr (Decided d, h1)" and b: "d_budget d = Some b" and g: "granted h1 ''a3''"
  have n: "\<not> granted lamp_house ''a3''" by (simp add: granted_def lamp_house_new)
  have c: "\<not> committed_class (action_class (c_action lamp_call))" unfolding lamp_call_simps by (rule lamp_class(1))
  from granted_within_budget [OF lamp_plant_sane lamp_house_ok c m n g b] m b show ?thesis by blast
qed

end
