(* ===== verification/Consent.thy ===== *)
theory Consent
  imports Authority Resolution
begin

text \<open>
  What a person must have said. A class with a risk floor, and anything but governance while the home
  is paused, is granted only on an approval that the votes satisfy; for security actions these are
  passkey votes over the exact hash. This joins the constitution's validator, rule resolution,
  assessment, votes and grants.
\<close>

section \<open>Assessments that cannot execute by themselves\<close>

lemma merge_ending_execute:
  "d_kind (ev_decision (merge_ending ev other)) = Kexecute \<Longrightarrow> d_kind (ev_decision ev) \<in> {Kexecute, Kask} \<Longrightarrow>
     d_kind (ev_decision ev) = Kexecute \<or> stricter (ev_decision other) (ev_decision ev) \<and> d_event (ev_decision other) = EXECUTE"
  by (auto simp: merge_ending_kind split: if_split_asm)

lemma assess_operation_execute:
  assumes "assess_operation Hf sf k a pr cost evs now preview bound = Inr ev" and "d_kind (ev_decision ev) = Kexecute"
  obtains ev1 where "assess k a pr cost evs now preview bound = Inr ev1" and "d_kind (ev_decision ev1) = Kexecute"
proof -
  from assms(1) [unfolded assess_operation_def] obtain ev1 where ev1: "assess k a pr cost evs now preview bound = Inr ev1"
    and r: "ev = ev1 \<or> d_kind (ev_decision ev1) \<in> {Kexecute, Kask} \<and>
      (\<exists>fin pr2 other. assess k fin pr2 (Some (Dec 0 0)) evs now preview None = Inr other \<and> ev = merge_ending ev1 other)"
    by (elim rbind_InrE) (auto elim!: rbind_InrE split: if_split_asm)
  from r have "d_kind (ev_decision ev1) = Kexecute"
  proof (elim disjE conjE exE)
    fix fin pr2 other
    assume o: "d_kind (ev_decision ev1) \<in> {Kexecute, Kask}" "assess k fin pr2 (Some (Dec 0 0)) evs now preview None = Inr other"
      "ev = merge_ending ev1 other"
    have "\<not> (stricter (ev_decision other) (ev_decision ev1) \<and> d_event (ev_decision other) = EXECUTE)"
      using assess_coherent [OF o(2)] by (auto simp: stricter_def coherent_def kind_of_event_def)
    with merge_ending_execute [of ev1 other] assms(2) o(1,3) show ?thesis by blast
  qed (use assms(2) in simp)
  with ev1 show thesis by (rule that)
qed

text \<open>A class with a floor, under a validated constitution.\<close>

lemma floored_not_executed:
  assumes "assess k a0 pr cost evs now preview bound = Inr ev" and "map_of CLASSES (action_class a0) = Some pc" and "floor_outcome (band pc) \<noteq> Floor_none"
    and "valid_constitution fr (policy k)" and "fr \<le> frames k" and "40 \<le> frames k"
  shows "d_kind (ev_decision ev) \<noteq> Kexecute"
proof
  assume e: "d_kind (ev_decision ev) = Kexecute"
  then have o: "d_kind (ev_decision ev) \<in> {Kexecute, Kask}" by simp
  from open_sound [OF assms(1) o] show False
  proof (elim exE conjE)
  fix rq a1 f
  assume a1: "a1 = a0\<lparr>requested_by := rq\<rparr>"
    and m: "mapM (\<lambda>r. resolve (frames k) (policy k) (with_role a1 r) (f_policy f) False) (role_variants rq pr) = Inr (outcomes ev)"
  note ex = iffD1 [OF execute_exactly [OF assms(1)] e]
  have auto: "outcomes ev \<noteq> []" "\<forall>out \<in> set (outcomes ev). effective_mode out = Auto"
    by (rule conjunct1 [OF ex], rule conjunct1 [OF conjunct2 [OF ex]])
  have len: "length (outcomes ev) = length (role_variants rq pr)" using mapM_Inr_length [OF m] by simp
  let ?a = "with_role a1 (role_variants rq pr ! 0)"
  have r: "resolve (frames k) (policy k) ?a (f_policy f) False = Inr (outcomes ev ! 0)"
    using mapM_Inr_nth [OF m, of 0] auto(1) len by simp
  then obtain vs where vs: "policy_values ?a (f_policy f) = Inr vs" unfolding resolve_def Let_def by (elim rbind_InrE)
  have c: "map_of CLASSES (action_class ?a) = Some pc" using assms(2) by (simp add: with_role_def a1)
  from floored_never_auto [OF assms(4-6) c assms(3) vs, of False] r have "effective_mode (outcomes ev ! 0) \<noteq> Auto" by auto
  with auto len show False by (simp add: nth_mem)
  qed
qed

text \<open>The pause of the home is in every assessment's facts.\<close>

lemma assess_facts_paused:
  assumes "assess_facts k ev a pr rq f u cost day = Inr ev'"
  shows "\<exists>f'. ev_facts ev' = Some f' \<and> paused f' = paused f"
  using assms by (auto simp: assess_facts_def Let_def rbind_Inr_iff split: if_split_asm)

lemma read_facts_paused:
  assumes "read_facts k ev a pr rq cost evs now bound None = Inr ev'" and "ev_facts ev = None" and "ev_facts ev' = Some f"
    and "\<And>t sn. take_snapshot k t = Inr sn \<Longrightarrow> autonomy_paused sn = b"
  shows "paused f = b"
proof -
  from assms(1) obtain sn0 where sn: "take_snapshot k (min now (clock_first k)) = Inr sn0"
    and r: "(let sn = (if now > clock_second k then sn0\<lparr>s_as_of := now, observations := []\<rparr> else sn0);
         day = local_day k sn now; u = usage_of k (action_class a) day in
     case rbind (lift (budget_scope k a)) (\<lambda>required_assets.
            extract_facts (frames k) (tz k) sn (policy k) a evs u bound required_assets) of
       Inl e \<Rightarrow> context_refusal ev e
     | Inr f \<Rightarrow> assess_facts k ev a pr rq f u cost day) = Inr ev'"
    by (auto simp: read_facts_def elim!: rbind_InrE)
  define sn1 where "sn1 = (if now > clock_second k then sn0\<lparr>s_as_of := now, observations := []\<rparr> else sn0)"
  have p: "autonomy_paused sn1 = b" using assms(4) [OF sn] by (simp add: sn1_def)
  let ?e = "\<lambda>q. extract_facts (frames k) (tz k) sn1 (policy k) a evs (usage_of k (action_class a) (local_day k sn1 now)) bound q"
  show ?thesis
  proof (cases "rbind (lift (budget_scope k a)) ?e")
    case (Inl e)
    with r have "context_refusal ev e = Inr ev'" by (simp add: Let_def sn1_def [symmetric])
    with assms(2,3) show ?thesis by (auto simp: context_refusal_def split: context_exn.splits if_split_asm)
  next
    case (Inr g)
    with r have a: "assess_facts k ev a pr rq g (usage_of k (action_class a) (local_day k sn1 now)) cost (local_day k sn1 now) = Inr ev'"
      by (simp add: Let_def sn1_def [symmetric])
    from Inr obtain q where "?e q = Inr g" by (rule rbind_InrE)
    then have "paused g = autonomy_paused sn1" by (rule extract_Inr)
    with assess_facts_paused [OF a] assms(3) p show ?thesis by simp
  qed
qed

lemma assess_paused:
  assumes "assess k a0 pr cost evs now None bound = Inr ev" and "ev_facts ev = Some f"
    and "\<And>t sn. take_snapshot k t = Inr sn \<Longrightarrow> autonomy_paused sn = b"
  shows "paused f = b"
proof -
  from assms(1) obtain rq where "(let a = a0\<lparr>requested_by := rq\<rparr>; ev = initial_evaluation (policy k) a in
     if \<not> active_policy k a then Inr ev
     else
       rbind (run_preparations (preparations k a pr now)) (\<lambda>refusal.
       case refusal of
         Some why \<Rightarrow> Inr (ev\<lparr>ev_decision := (ev_decision ev)\<lparr>rejected := why\<rparr>\<rparr>)
       | None \<Rightarrow>
           (case preview_snapshot k now None evs of
              Inl e \<Rightarrow> if value_error e then Inr (ev\<lparr>ev_diagnostics := [''context'']\<rparr>) else Inl e
            | Inr (previewed, evs') \<Rightarrow>
                rbind (never_for_some (policy k) (action_class a) (role_variants rq pr)) (\<lambda>never.
                  if never then Inr ev
                  else read_facts k ev a pr rq cost evs' now bound previewed)))) = Inr ev"
    unfolding assess_def by (rule rbind_InrE)
  with assms(2) have "read_facts k (initial_evaluation (policy k) (a0\<lparr>requested_by := rq\<rparr>)) (a0\<lparr>requested_by := rq\<rparr>) pr rq cost evs now bound None = Inr ev"
    by (auto simp: Let_def preview_snapshot_def rbind_Inr_iff split: if_split_asm option.split_asm)
  then show ?thesis by (rule read_facts_paused [OF _ _ assms(2,3)]) simp_all
qed

lemma desk_simps [simp]: "frames (desk_of p h) = frames (base_desk p)" "policy (desk_of p h) = policy (base_desk p)"
  "take_snapshot (desk_of p h) = house_snapshot p h"
  by (simp_all add: desk_of_def)

lemma snapshot_paused: "house_snapshot p h t = Inr sn \<Longrightarrow> autonomy_paused sn = home_paused h"
  by (auto simp: house_snapshot_def rbind_Inr_iff)

text \<open>An assessment of a stored action that stands on a vote rather than on itself.\<close>

lemma reload_class: "b \<in> {a, reload a} \<Longrightarrow> action_class b = action_class a"
  by (auto simp: reload_def)

lemma paused_asks:
  assumes "home_paused h" and "\<not> governance_class (action_class a)"
    and "assess_operation Hf sf (desk_of p h) a pr cost evs now None bound = Inr ev"
  shows "d_kind (ev_decision ev) \<noteq> Kexecute"
proof
  assume "d_kind (ev_decision ev) = Kexecute"
  with assms(3) obtain ev1 where a: "assess (desk_of p h) a pr cost evs now None bound = Inr ev1"
    and e: "d_kind (ev_decision ev1) = Kexecute"
    by (rule assess_operation_execute)
  from iffD1 [OF execute_exactly [OF a] e] show False
  proof (elim conjE exE disjE)
    assume "governance_class (action_class a)"
    with assms(2) show False ..
  next
    fix f assume "ev_facts ev1 = Some f" "\<not> paused f"
    with assess_paused [OF a, of f True] snapshot_paused [of p h] assms(1) show False by simp
  qed
qed

text \<open>
  C8: a paused home never acts alone. While automation is paused, no assessment of an action outside
  governance executes by itself, whoever asks and whatever the constitution says.
\<close>

theorem paused_home_asks:
  assumes "home_paused h" and "\<not> governance_class (action_class a)"
    and "assess_operation Hf sf (desk_of p h) a pr cost evs now None bound = Inr ev"
  shows "d_kind (ev_decision ev) \<noteq> Kexecute"
  using assms by (rule paused_asks)

section \<open>Consent\<close>

lemma merge_ending_simps [simp]:
  "ev_action (merge_ending ev other) = ev_action ev" "outcomes (merge_ending ev other) = outcomes ev"
  by (simp_all add: merge_ending_def Let_def conclude_def)

text \<open>An open assessment is about the action it was asked for, and its first outcome is a resolution of the rule.\<close>

lemma assess_open_first:
  assumes "assess k a0 pr cost evs now preview bound = Inr ev" and "d_kind (ev_decision ev) \<in> {Kexecute, Kask}"
    and "outcomes ev \<noteq> []"
  shows "\<exists>rq. ev_action ev = a0\<lparr>requested_by := rq\<rparr> \<and>
    (\<exists>r fs. resolve (frames k) (policy k) (with_role (ev_action ev) r) fs False = Inr (hd (outcomes ev)))"
  using open_sound [OF assms(1,2)]
proof (elim exE conjE)
  fix rq a f
  assume a: "a = a0\<lparr>requested_by := rq\<rparr>" "ev_action ev = a"
    and m: "mapM (\<lambda>r. resolve (frames k) (policy k) (with_role a r) (f_policy f) False) (role_variants rq pr) = Inr (outcomes ev)"
  from mapM_Inr_nth [OF m, of 0] mapM_Inr_length [OF m] assms(3)
  have "resolve (frames k) (policy k) (with_role a (role_variants rq pr ! 0)) (f_policy f) False = Inr (hd (outcomes ev))"
    by (simp add: hd_conv_nth)
  with a show ?thesis by (intro exI [of _ rq] conjI exI [of _ "role_variants rq pr ! 0"] exI [of _ "f_policy f"]) simp_all
qed

lemma assess_operation_first:
  assumes "assess_operation Hf sf k a pr cost evs now preview bound = Inr ev" and "d_kind (ev_decision ev) \<in> {Kexecute, Kask}"
    and "outcomes ev \<noteq> []"
  shows "\<exists>rq. ev_action ev = a\<lparr>requested_by := rq\<rparr> \<and>
    (\<exists>r fs. resolve (frames k) (policy k) (with_role (ev_action ev) r) fs False = Inr (hd (outcomes ev)))"
proof -
  from assms(1) [unfolded assess_operation_def] obtain ev1 where ev1: "assess k a pr cost evs now preview bound = Inr ev1"
    and r: "ev = ev1 \<or> d_kind (ev_decision ev1) \<in> {Kexecute, Kask} \<and> (\<exists>other. ev = merge_ending ev1 other)"
    by (elim rbind_InrE) (auto elim!: rbind_InrE split: if_split_asm)
  then have eqs: "ev_action ev = ev_action ev1" "outcomes ev = outcomes ev1" and o: "d_kind (ev_decision ev1) \<in> {Kexecute, Kask}"
    using assms(2) by auto
  show ?thesis unfolding eqs by (rule assess_open_first [OF ev1 o]) (use assms(3) eqs in simp)
qed

text \<open>
  C2: risky actions need a person. Under a validated constitution, an action of a class with a risk
  floor, and any action outside governance while the home is paused, is granted only on a presented
  approval of that action, open and unexpired, that carries a stored accepting vote: cast by a present
  owner, adult or caregiver, through an account that still resolves to that member and whose
  credential stands, and for a security class from the app with a passkey over exactly the hash of
  the granted action.
\<close>

theorem risky_grant_needs_consent:
  assumes "sane p" and "house_ok p h" and "\<not> committed_class (action_class (c_action c))"
    and "mutate p c h = Inr (r, h')" and "\<not> granted h i" and "granted h' i"
    and "valid_constitution fr (policy (base_desk p))" and "fr \<le> frames (base_desk p)" and "40 \<le> frames (base_desk p)"
    and "map_of CLASSES (action_class (c_action c)) = Some pc"
    and "floor_outcome (band pc) \<noteq> Floor_none \<or> home_paused h \<and> \<not> governance_class (action_class (c_action c))"
  shows "\<exists>x v ro m. presented c h = Some x \<and> ap_action_id x = i \<and> open_status (ap_status x) \<and>
    c_now c < expires_at x \<and> c_later c < expires_at x \<and>
    v \<in> set (votes h) \<and> v_approval_id v = approval_id x \<and> v_approved v \<and>
    (v_member_id v, ro) \<in> set (roster h) \<and> ro \<in> {Owner, Adult, Caregiver} \<and>
    resolve_member h (v_principal v) = Inr m \<and> member_id m = Some (v_member_id v) \<and>
    credential_current h (v_principal v) = Inr True \<and>
    (security_class (action_class (c_action c)) \<longrightarrow> p_surface (v_principal v) = App \<and> passkey_verified (v_principal v) \<and>
       verified_action_hash (v_principal v) = Some (content_hash (c_action c)))"
  using assms(1-3) mutate_Inr [OF assms(4)] assms(5,6)
proof (rule authority_of_grant)
  fix a ev ev1 voter approved_at
  let ?k = "desk_of p h"
  assume i: "i = action_id (c_action c)" and a: "a \<in> {c_action c, reload (c_action c)}"
    and ev: "assess_operation (H p) (secs p) ?k a (caller c) (c_cost c) (c_evidence c) (c_now c) None
           (bound_press c (presented c h)) = Inr ev"
    and sa: "sanctioned p h (c_action c) (caller c) (c_cost c) (c_now c) ev (presented c h) voter approved_at"
    and late: "\<And>x. presented c h = Some x \<Longrightarrow> c_later c < expires_at x"
  have cls: "action_class a = action_class (c_action c)" "content_hash a = content_hash (c_action c)" using a by (auto simp: reload_def)
  have "d_kind (ev_decision ev) \<noteq> Kexecute"
  proof (cases "home_paused h \<and> \<not> governance_class (action_class (c_action c))")
    case True
    with cls show ?thesis by (intro paused_asks [OF _ _ ev]) simp_all
  next
    case False
    with assms(11) have fl: "floor_outcome (band pc) \<noteq> Floor_none" by blast
    show ?thesis
    proof
      assume "d_kind (ev_decision ev) = Kexecute"
      with ev obtain ev2 where e2: "assess ?k a (caller c) (c_cost c) (c_evidence c) (c_now c) None (bound_press c (presented c h)) = Inr ev2"
        and "d_kind (ev_decision ev2) = Kexecute" by (rule assess_operation_execute)
      moreover have "d_kind (ev_decision ev2) \<noteq> Kexecute"
        by (rule floored_not_executed [OF e2 _ fl]) (use assms(7-10) cls in simp_all)
      ultimately show False by simp
    qed
  qed
  with sa obtain x where x: "presented c h = Some x" and k: "d_kind (ev_decision ev) \<in> {Kexecute, Kask}"
    and ap: "approves p h (c_action c) (caller c) (c_cost c) (c_now c) ev x voter approved_at"
    by (auto simp: sanctioned_def split: option.split_asm)
  from ap have ap1: "ap_action_id x = i" "open_status (ap_status x)" "c_now c < expires_at x"
    and vs: "eligible_votes h (approval_id x) ev = Inr (True, voter, approved_at)" by (simp_all add: approves_def i)
  from satisfied_consent [OF vs] show ?thesis
  proof (elim exE conjE)
    fix out counted
    assume out: "outcomes ev \<noteq> []" "out = hd (outcomes ev)" and ne: "counted \<noteq> {}"
      and cs: "counted = {v \<in> set (votes h). v_approval_id v = approval_id x \<and> vote_counts h (ev_action ev) out v = Inr True}"
      and each: "\<forall>v \<in> counted. v_approved v \<and> (\<exists>r \<in> set (approver_roles (approval out)). (v_member_id v, r) \<in> set (roster h)) \<and>
       (\<exists>m. resolve_member h (v_principal v) = Inr m \<and> member_id m = Some (v_member_id v)) \<and>
       credential_current h (v_principal v) = Inr True \<and>
       (security_class (action_class (ev_action ev)) \<longrightarrow> p_surface (v_principal v) = App \<and> passkey_verified (v_principal v) \<and>
          verified_action_hash (v_principal v) = Some (content_hash (ev_action ev)))"
    obtain v where v: "v \<in> counted" using ne by blast
    from assess_operation_first [OF ev k out(1)] obtain rq r2 fs where ea: "ev_action ev = a\<lparr>requested_by := rq\<rparr>"
      and rs: "resolve (frames ?k) (policy ?k) (with_role (ev_action ev) r2) fs False = Inr out"
      unfolding out(2) by blast
    have eacls: "action_class (ev_action ev) = action_class (c_action c)" "content_hash (ev_action ev) = content_hash (c_action c)"
      using cls by (simp_all add: ea)
    from rs obtain vals where vals: "policy_values (with_role (ev_action ev) r2) fs = Inr vals"
      unfolding resolve_def Let_def by (elim rbind_InrE)
    have cn: "action_class (with_role (ev_action ev) r2) \<in> set class_names"
      using assms(10) eacls by (force simp: class_names_def with_role_def dest: map_of_SomeD)
    have adults: "set (approver_roles (approval out)) \<subseteq> {Owner, Adult, Caregiver}"
      using approval_safe [OF assms(7-9) cn vals, of False] rs by auto
    from each v obtain ro m where ro: "ro \<in> set (approver_roles (approval out))" "(v_member_id v, ro) \<in> set (roster h)"
      and m: "resolve_member h (v_principal v) = Inr m" "member_id m = Some (v_member_id v)" by blast
    from v cs have vv: "v \<in> set (votes h)" "v_approval_id v = approval_id x" by simp_all
    from each v have rest: "v_approved v" "credential_current h (v_principal v) = Inr True"
      "security_class (action_class (c_action c)) \<longrightarrow> p_surface (v_principal v) = App \<and> passkey_verified (v_principal v) \<and>
          verified_action_hash (v_principal v) = Some (content_hash (c_action c))" unfolding eacls [symmetric] by blast+
    show ?thesis
      by (intro exI [of _ x] exI [of _ v] exI [of _ ro] exI [of _ m] conjI x ap1 vv rest ro(2) m late [OF x] subsetD [OF adults ro(1)])
  qed
qed

section \<open>On the sample household\<close>

theorem paused_home_asks_witness:
  "\<exists>ev. assess_operation demo_H sample_secs (desk_of lamp_plant paused_house) lamp_request app_user None [] 1791930900000000 None None = Inr ev \<and>
     d_kind (ev_decision ev) \<noteq> Kexecute"
proof -
  let ?e = "assess_operation demo_H sample_secs (desk_of lamp_plant paused_house) lamp_request app_user None [] 1791930900000000 None None"
  have "case ?e of Inr _ \<Rightarrow> True | Inl _ \<Rightarrow> False" by code_simp
  then obtain ev where e: "?e = Inr ev" by (cases ?e) auto
  have "home_paused paused_house" "\<not> governance_class (action_class lamp_request)"
    by (simp add: paused_house_def) (unfold lamp_class, code_simp)
  from paused_home_asks [OF this e] e show ?thesis by blast
qed

theorem risky_grant_needs_consent_witness:
  "\<exists>h r h' v. mutate demo_plant answer_call h = Inr (r, h') \<and> home_paused h \<and> granted h' ''a3'' \<and>
     v \<in> set (votes h) \<and> v_approved v"
proof (rule paused_runE)
  fix d h0 r h1
  assume v: "vote demo_plant ''apr_0'' app_user True 1791930900000000 paused_house = Inr (d, h0)"
    and hp: "home_paused h0" and m: "mutate demo_plant answer_call h0 = Inr (r, h1)" and g: "granted h1 ''a3''" "\<not> granted h0 ''a3''"
  have ok: "house_ok demo_plant h0"
    using vote_safe [OF demo_plant_sane paused_house_ok, of "''apr_0''" app_user True 1791930900000000 d h0] v by (simp add: vote_def safe_def)
  have c: "\<not> committed_class (action_class (c_action answer_call))" unfolding lamp_call_simps by (rule lamp_class(1))
  have k: "policy (base_desk demo_plant) = quinn_home" "frames (base_desk demo_plant) = 40"
    by (simp_all add: demo_plant_def lamp_desk_def)
  have pc: "map_of CLASSES (action_class (c_action answer_call)) = Some (the (map_of CLASSES ''environment.lights''))" by code_simp
  have ng: "\<not> governance_class (action_class lamp_request)" by code_simp
  have "home_paused h0 \<and> \<not> governance_class (action_class (c_action answer_call))" using hp ng unfolding lamp_call_simps by (rule conjI)
  then have fl: "floor_outcome (band (the (map_of CLASSES ''environment.lights''))) \<noteq> Floor_none \<or>
    home_paused h0 \<and> \<not> governance_class (action_class (c_action answer_call))" by (rule disjI2)
  from risky_grant_needs_consent [OF demo_plant_sane ok c m g(2,1) quinn_home_valid [folded k(1)] _ _ pc fl] k m hp g show ?thesis by auto
qed

end
