(* ===== verification/Floats.thy ===== *)
theory Floats
  imports Contracts
begin

text \<open>
  \<open>round(x, 4)\<close> of a double, as \<open>hirz/graph/models.py\<close> uses it. A finite float of the model is the decimal that its \<open>repr\<close>
  spells; the double itself is \<open>double_of\<close> of that decimal. \<open>double_of_digits\<close>: the four digits of a double below 2^50 that
  four digits spell spell that double.
\<close>

section \<open>Rounding to an integer\<close>

lemma round_even_near: "\<bar>x - of_int (round_even x)\<bar> \<le> 1 / 2"
proof -
  define f where "f = (of_int \<lfloor>x\<rfloor> :: rat)"
  have "f \<le> x" "x < f + 1" unfolding f_def by linarith+
  then show ?thesis unfolding round_even_def Let_def f_def [symmetric]
    by (simp add: abs_if flip: f_def)
qed

lemma round_even_unique: "\<bar>x - of_int m\<bar> < 1 / 2 \<Longrightarrow> round_even x = m"
proof -
  assume "\<bar>x - of_int m\<bar> < 1 / 2"
  with round_even_near [of x] have "\<bar>of_int (round_even x) - of_int m :: rat\<bar> < 1" by linarith
  then have "\<bar>of_int (round_even x - m) :: rat\<bar> < of_int 1" by simp
  then have "\<bar>round_even x - m\<bar> < 1" by (simp only: of_int_abs [symmetric] of_int_less_iff)
  then show ?thesis by simp
qed

lemma round_even_of_int [simp]: "round_even (of_int m) = m"
  by (rule round_even_unique) simp

section \<open>The nearest double\<close>

text \<open>How often a number is doubled until it has 53 bits before the point; 2^-1074 is the least double.\<close>

fun doublings :: "nat \<Rightarrow> rat \<Rightarrow> nat" where
  "doublings 0 q = 0"
| "doublings (Suc n) q = (if 2 ^ 52 \<le> q then 0 else Suc (doublings n (2 * q)))"

definition double_of :: "rat \<Rightarrow> rat" where
  "double_of q = (let b = 2 ^ doublings 1074 \<bar>q\<bar> in of_int (round_even (q * b)) / b)"

text \<open>\<open>round(x, 4)\<close> of the double that a decimal spells: its exact value to four digits, a tie going to the
  even one, and then the nearest double. A double of at least 2^52 is an integer and stays.\<close>

definition round4 :: "dec \<Rightarrow> dec" where
  "round4 d =
     (let q = dec_rat d in
      if 2 ^ 52 \<le> \<bar>q\<bar> then d
      else let k = round_even (double_of q * 10000)
           in if double_of (of_int k / 10000) = double_of q then d else Dec k (- 4))"

lemma doublings_upper: "q < 2 ^ 52 \<Longrightarrow> 0 \<le> q \<Longrightarrow> q * 2 ^ doublings n q < 2 ^ 53"
proof (induction n arbitrary: q)
  case (Suc n)
  show ?case
  proof (cases "2 * q < 2 ^ 52")
    case True
    with Suc.IH [of "2 * q"] Suc.prems have "2 * q * 2 ^ doublings n (2 * q) < 2 ^ 53" by simp
    with True Suc.prems show ?thesis by (simp add: field_simps)
  next
    case False
    then have "doublings n (2 * q) = 0" by (cases n) simp_all
    with Suc.prems show ?thesis by simp
  qed
qed simp

lemma doublings_lower: "doublings n q < n \<Longrightarrow> 2 ^ 52 \<le> q * 2 ^ doublings n q"
proof (induction n arbitrary: q)
  case (Suc n)
  show ?case
  proof (cases "2 ^ 52 \<le> q")
    case False
    with Suc have "2 ^ 52 \<le> 2 * q * 2 ^ doublings n (2 * q)" by simp
    with False show ?thesis by (simp add: field_simps)
  qed simp
qed simp

lemma doublings_least: "i < doublings n q \<Longrightarrow> q * 2 ^ i < 2 ^ 52"
proof (induction n arbitrary: q i)
  case (Suc n)
  then have q: "\<not> 2 ^ 52 \<le> q" by auto
  show ?case
  proof (cases i)
    case (Suc j)
    with Suc.prems q have "j < doublings n (2 * q)" by simp
    from Suc.IH [OF this] show ?thesis by (simp add: Suc field_simps)
  qed (use q in simp)
qed simp

lemma doublings_le: "doublings n q \<le> n"
  by (induction n arbitrary: q) auto

lemma doublings_eq:
  assumes "2 ^ 52 \<le> q * 2 ^ p" and "q * 2 ^ p < 2 ^ 53" and "p < n" and "0 \<le> q"
  shows "doublings n q = p"
proof (rule antisym)
  show "doublings n q \<le> p" using doublings_least [of p n q] assms(1) by (metis not_less)
  show "p \<le> doublings n q"
  proof (rule ccontr)
    assume "\<not> p \<le> doublings n q"
    then have l: "Suc (doublings n q) \<le> p" by simp
    with assms(3) have "2 ^ 52 \<le> q * 2 ^ doublings n q" using doublings_lower [of n q] by simp
    then have "2 ^ 53 \<le> q * 2 ^ Suc (doublings n q)" by simp
    also have "\<dots> \<le> q * 2 ^ p" using l assms(4) by (intro mult_left_mono power_increasing) simp_all
    finally show False using assms(2) by simp
  qed
qed

lemma double_of_near: "\<bar>q\<bar> < 2 ^ 39 \<Longrightarrow> \<bar>double_of q - q\<bar> \<le> 1 / 2 ^ 15"
proof -
  assume q: "\<bar>q\<bar> < 2 ^ 39"
  let ?p = "doublings 1074 \<bar>q\<bar>"
  have "14 \<le> ?p"
  proof (rule ccontr)
    assume s: "\<not> 14 \<le> ?p"
    then have "2 ^ 52 \<le> \<bar>q\<bar> * 2 ^ ?p" using doublings_lower [of 1074 "\<bar>q\<bar>"] by simp
    also have "\<dots> \<le> \<bar>q\<bar> * 2 ^ 13" using s by (intro mult_left_mono power_increasing) simp_all
    finally show False using q by simp
  qed
  then have b: "(2::rat) ^ 14 \<le> 2 ^ ?p" by (intro power_increasing) simp_all
  let ?b = "(2::rat) ^ ?p"
  have "\<bar>of_int (round_even (q * ?b)) / ?b - q\<bar> = \<bar>of_int (round_even (q * ?b)) - q * ?b\<bar> / ?b"
  proof -
    have "of_int (round_even (q * ?b)) / ?b - q = (of_int (round_even (q * ?b)) - q * ?b) / ?b" by (simp add: diff_divide_distrib)
    then show ?thesis by (simp only: abs_divide) simp
  qed
  also have "\<dots> \<le> (1 / 2) / ?b" using round_even_near [of "q * ?b"] by (intro divide_right_mono) (simp_all add: abs_minus_commute)
  also have "\<dots> \<le> (1 / 2) / 2 ^ 14" using b by (intro divide_left_mono) simp_all
  finally show ?thesis by (simp add: double_of_def Let_def)
qed

lemma double_of_eqI:
  assumes "2 ^ 52 \<le> \<bar>q\<bar> * 2 ^ p" and "\<bar>q\<bar> * 2 ^ p < 2 ^ 53" and "p < 1074" and "\<bar>q * 2 ^ p - of_int m\<bar> < 1 / 2"
  shows "double_of q = of_int m / 2 ^ p"
  using doublings_eq [OF assms(1-3)] round_even_unique [OF assms(4)] by (simp add: double_of_def)

text \<open>Four digits of a double that four digits spell spell the same double.\<close>

lemma double_of_digits:
  assumes q: "\<bar>q\<bar> < 2 ^ 50" and n: "q = of_int n / 10000"
  shows "double_of (of_int (round_even (double_of q * 10000)) / 10000) = double_of q"
proof (cases "\<bar>q\<bar> < 2 ^ 39")
  case True
  from double_of_near [OF this] have "\<bar>double_of q * 10000 - of_int n\<bar> < 1 / 2"
    unfolding n by (simp add: abs_if field_simps split: if_split_asm)
  from round_even_unique [OF this] have "round_even (double_of q * 10000) = n" .
  then show ?thesis by (simp only: n [symmetric])
next
  case False
  define p where "p = doublings 1074 \<bar>q\<bar>"
  define m where "m = round_even (q * 2 ^ p)"
  define k where "k = round_even (double_of q * 10000)"
  define q' where "q' = (of_int k :: rat) / 10000"
  have x: "double_of q = of_int m / 2 ^ p" by (simp add: double_of_def p_def m_def Let_def)
  have u: "\<bar>q\<bar> * 2 ^ p < 2 ^ 53" using doublings_upper [of "\<bar>q\<bar>" 1074] q by (simp add: p_def)
  have p: "p \<le> 13"
  proof (rule ccontr)
    assume "\<not> p \<le> 13"
    then have "(2::rat) ^ 39 * 2 ^ 14 \<le> \<bar>q\<bar> * 2 ^ p" using False by (intro mult_mono power_increasing) simp_all
    with u show False by simp
  qed
  then have l: "2 ^ 52 \<le> \<bar>q\<bar> * 2 ^ p" using doublings_lower [of 1074 "\<bar>q\<bar>"] by (simp add: p_def)
  have p2: "2 < p"
  proof (rule ccontr)
    assume "\<not> 2 < p"
    then have "\<bar>q\<bar> * 2 ^ p \<le> \<bar>q\<bar> * 2 ^ 2" by (intro mult_left_mono power_increasing) simp_all
    with l q show False by simp
  qed
  have near: "\<bar>of_int \<bar>m\<bar> - \<bar>q\<bar> * 2 ^ p\<bar> \<le> 1 / 2"
  proof -
    have "\<bar>\<bar>of_int m\<bar> - \<bar>q * 2 ^ p\<bar>\<bar> \<le> \<bar>of_int m - q * 2 ^ p\<bar>" by (rule abs_triangle_ineq3)
    with round_even_near [of "q * 2 ^ p"] show ?thesis unfolding m_def by (simp add: abs_mult abs_minus_commute)
  qed
  have "(of_int (2 ^ 52 - 1) :: rat) < of_int \<bar>m\<bar>" "(of_int \<bar>m\<bar> :: rat) < of_int (2 ^ 53 + 1)" using near l u by (auto simp: abs_if split: if_split_asm)
  then have m: "2 ^ 52 \<le> \<bar>m\<bar>" "\<bar>m\<bar> \<le> 2 ^ 53" by (simp_all only: of_int_less_iff)
  have b: "(2::rat) ^ p \<le> 2 ^ 13" using p by (intro power_increasing) simp_all
  have "\<bar>q' - of_int m / 2 ^ p\<bar> \<le> 1 / 20000"
    using round_even_near [of "double_of q * 10000"] by (simp add: q'_def k_def x abs_if field_simps split: if_split_asm)
  then have "\<bar>q' - of_int m / 2 ^ p\<bar> * 2 ^ p \<le> 1 / 20000 * 2 ^ 13" using b by (intro mult_mono) simp_all
  moreover have "\<bar>q' - of_int m / 2 ^ p\<bar> * 2 ^ p = \<bar>(q' - of_int m / 2 ^ p) * 2 ^ p\<bar>" by (simp add: abs_mult)
  moreover have "(q' - of_int m / 2 ^ p) * 2 ^ p = q' * 2 ^ p - of_int m" by (simp add: left_diff_distrib)
  ultimately have d: "\<bar>q' * 2 ^ p - of_int m\<bar> < 45 / 100" by simp
  have whole: "q' = of_int m / 2 ^ p" if "\<bar>m\<bar> = 2 ^ 52 \<or> \<bar>m\<bar> = 2 ^ 53"
  proof -
    have "(2::int) ^ p dvd 2 ^ 52" "(2::int) ^ p dvd 2 ^ 53" using p by (simp_all only: le_imp_power_dvd)
    with that have "2 ^ p dvd m" by (metis dvd_abs_iff)
    then obtain j where j: "m = 2 ^ p * j" by (rule dvdE)
    have "double_of q * 10000 = of_int (j * 10000)" by (simp add: x j)
    then have "k = j * 10000" unfolding k_def by (simp only: round_even_of_int)
    then show ?thesis by (simp add: q'_def j)
  qed
  have "double_of q' = of_int m / 2 ^ p"
  proof (cases "\<bar>m\<bar> = 2 ^ 53")
    case True
    obtain r where r: "p = Suc r" using p2 by (cases p) simp_all
    from True have "even \<bar>m\<bar>" by simp
    then have "even m" by simp
    then obtain j where j: "m = 2 * j" by (rule dvdE)
    have "q' = of_int j / 2 ^ r" using whole True by (simp add: j r)
    moreover from True have "\<bar>j\<bar> = 2 ^ 52" by (simp add: j abs_mult)
    then have "\<bar>of_int j :: rat\<bar> = 2 ^ 52" by (metis of_int_abs of_int_numeral of_int_power)
    ultimately show ?thesis using double_of_eqI [of q' r j] p by (simp add: r j)
  next
    case False
    have mm: "\<bar>of_int m :: rat\<bar> = of_int \<bar>m\<bar>" by simp
    show ?thesis
    proof (rule double_of_eqI)
      show "p < 1074" "\<bar>q' * 2 ^ p - of_int m\<bar> < 1 / 2" using p d by simp_all
      have e: "\<bar>\<bar>q'\<bar> * 2 ^ p - of_int \<bar>m\<bar>\<bar> < 45 / 100" 
      proof -
        have "\<bar>\<bar>q' * 2 ^ p\<bar> - \<bar>of_int m\<bar>\<bar> \<le> \<bar>q' * 2 ^ p - of_int m\<bar>" by (rule abs_triangle_ineq3)
        with d show ?thesis by (simp add: abs_mult)
      qed
      have "(of_int \<bar>m\<bar> :: rat) \<le> of_int (2 ^ 53 - 1)" using False m by (simp only: of_int_le_iff)
      with e show "\<bar>q'\<bar> * 2 ^ p < 2 ^ 53" by (auto simp: abs_if split: if_split_asm)
      show "2 ^ 52 \<le> \<bar>q'\<bar> * 2 ^ p"
      proof (cases "\<bar>m\<bar> = 2 ^ 52")
        case True
        then have "(of_int \<bar>m\<bar> :: rat) = 2 ^ 52" by simp
        with whole True show ?thesis by (simp add: abs_mult)
      next
        case False
        with m have "(of_int (2 ^ 52 + 1) :: rat) \<le> of_int \<bar>m\<bar>" by (simp only: of_int_le_iff)
        with e show ?thesis by (auto simp: abs_if split: if_split_asm)
      qed
    qed
  qed
  then show ?thesis by (simp add: q'_def k_def x)
qed
text \<open>Evaluation on numerators, and without arithmetic on numbers that have four digits.\<close>

fun doubled :: "nat \<Rightarrow> int \<Rightarrow> int \<Rightarrow> nat" where
  "doubled 0 a b = 0"
| "doubled (Suc n) a b = (if 4503599627370496 * b \<le> a then 0 else Suc (doubled n (2 * a) b))"

lemma doubled_eq: "0 < b \<Longrightarrow> doubled n a b = doublings n (of_int a / of_int b)"
proof (induction n arbitrary: a)
  case (Suc n)
  have "4503599627370496 * b \<le> a \<longleftrightarrow> (of_int (4503599627370496 * b) :: rat) \<le> of_int a" by (simp only: of_int_le_iff)
  also have "\<dots> \<longleftrightarrow> 2 ^ 52 \<le> (of_int a / of_int b :: rat)" using Suc.prems by (simp add: field_simps)
  finally have "4503599627370496 * b \<le> a \<longleftrightarrow> 2 ^ 52 \<le> (of_int a / of_int b :: rat)" .
  with Suc.IH [OF Suc.prems, of "2 * a"] show ?case by simp
qed simp

lemma doublings_code [code]: "doublings n q = (case quotient_of q of (a, b) \<Rightarrow> doubled n a b)"
proof (cases "quotient_of q")
  case (Pair a b)
  with quotient_of_div [OF Pair] quotient_of_denom_pos [OF Pair] show ?thesis by (simp add: doubled_eq)
qed

lemma round4_code [code]:
  "round4 d =
     (let q = dec_rat d in
      if 2 ^ 52 \<le> \<bar>q\<bar> then d
      else if \<bar>q\<bar> < 2 ^ 50 \<and> of_int \<lfloor>q * 10000\<rfloor> = q * 10000 then d
      else let k = round_even (double_of q * 10000)
           in if double_of (of_int k / 10000) = double_of q then d else Dec k (- 4))"
proof (cases "\<bar>dec_rat d\<bar> < 2 ^ 50 \<and> of_int \<lfloor>dec_rat d * 10000\<rfloor> = dec_rat d * 10000")
  case True
  then have "dec_rat d = of_int \<lfloor>dec_rat d * 10000\<rfloor> / 10000" by (metis nonzero_mult_div_cancel_right zero_neq_numeral)
  from double_of_digits [OF _ this] True show ?thesis unfolding round4_def Let_def by (simp only: if_True) simp
next
  case False
  then show ?thesis unfolding round4_def Let_def by (simp only: if_False)
qed

text \<open>The binary value decides: 0.00015 is below its spelling.\<close>

lemma round4_samples: "round4 (Dec 15 (- 5)) = Dec 1 (- 4)" "round4 (Dec 7012345 (- 5)) = Dec 701235 (- 4)"
  by (code_simp, code_simp)

end
