(* ===== verification/Graph_Models.thy ===== *)
theory Graph_Models
  imports Conditions Contracts Audit_Log Floats
begin

text \<open>
  The entities of the household graph, \<open>hirz/graph/models.py\<close>. An entity is the dictionary of its
  fields; a model is its list of fields with types and defaults, checked as pydantic checks it:
  unknown keys are refused, missing fields take their default, every value is validated. What pydantic
  makes of identifiers, Booleans, numbers and instants is the parameter \<open>scalar_of\<close>; an instant is an
  integer of microseconds. The validators written in the file are functions below.
\<close>

section \<open>Fields\<close>

datatype scalar = S_uuid | S_bool | S_int | S_float | S_time

type_synonym scalars = "scalar \<Rightarrow> pv \<Rightarrow> pv result"

datatype ftype =
    F_text
  | F_str
  | F_strict_bool
  | F_lit "string list"
  | F_pattern "string \<Rightarrow> bool"
  | F_scalar scalar "pv \<Rightarrow> bool"
  | F_policy "rat \<Rightarrow> bool"
  | F_json
  | F_object
  | F_tuple ftype
  | F_opt ftype
  | F_sub "(string \<times> ftype \<times> pv option) list"

type_synonym field = "string \<times> ftype \<times> pv option"

text \<open>\<open>policy_number\<close>: rounded to four digits, within Cedar's decimals. A float is the decimal
  its \<open>str\<close> spells.\<close>

definition spelled :: "int \<Rightarrow> dec" where
  "spelled n =
     (if n mod 1000 = 0 then Dec (n div 1000) (- 1) else if n mod 100 = 0 then Dec (n div 100) (- 2)
      else if n mod 10 = 0 then Dec (n div 10) (- 3) else Dec n (- 4))"

definition policy_number :: "pv \<Rightarrow> pv result" where
  "policy_number v =
     rbind (case v of PInt n \<Rightarrow> Inr (PInt n) | PFloat (FFin d) \<Rightarrow> Inr (PFloat (FFin (round4 d))) | _ \<Rightarrow> Inl ValueError) (\<lambda>r.
     rbind (number r) (\<lambda>n. Inr (PFloat (FFin (spelled n)))))"

definition float_in :: "(rat \<Rightarrow> bool) \<Rightarrow> pv \<Rightarrow> bool" where
  "float_in ok v = (case v of PFloat (FFin d) \<Rightarrow> ok (dec_rat d) | _ \<Rightarrow> False)"

definition int_in :: "(int \<Rightarrow> bool) \<Rightarrow> pv \<Rightarrow> bool" where
  "int_in ok v = (case v of PInt n \<Rightarrow> ok n | _ \<Rightarrow> False)"

definition names :: "field list \<Rightarrow> string set" where
  "names fs = set (map fst fs)"

text \<open>\<open>model_validate\<close>, without the validators of the class.\<close>

fun check :: "scalars \<Rightarrow> ftype \<Rightarrow> pv \<Rightarrow> pv result"
  and check_fields :: "scalars \<Rightarrow> field list \<Rightarrow> pdict \<Rightarrow> pdict result" where
  "check sc F_text v = (case v of PStr s \<Rightarrow> if s = [] then Inl ValueError else Inr v | _ \<Rightarrow> Inl ValueError)"
| "check sc F_str v = (case v of PStr s \<Rightarrow> Inr v | _ \<Rightarrow> Inl ValueError)"
| "check sc F_strict_bool v = (case v of PBool b \<Rightarrow> Inr v | _ \<Rightarrow> Inl ValueError)"
| "check sc (F_lit xs) v = (case v of PStr s \<Rightarrow> if s \<in> set xs then Inr v else Inl ValueError | _ \<Rightarrow> Inl ValueError)"
| "check sc (F_pattern ok) v = (case v of PStr s \<Rightarrow> if ok s then Inr v else Inl ValueError | _ \<Rightarrow> Inl ValueError)"
| "check sc (F_scalar k ok) v = rbind (sc k v) (\<lambda>w. if ok w then Inr w else Inl ValueError)"
| "check sc (F_policy ok) v = rbind (policy_number v) (\<lambda>w. if float_in ok w then Inr w else Inl ValueError)"
| "check sc F_json v = Inr v"
| "check sc F_object v = (case v of PDict d \<Rightarrow> Inr v | _ \<Rightarrow> Inl ValueError)"
| "check sc (F_tuple t) v =
     (case v of PList vs \<Rightarrow> rbind (mapM (check sc t) vs) (\<lambda>ws. Inr (PList ws)) | _ \<Rightarrow> Inl ValueError)"
| "check sc (F_opt t) v = (if v = PNone then Inr PNone else check sc t v)"
| "check sc (F_sub fs) v =
     (case v of
        PDict d \<Rightarrow> if \<not> set (map fst d) \<subseteq> names fs then Inl ValueError
                   else rbind (check_fields sc fs d) (\<lambda>m. Inr (PDict m))
      | _ \<Rightarrow> Inl ValueError)"
| "check_fields sc [] d = Inr []"
| "check_fields sc ((n, t, def) # fs) d =
     rbind (case map_of d n of Some v \<Rightarrow> check sc t v | None \<Rightarrow> of_opt ValueError def) (\<lambda>v.
     rbind (check_fields sc fs d) (\<lambda>m. Inr ((n, v) # m)))"

text \<open>\<open>model_dump(exclude_none=True)\<close>.\<close>

fun dump :: "ftype \<Rightarrow> pv \<Rightarrow> pv" and dump_fields :: "field list \<Rightarrow> pdict \<Rightarrow> pdict" where
  "dump (F_tuple t) v = (case v of PList vs \<Rightarrow> PList (map (dump t) vs) | _ \<Rightarrow> v)"
| "dump (F_opt t) v = (if v = PNone then PNone else dump t v)"
| "dump (F_sub fs) v = (case v of PDict d \<Rightarrow> PDict (dump_fields fs d) | _ \<Rightarrow> v)"
| "dump F_text v = v" | "dump F_str v = v" | "dump F_strict_bool v = v" | "dump (F_lit _) v = v"
| "dump (F_pattern _) v = v" | "dump (F_scalar _ _) v = v" | "dump (F_policy _) v = v" | "dump F_json v = v" | "dump F_object v = v"
| "dump_fields [] d = []"
| "dump_fields ((n, t, def) # fs) d =
     (case map_of d n of
        None \<Rightarrow> dump_fields fs d
      | Some v \<Rightarrow> if v = PNone then dump_fields fs d else (n, dump t v) # dump_fields fs d)"

section \<open>Models\<close>

definition required :: "string \<Rightarrow> ftype \<Rightarrow> field" where "required n t = (n, t, None)"
definition optional :: "string \<Rightarrow> ftype \<Rightarrow> field" where "optional n t = (n, F_opt t, Some PNone)"

definition anything :: "pv \<Rightarrow> bool" where "anything v = True"

abbreviation (input) "F_uuid \<equiv> F_scalar S_uuid anything"
abbreviation (input) "F_bool \<equiv> F_scalar S_bool anything"
abbreviation (input) "F_time \<equiv> F_scalar S_time anything"

definition positive :: ftype where "positive = F_scalar S_float (float_in (\<lambda>x. 0 < x))"
definition whole :: ftype where "whole = F_scalar S_int (int_in (\<lambda>n. 0 < n))"
definition share :: "rat \<Rightarrow> bool" where "share x \<longleftrightarrow> 0 \<le> x \<and> x \<le> 1"

definition SOURCES :: "string list" where
  "SOURCES = [''real'', ''real API, demo devices'', ''twin'']"

definition ADAPTER_DOMAINS :: "string list" where
  "ADAPTER_DOMAINS = [''devices'', ''ev'', ''energy'', ''wearable'', ''calendar'', ''contacts'', ''doorbell'', ''notify'', ''presence'']"

definition ASSET_DOMAINS :: "(string \<times> string) list" where
  "ASSET_DOMAINS = [(''ev'', ''ev''), (''home_battery'', ''energy''), (''solar'', ''energy''), (''doorbell'', ''doorbell''),
     (''appliance'', ''devices''), (''hvac_zone'', ''devices''), (''lock'', ''devices''), (''camera'', ''devices''),
     (''light'', ''devices''), (''shade'', ''devices'')]"

definition ASSET_KINDS :: "string list" where
  "ASSET_KINDS = [''ev'', ''home_battery'', ''solar'', ''appliance'', ''hvac_zone'', ''lock'', ''camera'', ''light'', ''doorbell'', ''shade'']"

definition Location_fields :: "field list" where
  "Location_fields =
     [required ''latitude'' (F_scalar S_float (float_in (\<lambda>x. - 90 \<le> x \<and> x \<le> 90))),
      required ''longitude'' (F_scalar S_float (float_in (\<lambda>x. - 180 \<le> x \<and> x \<le> 180))),
      required ''source'' (F_lit [''declared'', ''twin'']), optional ''street_address'' F_text]"

text \<open>\<open>known_timezone\<close> asks the time zone database, the predicate \<open>zone_known\<close>.\<close>

definition Household_fields :: "(string \<Rightarrow> bool) \<Rightarrow> field list" where
  "Household_fields zone_known =
     [(''autonomy_paused'', F_bool, Some (PBool False)), required ''id'' F_uuid, required ''name'' F_text,
      required ''timezone'' (F_pattern (\<lambda>s. s \<noteq> [] \<and> zone_known s)), required ''locale'' F_text,
      optional ''rate_plan'' (F_lit [''comed_time_of_day'', ''comed_hourly'', ''twin'']),
      optional ''constitution_version'' whole, optional ''location'' (F_sub Location_fields)]"

definition Entity_fields :: "field list" where
  "Entity_fields = [required ''household_id'' F_uuid, required ''id'' F_uuid]"

definition Member_fields :: "field list" where
  "Member_fields = Entity_fields @ [required ''display_name'' F_text,
     required ''role'' (F_lit [''owner'', ''adult'', ''teen'', ''child'', ''guest'', ''caregiver''])]"

definition MemberAccount_fields :: "field list" where
  "MemberAccount_fields = [required ''household_id'' F_uuid, required ''provider'' F_text, required ''sub'' F_text,
     required ''member_id'' F_uuid]"

definition TrustedContact_fields :: "field list" where
  "TrustedContact_fields = Entity_fields @
     [(''party'', F_lit [''person'', ''organization''], Some (PStr ''person'')), optional ''organization_id'' F_text,
      required ''display_name'' F_text, required ''relationship'' F_text, optional ''member_id'' F_uuid,
      optional ''safe_word_hash'' (F_pattern hex64)]"

definition ContactChannel_fields :: "field list" where
  "ContactChannel_fields = Entity_fields @
     [optional ''provenance'' (F_lit [''contact-confirmed'', ''registry-confirmed'']), optional ''registry_revision'' F_str,
      required ''contact_id'' F_uuid, required ''kind'' (F_lit [''phone'', ''email'', ''hirz_app'']),
      required ''value_hash'' (F_pattern hex64), optional ''verified_at'' F_time, required ''source'' (F_lit SOURCES)]"

definition PhysicalParameters_fields :: "field list" where
  "PhysicalParameters_fields =
     [optional ''capacity_kwh'' positive, optional ''charger_kw'' positive, optional ''power_kw'' positive,
      optional ''efficiency'' (F_scalar S_float (float_in (\<lambda>x. 0 < x \<and> x \<le> 1))),
      optional ''reserve_soc'' (F_scalar S_float (float_in share)), optional ''kw_peak'' positive,
      optional ''cycle_minutes'' whole, optional ''cycle_kwh'' positive, optional ''thermal_mass_kwh_per_f'' positive,
      optional ''resistance_f_per_kw'' positive, optional ''hvac_kw'' positive,
      optional ''tilt_degrees'' (F_scalar S_float (float_in (\<lambda>x. 0 \<le> x \<and> x \<le> 90))),
      optional ''orientation_degrees'' (F_scalar S_float (float_in (\<lambda>x. 0 \<le> x \<and> x < 360)))]"

definition Asset_fields :: "field list" where
  "Asset_fields = Entity_fields @
     [(''managed_through_hirz'', F_bool, Some (PBool False)), required ''name'' F_text, required ''kind'' (F_lit ASSET_KINDS),
      optional ''room_kind'' (F_lit [''bedroom'', ''other'']), optional ''owner_member_id'' F_uuid,
      optional ''capabilities'' (F_tuple F_text), optional ''physical'' (F_sub PhysicalParameters_fields)]"

definition AssetBinding_fields :: "field list" where
  "AssetBinding_fields = Entity_fields @ [required ''asset_id'' F_uuid, required ''adapter'' F_text, required ''entity_id'' F_text]"

definition AssetPolicy_fields :: "field list" where
  "AssetPolicy_fields = Entity_fields @ [required ''asset_id'' F_uuid, optional ''soc_min'' (F_policy share), optional ''needed_by'' F_time]"

definition Schedule_fields :: "field list" where
  "Schedule_fields = Entity_fields @ [required ''name'' F_text, optional ''member_id'' F_uuid]"

definition ScheduleEvent_fields :: "field list" where
  "ScheduleEvent_fields = Entity_fields @
     [required ''schedule_id'' F_uuid, optional ''member_id'' F_uuid, optional ''zone_id'' F_uuid,
      required ''kind'' (F_lit [''arrival'', ''departure'', ''calendar'', ''quiet_hours'']),
      required ''starts_at'' F_time, required ''ends_at'' F_time, optional ''expected_at'' F_time, optional ''title'' F_text]"

definition Routine_fields :: "field list" where
  "Routine_fields = Entity_fields @
     [required ''name'' F_text, optional ''member_id'' F_uuid,
      required ''days'' (F_tuple (F_lit [''mon'', ''tue'', ''wed'', ''thu'', ''fri'', ''sat'', ''sun''])),
      required ''from_time'' (F_pattern time_match), required ''to_time'' (F_pattern time_match)]"

definition Preference_fields :: "field list" where
  "Preference_fields = Entity_fields @
     [required ''member_id'' F_uuid, required ''scope'' (F_lit [''household'', ''member'']), required ''key'' F_text,
      required ''value'' F_json, required ''source'' (F_lit [''declared'', ''learned_accepted'']),
      required ''confidence'' (F_scalar S_float (float_in share))]"

definition ObservationState_fields :: "field list" where
  "ObservationState_fields =
     [optional ''charging'' F_strict_bool, optional ''charge_limit'' (F_policy share), optional ''dispatch_kw'' (F_policy (\<lambda>_. True)),
      optional ''soc'' (F_policy share), optional ''temp_f'' (F_policy (\<lambda>_. True)), optional ''target_f'' (F_policy (\<lambda>_. True)),
      optional ''mode'' (F_lit [''heat'', ''cool'', ''off'']), optional ''power_kw'' (F_policy (\<lambda>_. True)),
      optional ''present'' F_strict_bool, optional ''sleeping'' F_strict_bool, optional ''zone_id'' F_uuid,
      optional ''plugged_in'' F_bool, optional ''available'' F_strict_bool, optional ''locked'' F_bool, optional ''on'' F_bool,
      optional ''recovery_score'' (F_scalar S_int (int_in (\<lambda>n. 0 \<le> n \<and> n \<le> 100))), optional ''last_press_at'' F_time,
      optional ''price_band'' F_text, optional ''camera_armed'' F_strict_bool,
      optional ''cover_position_percent'' (F_policy (\<lambda>x. 0 \<le> x \<and> x \<le> 100)),
      optional ''motion_classification'' (F_lit [''human'', ''animal'', ''vehicle'']), optional ''last_motion_at'' F_time]"

definition Observation_fields :: "field list" where
  "Observation_fields = Entity_fields @
     [optional ''domain'' (F_lit ADAPTER_DOMAINS), optional ''member_id'' F_uuid, optional ''asset_id'' F_uuid,
      required ''observed_at'' F_time, required ''source'' (F_lit SOURCES), required ''state'' (F_sub ObservationState_fields)]"

definition ConstraintSpec_fields :: "field list" where
  "ConstraintSpec_fields =
     [required ''kind'' (F_lit [''ev_target'', ''ev_ceiling'', ''ev_not_before'', ''ev_deadline'', ''appliance_not_before'',
        ''appliance_deadline'', ''temperature'', ''temperature_band'', ''manual_hold'']),
      required ''asset_id'' F_uuid, required ''starts_at'' F_time, required ''ends_at'' F_time, optional ''at'' F_time,
      optional ''value'' (F_scalar S_float anything), optional ''upper'' (F_scalar S_float anything),
      optional ''mode'' (F_lit [''heat'', ''cool'', ''off''])]"

text \<open>\<open>PlanConstraint\<close> of \<open>pipeline/models.py\<close>.\<close>

definition PlanConstraint_fields :: "field list" where
  "PlanConstraint_fields =
     [optional ''member_id'' F_uuid, required ''source'' F_str, optional ''surface'' (F_lit [''alexa'', ''app'', ''scheduler'']),
      optional ''claimed_author'' F_str, required ''recorded_at'' F_time, required ''text'' F_str, required ''encoded'' F_object]"

definition ConstraintRecord_fields :: "field list" where
  "ConstraintRecord_fields = Entity_fields @
     [required ''member_id'' F_uuid, required ''asset_id'' F_uuid, required ''provenance'' (F_sub PlanConstraint_fields),
      required ''action_id'' F_text, required ''decision_seq'' whole, required ''recorded_seq'' whole,
      optional ''withdrawn_at'' F_time, optional ''withdrawn_seq'' whole, optional ''withdrawal_decision_seq'' whole,
      optional ''replaces'' F_uuid]"

section \<open>Validators of the classes\<close>

definition fld :: "pdict \<Rightarrow> string \<Rightarrow> pv" where "fld d k = dict_get d k PNone"

definition sub_fields :: "pdict \<Rightarrow> string \<Rightarrow> pdict" where
  "sub_fields d k = (case fld d k of PDict x \<Rightarrow> x | _ \<Rightarrow> [])"

definition given :: "pdict \<Rightarrow> string \<Rightarrow> bool" where "given d k \<longleftrightarrow> fld d k \<noteq> PNone"

definition instant :: "pdict \<Rightarrow> string \<Rightarrow> int" where
  "instant d k = (case fld d k of PInt n \<Rightarrow> n | _ \<Rightarrow> 0)"

definition amount :: "pdict \<Rightarrow> string \<Rightarrow> rat" where
  "amount d k = (case fld d k of PFloat (FFin x) \<Rightarrow> dec_rat x | _ \<Rightarrow> 0)"

definition ordered :: "pdict \<Rightarrow> pdict result" where
  "ordered m =
     rbind (guard ValueError (instant m ''starts_at'' < instant m ''ends_at'')) (\<lambda>_.
     rbind (guard ValueError (\<not> given m ''expected_at'' \<or>
        instant m ''starts_at'' \<le> instant m ''expected_at'' \<and> instant m ''expected_at'' < instant m ''ends_at'')) (\<lambda>_. Inr m))"

definition temperature :: "pdict \<Rightarrow> pdict result" where
  "temperature m =
     (if fld m ''key'' = PStr ''temperature_target_f''
      then rbind (policy_number (fld m ''value'')) (\<lambda>v. Inr (dict_set ''value'' v m)) else Inr m)"

definition one_subject :: "pdict \<Rightarrow> pdict result" where
  "one_subject m =
     (let st = sub_fields m ''state''; domain = fld m ''domain''; member = given m ''member_id''; asset = given m ''asset_id'';
          seen = instant m ''observed_at'' in
      rbind (guard ValueError (\<not> (member \<and> asset))) (\<lambda>_.
      rbind (guard ValueError (given st ''last_press_at'' \<longrightarrow> instant st ''last_press_at'' \<le> seen)) (\<lambda>_.
      if domain = PNone then Inr m
      else
        rbind (guard ValueError (given st ''last_motion_at'' \<longrightarrow> instant st ''last_motion_at'' \<le> seen)) (\<lambda>_.
        rbind (guard ValueError (given st ''last_motion_at'' = given st ''motion_classification'')) (\<lambda>_.
        rbind (guard ValueError (given st ''last_motion_at'' \<longrightarrow> domain = PStr ''doorbell'' \<and> asset)) (\<lambda>_.
        rbind (guard ValueError (given st ''camera_armed'' \<or> given st ''cover_position_percent'' \<longrightarrow> domain = PStr ''devices'' \<and> asset)) (\<lambda>_.
        rbind (guard ValueError (given st ''present'' \<or> given st ''sleeping'' \<or> given st ''zone_id'' \<longrightarrow>
           domain = PStr ''presence'' \<and> member)) (\<lambda>_.
        rbind (guard ValueError (given st ''recovery_score'' \<longrightarrow> domain = PStr ''wearable'' \<and> member)) (\<lambda>_.
        rbind (guard ValueError (given st ''last_press_at'' \<longrightarrow> domain = PStr ''doorbell'' \<and> asset)) (\<lambda>_.
        rbind (guard ValueError (given st ''price_band'' \<longrightarrow> domain = PStr ''energy'' \<and> \<not> member \<and> \<not> asset)) (\<lambda>_.
          Inr m)))))))))))"

definition us_two_hours :: int where "us_two_hours = 7200000000"

definition payload :: "pdict \<Rightarrow> pdict result" where
  "payload m =
     (let kind = fld m ''kind'';
          timed = (kind \<in> {PStr ''ev_not_before'', PStr ''ev_deadline'', PStr ''appliance_not_before'', PStr ''appliance_deadline''}) in
      rbind (guard ValueError (instant m ''starts_at'' < instant m ''ends_at'')) (\<lambda>_.
      rbind (guard ValueError (timed = given m ''at'' \<and> timed \<noteq> given m ''value'')) (\<lambda>_.
      rbind (guard ValueError (kind \<in> {PStr ''ev_target'', PStr ''ev_ceiling''} \<longrightarrow>
         0 \<le> amount m ''value'' \<and> amount m ''value'' \<le> dec_rat (Dec 8 (- 1)))) (\<lambda>_.
      rbind (guard ValueError ((kind = PStr ''temperature_band'') = given m ''upper'')) (\<lambda>_.
      rbind (guard ValueError (given m ''upper'' \<longrightarrow> given m ''value'' \<and> amount m ''value'' \<le> amount m ''upper'')) (\<lambda>_.
      rbind (guard ValueError ((kind = PStr ''manual_hold'') = given m ''mode'')) (\<lambda>_.
      rbind (guard ValueError (kind = PStr ''manual_hold'' \<longrightarrow> instant m ''ends_at'' - instant m ''starts_at'' = us_two_hours)) (\<lambda>_.
        Inr m))))))))"

definition constraint_spec :: "scalars \<Rightarrow> pv \<Rightarrow> pdict result" where
  "constraint_spec sc v =
     rbind (check sc (F_sub ConstraintSpec_fields) v) (\<lambda>w. case w of PDict m \<Rightarrow> payload m | _ \<Rightarrow> Inl ValueError)"

definition consistent :: "scalars \<Rightarrow> pdict \<Rightarrow> pdict result" where
  "consistent sc m =
     (let pv = sub_fields m ''provenance'' in
      rbind (guard ValueError (given pv ''member_id'' \<longrightarrow> fld pv ''member_id'' = fld m ''member_id'')) (\<lambda>_.
      rbind (constraint_spec sc (fld pv ''encoded'')) (\<lambda>spec.
      rbind (guard ValueError (fld spec ''asset_id'' = fld m ''asset_id'')) (\<lambda>_.
      rbind (guard ValueError (given m ''withdrawn_at'' = given m ''withdrawn_seq'' \<and>
         given m ''withdrawn_seq'' = given m ''withdrawal_decision_seq'')) (\<lambda>_. Inr m)))))"

section \<open>The closed mapping of tables\<close>

definition MODELS :: "(string \<Rightarrow> bool) \<Rightarrow> (string \<times> field list) list" where
  "MODELS zone_known =
     [(''households'', Household_fields zone_known), (''members'', Member_fields), (''member_accounts'', MemberAccount_fields),
      (''trusted_contacts'', TrustedContact_fields), (''contact_channels'', ContactChannel_fields), (''assets'', Asset_fields),
      (''asset_bindings'', AssetBinding_fields), (''asset_policies'', AssetPolicy_fields), (''schedules'', Schedule_fields),
      (''schedule_events'', ScheduleEvent_fields), (''routines'', Routine_fields), (''preferences'', Preference_fields),
      (''observations'', Observation_fields), (''constraints'', ConstraintRecord_fields)]"

definition class_validator :: "scalars \<Rightarrow> string \<Rightarrow> pdict \<Rightarrow> pdict result" where
  "class_validator sc name m =
     (if name = ''schedule_events'' then ordered m else if name = ''preferences'' then temperature m
      else if name = ''observations'' then one_subject m else if name = ''constraints'' then consistent sc m else Inr m)"

definition model_validate :: "scalars \<Rightarrow> (string \<Rightarrow> bool) \<Rightarrow> string \<Rightarrow> pdict \<Rightarrow> pdict result" where
  "model_validate sc zk name d =
     rbind (of_opt KeyError (map_of (MODELS zk) name)) (\<lambda>fs.
     rbind (check sc (F_sub fs) (PDict d)) (\<lambda>w. case w of PDict m \<Rightarrow> class_validator sc name m | _ \<Rightarrow> Inl ValueError))"

text \<open>Subject of an observation, and its scope: household, time, subject, domain and controls.\<close>

definition observation_scope ::
  "pdict \<Rightarrow> string \<Rightarrow> string set \<Rightarrow> (string \<Rightarrow> string option) \<Rightarrow> int \<Rightarrow> unit result"
where
  "observation_scope ob hh members kind_of now =
     (let st = sub_fields ob ''state''; domain = fld ob ''domain'';
          asset = (case fld ob ''asset_id'' of PStr a \<Rightarrow> Some a | _ \<Rightarrow> None);
          kind = Option.bind asset kind_of;
          subject_ok = (case fld ob ''member_id'' of
             PStr i \<Rightarrow> i \<in> members \<and> (domain = PNone \<or> domain = PStr ''presence'' \<or> domain = PStr ''wearable'')
           | _ \<Rightarrow> (case asset of
               Some a \<Rightarrow> (case kind_of a of None \<Rightarrow> False
                  | Some k \<Rightarrow> domain = PNone \<or> Some domain = map_option PStr (map_of ASSET_DOMAINS k))
             | None \<Rightarrow> domain = PNone \<or> domain = PStr ''energy''))
      in guard ValueError (
        fld ob ''household_id'' = PStr hh \<and> instant ob ''observed_at'' \<le> now \<and> subject_ok \<and>
        (given st ''charging'' \<or> given st ''charge_limit'' \<longrightarrow> domain = PStr ''ev'' \<and> kind = Some ''ev'') \<and>
        (given st ''dispatch_kw'' \<longrightarrow> domain = PStr ''energy'' \<and> kind = Some ''home_battery'') \<and>
        (given st ''mode'' \<longrightarrow> domain = PStr ''devices'' \<and> kind = Some ''hvac_zone'') \<and>
        (given st ''camera_armed'' \<longrightarrow> kind = Some ''camera'') \<and>
        (given st ''cover_position_percent'' \<longrightarrow> kind = Some ''shade'') \<and>
        (case fld st ''zone_id'' of PStr z \<Rightarrow> kind_of z = Some ''hvac_zone'' | _ \<Rightarrow> True)))"

end
