(* ===== verification/Graph_Rows.thy ===== *)
theory Graph_Rows
  imports Graph_Models
begin

text \<open>
  Rows of the graph tables, \<open>row_values\<close> and \<open>row_model\<close> of \<open>hirz/graph/repository.py\<close> over the tables
  of \<open>hirz/db.py\<close>: an entity is stored as its native columns and, for the rest, a JSON object without
  nulls; and it is read back by validating the two together. The column of the object is JSONB: \<open>jsonb\<close>
  of \<open>Wire\<close> is what comes back.
\<close>

section \<open>Tables\<close>

definition REFERENCES :: "(string \<times> (string \<times> string) list) list" where
  "REFERENCES =
     [(''trusted_contacts'', [(''member_id'', ''members'')]), (''contact_channels'', [(''contact_id'', ''trusted_contacts'')]),
      (''assets'', [(''owner_member_id'', ''members'')]), (''asset_bindings'', [(''asset_id'', ''assets'')]),
      (''asset_policies'', [(''asset_id'', ''assets'')]), (''schedules'', [(''member_id'', ''members'')]),
      (''schedule_events'', [(''schedule_id'', ''schedules''), (''member_id'', ''members''), (''zone_id'', ''assets'')]),
      (''routines'', [(''member_id'', ''members'')]), (''preferences'', [(''member_id'', ''members'')]),
      (''observations'', [(''member_id'', ''members''), (''asset_id'', ''assets'')]),
      (''constraints'', [(''member_id'', ''members''), (''asset_id'', ''assets'')])]"

definition columns :: "string \<Rightarrow> string list" where
  "columns name =
     (if name = ''households'' then [''id'', ''name'', ''timezone'', ''locale'', ''rate_plan'', ''constitution_version'']
      else if name = ''members'' then [''household_id'', ''id'', ''display_name'', ''role'']
      else if name = ''member_accounts'' then [''household_id'', ''provider'', ''sub'', ''member_id'']
      else [''household_id'', ''id''] @ map fst (case map_of REFERENCES name of None \<Rightarrow> [] | Some r \<Rightarrow> r) @
        (if name = ''constraints'' then [''decision_seq'', ''recorded_seq'', ''withdrawn_seq'', ''withdrawal_decision_seq''] else []))"

definition primary_key :: "string \<Rightarrow> string list" where
  "primary_key name =
     (if name = ''households'' then [] else if name = ''member_accounts'' then [''provider'', ''sub''] else [''id''])"

definition row_values :: "(string \<Rightarrow> bool) \<Rightarrow> string \<Rightarrow> pdict \<Rightarrow> pdict \<times> pdict" where
  "row_values zk name m =
     (let fs = (case map_of (MODELS zk) name of None \<Rightarrow> [] | Some fs \<Rightarrow> fs) in
      (filter (\<lambda>(k, _). k \<in> set (columns name)) m,
       map (\<lambda>(k, v). (k, jsonb v)) (filter (\<lambda>(k, _). k \<notin> set (columns name)) (dump_fields fs m))))"

definition row_model :: "scalars \<Rightarrow> (string \<Rightarrow> bool) \<Rightarrow> string \<Rightarrow> pdict \<times> pdict \<Rightarrow> pdict result" where
  "row_model sc zk name r = model_validate sc zk name (dict_update (fst r) (snd r))"

section \<open>What pydantic promises\<close>

text \<open>A validated scalar validates to itself and is not \<open>None\<close>; a Boolean validates to itself.\<close>

definition scalars_ok :: "scalars \<Rightarrow> bool" where
  "scalars_ok sc \<longleftrightarrow> (\<forall>k v w. sc k v = Inr w \<longrightarrow> sc k w = Inr w \<and> w \<noteq> PNone) \<and> (\<forall>b. sc S_bool (PBool b) = Inr (PBool b))"

fun optional_type :: "ftype \<Rightarrow> bool" where
  "optional_type (F_opt _) = True"
| "optional_type _ = False"

text \<open>Fields that a dump without nulls does not lose: an omitted one has the default \<open>None\<close>.\<close>

fun well :: "scalars \<Rightarrow> ftype \<Rightarrow> bool" and well_fields :: "scalars \<Rightarrow> field list \<Rightarrow> bool" where
  "well sc (F_tuple t) = well sc t"
| "well sc (F_opt t) = well sc t"
| "well sc (F_sub fs) = (well_fields sc fs \<and> (\<forall>f \<in> set fs. fst (snd f) \<noteq> F_json))"
| "well sc _ = True"
| "well_fields sc [] = True"
| "well_fields sc ((n, t, def) # fs) =
     (n \<notin> names fs \<and> well sc t \<and>
      (case def of None \<Rightarrow> \<not> optional_type t
         | Some v \<Rightarrow> if v = PNone then optional_type t else check sc t v = Inr v \<and> \<not> optional_type t) \<and>
      well_fields sc fs)"

lemma spelled_rat: "dec_rat (spelled n) = of_int n / 10000"
proof -
  have "of_int (n div d) / of_int (10000 div d) = (of_int n / 10000 :: rat)" if "n mod d = 0" "d \<in> {1000, 100, 10}" for d
  proof -
    from that(1) obtain q where "n = d * q" by auto
    with that(2) show ?thesis by auto
  qed
  from this [of 1000] this [of 100] this [of 10] show ?thesis by (simp add: spelled_def)
qed

lemma round4_spelled: "cedar_min \<le> n \<Longrightarrow> n \<le> cedar_max \<Longrightarrow> round4 (spelled n) = spelled n"
proof -
  assume "cedar_min \<le> n" "n \<le> cedar_max"
  then have "\<bar>n\<bar> < 10000 * 2 ^ 50" by (simp add: cedar_min_def cedar_max_def)
  then have "\<bar>of_int n\<bar> < (of_int (10000 * 2 ^ 50) :: rat)" by (simp only: of_int_abs [symmetric] of_int_less_iff)
  then have b: "\<bar>of_int n / 10000 :: rat\<bar> < 2 ^ 50" by simp
  from double_of_digits [OF b refl] b show ?thesis by (simp add: round4_def Let_def spelled_rat)
qed

lemma cedar_fixed_spelled: "cedar_min \<le> n \<Longrightarrow> n \<le> cedar_max \<Longrightarrow> cedar_fixed (spelled n) = Some n"
proof -
  have "n mod 1000 = 0 \<Longrightarrow> n div 1000 * 1000 = n" "n mod 100 = 0 \<Longrightarrow> n div 100 * 100 = n" "n mod 10 = 0 \<Longrightarrow> n div 10 * 10 = n"
    using div_mult_mod_eq [of n 1000] div_mult_mod_eq [of n 100] div_mult_mod_eq [of n 10] by simp_all
  then show "cedar_min \<le> n \<Longrightarrow> n \<le> cedar_max \<Longrightarrow> cedar_fixed (spelled n) = Some n"
    by (auto simp: spelled_def Let_def)
qed

lemma policy_number_twice:
  assumes "policy_number v = Inr w"
  shows "policy_number w = Inr w \<and> w \<noteq> PNone"
proof -
  from assms obtain r n where n: "number r = Inr n" and w: "w = PFloat (FFin (spelled n))"
    by (auto simp: policy_number_def rbind_Inr_iff)
  note r = number_range [OF n]
  then have "number w = Inr n" by (simp add: w cedar_fixed_spelled)
  with r show ?thesis by (simp add: w policy_number_def round4_spelled of_opt_def)
qed

lemma dump_fields_skip: "k \<notin> names fs \<Longrightarrow> dump_fields fs ((k, v) # d) = dump_fields fs d"
proof (induction fs)
  case (Cons f fs)
  obtain n t def where "f = (n, t, def)" by (cases f)
  moreover from Cons have "dump_fields fs ((k, v) # d) = dump_fields fs d" by (simp add: names_def)
  ultimately show ?case using Cons.prems by (auto simp: names_def split: option.split)
qed simp

lemma dump_fields_keys: "set (map fst (dump_fields fs d)) \<subseteq> names fs"
proof (induction fs)
  case (Cons f fs)
  then show ?case by (cases f) (auto simp: names_def split: option.split)
qed (simp add: names_def)

lemma dump_fields_None: "n \<notin> names fs \<Longrightarrow> map_of (dump_fields fs d) n = None"
  using dump_fields_keys [of fs d] by (auto simp: map_of_eq_None_iff)

lemma check_fields_keys: "check_fields sc fs d = Inr m \<Longrightarrow> map fst m = map fst fs"
proof (induction fs arbitrary: m)
  case (Cons f fs)
  then show ?case by (cases f) (auto simp: rbind_Inr_iff)
qed simp

lemma mapM_fix:
  assumes "mapM f xs = Inr ys" and "\<And>x y. x \<in> set xs \<Longrightarrow> f x = Inr y \<Longrightarrow> f (g y) = Inr y"
  shows "mapM f (map g ys) = Inr ys"
  using assms
proof (induction xs arbitrary: ys)
  case (Cons x xs)
  from Cons.prems(1) obtain y zs where y: "f x = Inr y" and zs: "mapM f xs = Inr zs" and "ys = y # zs" by (auto simp: rbind_Inr_iff)
  moreover have "f (g y) = Inr y" using Cons.prems(2) [of x y] y by simp
  moreover have "mapM f (map g zs) = Inr zs"
  proof (rule Cons.IH [OF zs])
    show "a \<in> set xs \<Longrightarrow> f a = Inr b \<Longrightarrow> f (g b) = Inr b" for a b using Cons.prems(2) [of a b] by simp
  qed
  ultimately show ?case by simp
qed simp

lemma check_fields_again:
  assumes "check_fields sc fs d = Inr m" and "well_fields sc fs"
    and "\<And>f. f \<in> set fs \<Longrightarrow> fst (snd f) = F_json \<Longrightarrow> map_of m (fst f) \<noteq> Some PNone"
    and "\<And>n t def v w. (n, t, def) \<in> set fs \<Longrightarrow> check sc t v = Inr w \<Longrightarrow>
       check sc t w = Inr w \<and> check sc t (dump t w) = Inr w \<and> (\<not> optional_type t \<and> t \<noteq> F_json \<longrightarrow> w \<noteq> PNone)"
    and "\<And>n. n \<in> names fs \<Longrightarrow> map_of d' n = map_of m n \<or> map_of d' n = map_of (dump_fields fs m) n"
  shows "check_fields sc fs d' = Inr m"
  using assms
proof (induction fs arbitrary: m)
  case Nil
  then show ?case by simp
next
  case (Cons f fs)
  obtain n t def where f: "f = (n, t, def)" by (cases f)
  from Cons.prems(1) f obtain v m1 where v: "(case map_of d n of Some v \<Rightarrow> check sc t v | None \<Rightarrow> of_opt ValueError def) = Inr v"
    and m1: "check_fields sc fs d = Inr m1" and m: "m = (n, v) # m1" by (auto simp: rbind_Inr_iff)
  from Cons.prems(2) f have w: "n \<notin> names fs" "well sc t" "well_fields sc fs"
    and df: "case def of None \<Rightarrow> \<not> optional_type t
         | Some v \<Rightarrow> if v = PNone then optional_type t else check sc t v = Inr v \<and> \<not> optional_type t" by simp_all
  have here: "map_of d' n = Some v \<or> map_of d' n = (if v = PNone then None else Some (dump t v))"
    using Cons.prems(5) [of n] f m dump_fields_None [OF w(1), of "(n, v) # m1"]
    by (auto simp: names_def split: if_split_asm)
  have good: "check sc t v = Inr v \<and> (v \<noteq> PNone \<longrightarrow> check sc t (dump t v) = Inr v)"
  proof (cases "map_of d n")
    case None
    with v df have "check sc t v = Inr v" by (cases t) (auto split: if_split_asm)
    with Cons.prems(4) [of n t def v v] f show ?thesis by simp
  next
    case (Some x)
    with v have "check sc t x = Inr v" by simp
    with Cons.prems(4) [of n t def x v] f show ?thesis by simp
  qed
  have null: "v = PNone \<Longrightarrow> def = Some PNone"
  proof -
    assume vn: "v = PNone"
    have "t \<noteq> F_json" using Cons.prems(3) [of f] f m vn by auto
    moreover have "check sc t v = Inr v" using good by simp
    ultimately have "optional_type t" using Cons.prems(4) [of n t def v v] f vn by auto
    with df show "def = Some PNone" by (auto split: option.split_asm if_split_asm)
  qed
  have rest: "check_fields sc fs d' = Inr m1"
  proof (rule Cons.IH [OF m1 w(3)])
    show "g \<in> set fs \<Longrightarrow> fst (snd g) = F_json \<Longrightarrow> map_of m1 (fst g) \<noteq> Some PNone" for g
      using Cons.prems(3) [of g] m w(1) by (auto simp: names_def split: if_split_asm)
    show "(k, s, df) \<in> set fs \<Longrightarrow> check sc s a = Inr b \<Longrightarrow> check sc s b = Inr b \<and> check sc s (dump s b) = Inr b \<and>
        (\<not> optional_type s \<and> s \<noteq> F_json \<longrightarrow> b \<noteq> PNone)" for k s df a b
      using Cons.prems(4) [of k s df a b] by simp
    fix k assume k: "k \<in> names fs"
    with w(1) have "k \<noteq> n" by auto
    with Cons.prems(5) [of k] k f m w(1) show "map_of d' k = map_of m1 k \<or> map_of d' k = map_of (dump_fields fs m1) k"
      by (auto simp: names_def dump_fields_skip split: if_split_asm)
  qed
  from here good null rest f m show ?case by (auto simp: of_opt_def split: if_split_asm)
qed

lemma dump_None: "dump t v = PNone \<Longrightarrow> v = PNone"
  by (induction t arbitrary: v) (auto split: pv.split_asm if_split_asm)

lemma check_again:
  "scalars_ok sc \<Longrightarrow> well sc t \<Longrightarrow> check sc t v = Inr w \<Longrightarrow>
     check sc t w = Inr w \<and> check sc t (dump t w) = Inr w \<and> (\<not> optional_type t \<and> t \<noteq> F_json \<longrightarrow> w \<noteq> PNone)"
proof (induction t arbitrary: v w)
  case (F_scalar k ok)
  then show ?case by (auto simp: scalars_ok_def rbind_Inr_iff split: if_split_asm)
next
  case (F_policy ok)
  then show ?case using policy_number_twice by (fastforce simp: rbind_Inr_iff split: if_split_asm)
next
  case (F_tuple t)
  then obtain vs ws where v: "v = PList vs" and ws: "mapM (check sc t) vs = Inr ws" and w: "w = PList ws"
    by (auto simp: rbind_Inr_iff split: pv.split_asm)
  have e: "check sc t y = Inr y \<and> check sc t (dump t y) = Inr y" if "check sc t x = Inr y" for x y
    using F_tuple.IH [OF F_tuple.prems(1) _ that] F_tuple.prems(2) by simp
  have "mapM (check sc t) (map (\<lambda>x. x) ws) = Inr ws" by (rule mapM_fix [OF ws]) (use e in blast)
  moreover have "mapM (check sc t) (map (dump t) ws) = Inr ws" by (rule mapM_fix [OF ws]) (use e in blast)
  ultimately show ?case using w by simp
next
  case (F_opt t)
  show ?case
  proof (cases "v = PNone")
    case True
    then show ?thesis using F_opt.prems(3) by simp
  next
    case False
    then have "check sc t v = Inr w" using F_opt.prems(3) by simp
    from F_opt.IH [OF F_opt.prems(1) _ this] F_opt.prems(2) dump_None [of t w] show ?thesis by auto
  qed
next
  case (F_sub fs)
  then obtain d m where v: "v = PDict d" and m: "check_fields sc fs d = Inr m" and w: "w = PDict m"
    by (auto simp: rbind_Inr_iff split: pv.split_asm if_split_asm)
  have wf: "well_fields sc fs" "\<And>f. f \<in> set fs \<Longrightarrow> fst (snd f) \<noteq> F_json" using F_sub.prems(2) by auto
  have wt: "(n, t, def) \<in> set gs \<Longrightarrow> well_fields sc gs \<Longrightarrow> well sc t" for n t def gs
    by (induction gs) auto
  have step: "check_fields sc fs d' = Inr m"
    if "\<And>n. n \<in> names fs \<Longrightarrow> map_of d' n = map_of m n \<or> map_of d' n = map_of (dump_fields fs m) n" for d'
  proof (rule check_fields_again [OF m wf(1) _ _ that])
    show "f \<in> set fs \<Longrightarrow> fst (snd f) = F_json \<Longrightarrow> map_of m (fst f) \<noteq> Some PNone" for f using wf(2) by blast
    fix n t def a b assume f: "(n, t, def) \<in> set fs" and c: "check sc t a = Inr b"
    from f have "t \<in> set (map (fst \<circ> snd) fs)" by force
    then show "check sc t b = Inr b \<and> check sc t (dump t b) = Inr b \<and> (\<not> optional_type t \<and> t \<noteq> F_json \<longrightarrow> b \<noteq> PNone)"
      using F_sub.IH [of "(n, t, def)" "(t, def)" t a b] F_sub.prems(1) wt [OF f wf(1)] c f by simp
  qed
  have "set (map fst m) \<subseteq> names fs" using check_fields_keys [OF m] by (simp add: names_def)
  moreover have "set (map fst (dump_fields fs m)) \<subseteq> names fs" by (rule dump_fields_keys)
  ultimately show ?case using step [of m] step [of "dump_fields fs m"] w by simp
qed (auto split: pv.split_asm if_split_asm)


lemma map_of_dict_update: "distinct (map fst e) \<Longrightarrow> map_of (dict_update d e) k = (case map_of e k of Some v \<Rightarrow> Some v | None \<Rightarrow> map_of d k)"
proof (induction e arbitrary: d)
  case (Cons p e)
  obtain a b where p: "p = (a, b)" by (cases p)
  from Cons have a: "a \<notin> set (map fst e)" using p by simp
  then have "map_of e a = None" by (simp add: map_of_eq_None_iff)
  with Cons p show ?case by (auto split: option.split)
qed simp

lemma dict_update_keys: "fst ` set (dict_update d e) = fst ` set d \<union> fst ` set e"
proof (induction e arbitrary: d)
  case (Cons p e)
  then show ?case by (cases p) (auto simp: dict_set_dom)
qed simp

lemma dump_fields_distinct: "well_fields sc fs \<Longrightarrow> distinct (map fst (dump_fields fs d))"
proof (induction fs)
  case (Cons f fs)
  obtain n t def where f: "f = (n, t, def)" by (cases f)
  with Cons.prems have "n \<notin> names fs" "well_fields sc fs" by simp_all
  moreover have "set (map fst (dump_fields fs d)) \<subseteq> names fs" by (rule dump_fields_keys)
  ultimately show ?case using Cons.IH f by (auto split: option.split)
qed simp

lemma map_of_filter_key: "map_of (filter (\<lambda>(k, _). P k) d) n = (if P n then map_of d n else None)"
  by (induction d) auto

lemma distinct_filter_key: "distinct (map fst d) \<Longrightarrow> distinct (map fst (filter P d))"
  by (induction d) (auto simp: image_iff)

section \<open>Every model of the graph loses nothing\<close>

lemma models_well:
  assumes "scalars_ok sc" and "map_of (MODELS zk) name = Some fs"
  shows "well_fields sc fs"
proof -
  have b: "sc S_bool (PBool False) = Inr (PBool False)" using assms(1) by (simp add: scalars_ok_def)
  note parts = Entity_fields_def required_def optional_def positive_def whole_def names_def anything_def
  have l: "well_fields sc Location_fields \<and> (\<forall>f \<in> set Location_fields. fst (snd f) \<noteq> F_json)"
    by (simp add: Location_fields_def parts)
  have p: "well_fields sc PhysicalParameters_fields \<and> (\<forall>f \<in> set PhysicalParameters_fields. fst (snd f) \<noteq> F_json)"
    by (simp add: PhysicalParameters_fields_def parts)
  have s: "well_fields sc ObservationState_fields \<and> (\<forall>f \<in> set ObservationState_fields. fst (snd f) \<noteq> F_json)"
    by (simp add: ObservationState_fields_def parts)
  have c: "well_fields sc PlanConstraint_fields \<and> (\<forall>f \<in> set PlanConstraint_fields. fst (snd f) \<noteq> F_json)"
    by (simp add: PlanConstraint_fields_def parts)
  from assms(2) show ?thesis
    by (auto simp: MODELS_def Household_fields_def Member_fields_def MemberAccount_fields_def TrustedContact_fields_def
      ContactChannel_fields_def Asset_fields_def AssetBinding_fields_def AssetPolicy_fields_def Schedule_fields_def
      ScheduleEvent_fields_def Routine_fields_def Preference_fields_def Observation_fields_def ConstraintRecord_fields_def
      parts b l p s c split: if_split_asm)
qed


section \<open>Round trip\<close>

lemma names_keys: "check_fields sc fs d = Inr m \<Longrightarrow> fst ` set m = names fs"
  using check_fields_keys [of sc fs d m] by (metis names_def set_map)

lemma check_fields_id:
  assumes "scalars_ok sc" and "well_fields sc fs" and "check_fields sc fs d = Inr m"
    and "\<And>f. f \<in> set fs \<Longrightarrow> fst (snd f) = F_json \<Longrightarrow> map_of m (fst f) \<noteq> Some PNone"
    and "\<And>n. n \<in> names fs \<Longrightarrow> map_of d' n = map_of m n \<or> map_of d' n = map_of (dump_fields fs m) n"
  shows "check_fields sc fs d' = Inr m"
proof (rule check_fields_again [OF assms(3,2,4) _ assms(5)])
  have wt: "(n, t, def) \<in> set gs \<Longrightarrow> well_fields sc gs \<Longrightarrow> well sc t" for n t def gs by (induction gs) auto
  fix n t def v w
  assume "(n, t, def) \<in> set fs" and c: "check sc t v = Inr w"
  from wt [OF this(1) assms(2)] have "well sc t" .
  from check_again [OF assms(1) this c]
  show "check sc t w = Inr w \<and> check sc t (dump t w) = Inr w \<and> (\<not> optional_type t \<and> t \<noteq> F_json \<longrightarrow> w \<noteq> PNone)" .
qed

lemma check_fields_each:
  "check_fields sc fs d = Inr m \<Longrightarrow> distinct (map fst fs) \<Longrightarrow> (n, t, def) \<in> set fs \<Longrightarrow> map_of d n = Some v \<Longrightarrow>
     \<exists>w. map_of m n = Some w \<and> check sc t v = Inr w"
proof (induction fs arbitrary: m)
  case (Cons f fs)
  obtain k s df where f: "f = (k, s, df)" by (cases f)
  from Cons.prems(1) f obtain x m1 where x: "(case map_of d k of Some v \<Rightarrow> check sc s v | None \<Rightarrow> of_opt ValueError df) = Inr x"
    and m1: "check_fields sc fs d = Inr m1" and m: "m = (k, x) # m1" by (auto simp: rbind_Inr_iff)
  show ?case
  proof (cases "(n, t, def) = f")
    case True
    then show ?thesis using x m f Cons.prems(4) by simp
  next
    case False
    with Cons.prems(2,3) have "(n, t, def) \<in> set fs" "distinct (map fst fs)" "n \<noteq> k" using f by (auto simp: image_iff)
    with Cons.IH [OF m1] Cons.prems(4) m show ?thesis by simp
  qed
qed simp

lemma check_fields_fixI:
  "map fst m = map fst fs \<Longrightarrow> distinct (map fst fs) \<Longrightarrow> (\<And>n. n \<in> names fs \<Longrightarrow> map_of d n = map_of m n) \<Longrightarrow>
   (\<And>n t def v. (n, t, def) \<in> set fs \<Longrightarrow> map_of d n = Some v \<Longrightarrow> check sc t v = Inr v) \<Longrightarrow> check_fields sc fs d = Inr m"
proof (induction fs arbitrary: m)
  case (Cons f fs)
  obtain k s df where f: "f = (k, s, df)" by (cases f)
  from Cons.prems(1) f obtain x m1 where m: "m = (k, x) # m1" and k: "map fst m1 = map fst fs" by (cases m) auto
  have x: "map_of d k = Some x" using Cons.prems(3) [of k] m f by (simp add: names_def)
  have n: "n \<noteq> k" if "n \<in> names fs" for n using that Cons.prems(2) f by (auto simp: names_def)
  have "check_fields sc fs d = Inr m1"
  proof (rule Cons.IH [OF k])
    show "distinct (map fst fs)" using Cons.prems(2) by simp
    show "map_of d n = map_of m1 n" if "n \<in> names fs" for n using Cons.prems(3) [of n] n [OF that] that m by (simp add: names_def)
    show "(n, t, def) \<in> set fs \<Longrightarrow> map_of d n = Some v \<Longrightarrow> check sc t v = Inr v" for n t def v
      using Cons.prems(4) [of n t def v] by simp
  qed
  with Cons.prems(4) [of k s df x] x f m show ?case by simp
qed simp

lemma dict_set_keys_in: "k \<in> fst ` set d \<Longrightarrow> map fst (dict_set k v d) = map fst d"
  by (induction k v d rule: dict_set.induct) auto

lemma well_fields_distinct: "well_fields sc fs \<Longrightarrow> distinct (map fst fs)"
proof (induction fs)
  case (Cons f fs)
  then show ?case by (cases f) (simp add: names_def)
qed simp

definition json_given :: "field list \<Rightarrow> pdict \<Rightarrow> bool" where
  "json_given fs m \<longleftrightarrow> (\<forall>f \<in> set fs. fst (snd f) = F_json \<longrightarrow> fld m (fst f) \<noteq> PNone)"

lemma json_givenD: "json_given fs m \<Longrightarrow> f \<in> set fs \<Longrightarrow> fst (snd f) = F_json \<Longrightarrow> map_of m (fst f) \<noteq> Some PNone"
  by (auto simp: json_given_def fld_def dict_get_def)

lemma temperature_keeps:
  assumes sc: "scalars_ok sc" and c: "check_fields sc Preference_fields d = Inr m" and v: "temperature m = Inr m'"
    and j: "json_given Preference_fields m'"
  shows "check_fields sc Preference_fields m' = Inr m' \<and> temperature m' = Inr m'"
proof -
  let ?fs = "Preference_fields"
  have w: "well_fields sc ?fs" by (rule models_well [OF sc, of "\<lambda>_. True" "''preferences''"]) (simp add: MODELS_def)
  note dist = well_fields_distinct [OF w]
  have pv: "policy_number PNone = Inl ValueError" by (simp add: policy_number_def)
  note parts = Preference_fields_def Entity_fields_def required_def positive_def
  have jm: "json_given ?fs m" using j v pv
    by (auto simp: json_given_def parts temperature_def rbind_Inr_iff fld_def dict_get_def split: if_split_asm)
  have m: "check_fields sc ?fs m = Inr m"
    by (rule check_fields_id [OF sc w c json_givenD [OF jm]]) simp_all
  show ?thesis
  proof (cases "fld m ''key'' = PStr ''temperature_target_f''")
    case False
    with v m show ?thesis by (simp add: temperature_def)
  next
    case True
    with v obtain x where x: "policy_number (fld m ''value'') = Inr x" and m': "m' = dict_set ''value'' x m"
      by (auto simp: temperature_def rbind_Inr_iff)
    have keys: "map fst m = map fst ?fs" by (rule check_fields_keys [OF c])
    then have k': "map fst m' = map fst ?fs" using arg_cong [OF keys, of set] m'
      by (subst m', subst dict_set_keys_in) (auto simp: parts)
    have "check_fields sc ?fs m' = Inr m'"
    proof (rule check_fields_fixI [OF k' dist refl])
      fix n t def v
      assume f: "(n, t, def) \<in> set ?fs" and n: "map_of m' n = Some v"
      show "check sc t v = Inr v"
      proof (cases "n = ''value''")
        case True
        with f have "t = F_json" by (simp add: parts)
        then show ?thesis by simp
      next
        case False
        with n m' have "map_of m n = Some v" by simp
        with check_fields_each [OF m dist f this] show ?thesis by simp
      qed
    qed
    moreover have "temperature m' = Inr m'"
    proof -
      have "fld m' ''key'' = PStr ''temperature_target_f''" "fld m' ''value'' = x" using True by (simp_all add: m' fld_def dict_get_def)
      moreover have "dict_set ''value'' x (dict_set ''value'' x m) = dict_set ''value'' x m"
        by (induction "''value''" x m rule: dict_set.induct) auto
      ultimately show ?thesis using policy_number_twice [OF x] by (simp add: temperature_def m')
    qed
    ultimately show ?thesis ..
  qed
qed

lemma class_validator_keeps:
  assumes sc: "scalars_ok sc" and fs: "map_of (MODELS zk) name = Some fs" and c: "check_fields sc fs d = Inr m"
    and v: "class_validator sc name m = Inr m'" and j: "json_given fs m'"
  shows "check_fields sc fs m' = Inr m' \<and> class_validator sc name m' = Inr m'"
proof (cases "name = ''preferences''")
  case True
  with fs have "fs = Preference_fields" by (simp add: MODELS_def)
  with temperature_keeps [OF sc, of d m m'] c v j True show ?thesis by (simp add: class_validator_def)
next
  case False
  then have "m' = m" using v
    by (auto simp: class_validator_def ordered_def one_subject_def consistent_def Let_def rbind_Inr_iff guard_def split: if_split_asm)
  with j have "json_given fs m" by simp
  from check_fields_id [OF sc models_well [OF sc fs] c json_givenD [OF this], of m] v \<open>m' = m\<close> show ?thesis by simp
qed

text \<open>What JSONB gives back as it was: the floats are finite and below 10^16.\<close>

fun storable :: "pv \<Rightarrow> bool" where
  "storable (PFloat x) = (case x of FFin d \<Rightarrow> large_float d = None | _ \<Rightarrow> False)"
| "storable (PList vs) = list_all storable vs"
| "storable (PDict d) = list_all (\<lambda>(k, v). storable v) d"
| "storable _ = True"

lemma storable_jsonb: "storable v \<Longrightarrow> jsonb v = v"
proof (induction v rule: jsonb.induct)
  case (2 vs)
  then show ?case by (auto simp: list_all_iff intro: map_idI)
next
  case (3 d)
  then show ?case by (fastforce simp: list_all_iff intro!: map_idI)
qed (auto split: flt.split_asm)

lemma storable_of: "storable (PDict d) \<Longrightarrow> map_of d k = Some v \<Longrightarrow> storable v"
  by (drule map_of_SomeD) (auto simp: list_all_iff)

lemma storable_dump: "storable v \<Longrightarrow> storable (dump t v)"
  and storable_dump_fields: "storable (PDict d) \<Longrightarrow> storable (PDict (dump_fields fs d))"
proof (induction t v and fs d rule: dump_dump_fields.induct)
  case (14 n t def fs d)
  then show ?case using storable_of [of d n] by (auto split: option.split)
qed (auto simp: list_all_iff split: pv.split)

lemma jsonb_values:
  assumes "storable (PDict d)"
  shows "map (\<lambda>(k, v). (k, jsonb v)) (filter P d) = filter P d"
  by (rule map_idI) (use assms in \<open>auto simp: list_all_iff dest: storable_jsonb\<close>)

text \<open>What a validated model is stored as reads back as that model.\<close>

lemma row_model_row_values:
  assumes sc: "scalars_ok sc" and m: "model_validate sc zk name d = Inr m"
    and j: "\<And>fs. map_of (MODELS zk) name = Some fs \<Longrightarrow> json_given fs m" and st: "storable (PDict m)"
  shows "row_model sc zk name (row_values zk name m) = Inr m"
proof -
  from m obtain fs m0 where fs: "map_of (MODELS zk) name = Some fs" and c: "check_fields sc fs d = Inr m0"
    and v: "class_validator sc name m0 = Inr m"
    by (auto simp: model_validate_def rbind_Inr_iff split: if_split_asm)
  note keep = class_validator_keeps [OF sc fs c v j [OF fs]]
  note w = models_well [OF sc fs]
  have rv: "row_values zk name m = (filter (\<lambda>(k, _). k \<in> set (columns name)) m,
       filter (\<lambda>(k, _). k \<notin> set (columns name)) (dump_fields fs m))"
    using jsonb_values [OF storable_dump_fields [OF st]] by (simp add: row_values_def fs)
  define r where "r = dict_update (fst (row_values zk name m)) (snd (row_values zk name m))"
  have a: "distinct (map fst (snd (row_values zk name m)))"
    by (simp add: rv distinct_filter_key [OF dump_fields_distinct [OF w]])
  have r: "map_of r n = (if n \<in> set (columns name) then map_of m n else map_of (dump_fields fs m) n)" for n
    unfolding r_def map_of_dict_update [OF a] by (simp add: rv map_of_filter_key split: option.split)
  have "check_fields sc fs r = Inr m"
    by (rule check_fields_id [OF sc w conjunct1 [OF keep] json_givenD [OF j [OF fs]]]) (simp_all add: r)
  moreover have "fst ` set r \<subseteq> names fs"
    using dump_fields_keys [of fs m] names_keys [of sc fs m m] keep
    by (auto simp: r_def dict_update_keys rv image_iff)
  ultimately show ?thesis using keep by (simp add: row_model_def model_validate_def fs of_opt_def r_def [symmetric])
qed


text \<open>A pydantic for the samples: it converts nothing.\<close>

definition plain_scalars :: scalars where
  "plain_scalars k v =
     (case (k, v) of
        (S_uuid, PStr s) \<Rightarrow> Inr v
      | (S_bool, PBool b) \<Rightarrow> Inr v
      | (S_int, PInt n) \<Rightarrow> Inr v
      | (S_float, PFloat (FFin d)) \<Rightarrow> Inr v
      | (S_time, PInt n) \<Rightarrow> Inr v
      | _ \<Rightarrow> Inl ValueError)"

lemma plain_scalars_ok: "scalars_ok plain_scalars"
  by (auto simp: scalars_ok_def plain_scalars_def split: prod.split_asm scalar.split_asm pv.split_asm flt.split_asm)

definition warm_preference :: pdict where
  "warm_preference =
     [(''household_id'', PStr ''home''), (''id'', PStr ''warm''), (''member_id'', PStr ''priya''), (''scope'', PStr ''member''),
      (''key'', PStr ''temperature_target_f''), (''value'', PFloat (FFin (Dec 7012345 (- 5)))), (''source'', PStr ''declared''),
      (''confidence'', PFloat (FFin (Dec 9 (- 1))))]"

definition warm_model :: pdict where
  "warm_model = dict_set ''value'' (PFloat (FFin (Dec 701235 (- 4)))) warm_preference"

lemma warm_preference_model: "model_validate plain_scalars (\<lambda>_. True) ''preferences'' warm_preference = Inr warm_model"
  by code_simp

text \<open>Without the proviso there is no round trip: a preference whose value is null is accepted, stored without its value, and
  cannot be read back.\<close>

definition null_preference :: pdict where
  "null_preference = dict_set ''key'' (PStr ''music'') (dict_set ''value'' PNone warm_preference)"

lemma null_preference_lost:
  "model_validate plain_scalars (\<lambda>_. True) ''preferences'' null_preference = Inr null_preference \<and>
   row_model plain_scalars (\<lambda>_. True) ''preferences'' (row_values (\<lambda>_. True) ''preferences'' null_preference) = Inl ValueError"
  by (intro conjI; code_simp)

end
