(* ===== verification/Graph.thy ===== *)
theory Graph
  imports Graph_Rows
begin

text \<open>
  Versioned rows of a household, \<open>GraphRepository\<close> of \<open>hirz/graph/repository.py\<close>: current rows, the
  history of the versions they replaced with the interval each was valid in, reads as of an instant,
  and writes under one lock and one timestamp per transaction. An instant is an integer of
  microseconds. The integrity constraints are those \<open>hirz/db.py\<close> declares over these tables.
\<close>

section \<open>Rows and sessions\<close>

datatype graph_exn = GraphError | Invalid exn | IntegrityError | MultipleResultsFound

type_synonym 'a graph_result = "graph_exn + 'a"

fun graph_of :: "'a result \<Rightarrow> 'a graph_result" where
  "graph_of (Inl e) = Inl (Invalid e)"
| "graph_of (Inr x) = Inr x"

record grow =
  g_table :: string
  g_native :: pdict
  g_attributes :: pdict
  g_from :: int
  g_to :: "int option"

type_synonym view = "(string \<times> pdict list) list"

text \<open>
  \<open>audited\<close>, \<open>constitutions\<close> and \<open>pinned\<close> are what rows of other tables say: numbered audit rows,
  numbered constitutions, and the graph rows (table, household, id) other tables refer to.
\<close>

record graph =
  current_rows :: "grow list"
  history_rows :: "grow list"
  household_context :: "(string \<times> view) list"
  audited :: "(string \<times> int) list"
  constitutions :: "(string \<times> int) list"
  pinned :: "(string \<times> string \<times> string) list"

record session =
  repo_household :: string
  repo_at :: "int option"
  repo_changed :: bool
  repo_revision :: nat
  repo_store :: graph

definition table_names :: "string list" where
  "table_names = [''households'', ''members'', ''member_accounts'', ''trusted_contacts'', ''contact_channels'', ''assets'',
     ''asset_bindings'', ''asset_policies'', ''schedules'', ''schedule_events'', ''routines'', ''preferences'', ''observations'',
     ''constraints'']"

definition scope_column :: "string \<Rightarrow> string" where
  "scope_column name = (if name = ''households'' then ''id'' else ''household_id'')"

definition text_of :: "pv \<Rightarrow> string" where
  "text_of v = (case v of PStr s \<Rightarrow> s | _ \<Rightarrow> [])"

definition belongs :: "string \<Rightarrow> grow \<Rightarrow> bool" where
  "belongs hh r \<longleftrightarrow> fld (g_native r) (scope_column (g_table r)) = PStr hh"

text \<open>The primary key of a row, its household first.\<close>

definition row_key :: "grow \<Rightarrow> string \<times> pv list" where
  "row_key r = (g_table r, map (fld (g_native r)) (scope_column (g_table r) # primary_key (g_table r)))"

text \<open>\<open>valid_from <= :as_of AND :as_of < valid_to\<close>; a current row has no end.\<close>

definition valid_at :: "int \<Rightarrow> grow \<Rightarrow> bool" where
  "valid_at t r \<longleftrightarrow> g_from r \<le> t \<and> (case g_to r of None \<Rightarrow> True | Some e \<Rightarrow> t < e)"

definition rows_at :: "int option \<Rightarrow> graph \<Rightarrow> grow list" where
  "rows_at since g = (case since of None \<Rightarrow> current_rows g
     | Some t \<Rightarrow> filter (valid_at t) (current_rows g) @ filter (valid_at t) (history_rows g))"

section \<open>Snapshots\<close>

definition secrets :: "string list" where "secrets = [''safe_word_hash'', ''value_hash'']"

definition json_row :: "grow \<Rightarrow> pdict" where
  "json_row r = dict_update
     (g_native r @ [(''valid_from'', PInt (g_from r)), (''valid_to'', case g_to r of None \<Rightarrow> PNone | Some e \<Rightarrow> PInt e)]) (g_attributes r)"

text \<open>Private fields are stripped after the merge.\<close>

definition projection :: "bool \<Rightarrow> grow \<Rightarrow> pdict" where
  "projection private r = filter (\<lambda>(k, _). private \<or> k \<notin> set secrets) (json_row r)"

definition snapshot_tables :: "bool \<Rightarrow> string list" where
  "snapshot_tables private = filter (\<lambda>n. private \<or> n \<noteq> ''member_accounts'') table_names"

definition table_rows :: "grow list \<Rightarrow> string \<Rightarrow> string \<Rightarrow> grow list" where
  "table_rows rs hh name = sort_key (\<lambda>r. map text_of (snd (row_key r))) (filter (\<lambda>r. g_table r = name \<and> belongs hh r) rs)"

definition snapshot :: "bool \<Rightarrow> int option \<Rightarrow> graph \<Rightarrow> string \<Rightarrow> view" where
  "snapshot private since g hh =
     map (\<lambda>name. (name, map (projection private) (table_rows (rows_at since g) hh name))) (snapshot_tables private)"

definition snapshot_sql :: "bool \<Rightarrow> int option \<Rightarrow> graph \<Rightarrow> (string \<times> view) list" where
  "snapshot_sql private since g =
     map (\<lambda>h. let hh = text_of (fld (g_native h) ''id'') in (hh, snapshot private since g hh)) (filter (\<lambda>r. g_table r = ''households'') (rows_at since g))"

definition refresh :: "graph \<Rightarrow> graph" where
  "refresh g = g\<lparr>household_context := snapshot_sql False None g\<rparr>"

section \<open>Reading one entity\<close>

definition exact_key :: "string \<Rightarrow> pdict \<Rightarrow> bool" where
  "exact_key name key \<longleftrightarrow> set (map fst key) = set (primary_key name)"

definition row_where :: "string \<Rightarrow> string \<Rightarrow> pdict \<Rightarrow> grow \<Rightarrow> bool" where
  "row_where hh name key r \<longleftrightarrow> g_table r = name \<and> belongs hh r \<and> (\<forall>(k, v) \<in> set key. fld (g_native r) k = v)"

definition one_or_none :: "'a list \<Rightarrow> 'a option graph_result" where
  "one_or_none xs = (case xs of [] \<Rightarrow> Inr None | [x] \<Rightarrow> Inr (Some x) | _ \<Rightarrow> Inl MultipleResultsFound)"

definition get_row :: "string \<Rightarrow> pdict \<Rightarrow> int option \<Rightarrow> int \<Rightarrow> session \<Rightarrow> grow option graph_result" where
  "get_row name key since clock s =
     rbind (guard GraphError (name \<in> set table_names)) (\<lambda>_.
     rbind (guard GraphError (exact_key name key)) (\<lambda>_.
     rbind (guard GraphError (case since of None \<Rightarrow> True | Some t \<Rightarrow> t \<le> clock)) (\<lambda>_.
       one_or_none (filter (row_where (repo_household s) name key) (rows_at since (repo_store s))))))"

text \<open>Calls without \<open>as_of\<close> do not read the clock.\<close>

abbreviation (input) get_now :: "string \<Rightarrow> pdict \<Rightarrow> session \<Rightarrow> grow option graph_result" where
  "get_now name key s \<equiv> get_row name key None 0 s"

section \<open>Equality of entities\<close>

text \<open>\<open>==\<close> of two models: field by field, containers by their elements.\<close>

function same_value :: "pv \<Rightarrow> pv \<Rightarrow> bool" where
  "same_value v w =
     (case v of
        PList xs \<Rightarrow> (case w of
           PList ys \<Rightarrow> length xs = length ys \<and> (\<forall>(x, y) \<in> set (zip xs ys). same_value x y)
         | _ \<Rightarrow> False)
      | PDict d \<Rightarrow> (case w of
           PDict e \<Rightarrow> fst ` set d = fst ` set e \<and> (\<forall>k \<in> fst ` set d. same_value (the (map_of d k)) (the (map_of e k)))
         | _ \<Rightarrow> False)
      | _ \<Rightarrow> py_eq v w)"
  by pat_completeness auto
termination
proof (relation "measure (\<lambda>(v, _). size v)", goal_cases)
  case 1
  show ?case by simp
next
  case (2 v w xs ys p x y)
  then have "x \<in> set xs" by (auto dest: set_zip_leftD)
  then have "size x \<le> size_list size xs" by (rule size_list_estimation') simp
  with 2 show ?case by (cases p) auto
next
  case (3 v w d e k)
  then obtain x where x: "map_of d k = Some x" by (metis map_of_eq_None_iff not_None_eq)
  then have "(k, x) \<in> set d" by (rule map_of_SomeD)
  then have "size x \<le> size_list (size_prod (\<lambda>_. 0) size) d" by (rule size_list_estimation') simp
  with 3 x show ?case by simp
qed

declare same_value.simps [simp del]


section \<open>Integrity constraints\<close>

definition references :: "string \<Rightarrow> (string \<times> string) list" where
  "references name = (if name = ''member_accounts'' then [(''member_id'', ''members'')]
     else case map_of REFERENCES name of None \<Rightarrow> [] | Some r \<Rightarrow> r)"

definition g_home :: "grow \<Rightarrow> pv" where
  "g_home r = fld (g_native r) (scope_column (g_table r))"

definition has_row :: "grow list \<Rightarrow> string \<Rightarrow> pv \<Rightarrow> pv \<Rightarrow> bool" where
  "has_row rs name home i \<longleftrightarrow> (\<exists>r \<in> set rs. g_table r = name \<and> g_home r = home \<and> fld (g_native r) ''id'' = i)"

definition refers_ok :: "graph \<Rightarrow> grow \<Rightarrow> bool" where
  "refers_ok g r \<longleftrightarrow>
     (g_table r \<noteq> ''households'' \<and> g_table r \<noteq> ''member_accounts'' \<longrightarrow>
        (\<exists>h \<in> set (current_rows g). g_table h = ''households'' \<and> g_home h = g_home r)) \<and>
     (\<forall>(c, target) \<in> set (references (g_table r)).
        fld (g_native r) c = PNone \<or> has_row (current_rows g) target (g_home r) (fld (g_native r) c)) \<and>
     (g_table r = ''constraints'' \<longrightarrow>
        (\<forall>c \<in> {''decision_seq'', ''recorded_seq'', ''withdrawn_seq'', ''withdrawal_decision_seq''}.
           fld (g_native r) c = PNone \<or> (\<exists>(hh, n) \<in> set (audited g). g_home r = PStr hh \<and> fld (g_native r) c = PInt n)))"

definition observation_slot :: "grow \<Rightarrow> pv \<times> pv \<times> string" where
  "observation_slot r = (fld (g_native r) ''member_id'', fld (g_native r) ''asset_id'', text_of (fld (g_attributes r) ''domain''))"

definition unique_ok :: "grow list \<Rightarrow> grow \<Rightarrow> bool" where
  "unique_ok rs r \<longleftrightarrow> (\<forall>q \<in> set rs. row_key q = row_key r \<or> g_table q \<noteq> g_table r \<or> g_home q \<noteq> g_home r \<or>
     (if g_table r \<in> {''asset_bindings'', ''asset_policies''} then fld (g_native q) ''asset_id'' \<noteq> fld (g_native r) ''asset_id''
      else g_table r = ''observations'' \<longrightarrow> observation_slot q \<noteq> observation_slot r))"

definition stores :: "graph \<Rightarrow> grow \<Rightarrow> bool" where
  "stores g r \<longleftrightarrow> refers_ok g r \<and> unique_ok (current_rows g) r"

definition archives :: "graph \<Rightarrow> grow \<Rightarrow> bool" where
  "archives g r \<longleftrightarrow> (\<forall>q \<in> set (history_rows g). row_key q \<noteq> row_key r \<or> g_from q \<noteq> g_from r)"

text \<open>No row left behind may refer to a removed one.\<close>

definition removable :: "graph \<Rightarrow> grow \<Rightarrow> bool" where
  "removable g r \<longleftrightarrow>
     (g_table r, text_of (g_home r), text_of (fld (g_native r) ''id'')) \<notin> set (pinned g) \<and>
     (\<forall>q \<in> set (current_rows g). row_key q = row_key r \<or> g_home q \<noteq> g_home r \<or>
        (g_table r = ''households'' \<longrightarrow> g_table q = ''member_accounts'') \<and>
        (\<forall>(c, target) \<in> set (references (g_table q)). target = g_table r \<longrightarrow> fld (g_native q) c \<noteq> fld (g_native r) ''id''))"

text \<open>The reference to a constitution is checked when the transaction commits.\<close>

definition commits :: "graph \<Rightarrow> bool" where
  "commits g \<longleftrightarrow> (\<forall>r \<in> set (current_rows g). g_table r = ''households'' \<longrightarrow>
     fld (g_native r) ''constitution_version'' = PNone \<or>
     (\<exists>(hh, n) \<in> set (constitutions g). g_home r = PStr hh \<and> fld (g_native r) ''constitution_version'' = PInt n))"

section \<open>Writes\<close>

definition last_write :: "graph \<Rightarrow> string \<Rightarrow> int option" where
  "last_write g hh = (let ts = map g_from (filter (belongs hh) (current_rows g)) in if ts = [] then None else Some (Max (set ts)))"

definition asset_kinds :: "scalars \<Rightarrow> (string \<Rightarrow> bool) \<Rightarrow> session \<Rightarrow> pv list \<Rightarrow> (string \<times> string) list graph_result" where
  "asset_kinds sc zk s ids =
     rbind (mapM (\<lambda>i. rbind (get_now ''assets'' [(''id'', i)] s) (\<lambda>r. case r of
          None \<Rightarrow> Inr []
        | Some r \<Rightarrow>
            rbind (graph_of (row_model sc zk ''assets'' (g_native r, g_attributes r))) (\<lambda>a.
            rbind (graph_of (model_validate sc zk ''assets'' a)) (\<lambda>a.
              Inr [(text_of (fld a ''id''), text_of (fld a ''kind''))])))) (filter (\<lambda>i. i \<noteq> PNone) (remdups ids))) (\<lambda>xs. Inr (concat xs))"

definition observation_write ::
  "scalars \<Rightarrow> (string \<Rightarrow> bool) \<Rightarrow> session \<Rightarrow> int \<Rightarrow> pdict \<Rightarrow> grow option \<Rightarrow> unit graph_result"
where
  "observation_write sc zk s now m old =
     rbind (guard GraphError (instant m ''observed_at'' \<le> now)) (\<lambda>_.
     rbind (case old of
        None \<Rightarrow> Inr ()
      | Some r \<Rightarrow>
          rbind (graph_of (row_model sc zk ''observations'' (g_native r, g_attributes r))) (\<lambda>q.
          rbind (graph_of (model_validate sc zk ''observations'' q)) (\<lambda>previous.
          rbind (guard GraphError (instant previous ''observed_at'' \<le> instant m ''observed_at'')) (\<lambda>_.
          rbind (guard GraphError (fld m ''member_id'' = fld previous ''member_id'' \<and> fld m ''asset_id'' = fld previous ''asset_id'')) (\<lambda>_.
            guard GraphError (fld m ''domain'' = fld previous ''domain'')))))) (\<lambda>_.
     rbind (if given m ''member_id'' then get_now ''members'' [(''id'', fld m ''member_id'')] s else Inr None) (\<lambda>who.
     rbind (asset_kinds sc zk s [fld m ''asset_id'', fld (sub_fields m ''state'') ''zone_id'']) (\<lambda>kinds.
       case observation_scope m (repo_household s) (if who = None then {} else {text_of (fld m ''member_id'')}) (map_of kinds) now of
         Inl _ \<Rightarrow> Inl GraphError | Inr u \<Rightarrow> Inr u))))"

definition require_zone :: "pv \<Rightarrow> session \<Rightarrow> unit graph_result" where
  "require_zone zid s =
     rbind (get_now ''assets'' [(''id'', zid)] s) (\<lambda>z. case z of
        None \<Rightarrow> Inl GraphError
      | Some r \<Rightarrow> guard GraphError (fld (g_attributes r) ''kind'' = PStr ''hvac_zone''))"

definition archived :: "grow \<Rightarrow> graph \<Rightarrow> graph" where
  "archived r g = g\<lparr>history_rows := history_rows g @ [r]\<rparr>"

definition removed :: "grow \<Rightarrow> graph \<Rightarrow> graph" where
  "removed r g = g\<lparr>current_rows := filter (\<lambda>q. row_key q \<noteq> row_key r) (current_rows g)\<rparr>"

definition inserted :: "grow \<Rightarrow> graph \<Rightarrow> graph" where
  "inserted r g = g\<lparr>current_rows := current_rows g @ [r]\<rparr>"

definition replaced :: "grow \<Rightarrow> graph \<Rightarrow> graph" where
  "replaced r g = g\<lparr>current_rows := map (\<lambda>q. if row_key q = row_key r then r else q) (current_rows g)\<rparr>"

text \<open>The statements at the end of \<open>_write\<close>.\<close>

definition store_row :: "bool \<Rightarrow> grow option \<Rightarrow> grow \<Rightarrow> int \<Rightarrow> graph \<Rightarrow> graph graph_result" where
  "store_row closing old new now g =
     (if closing then
        (case old of
           None \<Rightarrow> Inl GraphError
         | Some r \<Rightarrow>
             let final = new\<lparr>g_from := g_from r, g_to := Some now\<rparr> in
             rbind (guard IntegrityError (archives g final)) (\<lambda>_.
             rbind (guard IntegrityError (removable g r)) (\<lambda>_. Inr (removed r (archived final g)))))
      else
        (case old of
           None \<Rightarrow> rbind (guard IntegrityError (stores g new)) (\<lambda>_. Inr (inserted new g))
         | Some r \<Rightarrow>
             let past = r\<lparr>g_to := Some now\<rparr> in
             rbind (guard IntegrityError (archives g past)) (\<lambda>_.
             rbind (guard IntegrityError (stores g new)) (\<lambda>_. Inr (replaced new (archived past g))))))"

type_synonym entity = "string \<times> pdict"

text \<open>The checks of \<open>_write\<close> before it changes anything: \<open>None\<close> when the entity is already so.\<close>

definition admit ::
  "scalars \<Rightarrow> (string \<Rightarrow> bool) \<Rightarrow> string \<Rightarrow> entity \<Rightarrow> int option \<Rightarrow> bool \<Rightarrow> session \<Rightarrow> (grow option \<times> grow \<times> int) option graph_result"
where
  "admit sc zk name e expected closing s =
     rbind (of_opt GraphError (repo_at s)) (\<lambda>now.
     rbind (guard GraphError (name \<in> set table_names \<and> fst e = name)) (\<lambda>_.
     rbind (graph_of (model_validate sc zk name (snd e))) (\<lambda>m.
     rbind (guard GraphError (name = ''observations'' \<longrightarrow> given m ''domain'')) (\<lambda>_.
     let new = \<lparr>g_table = name, g_native = fst (row_values zk name m), g_attributes = snd (row_values zk name m),
                g_from = now, g_to = None\<rparr> in
     rbind (guard GraphError (fld (g_native new) (scope_column name) = PStr (repo_household s))) (\<lambda>_.
     rbind (get_now name (map (\<lambda>c. (c, fld (g_native new) c)) (primary_key name)) s) (\<lambda>old.
     rbind (guard GraphError (map_option g_from old = expected)) (\<lambda>_.
     rbind (case old of
        Some r \<Rightarrow> if closing then Inr False
          else rbind (graph_of (row_model sc zk name (g_native r, g_attributes r))) (\<lambda>was. Inr (same_value (PDict was) (PDict m)))
      | None \<Rightarrow> Inr False) (\<lambda>unchanged.
     if unchanged then Inr None
     else
       rbind (guard GraphError (case old of Some r \<Rightarrow> g_from r < now | None \<Rightarrow> True)) (\<lambda>_.
       rbind (guard GraphError (case last_write (repo_store s) (repo_household s) of Some t \<Rightarrow> t \<le> now | None \<Rightarrow> True)) (\<lambda>_.
       rbind (guard GraphError (name = ''contact_channels'' \<and> given m ''verified_at'' \<longrightarrow> instant m ''verified_at'' \<le> now)) (\<lambda>_.
       rbind (if name = ''observations'' then observation_write sc zk s now m old else Inr ()) (\<lambda>_.
       rbind (if name = ''schedule_events'' \<and> given (g_native new) ''zone_id'' then require_zone (fld (g_native new) ''zone_id'') s else Inr ()) (\<lambda>_.
         Inr (Some (old, new, now)))))))))))))))"

definition write_row ::
  "scalars \<Rightarrow> (string \<Rightarrow> bool) \<Rightarrow> string \<Rightarrow> entity \<Rightarrow> int option \<Rightarrow> bool \<Rightarrow> session \<Rightarrow> session \<times> bool graph_result"
where
  "write_row sc zk name e expected closing s =
     (case admit sc zk name e expected closing s of
        Inl err \<Rightarrow> (s, Inl err)
      | Inr None \<Rightarrow> (s, Inr False)
      | Inr (Some (old, new, now)) \<Rightarrow>
          (case store_row closing old new now (repo_store s) of
             Inl err \<Rightarrow> (s, Inl err)
           | Inr g \<Rightarrow> (s\<lparr>repo_store := g, repo_changed := True, repo_revision := repo_revision s + 1\<rparr>, Inr True)))"

definition put :: "scalars \<Rightarrow> (string \<Rightarrow> bool) \<Rightarrow> string \<Rightarrow> entity \<Rightarrow> int option \<Rightarrow> session \<Rightarrow> session \<times> bool graph_result" where
  "put sc zk name e expected s = write_row sc zk name e expected False s"

definition close :: "scalars \<Rightarrow> (string \<Rightarrow> bool) \<Rightarrow> string \<Rightarrow> entity \<Rightarrow> int \<Rightarrow> session \<Rightarrow> session \<times> bool graph_result" where
  "close sc zk name e expected s = write_row sc zk name e (Some expected) True s"

section \<open>One transaction\<close>

datatype write_op = Put string entity "int option" | Close string entity int

fun apply_op :: "scalars \<Rightarrow> (string \<Rightarrow> bool) \<Rightarrow> write_op \<Rightarrow> session \<Rightarrow> session \<times> bool graph_result" where
  "apply_op sc zk (Put name e expected) s = put sc zk name e expected s"
| "apply_op sc zk (Close name e expected) s = close sc zk name e expected s"

fun apply_ops :: "scalars \<Rightarrow> (string \<Rightarrow> bool) \<Rightarrow> write_op list \<Rightarrow> session \<Rightarrow> session \<times> bool list graph_result" where
  "apply_ops sc zk [] s = (s, Inr [])"
| "apply_ops sc zk (p # ps) s =
     (case apply_op sc zk p s of
        (s, Inl e) \<Rightarrow> (s, Inl e)
      | (s, Inr b) \<Rightarrow>
          (case apply_ops sc zk ps s of (s, Inl e) \<Rightarrow> (s, Inl e) | (s, Inr bs) \<Rightarrow> (s, Inr (b # bs))))"

text \<open>\<open>write\<close>: a transaction of its own under one timestamp; on an error nothing of it stays.\<close>

definition graph_write :: "int \<Rightarrow> (session \<Rightarrow> session \<times> 'a graph_result) \<Rightarrow> session \<Rightarrow> session \<times> 'a graph_result" where
  "graph_write clock body s =
     (if repo_at s \<noteq> None then (s, Inl GraphError)
      else
        let start = s\<lparr>repo_at := Some clock, repo_revision := repo_revision s + 1, repo_changed := False\<rparr>;
            (inner, out) = body start;
            ended = inner\<lparr>repo_at := None, repo_revision := repo_revision inner + 1, repo_changed := False\<rparr>
        in case out of
             Inl e \<Rightarrow> (ended\<lparr>repo_store := repo_store s\<rparr>, Inl e)
           | Inr x \<Rightarrow>
               if commits (repo_store inner)
               then (ended\<lparr>repo_store := if repo_changed inner then refresh (repo_store inner) else repo_store inner\<rparr>, Inr x)
               else (ended\<lparr>repo_store := repo_store s\<rparr>, Inl IntegrityError))"

end
