(* ===== verification/Graph_Laws.thy ===== *)
theory Graph_Laws
  imports Graph
begin

text \<open>
  What the versioned rows promise: at every instant at most one version of an entity is valid, a write
  at an instant changes what is read from that instant on and nothing read before it, and a writer that
  has not seen the current version is refused. The abstract store behind it is a locale.
\<close>

section \<open>A store that remembers\<close>

text \<open>
  \<open>view s t k\<close> is what was valid for \<open>k\<close> at \<open>t\<close>, \<open>revise t k x s s'\<close> a write at \<open>t\<close> that makes it \<open>x\<close>.
\<close>

locale remembering =
  fixes view :: "'s \<Rightarrow> int \<Rightarrow> 'k \<Rightarrow> 'v option"
    and revise :: "int \<Rightarrow> 'k \<Rightarrow> 'v \<Rightarrow> 's \<Rightarrow> 's \<Rightarrow> bool"
  assumes revised: "revise now k x s s' \<Longrightarrow> view s' t j = (if j = k \<and> now \<le> t then Some x else view s t j)"
begin

lemma past_kept: "revise now k x s s' \<Longrightarrow> t < now \<Longrightarrow> view s' t j = view s t j"
  by (simp add: revised)

lemma latest_wins: "revise now k x s s' \<Longrightarrow> revise later k y s' s'' \<Longrightarrow> now \<le> later \<Longrightarrow> now \<le> t \<Longrightarrow>
    view s'' t k = Some (if later \<le> t then y else x)"
  by (simp add: revised)

lemma others_kept: "revise now k x s s' \<Longrightarrow> j \<noteq> k \<Longrightarrow> view s' t j = view s t j"
  by (simp add: revised)

end

section \<open>Intervals\<close>

definition before :: "grow \<Rightarrow> grow \<Rightarrow> bool" where
  "before q r \<longleftrightarrow> (case g_to q of Some e \<Rightarrow> e \<le> g_from r | None \<Rightarrow> False)"

definition apart :: "grow \<Rightarrow> grow \<Rightarrow> bool" where
  "apart q r \<longleftrightarrow> row_key q \<noteq> row_key r \<or> before q r \<or> before r q"

definition versions_ok :: "graph \<Rightarrow> bool" where
  "versions_ok g \<longleftrightarrow> sorted_wrt apart (current_rows g @ history_rows g) \<and> (\<forall>r \<in> set (current_rows g). g_to r = None) \<and>
     (\<forall>r \<in> set (history_rows g). \<exists>e. g_to r = Some e \<and> g_from r < e)"

text \<open>No version of the household begins or ends after \<open>t\<close>.\<close>

definition settled :: "graph \<Rightarrow> string \<Rightarrow> int \<Rightarrow> bool" where
  "settled g hh t \<longleftrightarrow> (\<forall>r \<in> set (current_rows g @ history_rows g). belongs hh r \<longrightarrow>
     g_from r \<le> t \<and> (case g_to r of Some e \<Rightarrow> e \<le> t | None \<Rightarrow> True))"

definition version_at :: "graph \<Rightarrow> int \<Rightarrow> string \<times> pv list \<Rightarrow> (pdict \<times> pdict) option" where
  "version_at g t k =
     (case filter (\<lambda>r. row_key r = k) (rows_at (Some t) g) of [] \<Rightarrow> None | r # _ \<Rightarrow> Some (g_native r, g_attributes r))"

lemma apart_sym: "apart q r \<Longrightarrow> apart r q"
  by (auto simp: apart_def)

lemma apart_alone: "apart q r \<Longrightarrow> valid_at t q \<Longrightarrow> valid_at t r \<Longrightarrow> row_key q \<noteq> row_key r"
  by (auto simp: apart_def before_def valid_at_def split: option.splits)

lemma sorted_alone: "sorted_wrt apart rs \<Longrightarrow> length (filter (\<lambda>r. row_key r = k \<and> valid_at t r) rs) \<le> 1"
proof (induction rs)
  case (Cons r rs)
  show ?case
  proof (cases "row_key r = k \<and> valid_at t r")
    case True
    with Cons.prems have "filter (\<lambda>r. row_key r = k \<and> valid_at t r) rs = []"
      by (fastforce simp: filter_empty_conv dest: apart_alone)
    then show ?thesis by simp
  next
    case False
    with Cons show ?thesis by auto
  qed
qed simp

lemma one_version: "versions_ok g \<Longrightarrow> length (filter (\<lambda>r. row_key r = k) (rows_at (Some t) g)) \<le> 1"
  using sorted_alone [of "current_rows g @ history_rows g" k t] by (simp add: versions_ok_def rows_at_def conj_commute)

lemma version_at_Some:
  assumes "versions_ok g"
  shows "version_at g t k = Some x \<longleftrightarrow>
    (\<exists>r \<in> set (current_rows g) \<union> set (history_rows g). row_key r = k \<and> valid_at t r \<and> x = (g_native r, g_attributes r))"
proof -
  have m: "set (filter (\<lambda>r. row_key r = k) (rows_at (Some t) g)) =
      {r \<in> set (current_rows g) \<union> set (history_rows g). row_key r = k \<and> valid_at t r}"
    by (auto simp: rows_at_def)
  show ?thesis
  proof (cases "filter (\<lambda>r. row_key r = k) (rows_at (Some t) g)")
    case Nil
    with m show ?thesis by (auto simp: version_at_def)
  next
    case (Cons r rs)
    with one_version [OF assms, of k t] have "rs = []" by simp
    with Cons m have "{r \<in> set (current_rows g) \<union> set (history_rows g). row_key r = k \<and> valid_at t r} = {r}" by simp
    moreover have "version_at g t k = Some (g_native r, g_attributes r)" using Cons by (simp add: version_at_def)
    ultimately show ?thesis by (fastforce simp: set_eq_iff)
  qed
qed

lemma version_at_eq:
  assumes "versions_ok g" "versions_ok g'"
  shows "version_at g' t k = version_at g t k \<longleftrightarrow>
    (\<forall>x. (\<exists>r \<in> set (current_rows g') \<union> set (history_rows g'). row_key r = k \<and> valid_at t r \<and> x = (g_native r, g_attributes r)) \<longleftrightarrow>
       (\<exists>r \<in> set (current_rows g) \<union> set (history_rows g). row_key r = k \<and> valid_at t r \<and> x = (g_native r, g_attributes r)))"
proof -
  have "version_at g' t k = version_at g t k \<longleftrightarrow> (\<forall>x. version_at g' t k = Some x \<longleftrightarrow> version_at g t k = Some x)"
    by (cases "version_at g t k"; cases "version_at g' t k") auto
  then show ?thesis using assms by (simp add: version_at_Some)
qed

lemma bex_swap: "r \<in> C \<Longrightarrow> \<not> P n \<Longrightarrow> P p = P r \<Longrightarrow> (\<exists>q \<in> insert n (C - {r}) \<union> insert p H. P q) = (\<exists>q \<in> C \<union> H. P q)"
  by blast

lemma bex_insert: "\<not> P n \<Longrightarrow> (\<exists>q \<in> insert n C \<union> H. P q) = (\<exists>q \<in> C \<union> H. P q)"
  by blast

lemma bex_move: "r \<in> C \<Longrightarrow> P p = P r \<Longrightarrow> (\<exists>q \<in> C - {r} \<union> insert p H. P q) = (\<exists>q \<in> C \<union> H. P q)"
  by blast

section \<open>Storing a version\<close>

text \<open>What \<open>admit\<close> has made sure of when \<open>store_row\<close> runs.\<close>

definition admitted :: "string \<Rightarrow> grow option \<Rightarrow> grow \<Rightarrow> int \<Rightarrow> graph \<Rightarrow> bool" where
  "admitted hh old new now g \<longleftrightarrow>
     filter (\<lambda>q. row_key q = row_key new) (current_rows g) = (case old of None \<Rightarrow> [] | Some r \<Rightarrow> [r]) \<and>
     g_from new = now \<and> g_to new = None \<and> belongs hh new \<and> (case old of None \<Rightarrow> True | Some r \<Rightarrow> g_from r < now)"

lemma belongs_key: "row_key q = row_key r \<Longrightarrow> belongs hh q = belongs hh r"
  by (auto simp: row_key_def belongs_def)

lemma sorted_wrt_keep: "sorted_wrt P xs \<Longrightarrow> (\<And>x y. x \<in> set xs \<Longrightarrow> y \<in> set xs \<Longrightarrow> P x y \<Longrightarrow> Q x y) \<Longrightarrow> sorted_wrt Q xs"
  by (rule sorted_wrt_mono_rel) auto

lemma inserted_ok:
  assumes ok: "versions_ok g" and a: "admitted hh None new now g" and s: "settled g hh now"
  shows "versions_ok (inserted new g) \<and> settled (inserted new g) hh now"
proof -
  have none: "q \<in> set (current_rows g) \<Longrightarrow> row_key q \<noteq> row_key new" for q
    using a by (auto simp: admitted_def filter_empty_conv)
  have past: "before q new" if "q \<in> set (history_rows g)" "row_key q = row_key new" for q
  proof -
    have "belongs hh q" using a belongs_key [OF that(2)] by (simp add: admitted_def)
    with that(1) s ok a show ?thesis by (force simp: settled_def versions_ok_def before_def admitted_def)
  qed
  have "sorted_wrt apart ((current_rows g @ [new]) @ history_rows g)"
    using ok none past apart_sym by (auto simp: versions_ok_def sorted_wrt_append) (auto simp: apart_def)
  then show ?thesis using ok s a by (auto simp: versions_ok_def inserted_def settled_def admitted_def)
qed


lemma row_key_interval [simp]: "row_key (r\<lparr>g_to := e\<rparr>) = row_key r" "row_key (r\<lparr>g_from := b\<rparr>) = row_key r"
  by (simp_all add: row_key_def)

lemma history_apart:
  assumes ok: "versions_ok g" and r: "r \<in> set (current_rows g)" and p: "row_key p = row_key r" "g_from p = g_from r"
    and q: "q \<in> set (history_rows g)"
  shows "apart q p"
proof -
  have "apart r q" "g_to r = None" using ok r q by (simp_all add: versions_ok_def sorted_wrt_append)
  then show ?thesis using p by (auto simp: apart_def before_def split: option.splits)
qed

lemma history_archived:
  assumes ok: "versions_ok g" and r: "r \<in> set (current_rows g)" and p: "row_key p = row_key r" "g_from p = g_from r"
  shows "sorted_wrt apart (history_rows g @ [p])"
  using ok history_apart [OF ok r p] by (simp add: versions_ok_def sorted_wrt_append)

lemma replaced_ok:
  assumes ok: "versions_ok g" and a: "admitted hh (Some r) new now g" and s: "settled g hh now"
  shows "versions_ok (replaced new (archived (r\<lparr>g_to := Some now\<rparr>) g)) \<and>
    settled (replaced new (archived (r\<lparr>g_to := Some now\<rparr>) g)) hh now"
proof -
  let ?f = "\<lambda>q. if row_key q = row_key new then new else q" and ?past = "r\<lparr>g_to := Some now\<rparr>"
  have "r \<in> set (filter (\<lambda>q. row_key q = row_key new) (current_rows g))" using a by (simp add: admitted_def)
  then have r: "r \<in> set (current_rows g)" "row_key r = row_key new" by simp_all
  have k: "row_key ?past = row_key r" by (simp add: row_key_def)
  have open': "g_to q = None" if "q \<in> set (current_rows g)" for q using ok that by (simp add: versions_ok_def)
  have cur: "sorted_wrt apart (map ?f (current_rows g))"
    unfolding sorted_wrt_map
  proof (rule sorted_wrt_keep)
    show "sorted_wrt apart (current_rows g)" using ok by (simp add: versions_ok_def sorted_wrt_append)
    fix x y
    assume xy: "x \<in> set (current_rows g)" "y \<in> set (current_rows g)" and "apart x y"
    then have ne: "row_key x \<noteq> row_key y" using open' [of x] open' [of y] by (simp add: apart_def before_def)
    then show "apart (?f x) (?f y)" by (auto simp: apart_def)
  qed
  have past: "row_key ?past = row_key r" "g_from ?past = g_from r" by (simp_all add: row_key_def)
  note hist = history_archived [OF ok r(1) past]
  have cross: "apart (?f x) q" if x: "x \<in> set (current_rows g)" and q: "q \<in> set (history_rows g) \<union> {?past}" for x q
  proof (cases "row_key x = row_key new")
    case True
    from q consider "q = ?past" | "q \<in> set (history_rows g)" by blast
    then show ?thesis
    proof cases
      case 1
      then show ?thesis using True a by (simp add: apart_def before_def admitted_def)
    next
      case 2
      show ?thesis
      proof (cases "row_key q = row_key new")
        case same: True
        have "apart q r" using history_apart [OF ok r(1) refl refl 2] .
        then have "before q r" using same r(2) open' [OF r(1)] by (simp add: apart_def before_def)
        then have "before q new" using a by (auto simp: before_def admitted_def split: option.splits)
        then show ?thesis using True by (simp add: apart_def)
      next
        case False
        then show ?thesis using True by (auto simp: apart_def)
      qed
    qed
  next
    case False
    from q consider "q = ?past" | "q \<in> set (history_rows g)" by blast
    then show ?thesis
    proof cases
      case 1
      then show ?thesis using False k r(2) by (simp add: apart_def)
    next
      case 2
      then show ?thesis using False ok x by (simp add: versions_ok_def sorted_wrt_append)
    qed
  qed
  have "apart x y" if "x \<in> set (map ?f (current_rows g))" "y \<in> set (history_rows g @ [?past])" for x y
  proof -
    from that(1) obtain z where z: "z \<in> set (current_rows g)" and x: "x = ?f z" unfolding set_map by (rule imageE)
    have "y \<in> set (history_rows g) \<union> {?past}" using that(2) by simp
    from cross [OF z this] show ?thesis unfolding x .
  qed
  with cur hist have "sorted_wrt apart (map ?f (current_rows g) @ history_rows g @ [?past])"
    by (simp only: sorted_wrt_append [of _ "map ?f (current_rows g)"]) blast
  moreover have "settled (replaced new (archived ?past g)) hh now"
    using s a r k by (auto simp: settled_def replaced_def archived_def admitted_def belongs_def)
  ultimately show ?thesis using ok a by (auto simp: versions_ok_def replaced_def archived_def admitted_def)
qed

lemma removed_ok:
  assumes ok: "versions_ok g" and a: "admitted hh (Some r) new now g" and s: "settled g hh now"
    and f: "f = new\<lparr>g_from := g_from r, g_to := Some now\<rparr>"
  shows "versions_ok (removed r (archived f g)) \<and> settled (removed r (archived f g)) hh now"
proof -
  have "r \<in> set (filter (\<lambda>q. row_key q = row_key new) (current_rows g))" using a by (simp add: admitted_def)
  then have r: "r \<in> set (current_rows g)" "row_key r = row_key new" by simp_all
  have "row_key f = row_key new" by (simp add: row_key_def f)
  with r(2) have k: "row_key f = row_key r" by simp
  have open': "g_to q = None" if "q \<in> set (current_rows g)" for q using ok that by (simp add: versions_ok_def)
  have hist: "sorted_wrt apart (history_rows g @ [f])" using history_archived [OF ok r(1) k] f by simp
  have "sorted_wrt apart (filter (\<lambda>q. row_key q \<noteq> row_key r) (current_rows g))"
    using ok by (simp add: versions_ok_def sorted_wrt_append sorted_wrt_filter)
  with hist have "sorted_wrt apart (filter (\<lambda>q. row_key q \<noteq> row_key r) (current_rows g) @ history_rows g @ [f])"
    using ok k by (auto simp: versions_ok_def sorted_wrt_append apart_def)
  moreover have "settled (removed r (archived f g)) hh now"
    using s a r f by (auto simp: settled_def removed_def archived_def admitted_def)
  ultimately show ?thesis using ok a f by (auto simp: versions_ok_def removed_def archived_def admitted_def)
qed


text \<open>The current version of the entity a write is about.\<close>

lemma admitted_old: "admitted hh old new now g \<Longrightarrow> q \<in> set (current_rows g) \<Longrightarrow> row_key q = row_key new \<Longrightarrow> old = Some q"
proof -
  assume a: "admitted hh old new now g" and q: "q \<in> set (current_rows g)" "row_key q = row_key new"
  have e: "filter (\<lambda>q. row_key q = row_key new) (current_rows g) = (case old of None \<Rightarrow> [] | Some r \<Rightarrow> [r])"
    using a by (simp add: admitted_def)
  have "q \<in> set (filter (\<lambda>q. row_key q = row_key new) (current_rows g))" using q by simp
  then show ?thesis unfolding e by (cases old) auto
qed

lemma admitted_current: "admitted hh (Some r) new now g \<Longrightarrow> r \<in> set (current_rows g) \<and> row_key r = row_key new"
proof -
  assume "admitted hh (Some r) new now g"
  then have "r \<in> set (filter (\<lambda>q. row_key q = row_key new) (current_rows g))" by (simp add: admitted_def)
  then show ?thesis by simp
qed

lemma not_valid_later:
  assumes "versions_ok g" "settled g hh now" "belongs hh q" "q \<in> set (history_rows g)" "now \<le> t"
  shows "\<not> valid_at t q"
proof -
  from assms(1,4) obtain e where "g_to q = Some e" by (auto simp: versions_ok_def)
  moreover with assms(2-4) have "e \<le> now" by (auto simp: settled_def)
  ultimately show ?thesis using assms(5) by (simp add: valid_at_def)
qed

lemma put_view:
  assumes ok: "versions_ok g" and s: "settled g hh now" and a: "admitted hh old new now g"
    and st: "store_row False old new now g = Inr g'"
  shows "versions_ok g' \<and> settled g' hh now \<and>
    version_at g' t k = (if k = row_key new \<and> now \<le> t then Some (g_native new, g_attributes new) else version_at g t k)"
proof -
  have nat: "g_from new = now" "g_to new = None" "belongs hh new" using a by (simp_all add: admitted_def)
  have mine: "\<not> valid_at t q" if "q \<in> set (history_rows g)" "row_key q = row_key new" "now \<le> t" for q
    using not_valid_later [OF ok s _ that(1,3)] belongs_key [OF that(2)] nat(3) by simp
  show ?thesis
  proof (cases old)
    case None
    with st have g': "g' = inserted new g" by (simp add: store_row_def rbind_Inr_iff)
    have ok': "versions_ok g' \<and> settled g' hh now" using inserted_ok [OF ok _ s, of new] a None g' by simp
    have none: "q \<in> set (current_rows g) \<Longrightarrow> row_key q \<noteq> row_key new" for q
      using admitted_old [OF a] None by blast
    show ?thesis
    proof (cases "k = row_key new \<and> now \<le> t")
      case True
      have "version_at g' t k = Some (g_native new, g_attributes new)"
        using ok' nat True by (simp add: version_at_Some g' inserted_def valid_at_def)
      with ok' True show ?thesis by simp
    next
      case False
      have sets: "set (current_rows g') = insert new (set (current_rows g))" "set (history_rows g') = set (history_rows g)"
        by (simp_all add: g' inserted_def)
      have "version_at g' t k = version_at g t k"
        unfolding version_at_eq [OF ok conjunct1 [OF ok']] sets
        by (intro allI bex_insert) (use False nat in \<open>auto simp: valid_at_def\<close>)
      with ok' False show ?thesis by auto
    qed
  next
    case (Some r)
    let ?past = "r\<lparr>g_to := Some now\<rparr>"
    from st Some have g': "g' = replaced new (archived ?past g)" by (auto simp: store_row_def rbind_Inr_iff Let_def)
    have ok': "versions_ok g' \<and> settled g' hh now" using replaced_ok [OF ok _ s, of r new] a Some g' by simp
    note r = admitted_current [OF a [unfolded Some]]
    have rto: "g_to r = None" using ok r by (simp add: versions_ok_def)
    have rk: "row_key ?past = row_key new" using r by simp
    have only: "q \<in> set (current_rows g) \<Longrightarrow> row_key q = row_key new \<longleftrightarrow> q = r" for q
      using admitted_old [OF a, of q] Some r by auto
    have sets: "set (current_rows g') = insert new (set (current_rows g) - {r})" "set (history_rows g') = insert ?past (set (history_rows g))"
      using only r by (auto simp: g' replaced_def archived_def image_iff)
    show ?thesis
    proof (cases "k = row_key new \<and> now \<le> t")
      case True
      have "version_at g' t k = Some (g_native new, g_attributes new)"
        using ok' nat True sets by (simp add: version_at_Some valid_at_def)
      with ok' True show ?thesis by simp
    next
      case False
      have "version_at g' t k = version_at g t k"
        unfolding version_at_eq [OF ok conjunct1 [OF ok']] sets
        by (intro allI bex_swap) (use False nat r rto rk in \<open>auto simp: valid_at_def\<close>)
      with ok' False show ?thesis by auto
    qed
  qed
qed


text \<open>Closing: the final version is what the interval of the current version now shows, and nothing is valid after it.\<close>

lemma close_view:
  assumes ok: "versions_ok g" and s: "settled g hh now" and a: "admitted hh old new now g"
    and st: "store_row True old new now g = Inr g'"
  shows "versions_ok g' \<and> settled g' hh now \<and> (\<exists>r. old = Some r \<and>
    version_at g' t k = (if k \<noteq> row_key new then version_at g t k else if now \<le> t then None
      else if g_from r \<le> t then Some (g_native new, g_attributes new) else version_at g t k))"
proof -
  from st obtain r where o: "old = Some r" by (cases old) (simp_all add: store_row_def)
  define f where "f = new\<lparr>g_from := g_from r, g_to := Some now\<rparr>"
  from st o have g': "g' = removed r (archived f g)" by (auto simp: store_row_def rbind_Inr_iff Let_def f_def)
  have ok': "versions_ok g' \<and> settled g' hh now" using removed_ok [OF ok _ s f_def] a o g' by simp
  note r = admitted_current [OF a [unfolded o]]
  have nat: "belongs hh new" using a by (simp add: admitted_def)
  have rto: "g_to r = None" using ok r by (simp add: versions_ok_def)
  have rk: "row_key f = row_key new" by (simp add: f_def)
  have only: "q \<in> set (current_rows g) \<Longrightarrow> row_key q = row_key new \<longleftrightarrow> q = r" for q
    using admitted_old [OF a, of q] o r by auto
  have sets: "set (current_rows g') = set (current_rows g) - {r}" "set (history_rows g') = insert f (set (history_rows g))"
    using only r by (auto simp: g' removed_def archived_def)
  have mine: "\<not> valid_at t q" if "q \<in> set (history_rows g)" "row_key q = row_key new" "now \<le> t" for q
    using not_valid_later [OF ok s _ that(1,3)] belongs_key [OF that(2)] nat by simp
  show ?thesis
  proof (cases "k = row_key new \<and> g_from r \<le> t")
    case False
    have "version_at g' t k = version_at g t k"
      unfolding version_at_eq [OF ok conjunct1 [OF ok']] sets
      by (intro allI bex_move) (use False r rto rk in \<open>auto simp: valid_at_def f_def\<close>)
    with ok' o False s r a show ?thesis by (auto simp: admitted_def)
  next
    case True
    show ?thesis
    proof (cases "now \<le> t")
      case later: True
      have "version_at g' t k \<noteq> Some x" for x
        using ok' True later mine only by (auto simp: version_at_Some sets) (auto simp: f_def valid_at_def)
      with ok' o True later show ?thesis by (cases "version_at g' t k") auto
    next
      case earlier: False
      have "version_at g' t k = Some (g_native new, g_attributes new)"
        using ok' True earlier rk by (simp add: version_at_Some sets) (auto simp: f_def valid_at_def)
      with ok' o True earlier show ?thesis by auto
    qed
  qed
qed

section \<open>What is admitted\<close>

lemma graph_of_Inr [simp]: "graph_of x = Inr y \<longleftrightarrow> x = Inr y"
  by (cases x) simp_all

lemma guard_Inr: "guard e b = Inr u \<longleftrightarrow> b"
  by (simp add: guard_def)

lemma get_row_current:
  assumes "get_row name (map (\<lambda>c. (c, fld (g_native new) c)) (primary_key name)) None clock s = Inr old"
    and "g_table new = name" and "belongs (repo_household s) new"
  shows "filter (\<lambda>q. row_key q = row_key new) (current_rows (repo_store s)) = (case old of None \<Rightarrow> [] | Some r \<Rightarrow> [r])"
proof -
  have "row_where (repo_household s) name (map (\<lambda>c. (c, fld (g_native new) c)) (primary_key name)) = (\<lambda>q. row_key q = row_key new)"
    using assms(2,3) by (auto simp: fun_eq_iff row_where_def row_key_def belongs_def)
  with assms(1) show ?thesis
    by (auto simp: get_row_def rbind_Inr_iff rows_at_def one_or_none_def split: list.splits)
qed

lemma admit_Some:
  assumes "admit sc zk name e expected closing s = Inr (Some (old, new, now))"
  shows "repo_at s = Some now \<and> admitted (repo_household s) old new now (repo_store s) \<and> map_option g_from old = expected \<and>
    (\<exists>m. fst e = name \<and> model_validate sc zk name (snd e) = Inr m \<and>
       new = \<lparr>g_table = name, g_native = fst (row_values zk name m), g_attributes = snd (row_values zk name m), g_from = now, g_to = None\<rparr>)"
proof -
  from assms obtain m where now: "repo_at s = Some now" and n: "fst e = name" and m: "model_validate sc zk name (snd e) = Inr m"
    and new: "new = \<lparr>g_table = name, g_native = fst (row_values zk name m), g_attributes = snd (row_values zk name m), g_from = now, g_to = None\<rparr>"
    and home: "fld (g_native new) (scope_column name) = PStr (repo_household s)"
    and old: "get_row name (map (\<lambda>c. (c, fld (g_native new) c)) (primary_key name)) None 0 s = Inr old"
    and ver: "map_option g_from old = expected" and later: "case old of Some r \<Rightarrow> g_from r < now | None \<Rightarrow> True"
    unfolding admit_def Let_def by (elim rbind_InrE) (auto simp: guard_Inr split: if_split_asm elim!: rbind_InrE)
  have g: "g_table new = name" "belongs (repo_household s) new" using new home by (simp_all add: belongs_def)
  from get_row_current [OF old g] later g(2) new
  have "admitted (repo_household s) old new now (repo_store s)" by (cases old) (simp_all add: admitted_def)
  with now ver n m new show ?thesis by blast
qed


section \<open>A store that remembers, on the tables\<close>

text \<open>A write of one entity by \<open>put\<close> inside a transaction.\<close>

definition puts :: "scalars \<Rightarrow> (string \<Rightarrow> bool) \<Rightarrow> int \<Rightarrow> string \<times> pv list \<Rightarrow> pdict \<times> pdict \<Rightarrow> session \<Rightarrow> session \<Rightarrow> bool" where
  "puts sc zk now k x s s' \<longleftrightarrow> versions_ok (repo_store s) \<and> settled (repo_store s) (repo_household s) now \<and>
     (\<exists>name e expected old new. admit sc zk name e expected False s = Inr (Some (old, new, now)) \<and>
        row_key new = k \<and> (g_native new, g_attributes new) = x \<and> put sc zk name e expected s = (s', Inr True))"

definition session_view :: "session \<Rightarrow> int \<Rightarrow> string \<times> pv list \<Rightarrow> (pdict \<times> pdict) option" where
  "session_view s t k = version_at (repo_store s) t k"

lemma write_row_True:
  assumes "write_row sc zk name e expected closing s = (s', Inr True)"
  shows "\<exists>old new now g. admit sc zk name e expected closing s = Inr (Some (old, new, now)) \<and>
    store_row closing old new now (repo_store s) = Inr g \<and>
    s' = s\<lparr>repo_store := g, repo_changed := True, repo_revision := repo_revision s + 1\<rparr>"
  using assms by (auto simp: write_row_def split: sum.split_asm option.split_asm prod.split_asm)

interpretation tables: remembering session_view "puts sc zk" for sc zk
proof
  fix now k x s s' t j
  assume p: "puts sc zk now k x s s'"
  then obtain name e expected old new where ok: "versions_ok (repo_store s)" "settled (repo_store s) (repo_household s) now"
    and a: "admit sc zk name e expected False s = Inr (Some (old, new, now))"
    and k: "row_key new = k" "(g_native new, g_attributes new) = x" and w: "put sc zk name e expected s = (s', Inr True)"
    by (auto simp: puts_def)
  from write_row_True [OF w [unfolded put_def]] a
  obtain g where st: "store_row False old new now (repo_store s) = Inr g" and s': "repo_store s' = g" by auto
  have "admitted (repo_household s) old new now (repo_store s)" using admit_Some [OF a] by blast
  from put_view [OF ok this st, of t j] k s'
  show "session_view s' t j = (if j = k \<and> now \<le> t then Some x else session_view s t j)" by (simp add: session_view_def)
qed


section \<open>Transactions\<close>

lemma write_row_ok:
  assumes "versions_ok (repo_store s)" and "settled (repo_store s) (repo_household s) now" and "repo_at s = Some now"
    and "write_row sc zk name e expected closing s = (s', out)"
  shows "versions_ok (repo_store s') \<and> settled (repo_store s') (repo_household s') now \<and> repo_at s' = Some now \<and>
    repo_household s' = repo_household s"
proof (cases "out = Inr True")
  case True
  from write_row_True [OF assms(4) [unfolded True]] obtain old new t g
    where a: "admit sc zk name e expected closing s = Inr (Some (old, new, t))"
      and st: "store_row closing old new t (repo_store s) = Inr g"
      and s': "s' = s\<lparr>repo_store := g, repo_changed := True, repo_revision := repo_revision s + 1\<rparr>" by blast
  from admit_Some [OF a] assms(3) have t: "t = now" "admitted (repo_household s) old new now (repo_store s)" by auto
  have "versions_ok g \<and> settled g (repo_household s) now"
  proof (cases closing)
    case True
    have "store_row True old new now (repo_store s) = Inr g" using st True t(1) by simp
    from close_view [where t = now and k = "row_key new", OF assms(1,2) t(2) this] show ?thesis by (elim conjE) (intro conjI)
  next
    case False
    have "store_row False old new now (repo_store s) = Inr g" using st False t(1) by simp
    from put_view [where t = now and k = "row_key new", OF assms(1,2) t(2) this] show ?thesis by (elim conjE) (intro conjI)
  qed
  with s' assms(3) show ?thesis by simp
next
  case False
  with assms(4) have "s' = s"
    by (auto simp: write_row_def split: sum.split_asm option.split_asm prod.split_asm)
  with assms show ?thesis by simp
qed

definition good_session :: "int \<Rightarrow> session \<Rightarrow> bool" where
  "good_session now s \<longleftrightarrow> versions_ok (repo_store s) \<and> settled (repo_store s) (repo_household s) now"

lemma apply_op_ok:
  assumes "good_session now s" and "repo_at s = Some now" and "apply_op sc zk p s = (s', out)"
  shows "good_session now s' \<and> repo_at s' = Some now \<and> repo_household s' = repo_household s"
proof -
  from assms(3) obtain name e expected closing where w: "write_row sc zk name e expected closing s = (s', out)"
    by (cases p) (auto simp: put_def close_def)
  from write_row_ok [OF _ _ assms(2) w] assms(1) show ?thesis by (auto simp: good_session_def)
qed

lemma apply_ops_ok:
  "good_session now s \<Longrightarrow> repo_at s = Some now \<Longrightarrow> apply_ops sc zk ps s = (s', out) \<Longrightarrow>
     good_session now s' \<and> repo_at s' = Some now \<and> repo_household s' = repo_household s"
proof (induction ps arbitrary: s s' out)
  case (Cons p ps)
  obtain s1 o1 where p: "apply_op sc zk p s = (s1, o1)" by (cases "apply_op sc zk p s")
  note one = apply_op_ok [OF Cons.prems(1,2) p]
  obtain s2 o2 where ps: "apply_ops sc zk ps s1 = (s2, o2)" by (cases "apply_ops sc zk ps s1")
  show ?case
  proof (cases o1)
    case (Inl e)
    with Cons.prems(3) p one show ?thesis by auto
  next
    case (Inr b)
    with Cons.IH [OF _ _ ps] one have "good_session now s2 \<and> repo_at s2 = Some now \<and> repo_household s2 = repo_household s" by auto
    moreover have "s' = s2" using Cons.prems(3) p ps Inr by (auto split: sum.split_asm)
    ultimately show ?thesis by simp
  qed
qed simp

lemma refresh_rows [simp]:
  "current_rows (refresh g) = current_rows g" "history_rows (refresh g) = history_rows g"
  by (simp_all add: refresh_def)

lemma good_rows:
  "current_rows (repo_store s') = current_rows (repo_store s) \<Longrightarrow> history_rows (repo_store s') = history_rows (repo_store s) \<Longrightarrow>
   repo_household s' = repo_household s \<Longrightarrow> good_session now s' = good_session now s"
  by (simp add: good_session_def versions_ok_def settled_def)

text \<open>What a transaction leaves is what its body left or what was there before.\<close>

lemma graph_write_leaves:
  assumes "repo_at s = None" and "graph_write now body s = (s', out)"
    and "body (s\<lparr>repo_at := Some now, repo_revision := repo_revision s + 1, repo_changed := False\<rparr>) = (inner, res)"
  shows "repo_at s' = None \<and> repo_household s' = repo_household inner \<and>
    (current_rows (repo_store s') = current_rows (repo_store inner) \<and> history_rows (repo_store s') = history_rows (repo_store inner) \<or>
     repo_store s' = repo_store s)"
  using assms by (auto simp: graph_write_def Let_def split: sum.split_asm if_split_asm)

lemma graph_write_ok:
  assumes "good_session now s" and "repo_at s = None" and "graph_write now (apply_ops sc zk ps) s = (s', out)"
  shows "good_session now s' \<and> repo_at s' = None \<and> repo_household s' = repo_household s"
proof -
  let ?start = "s\<lparr>repo_at := Some now, repo_revision := repo_revision s + 1, repo_changed := False\<rparr>"
  obtain inner res where b: "apply_ops sc zk ps ?start = (inner, res)" by (cases "apply_ops sc zk ps ?start")
  have "good_session now ?start" using assms(1) by (simp add: good_session_def)
  from apply_ops_ok [OF this _ b] have i: "good_session now inner" "repo_household inner = repo_household s" by simp_all
  from graph_write_leaves [OF assms(2,3) b] show ?thesis
  proof (elim conjE disjE)
    assume h: "repo_at s' = None" "repo_household s' = repo_household inner"
    {
      assume "current_rows (repo_store s') = current_rows (repo_store inner)" "history_rows (repo_store s') = history_rows (repo_store inner)"
      with good_rows [of s' inner now] h i show ?thesis by simp
    next
      assume "repo_store s' = repo_store s"
      with good_rows [of s' s now] h i assms(1) show ?thesis by simp
    }
  qed
qed

text \<open>A household written by one transaction after the other.\<close>

fun transactions :: "scalars \<Rightarrow> (string \<Rightarrow> bool) \<Rightarrow> (int \<times> write_op list) list \<Rightarrow> session \<Rightarrow> session" where
  "transactions sc zk [] s = s"
| "transactions sc zk ((now, ps) # txs) s = transactions sc zk txs (fst (graph_write now (apply_ops sc zk ps) s))"

lemma settled_later: "good_session now s \<Longrightarrow> now \<le> later \<Longrightarrow> good_session later s"
  by (fastforce simp: good_session_def settled_def split: option.splits)

lemma transactions_ok:
  "good_session start s \<Longrightarrow> repo_at s = None \<Longrightarrow> sorted (start # map fst txs) \<Longrightarrow>
     good_session (last (start # map fst txs)) (transactions sc zk txs s) \<and> repo_at (transactions sc zk txs s) = None"
proof (induction txs arbitrary: s start)
  case Nil
  then show ?case by simp
next
  case (Cons tx txs)
  obtain now ps where tx: "tx = (now, ps)" by (cases tx)
  obtain s' out where w: "graph_write now (apply_ops sc zk ps) s = (s', out)" by (cases "graph_write now (apply_ops sc zk ps) s")
  have "good_session now s" using Cons.prems tx by (auto intro: settled_later)
  from graph_write_ok [OF this Cons.prems(2) w] Cons.IH [of now s'] Cons.prems(3) tx w show ?case by simp
qed

lemma same_where: "exact_key name key \<Longrightarrow> row_where hh name key q \<Longrightarrow> row_where hh name key r \<Longrightarrow> row_key q = row_key r"
proof -
  assume k: "exact_key name key" and q: "row_where hh name key q" and r: "row_where hh name key r"
  have "fld (g_native q) c = fld (g_native r) c" if "c \<in> set (primary_key name)" for c
  proof -
    from that k have "c \<in> set (map fst key)" unfolding exact_key_def by simp
    then obtain v where "(c, v) \<in> set key" by auto
    with q r show ?thesis by (auto simp: row_where_def)
  qed
  with q r show ?thesis by (auto simp: row_where_def row_key_def belongs_def)
qed

lemma get_row_unambiguous:
  assumes "versions_ok (repo_store s)"
  shows "get_row name key (Some t) clock s \<noteq> Inl MultipleResultsFound"
proof
  assume m: "get_row name key (Some t) clock s = Inl MultipleResultsFound"
  let ?rs = "filter (row_where (repo_household s) name key) (rows_at (Some t) (repo_store s))"
  from m have ek: "exact_key name key" and two: "one_or_none ?rs = Inl MultipleResultsFound"
    by (auto simp: get_row_def guard_def one_or_none_def split: if_split_asm list.split_asm)
  from two obtain q r rest where qr: "?rs = q # r # rest" by (auto simp: one_or_none_def split: list.split_asm)
  have w: "x \<in> set ?rs \<Longrightarrow> row_where (repo_household s) name key x" for x by auto
  have same: "row_key x = row_key q" if "x \<in> set ?rs" for x using same_where [OF ek w [OF that] w [of q]] qr by simp
  have "filter (\<lambda>x. row_key x = row_key q) ?rs = ?rs" by (intro filter_True ballI same)
  moreover have "length (filter (\<lambda>x. row_key x = row_key q) ?rs) \<le> length (filter (\<lambda>x. row_key x = row_key q) (rows_at (Some t) (repo_store s)))"
    by (simp only: filter_filter conj_commute length_filter_conv_card) (rule card_mono; auto)
  ultimately show False using one_version [OF assms, of "row_key q" t] qr by simp
qed


section \<open>The past under updates\<close>

fun is_put :: "write_op \<Rightarrow> bool" where
  "is_put (Put _ _ _) = True"
| "is_put (Close _ _ _) = False"

lemma write_row_same: "write_row sc zk name e expected closing s = (s', out) \<Longrightarrow> out \<noteq> Inr True \<Longrightarrow> s' = s"
  by (auto simp: write_row_def split: sum.split_asm option.split_asm prod.split_asm)

lemma put_past:
  assumes "good_session now s" and "repo_at s = Some now" and "put sc zk name e expected s = (s', out)" and "t < now"
  shows "session_view s' t k = session_view s t k"
proof (cases "out = Inr True")
  case True
  note w = assms(3) [unfolded True]
  from write_row_True [OF w [unfolded put_def]] obtain old new u
    where a: "admit sc zk name e expected False s = Inr (Some (old, new, u))" by blast
  from admit_Some [OF a] assms(2) have u: "u = now" by simp
  have "puts sc zk now (row_key new) (g_native new, g_attributes new) s s'"
    unfolding puts_def using assms(1) a u w
    by (intro conjI exI [of _ name] exI [of _ e] exI [of _ expected] exI [of _ old] exI [of _ new]) (simp_all add: good_session_def)
  from tables.past_kept [OF this assms(4)] show ?thesis .
next
  case False
  with write_row_same [OF assms(3) [unfolded put_def]] show ?thesis by simp
qed

lemma apply_ops_past:
  "good_session now s \<Longrightarrow> repo_at s = Some now \<Longrightarrow> list_all is_put ps \<Longrightarrow> t < now \<Longrightarrow> apply_ops sc zk ps s = (s', out) \<Longrightarrow>
     session_view s' t k = session_view s t k"
proof (induction ps arbitrary: s s' out)
  case (Cons p ps)
  obtain s1 o1 where p: "apply_op sc zk p s = (s1, o1)" by (cases "apply_op sc zk p s")
  note one = apply_op_ok [OF Cons.prems(1,2) p]
  obtain s2 o2 where ps: "apply_ops sc zk ps s1 = (s2, o2)" by (cases "apply_ops sc zk ps s1")
  from Cons.prems(3) obtain name e expected where "p = Put name e expected" by (cases p) simp_all
  with put_past [OF Cons.prems(1,2) _ Cons.prems(4)] p have first: "session_view s1 t k = session_view s t k" by simp
  show ?case
  proof (cases o1)
    case (Inl e)
    with Cons.prems(5) p first show ?thesis by auto
  next
    case (Inr b)
    with Cons.IH [OF _ _ _ Cons.prems(4) ps] one Cons.prems(3) have "session_view s2 t k = session_view s1 t k" by auto
    moreover have "s' = s2" using Cons.prems(5) p ps Inr by (auto split: sum.split_asm)
    ultimately show ?thesis using first by simp
  qed
qed simp

lemma session_view_rows:
  "current_rows (repo_store s') = current_rows (repo_store s) \<Longrightarrow> history_rows (repo_store s') = history_rows (repo_store s) \<Longrightarrow>
     session_view s' t k = session_view s t k"
  by (simp add: session_view_def version_at_def rows_at_def)

lemma graph_write_past:
  assumes "good_session now s" and "repo_at s = None" and "list_all is_put ps" and "t < now"
    and "graph_write now (apply_ops sc zk ps) s = (s', out)"
  shows "session_view s' t k = session_view s t k"
proof -
  let ?start = "s\<lparr>repo_at := Some now, repo_revision := repo_revision s + 1, repo_changed := False\<rparr>"
  obtain inner res where b: "apply_ops sc zk ps ?start = (inner, res)" by (cases "apply_ops sc zk ps ?start")
  have "good_session now ?start" using assms(1) by (simp add: good_session_def)
  from apply_ops_past [OF this _ assms(3,4) b, of k] have i: "session_view inner t k = session_view s t k"
    by (simp add: session_view_def)
  from graph_write_leaves [OF assms(2,5) b] i session_view_rows [of s' inner t k] session_view_rows [of s' s t k] show ?thesis by auto
qed

section \<open>Versions expected by a writer\<close>

lemma admit_expected:
  assumes "admit sc zk name e expected closing s = Inr x" and "model_validate sc zk name (snd e) = Inr m"
    and "new = \<lparr>g_table = name, g_native = fst (row_values zk name m), g_attributes = snd (row_values zk name m), g_from = b, g_to = c\<rparr>"
  shows "\<exists>old. filter (\<lambda>q. row_key q = row_key new) (current_rows (repo_store s)) = (case old of None \<Rightarrow> [] | Some r \<Rightarrow> [r]) \<and>
    map_option g_from old = expected"
proof -
  from assms obtain now old where
      home: "fld (g_native new) (scope_column name) = PStr (repo_household s)"
    and old: "get_row name (map (\<lambda>c. (c, fld (g_native new) c)) (primary_key name)) None 0 s = Inr old"
    and ver: "map_option g_from old = expected"
    unfolding admit_def Let_def by (elim rbind_InrE) (auto simp: guard_Inr)
  have "g_table new = name" "belongs (repo_household s) new" using assms(3) home by (simp_all add: belongs_def)
  from get_row_current [OF old this] ver show ?thesis by blast
qed

lemma filter_replaced: "P n \<Longrightarrow> filter P (map (\<lambda>q. if P q then n else q) xs) = map (\<lambda>_. n) (filter P xs)"
  by (induction xs) auto

lemma stored_current:
  assumes a: "admitted hh old new now g" and st: "store_row False old new now g = Inr g'"
  shows "filter (\<lambda>q. row_key q = row_key new) (current_rows g') = [new]"
proof (cases old)
  case None
  with a have "filter (\<lambda>q. row_key q = row_key new) (current_rows g) = []" by (simp add: admitted_def)
  moreover from st None have "current_rows g' = current_rows g @ [new]" by (auto simp: store_row_def rbind_Inr_iff inserted_def)
  ultimately show ?thesis by simp
next
  case (Some r)
  with a have "filter (\<lambda>q. row_key q = row_key new) (current_rows g) = [r]" by (simp add: admitted_def)
  moreover from st Some have "current_rows g' = map (\<lambda>q. if row_key q = row_key new then new else q) (current_rows g)"
    by (auto simp: store_row_def rbind_Inr_iff Let_def replaced_def archived_def)
  ultimately show ?thesis using filter_replaced [of "\<lambda>q. row_key q = row_key new" new "current_rows g"] by simp
qed

text \<open>The key a writer means, when its entity is one.\<close>

definition entity_key :: "scalars \<Rightarrow> (string \<Rightarrow> bool) \<Rightarrow> string \<Rightarrow> entity \<Rightarrow> (string \<times> pv list) option" where
  "entity_key sc zk name e = (case model_validate sc zk name (snd e) of
      Inl _ \<Rightarrow> None
    | Inr m \<Rightarrow> Some (row_key \<lparr>g_table = name, g_native = fst (row_values zk name m), g_attributes = snd (row_values zk name m),
        g_from = 0, g_to = None\<rparr>))"

lemma row_key_times: "row_key \<lparr>g_table = n, g_native = a, g_attributes = b, g_from = x, g_to = y\<rparr> =
    row_key \<lparr>g_table = n, g_native = a, g_attributes = c, g_from = z, g_to = w\<rparr>"
  by (simp add: row_key_def)

lemma second_refused:
  assumes w: "put sc zk name e expected s = (s1, Inr True)"
    and store: "current_rows (repo_store s2) = current_rows (repo_store s1)"
    and k: "entity_key sc zk name e' = entity_key sc zk name e"
  shows "\<exists>err. put sc zk name e' expected s2 = (s2, Inl err)"
proof -
  from write_row_True [OF w [unfolded put_def]] obtain old new now g
    where a: "admit sc zk name e expected False s = Inr (Some (old, new, now))"
      and st: "store_row False old new now (repo_store s) = Inr g" and s1: "repo_store s1 = g" by auto
  from admit_Some [OF a] obtain m where ad: "admitted (repo_household s) old new now (repo_store s)"
    and ex: "map_option g_from old = expected" and m: "model_validate sc zk name (snd e) = Inr m"
    and new: "new = \<lparr>g_table = name, g_native = fst (row_values zk name m), g_attributes = snd (row_values zk name m), g_from = now, g_to = None\<rparr>"
    by blast
  note cur = stored_current [OF ad st]
  have ne: "expected \<noteq> Some now" using ad ex by (cases old) (auto simp: admitted_def)
  show ?thesis
  proof (cases "admit sc zk name e' expected False s2")
    case (Inl err)
    then show ?thesis by (simp add: put_def write_row_def)
  next
    case (Inr x)
    from k m obtain m' where m': "model_validate sc zk name (snd e') = Inr m'"
      by (auto simp: entity_key_def split: sum.split_asm)
    define new' where "new' = \<lparr>g_table = name, g_native = fst (row_values zk name m'), g_attributes = snd (row_values zk name m'), g_from = now, g_to = None\<rparr>"
    have same: "row_key new' = row_key new"
      using k m m' row_key_times by (simp add: entity_key_def new'_def new) (metis row_key_times)
    from admit_expected [OF Inr m' new'_def] obtain old' where
      "filter (\<lambda>q. row_key q = row_key new') (current_rows (repo_store s2)) = (case old' of None \<Rightarrow> [] | Some r \<Rightarrow> [r])"
      and e: "map_option g_from old' = expected" by blast
    with same store s1 cur have "old' = Some new" by (cases old') simp_all
    with e ne ad show ?thesis by (simp add: admitted_def)
  qed
qed


lemma same_value_refl: "same_value v v"
proof (induction "size v" arbitrary: v rule: less_induct)
  case less
  show ?case
  proof (cases v)
    case (PList xs)
    have "same_value x y" if "(x, y) \<in> set (zip xs xs)" for x y
    proof -
      from that have "x = y" "x \<in> set xs" by (auto simp: in_set_zip)
      moreover from this have "size x \<le> size_list size xs" by (auto intro: size_list_estimation')
      ultimately show ?thesis using less [of x] PList by simp
    qed
    then show ?thesis by (subst same_value.simps) (auto simp: PList)
  next
    case (PDict d)
    have "same_value (the (map_of d k)) (the (map_of d k))" if "k \<in> fst ` set d" for k
    proof -
      from that obtain x where x: "map_of d k = Some x" by (metis map_of_eq_None_iff not_None_eq)
      then have "(k, x) \<in> set d" by (rule map_of_SomeD)
      then have "size x \<le> size_list (size_prod (\<lambda>_. 0) size) d" by (rule size_list_estimation') simp
      then show ?thesis using less [of x] PDict x by simp
    qed
    then show ?thesis by (subst same_value.simps) (simp add: PDict)
  qed (subst same_value.simps; simp add: py_eq_def split: option.split)+
qed

lemma put_read_again:
  assumes sc: "scalars_ok sc" and w: "put sc zk name e expected s = (s1, Inr True)"
    and m: "model_validate sc zk name (snd e) = Inr m" and j: "\<And>fs. map_of (MODELS zk) name = Some fs \<Longrightarrow> json_given fs m"
    and large: "storable (PDict m)" and s2: "current_rows (repo_store s2) = current_rows (repo_store s1)" "repo_household s2 = repo_household s" "repo_at s2 = Some later"
    and key: "key = map (\<lambda>c. (c, fld (fst (row_values zk name m)) c)) (primary_key name)"
  shows "\<exists>r. get_row name key None clock s2 = Inr (Some r) \<and> row_model sc zk name (g_native r, g_attributes r) = Inr m \<and>
    put sc zk name e (Some (g_from r)) s2 = (s2, Inr False)"
proof -
  from write_row_True [OF w [unfolded put_def]] obtain old new now g
    where a: "admit sc zk name e expected False s = Inr (Some (old, new, now))"
      and st: "store_row False old new now (repo_store s) = Inr g" and s1: "repo_store s1 = g" by auto
  from admit_Some [OF a] m have ad: "admitted (repo_household s) old new now (repo_store s)" and n: "fst e = name"
    and new: "new = \<lparr>g_table = name, g_native = fst (row_values zk name m), g_attributes = snd (row_values zk name m), g_from = now, g_to = None\<rparr>"
    by auto
  have cur: "filter (\<lambda>q. row_key q = row_key new) (current_rows (repo_store s2)) = [new]"
    using stored_current [OF ad st] s1 s2 by simp
  have home: "belongs (repo_household s2) new" using ad s2 by (simp add: admitted_def)
  from a have checks: "name \<in> set table_names" "name = ''observations'' \<longrightarrow> given m ''domain''"
    using m by (auto simp: admit_def rbind_Inr_iff guard_Inr)
  have "row_where (repo_household s2) name key = (\<lambda>q. row_key q = row_key new)"
    using home by (auto simp: fun_eq_iff row_where_def row_key_def belongs_def key new)
  then have get: "get_row name key None c s2 = Inr (Some new)" for c
    using checks cur key by (simp add: get_row_def guard_def exact_key_def rows_at_def one_or_none_def comp_def)
  have readback: "row_model sc zk name (g_native new, g_attributes new) = Inr m"
    using row_model_row_values [OF sc m j large] new by simp
  have "admit sc zk name e (Some now) False s2 = Inr None"
    using checks n m s2(3) home get [of 0] readback same_value_refl [of "PDict m"]
    by (simp add: admit_def Let_def guard_def of_opt_def belongs_def new key)
  with get readback show ?thesis by (auto simp: put_def write_row_def new)
qed


section \<open>Properties\<close>

definition no_rows :: graph where
  "no_rows = \<lparr>current_rows = [], history_rows = [], household_context = [], audited = [], constitutions = [], pinned = []\<rparr>"

definition new_session :: session where
  "new_session = \<lparr>repo_household = ''home'', repo_at = None, repo_changed = False, repo_revision = 0, repo_store = no_rows\<rparr>"

definition home_entity :: entity where
  "home_entity = (''households'', [(''id'', PStr ''home''), (''name'', PStr ''Home''), (''timezone'', PStr ''UTC''), (''locale'', PStr ''en'')])"

definition priya_entity :: entity where
  "priya_entity = (''members'', [(''household_id'', PStr ''home''), (''id'', PStr ''priya''), (''display_name'', PStr ''Priya''), (''role'', PStr ''owner'')])"

definition sister_entity :: entity where
  "sister_entity = (''trusted_contacts'', [(''household_id'', PStr ''home''), (''id'', PStr ''sister''), (''display_name'', PStr ''Sister''),
     (''relationship'', PStr ''sister'')])"

definition warmer_entity :: entity where
  "warmer_entity = (''preferences'', dict_set ''value'' (PFloat (FFin (Dec 72 0))) warm_preference)"

definition settle_in :: "(int \<times> write_op list) list" where
  "settle_in = [(10, [Put ''households'' home_entity None, Put ''members'' priya_entity None]),
     (20, [Put ''preferences'' (''preferences'', warm_preference) None, Put ''trusted_contacts'' sister_entity None])]"

definition settled_home :: session where
  "settled_home = transactions plain_scalars (\<lambda>_. True) settle_in new_session"

lemma empty_good: "current_rows (repo_store s) = [] \<Longrightarrow> history_rows (repo_store s) = [] \<Longrightarrow> good_session now s"
  by (simp add: good_session_def versions_ok_def settled_def)

text \<open>C17: (Household graph, \<open>GraphRepository.write\<close> and \<open>get\<close>) let a household be written by any sequence of
  transactions of puts and closes, whatever each of them contains and whether it commits, with clocks
  that never step back. Then a read as of any instant finds at most one version of an entity: the
  intervals of its versions are disjoint, so \<open>one_or_none\<close> never raises.\<close>

theorem history_never_ambiguous:
  assumes "current_rows (repo_store s) = []" and "history_rows (repo_store s) = []" and "repo_at s = None"
    and "sorted (map fst txs)"
  shows "get_row name key (Some t) clock (transactions sc zk txs s) \<noteq> Inl MultipleResultsFound"
proof (rule get_row_unambiguous, cases txs)
  case Nil
  then show "versions_ok (repo_store (transactions sc zk txs s))" using empty_good [OF assms(1,2)] by (simp add: good_session_def)
next
  case (Cons tx rest)
  with assms(4) have "sorted (fst tx # map fst txs)" by auto
  from transactions_ok [OF empty_good [OF assms(1,2)] assms(3) this]
  show "versions_ok (repo_store (transactions sc zk txs s))" by (simp add: good_session_def)
qed

theorem history_never_ambiguous_witness:
  "get_row ''preferences'' [(''id'', PStr ''warm'')] (Some 25) 30
     (transactions plain_scalars (\<lambda>_. True) (settle_in @ [(30, [Put ''preferences'' warmer_entity (Some 20)])]) new_session)
     \<noteq> Inl MultipleResultsFound"
  by (rule history_never_ambiguous) (simp_all add: new_session_def no_rows_def settle_in_def)

text \<open>Clocks that step back over a close are not refused: the check of backdated writes reads the current
  rows only, and a closed row is no longer one. The two versions of the contact then overlap.\<close>

lemma backdated_after_close:
  "get_row ''trusted_contacts'' [(''id'', PStr ''sister'')] (Some 35) 50
     (transactions plain_scalars (\<lambda>_. True)
       (settle_in @ [(40, [Close ''trusted_contacts'' sister_entity 20]), (30, [Put ''trusted_contacts'' sister_entity None])])
       new_session) = Inl MultipleResultsFound"
  by code_simp

text \<open>C16: (Household graph, \<open>_write\<close>) a transaction of puts changes nothing that was read before its
  instant: for every entity and every earlier instant the version valid then, its columns and its
  attributes, is the one that was valid before the transaction, whether it commits or not.\<close>

theorem past_is_kept:
  assumes "versions_ok (repo_store s)" and "settled (repo_store s) (repo_household s) now" and "repo_at s = None"
    and "list_all is_put ps" and "graph_write now (apply_ops sc zk ps) s = (s', out)" and "t < now"
  shows "session_view s' t k = session_view s t k"
  using graph_write_past [of now s ps t] assms by (simp add: good_session_def)

lemma settled_home_good: "good_session 20 settled_home \<and> repo_at settled_home = None"
  using transactions_ok [of 0 new_session settle_in plain_scalars "\<lambda>_. True"]
  by (simp add: empty_good new_session_def no_rows_def settle_in_def settled_home_def)

theorem past_is_kept_witness:
  "session_view (fst (graph_write 30 (apply_ops plain_scalars (\<lambda>_. True) [Put ''preferences'' warmer_entity (Some 20)]) settled_home))
     25 (''preferences'', [PStr ''home'', PStr ''warm'']) =
   session_view settled_home 25 (''preferences'', [PStr ''home'', PStr ''warm''])"
proof -
  let ?ps = "[Put ''preferences'' warmer_entity (Some 20)]"
  obtain s' out where w: "graph_write 30 (apply_ops plain_scalars (\<lambda>_. True) ?ps) settled_home = (s', out)"
    by (cases "graph_write 30 (apply_ops plain_scalars (\<lambda>_. True) ?ps) settled_home")
  have "good_session 30 settled_home" using settled_home_good settled_later [of 20 settled_home 30] by simp
  then have "versions_ok (repo_store settled_home)" "settled (repo_store settled_home) (repo_household settled_home) 30"
    by (simp_all add: good_session_def)
  from past_is_kept [OF this _ _ w, of 25] w show ?thesis using settled_home_good by simp
qed

text \<open>C18: (Household graph, \<open>_write\<close>) of two writers who have read the same version of an entity, only one
  succeeds: after a put that changed the entity, any put of that entity that expects the version the
  first one expected fails and leaves the store as it is.\<close>

theorem second_writer_refused:
  assumes "put sc zk name e expected s = (s1, Inr True)"
    and "current_rows (repo_store s2) = current_rows (repo_store s1)"
    and "entity_key sc zk name e' = entity_key sc zk name e"
  shows "\<exists>err. put sc zk name e' expected s2 = (s2, Inl err)"
  using assms by (rule second_refused)

definition begun :: "int \<Rightarrow> session \<Rightarrow> session" where
  "begun now s = s\<lparr>repo_at := Some now\<rparr>"

lemma warmer_put: "\<exists>s1. put plain_scalars (\<lambda>_. True) ''preferences'' warmer_entity (Some 20) (begun 30 settled_home) = (s1, Inr True)"
proof -
  have "snd (put plain_scalars (\<lambda>_. True) ''preferences'' warmer_entity (Some 20) (begun 30 settled_home)) = Inr True" by code_simp
  then show ?thesis by (metis prod.collapse)
qed

lemma warmer_key: "entity_key plain_scalars (\<lambda>_. True) ''preferences'' (''preferences'', warm_preference) =
    entity_key plain_scalars (\<lambda>_. True) ''preferences'' warmer_entity"
  by code_simp

theorem second_writer_refused_witness:
  "\<exists>s1 err. put plain_scalars (\<lambda>_. True) ''preferences'' warmer_entity (Some 20) (begun 30 settled_home) = (s1, Inr True) \<and>
     put plain_scalars (\<lambda>_. True) ''preferences'' (''preferences'', warm_preference) (Some 20) s1 = (s1, Inl err)"
proof -
  from warmer_put obtain s1 where w: "put plain_scalars (\<lambda>_. True) ''preferences'' warmer_entity (Some 20) (begun 30 settled_home) = (s1, Inr True)" ..
  from second_writer_refused [OF w refl warmer_key] w show ?thesis by blast
qed

text \<open>C19: (Household graph, \<open>put\<close>, \<open>get\<close>, \<open>row_values\<close>, \<open>row_model\<close>) an entity that was put is read back as
  the validated entity, from its columns and its JSON attributes without nulls, and putting it again with
  the version just read is recognised as no change; provided no field of type JSON is null and every float is finite and below
  10^16, from where JSONB gives back an integer.\<close>

theorem put_then_read:
  assumes "scalars_ok sc" and "put sc zk name e expected s = (s1, Inr True)" and "model_validate sc zk name (snd e) = Inr m"
    and "\<And>fs. map_of (MODELS zk) name = Some fs \<Longrightarrow> json_given fs m" and "storable (PDict m)"
    and "current_rows (repo_store s2) = current_rows (repo_store s1)" and "repo_household s2 = repo_household s"
    and "repo_at s2 = Some later"
  shows "\<exists>r. get_row name (map (\<lambda>c. (c, fld (fst (row_values zk name m)) c)) (primary_key name)) None clock s2 = Inr (Some r) \<and>
    row_model sc zk name (g_native r, g_attributes r) = Inr m \<and> put sc zk name e (Some (g_from r)) s2 = (s2, Inr False)"
  using put_read_again [OF assms(1-3) _ assms(5-8) refl] assms(4) by blast

theorem put_then_read_witness:
  "\<exists>s1 m (r :: grow). put plain_scalars (\<lambda>_. True) ''preferences'' warmer_entity (Some 20) (begun 30 settled_home) = (s1, Inr True) \<and>
     model_validate plain_scalars (\<lambda>_. True) ''preferences'' (snd warmer_entity) = Inr m \<and>
     row_model plain_scalars (\<lambda>_. True) ''preferences'' (g_native r, g_attributes r) = Inr m \<and>
     put plain_scalars (\<lambda>_. True) ''preferences'' warmer_entity (Some (g_from r)) (begun 40 s1) = (begun 40 s1, Inr False)"
proof -
  from warmer_put obtain s1 where w: "put plain_scalars (\<lambda>_. True) ''preferences'' warmer_entity (Some 20) (begun 30 settled_home) = (s1, Inr True)" ..
  have m: "model_validate plain_scalars (\<lambda>_. True) ''preferences'' (snd warmer_entity) = Inr (dict_set ''value'' (PFloat (FFin (Dec 720 (- 1)))) warm_preference)"
    by code_simp
  have "repo_household (begun 40 s1) = repo_household (begun 30 settled_home)"
    using write_row_True [OF w [unfolded put_def]] by (auto simp: begun_def)
  note home = this
  have j: "json_given fs (dict_set ''value'' (PFloat (FFin (Dec 720 (- 1)))) warm_preference)"
    if "map_of (MODELS (\<lambda>_. True)) ''preferences'' = Some fs" for fs
    using that by (auto simp: MODELS_def json_given_def Preference_fields_def Entity_fields_def required_def positive_def
      warm_preference_def fld_def dict_get_def)
  have large: "storable (PDict (dict_set ''value'' (PFloat (FFin (Dec 720 (- 1)))) warm_preference))" by code_simp
  have "current_rows (repo_store (begun 40 s1)) = current_rows (repo_store s1)" "repo_at (begun 40 s1) = Some 40"
    by (simp_all add: begun_def)
  note rows = this
  have "\<exists>r. get_row ''preferences'' (map (\<lambda>c. (c, fld (fst (row_values (\<lambda>_. True) ''preferences''
        (dict_set ''value'' (PFloat (FFin (Dec 720 (- 1)))) warm_preference))) c)) (primary_key ''preferences'')) None 0 (begun 40 s1) = Inr (Some r) \<and>
      row_model plain_scalars (\<lambda>_. True) ''preferences'' (g_native r, g_attributes r) =
        Inr (dict_set ''value'' (PFloat (FFin (Dec 720 (- 1)))) warm_preference) \<and>
      put plain_scalars (\<lambda>_. True) ''preferences'' warmer_entity (Some (g_from r)) (begun 40 s1) = (begun 40 s1, Inr False)"
    by (rule put_then_read [OF plain_scalars_ok w m _ large rows(1) home rows(2)]) (rule j)
  then show ?thesis by (elim exE conjE) (intro exI conjI, rule w, rule m, assumption+)
qed

end
