(* ===== verification/Checkins.thy ===== *)
theory Checkins
  imports Pipeline
begin

text \<open>
  Check-ins with a trusted contact, \<open>hirz/contacts/checkins.py\<close>, and the audited grant every change of
  them follows, \<open>hirz/contacts/service.py\<close> and \<open>hirz/companion/governance.py\<close>. A job waits for approval,
  is sent, and is closed by an answer, a deadline, a revocation or a failure; what became of the check
  is the verification state of its case. Private links, jobs and receipts are shared by the households,
  each household has its own tables of the pipeline. Within a transaction a clock is read once.
\<close>

section \<open>Rows\<close>

text \<open>An encrypted column is known by whether it is there: \<open>jb_sealed\<close>, \<open>lk_sealed\<close>.\<close>

datatype link_kind = App_link | Email_link
datatype link_status = Link_pending | Link_confirmed | Link_active | Link_revoked
datatype job_status = Job_approval | Job_pending | Job_sending | Job_sent | Job_closed
datatype verdict = V_pending | V_genuine | V_not_genuine | V_will_call | V_no_answer

fun verdict_name :: "verdict \<Rightarrow> string" where
  "verdict_name V_pending = ''pending''"
| "verdict_name V_genuine = ''genuine''"
| "verdict_name V_not_genuine = ''not_genuine''"
| "verdict_name V_will_call = ''will_call''"
| "verdict_name V_no_answer = ''no_answer''"

record contact_link =
  lk_id :: string
  lk_home :: string
  lk_contact :: string
  lk_owner :: string
  lk_kind :: link_kind
  lk_status :: link_status
  lk_token :: string
  lk_sealed :: bool
  lk_recipient :: "(string \<times> string) option"
  lk_proof :: pdict
  lk_attempts :: nat
  lk_next :: "int option"
  lk_created :: int
  lk_expires :: int
  lk_seq :: int

record checkin_job =
  jb_id :: string
  jb_home :: string
  jb_member :: string
  jb_link :: string
  jb_case :: string
  jb_action :: string
  jb_hash :: string
  jb_principal :: principal
  jb_status :: job_status
  jb_attempts :: nat
  jb_token :: "string option"
  jb_sealed :: bool
  jb_created :: int
  jb_expires :: "int option"
  jb_next :: int
  jb_seq :: int

record checkin_receipt =
  rc_job :: string
  rc_home :: string
  rc_member :: "string option"
  rc_answer :: verdict
  rc_proof :: string
  rc_hash :: string
  rc_at :: int
  rc_seq :: int

record verification =
  vs_method :: string
  vs_status :: verdict
  vs_sent_to :: string
  vs_started :: int
  vs_expires :: int
  vs_source :: string
  vs_reason :: "string option"

record case_row =
  cs_id :: string
  cs_home :: string
  cs_member :: string
  cs_person :: bool
  cs_contact :: "string option"
  cs_claim :: pv
  cs_state :: "verification option"
  cs_seq :: int

text \<open>\<open>ct_couriers\<close>: household, contact and instant of the courier deliveries that were published.\<close>

record contact_tables =
  ct_houses :: "(string \<times> house) list"
  ct_links :: "contact_link list"
  ct_jobs :: "checkin_job list"
  ct_receipts :: "checkin_receipt list"
  ct_cases :: "case_row list"
  ct_couriers :: "(string \<times> string \<times> int) list"

text \<open>\<open>InconsistentRecord\<close>, and every other exception.\<close>

datatype contact_exn = Inconsistent | Failed exn

type_synonym 'a contact_result = "contact_exn + 'a"

fun contact_of :: "'a result \<Rightarrow> 'a contact_result" where
  "contact_of (Inl e) = Inl (Failed e)"
| "contact_of (Inr x) = Inr x"

definition need :: "'a option \<Rightarrow> 'a contact_result" where
  "need x = of_opt (Failed ValueError) x"

definition require :: "bool \<Rightarrow> unit contact_result" where
  "require b = guard (Failed ValueError) b"

text \<open>
  What a transaction runs with: the plant of each household, \<open>uuid4().hex\<close> as an identifier chosen for
  the tables at hand, the household's clock, the wall clock of \<open>contact_time\<close>, the digest of
  \<open>companion/auth.py\<close>, whether the policy is published elsewhere, whether the contact key is there, and
  the tool server's command \<open>record_verification\<close> that stores a case.
\<close>

record contact_env =
  ce_plant :: "string \<Rightarrow> plant"
  ce_uuid :: "house \<Rightarrow> string"
  ce_now :: int
  ce_wall :: int
  ce_digest :: "pv \<Rightarrow> string"
  ce_route :: bool
  ce_key :: bool
  ce_record :: "string \<Rightarrow> principal \<Rightarrow> case_row \<Rightarrow> int \<Rightarrow> contact_tables \<Rightarrow> contact_tables contact_result"

section \<open>Internal commands\<close>

text \<open>\<open>prepare\<close> of \<open>companion/governance.py\<close>, with the command that the service is running.\<close>

definition companion_prepare :: "bool \<Rightarrow> action option \<Rightarrow> house \<Rightarrow> action \<Rightarrow> principal \<Rightarrow> unit result" where
  "companion_prepare route command h a pr =
     (let op = dict_get (params a) ''operation'' PNone; scheduler = (p_surface pr = Scheduler); class = action_class a;
          drafting = (class = ''governance.constitution'' \<and> op \<in> {PStr ''draft'', PStr ''draft_failed''} \<and> scheduler);
          publishing = (class = ''governance.constitution'' \<and> op = PStr ''publish'' \<and> scheduler \<and> route);
          publishing_run = (class = ''governance.twin'' \<and> op = PStr ''publish'' \<and> scheduler);
          contact_worker = (class = ''governance.contacts'' \<and> op = PStr ''process'' \<and> scheduler);
          fresh = (class = ''governance.credentials'' \<or> op = PStr ''activate'' \<or>
                   class = ''governance.contacts'' \<and> op \<notin> {PStr ''guess'', PStr ''process''}) in
      rbind (guard ValueError (case command of None \<Rightarrow> False
         | Some c \<Rightarrow> content_hash c = content_hash a \<and> params c = params a \<and> a_target c = a_target a \<and>
             (p_surface pr = App \<or> drafting \<or> publishing_run \<or> contact_worker \<or> publishing))) (\<lambda>_.
      rbind (guard ValueError (fresh \<longrightarrow> passkey_verified pr \<and> verified_action_hash pr = Some (content_hash a))) (\<lambda>_.
      rbind (credential_current h pr) (\<lambda>current.
      rbind (guard ValueError current) (\<lambda>_.
        guard ValueError (class \<noteq> ''governance.credentials'' \<and> credential_id pr = None \<longrightarrow>
          drafting \<or> contact_worker \<or> publishing))))))"

text \<open>\<open>governance\<close> of \<open>executor/plans.py\<close>.\<close>

definition governance_action :: "(pv \<Rightarrow> string) \<Rightarrow> string \<Rightarrow> string \<Rightarrow> string \<Rightarrow> pdict \<Rightarrow> surface \<Rightarrow> action" where
  "governance_action hs uuid hh name ps surf =
     (let a = \<lparr>action_id = uuid, action_class = ''governance.'' @ name,
               a_target = \<lparr>adapter = ''household'', entity = hh, zone = None, zone_set = False\<rparr>, params = ps,
               requested_by = \<lparr>member_id = None, rq_role = Unknown, rq_surface = surf, speaker = None, claimed_author = None\<rparr>,
               reason = ''Explicit local household mutation'', plan_id = None, scheduled_for = None, expected_effect = None,
               content_hash = [], a_revert = None\<rparr>
      in a\<lparr>content_hash := action_hash hs a\<rparr>)"

text \<open>The plant while a command runs: assessment meets \<open>prepare\<close> with that command.\<close>

definition commanded :: "bool \<Rightarrow> action \<Rightarrow> house \<Rightarrow> plant \<Rightarrow> plant" where
  "commanded route c h p = p\<lparr>base_desk := (base_desk p)\<lparr>prepare_companion := companion_prepare route (Some c) h\<rparr>\<rparr>"

definition plain_call :: "contact_env \<Rightarrow> house \<Rightarrow> action \<Rightarrow> principal \<Rightarrow> call" where
  "plain_call e h a pr = \<lparr>c_action = a, c_principal = pr, c_cost = None, c_evidence = [], c_redeem = True, c_approval_id = None,
     c_enqueue = False, c_review = None, c_fresh = ce_uuid e h, c_now = ce_now e, c_later = ce_now e\<rparr>"

text \<open>\<open>household\<close>: the decision must execute; its audit number is what the callers keep.\<close>

definition household_command :: "contact_env \<Rightarrow> string \<Rightarrow> principal \<Rightarrow> string \<Rightarrow> pdict \<Rightarrow> house \<Rightarrow> (int \<times> house) result" where
  "household_command e hh pr name ps h =
     (let p = ce_plant e hh; a = governance_action (H p) (ce_uuid e h) hh name ps (p_surface pr) in
      rbind (mutate_locked (commanded (ce_route e) a h p) (plain_call e h a pr) h) (\<lambda>(answer, h1).
      case answer of
        Replayed _ \<Rightarrow> Inl ValueError
      | Decided d \<Rightarrow> if d_kind d = Kexecute then rbind (of_opt ValueError (audit_id d)) (\<lambda>n. Inr (n, h1)) else Inl ValueError))"

definition house_of :: "contact_tables \<Rightarrow> string \<Rightarrow> house contact_result" where
  "house_of t hh = need (map_of (ct_houses t) hh)"

definition with_house :: "string \<Rightarrow> house \<Rightarrow> contact_tables \<Rightarrow> contact_tables" where
  "with_house hh h t = t\<lparr>ct_houses := dict_set hh h (ct_houses t)\<rparr>"

text \<open>\<open>grant\<close> of \<open>contacts/service.py\<close>.\<close>

definition grant_contact ::
  "contact_env \<Rightarrow> string \<Rightarrow> principal \<Rightarrow> string \<Rightarrow> string \<Rightarrow> contact_tables \<Rightarrow> (int \<times> contact_tables) contact_result"
where
  "grant_contact e hh pr operation reference t =
     rbind (house_of t hh) (\<lambda>h.
     let ps = [(''operation'', PStr operation), (''reference'', PStr reference)];
         a = governance_action (H (ce_plant e hh)) (ce_uuid e h) hh ''contacts'' ps (p_surface pr) in
     rbind (contact_of (household_command e hh (pr\<lparr>verified_action_hash := Some (content_hash a)\<rparr>) ''contacts'' ps h)) (\<lambda>(n, h1).
       Inr (n, with_house hh h1 t)))"

text \<open>\<open>account\<close>: the first account linked to a current member.\<close>

definition account_of :: "house \<Rightarrow> string \<Rightarrow> principal contact_result" where
  "account_of h m =
     (case sort_key (\<lambda>(prov, sb, i). [prov, sb]) (filter (\<lambda>(prov, sb, i). i = m \<and> m \<in> fst ` set (roster h)) (accounts h)) of
        [] \<Rightarrow> Inl (Failed ValueError)
      | (prov, sb, _) # _ \<Rightarrow> Inr \<lparr>provider = prov, sub = sb, p_surface = App, claimed_role = None, requester_confirmed = False,
          passkey_verified = False, verified_action_hash = None, credential_id = None\<rparr>)"

definition worker_of :: "string \<Rightarrow> contact_tables \<Rightarrow> string \<Rightarrow> principal contact_result" where
  "worker_of hh t m =
     rbind (house_of t hh) (\<lambda>h. rbind (account_of h m) (\<lambda>pr. Inr (pr\<lparr>p_surface := Scheduler\<rparr>)))"

definition contact_event ::
  "contact_env \<Rightarrow> string \<Rightarrow> pdict \<Rightarrow> contact_tables \<Rightarrow> (int \<times> contact_tables) contact_result"
where
  "contact_event e hh payload t =
     rbind (house_of t hh) (\<lambda>h.
     rbind (contact_of (write_event (ce_plant e hh) (ce_now e) VERIFY (\<lambda>_. PDict payload) h)) (\<lambda>(n, h1).
       Inr (n, with_house hh h1 t)))"

section \<open>Reading and changing rows\<close>

definition link_of :: "contact_tables \<Rightarrow> string \<Rightarrow> contact_link contact_result" where
  "link_of t i = need (find (\<lambda>l. lk_id l = i) (ct_links t))"

definition job_of :: "contact_tables \<Rightarrow> string \<Rightarrow> string \<Rightarrow> checkin_job contact_result" where
  "job_of t hh i = need (find (\<lambda>j. jb_id j = i \<and> jb_home j = hh) (ct_jobs t))"

definition case_of :: "contact_tables \<Rightarrow> string \<Rightarrow> string \<Rightarrow> case_row contact_result" where
  "case_of t hh i = need (find (\<lambda>c. cs_id c = i \<and> cs_home c = hh) (ct_cases t))"

definition receipt_of :: "contact_tables \<Rightarrow> string \<Rightarrow> checkin_receipt option" where
  "receipt_of t i = find (\<lambda>r. rc_job r = i) (ct_receipts t)"

definition update_job :: "string \<Rightarrow> (checkin_job \<Rightarrow> checkin_job) \<Rightarrow> contact_tables \<Rightarrow> contact_tables" where
  "update_job i f t = t\<lparr>ct_jobs := map (\<lambda>j. if jb_id j = i then f j else j) (ct_jobs t)\<rparr>"

definition update_case :: "string \<Rightarrow> string \<Rightarrow> (case_row \<Rightarrow> case_row) \<Rightarrow> contact_tables \<Rightarrow> contact_tables" where
  "update_case hh i f t = t\<lparr>ct_cases := map (\<lambda>c. if cs_id c = i \<and> cs_home c = hh then f c else c) (ct_cases t)\<rparr>"

definition method_of :: "link_kind \<Rightarrow> string" where
  "method_of k = (if k = App_link then ''app_confirmation'' else ''verified_email'')"

definition request_hash :: "contact_env \<Rightarrow> case_row \<Rightarrow> string" where
  "request_hash e c = ce_digest e (cs_claim c)"

definition minutes :: "int \<Rightarrow> int" where "minutes n = n * 60000000"
definition seconds :: "int \<Rightarrow> int" where "seconds n = n * 1000000"

section \<open>Finishing\<close>

text \<open>No deadline existed while approval was pending: a zero-duration interval stands for it.\<close>

definition state_or_empty :: "contact_env \<Rightarrow> contact_tables \<Rightarrow> checkin_job \<Rightarrow> case_row \<Rightarrow> verification contact_result" where
  "state_or_empty e t j c =
     (case cs_state c of
        Some v \<Rightarrow> Inr v
      | None \<Rightarrow> rbind (link_of t (jb_link j)) (\<lambda>l.
          Inr \<lparr>vs_method = method_of (lk_kind l), vs_status = V_pending, vs_sent_to = lk_contact l, vs_started = ce_wall e,
               vs_expires = ce_wall e, vs_source = ''real'', vs_reason = None\<rparr>))"

definition opt_text :: "string option \<Rightarrow> pv" where
  "opt_text x = (case x of None \<Rightarrow> PNone | Some s \<Rightarrow> PStr s)"

text \<open>The audited payload of a receipt, and what it must say.\<close>

definition receipt_payload :: "contact_tables \<Rightarrow> checkin_receipt \<Rightarrow> pdict option" where
  "receipt_payload t r =
     (case map_of (ct_houses t) (rc_home r) of
        None \<Rightarrow> None
      | Some h \<Rightarrow> (case find (\<lambda>x. r_seq x = rc_seq r \<and> r_event x = ''VERIFY'') (log (audit h)) of
          None \<Rightarrow> None
        | Some x \<Rightarrow> (case r_payload x of PDict d \<Rightarrow> Some d | _ \<Rightarrow> None)))"

definition receipt_expected :: "checkin_job \<Rightarrow> verdict \<Rightarrow> checkin_receipt \<Rightarrow> pdict" where
  "receipt_expected j status r =
     [(''operation'', PStr ''contact_receipt''), (''job_id'', PStr (jb_id j)), (''request_hash'', PStr (jb_hash j)),
      (''answer'', PStr (verdict_name status)), (''proof'', PStr (rc_proof r)), (''member_id'', opt_text (rc_member r)),
      (''accepted_at'', stamp (rc_at r))]"

definition receipt_audited :: "contact_tables \<Rightarrow> checkin_job \<Rightarrow> verdict \<Rightarrow> checkin_receipt \<Rightarrow> bool" where
  "receipt_audited t j status r =
     (case receipt_payload t r of
        None \<Rightarrow> False
      | Some d \<Rightarrow> d \<noteq> [] \<and> (\<forall>(k, v) \<in> set (receipt_expected j status r). dict_get d k PNone = v))"

text \<open>The columns of the receipt, printed by \<open>str\<close>; an instant stands for its own text.\<close>

fun decimal :: "nat \<Rightarrow> string" where
  "decimal n = (if n < 10 then [char_of (48 + n)] else decimal (n div 10) @ [char_of (48 + n mod 10)])"

declare decimal.simps [simp del]

definition receipt_proof :: "checkin_receipt option \<Rightarrow> pv" where
  "receipt_proof x = (case x of None \<Rightarrow> PNone
     | Some r \<Rightarrow> PDict [(''household_id'', PStr (rc_home r)),
         (''member_id'', PStr (case rc_member r of None \<Rightarrow> ''None'' | Some m \<Rightarrow> m)),
         (''decision_seq'', PStr (decimal (nat (rc_seq r)))), (''proof'', PStr (rc_proof r)), (''accepted_at'', stamp (rc_at r))])"

definition finish_job ::
  "contact_env \<Rightarrow> string \<Rightarrow> principal \<Rightarrow> checkin_job \<Rightarrow> case_row \<Rightarrow> verdict \<Rightarrow> string option \<Rightarrow> contact_tables \<Rightarrow> contact_tables contact_result"
where
  "finish_job e hh pr j c status why t =
     rbind (grant_contact e hh pr ''process'' (jb_id j) t) (\<lambda>(n, t1).
     rbind (state_or_empty e t1 j c) (\<lambda>v.
     rbind (guard Inconsistent (vs_status v = V_pending \<and> vs_source v = ''real'')) (\<lambda>_.
     let t2 = update_case hh (cs_id c) (\<lambda>x. x\<lparr>cs_state := Some (v\<lparr>vs_status := status, vs_reason := why\<rparr>), cs_seq := n\<rparr>) t1;
         t3 = update_job (jb_id j) (\<lambda>x. x\<lparr>jb_status := Job_closed, jb_sealed := False, jb_seq := n\<rparr>) t2;
         r = receipt_of t3 (jb_id j) in
     rbind (guard Inconsistent (case r of None \<Rightarrow> True | Some x \<Rightarrow> receipt_audited t3 j status x)) (\<lambda>_.
     rbind (contact_event e hh
        [(''case_id'', PStr (cs_id c)), (''status'', PStr (verdict_name status)), (''reason'', opt_text why), (''source'', PStr ''real''),
         (''worker_surface'', PStr ''scheduler''), (''decision_seq'', PInt n), (''receipt'', receipt_proof r)] t3) (\<lambda>(_, t4). Inr t4)))))"

text \<open>Only an open check changes; an already terminal answer is left as recorded.\<close>

definition inconsistent_state :: "verification \<Rightarrow> verification" where
  "inconsistent_state v = (if vs_status v = V_pending then v\<lparr>vs_status := V_no_answer, vs_reason := Some ''inconsistent_record''\<rparr> else v)"

definition closed_inconsistent :: "string \<Rightarrow> string \<Rightarrow> case_row \<Rightarrow> verification \<Rightarrow> int \<Rightarrow> contact_tables \<Rightarrow> contact_tables" where
  "closed_inconsistent hh i c v n t = update_job i (\<lambda>x. x\<lparr>jb_status := Job_closed, jb_sealed := False, jb_seq := n\<rparr>)
     (if vs_status v = V_pending then update_case hh (cs_id c) (\<lambda>x. x\<lparr>cs_state := Some (inconsistent_state v), cs_seq := n\<rparr>) t else t)"

definition close_inconsistent :: "contact_env \<Rightarrow> string \<Rightarrow> string \<Rightarrow> contact_tables \<Rightarrow> contact_tables contact_result" where
  "close_inconsistent e hh i t =
     rbind (job_of t hh i) (\<lambda>j.
     if jb_status j = Job_closed then Inr t
     else
       rbind (worker_of hh t (jb_member j)) (\<lambda>pr.
       rbind (grant_contact e hh pr ''process'' i t) (\<lambda>(n, t1).
       rbind (case_of t1 hh (jb_case j)) (\<lambda>c.
       rbind (state_or_empty e t1 j c) (\<lambda>v.
       rbind (contact_event e hh
          [(''case_id'', PStr (cs_id c)), (''status'', PStr (verdict_name (vs_status (inconsistent_state v)))),
           (''reason'', PStr ''inconsistent_record''), (''source'', PStr (vs_source (inconsistent_state v))),
           (''worker_surface'', PStr ''scheduler''), (''decision_seq'', PInt n), (''receipt'', PNone)] (closed_inconsistent hh i c v n t1))
         (\<lambda>(_, t4). Inr t4))))))"


section \<open>Replies\<close>

definition receipt ::
  "contact_env \<Rightarrow> string \<Rightarrow> principal \<Rightarrow> checkin_job \<Rightarrow> contact_link \<Rightarrow> string \<Rightarrow> verdict \<Rightarrow> string \<Rightarrow> string option
     \<Rightarrow> contact_tables \<Rightarrow> contact_tables contact_result"
where
  "receipt e hh pr j l binding answer proof member t =
     rbind (require (lk_status l = Link_active \<and> jb_hash j = binding)) (\<lambda>_.
     case receipt_of t (jb_id j) of
       Some old \<Rightarrow> rbind (require (rc_answer old = answer \<and> rc_hash old = binding \<and> rc_home old = hh \<and> rc_member old = member)) (\<lambda>_. Inr t)
     | None \<Rightarrow>
         rbind (need (find (\<lambda>x. jb_id x = jb_id j) (ct_jobs t))) (\<lambda>current.
         rbind (require (jb_status current \<in> {Job_pending, Job_sending, Job_sent} \<and> (lk_kind l = App_link \<longrightarrow> jb_status current = Job_sent) \<and>
            (case jb_expires current of None \<Rightarrow> False | Some x \<Rightarrow> ce_wall e < x))) (\<lambda>_.
         rbind (grant_contact e hh pr (if proof = ''passkey'' then ''reply'' else ''process'') (jb_id j) t) (\<lambda>(n, t1).
         rbind (contact_event e hh
            [(''operation'', PStr ''contact_receipt''), (''job_id'', PStr (jb_id j)), (''request_hash'', PStr binding),
             (''answer'', PStr (verdict_name answer)), (''proof'', PStr proof), (''member_id'', opt_text member),
             (''accepted_at'', stamp (ce_wall e)), (''decision_seq'', PInt n)] t1) (\<lambda>(m, t2).
           Inr (t2\<lparr>ct_receipts := ct_receipts t2 @ [\<lparr>rc_job = jb_id j, rc_home = hh, rc_member = member, rc_answer = answer,
             rc_proof = proof, rc_hash = binding, rc_at = ce_wall e, rc_seq = m\<rparr>]\<rparr>))))))"

definition addressed :: "contact_link \<Rightarrow> string \<Rightarrow> string option \<Rightarrow> bool" where
  "addressed l hh m \<longleftrightarrow> (case (lk_recipient l, m) of (Some (h, i), Some m) \<Rightarrow> h = hh \<and> i = m | _ \<Rightarrow> False)"

definition bound_passkey :: "house \<Rightarrow> principal \<Rightarrow> bool result" where
  "bound_passkey h pr =
     (if passkey_verified pr \<and> credential_id pr \<noteq> None \<and> credential_id pr \<noteq> Some [] then credential_current h pr else Inr False)"

definition reply_app ::
  "contact_env \<Rightarrow> string \<Rightarrow> principal \<Rightarrow> string \<Rightarrow> string \<Rightarrow> verdict \<Rightarrow> contact_tables \<Rightarrow> contact_tables contact_result"
where
  "reply_app e hh pr reference binding answer t =
     rbind (require (answer \<in> {V_genuine, V_not_genuine, V_will_call})) (\<lambda>_.
     rbind (need (find (\<lambda>j. jb_id j = reference) (ct_jobs t))) (\<lambda>j.
     rbind (link_of t (jb_link j)) (\<lambda>l.
     rbind (house_of t hh) (\<lambda>h.
     rbind (contact_of (resolve_member h pr)) (\<lambda>m.
     rbind (require (lk_kind l = App_link \<and> addressed l hh (member_id m) \<and> rq_role m \<in> {Owner, Adult})) (\<lambda>_.
     rbind (contact_of (bound_passkey h pr)) (\<lambda>ok.
     rbind (require ok) (\<lambda>_.
       receipt e hh pr j l binding answer ''passkey'' (member_id m) t))))))))"

section \<open>Permission to send\<close>

definition last_redeemed :: "house \<Rightarrow> string \<Rightarrow> int \<Rightarrow> approval_row option" where
  "last_redeemed h i now =
     (case sort_key approval_id (filter (\<lambda>x. ap_action_id x = i \<and> ap_status x = Redeemed \<and> now < expires_at x) (approvals h)) of
        [] \<Rightarrow> None | xs \<Rightarrow> Some (last xs))"

definition delivery_allowed :: "contact_env \<Rightarrow> string \<Rightarrow> action \<Rightarrow> principal \<Rightarrow> house \<Rightarrow> bool result" where
  "delivery_allowed e hh a pr h =
     (let p = ce_plant e hh; now = ce_now e in
      rbind (assess_operation (H p) (secs p) (desk_of p h) a pr None [] now None None) (\<lambda>ev.
      rbind (credential_current h pr) (\<lambda>current.
      rbind (if d_kind (ev_decision ev) = Kexecute then Inr (current, None, None)
             else if d_kind (ev_decision ev) = Kask \<and> current then
               (case last_redeemed h (action_id a) now of
                  None \<Rightarrow> Inr (False, None, None)
                | Some x \<Rightarrow>
                    rbind (binding_of p a pr None ev) (\<lambda>b.
                    if compatible (ap_binding x) b
                    then rbind (eligible_votes h (approval_id x) ev) (\<lambda>(ok, voter, approved_at). Inr (ok, voter, approved_at))
                    else Inr (False, None, None)))
             else Inr (False, None, None)) (\<lambda>(allowed, voter, approved_at).
      if \<not> allowed then Inr False
      else rbind (boundary_check p h ev now approved_at voter) (\<lambda>ev1. Inr (d_kind (ev_decision ev1) = Kexecute))))))"

text \<open>Every transport attempt of the window counts, crash retries included.\<close>

definition recent_job :: "int \<Rightarrow> checkin_job \<Rightarrow> bool" where
  "recent_job since j \<longleftrightarrow> since \<le> jb_created j \<or> since \<le> jb_next j"

definition recent_link :: "int \<Rightarrow> contact_link \<Rightarrow> bool" where
  "recent_link since l \<longleftrightarrow> since \<le> lk_created l \<or> (case lk_next l of None \<Rightarrow> False | Some x \<Rightarrow> since \<le> x)"

definition sends_since :: "contact_tables \<Rightarrow> string \<Rightarrow> string option \<Rightarrow> int \<Rightarrow> int \<Rightarrow> nat" where
  "sends_since t hh contact window wall =
     (let since = wall - window; of_contact = (\<lambda>i. case contact of None \<Rightarrow> True | Some c \<Rightarrow> i = c) in
      sum_list (map jb_attempts (filter (\<lambda>j. jb_home j = hh \<and> recent_job since j \<and>
          (\<exists>l \<in> set (ct_links t). lk_id l = jb_link j \<and> of_contact (lk_contact l))) (ct_jobs t))) +
      sum_list (map lk_attempts (filter (\<lambda>l. lk_home l = hh \<and> recent_link since l \<and> of_contact (lk_contact l)) (ct_links t))) +
      length (filter (\<lambda>(home, i, published). home = hh \<and> since \<le> published \<and> published \<le> wall \<and> of_contact i) (ct_couriers t)))"

definition send_allowed :: "contact_env \<Rightarrow> string \<Rightarrow> string \<Rightarrow> contact_tables \<Rightarrow> bool" where
  "send_allowed e hh contact t \<longleftrightarrow>
     sends_since t hh (Some contact) (minutes 15) (ce_wall e) < 3 \<and> sends_since t hh None (minutes 1440) (ce_wall e) < 20"

section \<open>One pass of the worker over a job\<close>

definition approval_reason :: "contact_env \<Rightarrow> house \<Rightarrow> checkin_job \<Rightarrow> contact_link \<Rightarrow> string option result" where
  "approval_reason e h j l =
     (if lk_status l \<noteq> Link_active then Inr (Some ''channel_revoked'')
      else
        (let asked = (case sort_key (\<lambda>x. - ap_created_at x) (filter (\<lambda>x. ap_action_id x = jb_action j) (approvals h)) of
             [] \<Rightarrow> None | x # _ \<Rightarrow> Some x) in
         if (case asked of None \<Rightarrow> True | Some x \<Rightarrow> ap_status x \<in> {Rejected, Expired} \<or> expires_at x \<le> ce_now e)
         then Inr (Some ''approval_refused'')
         else rbind (credential_current h (jb_principal j)) (\<lambda>ok. Inr (if ok then None else Some ''permission_changed''))))"

text \<open>What ends the job now, if anything does; a deadline that is not there cannot be compared.\<close>

definition job_verdict ::
  "contact_env \<Rightarrow> checkin_job \<Rightarrow> contact_link \<Rightarrow> checkin_receipt option \<Rightarrow> (verdict \<times> string option) option contact_result"
where
  "job_verdict e j l accepted =
     (case accepted of
        Some r \<Rightarrow>
          rbind (guard Inconsistent (rc_hash r = jb_hash j)) (\<lambda>_.
          rbind (of_opt (Failed TypeError) (jb_expires j)) (\<lambda>deadline.
          rbind (guard Inconsistent (rc_at r < deadline)) (\<lambda>_. Inr (Some (rc_answer r, None)))))
      | None \<Rightarrow>
          if lk_status l \<noteq> Link_active then Inr (Some (V_no_answer, Some ''channel_revoked''))
          else rbind (of_opt (Failed TypeError) (jb_expires j)) (\<lambda>deadline. Inr (
            if deadline \<le> ce_wall e then Some (V_no_answer, Some ''expired'')
            else if 3 \<le> jb_attempts j \<and> jb_status j \<noteq> Job_sent \<and> jb_next j \<le> ce_wall e then Some (V_no_answer, Some ''delivery_failed'')
            else None)))"

text \<open>The claim of a transport attempt: \<open>Some\<close> attempt when an e-mail has to be sent after the transaction.\<close>

definition claim_attempt ::
  "contact_env \<Rightarrow> string \<Rightarrow> principal \<Rightarrow> checkin_job \<Rightarrow> case_row \<Rightarrow> contact_link \<Rightarrow> contact_tables \<Rightarrow> (nat option \<times> contact_tables) contact_result"
where
  "claim_attempt e hh pr j c l t =
     (if jb_status j = Job_sent \<or> ce_wall e < jb_next j then Inr (None, t)
      else
        rbind (house_of t hh) (\<lambda>h.
        rbind (need (find_action h (jb_action j))) (\<lambda>x.
        rbind (contact_of (delivery_allowed e hh (proposal x) (jb_principal j) h)) (\<lambda>allowed.
        if \<not> allowed then rbind (finish_job e hh pr j c V_no_answer (Some ''permission_changed'') t) (\<lambda>t1. Inr (None, t1))
        else if \<not> send_allowed e hh (lk_contact l) t then Inr (None, t)
        else
          rbind (grant_contact e hh pr ''process'' (jb_id j) t) (\<lambda>(n, t1).
          let k = jb_attempts j + 1 in
          rbind (guard (Failed ValueError) (k \<le> 3)) (\<lambda>_.
            Inr (if lk_kind l = Email_link then Some k else None,
              update_job (jb_id j) (\<lambda>y. y\<lparr>jb_status := if lk_kind l = App_link then Job_sent else Job_sending, jb_attempts := k,
                jb_next := ce_wall e + seconds (30 * int k), jb_seq := n\<rparr>) t1)))))))"

definition advance_job :: "contact_env \<Rightarrow> string \<Rightarrow> string \<Rightarrow> contact_tables \<Rightarrow> (nat option \<times> contact_tables) contact_result" where
  "advance_job e hh i t =
     rbind (job_of t hh i) (\<lambda>j.
     rbind (link_of t (jb_link j)) (\<lambda>l.
     if lk_kind l \<noteq> App_link \<and> \<not> ce_key e then Inr (None, t)
     else
       rbind (worker_of hh t (jb_member j)) (\<lambda>pr.
       rbind (case_of t hh (jb_case j)) (\<lambda>c.
       if jb_status j = Job_approval then
         rbind (house_of t hh) (\<lambda>h.
         rbind (contact_of (approval_reason e h j l)) (\<lambda>why.
         case why of
           None \<Rightarrow> Inr (None, t)
         | Some w \<Rightarrow> rbind (finish_job e hh pr j c V_no_answer (Some w) t) (\<lambda>t1. Inr (None, t1))))
       else
         rbind (guard Inconsistent (case cs_state c of None \<Rightarrow> False | Some v \<Rightarrow> vs_source v = ''real'')) (\<lambda>_.
         rbind (job_verdict e j l (receipt_of t i)) (\<lambda>result.
         case result of
           Some (status, why) \<Rightarrow> rbind (finish_job e hh pr j c status why t) (\<lambda>t1. Inr (None, t1))
         | None \<Rightarrow> claim_attempt e hh pr j c l t))))))"

text \<open>\<open>closes_inconsistent\<close>: after the failed transaction rolled back, close only that job in a new one.\<close>

definition advance_one :: "contact_env \<Rightarrow> string \<Rightarrow> string \<Rightarrow> contact_tables \<Rightarrow> (nat option \<times> contact_tables) contact_result" where
  "advance_one e hh i t =
     (case advance_job e hh i t of
        Inl Inconsistent \<Rightarrow> rbind (close_inconsistent e hh i t) (\<lambda>t1. Inr (None, t1))
      | r \<Rightarrow> r)"

text \<open>After \<open>send_email\<close>, its result in a second transaction, with the principal and the attempt of the first.\<close>

datatype transport = Delivered | Refused | Unreachable

definition deliver_job ::
  "contact_env \<Rightarrow> string \<Rightarrow> principal \<Rightarrow> string \<Rightarrow> nat \<Rightarrow> transport \<Rightarrow> contact_tables \<Rightarrow> contact_tables contact_result"
where
  "deliver_job e hh pr i k result t =
     rbind (job_of t hh i) (\<lambda>j.
     rbind (link_of t (jb_link j)) (\<lambda>_.
     if jb_status j = Job_closed then Inr t
     else
       rbind (grant_contact e hh pr ''process'' i t) (\<lambda>(n, t1).
         Inr (update_job i (\<lambda>y. y\<lparr>jb_status := if result = Delivered then Job_sent else Job_pending,
            jb_attempts := if result = Refused then 3 else k,
            jb_next := if result = Refused then ce_wall e else ce_wall e + seconds (30 * int k), jb_seq := n\<rparr>) t1))))"

section \<open>Starting a check\<close>

definition contact_params :: "contact_env \<Rightarrow> string \<Rightarrow> string \<Rightarrow> case_row \<Rightarrow> contact_link \<Rightarrow> pdict" where
  "contact_params e hh m c l = [(''household_id'', PStr hh), (''member_id'', PStr m), (''case_id'', PStr (cs_id c)),
     (''channel'', PStr (lk_id l)), (''request_hash'', PStr (request_hash e c))]"

definition contact_action :: "contact_env \<Rightarrow> string \<Rightarrow> string \<Rightarrow> string \<Rightarrow> pdict \<Rightarrow> surface \<Rightarrow> action" where
  "contact_action e hh uuid contact ps surf =
     (let a = \<lparr>action_id = uuid, action_class = ''communication.contact_trusted_contact'',
               a_target = \<lparr>adapter = ''contacts'', entity = contact, zone = None, zone_set = False\<rparr>, params = ps,
               requested_by = \<lparr>member_id = None, rq_role = Unknown, rq_surface = surf, speaker = None, claimed_author = None\<rparr>,
               reason = ''Check the reported request through a verified contact channel'', plan_id = None, scheduled_for = None,
               expected_effect = None, content_hash = [], a_revert = None\<rparr>
      in a\<lparr>content_hash := action_hash (H (ce_plant e hh)) a\<rparr>)"

text \<open>\<open>queued\<close>: permission is there; the reply deadline starts.\<close>

definition queue_job ::
  "contact_env \<Rightarrow> string \<Rightarrow> principal \<Rightarrow> action \<Rightarrow> int \<Rightarrow> string \<Rightarrow> contact_tables \<Rightarrow> contact_tables contact_result"
where
  "queue_job e hh pr a n token t =
     rbind (need (find (\<lambda>j. jb_home j = hh \<and> jb_action j = action_id a) (ct_jobs t))) (\<lambda>j.
     rbind (require (jb_status j = Job_approval)) (\<lambda>_.
     rbind (link_of t (jb_link j)) (\<lambda>l.
     rbind (require (lk_status l = Link_active)) (\<lambda>_.
     rbind (case_of t hh (jb_case j)) (\<lambda>c.
     rbind (require (params a = contact_params e hh (jb_member j) c l)) (\<lambda>_.
     rbind (need (cs_contact c)) (\<lambda>contact.
     let deadline = ce_wall e + minutes (if lk_kind l = App_link then 2 else 15);
         v = \<lparr>vs_method = method_of (lk_kind l), vs_status = V_pending, vs_sent_to = contact, vs_started = ce_wall e,
              vs_expires = deadline, vs_source = ''real'', vs_reason = None\<rparr> in
     rbind (ce_record e hh pr (c\<lparr>cs_state := Some v\<rparr>) n t) (\<lambda>t1.
     rbind (require (ce_key e)) (\<lambda>_.
       Inr (update_job (jb_id j) (\<lambda>y. y\<lparr>jb_status := Job_pending, jb_expires := Some deadline,
         jb_token := Some (ce_digest e (PStr token)), jb_sealed := True, jb_seq := n\<rparr>) t1))))))))))"

datatype started = Clarify | Limited | Denied decision | Waiting decision | Started

text \<open>The job of a decided request; at once in the queue when nothing has to be asked.\<close>

definition new_job :: "contact_env \<Rightarrow> string \<Rightarrow> principal \<Rightarrow> action \<Rightarrow> string \<Rightarrow> case_row \<Rightarrow> contact_link \<Rightarrow> string \<Rightarrow> int \<Rightarrow> checkin_job" where
  "new_job e hh pr a who c l uuid n = \<lparr>jb_id = uuid, jb_home = hh, jb_member = who, jb_link = lk_id l, jb_case = cs_id c,
     jb_action = action_id a, jb_hash = request_hash e c, jb_principal = pr, jb_status = Job_approval, jb_attempts = 0,
     jb_token = None, jb_sealed = False, jb_created = ce_wall e, jb_expires = None, jb_next = ce_wall e, jb_seq = n\<rparr>"

definition place_job ::
  "contact_env \<Rightarrow> string \<Rightarrow> principal \<Rightarrow> decision \<Rightarrow> action \<Rightarrow> string \<Rightarrow> case_row \<Rightarrow> contact_link \<Rightarrow> string \<Rightarrow> string \<Rightarrow> contact_tables
     \<Rightarrow> (started \<times> contact_tables) contact_result"
where
  "place_job e hh pr d a who c l uuid token t =
     rbind (grant_contact e hh (pr\<lparr>p_surface := Scheduler\<rparr>) ''process'' (cs_id c) t) (\<lambda>(n, t1).
     rbind (require (\<forall>j \<in> set (ct_jobs t1). jb_id j \<noteq> uuid \<and> \<not> (jb_home j = hh \<and> jb_case j = cs_id c))) (\<lambda>_.
     let t2 = t1\<lparr>ct_jobs := ct_jobs t1 @ [new_job e hh pr a who c l uuid n]\<rparr> in
     if d_kind d = Kexecute
     then rbind (need (audit_id d)) (\<lambda>k. rbind (queue_job e hh pr a k token t2) (\<lambda>t3. Inr (Started, t3)))
     else Inr (Waiting d, t2)))"

text \<open>What becomes of a start the pipeline has answered: a job only where the answer executes or asks.\<close>

definition decided_start ::
  "contact_env \<Rightarrow> string \<Rightarrow> principal \<Rightarrow> reply \<Rightarrow> action \<Rightarrow> string \<Rightarrow> case_row \<Rightarrow> contact_link \<Rightarrow> string \<Rightarrow> string
     \<Rightarrow> contact_tables \<Rightarrow> (started \<times> contact_tables) contact_result"
where
  "decided_start e hh pr answer a who c l job_uuid token t =
     (case answer of
        Replayed _ \<Rightarrow> Inl (Failed ValueError)
      | Decided d \<Rightarrow>
          if d_kind d \<notin> {Kexecute, Kask} then Inr (Denied d, t)
          else place_job e hh pr d a who c l job_uuid token t)"

text \<open>
  \<open>start\<close>: \<open>review\<close> is the requester review of the tool call, whether this exact request was accepted.
\<close>

definition start_job ::
  "contact_env \<Rightarrow> string \<Rightarrow> principal \<Rightarrow> bool option \<Rightarrow> case_row \<Rightarrow> contact_link \<Rightarrow> string \<Rightarrow> string \<Rightarrow> contact_tables
     \<Rightarrow> (started \<times> contact_tables) contact_result"
where
  "start_job e hh pr0 review c l job_uuid token t =
     rbind (require (cs_person c)) (\<lambda>_.
     rbind (house_of t hh) (\<lambda>h.
     rbind (contact_of (resolve_member h pr0)) (\<lambda>m.
     rbind (need (cs_contact c)) (\<lambda>contact.
     if \<not> requester_confirmed pr0 \<and> review = None then Inr (Clarify, t)
     else if \<not> requester_confirmed pr0 \<and> review = Some False then Inl (Failed RequesterReview)
     else
       let pr = pr0\<lparr>requester_confirmed := True\<rparr>;
           day = filter (\<lambda>j. jb_home j = hh \<and> ce_wall e - minutes 1440 \<le> jb_created j) (ct_jobs t);
           recent = filter (\<lambda>j. jb_home j = hh \<and> ce_wall e - minutes 15 \<le> jb_created j \<and>
             (\<exists>k \<in> set (ct_links t). lk_id k = jb_link j \<and> lk_contact k = lk_contact l)) (ct_jobs t) in
       if 20 \<le> length day \<or> 3 \<le> length recent then Inr (Limited, t)
       else
         rbind (need (member_id m)) (\<lambda>who.
         let a = contact_action e hh (ce_uuid e h) contact (contact_params e hh who c l) (p_surface pr) in
         rbind (contact_of (mutate_locked (ce_plant e hh) (plain_call e h a pr) h)) (\<lambda>(answer, h1).
         decided_start e hh pr answer a who c l job_uuid token (with_house hh h1 t)))))))"

end
