(* ===== verification/Checkin_Laws.thy ===== *)
theory Checkin_Laws
  imports Checkins Samples
begin

text \<open>
  What the check-ins promise: a job past its deadline is closed by the next pass of the worker, an
  answer comes from an audited receipt accepted in time, nothing is sent without permission, and a
  closed job stays closed.
\<close>

section \<open>Grants and events leave the contact rows alone\<close>

definition same_rows :: "contact_tables \<Rightarrow> contact_tables \<Rightarrow> bool" where
  "same_rows t t' \<longleftrightarrow> ct_links t' = ct_links t \<and> ct_jobs t' = ct_jobs t \<and> ct_receipts t' = ct_receipts t \<and>
     ct_cases t' = ct_cases t \<and> ct_couriers t' = ct_couriers t"

lemma same_rows_of:
  assumes "same_rows t t'"
  shows "link_of t' = link_of t" "job_of t' = job_of t" "case_of t' = case_of t" "receipt_of t' = receipt_of t"
    "ct_jobs t' = ct_jobs t" "ct_receipts t' = ct_receipts t" "ct_cases t' = ct_cases t" "ct_links t' = ct_links t"
  using assms by (simp_all add: same_rows_def link_of_def job_of_def case_of_def receipt_of_def fun_eq_iff)

lemma contact_grant_rows: "grant_contact e hh pr op ref t = Inr (n, t1) \<Longrightarrow> same_rows t t1"
  by (auto simp: grant_contact_def Let_def rbind_Inr_iff same_rows_def with_house_def)

lemma contact_event_rows: "contact_event e hh payload t = Inr (n, t1) \<Longrightarrow> same_rows t t1"
  by (auto simp: contact_event_def rbind_Inr_iff same_rows_def with_house_def)

lemma state_or_empty_same: "same_rows t t' \<Longrightarrow> state_or_empty e t' j c = state_or_empty e t j c"
  by (simp add: state_or_empty_def same_rows_of split: option.split)

text \<open>A household whose log can take one more row now.\<close>

definition log_ready :: "contact_env \<Rightarrow> string \<Rightarrow> contact_tables \<Rightarrow> bool" where
  "log_ready e hh t \<longleftrightarrow> (case map_of (ct_houses t) hh of None \<Rightarrow> False
     | Some h \<Rightarrow> (let p = ce_plant e hh in audit_ok (H p) (ver p) (household_id p) (fp p) (audit h) \<and>
         int (length (log (audit h))) < 9007199254740991 \<and> (log (audit h) = [] \<or> created_at (last (log (audit h))) \<le> ce_now e)))"

lemma event_ready:
  assumes "log_ready e hh t" and c: "canonical (PDict payload)"
  shows "\<exists>n t'. contact_event e hh payload t = Inr (n, t')"
proof -
  from assms obtain h where h: "map_of (ct_houses t) hh = Some h"
    and ok: "audit_ok (H (ce_plant e hh)) (ver (ce_plant e hh)) (household_id (ce_plant e hh)) (fp (ce_plant e hh)) (audit h)"
    and len: "int (length (log (audit h))) < 9007199254740991" and le: "log (audit h) = [] \<or> created_at (last (log (audit h))) \<le> ce_now e"
    by (auto simp: log_ready_def Let_def split: option.split_asm)
  let ?es = "[(ce_now e, event_name VERIFY, \<lambda>_. PDict payload)]"
  have "ordered_from (if log (audit h) = [] then (case ?es of [] \<Rightarrow> 0 | e # _ \<Rightarrow> fst e) else created_at (last (log (audit h)))) ?es"
    using le by auto
  moreover have "length (log (audit h)) + length ?es < 9007199254740992" using len by (simp add: zless_nat_conj [symmetric])
  moreover have "list_all canonical (payloads (int (length (log (audit h))) + 1) ?es)" using c by simp
  ultimately obtain sqs db where
    "append_many (H (ce_plant e hh)) (sign (ce_plant e hh)) (fp (ce_plant e hh)) (household_id (ce_plant e hh)) ?es (audit h) = Inr (sqs, db)"
    using append_many_total [OF ok, of ?es "sign (ce_plant e hh)"] by auto
  then show ?thesis by (simp add: contact_event_def house_of_def need_def h write_event_def append_one_def of_opt_def)
qed

section \<open>Updated rows\<close>

lemma find_update: "(\<And>x. P (f x) = P x) \<Longrightarrow> find P (map (\<lambda>x. if Q x then f x else x) xs) =
    map_option (\<lambda>x. if Q x then f x else x) (find P xs)"
  by (induction xs) auto

lemma find_snoc: "find P (xs @ [y]) = (case find P xs of None \<Rightarrow> if P y then Some y else None | Some x \<Rightarrow> Some x)"
  by (induction xs) auto

lemma job_of_update:
  assumes "\<And>x. jb_id (f x) = jb_id x" "\<And>x. jb_home (f x) = jb_home x" "job_of t hh i = Inr j"
  shows "job_of (update_job i f t) hh i = Inr (f j)"
proof -
  from assms(3) have j: "find (\<lambda>j. jb_id j = i \<and> jb_home j = hh) (ct_jobs t) = Some j" by (simp add: job_of_def need_def)
  then have "jb_id j = i" by (auto simp: List.find_Some_iff)
  with j show ?thesis using assms(1,2)
    by (simp add: job_of_def need_def update_job_def find_update of_opt_def)
qed

lemma case_of_update:
  assumes "\<And>x. cs_id (f x) = cs_id x" "\<And>x. cs_home (f x) = cs_home x" "case_of t hh i = Inr c"
  shows "case_of (update_case hh i f t) hh i = Inr (f c)"
proof -
  from assms(3) have c: "find (\<lambda>c. cs_id c = i \<and> cs_home c = hh) (ct_cases t) = Some c" by (simp add: case_of_def need_def)
  then have "cs_id c = i \<and> cs_home c = hh" by (auto simp: List.find_Some_iff)
  with c show ?thesis using assms(1,2)
    by (simp add: case_of_def need_def update_case_def find_update of_opt_def)
qed

lemma update_frames [simp]:
  "ct_cases (update_job i f t) = ct_cases t" "ct_jobs (update_case hh k g t) = ct_jobs t" "ct_receipts (update_job i f t) = ct_receipts t"
  "ct_receipts (update_case hh k g t) = ct_receipts t" "ct_links (update_job i f t) = ct_links t" "ct_links (update_case hh k g t) = ct_links t"
  "ct_houses (update_job i f t) = ct_houses t" "ct_houses (update_case hh k g t) = ct_houses t"
  "case_of (update_job i f t) = case_of t" "job_of (update_case hh k g t) = job_of t"
  "receipt_of (update_job i f t) = receipt_of t" "receipt_of (update_case hh k g t) = receipt_of t"
  by (simp_all add: update_job_def update_case_def case_of_def job_of_def receipt_of_def fun_eq_iff)

section \<open>Finishing\<close>

lemma finish_jobE:
  assumes "finish_job e hh pr j c status why t = Inr t'"
  obtains n v t1 where "state_or_empty e t j c = Inr v" and "vs_status v = V_pending" and "vs_source v = ''real''"
    and "grant_contact e hh pr ''process'' (jb_id j) t = Inr (n, t1)"
    and "\<And>r. receipt_of t (jb_id j) = Some r \<Longrightarrow> receipt_audited t1 j status r"
    and "ct_jobs t' = map (\<lambda>y. if jb_id y = jb_id j then y\<lparr>jb_status := Job_closed, jb_sealed := False, jb_seq := n\<rparr> else y) (ct_jobs t)"
    and "ct_cases t' = map (\<lambda>x. if cs_id x = cs_id c \<and> cs_home x = hh
      then x\<lparr>cs_state := Some (v\<lparr>vs_status := status, vs_reason := why\<rparr>), cs_seq := n\<rparr> else x) (ct_cases t)"
    and "ct_receipts t' = ct_receipts t" and "ct_links t' = ct_links t"
proof -
  from assms obtain n t1 v m t4 where g: "grant_contact e hh pr ''process'' (jb_id j) t = Inr (n, t1)"
    and v: "state_or_empty e t1 j c = Inr v" and p: "vs_status v = V_pending \<and> vs_source v = ''real''"
    and ev: "contact_event e hh
        [(''case_id'', PStr (cs_id c)), (''status'', PStr (verdict_name status)), (''reason'', opt_text why), (''source'', PStr ''real''),
         (''worker_surface'', PStr ''scheduler''), (''decision_seq'', PInt n), (''receipt'', receipt_proof (receipt_of t1 (jb_id j)))]
        (update_job (jb_id j) (\<lambda>x. x\<lparr>jb_status := Job_closed, jb_sealed := False, jb_seq := n\<rparr>)
          (update_case hh (cs_id c) (\<lambda>x. x\<lparr>cs_state := Some (v\<lparr>vs_status := status, vs_reason := why\<rparr>), cs_seq := n\<rparr>) t1)) = Inr (m, t4)"
    and a: "case receipt_of t1 (jb_id j) of None \<Rightarrow> True | Some x \<Rightarrow> receipt_audited
        (update_job (jb_id j) (\<lambda>x. x\<lparr>jb_status := Job_closed, jb_sealed := False, jb_seq := n\<rparr>)
          (update_case hh (cs_id c) (\<lambda>x. x\<lparr>cs_state := Some (v\<lparr>vs_status := status, vs_reason := why\<rparr>), cs_seq := n\<rparr>) t1)) j status x"
    and t': "t' = t4"
    by (auto simp: finish_job_def Let_def rbind_Inr_iff)
  note s1 = contact_grant_rows [OF g] and s2 = contact_event_rows [OF ev]
  show ?thesis
    by (rule that [of v n t1])
      (use v p g a state_or_empty_same [OF s1] same_rows_of [OF s1] same_rows_of [OF s2] in
        \<open>simp_all add: t' update_job_def update_case_def receipt_audited_def receipt_payload_def\<close>)
qed


lemma contact_of_Inr [simp]: "contact_of x = Inr y \<longleftrightarrow> x = Inr y"
  by (cases x) simp_all

lemma need_Inr [simp]: "need x = Inr y \<longleftrightarrow> x = Some y"
  by (simp add: need_def)

section \<open>Liveness\<close>

lemma log_ready_same: "ct_houses t' = ct_houses t \<Longrightarrow> log_ready e hh t' = log_ready e hh t"
  by (simp add: log_ready_def)

lemma job_closedI:
  assumes j: "job_of t hh i = Inr j" and same: "same_rows t t1"
    and t': "same_rows (update_job i (\<lambda>x. x\<lparr>jb_status := Job_closed, jb_sealed := False, jb_seq := n\<rparr>) t2) t'"
    and t2: "ct_jobs t2 = ct_jobs t1"
  shows "\<exists>j'. job_of t' hh i = Inr j' \<and> jb_status j' = Job_closed"
proof -
  have "job_of t2 hh i = Inr j" using j same_rows_of(5) [OF same] t2 by (simp add: job_of_def)
  then have "job_of (update_job i (\<lambda>x. x\<lparr>jb_status := Job_closed, jb_sealed := False, jb_seq := n\<rparr>) t2) hh i =
      Inr (j\<lparr>jb_status := Job_closed, jb_sealed := False, jb_seq := n\<rparr>)"
    by (intro job_of_update) simp_all
  then show ?thesis using same_rows_of(2) [OF t'] by simp
qed

text \<open>Finishing with a grant and a log that takes the event: the job is closed, or the record is inconsistent.\<close>

lemma finish_job_outcome:
  assumes j: "job_of t hh (jb_id j) = Inr j" and g: "grant_contact e hh pr ''process'' (jb_id j) t = Inr (n, t1)"
    and ready: "log_ready e hh t1" and num: "wire_int n" and v: "cs_state c = Some v"
  shows "finish_job e hh pr j c status why t = Inl Inconsistent \<or>
    (\<exists>t'. finish_job e hh pr j c status why t = Inr t' \<and> (\<exists>j'. job_of t' hh (jb_id j) = Inr j' \<and> jb_status j' = Job_closed))"
proof -
  let ?t2 = "update_case hh (cs_id c) (\<lambda>x. x\<lparr>cs_state := Some (v\<lparr>vs_status := status, vs_reason := why\<rparr>), cs_seq := n\<rparr>) t1"
  let ?t3 = "update_job (jb_id j) (\<lambda>x. x\<lparr>jb_status := Job_closed, jb_sealed := False, jb_seq := n\<rparr>) ?t2"
  have "log_ready e hh ?t3" using ready by (simp add: log_ready_def)
  moreover have "canonical (PDict
        [(''case_id'', PStr (cs_id c)), (''status'', PStr (verdict_name status)), (''reason'', opt_text why), (''source'', PStr ''real''),
         (''worker_surface'', PStr ''scheduler''), (''decision_seq'', PInt n), (''receipt'', receipt_proof (receipt_of t1 (jb_id j)))])"
    using num by (simp add: opt_text_def receipt_proof_def split: option.split)
  ultimately obtain m t4 where ev: "contact_event e hh
        [(''case_id'', PStr (cs_id c)), (''status'', PStr (verdict_name status)), (''reason'', opt_text why), (''source'', PStr ''real''),
         (''worker_surface'', PStr ''scheduler''), (''decision_seq'', PInt n), (''receipt'', receipt_proof (receipt_of t1 (jb_id j)))] ?t3
        = Inr (m, t4)" using event_ready by blast
  have closed: "\<exists>j'. job_of t4 hh (jb_id j) = Inr j' \<and> jb_status j' = Job_closed"
    by (rule job_closedI [OF j contact_grant_rows [OF g] contact_event_rows [OF ev]]) simp
  have "finish_job e hh pr j c status why t = Inl Inconsistent \<or> finish_job e hh pr j c status why t = Inr t4"
    using g ev v by (simp add: finish_job_def Let_def state_or_empty_def guard_def)
  then show ?thesis using closed by blast
qed

lemma close_inconsistent_outcome:
  assumes j: "job_of t hh i = Inr j" and w: "worker_of hh t (jb_member j) = Inr pr" and c: "case_of t hh (jb_case j) = Inr c"
    and v: "cs_state c = Some v \<or> link_of t (jb_link j) = Inr l"
    and g: "grant_contact e hh pr ''process'' i t = Inr (n, t1)" and ready: "log_ready e hh t1" and num: "wire_int n"
  shows "\<exists>t'. close_inconsistent e hh i t = Inr t' \<and> (\<exists>j'. job_of t' hh i = Inr j' \<and> jb_status j' = Job_closed)"
proof (cases "jb_status j = Job_closed")
  case True
  with j show ?thesis by (simp add: close_inconsistent_def)
next
  case False
  note s1 = contact_grant_rows [OF g]
  have "\<exists>v. state_or_empty e t j c = Inr v" using v by (cases "cs_state c") (auto simp: state_or_empty_def)
  then obtain v where v: "state_or_empty e t1 j c = Inr v" using state_or_empty_same [OF s1] by auto
  define t2 where "t2 = (if vs_status v = V_pending
    then update_case hh (cs_id c) (\<lambda>x. x\<lparr>cs_state := Some (inconsistent_state v), cs_seq := n\<rparr>) t1 else t1)"
  have cl: "closed_inconsistent hh i c v n t1 = update_job i (\<lambda>x. x\<lparr>jb_status := Job_closed, jb_sealed := False, jb_seq := n\<rparr>) t2"
    by (simp add: closed_inconsistent_def t2_def)
  have "log_ready e hh (closed_inconsistent hh i c v n t1)" using ready by (simp add: log_ready_def cl t2_def)
  moreover have "canonical (PDict [(''case_id'', PStr (cs_id c)), (''status'', PStr (verdict_name (vs_status (inconsistent_state v)))),
           (''reason'', PStr ''inconsistent_record''), (''source'', PStr (vs_source (inconsistent_state v))),
           (''worker_surface'', PStr ''scheduler''), (''decision_seq'', PInt n), (''receipt'', PNone)])" using num by simp
  ultimately obtain m t4 where ev: "contact_event e hh
          [(''case_id'', PStr (cs_id c)), (''status'', PStr (verdict_name (vs_status (inconsistent_state v)))),
           (''reason'', PStr ''inconsistent_record''), (''source'', PStr (vs_source (inconsistent_state v))),
           (''worker_surface'', PStr ''scheduler''), (''decision_seq'', PInt n), (''receipt'', PNone)] (closed_inconsistent hh i c v n t1)
        = Inr (m, t4)" using event_ready by blast
  have "\<exists>j'. job_of t4 hh i = Inr j' \<and> jb_status j' = Job_closed"
    by (rule job_closedI [OF j s1 contact_event_rows [OF ev, unfolded cl]]) (simp add: t2_def)
  moreover have "close_inconsistent e hh i t = Inr t4"
    using j False \<open>worker_of hh t (jb_member j) = Inr pr\<close> g c same_rows_of(3) [OF s1] v ev
    by (simp add: close_inconsistent_def)
  ultimately show ?thesis by blast
qed

lemma job_verdict_overdue:
  "jb_expires j = Some d \<Longrightarrow> d \<le> ce_wall e \<Longrightarrow> job_verdict e j l accepted = Inl Inconsistent \<or> (\<exists>status why. job_verdict e j l accepted = Inr (Some (status, why)))"
  by (auto simp: job_verdict_def guard_def of_opt_def split: option.split)

lemma job_of_id: "job_of t hh i = Inr j \<Longrightarrow> jb_id j = i"
  by (auto simp: job_of_def need_def List.find_Some_iff)

lemma overdue_closes:
  assumes j: "job_of t hh i = Inr j" and st: "jb_status j \<noteq> Job_approval" and d: "jb_expires j = Some d" "d \<le> ce_wall e"
    and l: "link_of t (jb_link j) = Inr l" "lk_kind l = App_link \<or> ce_key e" and w: "worker_of hh t (jb_member j) = Inr pr"
    and c: "case_of t hh (jb_case j) = Inr c" and g: "grant_contact e hh pr ''process'' i t = Inr (n, t1)" and ready: "log_ready e hh t1" and num: "wire_int n"
  shows "\<exists>t'. advance_one e hh i t = Inr (None, t') \<and> (\<exists>j'. job_of t' hh i = Inr j' \<and> jb_status j' = Job_closed)"
proof -
  note i = job_of_id [OF j]
  have "advance_job e hh i t = Inl Inconsistent \<or>
    (\<exists>t'. advance_job e hh i t = Inr (None, t') \<and> (\<exists>j'. job_of t' hh i = Inr j' \<and> jb_status j' = Job_closed))"
  proof (cases "case cs_state c of None \<Rightarrow> False | Some v \<Rightarrow> vs_source v = ''real''")
    case False
    moreover have "\<not> (lk_kind l \<noteq> App_link \<and> \<not> ce_key e)" using l(2) by blast
    ultimately show ?thesis using j l(1) w c st by (simp add: advance_job_def guard_def del: de_Morgan_conj)
  next
    case True
    then obtain v where v: "cs_state c = Some v" by (auto split: option.split_asm)
    have step: "advance_job e hh i t = rbind (job_verdict e j l (receipt_of t i)) (\<lambda>result. case result of
           Some (status, why) \<Rightarrow> rbind (finish_job e hh pr j c status why t) (\<lambda>t1. Inr (None, t1))
         | None \<Rightarrow> claim_attempt e hh pr j c l t)"
    proof -
      have "\<not> (lk_kind l \<noteq> App_link \<and> \<not> ce_key e)" using l(2) by blast
      then show ?thesis using j l(1) w c st d True by (simp add: advance_job_def guard_def of_opt_def del: de_Morgan_conj)
    qed
    show ?thesis
    proof (cases "job_verdict e j l (receipt_of t i) = Inl Inconsistent")
      case True
      then show ?thesis unfolding step by simp
    next
      case False
      with job_verdict_overdue [OF d] obtain status why where "job_verdict e j l (receipt_of t i) = Inr (Some (status, why))" by metis
      then have "advance_job e hh i t = rbind (finish_job e hh pr j c status why t) (\<lambda>t1. Inr (None, t1))" unfolding step by simp
      moreover have "finish_job e hh pr j c status why t = Inl Inconsistent \<or>
          (\<exists>t'. finish_job e hh pr j c status why t = Inr t' \<and> (\<exists>j'. job_of t' hh i = Inr j' \<and> jb_status j' = Job_closed))"
        using finish_job_outcome [of t hh j e pr n t1 c v status why] j g ready num v by (simp add: i)
      ultimately show ?thesis by (elim disjE exE conjE) simp_all
    qed
  qed
  then show ?thesis
  proof
    assume "advance_job e hh i t = Inl Inconsistent"
    with close_inconsistent_outcome [OF j w c disjI2 [OF l(1)] g ready num] show ?thesis by (auto simp: advance_one_def)
  next
    assume "\<exists>t'. advance_job e hh i t = Inr (None, t') \<and> (\<exists>j'. job_of t' hh i = Inr j' \<and> jb_status j' = Job_closed)"
    then show ?thesis by (auto simp: advance_one_def)
  qed
qed


section \<open>What one pass does\<close>

text \<open>The permission that a transport attempt needs.\<close>

definition may_send :: "contact_env \<Rightarrow> string \<Rightarrow> checkin_job \<Rightarrow> contact_link \<Rightarrow> contact_tables \<Rightarrow> bool" where
  "may_send e hh j l t \<longleftrightarrow> lk_status l = Link_active \<and> jb_status j \<noteq> Job_approval \<and> jb_status j \<noteq> Job_sent \<and>
     receipt_of t (jb_id j) = None \<and> (\<exists>d. jb_expires j = Some d \<and> ce_wall e < d) \<and> jb_next j \<le> ce_wall e \<and> jb_attempts j < 3 \<and>
     (\<exists>h x. house_of t hh = Inr h \<and> find_action h (jb_action j) = Some x \<and>
        delivery_allowed e hh (proposal x) (jb_principal j) h = Inr True) \<and>
     send_allowed e hh (lk_contact l) t"

text \<open>The ground on which a check ends with a status.\<close>

definition ground_for :: "checkin_job \<Rightarrow> verdict \<Rightarrow> contact_tables \<Rightarrow> bool" where
  "ground_for j status t \<longleftrightarrow> status = V_no_answer \<or>
     (\<exists>r d. receipt_of t (jb_id j) = Some r \<and> rc_answer r = status \<and> rc_hash r = jb_hash j \<and> jb_expires j = Some d \<and> rc_at r < d)"

definition claimed_job :: "contact_env \<Rightarrow> contact_link \<Rightarrow> nat \<Rightarrow> int \<Rightarrow> checkin_job \<Rightarrow> checkin_job" where
  "claimed_job e l k n y = y\<lparr>jb_status := if lk_kind l = App_link then Job_sent else Job_sending, jb_attempts := k,
     jb_next := ce_wall e + seconds (30 * int k), jb_seq := n\<rparr>"

lemma claim_attemptE:
  assumes "claim_attempt e hh pr j c l t = Inr (k, t')"
  obtains (idle) "t' = t" "k = None"
  | (finished) why where "finish_job e hh pr j c V_no_answer why t = Inr t'" "k = None"
  | (claimed) h x n t1 where "house_of t hh = Inr h" "find_action h (jb_action j) = Some x"
      "delivery_allowed e hh (proposal x) (jb_principal j) h = Inr True" "send_allowed e hh (lk_contact l) t"
      "jb_status j \<noteq> Job_sent" "jb_next j \<le> ce_wall e" "jb_attempts j < 3"
      "grant_contact e hh pr ''process'' (jb_id j) t = Inr (n, t1)" "t' = update_job (jb_id j) (claimed_job e l (jb_attempts j + 1) n) t1"
      "k = None \<or> k = Some (jb_attempts j + 1)"
proof (cases "jb_status j = Job_sent \<or> ce_wall e < jb_next j")
  case True
  with assms idle show ?thesis by (simp add: claim_attempt_def)
next
  case False
  with assms obtain h x allowed where h: "house_of t hh = Inr h" and x: "find_action h (jb_action j) = Some x"
    and al: "delivery_allowed e hh (proposal x) (jb_principal j) h = Inr allowed"
    and rest: "(if \<not> allowed then rbind (finish_job e hh pr j c V_no_answer (Some ''permission_changed'') t) (\<lambda>t1. Inr (None, t1))
        else if \<not> send_allowed e hh (lk_contact l) t then Inr (None, t)
        else rbind (grant_contact e hh pr ''process'' (jb_id j) t) (\<lambda>(n, t1). let k = jb_attempts j + 1 in
          rbind (guard (Failed ValueError) (k \<le> 3)) (\<lambda>_. Inr (if lk_kind l = Email_link then Some k else None,
              update_job (jb_id j) (claimed_job e l k n) t1)))) = Inr (k, t')"
    unfolding claim_attempt_def claimed_job_def need_def if_not_P [OF False]
    by (elim rbind_InrE) simp
  note now_or_never = False
  show ?thesis
  proof (cases allowed)
    case False
    with rest obtain why where "finish_job e hh pr j c V_no_answer why t = Inr t'" "k = None" by (auto simp: rbind_Inr_iff)
    then show ?thesis by (rule finished)
  next
    case True
    show ?thesis
    proof (cases "send_allowed e hh (lk_contact l) t")
      case False
      with rest True idle show ?thesis by simp
    next
      case sends: True
      from rest True sends obtain n t1 where g: "grant_contact e hh pr ''process'' (jb_id j) t = Inr (n, t1)"
        and k: "jb_attempts j + 1 \<le> 3" and t': "t' = update_job (jb_id j) (claimed_job e l (jb_attempts j + 1) n) t1"
        and out: "k = None \<or> k = Some (jb_attempts j + 1)"
        by (auto simp: rbind_Inr_iff Let_def split: if_split_asm)
      show ?thesis by (rule claimed [OF h x _ sends _ _ _ g t' out]) (use al True now_or_never k in \<open>auto\<close>)
    qed
  qed
qed

text \<open>Finished for a reason, claimed, or left as it was.\<close>

lemma advance_jobE:
  assumes "advance_job e hh i t = Inr (k, t')" and j: "job_of t hh i = Inr j" and c: "case_of t hh (jb_case j) = Inr c"
  obtains (idle) "t' = t" "k = None"
  | (finished) pr status why where "finish_job e hh pr j c status why t = Inr t'" "k = None" "ground_for j status t"
  | (claimed) l n t1 pr where "link_of t (jb_link j) = Inr l" "may_send e hh j l t"
      "grant_contact e hh pr ''process'' i t = Inr (n, t1)" "t' = update_job i (claimed_job e l (jb_attempts j + 1) n) t1"
      "k = None \<or> k = Some (jb_attempts j + 1)"
proof -
  note i = job_of_id [OF j]
  from assms(1) j obtain l where l: "link_of t (jb_link j) = Inr l"
    and body: "(if lk_kind l \<noteq> App_link \<and> \<not> ce_key e then Inr (None, t)
     else
       rbind (worker_of hh t (jb_member j)) (\<lambda>pr.
       rbind (case_of t hh (jb_case j)) (\<lambda>c.
       if jb_status j = Job_approval then
         rbind (house_of t hh) (\<lambda>h.
         rbind (contact_of (approval_reason e h j l)) (\<lambda>why.
         case why of
           None \<Rightarrow> Inr (None, t)
         | Some w \<Rightarrow> rbind (finish_job e hh pr j c V_no_answer (Some w) t) (\<lambda>t1. Inr (None, t1))))
       else
         rbind (guard Inconsistent (case cs_state c of None \<Rightarrow> False | Some v \<Rightarrow> vs_source v = ''real'')) (\<lambda>_.
         rbind (job_verdict e j l (receipt_of t i)) (\<lambda>result.
         case result of
           Some (status, why) \<Rightarrow> rbind (finish_job e hh pr j c status why t) (\<lambda>t1. Inr (None, t1))
         | None \<Rightarrow> claim_attempt e hh pr j c l t))))) = Inr (k, t')"
    by (auto simp: advance_job_def rbind_Inr_iff)
  show ?thesis
  proof (cases "lk_kind l \<noteq> App_link \<and> \<not> ce_key e")
    case True
    with body idle show ?thesis by simp
  next
    case False
    note body = body [unfolded if_not_P [OF False] c rbind.simps]
    show ?thesis
    proof (cases "jb_status j = Job_approval")
      case True
      with body have "t' = t \<and> k = None \<or> (\<exists>pr w. finish_job e hh pr j c V_no_answer (Some w) t = Inr t' \<and> k = None)"
        by (auto simp: rbind_Inr_iff split: option.split_asm)
      then show ?thesis
      proof (elim disjE exE conjE)
        fix pr w
        assume "finish_job e hh pr j c V_no_answer (Some w) t = Inr t'" "k = None"
        then show ?thesis by (rule finished) (simp add: ground_for_def)
      qed (rule idle)
    next
      case open': False
      with body obtain pr result where v: "job_verdict e j l (receipt_of t i) = Inr result"
        and rest: "(case result of
           Some (status, why) \<Rightarrow> rbind (finish_job e hh pr j c status why t) (\<lambda>t1. Inr (None, t1))
         | None \<Rightarrow> claim_attempt e hh pr j c l t) = Inr (k, t')"
        by (auto simp: rbind_Inr_iff)
      show ?thesis
      proof (cases result)
        case (Some q)
        obtain status why where q: "q = (status, why)" by (cases q)
        with rest Some have f: "finish_job e hh pr j c status why t = Inr t'" "k = None" by (auto simp: rbind_Inr_iff)
        have "ground_for j status t"
          using v Some q i by (auto simp: job_verdict_def ground_for_def rbind_Inr_iff split: option.split_asm if_split_asm)
        with f show ?thesis by (rule finished)
      next
        case None
        with v obtain d where no: "receipt_of t i = None" "lk_status l = Link_active" "jb_expires j = Some d" "ce_wall e < d"
          by (auto simp: job_verdict_def rbind_Inr_iff split: option.split_asm if_split_asm)
        from rest None have "claim_attempt e hh pr j c l t = Inr (k, t')" by simp
        then show ?thesis
        proof (cases rule: claim_attemptE)
          case idle
          then show ?thesis by (rule that(1))
        next
          case (finished why)
          then show ?thesis by (intro that(2)) (auto simp: ground_for_def)
        next
          case (claimed h x n t1)
          then have "may_send e hh j l t" using no open' i unfolding may_send_def by auto
          with claimed l i show ?thesis by (intro that(3)) simp_all
        qed
      qed
    qed
  qed
qed


section \<open>Histories of jobs\<close>

definition answers :: "verdict set" where "answers = {V_genuine, V_not_genuine, V_will_call}"

definition jobs_ok :: "contact_tables \<Rightarrow> bool" where
  "jobs_ok t \<longleftrightarrow> distinct (map jb_id (ct_jobs t)) \<and> distinct (map rc_job (ct_receipts t)) \<and>
     (\<forall>j \<in> set (ct_jobs t). jb_attempts j \<le> 3) \<and> (\<forall>r \<in> set (ct_receipts t). rc_answer r \<in> answers)"

text \<open>
  A job keeps its identity, and once it is closed it stays closed and takes no reply; its count of attempts never
  goes back, and a \<open>steady\<close> change leaves it.
\<close>

definition evolved :: "bool \<Rightarrow> contact_tables \<Rightarrow> contact_tables \<Rightarrow> bool" where
  "evolved steady t t' \<longleftrightarrow> (\<forall>j \<in> set (ct_jobs t). \<exists>j' \<in> set (ct_jobs t'). jb_id j' = jb_id j \<and> jb_hash j' = jb_hash j \<and> jb_link j' = jb_link j \<and>
     jb_attempts j \<le> jb_attempts j' \<and> (steady \<longrightarrow> jb_attempts j' = jb_attempts j) \<and>
     (jb_status j = Job_closed \<longrightarrow> jb_status j' = Job_closed \<and> receipt_of t' (jb_id j) = receipt_of t (jb_id j)))"

abbreviation evolves :: "contact_tables \<Rightarrow> contact_tables \<Rightarrow> bool" where
  "evolves \<equiv> evolved False"

lemma evolves_refl [simp]: "evolved b t t"
  by (auto simp: evolved_def)

lemma evolves_trans: "evolved b t u \<Longrightarrow> evolved b u v \<Longrightarrow> evolved b t v"
  unfolding evolved_def by (metis order_trans)

lemma steady_evolves: "evolved True t u \<Longrightarrow> evolved b t u"
  unfolding evolved_def by meson

lemma evolves_same: "ct_jobs t' = ct_jobs t \<Longrightarrow> ct_receipts t' = ct_receipts t \<Longrightarrow> evolved b t t' \<and> (jobs_ok t \<longrightarrow> jobs_ok t')"
  by (auto simp: evolved_def jobs_ok_def receipt_of_def)

lemma jobs_ok_same: "ct_jobs t' = ct_jobs t \<Longrightarrow> ct_receipts t' = ct_receipts t \<Longrightarrow> jobs_ok t' = jobs_ok t"
  by (simp add: jobs_ok_def)

lemma updated_ok:
  assumes ok: "jobs_ok t" and jobs: "ct_jobs t' = map (\<lambda>y. if jb_id y = i then f y else y) (ct_jobs t)"
    and rec: "ct_receipts t' = ct_receipts t"
    and f: "\<And>y. y \<in> set (ct_jobs t) \<Longrightarrow> jb_id y = i \<Longrightarrow> jb_id (f y) = i \<and> jb_hash (f y) = jb_hash y \<and> jb_link (f y) = jb_link y \<and>
      jb_attempts y \<le> jb_attempts (f y) \<and> (b \<longrightarrow> jb_attempts (f y) = jb_attempts y) \<and> jb_attempts (f y) \<le> 3 \<and>
      (jb_status y = Job_closed \<longrightarrow> jb_status (f y) = Job_closed)"
  shows "jobs_ok t' \<and> evolved b t t'"
proof
  have "map jb_id (ct_jobs t') = map jb_id (ct_jobs t)" using f by (simp add: jobs)
  moreover have "\<forall>y \<in> set (ct_jobs t'). jb_attempts y \<le> 3" using ok f by (auto simp: jobs jobs_ok_def)
  ultimately show "jobs_ok t'" using ok by (simp add: jobs_ok_def rec)
  show "evolved b t t'"
    unfolding evolved_def
  proof
    fix j
    assume j: "j \<in> set (ct_jobs t)"
    have "(if jb_id j = i then f j else j) \<in> set (ct_jobs t')" using j by (auto simp: jobs)
    then show "\<exists>j' \<in> set (ct_jobs t'). jb_id j' = jb_id j \<and> jb_hash j' = jb_hash j \<and> jb_link j' = jb_link j \<and>
        jb_attempts j \<le> jb_attempts j' \<and> (b \<longrightarrow> jb_attempts j' = jb_attempts j) \<and> (jb_status j = Job_closed \<longrightarrow> jb_status j' = Job_closed \<and> receipt_of t' (jb_id j) = receipt_of t (jb_id j))"
      by (rule bexI [rotated]) (use f [OF j] rec in \<open>auto simp: receipt_of_def\<close>)
  qed
qed

lemma the_job: "jobs_ok t \<Longrightarrow> job_of t hh i = Inr j \<Longrightarrow> y \<in> set (ct_jobs t) \<Longrightarrow> jb_id y = i \<Longrightarrow> y = j"
proof -
  assume ok: "jobs_ok t" and j: "job_of t hh i = Inr j" and y: "y \<in> set (ct_jobs t)" "jb_id y = i"
  from j have "j \<in> set (ct_jobs t) \<and> jb_id j = i" by (auto simp: job_of_def List.find_Some_iff)
  with ok y show ?thesis by (auto simp: jobs_ok_def distinct_map inj_on_def)
qed

lemma evolved_ids: "evolved b t t' \<Longrightarrow> i \<in> jb_id ` set (ct_jobs t) \<Longrightarrow> i \<in> jb_id ` set (ct_jobs t')"
proof -
  assume e: "evolved b t t'" and "i \<in> jb_id ` set (ct_jobs t)"
  then obtain j where j: "j \<in> set (ct_jobs t)" "i = jb_id j" by blast
  with e obtain j' where "j' \<in> set (ct_jobs t')" "jb_id j' = i" unfolding evolved_def by blast
  then show ?thesis by blast
qed

text \<open>The count of attempts of a job; none before the job exists.\<close>

definition attempts_of :: "contact_tables \<Rightarrow> string \<Rightarrow> nat" where
  "attempts_of t i = (case find (\<lambda>j. jb_id j = i) (ct_jobs t) of None \<Rightarrow> 0 | Some j \<Rightarrow> jb_attempts j)"

lemma attempts_of_job: "jobs_ok t \<Longrightarrow> j \<in> set (ct_jobs t) \<Longrightarrow> jb_id j = i \<Longrightarrow> attempts_of t i = jb_attempts j"
proof -
  assume ok: "jobs_ok t" and j: "j \<in> set (ct_jobs t)" "jb_id j = i"
  then obtain y where y: "find (\<lambda>j. jb_id j = i) (ct_jobs t) = Some y"
    by (cases "find (\<lambda>j. jb_id j = i) (ct_jobs t)") (auto simp: find_None_iff)
  then have "y \<in> set (ct_jobs t)" "jb_id y = i" by (auto simp: List.find_Some_iff)
  with ok j have "y = j" by (auto simp: jobs_ok_def distinct_map inj_on_def)
  with y show ?thesis by (simp add: attempts_of_def)
qed

lemma attempts_bound: "jobs_ok t \<Longrightarrow> attempts_of t i \<le> 3"
  by (auto simp: attempts_of_def jobs_ok_def List.find_Some_iff split: option.split)

lemma attempts_grow:
  assumes "jobs_ok t" and "jobs_ok t'" and "evolved b t t'"
  shows "attempts_of t i \<le> attempts_of t' i"
proof (cases "find (\<lambda>j. jb_id j = i) (ct_jobs t)")
  case (Some j)
  then have j: "j \<in> set (ct_jobs t)" "jb_id j = i" by (auto simp: List.find_Some_iff)
  with assms(3) obtain j' where j': "j' \<in> set (ct_jobs t')" "jb_id j' = i" "jb_attempts j \<le> jb_attempts j'"
    by (auto simp: evolved_def)
  then show ?thesis using attempts_of_job [OF assms(1) j] attempts_of_job [OF assms(2) j'(1,2)] by simp
qed (simp add: attempts_of_def)

lemma attempts_steady:
  assumes "jobs_ok t" and "jobs_ok t'" and "evolved True t t'" and "j \<in> set (ct_jobs t)" and "jb_id j = i"
  shows "attempts_of t' i = attempts_of t i"
proof -
  from assms(3-5) obtain j' where j': "j' \<in> set (ct_jobs t')" "jb_id j' = i" "jb_attempts j' = jb_attempts j"
    unfolding evolved_def by blast
  then show ?thesis using attempts_of_job [OF assms(1,4,5)] attempts_of_job [OF assms(2) j'(1,2)] by simp
qed

lemma finish_evolves:
  assumes "jobs_ok t" and "finish_job e hh pr j c status why t = Inr t'"
  shows "jobs_ok t' \<and> evolved True t t'"
proof (rule finish_jobE [OF assms(2)])
  fix n
  assume "ct_jobs t' = map (\<lambda>y. if jb_id y = jb_id j then y\<lparr>jb_status := Job_closed, jb_sealed := False, jb_seq := n\<rparr> else y) (ct_jobs t)"
    and "ct_receipts t' = ct_receipts t"
  then show ?thesis using assms(1) by (intro updated_ok) (auto simp: jobs_ok_def)
qed

lemma close_inconsistent_evolves:
  assumes ok: "jobs_ok t" and "close_inconsistent e hh i t = Inr t'"
  shows "jobs_ok t' \<and> evolved True t t'"
proof -
  from assms(2) obtain j where j: "job_of t hh i = Inr j" by (auto simp: close_inconsistent_def rbind_Inr_iff)
  show ?thesis
  proof (cases "jb_status j = Job_closed")
    case True
    with assms(2) j ok show ?thesis by (simp add: close_inconsistent_def)
  next
    case False
    with assms(2) j obtain pr n t1 c v payload m where g: "grant_contact e hh pr ''process'' i t = Inr (n, t1)"
      and ev: "contact_event e hh payload (closed_inconsistent hh i c v n t1) = Inr (m, t')"
      by (auto simp: close_inconsistent_def rbind_Inr_iff)
    have "ct_jobs (closed_inconsistent hh i c v n t1) = map (\<lambda>y. if jb_id y = i then y\<lparr>jb_status := Job_closed, jb_sealed := False, jb_seq := n\<rparr> else y) (ct_jobs t1)"
      "ct_receipts (closed_inconsistent hh i c v n t1) = ct_receipts t1" by (simp_all add: closed_inconsistent_def update_job_def)
    with same_rows_of [OF contact_grant_rows [OF g]] same_rows_of [OF contact_event_rows [OF ev]]
    show ?thesis
      by (intro updated_ok [OF ok, of _ i "\<lambda>x. x\<lparr>jb_status := Job_closed, jb_sealed := False, jb_seq := n\<rparr>"])
        (use ok in \<open>auto simp: jobs_ok_def update_job_def\<close>)
  qed
qed

lemma claimed_ok:
  assumes ok: "jobs_ok t" and j: "job_of t hh i = Inr j" "jb_status j \<noteq> Job_closed" and s: "may_send e hh j l t"
    and g: "grant_contact e hh pr ''process'' i t = Inr (n, t1)" and t': "t' = update_job i (claimed_job e l (jb_attempts j + 1) n) t1"
  shows "jobs_ok t' \<and> evolves t t'"
proof (rule updated_ok [OF ok])
  show "ct_jobs t' = map (\<lambda>y. if jb_id y = i then claimed_job e l (jb_attempts j + 1) n y else y) (ct_jobs t)"
    and "ct_receipts t' = ct_receipts t"
    using same_rows_of [OF contact_grant_rows [OF g]] by (simp_all add: t' update_job_def)
  fix y
  assume "y \<in> set (ct_jobs t)" "jb_id y = i"
  then have "y = j" using the_job [OF ok j(1)] by simp
  with s j(2) job_of_id [OF j(1)] show "jb_id (claimed_job e l (jb_attempts j + 1) n y) = i \<and>
      jb_hash (claimed_job e l (jb_attempts j + 1) n y) = jb_hash y \<and> jb_link (claimed_job e l (jb_attempts j + 1) n y) = jb_link y \<and>
      jb_attempts y \<le> jb_attempts (claimed_job e l (jb_attempts j + 1) n y) \<and>
      (False \<longrightarrow> jb_attempts (claimed_job e l (jb_attempts j + 1) n y) = jb_attempts y) \<and>
      jb_attempts (claimed_job e l (jb_attempts j + 1) n y) \<le> 3 \<and>
      (jb_status y = Job_closed \<longrightarrow> jb_status (claimed_job e l (jb_attempts j + 1) n y) = Job_closed)"
    by (simp add: claimed_job_def may_send_def)
qed

lemma advance_evolves:
  assumes ok: "jobs_ok t" and j: "job_of t hh i = Inr j" "jb_status j \<noteq> Job_closed" and a: "advance_one e hh i t = Inr (k, t')"
  shows "jobs_ok t' \<and> evolves t t'"
proof (cases "advance_job e hh i t")
  case (Inl err)
  with a show ?thesis using close_inconsistent_evolves [OF ok] by (cases err) (auto simp: advance_one_def rbind_Inr_iff steady_evolves)
next
  case (Inr x)
  with a have step: "advance_job e hh i t = Inr (k, t')" by (simp add: advance_one_def)
  show ?thesis
  proof (cases "lk_kind (the (find (\<lambda>l. lk_id l = jb_link j) (ct_links t))) \<noteq> App_link \<and> \<not> ce_key e")
    case True
    with step j have "t' = t" by (auto simp: advance_job_def rbind_Inr_iff link_of_def)
    with ok show ?thesis by simp
  next
    case False
    with step j obtain c where c: "case_of t hh (jb_case j) = Inr c" by (auto simp: advance_job_def rbind_Inr_iff link_of_def)
    show ?thesis
    proof (rule advance_jobE [OF step j(1) c])
      assume "t' = t"
      with ok show ?thesis by simp
    next
      fix pr status why
      assume "finish_job e hh pr j c status why t = Inr t'"
      from finish_evolves [OF ok this] show ?thesis by (simp add: steady_evolves)
    next
      fix l n t1 pr
      assume s: "may_send e hh j l t" and g: "grant_contact e hh pr ''process'' i t = Inr (n, t1)"
        and t': "t' = update_job i (claimed_job e l (jb_attempts j + 1) n) t1"
      show ?thesis by (rule claimed_ok [OF ok j s g t'])
    qed
  qed
qed

lemma deliver_evolves:
  assumes ok: "jobs_ok t" and k: "attempts_of t i \<le> k" "k \<le> 3" and d: "deliver_job e hh pr i k r t = Inr t'"
  shows "jobs_ok t' \<and> evolves t t'"
proof -
  from d obtain j where j: "job_of t hh i = Inr j" by (auto simp: deliver_job_def rbind_Inr_iff)
  show ?thesis
  proof (cases "jb_status j = Job_closed")
    case True
    with d j have "t' = t" by (auto simp: deliver_job_def rbind_Inr_iff)
    with ok show ?thesis by simp
  next
    case False
    define f :: "int \<Rightarrow> checkin_job \<Rightarrow> checkin_job" where "f = (\<lambda>n y. y\<lparr>jb_status := if r = Delivered then Job_sent else Job_pending, jb_attempts := if r = Refused then 3 else k,
            jb_next := if r = Refused then ce_wall e else ce_wall e + seconds (30 * int k), jb_seq := n\<rparr>)"
    from d j False obtain n t1 where g: "grant_contact e hh pr ''process'' i t = Inr (n, t1)" and t': "t' = update_job i (f n) t1"
      by (auto simp: deliver_job_def rbind_Inr_iff f_def)
    show ?thesis
    proof (rule updated_ok [OF ok])
      show "ct_jobs t' = map (\<lambda>y. if jb_id y = i then f n y else y) (ct_jobs t)" and "ct_receipts t' = ct_receipts t"
        using same_rows_of [OF contact_grant_rows [OF g]] by (simp_all add: t' update_job_def)
      fix y
      assume "y \<in> set (ct_jobs t)" "jb_id y = i"
      then have y: "y = j" and a: "attempts_of t i = jb_attempts y" using the_job [OF ok j] attempts_of_job [OF ok] by blast+
      with False k ok \<open>y \<in> set (ct_jobs t)\<close> job_of_id [OF j] show "jb_id (f n y) = i \<and> jb_hash (f n y) = jb_hash y \<and> jb_link (f n y) = jb_link y \<and>
          jb_attempts y \<le> jb_attempts (f n y) \<and> (False \<longrightarrow> jb_attempts (f n y) = jb_attempts y) \<and> jb_attempts (f n y) \<le> 3 \<and> (jb_status y = Job_closed \<longrightarrow> jb_status (f n y) = Job_closed)" by (simp add: f_def jobs_ok_def)
    qed
  qed
qed

lemma reply_evolves:
  assumes ok: "jobs_ok t" and r: "reply_app e hh pr i binding answer t = Inr t'"
  shows "jobs_ok t' \<and> evolved True t t'"
proof -
  from r obtain j l m where a: "answer \<in> answers" and j: "find (\<lambda>j. jb_id j = i) (ct_jobs t) = Some j"
    and rc: "receipt e hh pr j l binding answer ''passkey'' m t = Inr t'"
    by (auto simp: reply_app_def rbind_Inr_iff require_def answers_def)
  from j have i: "jb_id j = i" by (auto simp: List.find_Some_iff)
  show ?thesis
  proof (cases "receipt_of t i")
    case (Some old)
    with rc i ok show ?thesis by (auto simp: receipt_def rbind_Inr_iff)
  next
    case None
    with rc i j obtain x n t1 t2 m' where open': "jb_status j \<noteq> Job_closed" and g: "grant_contact e hh pr ''reply'' i t = Inr (n, t1)"
      and ev: "contact_event e hh x t1 = Inr (m', t2)"
      and t': "t' = t2\<lparr>ct_receipts := ct_receipts t2 @ [\<lparr>rc_job = i, rc_home = hh, rc_member = m, rc_answer = answer,
             rc_proof = ''passkey'', rc_hash = binding, rc_at = ce_wall e, rc_seq = m'\<rparr>]\<rparr>"
      by (auto simp: receipt_def rbind_Inr_iff require_def)
    note same = same_rows_of [OF contact_grant_rows [OF g]] same_rows_of [OF contact_event_rows [OF ev]]
    have jobs: "ct_jobs t' = ct_jobs t" using same by (simp add: t')
    have none: "i \<notin> set (map rc_job (ct_receipts t))" using None by (auto simp: receipt_of_def find_None_iff)
    have rec: "receipt_of t' k = receipt_of t k" if "k \<noteq> i" for k
      using that same by (simp add: receipt_of_def t' find_snoc split: option.split)
    have only: "y = j" if "y \<in> set (ct_jobs t)" "jb_id y = i" for y
    proof -
      have "j \<in> set (ct_jobs t)" using j by (auto simp: List.find_Some_iff)
      with ok that i show ?thesis by (auto simp: jobs_ok_def distinct_map inj_on_def)
    qed
    have "evolved True t t'"
      unfolding evolved_def
    proof (rule ballI, rule bexI)
      fix y
      assume y: "y \<in> set (ct_jobs t)"
      then show "y \<in> set (ct_jobs t')" by (simp add: jobs)
      show "jb_id y = jb_id y \<and> jb_hash y = jb_hash y \<and> jb_link y = jb_link y \<and> jb_attempts y \<le> jb_attempts y \<and>
          (True \<longrightarrow> jb_attempts y = jb_attempts y) \<and>
          (jb_status y = Job_closed \<longrightarrow> jb_status y = Job_closed \<and> receipt_of t' (jb_id y) = receipt_of t (jb_id y))"
        using only [OF y] open' rec by auto
    qed
    moreover have "jobs_ok t'" using ok none same a by (auto simp: jobs_ok_def jobs t')
    ultimately show ?thesis by simp
  qed
qed

text \<open>The tool server's command stores the case and nothing else of the contact rows.\<close>

definition recording :: "contact_env \<Rightarrow> bool" where
  "recording e \<longleftrightarrow> (\<forall>hh pr c n t t1. ce_record e hh pr c n t = Inr t1 \<longrightarrow>
     ct_jobs t1 = ct_jobs t \<and> ct_receipts t1 = ct_receipts t \<and> ct_links t1 = ct_links t)"

lemma queue_evolves:
  assumes ok: "jobs_ok t" and r: "recording e" and q: "queue_job e hh pr a n token t = Inr t'"
  shows "jobs_ok t' \<and> evolved True t t'"
proof -
  from q obtain j l c v t1 d where j: "find (\<lambda>j. jb_home j = hh \<and> jb_action j = action_id a) (ct_jobs t) = Some j"
    and st: "jb_status j = Job_approval" and rec: "ce_record e hh pr (c\<lparr>cs_state := Some v\<rparr>) n t = Inr t1"
    and t': "t' = update_job (jb_id j) (\<lambda>y. y\<lparr>jb_status := Job_pending, jb_expires := Some d,
         jb_token := Some (ce_digest e (PStr token)), jb_sealed := True, jb_seq := n\<rparr>) t1"
    by (auto simp: queue_job_def Let_def rbind_Inr_iff require_def)
  from rec r have same: "ct_jobs t1 = ct_jobs t" "ct_receipts t1 = ct_receipts t" by (auto simp: recording_def)
  have jin: "j \<in> set (ct_jobs t)" using j by (auto simp: List.find_Some_iff)
  show ?thesis
  proof (rule updated_ok [OF ok])
    show "ct_jobs t' = map (\<lambda>y. if jb_id y = jb_id j then y\<lparr>jb_status := Job_pending, jb_expires := Some d,
         jb_token := Some (ce_digest e (PStr token)), jb_sealed := True, jb_seq := n\<rparr> else y) (ct_jobs t)"
      and "ct_receipts t' = ct_receipts t" using same by (simp_all add: t' update_job_def)
    fix y
    assume y: "y \<in> set (ct_jobs t)" "jb_id y = jb_id j"
    with ok jin have "y = j" by (auto simp: jobs_ok_def distinct_map inj_on_def)
    with st ok jin show "jb_id (y\<lparr>jb_status := Job_pending, jb_expires := Some d, jb_token := Some (ce_digest e (PStr token)), jb_sealed := True, jb_seq := n\<rparr>) = jb_id j \<and>
        jb_hash (y\<lparr>jb_status := Job_pending, jb_expires := Some d, jb_token := Some (ce_digest e (PStr token)), jb_sealed := True, jb_seq := n\<rparr>) = jb_hash y \<and>
        jb_link (y\<lparr>jb_status := Job_pending, jb_expires := Some d, jb_token := Some (ce_digest e (PStr token)), jb_sealed := True, jb_seq := n\<rparr>) = jb_link y \<and>
        jb_attempts y \<le> jb_attempts (y\<lparr>jb_status := Job_pending, jb_expires := Some d, jb_token := Some (ce_digest e (PStr token)), jb_sealed := True, jb_seq := n\<rparr>) \<and>
        (True \<longrightarrow> jb_attempts (y\<lparr>jb_status := Job_pending, jb_expires := Some d, jb_token := Some (ce_digest e (PStr token)), jb_sealed := True, jb_seq := n\<rparr>) = jb_attempts y) \<and>
        jb_attempts (y\<lparr>jb_status := Job_pending, jb_expires := Some d, jb_token := Some (ce_digest e (PStr token)), jb_sealed := True, jb_seq := n\<rparr>) \<le> 3 \<and>
        (jb_status y = Job_closed \<longrightarrow> jb_status (y\<lparr>jb_status := Job_pending, jb_expires := Some d, jb_token := Some (ce_digest e (PStr token)), jb_sealed := True, jb_seq := n\<rparr>) = Job_closed)"
      by (simp add: jobs_ok_def)
  qed
qed


lemma place_evolves:
  assumes ok: "jobs_ok t" and r: "recording e" and s: "place_job e hh pr d a who c l uuid token t = Inr (x, t')"
  shows "jobs_ok t' \<and> evolved True t t'"
proof -
  from s obtain n t1 where g: "grant_contact e hh (pr\<lparr>p_surface := Scheduler\<rparr>) ''process'' (cs_id c) t = Inr (n, t1)"
    and fresh: "\<forall>j \<in> set (ct_jobs t1). jb_id j \<noteq> uuid"
    and rest: "t' = t1\<lparr>ct_jobs := ct_jobs t1 @ [new_job e hh pr a who c l uuid n]\<rparr> \<or>
      (\<exists>k. queue_job e hh pr a k token (t1\<lparr>ct_jobs := ct_jobs t1 @ [new_job e hh pr a who c l uuid n]\<rparr>) = Inr t')"
    by (auto simp: place_job_def Let_def rbind_Inr_iff require_def split: if_split_asm)
  define u where "u = t1\<lparr>ct_jobs := ct_jobs t1 @ [new_job e hh pr a who c l uuid n]\<rparr>"
  note same = same_rows_of [OF contact_grant_rows [OF g]]
  have u: "ct_jobs u = ct_jobs t @ [new_job e hh pr a who c l uuid n]" "ct_receipts u = ct_receipts t"
    using same by (simp_all add: u_def)
  have "jobs_ok u" using ok fresh same by (auto simp: jobs_ok_def u new_job_def)
  moreover have "evolved True t u" by (auto simp: evolved_def u receipt_of_def)
  moreover have "t' = u \<or> (\<exists>k. queue_job e hh pr a k token u = Inr t')" using rest by (simp add: u_def)
  ultimately show ?thesis using queue_evolves [OF _ r] evolves_trans by blast
qed

lemma decided_evolves:
  assumes ok: "jobs_ok t" and r: "recording e" and s: "decided_start e hh pr answer a who c l uuid token t = Inr (x, t')"
  shows "jobs_ok t' \<and> evolved True t t'"
  using s place_evolves [OF ok r] evolves_same [of t t] ok
  by (auto simp: decided_start_def split: reply.split_asm if_split_asm)

lemma start_evolves:
  assumes ok: "jobs_ok t" and r: "recording e" and s: "start_job e hh pr review c l uuid token t = Inr (x, t')"
  shows "jobs_ok t' \<and> evolved True t t'"
proof -
  from s have "t' = t \<or> (\<exists>pr answer a who h1. decided_start e hh pr answer a who c l uuid token (with_house hh h1 t) = Inr (x, t'))"
    by (auto simp: start_job_def Let_def rbind_Inr_iff split: if_split_asm)
  moreover have h: "jobs_ok (with_house hh h1 t) \<and> evolved True t (with_house hh h1 t)" for h1
    using evolves_same [of "with_house hh h1 t" t] ok by (simp add: with_house_def)
  moreover have "evolved True t t" using evolves_same [of t t] ok by simp
  ultimately show ?thesis using decided_evolves [OF _ r] evolves_trans ok by meson
qed

section \<open>The machine of check-ins\<close>

text \<open>
  The rows; the send that the worker has claimed and not yet reported, with its household, principal, job and
  attempt; and the jobs whose attempts were claimed, one entry per claim. One worker runs: it claims nothing while
  a send is out, and it reports the attempt it claimed, or stops before it could.
\<close>

type_synonym outstanding = "(string \<times> principal \<times> string \<times> nat) option"
type_synonym checkin_state = "contact_tables \<times> outstanding \<times> string list"

inductive checkin_step :: "checkin_state \<Rightarrow> checkin_state \<Rightarrow> bool" where
  starting: "checkin_step (t, out, cl) (t', out, cl)" if "recording e" and "start_job e hh pr review c l uuid token t = Inr (x, t')"
| queueing: "checkin_step (t, out, cl) (t', out, cl)" if "recording e" and "queue_job e hh pr a n token t = Inr t'"
| replying: "checkin_step (t, out, cl) (t', out, cl)" if "reply_app e hh pr i binding answer t = Inr t'"
| passing: "checkin_step (t, None, cl)
      (t', map_option (\<lambda>k. (hh, pr, i, k)) k, if attempts_of t i < attempts_of t' i then i # cl else cl)"
    if "job_of t hh i = Inr j" and "jb_status j \<noteq> Job_closed" and "worker_of hh t (jb_member j) = Inr pr" and "advance_one e hh i t = Inr (k, t')"
| delivering: "checkin_step (t, Some (hh, pr, i, k), cl) (t', None, cl)" if "deliver_job e hh pr i k result t = Inr t'"
| stopping: "checkin_step (t, out, cl) (t, None, cl)"

inductive_cases checkin_stepE: "checkin_step s s'"

text \<open>The claimed attempt is the job's count until it is reported.\<close>

definition worker_ok :: "checkin_state \<Rightarrow> bool" where
  "worker_ok s \<longleftrightarrow> (case s of (t, out, cl) \<Rightarrow> jobs_ok t \<and>
     (case out of None \<Rightarrow> True | Some (hh, pr, i, k) \<Rightarrow> attempts_of t i \<le> k \<and> k \<le> 3 \<and> i \<in> jb_id ` set (ct_jobs t)))"

text \<open>Jobs evolve, and every claim raises the count of its job.\<close>

definition progress :: "checkin_state \<Rightarrow> checkin_state \<Rightarrow> bool" where
  "progress s s' \<longleftrightarrow> (case (s, s') of ((t, _, cl), (t', _, cl')) \<Rightarrow> evolves t t' \<and>
     (\<forall>i. attempts_of t i + count_list cl' i \<le> attempts_of t' i + count_list cl i))"

lemma steady_step:
  assumes w: "worker_ok (t, out, cl)" and e: "jobs_ok t' \<and> evolved True t t'"
  shows "worker_ok (t', out, cl) \<and> progress (t, out, cl) (t', out, cl)"
proof -
  have ok: "jobs_ok t" using w by (simp add: worker_ok_def)
  have "attempts_of t' i = attempts_of t i \<and> i \<in> jb_id ` set (ct_jobs t')" if i: "i \<in> jb_id ` set (ct_jobs t)" for i
    using attempts_steady [OF ok, of t' _ i] evolved_ids [OF _ i] e i by blast
  then show ?thesis
    using w e attempts_grow [OF ok, of t' True] by (auto simp: worker_ok_def progress_def steady_evolves split: option.split_asm)
qed

lemma worker_jobs: "worker_ok (t, out, cl) \<Longrightarrow> jobs_ok t"
  by (simp add: worker_ok_def)

lemma advance_sends:
  assumes ok: "jobs_ok t" and j: "job_of t hh i = Inr j" "jb_status j \<noteq> Job_closed" and a: "advance_one e hh i t = Inr (Some k, t')"
  shows "attempts_of t' i = k \<and> k \<le> 3"
proof -
  have s: "advance_job e hh i t = Inr (Some k, t')"
    using a by (auto simp: advance_one_def rbind_Inr_iff split: sum.split_asm contact_exn.split_asm)
  from s j(1) obtain c where c: "case_of t hh (jb_case j) = Inr c"
    by (auto simp: advance_job_def rbind_Inr_iff split: if_split_asm)
  from s j(1) c show ?thesis
  proof (cases rule: advance_jobE)
    case (claimed l n t1 pr)
    note same = same_rows_of [OF contact_grant_rows [OF claimed(3)]]
    have jin: "j \<in> set (ct_jobs t)" "jb_id j = i" using j(1) by (auto simp: job_of_def List.find_Some_iff)
    have "claimed_job e l (jb_attempts j + 1) n j \<in> set (ct_jobs t')"
      using jin same by (auto simp: claimed(4) update_job_def)
    moreover have "jobs_ok t'" using advance_evolves [OF ok j a] by blast
    ultimately have "attempts_of t' i = jb_attempts j + 1"
      using attempts_of_job [of t' "claimed_job e l (jb_attempts j + 1) n j" i] jin by (simp add: claimed_job_def)
    with claimed(2,5) show ?thesis by (simp add: may_send_def)
  qed simp_all
qed

lemma pass_step:
  assumes w: "worker_ok (t, None, cl)" and j: "job_of t hh i = Inr j" "jb_status j \<noteq> Job_closed" and a: "advance_one e hh i t = Inr (k, t')"
  shows "worker_ok (t', map_option (\<lambda>k. (hh, pr, i, k)) k, if attempts_of t i < attempts_of t' i then i # cl else cl) \<and>
    progress (t, None, cl) (t', map_option (\<lambda>k. (hh, pr, i, k)) k, if attempts_of t i < attempts_of t' i then i # cl else cl)"
proof -
  have ok: "jobs_ok t" using w by (simp add: worker_ok_def)
  note e = advance_evolves [OF ok j a]
  have "i \<in> jb_id ` set (ct_jobs t)" using j(1) by (auto simp: job_of_def List.find_Some_iff)
  then have i: "i \<in> jb_id ` set (ct_jobs t')" using e evolved_ids by blast
  have "attempts_of t' i = n \<and> n \<le> 3" if "k = Some n" for n using advance_sends [OF ok j] a that by blast
  with e i have "worker_ok (t', map_option (\<lambda>k. (hh, pr, i, k)) k, if attempts_of t i < attempts_of t' i then i # cl else cl)"
    by (auto simp: worker_ok_def split: option.split)
  moreover have "attempts_of t x + count_list (if attempts_of t i < attempts_of t' i then i # cl else cl) x \<le> attempts_of t' x + count_list cl x" for x
    using attempts_grow [OF ok e [THEN conjunct1] e [THEN conjunct2], of x] by (cases "x = i") auto
  ultimately show ?thesis using e by (simp add: progress_def)
qed

lemma deliver_step:
  assumes w: "worker_ok (t, Some (hh, pr, i, k), cl)" and d: "deliver_job e hh pr i k r t = Inr t'"
  shows "worker_ok (t', None, cl) \<and> progress (t, Some (hh, pr, i, k), cl) (t', None, cl)"
proof -
  from w have ok: "jobs_ok t" and k: "attempts_of t i \<le> k" "k \<le> 3" by (simp_all add: worker_ok_def)
  from deliver_evolves [OF ok k d] show ?thesis
    using attempts_grow [OF ok, of t' False] by (simp add: worker_ok_def progress_def)
qed

lemma checkin_step_ok: "worker_ok s \<Longrightarrow> checkin_step s s' \<Longrightarrow> worker_ok s' \<and> progress s s'"
proof (erule checkin_stepE)
  fix t out cl t' e hh pr review c l uuid token x
  assume w: "worker_ok s" and s: "s = (t, out, cl)" "s' = (t', out, cl)" and r: "recording e"
    and a: "start_job e hh pr review c l uuid token t = Inr (x, t')"
  from steady_step [OF w [unfolded s] start_evolves [OF worker_jobs [OF w [unfolded s]] r a]] show ?thesis unfolding s .
next
  fix t out cl t' e hh pr a n token
  assume w: "worker_ok s" and s: "s = (t, out, cl)" "s' = (t', out, cl)" and r: "recording e" and a: "queue_job e hh pr a n token t = Inr t'"
  from steady_step [OF w [unfolded s] queue_evolves [OF worker_jobs [OF w [unfolded s]] r a]] show ?thesis unfolding s .
next
  fix t out cl t' e hh pr i binding answer
  assume w: "worker_ok s" and s: "s = (t, out, cl)" "s' = (t', out, cl)" and a: "reply_app e hh pr i binding answer t = Inr t'"
  from steady_step [OF w [unfolded s] reply_evolves [OF worker_jobs [OF w [unfolded s]] a]] show ?thesis unfolding s .
next
  fix t out cl
  assume "worker_ok s" "s = (t, out, cl)" "s' = (t, None, cl)"
  then show ?thesis using evolves_same [of t t False] by (simp add: worker_ok_def progress_def)
qed (use pass_step deliver_step in \<open>simp, blast\<close>)+

lemma progress_trans: "progress s t \<Longrightarrow> progress t u \<Longrightarrow> progress s u"
proof -
  assume a: "progress s t" "progress t u"
  obtain t1 o1 c1 t2 o2 c2 t3 o3 c3 where s: "s = (t1, o1, c1)" "t = (t2, o2, c2)" "u = (t3, o3, c3)" by (cases s; cases t; cases u)
  from a have e: "evolves t1 t2" "evolves t2 t3"
    and n: "attempts_of t1 i + count_list c2 i \<le> attempts_of t2 i + count_list c1 i"
      "attempts_of t2 i + count_list c3 i \<le> attempts_of t3 i + count_list c2 i" for i
    by (simp_all add: progress_def s)
  have "attempts_of t1 i + count_list c3 i \<le> attempts_of t3 i + count_list c1 i" for i
    using n [of i] by linarith
  with evolves_trans [OF e] show ?thesis by (simp add: progress_def s)
qed

interpretation checkins: machine checkin_step worker_ok progress
proof
  fix s t u :: checkin_state
  show "worker_ok s \<Longrightarrow> checkin_step s t \<Longrightarrow> worker_ok t" and "worker_ok s \<Longrightarrow> checkin_step s t \<Longrightarrow> progress s t"
    using checkin_step_ok by blast+
  show "progress s s" using evolves_same [of "fst s" "fst s" False] by (simp add: progress_def split: prod.split)
  show "progress s t \<Longrightarrow> progress t u \<Longrightarrow> progress s u"
    by (rule progress_trans)
qed

section \<open>Properties\<close>

lemma worker_pass:
  assumes j: "job_of t hh i = Inr j" and c: "case_of t hh (jb_case j) = Inr c" and a: "advance_one e hh i t = Inr (k, t')"
  shows "t' = t \<or>
    (\<exists>j' c' v'. job_of t' hh i = Inr j' \<and> jb_status j' = Job_closed \<and> case_of t' hh (jb_case j) = Inr c' \<and> cs_state c' = Some v' \<and>
       (ground_for j (vs_status v') t \<or> cs_state c = Some v' \<and> vs_status v' \<noteq> V_pending)) \<or>
    (\<exists>l n. link_of t (jb_link j) = Inr l \<and> may_send e hh j l t \<and> job_of t' hh i = Inr (claimed_job e l (jb_attempts j + 1) n j))"
proof -
  have cid: "cs_id c = jb_case j" using c by (auto simp: case_of_def List.find_Some_iff)
  have closing: "\<exists>j'. job_of t' hh i = Inr j' \<and> jb_status j' = Job_closed"
    if "ct_jobs t' = map (\<lambda>y. if jb_id y = i then y\<lparr>jb_status := Job_closed, jb_sealed := False, jb_seq := n\<rparr> else y) (ct_jobs t)" for n
    using job_of_update [OF _ _ j, of "\<lambda>y. y\<lparr>jb_status := Job_closed, jb_sealed := False, jb_seq := n\<rparr>"] that
    by (simp add: job_of_def update_job_def)
  have casing: "case_of t' hh (jb_case j) = Inr (c\<lparr>cs_state := Some v, cs_seq := n\<rparr>)"
    if "ct_cases t' = map (\<lambda>x. if cs_id x = jb_case j \<and> cs_home x = hh then x\<lparr>cs_state := Some v, cs_seq := n\<rparr> else x) (ct_cases t)" for v n
    using case_of_update [OF _ _ c, of "\<lambda>x. x\<lparr>cs_state := Some v, cs_seq := n\<rparr>"] that by (simp add: case_of_def update_case_def)
  show ?thesis
  proof (cases "advance_job e hh i t")
    case (Inr x)
    with a have "advance_job e hh i t = Inr (k, t')" by (simp add: advance_one_def)
    from this j c show ?thesis
    proof (cases rule: advance_jobE)
      case idle
      then show ?thesis by simp
    next
      case (finished pr status why)
      from finished(1) show ?thesis
      proof (cases rule: finish_jobE)
        case (1 n v t1)
        with closing [of n] casing [where v = "v\<lparr>vs_status := status, vs_reason := why\<rparr>" and n = n] job_of_id [OF j] cid finished(3)
        show ?thesis by auto
      qed
    next
      case (claimed l n t1 pr)
      have "job_of t' hh i = Inr (claimed_job e l (jb_attempts j + 1) n j)"
        using job_of_update [of "claimed_job e l (jb_attempts j + 1) n" t1 hh i j] j same_rows_of(2) [OF contact_grant_rows [OF claimed(3)]]
        by (simp add: claimed(4) claimed_job_def)
      with claimed(1,2) show ?thesis by blast
    qed
  next
    case (Inl err)
    with a have cl: "close_inconsistent e hh i t = Inr t'" by (cases err) (auto simp: advance_one_def rbind_Inr_iff)
    show ?thesis
    proof (cases "jb_status j = Job_closed")
      case True
      with cl j show ?thesis by (simp add: close_inconsistent_def)
    next
      case False
      with cl j c obtain pr n t1 c1 v payload m where g: "grant_contact e hh pr ''process'' i t = Inr (n, t1)"
        and c1: "case_of t1 hh (jb_case j) = Inr c1" and v: "state_or_empty e t1 j c1 = Inr v"
        and ev: "contact_event e hh payload (closed_inconsistent hh i c1 v n t1) = Inr (m, t')"
        by (auto simp: close_inconsistent_def rbind_Inr_iff)
      note s1 = same_rows_of [OF contact_grant_rows [OF g]] and s2 = same_rows_of [OF contact_event_rows [OF ev]]
      have c1: "c1 = c" using c c1 s1 by simp
      have "\<exists>j'. job_of t' hh i = Inr j' \<and> jb_status j' = Job_closed"
        by (rule closing [of n]) (use s1 s2 in \<open>simp add: closed_inconsistent_def update_job_def\<close>)
      moreover have "\<exists>c' v'. case_of t' hh (jb_case j) = Inr c' \<and> cs_state c' = Some v' \<and>
          (ground_for j (vs_status v') t \<or> cs_state c = Some v' \<and> vs_status v' \<noteq> V_pending)"
      proof (cases "vs_status v = V_pending")
        case True
        have "case_of t' hh (jb_case j) = Inr (c\<lparr>cs_state := Some (inconsistent_state v), cs_seq := n\<rparr>)"
          by (rule casing) (use s1 s2 True c1 cid in \<open>simp add: closed_inconsistent_def update_case_def\<close>)
        then show ?thesis using True by (simp add: inconsistent_state_def ground_for_def)
      next
        case False
        have "case_of t' hh (jb_case j) = Inr c" using s1 s2 c False by (simp add: closed_inconsistent_def)
        moreover have "cs_state c = Some v" using v c1 False by (auto simp: state_or_empty_def rbind_Inr_iff split: option.split_asm)
        ultimately show ?thesis using False by simp
      qed
      ultimately show ?thesis by blast
    qed
  qed
qed

section \<open>A check that ran out of time\<close>

definition worker_env :: contact_env where
  "worker_env = \<lparr>ce_plant = (\<lambda>_. demo_plant), ce_uuid = (\<lambda>h. ''u''), ce_now = 1791930900000000,
     ce_wall = 1791930900000000, ce_digest = demo_H, ce_route = False, ce_key = True,
     ce_record = (\<lambda>hh pr c n t. Inr t)\<rparr>"

definition sister_link :: contact_link where
  "sister_link = \<lparr>lk_id = ''l1'', lk_home = ''h'', lk_contact = ''sister'', lk_owner = ''m1'', lk_kind = App_link, lk_status = Link_active,
     lk_token = ''d'', lk_sealed = False, lk_recipient = Some (''other'', ''s''), lk_proof = [], lk_attempts = 0, lk_next = None, lk_created = 0,
     lk_expires = 0, lk_seq = 1\<rparr>"

definition sister_job :: checkin_job where
  "sister_job = \<lparr>jb_id = ''j1'', jb_home = ''h'', jb_member = ''m1'', jb_link = ''l1'', jb_case = ''c1'', jb_action = ''a9'', jb_hash = ''r'',
     jb_principal = app_user, jb_status = Job_sent, jb_attempts = 1, jb_token = None, jb_sealed = True, jb_created = 1791930000000000,
     jb_expires = Some 1791930120000000, jb_next = 1791930030000000, jb_seq = 1\<rparr>"

definition sister_case :: case_row where
  "sister_case = \<lparr>cs_id = ''c1'', cs_home = ''h'', cs_member = ''m1'', cs_person = True, cs_contact = Some ''sister'', cs_claim = PNone,
     cs_state = Some \<lparr>vs_method = ''app_confirmation'', vs_status = V_pending, vs_sent_to = ''sister'', vs_started = 1791930000000000,
       vs_expires = 1791930120000000, vs_source = ''real'', vs_reason = None\<rparr>, cs_seq = 1\<rparr>"

definition sister_tables :: contact_tables where
  "sister_tables = \<lparr>ct_houses = [(''h'', lamp_house)], ct_links = [sister_link], ct_jobs = [sister_job], ct_receipts = [],
     ct_cases = [sister_case], ct_couriers = []\<rparr>"

text \<open>A rule that was parsed once need not be parsed again.\<close>

definition parse_again :: "nat \<Rightarrow> string \<Rightarrow> node result" where
  "parse_again depth source =
     rbind (parser_init source) (\<lambda>ts.
       case parse_bool (parse_fuel ts) depth True ts of
         Inl e \<Rightarrow> Inl (if e = RecursionError then ValueError else e)
       | Inr (n, rest) \<Rightarrow> if rest \<noteq> [] then Inl ValueError else Inr n)"

lemma parse_known [code]: "parse depth source =
    (if depth = 40 \<and> source = contacts_condition then Inr contacts_node else parse_again depth source)"
  by (simp add: contacts_parsed) (simp add: parse_def parse_again_def)

lemma worker_granted: "case grant_contact worker_env ''h'' (app_user\<lparr>p_surface := Scheduler\<rparr>) ''process'' ''j1'' sister_tables of
    Inl _ \<Rightarrow> False
  | Inr (n, t) \<Rightarrow> wire_int n \<and> (case map_of (ct_houses t) ''h'' of None \<Rightarrow> False
      | Some h \<Rightarrow> int (length (log (audit h))) < 9007199254740991 \<and> (log (audit h) = [] \<or> created_at (last (log (audit h))) \<le> 1791930900000000))"
  by code_simp

lemma household_command_safe:
  assumes "household_command e hh pr name ps h = Inr (n, h1)" and "sane (ce_plant e hh)" and "house_ok (ce_plant e hh) h"
    and "\<not> committed_class (''governance.'' @ name)"
  shows "house_ok (ce_plant e hh) h1"
proof -
  let ?p = "ce_plant e hh" and ?a = "governance_action (H (ce_plant e hh)) (ce_uuid e h) hh name ps (p_surface pr)"
  from assms(1) obtain r where m: "mutate_locked (commanded (ce_route e) ?a h ?p) (plain_call e h ?a pr) h = Inr (r, h1)"
    by (auto simp: household_command_def Let_def rbind_Inr_iff split: reply.split_asm if_split_asm) (metis reply.exhaust)
  have "sane (commanded (ce_route e) ?a h ?p)" and "house_ok (commanded (ce_route e) ?a h ?p) g \<longleftrightarrow> house_ok ?p g" for g
    using assms(2) by (simp_all add: sane_def house_ok_def commanded_def)
  moreover have "\<not> committed_class (action_class (c_action (plain_call e h ?a pr)))"
    using assms(4) by (simp add: plain_call_def governance_action_def Let_def)
  ultimately show ?thesis using mutate_safe [OF _ _ _ m, unfolded hooked_def] assms(3) by (simp add: safe_def)
qed

lemma sister_rows: "job_of sister_tables ''h'' ''j1'' = Inr sister_job" "link_of sister_tables ''l1'' = Inr sister_link"
    "case_of sister_tables ''h'' ''c1'' = Inr sister_case" "map_of (ct_houses sister_tables) ''h'' = Some lamp_house"
  by (simp_all add: job_of_def link_of_def case_of_def need_def sister_tables_def sister_job_def sister_link_def sister_case_def)

lemma sister_fields: "jb_status sister_job = Job_sent" "jb_expires sister_job = Some 1791930120000000" "ce_wall worker_env = 1791930900000000"
    "jb_link sister_job = ''l1''" "jb_member sister_job = ''m1''" "jb_case sister_job = ''c1''" "lk_kind sister_link = App_link"
  by (simp_all add: sister_job_def sister_link_def worker_env_def)

lemma sister_worker: "worker_of ''h'' sister_tables ''m1'' = Inr (app_user\<lparr>p_surface := Scheduler\<rparr>)"
  by code_simp

lemmas sister_data = sister_worker sister_rows sister_fields

lemma sister_granted:
  obtains n t1 where "grant_contact worker_env ''h'' (app_user\<lparr>p_surface := Scheduler\<rparr>) ''process'' ''j1'' sister_tables = Inr (n, t1)"
    and "log_ready worker_env ''h'' t1" and "wire_int n"
proof -
  from worker_granted obtain n t1 h1 where g: "grant_contact worker_env ''h'' (app_user\<lparr>p_surface := Scheduler\<rparr>) ''process'' ''j1'' sister_tables = Inr (n, t1)"
    and h1: "map_of (ct_houses t1) ''h'' = Some h1"
    and late: "log (audit h1) = [] \<or> created_at (last (log (audit h1))) \<le> 1791930900000000"
    and len: "int (length (log (audit h1))) < 9007199254740991" and num: "wire_int n"
    by (auto split: sum.split_asm option.split_asm)
  have env: "ce_plant worker_env ''h'' = demo_plant" "ce_now worker_env = 1791930900000000" by (simp_all add: worker_env_def)
  from g obtain pr ps h where c: "household_command worker_env ''h'' pr ''contacts'' ps lamp_house = Inr (n, h)"
    and t1: "t1 = with_house ''h'' h sister_tables"
    by (auto simp: grant_contact_def house_of_def need_def sister_rows Let_def rbind_Inr_iff)
  have "\<not> committed_class (''governance.'' @ ''contacts'')" by code_simp
  moreover have "house_ok demo_plant lamp_house" using lamp_house_ok by (simp add: house_ok_def lamp_plant_def)
  ultimately have "house_ok demo_plant h" using household_command_safe [OF c] demo_plant_sane env by simp
  moreover have "h1 = h" using h1 t1 by (simp add: with_house_def)
  ultimately have "log_ready worker_env ''h'' t1"
    using h1 late len by (auto simp: log_ready_def Let_def env house_ok_def)
  with g show thesis using num by (rule that)
qed

lemma sister_closes: "\<exists>t'. advance_one worker_env ''h'' ''j1'' sister_tables = Inr (None, t') \<and>
    (\<exists>j'. job_of t' ''h'' ''j1'' = Inr j' \<and> jb_status j' = Job_closed)"
proof (rule sister_granted)
  fix n t1
  assume "grant_contact worker_env ''h'' (app_user\<lparr>p_surface := Scheduler\<rparr>) ''process'' ''j1'' sister_tables = Inr (n, t1)"
    and "log_ready worker_env ''h'' t1" and "wire_int n"
  from overdue_closes [OF sister_rows(1) _ _ _ _ _ _ _ this] show ?thesis by (simp add: sister_data)
qed

section \<open>Properties\<close>

text \<open>C21: liveness of the worker. A job that has left the approval and whose deadline has passed is
  closed by the next pass over it: whatever the row, the receipt and the case say, provided that the
  worker can be authorised for the job's member, the audit log accepts an event, its numbers are below 2^53 and the link can be
  served, \<open>advance\<close> returns, sends nothing and leaves the job closed.\<close>

theorem overdue_job_closes:
  assumes "job_of t hh i = Inr j" and "jb_status j \<noteq> Job_approval" and "jb_expires j = Some d" and "d \<le> ce_wall e"
    and "link_of t (jb_link j) = Inr l" and "lk_kind l = App_link \<or> ce_key e" and "worker_of hh t (jb_member j) = Inr pr"
    and "case_of t hh (jb_case j) = Inr c" and "grant_contact e hh pr ''process'' i t = Inr (n, t1)" and "log_ready e hh t1" and "wire_int n"
  shows "\<exists>t'. advance_one e hh i t = Inr (None, t') \<and> (\<exists>j'. job_of t' hh i = Inr j' \<and> jb_status j' = Job_closed)"
  using assms by (rule overdue_closes)

theorem overdue_job_closes_witness:
  "\<exists>t'. advance_one worker_env ''h'' ''j1'' sister_tables = Inr (None, t') \<and>
    (\<exists>j'. job_of t' ''h'' ''j1'' = Inr j' \<and> jb_status j' = Job_closed)"
proof (rule sister_granted)
  fix n t1
  assume "grant_contact worker_env ''h'' (app_user\<lparr>p_surface := Scheduler\<rparr>) ''process'' ''j1'' sister_tables = Inr (n, t1)"
    and "log_ready worker_env ''h'' t1" and "wire_int n"
  from overdue_job_closes [OF sister_rows(1) _ _ _ _ _ _ _ this] show ?thesis by (simp add: sister_data)
qed

text \<open>C20: one pass of the worker does one of three things: it changes nothing; it closes the job
  and leaves the case with a status it has ground for, an answer only if a receipt for this very
  request was accepted before the deadline, otherwise no answer, unless the case was already closed with an answer
  of its own, which the pass leaves as it is; or it claims an attempt, and then
  the link is active, no receipt is there, the deadline is ahead, the retry is due, fewer than three
  attempts were made, the original action still stands assessed as sendable and the rate limits leave
  room.\<close>

theorem worker_pass_sound:
  assumes "job_of t hh i = Inr j" and "case_of t hh (jb_case j) = Inr c" and "advance_one e hh i t = Inr (k, t')"
  shows "t' = t \<or>
    (\<exists>j' c' v'. job_of t' hh i = Inr j' \<and> jb_status j' = Job_closed \<and> case_of t' hh (jb_case j) = Inr c' \<and> cs_state c' = Some v' \<and>
       (ground_for j (vs_status v') t \<or> cs_state c = Some v' \<and> vs_status v' \<noteq> V_pending)) \<or>
    (\<exists>l n. link_of t (jb_link j) = Inr l \<and> may_send e hh j l t \<and> job_of t' hh i = Inr (claimed_job e l (jb_attempts j + 1) n j))"
  by (rule worker_pass [OF assms])

theorem worker_pass_sound_witness:
  "\<exists>t'. advance_one worker_env ''h'' ''j1'' sister_tables = Inr (None, t') \<and>
     (t' = sister_tables \<or>
      (\<exists>j' c' v'. job_of t' ''h'' ''j1'' = Inr j' \<and> jb_status j' = Job_closed \<and> case_of t' ''h'' (jb_case sister_job) = Inr c' \<and> cs_state c' = Some v' \<and>
         (ground_for sister_job (vs_status v') sister_tables \<or> cs_state sister_case = Some v' \<and> vs_status v' \<noteq> V_pending)) \<or>
      (\<exists>l n. link_of sister_tables (jb_link sister_job) = Inr l \<and> may_send worker_env ''h'' sister_job l sister_tables \<and>
         job_of t' ''h'' ''j1'' = Inr (claimed_job worker_env l (jb_attempts sister_job + 1) n sister_job)))"
proof -
  from sister_closes obtain t' where a: "advance_one worker_env ''h'' ''j1'' sister_tables = Inr (None, t')" by blast
  have "case_of sister_tables ''h'' (jb_case sister_job) = Inr sister_case" using sister_rows(3) by (simp add: sister_job_def)
  from worker_pass_sound [OF sister_rows(1) this a] a show ?thesis by blast
qed

text \<open>C22: over any sequence of starts, queued deliveries, app replies, passes of the one worker, reports of what
  its sends came to and stops of the worker between a claim and its report, the attempts claimed for a job, with
  those it had at the start, are at most three; there is at most one receipt for a job and its answer is one of the
  three a person can give; and a job that is closed stays closed, keeps its request hash and takes no further
  reply.\<close>

theorem closed_is_final:
  assumes "jobs_ok t" and "checkin_step\<^sup>*\<^sup>* (t, None, []) (t', out, claims)"
  shows "(\<forall>i. attempts_of t i + count_list claims i \<le> 3) \<and> jobs_ok t' \<and> evolves t t'"
proof -
  have "worker_ok (t, None, [])" using assms(1) by (simp add: worker_ok_def)
  from checkins.runs_inv [OF assms(2) this] checkins.runs_ext [OF assms(2) this]
  have ok: "jobs_ok t'" and e: "evolves t t'" and c: "attempts_of t i + count_list claims i \<le> attempts_of t' i" for i
    by (simp_all add: worker_ok_def progress_def)
  then show ?thesis using attempts_bound [OF ok] by (meson le_trans)
qed

theorem closed_is_final_witness:
  "\<exists>t'. advance_one worker_env ''h'' ''j1'' sister_tables = Inr (None, t') \<and> jobs_ok t' \<and> evolves sister_tables t'"
proof -
  from sister_closes obtain t' where a: "advance_one worker_env ''h'' ''j1'' sister_tables = Inr (None, t')" by blast
  have "jb_status sister_job \<noteq> Job_closed" and m: "jb_member sister_job = ''m1''" by (simp_all add: sister_job_def)
  from checkin_step.passing [OF sister_rows(1) this(1) _ a] sister_worker obtain cl where
    "checkin_step (sister_tables, None, []) (t', None, cl)" by (fastforce simp: m)
  then have "checkin_step\<^sup>*\<^sup>* (sister_tables, None, []) (t', None, cl)" by (rule r_into_rtranclp)
  moreover have "jobs_ok sister_tables" by (simp add: jobs_ok_def sister_tables_def sister_job_def)
  ultimately show ?thesis using closed_is_final a by blast
qed

end
