(* ===== verification/Enrollment.thy ===== *)
theory Enrollment
  imports Checkins
begin

text \<open>
  The enrollment of trusted contacts, \<open>hirz/contacts/service.py\<close>: contacts, private links that both sides
  confirm, phone numbers, safe words and guesses; the addresses of \<open>hirz/contacts/secrets.py\<close> and
  \<open>hirz/protect/phone.py\<close>. Each operation follows a fresh passkey and the audited grant of \<open>Checkins\<close>.
  Of the graph's entities the current contacts and channels are kept, by their identifiers. Communication
  deadlines use the wall clock, and the instants of guesses, which the code compares as ISO texts in UTC, are
  microseconds.
\<close>

section \<open>Addresses\<close>

definition ascii_digit :: "char \<Rightarrow> bool" where
  "ascii_digit c \<longleftrightarrow> 48 \<le> (of_char c :: nat) \<and> (of_char c :: nat) \<le> 57"

definition ascii_alnum :: "char \<Rightarrow> bool" where
  "ascii_alnum c \<longleftrightarrow> ascii_digit c \<or> 65 \<le> (of_char c :: nat) \<and> (of_char c :: nat) \<le> 90 \<or> 97 \<le> (of_char c :: nat) \<and> (of_char c :: nat) \<le> 122"

definition phone :: "string \<Rightarrow> string result" where
  "phone s =
     (let marks = set '' ().-''; body = (case s of [] \<Rightarrow> [] | c # cs \<Rightarrow> if c = CHR ''+'' then cs else s);
          digits = filter (\<lambda>c. c \<notin> marks) s in
      rbind (guard ValueError (body \<noteq> [] \<and> list_all (\<lambda>c. ascii_digit c \<or> c \<in> marks) body)) (\<lambda>_.
      if take 1 digits = ''+'' then rbind (guard ValueError (9 \<le> length digits \<and> length digits \<le> 16)) (\<lambda>_. Inr digits)
      else if length digits = 10 then Inr (''+1'' @ digits)
      else if length digits = 11 \<and> take 1 digits = ''1'' then Inr (CHR ''+'' # digits)
      else Inl ValueError))"

definition strip_spaces :: "string \<Rightarrow> string" where
  "strip_spaces s = rev (dropWhile (\<lambda>c. c = CHR '' '') (rev (dropWhile (\<lambda>c. c = CHR '' '') s)))"

definition lower_char :: "char \<Rightarrow> char" where
  "lower_char c = (if 65 \<le> (of_char c :: nat) \<and> (of_char c :: nat) \<le> 90 then char_of ((of_char c :: nat) + 32) else c)"

text \<open>A label of a domain: 1 to 63 letters, digits and inner hyphens.\<close>

definition domain_label :: "string \<Rightarrow> bool" where
  "domain_label l \<longleftrightarrow> l \<noteq> [] \<and> length l \<le> 63 \<and> ascii_alnum (hd l) \<and> ascii_alnum (last l) \<and>
     list_all (\<lambda>c. ascii_alnum c \<or> c = CHR ''-'') l"

fun double_dot :: "string \<Rightarrow> bool" where
  "double_dot (c # d # cs) \<longleftrightarrow> c = CHR ''.'' \<and> d = CHR ''.'' \<or> double_dot (d # cs)"
| "double_dot _ \<longleftrightarrow> False"

definition local_part :: "string \<Rightarrow> bool" where
  "local_part s \<longleftrightarrow> 1 \<le> length s \<and> length s \<le> 64 \<and>
     list_all (\<lambda>c. ascii_alnum c \<or> c \<in> set ''!#$%&*+/=?^_`{|}~.-'' \<or> c = CHR 0x27) s \<and>
     hd s \<noteq> CHR ''.'' \<and> last s \<noteq> CHR ''.'' \<and> \<not> double_dot s"

definition email :: "string \<Rightarrow> string result" where
  "email s =
     rbind (guard ValueError (list_all (\<lambda>c. 32 \<le> (of_char c :: nat) \<and> (of_char c :: nat) < 127) s)) (\<lambda>_.
     let v = strip_spaces s in
     case split_on (CHR ''@'') v of
       [l, d] \<Rightarrow>
         rbind (guard ValueError (length v \<le> 254 \<and> local_part l \<and> 2 \<le> length (split_on (CHR ''.'') d) \<and>
           list_all domain_label (split_on (CHR ''.'') d))) (\<lambda>_. Inr (l @ ''@'' @ map lower_char d))
     | _ \<Rightarrow> Inl ValueError)"

section \<open>Rows\<close>

record contact_row =
  tc_home :: string
  tc_id :: string
  tc_person :: bool

record channel_row =
  ch_home :: string
  ch_id :: string
  ch_contact :: string
  ch_kind :: string

record secret_row =
  sc_home :: string
  sc_contact :: string
  sc_word :: "pv option"
  sc_guesses :: "int list"
  sc_seq :: int

record enrollment =
  et_tables :: contact_tables
  et_contacts :: "contact_row list"
  et_channels :: "channel_row list"
  et_secrets :: "secret_row list"

text \<open>
  \<open>ee_reference\<close>, \<open>ee_token\<close>: the random identifier and the random token of the operation; \<open>ee_hash\<close> and
  \<open>ee_check\<close>: the salted scrypt hash of a safe word and its comparison; \<open>ee_requester\<close>: the JSON of a
  principal.
\<close>

record enroll_env =
  ee_env :: contact_env
  ee_reference :: string
  ee_token :: string
  ee_hash :: "string \<Rightarrow> pv result"
  ee_check :: "string \<Rightarrow> pv \<Rightarrow> bool result"
  ee_requester :: "principal \<Rightarrow> pv"

datatype enroll_op =
    Create_contact string string
  | Accept_link string
  | Withdraw_link string
  | Give_phone string string
  | Set_word string string
  | Invite string link_kind string
  | Confirm_link string string
  | Revoke_link string string

definition update_link :: "string \<Rightarrow> (contact_link \<Rightarrow> contact_link) \<Rightarrow> contact_tables \<Rightarrow> contact_tables" where
  "update_link i f t = t\<lparr>ct_links := map (\<lambda>l. if lk_id l = i then f l else l) (ct_links t)\<rparr>"

definition grant_enroll ::
  "enroll_env \<Rightarrow> string \<Rightarrow> principal \<Rightarrow> string \<Rightarrow> string \<Rightarrow> enrollment \<Rightarrow> (int \<times> enrollment) contact_result"
where
  "grant_enroll e hh pr operation reference s =
     rbind (grant_contact (ee_env e) hh pr operation reference (et_tables s)) (\<lambda>(n, t). Inr (n, s\<lparr>et_tables := t\<rparr>))"

definition change_links :: "(contact_tables \<Rightarrow> contact_tables) \<Rightarrow> enrollment \<Rightarrow> enrollment" where
  "change_links f s = s\<lparr>et_tables := f (et_tables s)\<rparr>"

section \<open>The recipient's operations\<close>

definition create_contact :: "enroll_env \<Rightarrow> string \<Rightarrow> principal \<Rightarrow> string \<Rightarrow> string \<Rightarrow> enrollment \<Rightarrow> enrollment contact_result" where
  "create_contact e hh pr name relationship s =
     rbind (require (name \<noteq> [] \<and> relationship \<noteq> [])) (\<lambda>_.
     rbind (grant_enroll e hh pr ''create'' (ee_reference e) s) (\<lambda>(_, s1).
     rbind (require (\<forall>c \<in> set (et_contacts s1). tc_home c = hh \<longrightarrow> tc_id c \<noteq> ee_reference e)) (\<lambda>_.
       Inr (s1\<lparr>et_contacts := et_contacts s1 @ [\<lparr>tc_home = hh, tc_id = ee_reference e, tc_person = True\<rparr>]\<rparr>))))"

definition accepted_link :: "enroll_env \<Rightarrow> string \<Rightarrow> string \<Rightarrow> int \<Rightarrow> contact_link \<Rightarrow> contact_link" where
  "accepted_link e hh m n l = l\<lparr>lk_status := Link_confirmed, lk_recipient := Some (hh, m),
     lk_proof := [(''household_id'', PStr hh), (''member_id'', PStr m), (''decision_seq'', PInt n), (''kind'', PStr ''passkey''),
       (''accepted_at'', stamp (ce_wall (ee_env e)))]\<rparr>"

definition accept_link :: "enroll_env \<Rightarrow> string \<Rightarrow> principal \<Rightarrow> requester \<Rightarrow> string \<Rightarrow> enrollment \<Rightarrow> enrollment contact_result" where
  "accept_link e hh pr m token s =
     rbind (need (find (\<lambda>l. lk_token l = ce_digest (ee_env e) (PStr token) \<and> lk_kind l = App_link) (ct_links (et_tables s)))) (\<lambda>l.
     rbind (require (lk_status l = Link_pending \<and> ce_wall (ee_env e) < lk_expires l \<and> lk_home l \<noteq> hh)) (\<lambda>_.
     rbind (grant_enroll e hh pr ''accept'' (lk_id l) s) (\<lambda>(n, s1).
     rbind (need (member_id m)) (\<lambda>i.
       Inr (change_links (update_link (lk_id l) (accepted_link e hh i n)) s1)))))"

text \<open>The recipient withdraws, or gives a phone number.\<close>

definition recipient_link ::
  "enroll_env \<Rightarrow> string \<Rightarrow> principal \<Rightarrow> requester \<Rightarrow> string \<Rightarrow> string \<Rightarrow> enrollment \<Rightarrow> (contact_link \<times> int \<times> enrollment) contact_result"
where
  "recipient_link e hh pr m operation reference s =
     rbind (link_of (et_tables s) reference) (\<lambda>l.
     rbind (require (lk_kind l = App_link \<and> addressed l hh (member_id m) \<and> lk_status l \<in> {Link_active, Link_confirmed})) (\<lambda>_.
     rbind (grant_enroll e hh pr operation (lk_id l) s) (\<lambda>(n, s1). Inr (l, n, s1))))"

definition withdraw_link :: "enroll_env \<Rightarrow> string \<Rightarrow> principal \<Rightarrow> requester \<Rightarrow> string \<Rightarrow> enrollment \<Rightarrow> enrollment contact_result" where
  "withdraw_link e hh pr m reference s =
     rbind (recipient_link e hh pr m ''withdraw'' reference s) (\<lambda>(l, n, s1).
       Inr (change_links (update_link (lk_id l) (\<lambda>v. v\<lparr>lk_status := Link_revoked,
         lk_proof := dict_set ''recipient_decision_seq'' (PInt n) (lk_proof l)\<rparr>)) s1))"

definition give_phone :: "enroll_env \<Rightarrow> string \<Rightarrow> principal \<Rightarrow> requester \<Rightarrow> string \<Rightarrow> string \<Rightarrow> enrollment \<Rightarrow> enrollment contact_result" where
  "give_phone e hh pr m reference tel s =
     rbind (recipient_link e hh pr m ''phone'' reference s) (\<lambda>(l, n, s1).
     rbind (contact_of (phone tel)) (\<lambda>ph.
       Inr (change_links (update_link (lk_id l) (\<lambda>v. v\<lparr>lk_proof :=
         dict_set ''phone_provenance'' (PStr ''contact-confirmed'')
           (dict_set ''phone_hash'' (PStr (ce_digest (ee_env e) (PStr ph)))
             (dict_set ''recipient_decision_seq'' (PInt n) (lk_proof l)))\<rparr>)) s1)))"

section \<open>The owner's operations\<close>

definition set_word :: "enroll_env \<Rightarrow> string \<Rightarrow> principal \<Rightarrow> string \<Rightarrow> string \<Rightarrow> enrollment \<Rightarrow> enrollment contact_result" where
  "set_word e hh pr c w s =
     rbind (contact_of (ee_hash e w)) (\<lambda>hashed.
     rbind (grant_enroll e hh pr ''word'' c s) (\<lambda>(n, s1).
     let fresh_secret = \<lparr>sc_home = hh, sc_contact = c, sc_word = Some hashed, sc_guesses = [], sc_seq = n\<rparr>;
         mine = (\<lambda>x. sc_home x = hh \<and> sc_contact x = c) in
       Inr (s1\<lparr>et_secrets := (if list_ex mine (et_secrets s1) then map (\<lambda>x. if mine x then fresh_secret else x) (et_secrets s1)
         else et_secrets s1 @ [fresh_secret])\<rparr>)))"

definition invited_link :: "enroll_env \<Rightarrow> string \<Rightarrow> principal \<Rightarrow> string \<Rightarrow> string \<Rightarrow> link_kind \<Rightarrow> int \<Rightarrow> contact_link" where
  "invited_link e hh pr m c k n =
     \<lparr>lk_id = ee_reference e, lk_home = hh, lk_contact = c, lk_owner = m, lk_kind = k, lk_status = Link_pending,
      lk_token = ce_digest (ee_env e) (PStr (ee_token e)), lk_sealed = (k = Email_link), lk_recipient = None,
      lk_proof = [(''requester'', ee_requester e pr)], lk_attempts = 0, lk_next = None, lk_created = ce_wall (ee_env e),
      lk_expires = ce_wall (ee_env e) + minutes (if k = Email_link then 15 else 1440), lk_seq = n\<rparr>"

definition invite :: "enroll_env \<Rightarrow> string \<Rightarrow> principal \<Rightarrow> requester \<Rightarrow> string \<Rightarrow> link_kind \<Rightarrow> string \<Rightarrow> enrollment \<Rightarrow> enrollment contact_result" where
  "invite e hh pr m c k destination s =
     rbind (if k = Email_link then contact_of (email destination) else Inr []) (\<lambda>_.
     rbind (grant_enroll e hh pr ''invite'' (ee_reference e) s) (\<lambda>(n, s1).
     rbind (need (member_id m)) (\<lambda>i.
     rbind (require (\<forall>l \<in> set (ct_links (et_tables s1)). lk_id l \<noteq> ee_reference e \<and> lk_token l \<noteq> ce_digest (ee_env e) (PStr (ee_token e)))) (\<lambda>_.
       Inr (change_links (\<lambda>t. t\<lparr>ct_links := ct_links t @ [invited_link e hh pr i c k n]\<rparr>) s1)))))"

text \<open>The recipient is still an owner or adult with a passkey and a linked account.\<close>

definition recipient_eligible :: "contact_tables \<Rightarrow> contact_link \<Rightarrow> unit contact_result" where
  "recipient_eligible t l =
     (case lk_recipient l of
        None \<Rightarrow> Inl (Failed ValueError)
      | Some (rh, rm) \<Rightarrow>
          rbind (house_of t rh) (\<lambda>h.
          rbind (require (list_ex (\<lambda>(i, r). i = rm \<and> r \<in> {Owner, Adult}) (roster h) \<and>
            list_ex (\<lambda>(i, _, revoked). i = rm \<and> \<not> revoked) (passkeys h))) (\<lambda>_.
          rbind (account_of h rm) (\<lambda>_. Inr ()))))"

text \<open>The confirmed link takes the place of the active one.\<close>

definition activated :: "string \<Rightarrow> string \<Rightarrow> contact_link \<Rightarrow> int \<Rightarrow> contact_link \<Rightarrow> contact_link" where
  "activated hh c l n v =
     (if lk_id v = lk_id l then v\<lparr>lk_status := Link_active, lk_seq := n\<rparr>
      else if lk_home v = hh \<and> lk_contact v = c \<and> lk_kind v = lk_kind l \<and> lk_status v = Link_active
      then v\<lparr>lk_status := Link_revoked, lk_seq := n\<rparr> else v)"

definition put_channel :: "channel_row \<Rightarrow> channel_row list \<Rightarrow> channel_row list contact_result" where
  "put_channel x xs = rbind (require (\<forall>y \<in> set xs. ch_home y = ch_home x \<longrightarrow> ch_id y \<noteq> ch_id x)) (\<lambda>_. Inr (xs @ [x]))"

definition confirm_link :: "enroll_env \<Rightarrow> string \<Rightarrow> principal \<Rightarrow> string \<Rightarrow> contact_link \<Rightarrow> enrollment \<Rightarrow> enrollment contact_result" where
  "confirm_link e hh pr c l s =
     rbind (require (lk_status l = Link_confirmed \<and> ce_wall (ee_env e) < lk_expires l)) (\<lambda>_.
     rbind (if lk_kind l = App_link then recipient_eligible (et_tables s) l else Inr ()) (\<lambda>_.
     rbind (grant_enroll e hh pr ''confirm'' (lk_id l) s) (\<lambda>(n, s1).
     rbind (put_channel \<lparr>ch_home = hh, ch_id = lk_id l, ch_contact = c, ch_kind = (if lk_kind l = App_link then ''hirz_app'' else ''email'')\<rparr>
       (et_channels s1)) (\<lambda>cs.
       Inr ((change_links (\<lambda>t. t\<lparr>ct_links := map (activated hh c l n) (ct_links t)\<rparr>) s1)\<lparr>et_channels := cs\<rparr>)))))"

definition revoke_link :: "enroll_env \<Rightarrow> string \<Rightarrow> principal \<Rightarrow> contact_link \<Rightarrow> enrollment \<Rightarrow> enrollment contact_result" where
  "revoke_link e hh pr l s =
     rbind (grant_enroll e hh pr ''revoke'' (lk_id l) s) (\<lambda>(n, s1).
       Inr (change_links (update_link (lk_id l) (\<lambda>v. v\<lparr>lk_status := Link_revoked, lk_seq := n\<rparr>)) s1))"

text \<open>A link of the selected contact of this household.\<close>

definition own_link :: "enrollment \<Rightarrow> string \<Rightarrow> string \<Rightarrow> string \<Rightarrow> contact_link contact_result" where
  "own_link s hh c reference =
     rbind (link_of (et_tables s) reference) (\<lambda>l.
     rbind (require (lk_home l = hh \<and> lk_contact l = c)) (\<lambda>_. Inr l))"

definition owned_contact :: "enrollment \<Rightarrow> string \<Rightarrow> requester \<Rightarrow> string \<Rightarrow> unit contact_result" where
  "owned_contact s hh m c =
     rbind (require (rq_role m = Owner)) (\<lambda>_.
     rbind (need (find (\<lambda>x. tc_home x = hh \<and> tc_id x = c) (et_contacts s))) (\<lambda>x. require (tc_person x)))"

definition enroll_member :: "enroll_env \<Rightarrow> string \<Rightarrow> principal \<Rightarrow> requester \<Rightarrow> enroll_op \<Rightarrow> enrollment \<Rightarrow> enrollment contact_result" where
  "enroll_member e hh pr m op s =
     (case op of
        Create_contact name relationship \<Rightarrow> create_contact e hh pr name relationship s
      | Accept_link token \<Rightarrow> rbind (require (rq_role m \<in> {Owner, Adult})) (\<lambda>_. accept_link e hh pr m token s)
      | Withdraw_link reference \<Rightarrow> rbind (require (rq_role m \<in> {Owner, Adult})) (\<lambda>_. withdraw_link e hh pr m reference s)
      | Give_phone reference tel \<Rightarrow> rbind (require (rq_role m \<in> {Owner, Adult})) (\<lambda>_. give_phone e hh pr m reference tel s)
      | Set_word c w \<Rightarrow> rbind (owned_contact s hh m c) (\<lambda>_. set_word e hh pr c w s)
      | Invite c k destination \<Rightarrow> rbind (owned_contact s hh m c) (\<lambda>_. invite e hh pr m c k destination s)
      | Confirm_link c reference \<Rightarrow> rbind (owned_contact s hh m c) (\<lambda>_. rbind (own_link s hh c reference) (\<lambda>l. confirm_link e hh pr c l s))
      | Revoke_link c reference \<Rightarrow> rbind (owned_contact s hh m c) (\<lambda>_. rbind (own_link s hh c reference) (\<lambda>l. revoke_link e hh pr l s)))"

text \<open>\<open>command\<close>: a fresh passkey that is still enrolled.\<close>

definition enroll :: "enroll_env \<Rightarrow> string \<Rightarrow> principal \<Rightarrow> enroll_op \<Rightarrow> enrollment \<Rightarrow> enrollment contact_result" where
  "enroll e hh pr op s =
     rbind (house_of (et_tables s) hh) (\<lambda>h.
     rbind (contact_of (resolve_member h pr)) (\<lambda>m.
     rbind (contact_of (bound_passkey h pr)) (\<lambda>current.
     rbind (require current) (\<lambda>_. enroll_member e hh pr m op s))))"

section \<open>Guesses\<close>

datatype guess_reply = Limited | Answered bool

definition recent_guesses :: "int \<Rightarrow> int list \<Rightarrow> int list" where
  "recent_guesses now xs = filter (\<lambda>x. now - minutes 15 < x) xs"

text \<open>The contact of the member's own case, and its stored word.\<close>

definition guess_secret :: "enrollment \<Rightarrow> string \<Rightarrow> requester \<Rightarrow> string \<Rightarrow> (string \<times> secret_row \<times> pv) contact_result" where
  "guess_secret s hh m i =
     rbind (need (find (\<lambda>c. cs_id c = i \<and> cs_home c = hh \<and> Some (cs_member c) = member_id m) (ct_cases (et_tables s)))) (\<lambda>c.
     rbind (require (cs_person c)) (\<lambda>_.
     rbind (need (cs_contact c)) (\<lambda>k.
     rbind (need (find (\<lambda>x. tc_home x = hh \<and> tc_id x = k) (et_contacts s))) (\<lambda>x.
     rbind (require (tc_person x)) (\<lambda>_.
     rbind (need (find (\<lambda>x. sc_home x = hh \<and> sc_contact x = k) (et_secrets s))) (\<lambda>x.
     rbind (need (sc_word x)) (\<lambda>w. Inr (k, x, w))))))))"

definition guess_word :: "enroll_env \<Rightarrow> string \<Rightarrow> principal \<Rightarrow> string \<Rightarrow> string \<Rightarrow> enrollment \<Rightarrow> (string \<times> guess_reply \<times> enrollment) contact_result" where
  "guess_word e hh pr i word s =
     rbind (house_of (et_tables s) hh) (\<lambda>h.
     rbind (contact_of (resolve_member h pr)) (\<lambda>m.
     rbind (guess_secret s hh m i) (\<lambda>(k, x, w).
     let now = ce_wall (ee_env e); recent = recent_guesses now (sc_guesses x) in
     if 5 \<le> length recent then Inr (k, Limited, s)
     else
       rbind (grant_enroll e hh pr ''guess'' i s) (\<lambda>(n, s1).
         Inr (k, Answered (case ee_check e word w of Inr b \<Rightarrow> b | Inl _ \<Rightarrow> False),
           s1\<lparr>et_secrets := map (\<lambda>y. if sc_home y = hh \<and> sc_contact y = k then y\<lparr>sc_guesses := recent @ [now], sc_seq := n\<rparr> else y)
             (et_secrets s1)\<rparr>)))))"

end
