(* ===== verification/Enrollment_Laws.thy ===== *)
theory Enrollment_Laws
  imports Enrollment Checkin_Laws
begin

text \<open>
  What \<open>Enrollment\<close> promises: a contact has one active link of each kind; a link to another person's app is
  active only after a person of another household accepted it; and at most five guesses of a safe word
  are answered in any fifteen minutes. The locale \<open>machine\<close> is interpreted on the steps of enrollments.
\<close>

section \<open>Links\<close>

definition link_ok :: "contact_link \<Rightarrow> bool" where
  "link_ok l \<longleftrightarrow> (lk_kind l = App_link \<and> lk_status l \<in> {Link_confirmed, Link_active} \<longrightarrow>
     (\<exists>rh rm. lk_recipient l = Some (rh, rm) \<and> rh \<noteq> lk_home l))"

definition same_place :: "contact_link \<Rightarrow> contact_link \<Rightarrow> bool" where
  "same_place l v \<longleftrightarrow> lk_home v = lk_home l \<and> lk_contact v = lk_contact l \<and> lk_kind v = lk_kind l"

definition one_active :: "contact_link list \<Rightarrow> bool" where
  "one_active ls \<longleftrightarrow> (\<forall>l \<in> set ls. \<forall>v \<in> set ls. lk_status l = Link_active \<longrightarrow> lk_status v = Link_active \<longrightarrow> same_place l v \<longrightarrow> lk_id v = lk_id l)"

definition links_ok :: "contact_link list \<Rightarrow> bool" where
  "links_ok ls \<longleftrightarrow> distinct (map lk_id ls) \<and> (\<forall>l \<in> set ls. link_ok l) \<and> one_active ls"

text \<open>A change that activates nothing: identifier and place stay, an active link was active.\<close>

definition calm :: "contact_link \<Rightarrow> contact_link \<Rightarrow> bool" where
  "calm l v \<longleftrightarrow> lk_id v = lk_id l \<and> same_place l v \<and> (lk_status v = Link_active \<longrightarrow> lk_status l = Link_active) \<and> (link_ok l \<longrightarrow> link_ok v)"

lemma same_place_simps: "same_place l l" "same_place l v \<Longrightarrow> same_place v l" "same_place l v \<Longrightarrow> same_place v w \<Longrightarrow> same_place l w"
  by (simp_all add: same_place_def)

lemma calm_refl: "calm l l"
  by (simp add: calm_def same_place_simps)

lemma calm_ids: "list_all2 calm ls vs \<Longrightarrow> map lk_id vs = map lk_id ls"
  by (induction rule: list_all2_induct) (simp_all add: calm_def)

lemma calm_member: "list_all2 calm ls vs \<Longrightarrow> v \<in> set vs \<Longrightarrow> \<exists>l \<in> set ls. calm l v"
  by (metis in_set_conv_nth list_all2_conv_all_nth)

lemma calm_links:
  assumes "links_ok ls" and "list_all2 calm ls vs"
  shows "links_ok vs"
proof -
  have "link_ok v" if "v \<in> set vs" for v
    using calm_member [OF assms(2) that] assms(1) by (auto simp: links_ok_def calm_def)
  moreover have "lk_id v' = lk_id v"
    if v: "v \<in> set vs" "v' \<in> set vs" "lk_status v = Link_active" "lk_status v' = Link_active" and p: "same_place v v'" for v v'
  proof -
    from calm_member [OF assms(2) v(1)] calm_member [OF assms(2) v(2)] obtain l l' where
      l: "l \<in> set ls" "l' \<in> set ls" "calm l v" "calm l' v'" by blast
    then have "lk_status l = Link_active" "lk_status l' = Link_active" using v by (simp_all add: calm_def)
    moreover have "same_place l l'" using l p unfolding calm_def same_place_def by metis
    ultimately have "lk_id l' = lk_id l" using assms(1) l by (simp add: links_ok_def one_active_def)
    then show ?thesis using l by (simp add: calm_def)
  qed
  ultimately show ?thesis using assms calm_ids [OF assms(2)] by (simp add: links_ok_def one_active_def)
qed

lemma update_calm:
  assumes "\<And>l. l \<in> set (ct_links t) \<Longrightarrow> lk_id l = i \<Longrightarrow> calm l (f l)"
  shows "list_all2 calm (ct_links t) (ct_links (update_link i f t))"
  using assms by (simp add: update_link_def list_all2_map2 list_all2_same calm_refl)

section \<open>Operations\<close>

definition enrolled :: "enrollment \<Rightarrow> contact_link list" where
  "enrolled s = ct_links (et_tables s)"

lemma grant_enroll_links:
  assumes "grant_enroll e hh pr operation r s = Inr (n, u)"
  shows "enrolled u = enrolled s \<and> et_secrets u = et_secrets s"
  using assms unfolding grant_enroll_def enrolled_def by (auto elim!: rbind_InrE dest!: contact_grant_rows simp: same_rows_def)

lemma found_link: "find P ls = Some l \<Longrightarrow> l \<in> set ls \<and> P l"
  by (rule Tables.find_Some_iff)

lemma found_row: "find P xs = Some x \<Longrightarrow> x \<in> set xs \<and> P x"
  by (rule Tables.find_Some_iff)

lemma need_Some: "need x = Inr v \<Longrightarrow> x = Some v"
  by (cases x) (simp_all add: need_def of_opt_def)

lemma require_True: "require b = Inr u \<Longrightarrow> b"
  by (auto simp: require_def guard_Inr_iff)

lemma unique_link: "links_ok ls \<Longrightarrow> l \<in> set ls \<Longrightarrow> v \<in> set ls \<Longrightarrow> lk_id v = lk_id l \<Longrightarrow> v = l"
  by (auto simp: links_ok_def distinct_map dest: inj_onD)

lemma change_links_enrolled: "enrolled (change_links f s) = ct_links (f (et_tables s))"
  by (simp add: enrolled_def change_links_def)

lemma accept_ok:
  assumes ok: "links_ok (enrolled s)" and a: "accept_link e hh pr m tok s = Inr u"
  shows "links_ok (enrolled u)"
proof -
  from a obtain l n s1 i where l: "l \<in> set (enrolled s)" and h: "lk_home l \<noteq> hh" and g: "grant_enroll e hh pr ''accept'' (lk_id l) s = Inr (n, s1)"
    and u: "u = change_links (update_link (lk_id l) (accepted_link e hh i n)) s1"
    unfolding accept_link_def by (auto elim!: rbind_InrE dest!: need_Some require_True found_link simp: enrolled_def)
  note e = grant_enroll_links [OF g, THEN conjunct1]
  have "calm v (accepted_link e hh i n v)" if "v \<in> set (enrolled s1)" "lk_id v = lk_id l" for v
  proof -
    have "v = l" using unique_link [OF ok l] that e by simp
    then show ?thesis using h by (simp add: calm_def accepted_link_def same_place_def link_ok_def)
  qed
  then have "list_all2 calm (enrolled s) (enrolled u)"
    unfolding u change_links_enrolled e [symmetric] unfolding enrolled_def by (rule update_calm)
  with ok show ?thesis by (rule calm_links)
qed

lemma calm_update_ok:
  assumes ok: "links_ok (enrolled s)" and e: "enrolled s1 = enrolled s" and u: "u = change_links (update_link i f) s1"
    and c: "\<And>v. calm v (f v)"
  shows "links_ok (enrolled u)"
proof -
  have "list_all2 calm (enrolled s) (enrolled u)"
    unfolding u change_links_enrolled e [symmetric] unfolding enrolled_def by (rule update_calm) (rule c)
  with ok show ?thesis by (rule calm_links)
qed

lemma recipient_linkE:
  assumes "recipient_link e hh pr m operation r s = Inr (l, n, s1)"
  shows "enrolled s1 = enrolled s"
  using assms unfolding recipient_link_def by (auto elim!: rbind_InrE dest: grant_enroll_links)

lemma withdraw_ok:
  assumes "links_ok (enrolled s)" and w: "withdraw_link e hh pr m r s = Inr u"
  shows "links_ok (enrolled u)"
proof -
  from w obtain l n s1 where g: "recipient_link e hh pr m ''withdraw'' r s = Inr (l, n, s1)"
    and u: "u = change_links (update_link (lk_id l) (\<lambda>v. v\<lparr>lk_status := Link_revoked,
         lk_proof := dict_set ''recipient_decision_seq'' (PInt n) (lk_proof l)\<rparr>)) s1"
    unfolding withdraw_link_def by (auto elim!: rbind_InrE)
  show ?thesis
    by (rule calm_update_ok [OF assms(1) recipient_linkE [OF g] u]) (simp add: calm_def same_place_def link_ok_def)
qed

lemma phone_ok:
  assumes "links_ok (enrolled s)" and w: "give_phone e hh pr m r tel s = Inr u"
  shows "links_ok (enrolled u)"
proof -
  from w obtain l n s1 pf where g: "recipient_link e hh pr m ''phone'' r s = Inr (l, n, s1)"
    and u: "u = change_links (update_link (lk_id l) (\<lambda>v. v\<lparr>lk_proof := pf\<rparr>)) s1"
    unfolding give_phone_def by (auto elim!: rbind_InrE)
  show ?thesis
    by (rule calm_update_ok [OF assms(1) recipient_linkE [OF g] u]) (simp add: calm_def same_place_def link_ok_def)
qed

lemma revoke_ok:
  assumes "links_ok (enrolled s)" and w: "revoke_link e hh pr l s = Inr u"
  shows "links_ok (enrolled u)"
proof -
  from w obtain n s1 where g: "grant_enroll e hh pr ''revoke'' (lk_id l) s = Inr (n, s1)"
    and u: "u = change_links (update_link (lk_id l) (\<lambda>v. v\<lparr>lk_status := Link_revoked, lk_seq := n\<rparr>)) s1"
    unfolding revoke_link_def by (auto elim!: rbind_InrE)
  show ?thesis
    by (rule calm_update_ok [OF assms(1) grant_enroll_links [OF g, THEN conjunct1] u]) (simp add: calm_def same_place_def link_ok_def)
qed

lemma pending_ok:
  assumes "links_ok ls" and "\<forall>l \<in> set ls. lk_id l \<noteq> lk_id x" and "lk_status x = Link_pending"
  shows "links_ok (ls @ [x])"
proof -
  have "link_ok x" using assms(3) by (simp add: link_ok_def)
  moreover have "one_active (ls @ [x])" using assms(1,3) by (auto simp: links_ok_def one_active_def)
  moreover have "lk_id x \<notin> lk_id ` set ls" using assms(2) by auto
  ultimately show ?thesis using assms(1) by (simp add: links_ok_def)
qed

lemma invite_ok:
  assumes ok: "links_ok (enrolled s)" and w: "invite e hh pr m c k d s = Inr u"
  shows "links_ok (enrolled u)"
proof -
  from w obtain n s1 i where g: "grant_enroll e hh pr ''invite'' (ee_reference e) s = Inr (n, s1)"
    and f: "\<forall>l \<in> set (enrolled s1). lk_id l \<noteq> ee_reference e \<and> lk_token l \<noteq> ce_digest (ee_env e) (PStr (ee_token e))"
    and u: "u = change_links (\<lambda>t. t\<lparr>ct_links := ct_links t @ [invited_link e hh pr i c k n]\<rparr>) s1"
    unfolding invite_def by (auto elim!: rbind_InrE dest!: require_True simp: enrolled_def)
  have "enrolled u = enrolled s @ [invited_link e hh pr i c k n]"
    using grant_enroll_links [OF g] by (simp add: u change_links_def enrolled_def)
  moreover have "\<forall>l \<in> set (enrolled s). lk_id l \<noteq> ee_reference e" using f grant_enroll_links [OF g] by simp
  ultimately show ?thesis using pending_ok [OF ok, of "invited_link e hh pr i c k n"] by (simp add: invited_link_def)
qed

lemma confirm_ok:
  assumes ok: "links_ok (enrolled s)" and l: "l \<in> set (enrolled s)" "lk_home l = hh" "lk_contact l = c"
    and w: "confirm_link e hh pr c l s = Inr u"
  shows "links_ok (enrolled u)"
proof -
  from w obtain n s1 where st: "lk_status l = Link_confirmed" and g: "grant_enroll e hh pr ''confirm'' (lk_id l) s = Inr (n, s1)"
    and u: "enrolled u = map (activated hh c l n) (enrolled s1)"
    unfolding confirm_link_def by (auto elim!: rbind_InrE dest!: require_True simp: enrolled_def change_links_def)
  then have u: "enrolled u = map (activated hh c l n) (enrolled s)" using grant_enroll_links [OF g] by simp
  have same: "lk_id (activated hh c l n v) = lk_id v" "same_place v (activated hh c l n v)" for v
    by (simp_all add: activated_def same_place_def)
  have only: "v = l \<or> lk_status v = Link_active \<and> \<not> same_place l v"
    if "v \<in> set (enrolled s)" "lk_status (activated hh c l n v) = Link_active" for v
    using that unique_link [OF ok l(1), of v] l(2,3) by (auto simp: activated_def same_place_def split: if_split_asm)
  have "link_ok (activated hh c l n v)" if "v \<in> set (enrolled s)" for v
  proof -
    have "link_ok v" and "link_ok l" using ok l(1) that by (simp_all add: links_ok_def)
    then show ?thesis using unique_link [OF ok l(1) that] st by (auto simp: activated_def link_ok_def)
  qed
  moreover have "lk_id v' = lk_id v"
    if v: "v \<in> set (enrolled s)" "v' \<in> set (enrolled s)" "lk_status (activated hh c l n v) = Link_active" "lk_status (activated hh c l n v') = Link_active"
      and p: "same_place (activated hh c l n v) (activated hh c l n v')" for v v'
  proof -
    have p: "same_place v v'" using p same(2) [of v] same(2) [of v'] by (meson same_place_simps)
    from only [OF v(1,3)] only [OF v(2,4)] p show ?thesis
    proof (elim disjE)
      assume "lk_status v = Link_active \<and> \<not> same_place l v" "lk_status v' = Link_active \<and> \<not> same_place l v'"
      then show ?thesis using ok v p by (simp add: links_ok_def one_active_def)
    qed (auto dest: same_place_simps(2) intro: same_place_simps)
  qed
  moreover have "distinct (map lk_id (enrolled u))" using ok same(1) by (simp add: u links_ok_def comp_def)
  ultimately show ?thesis by (auto simp: u links_ok_def one_active_def same(1))
qed

lemma enroll_ok:
  assumes ok: "links_ok (enrolled s)" and e: "enroll e hh pr op s = Inr u"
  shows "links_ok (enrolled u)"
proof -
  from e obtain m where m: "enroll_member e hh pr m op s = Inr u" unfolding enroll_def by (auto elim!: rbind_InrE)
  show ?thesis
  proof (cases op)
    case (Create_contact a b)
    with m have "enrolled u = enrolled s"
      unfolding enroll_member_def create_contact_def by (auto elim!: rbind_InrE dest!: grant_enroll_links simp: enrolled_def)
    with ok show ?thesis by simp
  next
    case (Accept_link a)
    with m show ?thesis unfolding enroll_member_def by (auto elim!: rbind_InrE intro: accept_ok [OF ok])
  next
    case (Withdraw_link a)
    with m show ?thesis unfolding enroll_member_def by (auto elim!: rbind_InrE intro: withdraw_ok [OF ok])
  next
    case (Give_phone a b)
    with m show ?thesis unfolding enroll_member_def by (auto elim!: rbind_InrE intro: phone_ok [OF ok])
  next
    case (Set_word a b)
    with m have "enrolled u = enrolled s"
      unfolding enroll_member_def set_word_def Let_def by (auto elim!: rbind_InrE dest!: grant_enroll_links simp: enrolled_def)
    with ok show ?thesis by simp
  next
    case (Invite a b c)
    with m show ?thesis unfolding enroll_member_def by (auto elim!: rbind_InrE intro: invite_ok [OF ok])
  next
    case (Confirm_link c r)
    with m obtain l where "own_link s hh c r = Inr l" and w: "confirm_link e hh pr c l s = Inr u"
      unfolding enroll_member_def by (auto elim!: rbind_InrE)
    then have "l \<in> set (enrolled s)" "lk_home l = hh" "lk_contact l = c"
      unfolding own_link_def link_of_def enrolled_def by (auto elim!: rbind_InrE dest!: need_Some require_True found_link)
    from confirm_ok [OF ok this w] show ?thesis .
  next
    case (Revoke_link a b)
    with m show ?thesis unfolding enroll_member_def by (auto elim!: rbind_InrE intro: revoke_ok [OF ok])
  qed
qed

section \<open>Steps\<close>

text \<open>A command of a member, a guess, and what the check-ins do to links: they count attempts and lower states.\<close>

inductive enroll_step :: "enrollment \<Rightarrow> enrollment \<Rightarrow> bool" where
  commanded: "enroll_step s u" if "enroll e hh pr op s = Inr u"
| guessed: "enroll_step s u" if "guess_word e hh pr i w s = Inr (k, r, u)"
| elsewhere: "enroll_step s (s\<lparr>et_tables := t\<rparr>)" if "list_all2 calm (enrolled s) (ct_links t)"

inductive_cases enroll_stepE: "enroll_step s u"

lemma guess_wordE:
  assumes "guess_word e hh pr i w s = Inr (k, r, u)"
  obtains "r = Limited" and "u = s"
  | x n s1 where "find (\<lambda>x. sc_home x = hh \<and> sc_contact x = k) (et_secrets s) = Some x"
    and "length (recent_guesses (ce_wall (ee_env e)) (sc_guesses x)) < 5"
    and "enrolled s1 = enrolled s" and "et_secrets s1 = et_secrets s"
    and "u = s1\<lparr>et_secrets := map (\<lambda>y. if sc_home y = hh \<and> sc_contact y = k
        then y\<lparr>sc_guesses := recent_guesses (ce_wall (ee_env e)) (sc_guesses x) @ [ce_wall (ee_env e)], sc_seq := n\<rparr> else y) (et_secrets s1)\<rparr>" and "r \<noteq> Limited"
proof -
  from assms obtain m x v where g: "guess_secret s hh m i = Inr (k, x, v)"
    and r: "(if 5 \<le> length (recent_guesses (ce_wall (ee_env e)) (sc_guesses x)) then Inr (k, Limited, s)
     else rbind (grant_enroll e hh pr ''guess'' i s) (\<lambda>(n, s1).
         Inr (k, Answered (case ee_check e w v of Inr b \<Rightarrow> b | Inl _ \<Rightarrow> False),
           s1\<lparr>et_secrets := map (\<lambda>y. if sc_home y = hh \<and> sc_contact y = k then y\<lparr>sc_guesses := recent_guesses (ce_wall (ee_env e)) (sc_guesses x) @ [ce_wall (ee_env e)], sc_seq := n\<rparr> else y)
             (et_secrets s1)\<rparr>))) = Inr (k, r, u)"
    unfolding guess_word_def Let_def by (auto elim!: rbind_InrE split: if_split_asm)
  from g have f: "find (\<lambda>x. sc_home x = hh \<and> sc_contact x = k) (et_secrets s) = Some x"
    unfolding guess_secret_def by (auto elim!: rbind_InrE)
  show thesis
  proof (cases "5 \<le> length (recent_guesses (ce_wall (ee_env e)) (sc_guesses x))")
    case True
    with r show thesis by (intro that(1)) simp_all
  next
    case False
    with r obtain n s1 where gr: "grant_enroll e hh pr ''guess'' i s = Inr (n, s1)"
      and u: "u = s1\<lparr>et_secrets := map (\<lambda>y. if sc_home y = hh \<and> sc_contact y = k
        then y\<lparr>sc_guesses := recent_guesses (ce_wall (ee_env e)) (sc_guesses x) @ [ce_wall (ee_env e)], sc_seq := n\<rparr> else y) (et_secrets s1)\<rparr>"
      and r: "r \<noteq> Limited"
      by (auto elim!: rbind_InrE)
    from that(2) [OF f _ _ _ u r] grant_enroll_links [OF gr] False show thesis by simp
  qed
qed

lemma enroll_step_ok: "links_ok (enrolled s) \<Longrightarrow> enroll_step s u \<Longrightarrow> links_ok (enrolled u)"
proof (erule enroll_stepE)
  fix e hh pr op
  assume "links_ok (enrolled s)" "enroll e hh pr op s = Inr u"
  then show ?thesis by (rule enroll_ok)
next
  fix e hh pr i w k r
  assume "links_ok (enrolled s)" "guess_word e hh pr i w s = Inr (k, r, u)"
  then show ?thesis by (elim guess_wordE) (simp_all add: enrolled_def)
next
  fix t
  assume "links_ok (enrolled s)" "u = s\<lparr>et_tables := t\<rparr>" "list_all2 calm (enrolled s) (ct_links t)"
  then show ?thesis using calm_links by (simp add: enrolled_def)
qed

interpretation enrollment: machine enroll_step "\<lambda>s. links_ok (enrolled s)" "\<lambda>_ _. True"
  by unfold_locales (auto dest: enroll_step_ok)

section \<open>Guesses in a window\<close>

text \<open>
  A run with, as its list, the household, contact and instant of every answered guess of a word that is still stored:
  guesses that are answered or limited, commands of members in any order, and changes elsewhere that leave the
  stored words. Storing a new word of a contact starts anew for that contact. The clock does not go back between answers.
\<close>

definition replacing :: "string \<Rightarrow> enroll_op \<Rightarrow> string \<Rightarrow> string \<Rightarrow> bool" where
  "replacing hh op h k \<longleftrightarrow> (case op of Set_word c _ \<Rightarrow> h = hh \<and> k = c | _ \<Rightarrow> False)"

inductive guesses :: "enrollment \<Rightarrow> (string \<times> string \<times> int) list \<Rightarrow> enrollment \<Rightarrow> bool" where
  unasked: "guesses s [] s"
| asked: "guesses s (g @ [(hh, k, ce_wall (ee_env e))]) u" if "guesses s g t" and "guess_word e hh pr i w t = Inr (k, Answered b, u)"
    and "list_all (\<lambda>(_, _, a). a \<le> ce_wall (ee_env e)) g"
| limited: "guesses s g u" if "guesses s g t" and "guess_word e hh pr i w t = Inr (k, Limited, u)"
| commanded: "guesses s (filter (\<lambda>(h, k, _). \<not> replacing hh op h k) g) u" if "guesses s g t" and "enroll e hh pr op t = Inr u"
| elsewhere: "guesses s g u" if "guesses s g t" and "et_secrets u = et_secrets t"

lemma enroll_secrets:
  assumes "enroll e hh pr op s = Inr u" and "x \<in> set (et_secrets u)"
  shows "x \<in> set (et_secrets s) \<or> replacing hh op (sc_home x) (sc_contact x)"
proof -
  from assms(1) obtain m where m: "enroll_member e hh pr m op s = Inr u" unfolding enroll_def by (auto elim!: rbind_InrE)
  show ?thesis
  proof (cases op)
    case (Set_word c w)
    with m obtain n s1 h where g: "grant_enroll e hh pr ''word'' c s = Inr (n, s1)"
      and u: "et_secrets u = (let mine = (\<lambda>x. sc_home x = hh \<and> sc_contact x = c);
          row = \<lparr>sc_home = hh, sc_contact = c, sc_word = Some h, sc_guesses = [], sc_seq = n\<rparr> in
        if list_ex mine (et_secrets s1) then map (\<lambda>x. if mine x then row else x) (et_secrets s1) else et_secrets s1 @ [row])"
      unfolding enroll_member_def set_word_def Let_def by (auto elim!: rbind_InrE)
    from assms(2) grant_enroll_links [OF g] show ?thesis
      by (auto simp: u Let_def Set_word replacing_def split: if_split_asm)
  qed (use m assms(2) in \<open>auto simp: enroll_member_def create_contact_def accept_link_def withdraw_link_def give_phone_def recipient_link_def
    invite_def confirm_link_def revoke_link_def change_links_def elim!: rbind_InrE dest!: grant_enroll_links\<close>)
qed

definition answered :: "string \<Rightarrow> string \<Rightarrow> (string \<times> string \<times> int) list \<Rightarrow> int list" where
  "answered hh k g = map (\<lambda>(_, _, a). a) (filter (\<lambda>(h, c, _). h = hh \<and> c = k) g)"

lemma answered_filter: "answered h k (filter (\<lambda>(h, k, _). \<not> P h k) g) = (if P h k then [] else answered h k g)"
  unfolding answered_def filter_filter
  by (auto intro!: arg_cong [where f = "map _"] filter_cong simp: filter_empty_conv)

definition answers_in :: "int \<Rightarrow> int list \<Rightarrow> int list" where
  "answers_in c ts = filter (\<lambda>a. c < a \<and> a \<le> c + minutes 15) ts"

definition kept :: "(string \<times> string \<times> int) list \<Rightarrow> secret_row \<Rightarrow> bool" where
  "kept g x \<longleftrightarrow> (\<forall>c. list_all (\<lambda>a. a - minutes 15 \<le> c) (answered (sc_home x) (sc_contact x) g) \<longrightarrow>
     length (filter (\<lambda>a. c < a) (answered (sc_home x) (sc_contact x) g)) \<le> length (filter (\<lambda>a. c < a) (sc_guesses x)))"

lemma answered_snoc: "answered hh k (g @ [(h, c, a)]) = answered hh k g @ (if h = hh \<and> c = k then [a] else [])"
  by (simp add: answered_def)

lemma filter_recent: "now - minutes 15 \<le> c \<Longrightarrow> filter (\<lambda>a. c < a) (recent_guesses now xs) = filter (\<lambda>a. c < a) xs"
  by (induction xs) (auto simp: recent_guesses_def)

lemma answers_in_le: "length (answers_in c ts) \<le> length (filter (\<lambda>a. c < a) ts)"
  by (induction ts) (auto simp: answers_in_def)

lemma guesses_kept: "guesses s g u \<Longrightarrow> x \<in> set (et_secrets u) \<Longrightarrow> kept g x"
proof (induction arbitrary: x rule: guesses.induct)
  case (unasked s)
  then show ?case by (simp add: kept_def answered_def)
next
  case (asked s g t e hh pr i w k b u)
  let ?now = "ce_wall (ee_env e)"
  from asked.hyps(2) obtain y n s1 where y: "find (\<lambda>x. sc_home x = hh \<and> sc_contact x = k) (et_secrets t) = Some y"
    and s1: "et_secrets s1 = et_secrets t"
    and u: "u = s1\<lparr>et_secrets := map (\<lambda>z. if sc_home z = hh \<and> sc_contact z = k
        then z\<lparr>sc_guesses := recent_guesses ?now (sc_guesses y) @ [?now], sc_seq := n\<rparr> else z) (et_secrets s1)\<rparr>"
    by (rule guess_wordE) auto
  from found_row [OF y] have y: "y \<in> set (et_secrets t)" "sc_home y = hh" "sc_contact y = k" by simp_all
  from asked.prems obtain z where z: "z \<in> set (et_secrets t)"
    and x: "x = (if sc_home z = hh \<and> sc_contact z = k then z\<lparr>sc_guesses := recent_guesses ?now (sc_guesses y) @ [?now], sc_seq := n\<rparr> else z)"
    by (auto simp: u s1)
  show ?case
  proof (cases "sc_home z = hh \<and> sc_contact z = k")
    case True
    then show ?thesis using asked.IH [OF y(1)] y by (simp add: kept_def x answered_snoc filter_recent)
  next
    case False
    then show ?thesis using asked.IH [OF z] by (auto simp: kept_def x answered_snoc)
  qed
next
  case (limited s g t e hh pr i w k u)
  from limited.hyps(2) have "u = t" by (rule guess_wordE) auto
  with limited show ?case by simp
next
  case (commanded s g t e hh pr op u)
  show ?case
  proof (cases "replacing hh op (sc_home x) (sc_contact x)")
    case True
    then show ?thesis by (simp add: kept_def answered_filter)
  next
    case False
    with enroll_secrets [OF commanded.hyps(2) commanded.prems] have "kept g x" by (auto intro: commanded.IH)
    with False show ?thesis by (simp add: kept_def answered_filter)
  qed
next
  case elsewhere
  then show ?case by simp
qed

lemma guesses_bound: "guesses s g u \<Longrightarrow> length (answers_in c (answered h0 k0 g)) \<le> 5"
proof (induction rule: guesses.induct)
  case (unasked s)
  then show ?case by (simp add: answered_def answers_in_def)
next
  case (asked s g t e hh pr i w k b u)
  let ?now = "ce_wall (ee_env e)"
  show ?case
  proof (cases "hh = h0 \<and> k = k0 \<and> c < ?now \<and> ?now \<le> c + minutes 15")
    case True
    from asked.hyps(2) obtain y where y: "find (\<lambda>x. sc_home x = hh \<and> sc_contact x = k) (et_secrets t) = Some y"
      and few: "length (recent_guesses ?now (sc_guesses y)) < 5"
      by (rule guess_wordE) auto
    from found_row [OF y] have y: "y \<in> set (et_secrets t)" "sc_home y = hh" "sc_contact y = k" by simp_all
    have "list_all (\<lambda>a. a - minutes 15 \<le> c) (answered h0 k0 g)"
      using asked.hyps(3) True by (force simp: list_all_iff answered_def)
    then have "length (filter (\<lambda>a. c < a) (answered h0 k0 g)) \<le> length (filter (\<lambda>a. c < a) (sc_guesses y))"
      using guesses_kept [OF asked.hyps(1) y(1)] True y by (simp add: kept_def)
    also have "\<dots> = length (filter (\<lambda>a. c < a) (recent_guesses ?now (sc_guesses y)))"
      using True by (simp add: filter_recent)
    also have "\<dots> < 5" using few by (meson length_filter_le le_less_trans)
    finally have "length (answers_in c (answered h0 k0 g)) < 5"
      using answers_in_le [of c "answered h0 k0 g"] by simp
    then show ?thesis using True by (simp add: answered_snoc answers_in_def)
  next
    case False
    then show ?thesis using asked.IH by (auto simp: answered_snoc answers_in_def)
  qed
next
  case commanded
  then show ?case by (simp add: answered_filter answers_in_def)
qed simp_all

section \<open>Properties\<close>

definition owner_house :: house where
  "owner_house = lamp_house\<lparr>roster := [(''m1'', Owner)], passkeys := [(''m1'', ''key'', False)]\<rparr>"

definition owner_user :: principal where
  "owner_user = app_user\<lparr>passkey_verified := True, credential_id := Some ''key''\<rparr>"

definition word_env :: enroll_env where
  "word_env = \<lparr>ee_env = worker_env, ee_reference = ''l9'', ee_token = ''t'', ee_hash = (\<lambda>w. Inr (PStr w)),
     ee_check = (\<lambda>w v. Inr (v = PStr w)), ee_requester = (\<lambda>_. PNone)\<rparr>"

definition sister_home :: enrollment where
  "sister_home = \<lparr>et_tables = sister_tables\<lparr>ct_houses := [(''h'', owner_house)]\<rparr>,
     et_contacts = [\<lparr>tc_home = ''h'', tc_id = ''sister'', tc_person = True\<rparr>], et_channels = [],
     et_secrets = [\<lparr>sc_home = ''h'', sc_contact = ''sister'', sc_word = Some (PStr ''plum''), sc_guesses = [], sc_seq = 0\<rparr>]\<rparr>"

lemma word_guessed: "case guess_word word_env ''h'' owner_user ''c1'' ''plum'' sister_home of
    Inl _ \<Rightarrow> False | Inr (k, r, u) \<Rightarrow> k = ''sister'' \<and> r = Answered True"
  by code_simp

lemma sister_invited: "case enroll word_env ''h'' owner_user (Invite ''sister'' App_link []) sister_home of
    Inl _ \<Rightarrow> False | Inr u \<Rightarrow> length (enrolled u) = 2"
  by code_simp

text \<open>C23: (Contacts, \<open>command\<close>) from links that already are so, whatever members command and guess, and whatever a
  check-in does to links in between, an app link that was accepted (\<open>confirmed\<close>) or is active belongs to a person of a household
  other than its own, and an active link is the only active one of its contact and kind.\<close>

theorem one_confirmed_link:
  assumes "links_ok (enrolled s)" and "enroll_step\<^sup>*\<^sup>* s u"
    and "l \<in> set (enrolled u)" and "lk_status l \<in> {Link_confirmed, Link_active}"
  shows "(lk_kind l = App_link \<longrightarrow> (\<exists>rh rm. lk_recipient l = Some (rh, rm) \<and> rh \<noteq> lk_home l)) \<and>
    (lk_status l = Link_active \<longrightarrow> (\<forall>v \<in> set (enrolled u). lk_status v = Link_active \<and> same_place l v \<longrightarrow> v = l))"
proof -
  have ok: "links_ok (enrolled u)" using enrollment.runs_inv [OF assms(2,1)] .
  then have "link_ok l" "one_active (enrolled u)" using assms(3) by (simp_all add: links_ok_def)
  with assms(3,4) unique_link [OF ok assms(3)] show ?thesis by (auto simp: link_ok_def one_active_def)
qed

theorem one_confirmed_link_witness:
  "\<exists>u. enroll word_env ''h'' owner_user (Invite ''sister'' App_link []) sister_home = Inr u \<and>
     (\<exists>rh rm. lk_recipient sister_link = Some (rh, rm) \<and> rh \<noteq> lk_home sister_link) \<and> sister_link \<in> set (enrolled u)"
proof -
  from sister_invited obtain u where e: "enroll word_env ''h'' owner_user (Invite ''sister'' App_link []) sister_home = Inr u"
    and n: "length (enrolled u) = 2" by (auto split: sum.split_asm)
  then have s: "enroll_step\<^sup>*\<^sup>* sister_home u" by (intro r_into_rtranclp enroll_step.commanded)
  have h: "enrolled sister_home = [sister_link]" by (simp add: enrolled_def sister_home_def sister_tables_def)
  have ok: "links_ok (enrolled sister_home)" by (simp add: h links_ok_def link_ok_def one_active_def sister_link_def)
  from e have "sister_link \<in> set (enrolled u)"
    unfolding enroll_def enroll_member_def invite_def
    by (auto elim!: rbind_InrE dest!: grant_enroll_links simp: change_links_def enrolled_def h [unfolded enrolled_def])
  with one_confirmed_link [OF ok s this] e show ?thesis by (auto simp: sister_link_def)
qed

text \<open>C24: (Contacts, \<open>guess_word\<close>, \<open>command\<close>) while a safe word stays stored, at most five guesses of it are answered in any
  fifteen minutes: with guesses of any contacts, answered or limited, any commands of members and any changes elsewhere that leave the
  stored words in between; provided the clock does not go back from one answered guess to the next.\<close>

theorem guesses_limited:
  assumes "guesses s g u"
  shows "length (answers_in c (answered hh k g)) \<le> 5"
  using assms by (rule guesses_bound)

theorem guesses_limited_witness:
  "\<exists>u. guess_word word_env ''h'' owner_user ''c1'' ''plum'' sister_home = Inr (''sister'', Answered True, u) \<and>
     length (answers_in 0 (answered ''h'' ''sister'' [(''h'', ''sister'', ce_wall (ee_env word_env))])) \<le> 5"
proof -
  from word_guessed obtain u where w: "guess_word word_env ''h'' owner_user ''c1'' ''plum'' sister_home = Inr (''sister'', Answered True, u)"
    by (auto split: sum.split_asm)
  from guesses.asked [OF guesses.unasked w] have "guesses sister_home [(''h'', ''sister'', ce_wall (ee_env word_env))] u" by simp
  from guesses_limited [OF this] w show ?thesis by blast
qed

end
