(* ===== verification/Link.thy ===== *)
theory Link
  imports Storage
begin

text \<open>
  The home's side of a command: \<open>hirz/link/command.py\<close>, actions signed for one home; \<open>hirz/link/store.py\<close>,
  the local journal that claims a command once and writes its ending down before anything moves;
  \<open>hirz/link/agent.py\<close>, which applies claimed commands and due endings. An instant is the number of its
  microseconds; the fixed timestamp format of the journal orders like the instants. The journal's
  write transactions are steps; a receipt's random identifier is left out.
\<close>

section \<open>Python equality of JSON values\<close>

text \<open>Numbers by value, lists by position, dictionaries whatever the order of their keys.\<close>

function (sequential) json_eq :: "pv \<Rightarrow> pv \<Rightarrow> bool" where
  "json_eq (PList xs) (PList ys) \<longleftrightarrow> length xs = length ys \<and> (\<forall>(x, y) \<in> set (zip xs ys). json_eq x y)"
| "json_eq (PDict xs) (PDict ys) \<longleftrightarrow> fst ` set xs = fst ` set ys \<and>
     (\<forall>k \<in> fst ` set xs. case map_of xs k of None \<Rightarrow> True
        | Some x \<Rightarrow> (case map_of ys k of None \<Rightarrow> False | Some y \<Rightarrow> json_eq x y))"
| "json_eq x y \<longleftrightarrow> py_eq x y"
  by pat_completeness auto

termination
proof (relation "measure (\<lambda>(x, y). size x)")
  show "wf (measure (\<lambda>(x :: pv, y :: pv). size x))" by simp
next
  fix xs ys :: "pv list" and p :: "pv \<times> pv" and x y :: pv
  assume "p \<in> set (zip xs ys)" "(x, y) = p"
  then have "x \<in> set xs" by (auto dest: set_zip_leftD)
  from size_list_estimation' [OF this order_refl, of size] show "((x, y), PList xs, PList ys) \<in> measure (\<lambda>(x, y). size x)" by simp
next
  fix xs ys :: pdict and k :: string and x y :: pv
  assume "map_of xs k = Some x"
  then have "(k, x) \<in> set xs" by (rule map_of_SomeD)
  from size_list_estimation' [OF this, of "size x" "size_prod (\<lambda>_. 0) size"]
  show "((x, y), PDict xs, PDict ys) \<in> measure (\<lambda>(x, y). size x)" by simp
qed

section \<open>Signed commands\<close>

record command =
  cmd_home :: string
  cmd_action :: action
  cmd_issued :: int
  cmd_expires :: int
  cmd_nonce :: string

record envelope =
  en_command :: command
  en_signature :: string

text \<open>An untrusted value: of the wrong shape, or the fields of an envelope.\<close>

datatype wire_value = Malformed | Parsed envelope

datatype link_exn = Link_rejected string | Link_failed exn | Link_stopped

type_synonym 'a link_result = "link_exn + 'a"

fun link_of_result :: "'a result \<Rightarrow> 'a link_result" where
  "link_of_result (Inl e) = Inl (Link_failed e)"
| "link_of_result (Inr x) = Inr x"

text \<open>
  What the link runs with: the digest and the product of \<open>Contracts\<close>, the home's signature scheme
  (\<open>li_verify message signature\<close>: base64 and ECDSA under the pinned key; \<open>li_sign\<close>: the signer's), and
  \<open>li_near\<close>: \<open>math.isclose\<close> on two numbers within 1e-6.
\<close>

record link_env =
  li_H :: "pv \<Rightarrow> string"
  li_secs :: "pv \<Rightarrow> pv"
  li_verify :: "string \<Rightarrow> string \<Rightarrow> bool"
  li_sign :: "string \<Rightarrow> string"
  li_near :: "pv \<Rightarrow> pv \<Rightarrow> bool"

definition minute :: int where "minute = 60 * us_per_second"

definition command_json :: "command \<Rightarrow> pv" where
  "command_json c = PDict [(''version'', PInt 1), (''home_id'', PStr (cmd_home c)), (''action'', action_json (cmd_action c)),
     (''issued_at'', PInt (cmd_issued c)), (''expires_at'', PInt (cmd_expires c)), (''nonce'', PStr (cmd_nonce c))]"

text \<open>The validator of \<open>Command\<close>.\<close>

definition command_contract :: "link_env \<Rightarrow> command \<Rightarrow> unit result" where
  "command_contract e c =
     rbind (validate (li_H e) (li_secs e) (cmd_action c)) (\<lambda>a.
     rbind (of_opt KeyError (map_of SUPPORTED (action_class a))) (\<lambda>(dm, _).
       guard ValueError (dm = ''devices'' \<and> 0 < cmd_expires c - cmd_issued c \<and> cmd_expires c - cmd_issued c \<le> minute)))"

definition command_message :: "link_env \<Rightarrow> command \<Rightarrow> string result" where
  "command_message e c = rbind (command_contract e c) (\<lambda>_. Inr (li_H e (command_json c)))"

definition sign_command :: "link_env \<Rightarrow> action \<Rightarrow> string \<Rightarrow> string \<Rightarrow> int \<Rightarrow> string \<Rightarrow> envelope link_result" where
  "sign_command e a0 home approved now nonce =
     rbind (link_of_result (validate (li_H e) (li_secs e) a0)) (\<lambda>a.
     rbind (guard (Link_rejected ''hash_mismatch'') (content_hash a = approved)) (\<lambda>_.
     let c = \<lparr>cmd_home = home, cmd_action = a, cmd_issued = now, cmd_expires = now + minute, cmd_nonce = nonce\<rparr> in
     rbind (link_of_result (command_message e c)) (\<lambda>msg.
     let signature = li_sign e msg in
     rbind (guard (Link_failed ValueError) (1 \<le> length signature \<and> length signature \<le> 128)) (\<lambda>_.
       Inr \<lparr>en_command = c, en_signature = signature\<rparr>))))"

definition envelope_ok :: "link_env \<Rightarrow> envelope \<Rightarrow> bool" where
  "envelope_ok e v \<longleftrightarrow> 1 \<le> length (en_signature v) \<and> length (en_signature v) \<le> 128 \<and>
     (case command_message e (en_command v) of Inl _ \<Rightarrow> False | Inr msg \<Rightarrow> li_verify e msg (en_signature v))"

definition authenticated :: "link_env \<Rightarrow> wire_value \<Rightarrow> envelope link_result" where
  "authenticated e value =
     (case value of
        Malformed \<Rightarrow> Inl (Link_rejected ''invalid_signature_or_command'')
      | Parsed v \<Rightarrow> if envelope_ok e v then Inr v else Inl (Link_rejected ''invalid_signature_or_command''))"

definition action_due :: "action \<Rightarrow> int \<Rightarrow> bool" where
  "action_due a now \<longleftrightarrow> \<not> is_expired a now \<and> (case scheduled_for a of None \<Rightarrow> True | Some t \<Rightarrow> t \<le> now)"

definition verify_command :: "link_env \<Rightarrow> string \<Rightarrow> int \<Rightarrow> wire_value \<Rightarrow> envelope link_result" where
  "verify_command e home now value =
     rbind (authenticated e value) (\<lambda>v.
     let c = en_command v in
     rbind (guard (Link_rejected ''wrong_home'') (cmd_home c = home)) (\<lambda>_.
     rbind (guard (Link_rejected ''expired_or_future_command'') (cmd_issued c \<le> now \<and> now < cmd_expires c)) (\<lambda>_.
     rbind (guard (Link_rejected ''action_not_due_or_expired'') (action_due (cmd_action c) now)) (\<lambda>_. Inr v))))"

section \<open>The journal\<close>

record link_row =
  lr_nonce :: string
  lr_action :: string
  lr_hash :: string
  lr_target :: string
  lr_envelope :: envelope
  lr_accepted :: int
  lr_due :: "int option"
  lr_done :: bool
  lr_outcome :: "string option"

record link_receipt =
  lt_at :: int
  lt_event :: event_type
  lt_payload :: pdict

record journal =
  jn_version :: string
  jn_home :: string
  jn_key :: string
  jn_last :: "int option"
  jn_rows :: "link_row list"
  jn_receipts :: "link_receipt list"

definition initialize_journal :: "string \<Rightarrow> string \<Rightarrow> journal" where
  "initialize_journal home key = \<lparr>jn_version = ''1'', jn_home = home, jn_key = key, jn_last = None, jn_rows = [], jn_receipts = []\<rparr>"

definition open_journal :: "string \<Rightarrow> string \<Rightarrow> journal \<Rightarrow> journal link_result" where
  "open_journal home key s =
     rbind (guard (Link_failed ValueError) (jn_version s = ''1'' \<and> jn_home s = home \<and> jn_key s = key)) (\<lambda>_. Inr s)"

definition add_receipt :: "event_type \<Rightarrow> int \<Rightarrow> pdict \<Rightarrow> journal \<Rightarrow> journal" where
  "add_receipt ev now payload s = s\<lparr>jn_receipts := jn_receipts s @ [\<lparr>lt_at = now, lt_event = ev, lt_payload = payload\<rparr>]\<rparr>"

definition moved_back :: "journal \<Rightarrow> int \<Rightarrow> bool" where
  "moved_back s now \<longleftrightarrow> (case jn_last s of None \<Rightarrow> False | Some t \<Rightarrow> now < t)"

definition day :: int where "day = 24 * 60 * minute"

definition already_claimed :: "journal \<Rightarrow> command \<Rightarrow> int \<Rightarrow> bool" where
  "already_claimed s c now \<longleftrightarrow> (\<exists>r \<in> set (jn_rows s). lr_nonce r = cmd_nonce c \<or> lr_action r = action_id (cmd_action c) \<or>
     lr_hash r = content_hash (cmd_action c) \<and> now - day < lr_accepted r)"

definition ending_pending :: "link_row \<Rightarrow> bool" where
  "ending_pending r \<longleftrightarrow> lr_due r \<noteq> None \<and> \<not> lr_done r"

definition ending_instant :: "link_env \<Rightarrow> action \<Rightarrow> int \<Rightarrow> int option link_result" where
  "ending_instant e a now =
     (if a_revert a = None then Inr None
      else rbind (link_of_result (ending (li_H e) (li_secs e) a (Some now))) (\<lambda>b. Inr (scheduled_for b)))"

definition claimed_row :: "envelope \<Rightarrow> int \<Rightarrow> int option \<Rightarrow> link_row" where
  "claimed_row v now due = (let c = en_command v; a = cmd_action c in
     \<lparr>lr_nonce = cmd_nonce c, lr_action = action_id a, lr_hash = content_hash a, lr_target = entity (a_target a),
      lr_envelope = v, lr_accepted = now, lr_due = due, lr_done = False, lr_outcome = None\<rparr>)"

text \<open>The body of \<open>reserve\<close>: one write transaction, nothing stays of it when it raises.\<close>

definition claim_command :: "link_env \<Rightarrow> wire_value \<Rightarrow> int \<Rightarrow> journal \<Rightarrow> (envelope \<times> journal) link_result" where
  "claim_command e value now s =
     rbind (verify_command e (jn_home s) now value) (\<lambda>v.
     let c = en_command v; a = cmd_action c in
     rbind (guard (Link_rejected ''clock_moved_backwards'') (\<not> moved_back s now)) (\<lambda>_.
     rbind (guard (Link_rejected ''already_claimed'') (\<not> already_claimed s c now)) (\<lambda>_.
     rbind (guard (Link_rejected ''ending_pending_for_target'')
       (\<not> (\<exists>r \<in> set (jn_rows s). lr_target r = entity (a_target a) \<and> ending_pending r))) (\<lambda>_.
     rbind (ending_instant e a now) (\<lambda>due.
       Inr (v, add_receipt EXECUTION_ATTEMPTED now
         [(''action_id'', PStr (action_id a)), (''content_hash'', PStr (content_hash a)), (''nonce'', PStr (cmd_nonce c))]
         (s\<lparr>jn_rows := jn_rows s @ [claimed_row v now due], jn_last := Some now\<rparr>)))))))"

definition reserve :: "link_env \<Rightarrow> wire_value \<Rightarrow> int \<Rightarrow> journal \<Rightarrow> envelope link_result \<times> journal" where
  "reserve e value now s =
     (case claim_command e value now s of
        Inr (v, s') \<Rightarrow> (Inr v, s')
      | Inl (Link_rejected why) \<Rightarrow> (Inl (Link_rejected why), add_receipt LINK_REJECTED now [(''reason'', PStr why)] s)
      | Inl err \<Rightarrow> (Inl err, s))"

definition completes :: "bool \<Rightarrow> link_row \<Rightarrow> bool" where
  "completes reverting r \<longleftrightarrow> (if reverting then ending_pending r else lr_outcome r = None)"

definition completed_row :: "bool \<Rightarrow> bool \<Rightarrow> link_row \<Rightarrow> link_row" where
  "completed_row reverting matched r =
     (if reverting then r\<lparr>lr_done := matched\<rparr> else r\<lparr>lr_outcome := Some (if matched then ''verified'' else ''failed'')\<rparr>)"

definition complete_command :: "string \<Rightarrow> int \<Rightarrow> bool \<Rightarrow> bool \<Rightarrow> journal \<Rightarrow> journal link_result" where
  "complete_command i now matched reverting s =
     (let hit = (\<lambda>r. lr_action r = i \<and> completes reverting r) in
      rbind (guard (Link_failed ValueError) (length (filter hit (jn_rows s)) = 1)) (\<lambda>_.
        Inr (add_receipt (if matched then VERIFIED else VERIFY_FAILED) now [(''action_id'', PStr i), (''ending'', PBool reverting)]
          (s\<lparr>jn_rows := map (\<lambda>r. if hit r then completed_row reverting matched r else r) (jn_rows s)\<rparr>))))"

definition due_now :: "journal \<Rightarrow> int \<Rightarrow> link_row \<Rightarrow> bool" where
  "due_now s now r \<longleftrightarrow> ending_pending r \<and> (the (lr_due r) \<le> now \<or> moved_back s now)"

definition row_ending :: "link_env \<Rightarrow> link_row \<Rightarrow> (envelope \<times> action) link_result" where
  "row_ending e r =
     rbind (authenticated e (Parsed (lr_envelope r))) (\<lambda>v.
     rbind (link_of_result (ending (li_H e) (li_secs e) (cmd_action (en_command v)) (Some (lr_accepted r)))) (\<lambda>b. Inr (v, b)))"

text \<open>The instant is written down before the rows are read back.\<close>

definition due_endings :: "link_env \<Rightarrow> int \<Rightarrow> journal \<Rightarrow> (envelope \<times> action) list link_result \<times> journal" where
  "due_endings e now s =
     (mapM (row_ending e) (sort_key (\<lambda>r. the (lr_due r)) (filter (due_now s now) (jn_rows s))),
      if moved_back s now then s else s\<lparr>jn_last := Some now\<rparr>)"

definition same_envelope :: "envelope \<Rightarrow> envelope \<Rightarrow> bool" where
  "same_envelope v w \<longleftrightarrow> en_signature v = en_signature w \<and> json_eq (command_json (en_command v)) (command_json (en_command w))"

text \<open>\<open>authorized\<close>: a journaled opening, or its exact due ending.\<close>

definition authorized :: "link_env \<Rightarrow> journal \<Rightarrow> envelope \<Rightarrow> action \<Rightarrow> int \<Rightarrow> unit link_result" where
  "authorized e s v a now =
     rbind (authenticated e (Parsed v)) (\<lambda>w.
     let c = en_command w in
     rbind (of_opt (Link_rejected ''unclaimed_command'') (find (\<lambda>r. lr_nonce r = cmd_nonce c) (jn_rows s))) (\<lambda>r.
     rbind (guard (Link_rejected ''unclaimed_command'') (cmd_home c = jn_home s)) (\<lambda>_.
     rbind (authenticated e (Parsed (lr_envelope r))) (\<lambda>x.
     rbind (guard (Link_rejected ''unclaimed_command'') (same_envelope w x)) (\<lambda>_.
     if json_eq (action_json a) (action_json (cmd_action c)) \<and> lr_outcome r = None
     then rbind (verify_command e (jn_home s) now (Parsed w)) (\<lambda>_. Inr ())
     else if a_revert (cmd_action c) \<noteq> None \<and> \<not> lr_done r then
       rbind (link_of_result (ending (li_H e) (li_secs e) (cmd_action c) (Some (lr_accepted r)))) (\<lambda>b.
         guard (Link_rejected ''unclaimed_command'') (json_eq (action_json a) (action_json b) \<and>
           ((case lr_due r of None \<Rightarrow> False | Some t \<Rightarrow> t \<le> now) \<or> moved_back s now)))
     else Inl (Link_rejected ''unclaimed_command''))))))"

section \<open>The agent\<close>

text \<open>How an application ends: a report of the device, an exception or a timeout, or the process stops.\<close>

datatype applied = Observed pdict | Raised | Stopped

record link_agent =
  ag_journal :: journal
  ag_applied :: "(envelope \<times> action \<times> bool) list"

fun is_number :: "pv \<Rightarrow> bool" where
  "is_number (PInt _) = True"
| "is_number (PFloat _) = True"
| "is_number _ = False"

definition effect_seen :: "link_env \<Rightarrow> action \<Rightarrow> pdict \<Rightarrow> bool" where
  "effect_seen e a observed =
     (case expected_effect a of
        None \<Rightarrow> False
      | Some ef \<Rightarrow>
          (let want = ef_value ef; actual = dict_get observed (ef_attr ef) PNone in
           if is_bool_value want then is_bool_value actual \<and> actual = want
           else if is_number want \<and> is_number actual then li_near e actual want
           else json_eq actual want))"

text \<open>The n-th application of the agent's life meets outcome and clock \<open>w n\<close>.\<close>

definition apply_command :: "link_env \<Rightarrow> (nat \<Rightarrow> applied \<times> int) \<Rightarrow> envelope \<Rightarrow> action \<Rightarrow> bool \<Rightarrow> link_agent \<Rightarrow> bool link_result \<times> link_agent" where
  "apply_command e w v a reverting g =
     (let (outcome, now) = w (length (ag_applied g)); g1 = g\<lparr>ag_applied := ag_applied g @ [(v, a, reverting)]\<rparr> in
      case outcome of
        Stopped \<Rightarrow> (Inl Link_stopped, g1)
      | _ \<Rightarrow>
          (let matched = (case outcome of Observed d \<Rightarrow> effect_seen e a d | _ \<Rightarrow> False) in
           case complete_command (action_id (cmd_action (en_command v))) now matched reverting (ag_journal g1) of
             Inl err \<Rightarrow> (Inl err, g1)
           | Inr s \<Rightarrow> (Inr matched, g1\<lparr>ag_journal := s\<rparr>)))"

fun apply_endings :: "link_env \<Rightarrow> (nat \<Rightarrow> applied \<times> int) \<Rightarrow> (envelope \<times> action) list \<Rightarrow> link_agent \<Rightarrow> unit link_result \<times> link_agent" where
  "apply_endings e w [] g = (Inr (), g)"
| "apply_endings e w ((v, a) # xs) g =
     (case apply_command e w v a True g of
        (Inl err, g') \<Rightarrow> (Inl err, g')
      | (Inr _, g') \<Rightarrow> apply_endings e w xs g')"

definition recover :: "link_env \<Rightarrow> (nat \<Rightarrow> applied \<times> int) \<Rightarrow> int \<Rightarrow> link_agent \<Rightarrow> unit link_result \<times> link_agent" where
  "recover e w now g =
     (case due_endings e now (ag_journal g) of
        (Inl err, s) \<Rightarrow> (Inl err, g\<lparr>ag_journal := s\<rparr>)
      | (Inr xs, s) \<Rightarrow> apply_endings e w xs (g\<lparr>ag_journal := s\<rparr>))"

text \<open>\<open>receive\<close>: due endings first; the clock is read again for the claim.\<close>

definition receive :: "link_env \<Rightarrow> (nat \<Rightarrow> applied \<times> int) \<Rightarrow> int \<Rightarrow> int \<Rightarrow> wire_value \<Rightarrow> link_agent \<Rightarrow> bool link_result \<times> link_agent" where
  "receive e w now later value g =
     (case recover e w now g of
        (Inl err, g1) \<Rightarrow> (Inl err, g1)
      | (Inr _, g1) \<Rightarrow>
          (case reserve e value later (ag_journal g1) of
             (Inl err, s) \<Rightarrow> (Inl err, g1\<lparr>ag_journal := s\<rparr>)
           | (Inr v, s) \<Rightarrow> apply_command e w v (cmd_action (en_command v)) False (g1\<lparr>ag_journal := s\<rparr>)))"

end
