(* ===== verification/Link_Laws.thy ===== *)
theory Link_Laws
  imports Link Samples "HOL-Library.Sublist"
begin

text \<open>
  What the home relies on: a signed command is claimed and applied once, a target has at most one open
  ending, every application is a claimed command in its validity or the exact ending of one, and a
  recovery that reaches the devices leaves no ending due.
\<close>

section \<open>The journal\<close>

definition row_ok :: "link_env \<Rightarrow> string \<Rightarrow> link_row \<Rightarrow> bool" where
  "row_ok e home r \<longleftrightarrow>
     (let c = en_command (lr_envelope r); a = cmd_action c in
      envelope_ok e (lr_envelope r) \<and> cmd_home c = home \<and> cmd_issued c \<le> lr_accepted r \<and> lr_accepted r < cmd_expires c \<and>
      action_due a (lr_accepted r) \<and> lr_nonce r = cmd_nonce c \<and> lr_action r = action_id a \<and> lr_hash r = content_hash a \<and>
      lr_target r = entity (a_target a) \<and> ending_instant e a (lr_accepted r) = Inr (lr_due r))"

text \<open>The same command is not accepted again within a day.\<close>

definition spaced :: "link_row \<Rightarrow> link_row \<Rightarrow> bool" where
  "spaced r r' \<longleftrightarrow> lr_nonce r \<noteq> lr_nonce r' \<and> lr_action r \<noteq> lr_action r' \<and>
     (lr_hash r = lr_hash r' \<longrightarrow> lr_accepted r + day \<le> lr_accepted r') \<and>
     (lr_target r = lr_target r' \<longrightarrow> \<not> (ending_pending r \<and> ending_pending r'))"

definition journal_ok :: "link_env \<Rightarrow> journal \<Rightarrow> bool" where
  "journal_ok e s \<longleftrightarrow> sorted_wrt spaced (jn_rows s) \<and>
     (\<forall>r \<in> set (jn_rows s). row_ok e (jn_home s) r \<and> (\<exists>t. jn_last s = Some t \<and> lr_accepted r \<le> t))"

definition same_claim :: "link_row \<Rightarrow> link_row \<Rightarrow> bool" where
  "same_claim r r' \<longleftrightarrow> lr_nonce r' = lr_nonce r \<and> lr_action r' = lr_action r \<and> lr_hash r' = lr_hash r \<and> lr_target r' = lr_target r \<and>
     lr_envelope r' = lr_envelope r \<and> lr_accepted r' = lr_accepted r \<and> lr_due r' = lr_due r \<and>
     (lr_done r \<longrightarrow> lr_done r') \<and> (lr_outcome r \<noteq> None \<longrightarrow> lr_outcome r' = lr_outcome r)"

definition journal_grows :: "journal \<Rightarrow> journal \<Rightarrow> bool" where
  "journal_grows s s' \<longleftrightarrow> jn_home s' = jn_home s \<and> (\<forall>t. jn_last s = Some t \<longrightarrow> (\<exists>t'. jn_last s' = Some t' \<and> t \<le> t')) \<and>
     (\<forall>r \<in> set (jn_rows s). \<exists>r' \<in> set (jn_rows s'). same_claim r r')"

lemma same_claim_refl [simp]: "same_claim r r"
  by (simp add: same_claim_def)

lemma still_claimed: "r \<in> A \<Longrightarrow> \<exists>r' \<in> A. same_claim r r'"
  by (rule bexI [of _ r]) simp_all

lemma same_claim_trans: "same_claim r r' \<Longrightarrow> same_claim r' r'' \<Longrightarrow> same_claim r r''"
  by (auto simp: same_claim_def)

lemma journal_grows_refl [simp]: "journal_grows s s"
  by (simp add: journal_grows_def still_claimed)

lemma journal_grows_trans:
  assumes "journal_grows s u" and "journal_grows u v"
  shows "journal_grows s v"
proof -
  have "\<exists>r'' \<in> set (jn_rows v). same_claim r r''" if "r \<in> set (jn_rows s)" for r
    using assms that by (meson journal_grows_def same_claim_trans)
  moreover have "\<exists>t''. jn_last v = Some t'' \<and> t \<le> t''" if "jn_last s = Some t" for t
    using assms that by (meson journal_grows_def order_trans)
  ultimately show ?thesis using assms by (simp add: journal_grows_def)
qed

lemma add_receipt_simps [simp]:
  "jn_rows (add_receipt ev now p s) = jn_rows s" "jn_home (add_receipt ev now p s) = jn_home s"
  "jn_last (add_receipt ev now p s) = jn_last s"
  by (simp_all add: add_receipt_def)

lemma receipt_ok [simp]: "journal_ok e (add_receipt ev now p s) = journal_ok e s"
  "journal_grows s (add_receipt ev now p s)" "journal_grows s (add_receipt ev now p s') = journal_grows s s'"
  by (simp_all add: journal_ok_def journal_grows_def still_claimed)

lemma link_of_result_Inr [simp]: "link_of_result r = Inr x \<longleftrightarrow> r = Inr x"
  by (cases r) simp_all

lemma authenticated_Inr [simp]: "authenticated e (Parsed v) = Inr w \<longleftrightarrow> w = v \<and> envelope_ok e v"
  by (auto simp: authenticated_def)

lemma verify_command_Inr:
  "verify_command e home now value = Inr v \<longleftrightarrow> value = Parsed v \<and> envelope_ok e v \<and> cmd_home (en_command v) = home \<and>
     cmd_issued (en_command v) \<le> now \<and> now < cmd_expires (en_command v) \<and> action_due (cmd_action (en_command v)) now"
  by (cases "value") (auto simp: verify_command_def authenticated_def Let_def rbind_Inr_iff)

lemma claim_command_Inr:
  "claim_command e value now s = Inr (v, s') \<longleftrightarrow>
     verify_command e (jn_home s) now value = Inr v \<and> \<not> moved_back s now \<and> \<not> already_claimed s (en_command v) now \<and>
     \<not> (\<exists>r \<in> set (jn_rows s). lr_target r = entity (a_target (cmd_action (en_command v))) \<and> ending_pending r) \<and>
     (\<exists>due. ending_instant e (cmd_action (en_command v)) now = Inr due \<and>
       s' = add_receipt EXECUTION_ATTEMPTED now
         [(''action_id'', PStr (action_id (cmd_action (en_command v)))), (''content_hash'', PStr (content_hash (cmd_action (en_command v)))),
          (''nonce'', PStr (cmd_nonce (en_command v)))]
         (s\<lparr>jn_rows := jn_rows s @ [claimed_row v now due], jn_last := Some now\<rparr>))"
  by (auto simp: claim_command_def Let_def rbind_Inr_iff)

lemma claim_ok:
  assumes ok: "journal_ok e s" and c: "claim_command e value now s = Inr (v, s')"
  shows "journal_ok e s'" and "journal_grows s s'"
proof -
  from c obtain due where v: "verify_command e (jn_home s) now value = Inr v" and b: "\<not> moved_back s now"
    and n: "\<not> already_claimed s (en_command v) now"
    and p: "\<And>r. r \<in> set (jn_rows s) \<Longrightarrow> lr_target r = entity (a_target (cmd_action (en_command v))) \<Longrightarrow> \<not> ending_pending r"
    and due: "ending_instant e (cmd_action (en_command v)) now = Inr due"
    and rows: "jn_rows s' = jn_rows s @ [claimed_row v now due]" and last: "jn_last s' = Some now" and home: "jn_home s' = jn_home s"
    by (auto simp: claim_command_Inr)
  have new: "row_ok e (jn_home s) (claimed_row v now due)"
    using v due by (auto simp: verify_command_Inr row_ok_def claimed_row_def Let_def)
  have sp: "spaced r (claimed_row v now due)" if "r \<in> set (jn_rows s)" for r
    using that n p by (fastforce simp: spaced_def claimed_row_def already_claimed_def Let_def)
  have late: "lr_accepted r \<le> now" if "r \<in> set (jn_rows s)" for r
    using that ok b by (force simp: journal_ok_def moved_back_def)
  show "journal_ok e s'"
    using ok new sp late by (auto simp: journal_ok_def rows last home sorted_wrt_append claimed_row_def Let_def)
  show "journal_grows s s'"
    using b still_claimed [of _ "set (jn_rows s)"] by (auto simp: journal_grows_def rows last home moved_back_def split: option.split_asm)
qed

lemma reserve_ok:
  assumes "journal_ok e s" and "reserve e value now s = (x, s')"
  shows "journal_ok e s' \<and> journal_grows s s'"
  using assms claim_ok [OF assms(1)]
  by (auto simp: reserve_def split: sum.split_asm link_exn.split_asm)

lemma row_step_ok:
  assumes ok: "journal_ok e s" and f: "\<And>r. r \<in> set (jn_rows s) \<Longrightarrow> same_claim r (f r) \<and> (ending_pending (f r) \<longrightarrow> ending_pending r)"
  shows "journal_ok e (s\<lparr>jn_rows := map f (jn_rows s)\<rparr>)" and "journal_grows s (s\<lparr>jn_rows := map f (jn_rows s)\<rparr>)"
proof -
  have "row_ok e (jn_home s) (f r) = row_ok e (jn_home s) r" if "r \<in> set (jn_rows s)" for r
    using f [OF that] by (simp add: row_ok_def same_claim_def Let_def)
  moreover have "sorted_wrt spaced (map f (jn_rows s))"
  proof (unfold sorted_wrt_map, rule sorted_wrt_mono_rel)
    show "sorted_wrt spaced (jn_rows s)" using ok by (simp add: journal_ok_def)
    fix x y
    assume "x \<in> set (jn_rows s)" "y \<in> set (jn_rows s)" "spaced x y"
    with f [of x] f [of y] show "spaced (f x) (f y)" by (auto simp: spaced_def same_claim_def)
  qed
  moreover have "lr_accepted (f r) = lr_accepted r" if "r \<in> set (jn_rows s)" for r
    using f [OF that] by (simp add: same_claim_def)
  ultimately show "journal_ok e (s\<lparr>jn_rows := map f (jn_rows s)\<rparr>)" using ok by (simp add: journal_ok_def)
  show "journal_grows s (s\<lparr>jn_rows := map f (jn_rows s)\<rparr>)" using f by (auto simp: journal_grows_def)
qed

lemma completed_claim:
  "completes reverting r \<Longrightarrow> same_claim r (completed_row reverting matched r) \<and> (ending_pending (completed_row reverting matched r) \<longrightarrow> ending_pending r)"
  by (auto simp: completes_def completed_row_def same_claim_def ending_pending_def)

lemma complete_ok:
  assumes ok: "journal_ok e s" and c: "complete_command i now matched reverting s = Inr s'"
  shows "journal_ok e s' \<and> journal_grows s s'"
proof -
  let ?f = "\<lambda>r. if lr_action r = i \<and> completes reverting r then completed_row reverting matched r else r"
  from c obtain ev p where s': "s' = add_receipt ev now p (s\<lparr>jn_rows := map ?f (jn_rows s)\<rparr>)"
    by (auto simp: complete_command_def Let_def rbind_Inr_iff)
  have f: "same_claim r (?f r) \<and> (ending_pending (?f r) \<longrightarrow> ending_pending r)" for r
  proof (cases "lr_action r = i \<and> completes reverting r")
    case True
    then have "?f r = completed_row reverting matched r" by simp
    with True completed_claim [of reverting r matched] show ?thesis by metis
  qed (simp only: if_False same_claim_refl, simp)
  from row_step_ok [OF ok f] show ?thesis by (simp add: s')
qed

lemma due_ok:
  assumes ok: "journal_ok e s" and d: "due_endings e now s = (x, s')"
  shows "journal_ok e s' \<and> journal_grows s s' \<and> jn_rows s' = jn_rows s"
proof -
  from d have s': "s' = (if moved_back s now then s else s\<lparr>jn_last := Some now\<rparr>)" by (simp add: due_endings_def)
  show ?thesis
  proof (cases "moved_back s now")
    case True
    with s' ok show ?thesis by simp
  next
    case False
    then have "t \<le> now" if "jn_last s = Some t" for t using that by (simp add: moved_back_def)
    with False ok show ?thesis by (force simp: s' journal_ok_def journal_grows_def)
  qed
qed

section \<open>Due endings can be read back\<close>

lemma spaced_distinct: "sorted_wrt spaced rs \<Longrightarrow> distinct (map lr_action rs)"
  by (induction rs) (auto simp: spaced_def)

lemma actions_distinct: "journal_ok e s \<Longrightarrow> distinct (map lr_action (jn_rows s))"
  by (simp add: journal_ok_def spaced_distinct)

lemma one_row:
  assumes "journal_ok e s" and r: "r \<in> set (jn_rows s)" and "P r"
  shows "length (filter (\<lambda>x. lr_action x = lr_action r \<and> P x) (jn_rows s)) = 1"
proof -
  have d: "distinct (map lr_action (jn_rows s))" using assms(1) by (rule actions_distinct)
  then have "set (filter (\<lambda>x. lr_action x = lr_action r \<and> P x) (jn_rows s)) = {r}"
    using r assms(3) by (auto simp: distinct_map inj_on_def)
  moreover have "distinct (filter (\<lambda>x. lr_action x = lr_action r \<and> P x) (jn_rows s))" using d by (simp add: distinct_map)
  ultimately show ?thesis using distinct_card by fastforce
qed

lemma command_message_ok:
  assumes "command_message e c = Inr m"
  shows "validate (li_H e) (li_secs e) (cmd_action c) = Inr (cmd_action c)" and "m = li_H e (command_json c)"
  using assms validate_Inr by (auto simp: command_message_def command_contract_def rbind_Inr_iff)

lemma envelope_action:
  "envelope_ok e v \<Longrightarrow> validate (li_H e) (li_secs e) (cmd_action (en_command v)) = Inr (cmd_action (en_command v))"
  using command_message_ok by (auto simp: envelope_ok_def split: sum.split_asm)

lemma row_ending_ok:
  assumes "row_ok e home r" and "ending_pending r"
  shows "\<exists>b. row_ending e r = Inr (lr_envelope r, b) \<and> scheduled_for b = lr_due r \<and>
    ending (li_H e) (li_secs e) (cmd_action (en_command (lr_envelope r))) (Some (lr_accepted r)) = Inr b"
proof -
  have v: "envelope_ok e (lr_envelope r)"
    and i: "ending_instant e (cmd_action (en_command (lr_envelope r))) (lr_accepted r) = Inr (lr_due r)"
    using assms(1) by (simp_all add: row_ok_def Let_def)
  from i assms(2) obtain b where "ending (li_H e) (li_secs e) (cmd_action (en_command (lr_envelope r))) (Some (lr_accepted r)) = Inr b"
    and "scheduled_for b = lr_due r"
    by (auto simp: ending_instant_def ending_pending_def rbind_Inr_iff split: if_split_asm)
  with v show ?thesis by (auto simp: row_ending_def rbind_Inr_iff)
qed

lemma due_endings_total:
  assumes "journal_ok e s"
  shows "\<exists>xs. due_endings e now s = (Inr xs, if moved_back s now then s else s\<lparr>jn_last := Some now\<rparr>) \<and>
    distinct (map (\<lambda>x. action_id (cmd_action (en_command (fst x)))) xs) \<and>
    (\<forall>r \<in> set (jn_rows s). due_now s now r \<longrightarrow> (\<exists>b. (lr_envelope r, b) \<in> set xs)) \<and>
    (\<forall>(v, b) \<in> set xs. \<exists>r \<in> set (jn_rows s). due_now s now r \<and> lr_envelope r = v \<and> scheduled_for b = lr_due r \<and>
      ending (li_H e) (li_secs e) (cmd_action (en_command v)) (Some (lr_accepted r)) = Inr b)"
proof -
  let ?rs = "sort_key (\<lambda>r. the (lr_due r)) (filter (due_now s now) (jn_rows s))"
  define g where "g r = (case row_ending e r of Inr x \<Rightarrow> x | Inl _ \<Rightarrow> undefined)" for r
  have g: "row_ending e r = Inr (g r) \<and> fst (g r) = lr_envelope r \<and> scheduled_for (snd (g r)) = lr_due r \<and>
      ending (li_H e) (li_secs e) (cmd_action (en_command (lr_envelope r))) (Some (lr_accepted r)) = Inr (snd (g r))"
    if "r \<in> set (jn_rows s)" "due_now s now r" for r
    using row_ending_ok [of e "jn_home s" r] that assms by (auto simp: g_def due_now_def journal_ok_def)
  then have "mapM (row_ending e) ?rs = Inr (map g ?rs)" by (intro mapM_map) simp
  moreover have "distinct (map (\<lambda>x. action_id (cmd_action (en_command (fst x)))) (map g ?rs))"
  proof -
    have "map (\<lambda>x. action_id (cmd_action (en_command (fst x)))) (map g ?rs) = map lr_action ?rs"
      using g assms by (auto simp: journal_ok_def row_ok_def Let_def)
    moreover have "distinct (map lr_action (jn_rows s))" using assms by (rule actions_distinct)
    ultimately show ?thesis by (simp add: distinct_map inj_on_def)
  qed
  moreover have "\<exists>b. (lr_envelope r, b) \<in> set (map g ?rs)" if "r \<in> set (jn_rows s)" "due_now s now r" for r
    using g [OF that] that by (intro exI [of _ "snd (g r)"]) (auto simp: image_iff intro!: bexI [of _ r] prod_eqI)
  moreover have "\<exists>r \<in> set (jn_rows s). due_now s now r \<and> lr_envelope r = fst x \<and> scheduled_for (snd x) = lr_due r \<and>
      ending (li_H e) (li_secs e) (cmd_action (en_command (fst x))) (Some (lr_accepted r)) = Inr (snd x)" if "x \<in> set (map g ?rs)" for x
    using that g by auto
  ultimately show ?thesis
    by (intro exI [of _ "map g ?rs"]) (simp add: due_endings_def case_prod_beta)
qed

section \<open>The agent\<close>

definition opening_nonces :: "(envelope \<times> action \<times> bool) list \<Rightarrow> string list" where
  "opening_nonces xs = map (\<lambda>(v, a, b). cmd_nonce (en_command v)) (filter (\<lambda>(v, a, b). \<not> b) xs)"

text \<open>What may be applied: the claimed command itself, or the ending that its row fixes.\<close>

definition backed :: "link_env \<Rightarrow> journal \<Rightarrow> envelope \<Rightarrow> action \<Rightarrow> bool \<Rightarrow> bool" where
  "backed e s v a reverting \<longleftrightarrow> (\<exists>r \<in> set (jn_rows s). lr_envelope r = v \<and>
     (if reverting then ending (li_H e) (li_secs e) (cmd_action (en_command v)) (Some (lr_accepted r)) = Inr a
      else a = cmd_action (en_command v)))"

definition agent_ok :: "link_env \<Rightarrow> link_agent \<Rightarrow> bool" where
  "agent_ok e g \<longleftrightarrow> journal_ok e (ag_journal g) \<and> distinct (opening_nonces (ag_applied g)) \<and>
     (\<forall>(v, a, b) \<in> set (ag_applied g). backed e (ag_journal g) v a b)"

definition agent_grows :: "link_agent \<Rightarrow> link_agent \<Rightarrow> bool" where
  "agent_grows g g' \<longleftrightarrow> journal_grows (ag_journal g) (ag_journal g') \<and> prefix (ag_applied g) (ag_applied g')"

lemma agent_grows_refl [simp]: "agent_grows g g"
  by (simp add: agent_grows_def)

lemma agent_grows_trans: "agent_grows g u \<Longrightarrow> agent_grows u v \<Longrightarrow> agent_grows g v"
  unfolding agent_grows_def using journal_grows_trans prefix_order.trans by blast

lemma backed_grows: "backed e s v a b \<Longrightarrow> journal_grows s s' \<Longrightarrow> backed e s' v a b"
proof -
  assume "backed e s v a b" and g: "journal_grows s s'"
  then obtain r where "r \<in> set (jn_rows s)" and r: "lr_envelope r = v"
    "if b then ending (li_H e) (li_secs e) (cmd_action (en_command v)) (Some (lr_accepted r)) = Inr a else a = cmd_action (en_command v)"
    by (auto simp: backed_def)
  with g obtain r' where "r' \<in> set (jn_rows s')" "same_claim r r'" by (auto simp: journal_grows_def)
  with r show "backed e s' v a b" unfolding backed_def same_claim_def by metis
qed

lemma journal_step:
  assumes "agent_ok e g" and "journal_ok e s \<and> journal_grows (ag_journal g) s"
  shows "agent_ok e (g\<lparr>ag_journal := s\<rparr>) \<and> agent_grows g (g\<lparr>ag_journal := s\<rparr>)"
  using assms backed_grows by (fastforce simp: agent_ok_def agent_grows_def)

lemma apply_ok:
  assumes ok: "agent_ok e g" and b: "backed e (ag_journal g) v a reverting"
    and new: "\<not> reverting \<Longrightarrow> cmd_nonce (en_command v) \<notin> set (opening_nonces (ag_applied g))"
    and ap: "apply_command e w v a reverting g = (x, g')"
  shows "agent_ok e g' \<and> agent_grows g g'"
proof -
  define g1 where "g1 = g\<lparr>ag_applied := ag_applied g @ [(v, a, reverting)]\<rparr>"
  have g1: "agent_ok e g1 \<and> agent_grows g g1"
    using ok b new by (auto simp: g1_def agent_ok_def agent_grows_def opening_nonces_def)
  from ap have "g' = g1 \<or> (\<exists>i now m s. complete_command i now m reverting (ag_journal g1) = Inr s \<and> g' = g1\<lparr>ag_journal := s\<rparr>)"
    by (auto simp: apply_command_def Let_def g1_def split: applied.split_asm sum.split_asm prod.split_asm)
  then show ?thesis
  proof (elim disjE exE conjE)
    assume "g' = g1"
    with g1 show ?thesis by simp
  next
    fix i now m s
    assume c: "complete_command i now m reverting (ag_journal g1) = Inr s" and g': "g' = g1\<lparr>ag_journal := s\<rparr>"
    have "journal_ok e (ag_journal g1)" using g1 by (simp add: agent_ok_def)
    from complete_ok [OF this c] journal_step [of e g1 s] g1 agent_grows_trans show ?thesis unfolding g' by blast
  qed
qed

lemma endings_ok:
  assumes "agent_ok e g" and "\<forall>(v, a) \<in> set xs. backed e (ag_journal g) v a True" and "apply_endings e w xs g = (x, g')"
  shows "agent_ok e g' \<and> agent_grows g g'"
  using assms
proof (induction xs arbitrary: g)
  case Nil
  then show ?case by simp
next
  case (Cons y xs)
  obtain v a where y: "y = (v, a)" by (cases y)
  obtain r g1 where ap: "apply_command e w v a True g = (r, g1)" by (cases "apply_command e w v a True g")
  from Cons.prems y have "backed e (ag_journal g) v a True" by simp
  from apply_ok [OF Cons.prems(1) this _ ap] have g1: "agent_ok e g1 \<and> agent_grows g g1" by simp
  then have "\<forall>(v, a) \<in> set xs. backed e (ag_journal g1) v a True"
    using Cons.prems(2) backed_grows by (fastforce simp: agent_grows_def)
  with g1 Cons.IH [of g1] Cons.prems(3) y ap agent_grows_trans show ?case
    by (cases r) (auto intro: agent_grows_trans)
qed

lemma recover_ok:
  assumes ok: "agent_ok e g" and r: "recover e w now g = (x, g')"
  shows "agent_ok e g' \<and> agent_grows g g'"
proof -
  have j: "journal_ok e (ag_journal g)" using ok by (simp add: agent_ok_def)
  obtain xs s where d: "due_endings e now (ag_journal g) = (Inr xs, s)"
    and bk: "\<forall>(v, b) \<in> set xs. \<exists>r \<in> set (jn_rows (ag_journal g)). lr_envelope r = v \<and>
      ending (li_H e) (li_secs e) (cmd_action (en_command v)) (Some (lr_accepted r)) = Inr b"
    using due_endings_total [OF j, of now] by fastforce
  from due_ok [OF j d] have s: "journal_ok e s \<and> journal_grows (ag_journal g) s" "jn_rows s = jn_rows (ag_journal g)" by simp_all
  define g1 where "g1 = g\<lparr>ag_journal := s\<rparr>"
  from journal_step [OF ok s(1)] have g1: "agent_ok e g1 \<and> agent_grows g g1" by (simp add: g1_def)
  have "\<forall>(v, a) \<in> set xs. backed e (ag_journal g1) v a True" using bk s(2) by (fastforce simp: backed_def g1_def)
  moreover from r d have "apply_endings e w xs g1 = (x, g')" by (simp add: recover_def g1_def)
  ultimately show ?thesis using endings_ok g1 agent_grows_trans by blast
qed

lemma receive_ok:
  assumes ok: "agent_ok e g" and r: "receive e w now later value g = (x, g')"
  shows "agent_ok e g' \<and> agent_grows g g'"
proof -
  obtain y g1 where rc: "recover e w now g = (y, g1)" by (cases "recover e w now g")
  from recover_ok [OF ok rc] have g1: "agent_ok e g1" "agent_grows g g1" by simp_all
  show ?thesis
  proof (cases y)
    case (Inl err)
    with r rc g1 show ?thesis by (simp add: receive_def)
  next
    case (Inr u)
    obtain z s where rs: "reserve e value later (ag_journal g1) = (z, s)" by (cases "reserve e value later (ag_journal g1)")
    have j: "journal_ok e (ag_journal g1)" using g1(1) by (simp add: agent_ok_def)
    define g2 where "g2 = g1\<lparr>ag_journal := s\<rparr>"
    from journal_step [OF g1(1) reserve_ok [OF j rs]] have g2: "agent_ok e g2" "agent_grows g1 g2" by (simp_all add: g2_def)
    show ?thesis
    proof (cases z)
      case (Inl err)
      with r rc Inr rs g1 g2 agent_grows_trans show ?thesis by (auto simp: receive_def g2_def)
    next
      case v: (Inr v)
      with r rc Inr rs have ap: "apply_command e w v (cmd_action (en_command v)) False g2 = (x, g')" by (simp add: receive_def g2_def)
      from v rs have c: "claim_command e value later (ag_journal g1) = Inr (v, s)"
        by (auto simp: reserve_def split: sum.split_asm link_exn.split_asm)
      then obtain due where rows: "jn_rows s = jn_rows (ag_journal g1) @ [claimed_row v later due]"
        and n: "\<not> already_claimed (ag_journal g1) (en_command v) later" by (auto simp: claim_command_Inr)
      have "backed e (ag_journal g2) v (cmd_action (en_command v)) False"
        by (auto simp: backed_def g2_def rows claimed_row_def Let_def)
      moreover have "cmd_nonce (en_command v) \<notin> set (opening_nonces (ag_applied g2))"
      proof
        assume "cmd_nonce (en_command v) \<in> set (opening_nonces (ag_applied g2))"
        then obtain v' a' where "(v', a', False) \<in> set (ag_applied g1)" and same: "cmd_nonce (en_command v') = cmd_nonce (en_command v)"
          by (auto simp: opening_nonces_def g2_def)
        with g1(1) have "backed e (ag_journal g1) v' a' False" by (force simp: agent_ok_def)
        then obtain r' where "r' \<in> set (jn_rows (ag_journal g1))" "lr_envelope r' = v'" by (auto simp: backed_def)
        with j same n show False by (auto simp: already_claimed_def journal_ok_def row_ok_def Let_def)
      qed
      ultimately show ?thesis using apply_ok [OF g2(1) _ _ ap] g1 g2 agent_grows_trans by blast
    qed
  qed
qed

inductive link_step :: "link_env \<Rightarrow> link_agent \<Rightarrow> link_agent \<Rightarrow> bool" for e :: link_env where
  recovering: "link_step e g g'" if "recover e w now g = (x, g')"
| receiving: "link_step e g g'" if "receive e w now later value g = (y, g')"

inductive_cases link_stepE: "link_step e g g'"

lemma link_step_ok: "agent_ok e g \<Longrightarrow> link_step e g g' \<Longrightarrow> agent_ok e g' \<and> agent_grows g g'"
  by (erule link_stepE) (erule recover_ok receive_ok; assumption)+

interpretation link: machine "link_step e" "agent_ok e" agent_grows for e
  by unfold_locales (auto dest: link_step_ok intro: agent_grows_trans)

definition fresh_agent :: "string \<Rightarrow> string \<Rightarrow> link_agent" where
  "fresh_agent home key = \<lparr>ag_journal = initialize_journal home key, ag_applied = []\<rparr>"

lemma fresh_agent_ok: "agent_ok e (fresh_agent home key)"
  by (simp add: agent_ok_def fresh_agent_def journal_ok_def initialize_journal_def opening_nonces_def)

lemma claimed_unclaimable:
  assumes "agent_ok e g" and "(link_step e)\<^sup>*\<^sup>* g g'" and "r \<in> set (jn_rows (ag_journal g))"
    and "lr_nonce r = cmd_nonce (en_command v) \<or> lr_action r = action_id (cmd_action (en_command v))"
  shows "\<exists>why s. reserve e (Parsed v) now (ag_journal g') = (Inl (Link_rejected why), s) \<and> jn_rows s = jn_rows (ag_journal g')"
proof -
  have "agent_grows g g'" using link.runs_ext assms(1,2) by blast
  with assms(3,4) have a: "already_claimed (ag_journal g') (en_command v) now"
    by (fastforce simp: agent_grows_def journal_grows_def same_claim_def already_claimed_def)
  have "\<exists>why. claim_command e (Parsed v) now (ag_journal g') = Inl (Link_rejected why)"
  proof (cases "verify_command e (jn_home (ag_journal g')) now (Parsed v)")
    case (Inl err)
    then have "\<exists>why. err = Link_rejected why"
      by (auto simp: verify_command_def authenticated_def Let_def rbind_Inl_iff split: if_split_asm)
    with Inl show ?thesis by (auto simp: claim_command_def)
  next
    case (Inr w)
    then have "w = v" by (simp add: verify_command_Inr)
    with Inr a show ?thesis by (simp add: claim_command_def Let_def guard_def)
  qed
  then show ?thesis by (auto simp: reserve_def)
qed

section \<open>A recovery that reaches the devices\<close>

definition reaches :: "link_env \<Rightarrow> (nat \<Rightarrow> applied \<times> int) \<Rightarrow> (envelope \<times> action) list \<Rightarrow> nat \<Rightarrow> bool" where
  "reaches e w xs n \<longleftrightarrow> (\<forall>k < length xs. \<exists>d t. w (n + k) = (Observed d, t) \<and> effect_seen e (snd (xs ! k)) d)"

lemma endings_applied:
  assumes "journal_ok e (ag_journal g)"
    and "\<forall>(v, b) \<in> set xs. \<exists>r \<in> set (jn_rows (ag_journal g)). lr_envelope r = v \<and> ending_pending r"
    and "distinct (map (\<lambda>x. action_id (cmd_action (en_command (fst x)))) xs)"
    and "\<And>r. r \<in> set (jn_rows (ag_journal g)) \<Longrightarrow> due_now (ag_journal g) now r \<Longrightarrow> lr_envelope r \<in> fst ` set xs"
    and "reaches e w xs (length (ag_applied g))"
  shows "\<exists>g'. apply_endings e w xs g = (Inr (), g') \<and> (\<forall>r \<in> set (jn_rows (ag_journal g')). \<not> due_now (ag_journal g') now r)"
  using assms
proof (induction xs arbitrary: g)
  case Nil
  then show ?case by auto
next
  case (Cons y xs)
  obtain v b where y: "y = (v, b)" by (cases y)
  let ?i = "action_id (cmd_action (en_command v))" and ?s = "ag_journal g"
  from Cons.prems(5) obtain d t where w: "w (length (ag_applied g)) = (Observed d, t)" "effect_seen e b d"
    by (force simp: reaches_def y)
  from Cons.prems(2) y obtain r where r: "r \<in> set (jn_rows ?s)" "lr_envelope r = v" "ending_pending r" by auto
  with Cons.prems(1) have i: "lr_action r = ?i" by (auto simp: journal_ok_def row_ok_def Let_def)
  let ?hit = "\<lambda>x. lr_action x = ?i \<and> ending_pending x"
  have one: "length (filter ?hit (jn_rows ?s)) = 1" using one_row [where P = ending_pending, OF Cons.prems(1) r(1,3)] i by simp
  define s1 where "s1 = add_receipt VERIFIED t [(''action_id'', PStr ?i), (''ending'', PBool True)]
    (?s\<lparr>jn_rows := map (\<lambda>x. if ?hit x then x\<lparr>lr_done := True\<rparr> else x) (jn_rows ?s)\<rparr>)"
  have c: "complete_command ?i t True True ?s = Inr s1"
    using one by (simp add: complete_command_def Let_def completes_def completed_row_def guard_def s1_def cong: if_cong)
  define g1 where "g1 = g\<lparr>ag_applied := ag_applied g @ [(v, b, True)], ag_journal := s1\<rparr>"
  have ap: "apply_command e w v b True g = (Inr True, g1)" by (simp add: apply_command_def w c g1_def)
  have rows: "jn_rows s1 = map (\<lambda>x. if ?hit x then x\<lparr>lr_done := True\<rparr> else x) (jn_rows ?s)" "jn_last s1 = jn_last ?s"
    by (simp_all add: s1_def)
  have j1: "journal_ok e (ag_journal g1)" using complete_ok [OF Cons.prems(1) c] by (simp add: g1_def)
  have due: "due_now s1 now x \<longleftrightarrow> due_now ?s now x" for x by (simp add: due_now_def moved_back_def rows)
  have kept: "x \<in> set (jn_rows ?s) \<and> lr_action x \<noteq> ?i" if "x \<in> set (jn_rows s1)" "ending_pending x" for x
    using that by (auto simp: rows ending_pending_def split: if_split_asm)
  have "\<exists>g'. apply_endings e w xs g1 = (Inr (), g') \<and> (\<forall>r \<in> set (jn_rows (ag_journal g')). \<not> due_now (ag_journal g') now r)"
  proof (rule Cons.IH [OF j1])
    show "\<forall>(v', b') \<in> set xs. \<exists>x \<in> set (jn_rows (ag_journal g1)). lr_envelope x = v' \<and> ending_pending x"
    proof (clarify)
      fix v' b'
      assume z: "(v', b') \<in> set xs"
      with Cons.prems(2) obtain x where x: "x \<in> set (jn_rows ?s)" "lr_envelope x = v'" "ending_pending x" by auto
      with Cons.prems(1) have "lr_action x = action_id (cmd_action (en_command v'))" by (auto simp: journal_ok_def row_ok_def Let_def)
      with z y Cons.prems(3) have "lr_action x \<noteq> ?i" by force
      with x show "\<exists>x \<in> set (jn_rows (ag_journal g1)). lr_envelope x = v' \<and> ending_pending x"
        by (auto simp: g1_def rows image_iff)
    qed
    show "distinct (map (\<lambda>x. action_id (cmd_action (en_command (fst x)))) xs)" using Cons.prems(3) by simp
    show "lr_envelope x \<in> fst ` set xs" if "x \<in> set (jn_rows (ag_journal g1))" "due_now (ag_journal g1) now x" for x
    proof -
      from that have "x \<in> set (jn_rows ?s) \<and> lr_action x \<noteq> ?i" using kept by (simp add: g1_def due_now_def)
      with that due Cons.prems(4) [of x] Cons.prems(1) y show ?thesis
        by (auto simp: g1_def journal_ok_def row_ok_def Let_def)
    qed
    show "reaches e w xs (length (ag_applied g1))"
      using Cons.prems(5) by (force simp: reaches_def g1_def y)
  qed
  then show ?case by (simp add: y ap)
qed

lemma recovery:
  assumes ok: "agent_ok e g" and "\<And>xs s. due_endings e now (ag_journal g) = (Inr xs, s) \<Longrightarrow> reaches e w xs (length (ag_applied g))"
  shows "\<exists>g'. recover e w now g = (Inr (), g') \<and> (\<forall>r \<in> set (jn_rows (ag_journal g')). \<not> due_now (ag_journal g') now r)"
proof -
  have j: "journal_ok e (ag_journal g)" using ok by (simp add: agent_ok_def)
  define s where "s = (if moved_back (ag_journal g) now then ag_journal g else (ag_journal g)\<lparr>jn_last := Some now\<rparr>)"
  obtain xs where d: "due_endings e now (ag_journal g) = (Inr xs, s)"
    and dist: "distinct (map (\<lambda>x. action_id (cmd_action (en_command (fst x)))) xs)"
    and all: "\<forall>r \<in> set (jn_rows (ag_journal g)). due_now (ag_journal g) now r \<longrightarrow> (\<exists>b. (lr_envelope r, b) \<in> set xs)"
    and bk: "\<forall>(v, b) \<in> set xs. \<exists>r \<in> set (jn_rows (ag_journal g)). due_now (ag_journal g) now r \<and> lr_envelope r = v"
    using due_endings_total [OF j, of now] unfolding s_def by fastforce
  from due_ok [OF j d] have j1: "journal_ok e s" and rows: "jn_rows s = jn_rows (ag_journal g)" by simp_all
  have due: "due_now s now r \<longleftrightarrow> due_now (ag_journal g) now r" for r by (simp add: s_def due_now_def moved_back_def)
  have "\<exists>g'. apply_endings e w xs (g\<lparr>ag_journal := s\<rparr>) = (Inr (), g') \<and> (\<forall>r \<in> set (jn_rows (ag_journal g')). \<not> due_now (ag_journal g') now r)"
  proof (rule endings_applied)
    show "\<forall>(v, b) \<in> set xs. \<exists>r \<in> set (jn_rows (ag_journal (g\<lparr>ag_journal := s\<rparr>))). lr_envelope r = v \<and> ending_pending r"
      using bk by (fastforce simp: rows due_now_def)
    show "lr_envelope r \<in> fst ` set xs" if "r \<in> set (jn_rows (ag_journal (g\<lparr>ag_journal := s\<rparr>)))"
      and "due_now (ag_journal (g\<lparr>ag_journal := s\<rparr>)) now r" for r
      using that all by (force simp: rows due)
  qed (use j1 dist assms(2) [OF d] in simp_all)
  then show ?thesis by (simp add: recover_def d)
qed

section \<open>The gate at the device\<close>

lemma json_eq_same: "x = y \<Longrightarrow> json_eq x y"
  by (induction x y rule: json_eq.induct) (auto simp: zip_same_conv_map split: option.splits)

lemma json_eq_refl [simp]: "json_eq x x"
  by (rule json_eq_same) simp

lemma same_envelope_refl [simp]: "same_envelope v v"
  by (simp add: same_envelope_def)

lemma json_eq_id: "json_eq (action_json a) (action_json b) \<Longrightarrow> action_id a = action_id b"
  by (simp add: action_json_def py_eq_def split: option.split_asm)

lemma ending_id: "ending hs mul a start = Inr b \<Longrightarrow> action_id b = action_id a @ '':ending''"
  by (auto simp: ending_def Let_def rbind_Inr_iff dest!: validate_Inr split: option.split_asm)

lemma find_spaced: "sorted_wrt spaced rs \<Longrightarrow> r \<in> set rs \<Longrightarrow> find (\<lambda>x. lr_nonce x = lr_nonce r) rs = Some r"
  by (induction rs) (auto simp: spaced_def)

lemma find_nonce:
  assumes "journal_ok e s" and "r \<in> set (jn_rows s)"
  shows "find (\<lambda>x. lr_nonce x = lr_nonce r) (jn_rows s) = Some r"
  using assms by (simp add: journal_ok_def find_spaced)

lemma authorized_row:
  assumes "journal_ok e s" and "r \<in> set (jn_rows s)"
  shows "authorized e s (lr_envelope r) a now =
    (if json_eq (action_json a) (action_json (cmd_action (en_command (lr_envelope r)))) \<and> lr_outcome r = None
     then rbind (verify_command e (jn_home s) now (Parsed (lr_envelope r))) (\<lambda>_. Inr ())
     else if a_revert (cmd_action (en_command (lr_envelope r))) \<noteq> None \<and> \<not> lr_done r then
       rbind (link_of_result (ending (li_H e) (li_secs e) (cmd_action (en_command (lr_envelope r))) (Some (lr_accepted r)))) (\<lambda>b.
         guard (Link_rejected ''unclaimed_command'') (json_eq (action_json a) (action_json b) \<and>
           ((case lr_due r of None \<Rightarrow> False | Some t \<Rightarrow> t \<le> now) \<or> moved_back s now)))
     else Inl (Link_rejected ''unclaimed_command''))"
proof -
  have r: "row_ok e (jn_home s) r" using assms by (simp add: journal_ok_def)
  then have n: "cmd_nonce (en_command (lr_envelope r)) = lr_nonce r" "envelope_ok e (lr_envelope r)"
    "cmd_home (en_command (lr_envelope r)) = jn_home s" by (simp_all add: row_ok_def Let_def)
  from n(2) have au: "authenticated e (Parsed (lr_envelope r)) = Inr (lr_envelope r)" by simp
  have "find (\<lambda>x. lr_nonce x = cmd_nonce (en_command (lr_envelope r))) (jn_rows s) = Some r"
    using find_nonce [OF assms] n(1) by simp
  then show ?thesis by (simp add: authorized_def Let_def n(3) au of_opt_def guard_def)
qed

lemma ending_authorized:
  assumes ok: "journal_ok e s" and d: "due_endings e now s = (Inr xs, s')" and x: "(v, b) \<in> set xs"
    and t: "if moved_back s now then later \<le> now else now \<le> later"
  shows "authorized e s' v b later = Inr ()"
proof -
  from due_ok [OF ok d] have ok': "journal_ok e s'" and rows: "jn_rows s' = jn_rows s" by simp_all
  have s': "s' = (if moved_back s now then s else s\<lparr>jn_last := Some now\<rparr>)" using d by (simp add: due_endings_def)
  from due_endings_total [OF ok, of now] d x obtain r where r: "r \<in> set (jn_rows s)" "due_now s now r" "lr_envelope r = v"
    and b: "ending (li_H e) (li_secs e) (cmd_action (en_command v)) (Some (lr_accepted r)) = Inr b"
    by fastforce
  have rv: "a_revert (cmd_action (en_command v)) \<noteq> None" using b by (auto simp: ending_def split: option.split_asm)
  have "\<not> json_eq (action_json b) (action_json (cmd_action (en_command v)))" using json_eq_id ending_id [OF b] by fastforce
  moreover have "(case lr_due r of None \<Rightarrow> False | Some t \<Rightarrow> t \<le> later) \<or> moved_back s' later"
    using r(2) t s' by (auto simp: due_now_def ending_pending_def moved_back_def split: option.split_asm if_split_asm)
  ultimately show ?thesis
    using authorized_row [OF ok', of r b later] r b rv rows by (simp add: due_now_def ending_pending_def guard_def)
qed

lemma opening_authorized:
  assumes ok: "journal_ok e s" and c: "claim_command e value now s = Inr (v, s')" and t: "now \<le> later" "later < cmd_expires (en_command v)"
    and a: "action_due (cmd_action (en_command v)) later"
  shows "authorized e s' v (cmd_action (en_command v)) later = Inr ()"
proof -
  from claim_ok [OF ok c] have ok': "journal_ok e s'" by simp
  from c obtain due where v: "verify_command e (jn_home s) now value = Inr v" and rows: "jn_rows s' = jn_rows s @ [claimed_row v now due]"
    and home: "jn_home s' = jn_home s" by (auto simp: claim_command_Inr)
  define r where "r = claimed_row v now due"
  have r: "r \<in> set (jn_rows s')" "lr_envelope r = v" "lr_outcome r = None" by (simp_all add: r_def rows claimed_row_def Let_def)
  have "verify_command e (jn_home s') later (Parsed v) = Inr v" using v t a home by (simp add: verify_command_Inr)
  then show ?thesis using authorized_row [OF ok' r(1), of "cmd_action (en_command v)" later] r by simp
qed

section \<open>What the cloud signs, the home claims\<close>

lemma validate_same: "validate hs mul a = Inr b \<Longrightarrow> b = a"
  using validate_Inr by blast

lemma signed_ok:
  assumes law: "\<forall>m. li_verify e m (li_sign e m)" and s: "sign_command e a home approved t0 nonce = Inr v"
  shows "envelope_ok e v" and "en_command v = \<lparr>cmd_home = home, cmd_action = a, cmd_issued = t0, cmd_expires = t0 + minute, cmd_nonce = nonce\<rparr>"
    and "validate (li_H e) (li_secs e) a = Inr a"
proof -
  from s obtain msg where va: "validate (li_H e) (li_secs e) a = Inr a"
    and m: "command_message e \<lparr>cmd_home = home, cmd_action = a, cmd_issued = t0, cmd_expires = t0 + minute, cmd_nonce = nonce\<rparr> = Inr msg"
    and len: "1 \<le> length (li_sign e msg)" "length (li_sign e msg) \<le> 128"
    and v: "v = \<lparr>en_command = \<lparr>cmd_home = home, cmd_action = a, cmd_issued = t0, cmd_expires = t0 + minute, cmd_nonce = nonce\<rparr>,
        en_signature = li_sign e msg\<rparr>"
    by (auto simp: sign_command_def Let_def rbind_Inr_iff dest: validate_same)
  show "envelope_ok e v" using law m len by (simp add: envelope_ok_def v)
  show "en_command v = \<lparr>cmd_home = home, cmd_action = a, cmd_issued = t0, cmd_expires = t0 + minute, cmd_nonce = nonce\<rparr>" by (simp add: v)
  show "validate (li_H e) (li_secs e) a = Inr a" by (rule va)
qed

lemma signed_claimed:
  assumes "\<forall>m. li_verify e m (li_sign e m)" and "sign_command e a (jn_home s) approved t0 nonce = Inr v"
    and "t0 \<le> now" and "now < t0 + minute" and "action_due a now" and "\<not> moved_back s now" and "\<not> already_claimed s (en_command v) now"
    and "\<And>r. r \<in> set (jn_rows s) \<Longrightarrow> lr_target r = entity (a_target a) \<Longrightarrow> \<not> ending_pending r"
    and "\<exists>due. ending_instant e a now = Inr due"
  shows "\<exists>s'. reserve e (Parsed v) now s = (Inr v, s') \<and> (\<exists>r \<in> set (jn_rows s'). lr_envelope r = v \<and> lr_accepted r = now \<and> lr_hash r = approved)"
proof -
  note v = signed_ok [OF assms(1,2)]
  obtain due where due: "ending_instant e a now = Inr due" using assms(9) by blast
  have "content_hash a = approved" using assms(2) by (auto simp: sign_command_def Let_def rbind_Inr_iff dest: validate_same)
  moreover obtain s' where c: "claim_command e (Parsed v) now s = Inr (v, s')" and "jn_rows s' = jn_rows s @ [claimed_row v now due]"
  proof -
    let ?s = "add_receipt EXECUTION_ATTEMPTED now
         [(''action_id'', PStr (action_id a)), (''content_hash'', PStr (content_hash a)), (''nonce'', PStr nonce)]
         (s\<lparr>jn_rows := jn_rows s @ [claimed_row v now due], jn_last := Some now\<rparr>)"
    have "verify_command e (jn_home s) now (Parsed v) = Inr v" using v(1) assms(3-5) by (simp add: verify_command_Inr v(2))
    then have "claim_command e (Parsed v) now s = Inr (v, ?s)" using assms(6-8) due by (auto simp: claim_command_Inr v(2))
    with that show thesis by simp
  qed
  ultimately show ?thesis by (intro exI [of _ s']) (simp add: reserve_def claimed_row_def Let_def v(2))
qed

section \<open>A porch light for one minute\<close>

definition porch_env :: link_env where
  "porch_env = \<lparr>li_H = sample_hash, li_secs = sample_secs, li_verify = (\<lambda>m s. s = m), li_sign = (\<lambda>m. m), li_near = (\<lambda>x y. x = y)\<rparr>"

definition porch_action :: action where
  "porch_action = \<lparr>action_id = ''p1'', action_class = ''environment.lights'',
     a_target = \<lparr>adapter = ''ha'', entity = ''light.porch'', zone = None, zone_set = False\<rparr>, params = [(''on'', PBool True)],
     requested_by = \<lparr>member_id = Some ''m'', rq_role = Adult, rq_surface = App, speaker = None, claimed_author = None\<rparr>,
     reason = ''guest'', plan_id = None, scheduled_for = Some 0,
     expected_effect = Some \<lparr>ef_entity = ''light.porch'', ef_attr = ''on'', ef_value = PBool True, ef_by = 30000000\<rparr>,
     content_hash = ''sha256:d'',
     a_revert = Some \<lparr>after_s = PInt 60, inverse = \<lparr>inv_class = ''environment.lights'',
       inv_target = \<lparr>adapter = ''ha'', entity = ''light.porch'', zone = None, zone_set = False\<rparr>, inv_params = [(''on'', PBool False)]\<rparr>\<rparr>\<rparr>"

definition porch_envelope :: envelope where
  "porch_envelope = \<lparr>en_command = \<lparr>cmd_home = ''home'', cmd_action = porch_action, cmd_issued = 0, cmd_expires = minute, cmd_nonce = ''n1''\<rparr>,
     en_signature = ''d''\<rparr>"

definition porch_world :: "nat \<Rightarrow> applied \<times> int" where
  "porch_world n = (if n = 0 then (Observed [(''on'', PBool True)], 2000000) else (Observed [(''on'', PBool False)], 62000000))"

definition porch_agent :: link_agent where
  "porch_agent = snd (receive porch_env porch_world 0 1000000 (Parsed porch_envelope) (fresh_agent ''home'' ''key''))"

lemma porch_signed: "sign_command porch_env porch_action ''home'' ''sha256:d'' 0 ''n1'' = Inr porch_envelope"
  by code_simp

lemma porch_rows: "jn_rows (ag_journal porch_agent) = [\<lparr>lr_nonce = ''n1'', lr_action = ''p1'', lr_hash = ''sha256:d'', lr_target = ''light.porch'',
    lr_envelope = porch_envelope, lr_accepted = 1000000, lr_due = Some 60000000, lr_done = False, lr_outcome = Some ''verified''\<rparr>]"
  "ag_applied porch_agent = [(porch_envelope, porch_action, False)]" "jn_last (ag_journal porch_agent) = Some 1000000"
  by code_simp+

lemma porch_reached: "(link_step porch_env)\<^sup>*\<^sup>* (fresh_agent ''home'' ''key'') porch_agent"
proof (rule r_into_rtranclp)
  show "link_step porch_env (fresh_agent ''home'' ''key'') porch_agent"
    by (rule receiving [of porch_env porch_world 0 1000000 "Parsed porch_envelope" _ "fst (receive porch_env porch_world 0 1000000 (Parsed porch_envelope) (fresh_agent ''home'' ''key''))"])
      (simp add: porch_agent_def)
qed

lemma porch_due: "\<exists>b. due_endings porch_env 61000000 (ag_journal porch_agent) = (Inr [(porch_envelope, b)], (ag_journal porch_agent)\<lparr>jn_last := Some 61000000\<rparr>) \<and>
    effect_seen porch_env b [(''on'', PBool False)]"
proof -
  have "case row_ending porch_env (hd (jn_rows (ag_journal porch_agent))) of Inl _ \<Rightarrow> False
     | Inr (v, b) \<Rightarrow> v = porch_envelope \<and> effect_seen porch_env b [(''on'', PBool False)]"
    unfolding porch_rows by code_simp
  then obtain b where b: "row_ending porch_env (hd (jn_rows (ag_journal porch_agent))) = Inr (porch_envelope, b)"
    "effect_seen porch_env b [(''on'', PBool False)]" by (auto split: sum.split_asm)
  then show ?thesis
    by (intro exI [of _ b]) (simp add: due_endings_def porch_rows due_now_def ending_pending_def moved_back_def)
qed

section \<open>Properties\<close>

lemma pending_targets: "sorted_wrt spaced rs \<Longrightarrow> distinct (map lr_target (filter ending_pending rs))"
  by (induction rs) (auto simp: spaced_def)

lemma reached_ok: "(link_step e)\<^sup>*\<^sup>* (fresh_agent home key) g \<Longrightarrow> agent_ok e g \<and> jn_home (ag_journal g) = home"
  using link.runs_inv [of e "fresh_agent home key" g] link.runs_ext [of e "fresh_agent home key" g] fresh_agent_ok
  by (auto simp: agent_grows_def journal_grows_def fresh_agent_def initialize_journal_def)

text \<open>C13: the home applies a command once. Whatever values arrive, whenever the process stops between
  the claim and the report, and however the clock moves: the openings that the agent ever applied carry
  different nonces; each application is a signed, unexpired command for this home that the journal had
  claimed, or the exact ending of one, computed from the instant of its claim; and no target has two
  open endings.\<close>

theorem home_applies_once:
  assumes "(link_step e)\<^sup>*\<^sup>* (fresh_agent home key) g"
  shows "distinct (opening_nonces (ag_applied g)) \<and>
    list_all (\<lambda>(v, a, reverting). \<exists>r \<in> set (jn_rows (ag_journal g)). row_ok e home r \<and> lr_envelope r = v \<and>
      (if reverting then ending (li_H e) (li_secs e) (cmd_action (en_command v)) (Some (lr_accepted r)) = Inr a
       else a = cmd_action (en_command v))) (ag_applied g) \<and>
    distinct (map lr_target (filter ending_pending (jn_rows (ag_journal g))))"
proof -
  from reached_ok [OF assms] have ok: "agent_ok e g" and home: "jn_home (ag_journal g) = home" by simp_all
  then have "sorted_wrt spaced (jn_rows (ag_journal g))" and rows: "\<And>r. r \<in> set (jn_rows (ag_journal g)) \<Longrightarrow> row_ok e home r"
    by (auto simp: agent_ok_def journal_ok_def)
  moreover have "backed e (ag_journal g) v a b" if "(v, a, b) \<in> set (ag_applied g)" for v a b
    using ok that by (auto simp: agent_ok_def)
  ultimately show ?thesis
    using ok pending_targets by (fastforce simp: agent_ok_def backed_def list_all_iff)
qed

theorem home_applies_once_witness:
  "distinct (opening_nonces (ag_applied porch_agent)) \<and> ag_applied porch_agent = [(porch_envelope, porch_action, False)] \<and>
   row_ok porch_env ''home'' (hd (jn_rows (ag_journal porch_agent)))"
  using home_applies_once [OF porch_reached] by (simp add: porch_rows)

text \<open>C15: a replay is refused. Once a command was claimed, a value with its nonce or its action
  identifier is rejected in every later state of the agent, at every instant, under every signature, and
  the claimed rows stay as they are.\<close>

theorem replay_refused:
  assumes "(link_step e)\<^sup>*\<^sup>* (fresh_agent home key) g" and "(link_step e)\<^sup>*\<^sup>* g g'" and "r \<in> set (jn_rows (ag_journal g))"
    and "lr_nonce r = cmd_nonce (en_command v) \<or> lr_action r = action_id (cmd_action (en_command v))"
  shows "\<exists>why s. reserve e (Parsed v) now (ag_journal g') = (Inl (Link_rejected why), s) \<and> jn_rows s = jn_rows (ag_journal g')"
  using reached_ok [OF assms(1)] claimed_unclaimable [OF _ assms(2-4)] by blast

theorem replay_refused_witness:
  "\<exists>why s. reserve porch_env (Parsed porch_envelope) 3000000 (ag_journal porch_agent) = (Inl (Link_rejected why), s) \<and>
     jn_rows s = jn_rows (ag_journal porch_agent)"
proof -
  have "hd (jn_rows (ag_journal porch_agent)) \<in> set (jn_rows (ag_journal porch_agent))"
    "lr_nonce (hd (jn_rows (ag_journal porch_agent))) = cmd_nonce (en_command porch_envelope)"
    by (simp_all add: porch_rows porch_envelope_def)
  then show ?thesis using replay_refused [OF porch_reached rtranclp.rtrancl_refl] by blast
qed

text \<open>C14: bounded commands end without the cloud. In every state the agent can reach, a recovery in
  which the devices report the state each due ending asks for returns normally and leaves no ending
  due, also when the clock moved backwards and every open ending is due at once.\<close>

theorem endings_recovered:
  assumes "(link_step e)\<^sup>*\<^sup>* (fresh_agent home key) g"
    and "\<And>xs s. due_endings e now (ag_journal g) = (Inr xs, s) \<Longrightarrow> reaches e w xs (length (ag_applied g))"
  shows "\<exists>g'. recover e w now g = (Inr (), g') \<and> (\<forall>r \<in> set (jn_rows (ag_journal g')). \<not> due_now (ag_journal g') now r)"
  using reached_ok [OF assms(1)] recovery assms(2) by blast

theorem endings_recovered_witness:
  "\<exists>g'. recover porch_env porch_world 61000000 porch_agent = (Inr (), g') \<and> list_all (\<lambda>r. \<not> due_now (ag_journal g') 61000000 r) (jn_rows (ag_journal g'))"
proof -
  obtain b where "due_endings porch_env 61000000 (ag_journal porch_agent) = (Inr [(porch_envelope, b)], (ag_journal porch_agent)\<lparr>jn_last := Some 61000000\<rparr>)"
    and "effect_seen porch_env b [(''on'', PBool False)]" using porch_due by blast
  then have "reaches porch_env porch_world xs (length (ag_applied porch_agent))"
    if "due_endings porch_env 61000000 (ag_journal porch_agent) = (Inr xs, s)" for xs s
    using that by (simp add: reaches_def porch_rows porch_world_def)
  from endings_recovered [OF porch_reached this] show ?thesis by (auto simp: list_all_iff)
qed

text \<open>What the cloud signs, the home claims. When the signature scheme verifies its own signatures,
  a command signed for this home is claimed under the approved hash at every instant of the following
  minute at which its action is due, unless the clock moved back, it was claimed before, or an ending
  is open on its target, or its own ending lies beyond the calendar.\<close>

theorem signed_command_claimed:
  assumes "\<forall>m. li_verify e m (li_sign e m)" and "sign_command e a (jn_home s) approved t0 nonce = Inr v"
    and "t0 \<le> now" and "now < t0 + minute" and "action_due a now" and "\<not> moved_back s now" and "\<not> already_claimed s (en_command v) now"
    and "\<And>r. r \<in> set (jn_rows s) \<Longrightarrow> lr_target r = entity (a_target a) \<Longrightarrow> \<not> ending_pending r"
    and "\<exists>due. ending_instant e a now = Inr due"
  shows "\<exists>s'. reserve e (Parsed v) now s = (Inr v, s') \<and> (\<exists>r \<in> set (jn_rows s'). lr_envelope r = v \<and> lr_accepted r = now \<and> lr_hash r = approved)"
  using assms by (rule signed_claimed)

theorem signed_command_claimed_witness:
  "\<exists>s'. reserve porch_env (Parsed porch_envelope) 1000000 (initialize_journal ''home'' ''key'') = (Inr porch_envelope, s') \<and>
     (\<exists>r \<in> set (jn_rows s'). lr_envelope r = porch_envelope \<and> lr_accepted r = 1000000 \<and> lr_hash r = ''sha256:d'')"
proof (rule signed_command_claimed)
  show "sign_command porch_env porch_action (jn_home (initialize_journal ''home'' ''key'')) ''sha256:d'' 0 ''n1'' = Inr porch_envelope"
    using porch_signed by (simp add: initialize_journal_def)
  show "action_due porch_action 1000000" by code_simp
  have "case ending_instant porch_env porch_action 1000000 of Inl _ \<Rightarrow> False | Inr _ \<Rightarrow> True" by code_simp
  then show "\<exists>due. ending_instant porch_env porch_action 1000000 = Inr due" by (simp split: sum.split_asm)
qed (simp_all add: porch_env_def initialize_journal_def moved_back_def already_claimed_def minute_def us_per_second_def)

text \<open>The gate in front of the devices, which checks every application against the journal again,
  opens for what the agent does: for each ending that a recovery took from the journal, from then on
  (or, after the clock moved back, until then), and for a claimed opening as long as it is due and its
  signature has not run out.\<close>

theorem gate_opens_for_agent:
  assumes "(link_step e)\<^sup>*\<^sup>* (fresh_agent home key) g" and "s = ag_journal g"
  shows "(due_endings e now s = (Inr xs, s') \<longrightarrow> (v, b) \<in> set xs \<longrightarrow> (if moved_back s now then later \<le> now else now \<le> later) \<longrightarrow>
      authorized e s' v b later = Inr ()) \<and>
    (claim_command e value0 now s = Inr (v, s') \<longrightarrow> now \<le> later \<longrightarrow> later < cmd_expires (en_command v) \<longrightarrow>
      action_due (cmd_action (en_command v)) later \<longrightarrow> authorized e s' v (cmd_action (en_command v)) later = Inr ())"
  using reached_ok [OF assms(1)] ending_authorized opening_authorized assms(2) unfolding agent_ok_def by blast

theorem gate_opens_for_agent_witness:
  "\<exists>b. authorized porch_env ((ag_journal porch_agent)\<lparr>jn_last := Some 61000000\<rparr>) porch_envelope b 62000000 = Inr () \<and>
     effect_seen porch_env b [(''on'', PBool False)]"
proof -
  obtain b where d: "due_endings porch_env 61000000 (ag_journal porch_agent) = (Inr [(porch_envelope, b)], (ag_journal porch_agent)\<lparr>jn_last := Some 61000000\<rparr>)"
    and e: "effect_seen porch_env b [(''on'', PBool False)]" using porch_due by blast
  have "if moved_back (ag_journal porch_agent) 61000000 then (62000000 :: int) \<le> 61000000 else (61000000 :: int) \<le> 62000000"
    by (simp add: moved_back_def porch_rows)
  with gate_opens_for_agent [OF porch_reached refl, THEN conjunct1, rule_format, OF d, of porch_envelope b] e show ?thesis by auto
qed

end
