(* ===== verification/Plans.thy ===== *)
theory Plans
  imports Pipeline
begin

text \<open>
  Plans of a household: consent, revision, holding and cancelling, \<open>hirz/executor/plans.py\<close>, with the
  allocation of the granted budget (\<open>hirz/executor/budget.py\<close>) and the refresh jobs that a plan's lineage
  keeps (\<open>hirz/executor/refresh.py\<close>). These are the hooks the pipeline calls on the classes \<open>guarded\<close>: a
  mutation is prepared during assessment and committed after its decision was recorded; both run in the
  household's transaction, in which a clock is read once. A plan's runtime inputs are opaque here: what
  \<open>RuntimeInputs\<close> says of them are fields of \<open>plan_env\<close>.
\<close>

section \<open>Rows\<close>

datatype plan_status = Proposed | Refreshing | Awaiting_approval | Plan_approved | Active | Superseded | Completed | Abandoned

definition TERMINAL :: "plan_status set" where
  "TERMINAL = {Superseded, Completed, Abandoned}"

text \<open>\<open>Plan\<close>; \<open>pl_rest\<close> holds the fields that no operation here reads.\<close>

record plan_doc =
  pl_id :: string
  pl_home :: string
  pl_version :: int
  pl_supersedes :: "string option"
  pl_start :: int
  pl_end :: int
  pl_goals :: "string list"
  pl_actions :: "string list"
  pl_electricity :: dec
  pl_wear :: dec
  pl_status :: plan_status
  pl_rest :: pv

text \<open>An interval of reserved money; an allocation names the grant that pays it and the grant's day.\<close>

type_synonym interval = "int \<times> int \<times> dec"

record plan_reservation =
  rv_allocations :: "(interval \<times> string \<times> pv) list"
  rv_estimates :: "interval list option"

record plan_row =
  pw_doc :: plan_doc
  pw_runtime :: "pv option"
  pw_reservation :: "plan_reservation option"
  pw_requester :: "principal option"
  pw_lineage :: "string option"
  pw_accepted :: "int option"
  pw_approver :: "principal option"
  pw_member :: "string option"
  pw_seq :: int

record refresh_job =
  rj_lineage :: string
  rj_plan :: string
  rj_state :: string
  rj_requested :: nat
  rj_running :: "nat option"
  rj_reasons :: "string list"
  rj_explicit :: bool
  rj_attempts :: nat
  rj_next :: "int option"
  rj_blocking :: "string option"
  rj_fingerprint :: pv
  rj_seq :: int

record plan_tables =
  pt_house :: house
  pt_plans :: "plan_row list"
  pt_links :: "(string \<times> string) list"
  pt_jobs :: "refresh_job list"

text \<open>
  \<open>pe_valid_runtime\<close>: \<open>RuntimeInputs.model_validate\<close> and \<open>validate_plan\<close>; \<open>pe_estimates\<close>, \<open>pe_preserves\<close>
  and \<open>pe_objective\<close>: its estimates, \<open>preserves\<close> and \<open>OBJECTIVE_GOALS\<close> of its objective;
  \<open>pe_fingerprint\<close>: the inputs a plan was computed from, as they are now; \<open>pe_same_inputs\<close>: equal up to
  controls the plan itself moved; \<open>pe_decision\<close>: \<open>Decision.model_validate\<close>; \<open>pe_prepared\<close>: the
  narration attached to a plan; \<open>pe_json\<close>: the plan's JSON document.
\<close>

record plan_env =
  pe_plant :: plant
  pe_now :: int
  pe_valid_runtime :: "pv \<Rightarrow> plan_doc \<Rightarrow> bool"
  pe_estimates :: "pv \<Rightarrow> interval list"
  pe_preserves :: "pv \<Rightarrow> pv \<Rightarrow> bool"
  pe_objective :: "pv \<Rightarrow> string list option"
  pe_fingerprint :: "plan_tables \<Rightarrow> plan_row \<Rightarrow> pv"
  pe_same_inputs :: "pv \<Rightarrow> pv \<Rightarrow> bool"
  pe_decision :: "pv \<Rightarrow> decision option"
  pe_prepared :: "plan_doc \<Rightarrow> pv"
  pe_json :: "plan_doc \<Rightarrow> pv"

definition get_plan :: "plan_tables \<Rightarrow> string \<Rightarrow> plan_row result" where
  "get_plan t i = of_opt ValueError (find (\<lambda>w. pl_id (pw_doc w) = i) (pt_plans t))"

definition update_plan :: "string \<Rightarrow> (plan_row \<Rightarrow> plan_row) \<Rightarrow> plan_tables \<Rightarrow> plan_tables" where
  "update_plan i f t = t\<lparr>pt_plans := map (\<lambda>w. if pl_id (pw_doc w) = i then f w else w) (pt_plans t)\<rparr>"

definition put_status :: "plan_status \<Rightarrow> plan_row \<Rightarrow> plan_row" where
  "put_status st w = w\<lparr>pw_doc := (pw_doc w)\<lparr>pl_status := st\<rparr>\<rparr>"

definition plan_event ::
  "plan_env \<Rightarrow> event_type \<Rightarrow> pdict \<Rightarrow> plan_tables \<Rightarrow> (int \<times> plan_tables) result"
where
  "plan_event e ev payload t =
     rbind (write_event (pe_plant e) (pe_now e) ev (\<lambda>_. PDict payload) (pt_house t)) (\<lambda>(n, h). Inr (n, t\<lparr>pt_house := h\<rparr>))"

section \<open>Authority and money\<close>

definition eligible :: "constitution \<Rightarrow> requester \<Rightarrow> principal \<Rightarrow> bool result" where
  "eligible pol m pr =
     (if member_id m = None then Inr False
      else
        rbind (mapM (\<lambda>r. if r \<in> {Owner, Adult, Caregiver} then domain_allowed pol r ''energy.optimize_cost'' else Inr False)
          (remdups [rq_role m, case claimed_role pr of None \<Rightarrow> rq_role m | Some r \<Rightarrow> r])) (\<lambda>oks. Inr (list_all (\<lambda>b. b) oks)))"

definition lineage_of :: "plan_row \<Rightarrow> string" where
  "lineage_of w = (case pw_lineage w of None \<Rightarrow> pl_id (pw_doc w) | Some l \<Rightarrow> if l = [] then pl_id (pw_doc w) else l)"

definition job_for :: "plan_tables \<Rightarrow> plan_row \<Rightarrow> refresh_job option" where
  "job_for t w = find (\<lambda>j. rj_lineage j = lineage_of w) (pt_jobs t)"

definition fresh :: "plan_env \<Rightarrow> plan_tables \<Rightarrow> plan_row \<Rightarrow> bool" where
  "fresh e t w \<longleftrightarrow> pw_runtime w \<noteq> None \<and>
     (case job_for t w of None \<Rightarrow> True
      | Some j \<Rightarrow> rj_state j = ''idle'' \<and> pe_same_inputs e (rj_fingerprint j) (pe_fingerprint e t w))"

definition execution_authority ::
  "plan_env \<Rightarrow> plan_tables \<Rightarrow> (string \<times> string) option \<Rightarrow> action \<Rightarrow> principal \<Rightarrow> unit result"
where
  "execution_authority e t command a pr =
     rbind (of_opt ValueError (plan_id a)) (\<lambda>i.
     rbind (get_plan t i) (\<lambda>w.
     rbind (resolve_member (pt_house t) pr) (\<lambda>m.
     rbind (eligible (policy (base_desk (pe_plant e))) m pr) (\<lambda>ok.
       guard PlanAuthorityChanged (fresh e t w \<and> (i, action_id a) \<in> set (pt_links t) \<and>
         (pl_status (pw_doc w) \<in> {Plan_approved, Active} \<or>
          pl_status (pw_doc w) = Awaiting_approval \<and> command = Some (''resume'', action_id a)) \<and>
         pw_approver w = Some (identity pr) \<and> p_surface pr = Scheduler \<and> pw_member w \<noteq> None \<and> pw_member w = member_id m \<and> ok)))))"

text \<open>The newest reading of each EV, by the text of its instant.\<close>

definition ev_step :: "string list \<Rightarrow> observation \<Rightarrow> (string \<times> observation) list \<Rightarrow> (string \<times> observation) list" where
  "ev_step evs ob latest =
     (case o_asset_id ob of
        None \<Rightarrow> latest
      | Some x \<Rightarrow>
          if x \<in> set evs \<and> o_domain ob = Some ''ev'' \<and>
             (case map_of latest x of None \<Rightarrow> True | Some old \<Rightarrow> observed_at old < observed_at ob)
          then dict_set x ob latest else latest)"

fun least_value :: "pv list \<Rightarrow> pv" where
  "least_value [] = PNone"
| "least_value [v] = v"
| "least_value (v # w # vs) = least_value ((case (num_of v, num_of w) of (Some x, Some y) \<Rightarrow> if y < x then w else v | _ \<Rightarrow> v) # vs)"

definition budget_params :: "plan_env \<Rightarrow> plan_tables \<Rightarrow> plan_doc \<Rightarrow> pdict result" where
  "budget_params e t d =
     rbind (house_snapshot (pe_plant e) (pt_house t) (pe_now e)) (\<lambda>sn.
     let evs = map as_id (filter (\<lambda>x. as_kind x = ''ev'') (s_assets sn));
         latest = fold (ev_step evs) (observations sn) [];
         socs = map (\<lambda>(_, ob). dict_get (o_state ob) ''soc'' PNone) latest in
     Inr ([(''plan_id'', PStr (pl_id d)), (''plan_hash'', PStr (H (pe_plant e) (pe_json e d)))] @
       (if evs \<noteq> [] \<and> set evs = fst ` set latest \<and> PNone \<notin> set socs then [(''ev_soc_floor'', least_value socs)] else [])))"

definition interval_sum :: "interval list \<Rightarrow> dec" where
  "interval_sum xs = dec_sum (map (\<lambda>(_, _, x). x) xs)"

definition reservation :: "plan_env \<Rightarrow> plan_row \<Rightarrow> dec" where
  "reservation e w =
     (case Option.bind (pw_reservation w) rv_estimates of
        Some xs \<Rightarrow> interval_sum xs
      | None \<Rightarrow>
          (case pw_runtime w of
             Some r \<Rightarrow> interval_sum (pe_estimates e r)
           | None \<Rightarrow> (let x = dec_add (pl_electricity (pw_doc w)) (pl_wear (pw_doc w)) in if 0 < dec_rat x then x else Dec 0 0)))"

text \<open>\<open>allocate\<close> of \<open>budget.py\<close>: the granted amounts are bound to the grant and its day.\<close>

definition estimates_of :: "plan_env \<Rightarrow> plan_row \<Rightarrow> pv \<Rightarrow> interval list" where
  "estimates_of e w r = (case Option.bind (pw_reservation w) rv_estimates of None \<Rightarrow> pe_estimates e r | Some xs \<Rightarrow> xs)"

definition allocated :: "plan_env \<Rightarrow> plan_row \<Rightarrow> pv \<Rightarrow> string \<Rightarrow> pv \<Rightarrow> plan_reservation" where
  "allocated e w r budget date =
     \<lparr>rv_allocations = (case pw_reservation w of None \<Rightarrow> [] | Some v \<Rightarrow> rv_allocations v) @ map (\<lambda>i. (i, budget, date)) (estimates_of e w r),
      rv_estimates = Option.bind (pw_reservation w) rv_estimates\<rparr>"

definition allocate :: "plan_env \<Rightarrow> plan_row \<Rightarrow> string \<Rightarrow> plan_tables \<Rightarrow> plan_tables result" where
  "allocate e w budget t =
     rbind (of_opt ValueError (pw_runtime w)) (\<lambda>r.
     rbind (of_opt PipelineError (find_action (pt_house t) budget)) (\<lambda>x.
     rbind (of_opt PipelineError (grant_seq x)) (\<lambda>n.
     rbind (find_event (pt_house t) n) (\<lambda>g.
     rbind (guard TypeError (pv_get (r_payload g) ''budget'' \<noteq> PNone)) (\<lambda>_.
     let date = pv_get (pv_get (r_payload g) ''budget'') ''local_date'' in
       Inr (update_plan (pl_id (pw_doc w)) (\<lambda>v. v\<lparr>pw_reservation := Some (allocated e w r budget date)\<rparr>) t))))))"

section \<open>Preparing a mutation\<close>

text \<open>The parameters of a plan mutation, by their set of keys.\<close>

datatype plan_mutation =
    Put_plan (mu_revise: bool) (mu_plan: plan_doc) (mu_actions: "action list") (mu_runtime: "pv option") (mu_autonomous: bool)
  | Approve_plan string string
  | Cancel_plan string

definition plan_valid :: "plan_doc \<Rightarrow> bool" where
  "plan_valid d \<longleftrightarrow> 1 \<le> pl_version d \<and> pl_start d < pl_end d"

definition put_scope :: "plan_env \<Rightarrow> plan_tables \<Rightarrow> plan_doc \<Rightarrow> action list \<Rightarrow> bool" where
  "put_scope e t d as \<longleftrightarrow>
     pl_home d = household_id (pe_plant e) \<and> pl_status d = Proposed \<and> pl_actions d = map action_id as \<and> distinct (pl_actions d) \<and>
     (\<forall>a \<in> set as. plan_id a = Some (pl_id d) \<and>
        (case scheduled_for a of None \<Rightarrow> False | Some s \<Rightarrow> pl_start d \<le> s \<and> s \<le> pl_end d)) \<and>
     pl_id d \<notin> (\<lambda>w. pl_id (pw_doc w)) ` set (pt_plans t) \<and>
     (\<forall>x \<in> set (actions (pt_house t)). action_id (proposal x) \<notin> set (pl_actions d))"

text \<open>New goals of an automatic revision are those of an explicitly requested objective.\<close>

definition goals_kept :: "plan_env \<Rightarrow> plan_tables \<Rightarrow> plan_row \<Rightarrow> plan_doc \<Rightarrow> pv option \<Rightarrow> bool" where
  "goals_kept e t old d runtime \<longleftrightarrow> pl_goals d = pl_goals (pw_doc old) \<or>
     (case (job_for t old, pw_runtime old, runtime) of
        (Some j, Some r, Some r') \<Rightarrow> rj_explicit j \<and> pe_objective e r \<noteq> None \<and>
          Some (pl_goals d) = map_option (\<lambda>g. g @ [''comfort'', ''ev_deadline'']) (pe_objective e r) \<and> pe_objective e r' = pe_objective e r
      | _ \<Rightarrow> False)"

definition first_of :: "'a option \<Rightarrow> 'a option \<Rightarrow> 'a option" where
  "first_of x y = (case x of None \<Rightarrow> y | Some v \<Rightarrow> Some v)"

definition revision_ok ::
  "plan_env \<Rightarrow> plan_tables \<Rightarrow> plan_row \<Rightarrow> plan_doc \<Rightarrow> pv option \<Rightarrow> bool \<Rightarrow> requester \<Rightarrow> principal \<Rightarrow> bool"
where
  "revision_ok e t old d runtime autonomous m pr \<longleftrightarrow>
     pl_end d = pl_end (pw_doc old) \<and> pl_start (pw_doc old) \<le> pl_start d \<and>
     (autonomous \<longrightarrow> goals_kept e t old d runtime) \<and>
     (case (pw_runtime old, runtime) of (Some r, Some r') \<Rightarrow> pe_preserves e r' r | _ \<Rightarrow> True) \<and>
     (autonomous \<longrightarrow> p_surface pr = Scheduler \<and> first_of (pw_approver old) (pw_requester old) = Some (identity pr) \<and>
        (pw_member old = None \<or> pw_member old = member_id m)) \<and>
     pl_version d = pl_version (pw_doc old) + 1 \<and> pl_status (pw_doc old) \<notin> TERMINAL"

definition prepare_put ::
  "plan_env \<Rightarrow> plan_tables \<Rightarrow> requester \<Rightarrow> principal \<Rightarrow> bool \<Rightarrow> plan_doc \<Rightarrow> action list \<Rightarrow> pv option \<Rightarrow> bool \<Rightarrow> unit result"
where
  "prepare_put e t m pr revise d as runtime autonomous =
     rbind (eligible (policy (base_desk (pe_plant e))) m pr) (\<lambda>ok.
     rbind (guard ValueError (ok \<and> (p_surface pr = Scheduler \<longrightarrow> autonomous))) (\<lambda>_.
     rbind (guard ValueError (plan_valid d)) (\<lambda>_.
     rbind (guard ValueError (case runtime of None \<Rightarrow> True | Some r \<Rightarrow> pe_valid_runtime e r d)) (\<lambda>_.
     rbind (mapM (validate (H (pe_plant e)) (secs (pe_plant e))) as) (\<lambda>_.
     rbind (guard ValueError (put_scope e t d as)) (\<lambda>_.
     if revise then
       rbind (guard ValueError (pl_supersedes d \<noteq> None \<and> pl_supersedes d \<noteq> Some [])) (\<lambda>_.
       rbind (get_plan t (the (pl_supersedes d))) (\<lambda>old.
         guard ValueError (revision_ok e t old d runtime autonomous m pr)))
     else guard ValueError (\<not> autonomous \<and> pl_supersedes d = None \<and> pl_version d = 1)))))))"

definition prepare_cancel :: "plan_row \<Rightarrow> requester \<Rightarrow> principal \<Rightarrow> unit result" where
  "prepare_cancel w m pr =
     guard ValueError (member_id m \<noteq> None \<and> (rq_role m = Owner \<or> pw_member w = member_id m) \<and>
       (claimed_role pr = None \<or> claimed_role pr = Some Owner \<or> pw_member w = member_id m))"

definition prepare_approve :: "plan_env \<Rightarrow> plan_tables \<Rightarrow> plan_row \<Rightarrow> requester \<Rightarrow> principal \<Rightarrow> string \<Rightarrow> unit result" where
  "prepare_approve e t w m pr budget =
     rbind (eligible (policy (base_desk (pe_plant e))) m pr) (\<lambda>ok.
     rbind (guard ValueError (fresh e t w \<and> ok \<and> (p_surface pr = Scheduler \<longrightarrow> pw_approver w = Some (identity pr)) \<and>
       pl_status (pw_doc w) = Proposed)) (\<lambda>_.
     rbind (of_opt ValueError (find_action (pt_house t) budget)) (\<lambda>x.
     rbind (budget_params e t (pw_doc w)) (\<lambda>ps.
     rbind (guard ValueError (grant_seq x \<noteq> None \<and> ar_principal x = identity pr \<and>
       action_class (proposal x) = ''energy.optimize_cost'' \<and> params (proposal x) = ps)) (\<lambda>_.
     rbind (of_opt TypeError (ar_cost x)) (\<lambda>c. guard ValueError (dec_rat c = dec_rat (reservation e w))))))))"

definition prepare_plan :: "plan_env \<Rightarrow> plan_tables \<Rightarrow> plan_mutation \<Rightarrow> principal \<Rightarrow> unit result" where
  "prepare_plan e t mu pr =
     rbind (resolve_member (pt_house t) pr) (\<lambda>m.
     case mu of
       Put_plan revise d as runtime autonomous \<Rightarrow> prepare_put e t m pr revise d as runtime autonomous
     | Cancel_plan i \<Rightarrow> rbind (get_plan t i) (\<lambda>w. prepare_cancel w m pr)
     | Approve_plan i budget \<Rightarrow> rbind (get_plan t i) (\<lambda>w. prepare_approve e t w m pr budget))"

section \<open>Stopping what has not started\<close>

definition linked_ids :: "plan_tables \<Rightarrow> string \<Rightarrow> string list" where
  "linked_ids t i = map snd (filter (\<lambda>(p, _). p = i) (pt_links t))"

definition unstarted :: "plan_tables \<Rightarrow> string \<Rightarrow> action_row list" where
  "unstarted t i = filter (\<lambda>x. action_id (proposal x) \<in> set (linked_ids t i) \<and> attempt_seq x = None) (actions (pt_house t))"

definition expire_many :: "plan_env \<Rightarrow> string list \<Rightarrow> event_type \<Rightarrow> house \<Rightarrow> house result" where
  "expire_many e is ev h =
     (if is = [] then Inr h
      else case append_many (H (pe_plant e)) (sign (pe_plant e)) (fp (pe_plant e)) (household_id (pe_plant e))
             (map (\<lambda>i. (pe_now e, event_name EXPIRED, \<lambda>_. PDict [(''approval_id'', PStr i), (''reason'', PStr (event_name ev))])) is)
             (audit h) of
           Inl x \<Rightarrow> Inl (audit_error x)
         | Inr (_, db) \<Rightarrow> Inr (fold (\<lambda>i. set_status i Expired) is (h\<lparr>audit := db\<rparr>)))"

definition open_approvals :: "house \<Rightarrow> string list \<Rightarrow> string list" where
  "open_approvals h is = map approval_id (filter (\<lambda>x. ap_action_id x \<in> set is \<and> ap_status x \<in> {Pending, Approved}) (approvals h))"

definition stop_unstarted ::
  "plan_env \<Rightarrow> string \<Rightarrow> event_type \<Rightarrow> string \<Rightarrow> string option \<Rightarrow> plan_tables \<Rightarrow> plan_tables result"
where
  "stop_unstarted e i ev status preserve t =
     (let rows = unstarted t i;
          ids = map (action_id \<circ> proposal) (filter (\<lambda>x. execution_status x \<noteq> Some ''skipped'') rows);
          closing = filter (\<lambda>x. Some x \<noteq> preserve) (map (action_id \<circ> proposal) rows) in
      rbind (transition_many (pe_plant e) ids status ev [(''plan_id'', PStr i)] (pe_now e) (pt_house t)) (\<lambda>h1.
      rbind (expire_many e (open_approvals h1 closing) ev h1) (\<lambda>h2. Inr (t\<lparr>pt_house := h2\<rparr>))))"

section \<open>Refresh jobs\<close>

definition new_refresh_job :: "plan_row \<Rightarrow> refresh_job" where
  "new_refresh_job w = \<lparr>rj_lineage = lineage_of w, rj_plan = pl_id (pw_doc w), rj_state = ''idle'', rj_requested = 0, rj_running = None,
     rj_reasons = [], rj_explicit = False, rj_attempts = 0, rj_next = None, rj_blocking = None, rj_fingerprint = PDict [], rj_seq = 0\<rparr>"

definition save_job ::
  "plan_env \<Rightarrow> plan_row \<Rightarrow> pv \<Rightarrow> (refresh_job \<Rightarrow> refresh_job) \<Rightarrow> int option \<Rightarrow> plan_tables \<Rightarrow> plan_tables result"
where
  "save_job e w values f decision t =
     rbind (plan_event e PLAN_REFRESH [(''lineage_id'', PStr (lineage_of w)), (''plan_id'', PStr (pl_id (pw_doc w))),
       (''transition'', values), (''decision_seq'', opt_pv PInt decision)] t) (\<lambda>(n, t1).
     Inr (if job_for t w \<noteq> None
       then t1\<lparr>pt_jobs := map (\<lambda>j. if rj_lineage j = lineage_of w then (f j)\<lparr>rj_seq := n\<rparr> else j) (pt_jobs t1)\<rparr>
       else t1\<lparr>pt_jobs := pt_jobs t1 @ [(f (new_refresh_job w))\<lparr>rj_seq := n\<rparr>]\<rparr>))"

definition already_queued :: "refresh_job option \<Rightarrow> string \<Rightarrow> bool \<Rightarrow> pv option \<Rightarrow> bool" where
  "already_queued old why explicit print =
     (case old of None \<Rightarrow> False
      | Some j \<Rightarrow> rj_state j \<in> {''queued'', ''running''} \<and> why \<in> set (rj_reasons j) \<and> (explicit \<longrightarrow> rj_explicit j) \<and>
          (print = None \<or> print = Some (rj_fingerprint j)))"

text \<open>The next generation, the reasons without repetition, explicitness and the fingerprint.\<close>

definition queue_fields :: "refresh_job option \<Rightarrow> string \<Rightarrow> bool \<Rightarrow> pv option \<Rightarrow> nat \<times> string list \<times> bool \<times> pv" where
  "queue_fields old why explicit print =
     ((case old of None \<Rightarrow> 0 | Some j \<Rightarrow> rj_requested j) + 1,
      rev (remdups (rev ((case old of None \<Rightarrow> [] | Some j \<Rightarrow> rj_reasons j) @ [why]))),
      explicit \<or> (case old of None \<Rightarrow> False | Some j \<Rightarrow> rj_explicit j),
      (case print of Some v \<Rightarrow> v | None \<Rightarrow> (case old of None \<Rightarrow> PDict [] | Some j \<Rightarrow> rj_fingerprint j)))"

fun queue_values :: "nat \<times> string list \<times> bool \<times> pv \<Rightarrow> pv" where
  "queue_values (n, whys, ex, fpr) = PDict [(''state'', PStr ''queued''), (''requested_generation'', PInt (int n)),
     (''reasons'', PList (map PStr whys)), (''explicit'', PBool ex), (''attempts'', PInt 0), (''next_retry'', PNone),
     (''blocking_reason'', PNone), (''fingerprint'', fpr)]"

fun queue_update :: "nat \<times> string list \<times> bool \<times> pv \<Rightarrow> refresh_job \<Rightarrow> refresh_job" where
  "queue_update (n, whys, ex, fpr) j = j\<lparr>rj_state := ''queued'', rj_requested := n, rj_reasons := whys, rj_explicit := ex,
     rj_attempts := 0, rj_next := None, rj_blocking := None, rj_fingerprint := fpr\<rparr>"

definition queue_refresh ::
  "plan_env \<Rightarrow> plan_row \<Rightarrow> string \<Rightarrow> bool \<Rightarrow> pv option \<Rightarrow> int option \<Rightarrow> plan_tables \<Rightarrow> plan_tables result"
where
  "queue_refresh e w why explicit print decision t =
     (if pl_status (pw_doc w) \<in> TERMINAL \<or> already_queued (job_for t w) why explicit print then Inr t
      else
        (let fs = queue_fields (job_for t w) why explicit print in
         rbind (save_job e w (queue_values fs) (queue_update fs) decision t) (\<lambda>t1.
         rbind (stop_unstarted e (pl_id (pw_doc w)) PLAN_REFRESH ''held'' None t1) (\<lambda>t2.
           Inr (update_plan (pl_id (pw_doc w)) (\<lambda>v. v\<lparr>pw_doc := (pw_doc w)\<lparr>pl_status := Refreshing\<rparr>\<rparr>) t2)))))"

section \<open>Holding\<close>

text \<open>A plan's document is written back as it was read, with another status.\<close>

definition mark_plan :: "plan_row \<Rightarrow> plan_status \<Rightarrow> int \<Rightarrow> plan_tables \<Rightarrow> plan_tables" where
  "mark_plan w st n = update_plan (pl_id (pw_doc w)) (\<lambda>v. v\<lparr>pw_doc := (pw_doc w)\<lparr>pl_status := st\<rparr>, pw_seq := n\<rparr>)"

definition plan_of :: "action \<Rightarrow> string option" where
  "plan_of a = (case plan_id a of None \<Rightarrow> None | Some i \<Rightarrow> if i = [] then None else Some i)"

definition hold_plan :: "plan_env \<Rightarrow> action \<Rightarrow> string \<Rightarrow> string \<Rightarrow> plan_tables \<Rightarrow> plan_tables result" where
  "hold_plan e a i why t =
     rbind (get_plan t i) (\<lambda>w.
     rbind (if pl_status (pw_doc w) \<in> TERMINAL then Inr t
            else rbind (stop_unstarted e i EXECUTION_HELD ''held'' None t) (\<lambda>t1.
              rbind (plan_event e EXECUTION_HELD [(''plan_id'', PStr i), (''status'', PStr ''refreshing''),
                (''trigger_action'', PStr (action_id a))] t1) (\<lambda>(n, t2). Inr (mark_plan w Refreshing n t2)))) (\<lambda>t3.
     rbind (get_plan t3 i) (\<lambda>v. queue_refresh e v why False None None t3)))"

definition hold :: "plan_env \<Rightarrow> action \<Rightarrow> string \<Rightarrow> string \<Rightarrow> plan_tables \<Rightarrow> plan_tables result" where
  "hold e a member why t =
     rbind (case plan_of a of None \<Rightarrow> Inr t | Some i \<Rightarrow> hold_plan e a i why t) (\<lambda>t1.
     rbind (notice (pe_plant e) member (action_id a)
       ((if plan_of a \<noteq> None then ''A plan needs your attention. Review and revise it to continue. ''
         else ''A request needs your attention. Review it before trying again. '') @ why) (pe_now e) (pt_house t1)) (\<lambda>h.
       Inr (t1\<lparr>pt_house := h\<rparr>)))"

text \<open>A question of a scheduled action pauses its plan, without expiring that question.\<close>

definition await_approval :: "plan_env \<Rightarrow> action \<Rightarrow> decision \<Rightarrow> plan_tables \<Rightarrow> plan_tables result" where
  "await_approval e a d t =
     rbind (of_opt ValueError (plan_of a)) (\<lambda>i.
     rbind (of_opt ValueError (d_approval d)) (\<lambda>x.
     rbind (get_plan t i) (\<lambda>w.
     rbind (stop_unstarted e i EXECUTION_HELD ''held'' (Some (action_id a)) t) (\<lambda>t1.
     rbind (row (pt_house t1) (action_id a)) (\<lambda>r.
     rbind (of_opt TypeError (ar_lifecycle r)) (\<lambda>lc.
     let t2 = t1\<lparr>pt_house := update_action (action_id a)
       (\<lambda>v. v\<lparr>ar_lifecycle := Some (lc\<lparr>lc_approval_id := Some (ae_approval_id x)\<rparr>)\<rparr>) (pt_house t1)\<rparr> in
     rbind (plan_event e EXECUTION_HELD [(''plan_id'', PStr i), (''status'', PStr ''awaiting_approval''), (''trigger_action'', PStr (action_id a)),
       (''approval_id'', PStr (ae_approval_id x)), (''decision_seq'', opt_pv PInt (audit_id d))] t2) (\<lambda>(n, t3).
       Inr (mark_plan w Awaiting_approval n t3))))))))"

text \<open>What the worker does when a due action was not granted, in \<open>Executor.run\<close>.\<close>

definition park :: "plan_env \<Rightarrow> action \<Rightarrow> decision \<Rightarrow> string \<Rightarrow> plan_tables \<Rightarrow> plan_tables result" where
  "park e a d member t =
     rbind (transition (pe_plant e) (action_id a) ''held'' EXECUTION_HELD [(''reason'', PStr (event_name (d_event d))),
       (''decision_seq'', opt_pv PInt (audit_id d))] (pe_now e) (pt_house t)) (\<lambda>(_, h).
     if plan_of a \<noteq> None \<and> d_kind d = Kask \<and> d_approval d \<noteq> None then await_approval e a d (t\<lparr>pt_house := h\<rparr>)
     else hold e a member ''Current household rules require a new decision.'' (t\<lparr>pt_house := h\<rparr>))"

section \<open>Resuming\<close>

text \<open>The paused action may still run, before its votes are counted.\<close>

definition resumable :: "plan_env \<Rightarrow> plan_tables \<Rightarrow> plan_row \<Rightarrow> action_row \<Rightarrow> approval_row option \<Rightarrow> string \<Rightarrow> bool" where
  "resumable e t w r x apr =
     (case (x, scheduled_for (proposal r), expected_effect (proposal r)) of
        (Some v, Some s, Some ef) \<Rightarrow>
          ap_action_id v = action_id (proposal r) \<and> Option.bind (ar_lifecycle r) lc_approval_id = Some apr \<and>
          attempt_seq r = None \<and> execution_status r = Some ''held'' \<and>
          content_hash (proposal r) = action_hash (H (pe_plant e)) (proposal r) \<and> s \<le> pe_now e \<and> pe_now e < ef_by ef \<and>
          (case a_revert (proposal r) of None \<Rightarrow> True | Some rv \<Rightarrow> pe_now e < s + seconds_us (after_s rv)) \<and>
          ap_status v \<in> {Pending, Approved} \<and> pe_now e < expires_at v \<and> fresh e t w
      | _ \<Rightarrow> False)"

text \<open>The votes on a question that today's assessment still asks; nothing when it no longer does.\<close>

definition resume_votes :: "plan_env \<Rightarrow> plan_tables \<Rightarrow> action_row \<Rightarrow> approval_row \<Rightarrow> bool option result" where
  "resume_votes e t r x =
     (let p = pe_plant e; h = pt_house t; a = proposal r; pr = ar_principal r in
      rbind (assess_operation (H p) (secs p) (desk_of p h) a pr (ar_cost r) [] (pe_now e) None None) (\<lambda>ev.
      if d_kind (ev_decision ev) \<notin> {Kexecute, Kask} \<or>
         d_event (ev_decision ev) \<in> {ASK_UNRESOLVED_CONDITION, ASK_REQUESTER_CONFIRMATION} then Inr None
      else
        rbind (binding_of p a pr (ar_cost r) ev) (\<lambda>b.
        if \<not> compatible (ap_binding x) b then Inr None
        else rbind (eligible_votes h (approval_id x) ev) (\<lambda>(ok, _). Inr (Some ok)))))"

definition held_ids :: "plan_tables \<Rightarrow> string \<Rightarrow> string list" where
  "held_ids t i = map (action_id \<circ> proposal) (filter (\<lambda>x. action_id (proposal x) \<in> set (linked_ids t i) \<and>
     execution_status x = Some ''held'' \<and> attempt_seq x = None) (actions (pt_house t)))"

definition reschedule :: "plan_env \<Rightarrow> plan_row \<Rightarrow> string \<Rightarrow> string \<Rightarrow> plan_tables \<Rightarrow> plan_tables result" where
  "reschedule e w i apr t =
     rbind (plan_event e PLAN_REVISED [(''plan_id'', PStr i), (''status'', PStr ''approved''), (''approval_id'', PStr apr)] t)
       (\<lambda>(n, t1).
     rbind (foldM (\<lambda>j h. rbind (transition (pe_plant e) j ''scheduled'' SCHEDULED [(''plan_id'', PStr i)] (pe_now e) h) (\<lambda>(_, h'). Inr h'))
              (held_ids t1 i) (pt_house t1)) (\<lambda>h.
       Inr ((mark_plan w Plan_approved n t1)\<lparr>pt_house := h\<rparr>)))"

definition conclude_resume :: "plan_env \<Rightarrow> plan_row \<Rightarrow> action_row \<Rightarrow> string \<Rightarrow> bool option \<Rightarrow> plan_tables \<Rightarrow> plan_tables result" where
  "conclude_resume e w r apr answer t =
     (case answer of
        Some True \<Rightarrow> reschedule e w (pl_id (pw_doc w)) apr t
      | Some False \<Rightarrow> Inr t
      | None \<Rightarrow>
          rbind (of_opt TypeError (ar_lifecycle r)) (\<lambda>lc.
          rbind (of_opt TypeError (lc_member_id lc)) (\<lambda>m.
            hold e (proposal r) m ''The pending device approval is no longer valid.'' t)))"

definition resume :: "plan_env \<Rightarrow> plan_row \<Rightarrow> string \<Rightarrow> string \<Rightarrow> plan_tables \<Rightarrow> plan_tables result" where
  "resume e w i apr t =
     rbind (row (pt_house t) i) (\<lambda>r.
     rbind (guard ValueError (plan_id (proposal r) = Some (pl_id (pw_doc w)))) (\<lambda>_.
     if pl_status (pw_doc w) \<noteq> Awaiting_approval then Inr t
     else
       (let x = find_approval (pt_house t) apr in
        rbind (if resumable e t w r x apr then resume_votes e t r (the x) else Inr None) (\<lambda>answer.
          conclude_resume e w r apr answer t))))"

section \<open>Committing a mutation\<close>

text \<open>The recorded decision that carries the mutation: the action's identifier and the decision's number.\<close>

definition mutation_event :: "plan_mutation \<Rightarrow> event_type" where
  "mutation_event mu =
     (case mu of Put_plan revise _ _ _ _ \<Rightarrow> if revise then PLAN_REVISED else PLAN_CREATED
      | Approve_plan _ _ \<Rightarrow> PLAN_APPROVED | Cancel_plan _ \<Rightarrow> PLAN_CANCELLED)"

definition prepared_plan :: "plan_env \<Rightarrow> plan_doc \<Rightarrow> plan_doc" where
  "prepared_plan e d = d\<lparr>pl_rest := pe_prepared e d\<rparr>"

definition mutation_json :: "plan_env \<Rightarrow> plan_mutation \<Rightarrow> pv" where
  "mutation_json e mu =
     (case mu of
        Put_plan _ d as runtime autonomous \<Rightarrow>
          PDict ((case runtime of None \<Rightarrow> [] | Some r \<Rightarrow> [(''runtime'', r)]) @ (if autonomous then [(''autonomous'', PBool True)] else []) @
            [(''plan'', pe_json e (prepared_plan e d)), (''actions'', PList (map action_json as))])
      | Approve_plan i budget \<Rightarrow> PDict [(''plan_id'', PStr i), (''budget_action'', PStr budget)]
      | Cancel_plan i \<Rightarrow> PDict [(''plan_id'', PStr i)])"

definition mutation_payload :: "plan_env \<Rightarrow> string \<Rightarrow> int \<Rightarrow> requester \<Rightarrow> principal \<Rightarrow> plan_mutation \<Rightarrow> pdict" where
  "mutation_payload e i decision m pr mu =
     [(''action_id'', PStr i), (''decision_seq'', PInt decision), (''member_id'', opt_str (member_id m)),
      (''surface'', PStr (surface_name (p_surface pr))), (''mutation'', mutation_json e mu)]"

text \<open>A replaced plan is stopped; its approver carries over to an automatic replacement.\<close>

definition supersede ::
  "plan_env \<Rightarrow> plan_doc \<Rightarrow> bool \<Rightarrow> int \<Rightarrow> plan_tables \<Rightarrow> ((plan_row option \<times> bool) \<times> plan_tables) result"
where
  "supersede e d autonomous n t =
     (case pl_supersedes d of
        None \<Rightarrow> Inr ((None, False), t)
      | Some i \<Rightarrow>
          if i = [] then Inr ((None, False), t)
          else rbind (get_plan t i) (\<lambda>w.
            let inherited = (autonomous \<and> pw_approver w \<noteq> None \<and>
                  \<not> (case job_for t w of None \<Rightarrow> False | Some j \<Rightarrow> rj_explicit j)) in
            rbind (stop_unstarted e i PLAN_REVISED ''cancelled'' None t) (\<lambda>t1.
              Inr ((Some w, inherited), mark_plan w Superseded n t1))))"

definition new_plan_row ::
  "plan_env \<Rightarrow> plan_doc \<Rightarrow> pv option \<Rightarrow> requester \<Rightarrow> principal \<Rightarrow> plan_row option \<Rightarrow> bool \<Rightarrow> int \<Rightarrow> plan_row"
where
  "new_plan_row e d runtime m pr old inherited n =
     \<lparr>pw_doc = d, pw_runtime = runtime, pw_reservation = None, pw_requester = Some (identity (pr\<lparr>p_surface := Scheduler\<rparr>)),
      pw_lineage = Some (case old of None \<Rightarrow> pl_id d | Some w \<Rightarrow> lineage_of w), pw_accepted = Some (pe_now e),
      pw_approver = (if inherited then Option.bind old pw_approver else None), pw_member = (if inherited then member_id m else None),
      pw_seq = n\<rparr>"

definition insert_plan :: "plan_row \<Rightarrow> plan_tables \<Rightarrow> plan_tables result" where
  "insert_plan w t =
     rbind (guard PipelineError (pl_id (pw_doc w) \<notin> (\<lambda>v. pl_id (pw_doc v)) ` set (pt_plans t))) (\<lambda>_.
       Inr (t\<lparr>pt_plans := pt_plans t @ [w]\<rparr>))"

definition idle_job :: "plan_env \<Rightarrow> plan_row \<Rightarrow> int \<Rightarrow> plan_tables \<Rightarrow> plan_tables result" where
  "idle_job e w decision t =
     (let fpr = pe_fingerprint e t w; i = pl_id (pw_doc w) in
      save_job e w (PDict [(''plan_id'', PStr i), (''state'', PStr ''idle''), (''reasons'', PList []), (''explicit'', PBool False),
          (''blocking_reason'', PNone), (''next_retry'', PNone), (''fingerprint'', fpr)])
        (\<lambda>j. j\<lparr>rj_plan := i, rj_state := ''idle'', rj_reasons := [], rj_explicit := False, rj_blocking := None, rj_next := None,
           rj_fingerprint := fpr\<rparr>) (Some decision) t)"

definition link_action :: "plan_env \<Rightarrow> principal \<Rightarrow> string \<Rightarrow> action \<Rightarrow> plan_tables \<Rightarrow> plan_tables result" where
  "link_action e pr i a t =
     rbind (proposal_step (pe_plant e) a pr None (pt_house t)) (\<lambda>(_, _, _, h).
     rbind (guard PipelineError ((i, action_id a) \<notin> set (pt_links t))) (\<lambda>_.
       Inr (t\<lparr>pt_house := h, pt_links := pt_links t @ [(i, action_id a)]\<rparr>)))"

definition commit_put ::
  "plan_env \<Rightarrow> plan_doc \<Rightarrow> action list \<Rightarrow> pv option \<Rightarrow> bool \<Rightarrow> requester \<Rightarrow> principal \<Rightarrow> int \<Rightarrow> int \<Rightarrow> plan_tables \<Rightarrow> plan_tables result"
where
  "commit_put e d as runtime autonomous m pr decision n t =
     rbind (supersede e d autonomous n t) (\<lambda>((old, inherited), t1).
     let w = new_plan_row e (prepared_plan e d) runtime m pr old inherited n in
     rbind (insert_plan w t1) (\<lambda>t2.
     rbind (idle_job e w decision t2) (\<lambda>t3.
       foldM (link_action e pr (pl_id d)) as t3)))"

definition commit_cancel :: "plan_env \<Rightarrow> plan_row \<Rightarrow> int \<Rightarrow> int \<Rightarrow> plan_tables \<Rightarrow> plan_tables result" where
  "commit_cancel e w decision n t =
     rbind (save_job e w (PDict [(''state'', PStr ''cancelled''), (''next_retry'', PNone)])
       (\<lambda>j. j\<lparr>rj_state := ''cancelled'', rj_next := None\<rparr>) (Some decision) t) (\<lambda>t1.
     rbind (stop_unstarted e (pl_id (pw_doc w)) EXECUTION_CANCELLED ''cancelled'' None t1) (\<lambda>t2.
       Inr (mark_plan w Abandoned n t2)))"

definition scheduler_of :: "principal \<Rightarrow> principal" where
  "scheduler_of pr = pr\<lparr>p_surface := Scheduler, requester_confirmed := False, passkey_verified := False, verified_action_hash := None\<rparr>"

definition commit_approve :: "plan_env \<Rightarrow> plan_row \<Rightarrow> string \<Rightarrow> requester \<Rightarrow> principal \<Rightarrow> int \<Rightarrow> plan_tables \<Rightarrow> plan_tables result" where
  "commit_approve e w budget m pr n t =
     rbind (of_opt ValueError (member_id m)) (\<lambda>i.
       allocate e w budget (update_plan (pl_id (pw_doc w)) (\<lambda>v. v\<lparr>pw_doc := (pw_doc w)\<lparr>pl_status := Plan_approved\<rparr>,
         pw_approver := Some (identity (scheduler_of pr)), pw_member := Some i, pw_seq := n\<rparr>) t))"

definition commit_plan :: "plan_env \<Rightarrow> string \<Rightarrow> int \<Rightarrow> principal \<Rightarrow> plan_mutation \<Rightarrow> plan_tables \<Rightarrow> plan_tables result" where
  "commit_plan e i decision pr mu t =
     rbind (resolve_member (pt_house t) pr) (\<lambda>m.
     rbind (plan_event e (mutation_event mu) (mutation_payload e i decision m pr mu) t) (\<lambda>(n, t1).
     case mu of
       Put_plan _ d as runtime autonomous \<Rightarrow> commit_put e d as runtime autonomous m pr decision n t1
     | Cancel_plan j \<Rightarrow> rbind (get_plan t1 j) (\<lambda>w. commit_cancel e w decision n t1)
     | Approve_plan j budget \<Rightarrow> rbind (get_plan t1 j) (\<lambda>w. commit_approve e w budget m pr n t1)))"

section \<open>Scheduling\<close>

definition to_schedule :: "plan_tables \<Rightarrow> plan_row list" where
  "to_schedule t = sort_key pw_seq (filter (\<lambda>w. pl_status (pw_doc w) \<notin> TERMINAL \<and> pl_status (pw_doc w) = Plan_approved \<and>
     list_ex (\<lambda>x. action_id (proposal x) \<in> set (linked_ids t (pl_id (pw_doc w))) \<and> execution_status x = None)
       (actions (pt_house t))) (pt_plans t))"

text \<open>The decision that committed the plan's consent.\<close>

definition consent_of :: "plan_env \<Rightarrow> plan_tables \<Rightarrow> plan_row \<Rightarrow> decision result" where
  "consent_of e t w =
     rbind (find_event (pt_house t) (pw_seq w)) (\<lambda>c.
     rbind (guard PipelineError (r_event c = event_name PLAN_APPROVED)) (\<lambda>_.
     case pv_get (r_payload c) ''decision_seq'' of
       PInt n \<Rightarrow>
         rbind (find_event (pt_house t) n) (\<lambda>g.
         rbind (of_opt ValueError (pe_decision e (r_payload g))) (\<lambda>d.
         rbind (guard ValueError (d_kind d = Kexecute)) (\<lambda>_. Inr (d\<lparr>audit_id := Some n\<rparr>))))
     | _ \<Rightarrow> Inl PipelineError))"

definition queued_decision :: "plan_env \<Rightarrow> decision \<Rightarrow> action \<Rightarrow> decision" where
  "queued_decision e d a = narrated (pe_plant e)
     (d\<lparr>d_action_id := action_id a, d_event := EXECUTE, audit_id := None, d_status := Some ''executing''\<rparr>) (Some a)"

definition schedule_payload :: "plan_env \<Rightarrow> decision \<Rightarrow> action \<Rightarrow> pdict" where
  "schedule_payload e d a =
     (if is_expired a (pe_now e)
      then [(''action_id'', PStr (action_id a)), (''status'', PStr ''skipped''), (''reason'', PStr ''expired before consent'')]
      else [(''action_id'', PStr (action_id a)), (''status'', PStr ''scheduled''), (''decision'', decision_dump (queued_decision e d a))])"

definition scheduled_row :: "plan_env \<Rightarrow> decision \<Rightarrow> principal \<Rightarrow> action \<Rightarrow> int \<Rightarrow> action_row \<Rightarrow> action_row" where
  "scheduled_row e d scheduler a n x =
     (if is_expired a (pe_now e)
      then x\<lparr>proposal := reload a, ar_principal := identity scheduler, execution_status := Some ''skipped'', lifecycle_seq := Some n\<rparr>
      else x\<lparr>proposal := reload a, ar_principal := identity scheduler, execution_status := Some ''scheduled'',
        due_at := Some (case scheduled_for a of None \<Rightarrow> pe_now e | Some s \<Rightarrow> s),
        ar_lifecycle := Some \<lparr>lc_decision = queued_decision e d a, lc_approval_id = None, lc_member_id = member_id (requested_by a),
          lc_retry = 0, ending_of = None, retry_of = None\<rparr>,
        lifecycle_seq := Some n\<rparr>)"

definition plan_actions_of :: "plan_tables \<Rightarrow> plan_doc \<Rightarrow> requester \<Rightarrow> action list result" where
  "plan_actions_of t d m =
     rbind (mapM (\<lambda>i. of_opt KeyError (find_action (pt_house t) i)) (pl_actions d)) (\<lambda>rs.
       Inr (map (\<lambda>r. (proposal r)\<lparr>requested_by := m\<lparr>rq_surface := Scheduler\<rparr>\<rparr>) rs))"

definition schedule :: "plan_env \<Rightarrow> plan_row \<Rightarrow> decision \<Rightarrow> plan_tables \<Rightarrow> plan_tables result" where
  "schedule e w d t =
     (let p = pe_plant e; now = pe_now e in
      rbind (of_opt ValueError (pw_approver w)) (\<lambda>scheduler.
      rbind (resolve_member (pt_house t) scheduler) (\<lambda>m.
      rbind (plan_actions_of t (pw_doc w) m) (\<lambda>as.
      rbind (check_overlaps p (pt_house t) (filter (\<lambda>a. \<not> is_expired a now) as) None) (\<lambda>_.
      case append_many (H p) (sign p) (fp p) (household_id p)
             (map (\<lambda>a. (now, event_name (if is_expired a now then EXECUTION_CANCELLED else SCHEDULED),
                \<lambda>_. PDict (schedule_payload e d a))) as) (audit (pt_house t)) of
        Inl x \<Rightarrow> Inl (audit_error x)
      | Inr (ns, db) \<Rightarrow>
          (let t1 = t\<lparr>pt_house := fold (\<lambda>(a, n). update_action (action_id a) (scheduled_row e d scheduler a n)) (zip as ns)
                 ((pt_house t)\<lparr>audit := db\<rparr>)\<rparr> in
           if list_ex (\<lambda>a. is_expired a now) as
           then rbind (get_plan t1 (pl_id (pw_doc w))) (\<lambda>v.
             queue_refresh e v ''consent arrived after scheduled changes'' False None (audit_id d) t1)
           else Inr t1))))))"

definition schedule_approved :: "plan_env \<Rightarrow> plan_tables \<Rightarrow> plan_tables result" where
  "schedule_approved e t =
     foldM (\<lambda>w t1. rbind (consent_of e t1 w) (\<lambda>d. schedule e w d t1)) (to_schedule t) t"

section \<open>Completion and invalidation\<close>

text \<open>\<open>Executor.complete_plan\<close>; a row without a status does not count as open.\<close>

definition still_open :: "plan_tables \<Rightarrow> string \<Rightarrow> action_row \<Rightarrow> bool" where
  "still_open t i x \<longleftrightarrow> plan_id (proposal x) = Some i \<and> execution_status x \<noteq> None \<and> execution_status x \<noteq> Some ''verified'' \<and>
     \<not> list_ex (\<lambda>y. Option.bind (ar_lifecycle y) retry_of = Some (action_id (proposal x)) \<and> execution_status y = Some ''verified'')
         (actions (pt_house t))"

definition ended_status :: "plan_env \<Rightarrow> plan_row \<Rightarrow> plan_status" where
  "ended_status e w = (if pl_end (pw_doc w) \<le> pe_now e then Completed else Active)"

definition complete_plan :: "plan_env \<Rightarrow> action \<Rightarrow> plan_tables \<Rightarrow> plan_tables result" where
  "complete_plan e a t =
     (case plan_of a of
        None \<Rightarrow> Inr t
      | Some i \<Rightarrow>
          rbind (get_plan t i) (\<lambda>w.
          let st = ended_status e w in
          if pl_status (pw_doc w) \<notin> {Plan_approved, Active} \<or> list_ex (still_open t i) (actions (pt_house t)) \<or>
             pl_status (pw_doc w) = st then Inr t
          else rbind (plan_event e PLAN_REVISED [(''plan_id'', PStr i),
                 (''status'', PStr (if st = Completed then ''completed'' else ''active''))] t) (\<lambda>(n, t1). Inr (mark_plan w st n t1))))"

definition invalidate_all :: "plan_env \<Rightarrow> string \<Rightarrow> bool \<Rightarrow> int option \<Rightarrow> plan_tables \<Rightarrow> plan_tables result" where
  "invalidate_all e why explicit decision t =
     foldM (\<lambda>w. queue_refresh e w why explicit None decision) (filter (\<lambda>w. pl_status (pw_doc w) \<notin> TERMINAL) (pt_plans t)) t"

text \<open>\<open>detect\<close>: what changed since the plan was computed.\<close>

definition detect_reason :: "plan_env \<Rightarrow> plan_tables \<Rightarrow> plan_row \<Rightarrow> string option" where
  "detect_reason e t w =
     (let now = pe_fingerprint e t w in
      case (pw_runtime w, job_for t w) of
        (None, Some j) \<Rightarrow>
          if rj_state j \<noteq> ''blocked'' \<or> \<not> pe_same_inputs e (rj_fingerprint j) now
          then Some ''Complete runtime inputs are required from an eligible member.'' else None
      | (None, None) \<Rightarrow> Some ''Complete runtime inputs are required from an eligible member.''
      | (Some _, Some j) \<Rightarrow>
          if rj_fingerprint j \<noteq> PDict [] \<and> \<not> pe_same_inputs e (rj_fingerprint j) now
          then Some ''Household inputs, policy, control state or prediction changed.'' else None
      | (Some _, None) \<Rightarrow> None)"

definition job_fingerprint :: "refresh_job option \<Rightarrow> pv" where
  "job_fingerprint old = (case old of None \<Rightarrow> PDict [] | Some j \<Rightarrow> rj_fingerprint j)"

text \<open>Controls that the plan itself moved are taken over into the stored fingerprint.\<close>

definition save_fingerprint :: "plan_env \<Rightarrow> plan_row \<Rightarrow> pv \<Rightarrow> int option \<Rightarrow> plan_tables \<Rightarrow> plan_tables result" where
  "save_fingerprint e w v decision = save_job e w (PDict [(''fingerprint'', v)]) (\<lambda>j. j\<lparr>rj_fingerprint := v\<rparr>) decision"

definition take_over :: "plan_env \<Rightarrow> plan_row \<Rightarrow> int option \<Rightarrow> plan_tables \<Rightarrow> plan_tables result" where
  "take_over e w decision t =
     (let stored = job_fingerprint (job_for t w); now = pe_fingerprint e t w in
      if stored \<noteq> PDict [] \<and> pe_same_inputs e stored now \<and> stored \<noteq> now then save_fingerprint e w now decision t else Inr t)"

definition refresh_detected :: "plan_env \<Rightarrow> plan_row \<Rightarrow> string \<Rightarrow> pv \<Rightarrow> int option \<Rightarrow> plan_tables \<Rightarrow> plan_tables result" where
  "refresh_detected e w why now decision t =
     rbind (queue_refresh e w why False (Some now) decision t) (\<lambda>t1.
       if pw_runtime w = None
       then save_job e w (PDict [(''state'', PStr ''blocked''), (''blocking_reason'', PStr why), (''next_retry'', PNone)])
         (\<lambda>j. j\<lparr>rj_state := ''blocked'', rj_blocking := Some why, rj_next := None\<rparr>) decision t1
       else Inr t1)"

definition detect :: "plan_env \<Rightarrow> plan_row \<Rightarrow> int option \<Rightarrow> plan_tables \<Rightarrow> plan_tables result" where
  "detect e w decision t =
     (if pl_status (pw_doc w) \<in> TERMINAL then Inr t
      else rbind (take_over e w decision t) (\<lambda>t1.
        case detect_reason e t w of
          Some why \<Rightarrow> refresh_detected e w why (pe_fingerprint e t w) decision t1
        | None \<Rightarrow> if job_fingerprint (job_for t w) = PDict [] then save_fingerprint e w (pe_fingerprint e t w) decision t1 else Inr t1))"

section \<open>Refresh commands\<close>

text \<open>
  The commands of \<open>governance.refresh_plan\<close>, which only the refresh service issues: a device approval to resume on,
  new feed inputs, a request for a refresh with or without new runtime inputs and with or without the retry of a
  failed operation, a detection, and a transition of the job's row. Runtime inputs are their JSON documents.
\<close>

datatype refresh_command =
    Resume_device string string
  | New_feeds pv bool
  | Ask_refresh bool "string option" string "pv option"
  | Detect_changes
  | Move_job nat pdict

definition prepare_refresh :: "plan_env \<Rightarrow> plan_tables \<Rightarrow> string \<Rightarrow> principal \<Rightarrow> unit result" where
  "prepare_refresh e t i pr =
     rbind (get_plan t i) (\<lambda>w.
     rbind (resolve_member (pt_house t) pr) (\<lambda>m.
     rbind (eligible (policy (base_desk (pe_plant e))) m pr) (\<lambda>ok.
     rbind (guard ValueError (ok \<and> pl_status (pw_doc w) \<notin> TERMINAL)) (\<lambda>_.
       guard ValueError (p_surface pr = Scheduler \<longrightarrow> first_of (pw_approver w) (pw_requester w) = Some (identity pr))))))"

definition put_runtime :: "pv \<Rightarrow> plan_row \<Rightarrow> plan_row" where
  "put_runtime r w = w\<lparr>pw_runtime := Some r\<rparr>"

definition pv_items :: "pv \<Rightarrow> pv list" where
  "pv_items v = (case v of PList xs \<Rightarrow> xs | _ \<Rightarrow> [])"

definition with_fields :: "pv \<Rightarrow> pdict \<Rightarrow> pv" where
  "with_fields v kvs = (case v of PDict d \<Rightarrow> PDict (dict_update d kvs) | _ \<Rightarrow> v)"

definition operation_key :: "(pv \<Rightarrow> string) \<Rightarrow> action \<Rightarrow> string result" where
  "operation_key Hf a = digest Hf (PList [PStr (action_class a), target_dump (a_target a), PDict (params a)])"

text \<open>The failed operations like the named one may be tried again, and it is no longer exhausted.\<close>

definition retry_inputs :: "plan_env \<Rightarrow> plan_tables \<Rightarrow> plan_row \<Rightarrow> principal \<Rightarrow> bool \<Rightarrow> string \<Rightarrow> pv result" where
  "retry_inputs e t w pr explicit i =
     rbind (of_opt ValueError (pw_runtime w)) (\<lambda>prior.
     rbind (guard ValueError (p_surface pr \<noteq> Scheduler \<and> explicit)) (\<lambda>_.
     rbind (row (pt_house t) i) (\<lambda>failed.
     rbind (of_opt ValueError (plan_of (proposal failed))) (\<lambda>j.
     rbind (guard ValueError (execution_status failed = Some ''failed'')) (\<lambda>_.
     rbind (get_plan t j) (\<lambda>original.
     rbind (guard ValueError (pw_lineage original = pw_lineage w)) (\<lambda>_.
     rbind (operation_key (H (pe_plant e)) (proposal failed)) (\<lambda>key.
     rbind (mapM (\<lambda>x. rbind (operation_key (H (pe_plant e)) (proposal x)) (\<lambda>k. Inr (k, action_id (proposal x))))
              (filter (\<lambda>x. execution_status x = Some ''failed'') (actions (pt_house t)))) (\<lambda>keys.
       Inr (with_fields prior
         [(''retry_actions'', PList (rev (remdups (rev (pv_items (pv_get prior ''retry_actions'') @
             map (\<lambda>(k, x). PStr x) (filter (\<lambda>(k, x). k = key) keys)))))),
          (''exhausted'', PList (filter (\<lambda>k. k \<noteq> PStr key) (pv_items (pv_get prior ''exhausted''))))]))))))))))"

text \<open>New inputs keep what the plan was accepted on.\<close>

definition kept_inputs :: "pv option \<Rightarrow> pv \<Rightarrow> pv" where
  "kept_inputs prior r =
     (case prior of
        None \<Rightarrow> r
      | Some p \<Rightarrow> with_fields r
          [(''prediction'', pv_get p ''prediction''),
           (''prediction_workload'', if pv_get p ''prediction_workload'' = PNone then pv_get p ''workload'' else pv_get p ''prediction_workload''),
           (''estimates'', pv_get p ''estimates''), (''exhausted'', pv_get p ''exhausted''),
           (''retry_actions'', pv_get p ''retry_actions'')])"

definition name_requester :: "principal \<Rightarrow> plan_row \<Rightarrow> plan_row" where
  "name_requester pr w =
     (if pw_requester w = None then w\<lparr>pw_requester := Some (identity (pr\<lparr>p_surface := Scheduler\<rparr>))\<rparr> else w)"

text \<open>The row of the plan is written after each change of it.\<close>

definition put_plan :: "plan_row \<Rightarrow> plan_tables \<Rightarrow> plan_tables" where
  "put_plan w = update_plan (pl_id (pw_doc w)) (\<lambda>_. w)"

definition ask_refresh ::
  "plan_env \<Rightarrow> plan_row \<Rightarrow> principal \<Rightarrow> bool \<Rightarrow> string option \<Rightarrow> string \<Rightarrow> pv option \<Rightarrow> int \<Rightarrow> plan_tables \<Rightarrow> plan_tables result"
where
  "ask_refresh e w pr explicit retried why inputs dec t =
     (let w1 = name_requester pr w in
     rbind (case retried of
         None \<Rightarrow> Inr w1
       | Some i \<Rightarrow> rbind (retry_inputs e t w1 pr explicit i) (\<lambda>r. Inr (put_runtime r w1))) (\<lambda>w2.
     rbind (case inputs of
         None \<Rightarrow> Inr w2
       | Some r \<Rightarrow>
           rbind (guard ValueError (pe_valid_runtime e r (pw_doc w2) \<and>
             (case pw_runtime w2 of None \<Rightarrow> True | Some prior \<Rightarrow> pe_preserves e r prior))) (\<lambda>_.
           Inr (put_runtime (kept_inputs (pw_runtime w2) r) w2))) (\<lambda>w3.
       queue_refresh e w3 why explicit None (Some dec) (put_plan w3 t))))"

definition new_feeds :: "plan_env \<Rightarrow> plan_row \<Rightarrow> pv \<Rightarrow> bool \<Rightarrow> int \<Rightarrow> plan_tables \<Rightarrow> plan_tables result" where
  "new_feeds e w r baseline dec t =
     rbind (guard ValueError (pe_valid_runtime e r (pw_doc w))) (\<lambda>_.
     let w1 = put_runtime r w; t1 = put_plan w1 t; now = pe_fingerprint e t1 w1 in
       if baseline then save_fingerprint e w1 now (Some dec) t1
       else queue_refresh e w1 ''Configured price, weather or calendar changed'' False (Some now) (Some dec) t1)"

text \<open>The columns of the job's row that a transition names; an instant is its stamp.\<close>

definition pv_text :: "pv \<Rightarrow> string option" where
  "pv_text v = (case v of PStr x \<Rightarrow> Some x | _ \<Rightarrow> None)"

definition put_column :: "string \<times> pv \<Rightarrow> refresh_job \<Rightarrow> refresh_job" where
  "put_column kv j = (case kv of (k, v) \<Rightarrow>
     if k = ''state'' then j\<lparr>rj_state := (case v of PStr x \<Rightarrow> x | _ \<Rightarrow> rj_state j)\<rparr>
     else if k = ''running_generation'' then j\<lparr>rj_running := (case v of PInt n \<Rightarrow> Some (nat n) | _ \<Rightarrow> None)\<rparr>
     else if k = ''attempts'' then j\<lparr>rj_attempts := (case v of PInt n \<Rightarrow> nat n | _ \<Rightarrow> rj_attempts j)\<rparr>
     else if k = ''next_retry'' then j\<lparr>rj_next := (case v of PDec (Dec n _) \<Rightarrow> Some n | _ \<Rightarrow> None)\<rparr>
     else if k = ''blocking_reason'' then j\<lparr>rj_blocking := pv_text v\<rparr>
     else if k = ''reasons'' then j\<lparr>rj_reasons := List.map_filter pv_text (pv_items v)\<rparr>
     else if k = ''explicit'' then j\<lparr>rj_explicit := (v = PBool True)\<rparr>
     else if k = ''fingerprint'' then j\<lparr>rj_fingerprint := v\<rparr> else j)"

definition move_job :: "plan_env \<Rightarrow> plan_row \<Rightarrow> nat \<Rightarrow> pdict \<Rightarrow> int \<Rightarrow> plan_tables \<Rightarrow> plan_tables result" where
  "move_job e w generation values dec t =
     rbind (guard ValueError (case job_for t w of None \<Rightarrow> False | Some j \<Rightarrow> rj_requested j = generation)) (\<lambda>_.
       save_job e w (PDict values) (fold put_column values) (Some dec) t)"

definition commit_refresh ::
  "plan_env \<Rightarrow> string \<Rightarrow> int \<Rightarrow> principal \<Rightarrow> refresh_command \<Rightarrow> plan_tables \<Rightarrow> plan_tables result"
where
  "commit_refresh e i dec pr cmd t =
     rbind (get_plan t i) (\<lambda>w.
       case cmd of
         Resume_device j apr \<Rightarrow> resume e w j apr t
       | New_feeds r baseline \<Rightarrow> new_feeds e w r baseline dec t
       | Ask_refresh explicit retried why inputs \<Rightarrow> ask_refresh e w pr explicit retried why inputs dec t
       | Detect_changes \<Rightarrow> detect e w (Some dec) t
       | Move_job generation values \<Rightarrow> move_job e w generation values dec t)"

end
