(* ===== verification/Plan_Laws.thy ===== *)
theory Plan_Laws
  imports Plans Lifecycle
begin

text \<open>
  What \<open>Plans\<close> promises: as long as an action is parked only while its plan is in force, a lineage has one live
  plan, its newest version, whatever the pipeline, the worker, the members and the refresh service do; a plan's document only ever changes its status, along the paths of
  \<open>moves\<close>; a stopped plan leaves no unstarted work; consent is bound to a budget grant of the same amount;
  and a paused plan resumes only on satisfied votes.
\<close>

section \<open>What a step leaves\<close>

definition live :: "plan_row \<Rightarrow> bool" where
  "live w \<longleftrightarrow> pl_status (pw_doc w) \<notin> TERMINAL"

definition consented :: "plan_status set" where
  "consented = {Plan_approved, Active, Awaiting_approval}"

text \<open>A proposal may go anywhere, a plan in force is only left, a refreshing one is only replaced or cancelled.\<close>

definition moves :: "plan_status \<Rightarrow> plan_status \<Rightarrow> bool" where
  "moves st st' \<longleftrightarrow> st = st' \<or> st = Proposed \<or> st \<in> consented \<and> st' \<noteq> Proposed \<or>
     st = Refreshing \<and> st' \<in> {Superseded, Abandoned} \<or> st \<in> TERMINAL \<and> st' = Abandoned"

definition same_plan :: "plan_row \<Rightarrow> plan_row \<Rightarrow> bool" where
  "same_plan w v \<longleftrightarrow> (pw_doc v)\<lparr>pl_status := Proposed\<rparr> = (pw_doc w)\<lparr>pl_status := Proposed\<rparr> \<and>
     moves (pl_status (pw_doc w)) (pl_status (pw_doc v)) \<and>
     pw_lineage v = pw_lineage w \<and> pw_accepted v = pw_accepted w \<and> (pw_runtime w \<noteq> None \<longrightarrow> pw_runtime v \<noteq> None) \<and>
     (pw_requester w \<noteq> None \<longrightarrow> pw_requester v = pw_requester w)"

abbreviation plan_ids :: "plan_tables \<Rightarrow> string list" where
  "plan_ids t \<equiv> map (\<lambda>w. pl_id (pw_doc w)) (pt_plans t)"

definition plan_ok :: "plan_row \<Rightarrow> bool" where
  "plan_ok w \<longleftrightarrow> (pl_status (pw_doc w) \<in> insert Completed consented \<longrightarrow> pw_approver w \<noteq> None \<and> pw_member w \<noteq> None \<and> pw_runtime w \<noteq> None)"

definition newest :: "plan_row \<Rightarrow> plan_row list \<Rightarrow> bool" where
  "newest w ws \<longleftrightarrow> (\<forall>v \<in> set ws. v \<noteq> w \<longrightarrow> lineage_of v = lineage_of w \<longrightarrow> pl_version (pw_doc v) < pl_version (pw_doc w))"

definition plans_ok :: "plan_tables \<Rightarrow> bool" where
  "plans_ok t \<longleftrightarrow> distinct (plan_ids t) \<and>
     (\<forall>w \<in> set (pt_plans t). plan_ok w \<and> lineage_of w \<in> set (plan_ids t) \<and> (live w \<longrightarrow> newest w (pt_plans t)))"

definition plans_grow :: "plan_tables \<Rightarrow> plan_tables \<Rightarrow> bool" where
  "plans_grow t u \<longleftrightarrow> grows same_plan (pt_plans t) (pt_plans u)"

lemma moves_refl [simp]: "moves st st"
  by (simp add: moves_def)

lemma moves_trans: "moves x y \<Longrightarrow> moves y z \<Longrightarrow> moves x z"
  by (cases x; cases y; cases z) (simp_all add: moves_def consented_def TERMINAL_def)

lemma moves_Refreshing: "st \<notin> TERMINAL \<Longrightarrow> moves st Refreshing"
  by (cases st) (simp_all add: moves_def consented_def TERMINAL_def)

lemma same_plan_refl: "same_plan w w"
  by (simp add: same_plan_def)

lemma same_plan_trans: "same_plan x y \<Longrightarrow> same_plan y z \<Longrightarrow> same_plan x z"
  unfolding same_plan_def by (metis moves_trans)

lemma same_doc:
  assumes "d\<lparr>pl_status := Proposed\<rparr> = d'\<lparr>pl_status := Proposed\<rparr>"
  shows "pl_id d = pl_id d'" and "pl_version d = pl_version d'"
  using arg_cong [OF assms, of pl_id] arg_cong [OF assms, of pl_version] by simp_all

lemma same_plan_id:
  assumes "same_plan w v"
  shows "pl_id (pw_doc v) = pl_id (pw_doc w)" and "pl_version (pw_doc v) = pl_version (pw_doc w)" and "lineage_of v = lineage_of w"
  using assms same_doc [of "pw_doc v" "pw_doc w"] by (cases "pw_lineage w"; simp add: same_plan_def lineage_of_def)+

lemma plans_grow_refl: "plans_grow t t"
  by (simp add: plans_grow_def grows_refl same_plan_refl)

lemma plans_grow_trans: "plans_grow t u \<Longrightarrow> plans_grow u v \<Longrightarrow> plans_grow t v"
  unfolding plans_grow_def by (rule grows_trans [OF _ _ same_plan_trans])

text \<open>What every operation shows: the invariant is kept and the plans stay.\<close>

definition plans_safe :: "plan_tables \<Rightarrow> plan_tables \<Rightarrow> bool" where
  "plans_safe t u \<longleftrightarrow> plans_ok u \<and> plans_grow t u"

lemma plans_safe_trans: "plans_safe t u \<Longrightarrow> plans_safe u v \<Longrightarrow> plans_safe t v"
  unfolding plans_safe_def by (blast intro: plans_grow_trans)

lemma plans_ok_same: "pt_plans u = pt_plans t \<Longrightarrow> plans_ok u = plans_ok t"
  by (simp add: plans_ok_def)

lemma plans_safe_same: "plans_ok t \<Longrightarrow> pt_plans u = pt_plans t \<Longrightarrow> plans_safe t u"
  using plans_ok_same [of u t] by (simp add: plans_safe_def plans_grow_def grows_refl same_plan_refl)

lemma get_plan_Inr: "get_plan t i = Inr w \<Longrightarrow> w \<in> set (pt_plans t) \<and> pl_id (pw_doc w) = i"
  by (auto simp: get_plan_def result_simps dest: Tables.find_Some_iff)

lemma id_determines: "plans_ok t \<Longrightarrow> w \<in> set (pt_plans t) \<Longrightarrow> v \<in> set (pt_plans t) \<Longrightarrow> pl_id (pw_doc v) = pl_id (pw_doc w) \<Longrightarrow> v = w"
  by (auto simp: plans_ok_def distinct_map dest: inj_onD)

section \<open>One row changes, one is added\<close>

lemma update_plan_eq:
  assumes "plans_ok t" and "w \<in> set (pt_plans t)"
  shows "pt_plans (update_plan (pl_id (pw_doc w)) f t) = map (\<lambda>v. if v = w then f w else v) (pt_plans t)"
  using id_determines [OF assms(1,2)] by (auto simp: update_plan_def)

lemma update_plan_safe:
  assumes ok: "plans_ok t" and w: "w \<in> set (pt_plans t)" and s: "same_plan w (f w)" and l: "live (f w) \<Longrightarrow> live w" and p: "plan_ok (f w)"
  shows "plans_safe t (update_plan (pl_id (pw_doc w)) f t)"
proof -
  let ?g = "\<lambda>v. if v = w then f w else v" and ?ws = "pt_plans t"
  note same = same_plan_id [OF s]
  have eq: "pt_plans (update_plan (pl_id (pw_doc w)) f t) = map ?g ?ws" by (rule update_plan_eq [OF ok w])
  have ids: "map (\<lambda>v. pl_id (pw_doc v)) (map ?g ?ws) = plan_ids t"
    using same by simp
  have ver: "pl_version (pw_doc (?g v)) = pl_version (pw_doc v)" and lin: "lineage_of (?g v) = lineage_of v" for v
    using same by simp_all
  have new: "newest (?g v) (map ?g ?ws)" if n: "newest v ?ws" for v
    unfolding newest_def
  proof (intro ballI impI)
    fix u' assume "u' \<in> set (map ?g ?ws)" and ne: "u' \<noteq> ?g v" and li: "lineage_of u' = lineage_of (?g v)"
    then obtain u where u: "u \<in> set ?ws" "u' = ?g u" unfolding set_map by blast
    have "u \<noteq> v" using ne u(2) by blast
    then show "pl_version (pw_doc u') < pl_version (pw_doc (?g v))"
      using n u li unfolding newest_def ver lin u(2) by blast
  qed
  have row: "plan_ok (?g v) \<and> lineage_of (?g v) = lineage_of v \<and> (live (?g v) \<longrightarrow> newest (?g v) (map ?g ?ws))" if "v \<in> set ?ws" for v
  proof -
    have "live (?g v) \<Longrightarrow> live v" using l by (simp split: if_splits)
    then show ?thesis using that p same ok new [of v] by (auto simp: plans_ok_def)
  qed
  have "\<forall>v \<in> set (map ?g ?ws). plan_ok v \<and> lineage_of v \<in> set (plan_ids t) \<and> (live v \<longrightarrow> newest v (map ?g ?ws))"
  proof
    fix v' assume "v' \<in> set (map ?g ?ws)"
    then obtain v where v: "v \<in> set ?ws" "v' = ?g v" unfolding set_map by blast
    then have "lineage_of v \<in> set (plan_ids t)" using ok unfolding plans_ok_def by blast
    moreover note r = row [OF v(1), folded v(2), THEN conjunct1] row [OF v(1), folded v(2), THEN conjunct2, THEN conjunct1]
      row [OF v(1), folded v(2), THEN conjunct2, THEN conjunct2]
    ultimately show "plan_ok v' \<and> lineage_of v' \<in> set (plan_ids t) \<and> (live v' \<longrightarrow> newest v' (map ?g ?ws))"
      using r by (simp only: simp_thms)
  qed
  then have "plans_ok (update_plan (pl_id (pw_doc w)) f t)"
    unfolding plans_ok_def eq ids using ok by (simp only: plans_ok_def)
  then show ?thesis
    by (auto simp: plans_safe_def plans_grow_def update_plan_eq [OF ok w] intro!: grows_map s same_plan_refl)
qed

lemma mark_plan_safe:
  assumes "plans_ok t" and "w \<in> set (pt_plans t)" and "moves (pl_status (pw_doc w)) st" and "st \<notin> TERMINAL \<Longrightarrow> live w"
    and "st \<in> insert Completed consented \<Longrightarrow> pw_approver w \<noteq> None \<and> pw_member w \<noteq> None \<and> pw_runtime w \<noteq> None"
  shows "plans_safe t (mark_plan w st n t)"
  unfolding mark_plan_def
  by (rule update_plan_safe [OF assms(1,2)]) (use assms(3-5) in \<open>auto simp: same_plan_def live_def plan_ok_def\<close>)

lemma insert_plan_safe:
  assumes ok: "plans_ok t" and i: "insert_plan w t = Inr u" and p: "plan_ok w"
    and l: "lineage_of w = pl_id (pw_doc w) \<or> lineage_of w \<in> set (plan_ids t)"
    and n: "\<And>v. v \<in> set (pt_plans t) \<Longrightarrow> lineage_of v = lineage_of w \<Longrightarrow> \<not> live v \<and> pl_version (pw_doc v) < pl_version (pw_doc w)"
  shows "plans_safe t u"
proof -
  from i have u: "u = t\<lparr>pt_plans := pt_plans t @ [w]\<rparr>" and "pl_id (pw_doc w) \<notin> set (plan_ids t)"
    by (auto simp: insert_plan_def result_simps)
  then have "plans_ok u"
    using ok p l n unfolding plans_ok_def newest_def u by auto
  then show ?thesis by (simp add: plans_safe_def plans_grow_def u grows_append same_plan_refl)
qed

section \<open>Operations that leave the plans alone\<close>

lemma plan_event_plans: "plan_event e ev pl t = Inr (n, u) \<Longrightarrow> pt_plans u = pt_plans t"
  by (auto simp: plan_event_def rbind_Inr_iff)

lemma stop_unstarted_plans: "stop_unstarted e i ev st pre t = Inr u \<Longrightarrow> pt_plans u = pt_plans t"
  by (auto simp: stop_unstarted_def Let_def rbind_Inr_iff)

lemma save_job_plans: "save_job e w v f d t = Inr u \<Longrightarrow> pt_plans u = pt_plans t"
  by (auto simp: save_job_def rbind_Inr_iff dest: plan_event_plans split: if_splits)

lemma link_actions_plans: "foldM (link_action e pr i) as t = Inr u \<Longrightarrow> pt_plans u = pt_plans t"
  by (erule foldM_invariant [where I = "\<lambda>s. pt_plans s = pt_plans t"]) (auto simp: link_action_def rbind_Inr_iff)

lemmas plans_kept = plan_event_plans stop_unstarted_plans save_job_plans link_actions_plans

section \<open>Each operation\<close>

lemma queue_refreshE:
  assumes "queue_refresh e w r ex fpr d t = Inr u"
  shows "u = t \<or> pl_status (pw_doc w) \<notin> TERMINAL \<and> (\<exists>t2. pt_plans t2 = pt_plans t \<and>
    u = update_plan (pl_id (pw_doc w)) (\<lambda>v. v\<lparr>pw_doc := (pw_doc w)\<lparr>pl_status := Refreshing\<rparr>\<rparr>) t2)"
  using assms unfolding queue_refresh_def Let_def
  by (cases "pl_status (pw_doc w) \<in> TERMINAL \<or> already_queued (job_for t w) r ex fpr")
    (simp_all add: rbind_Inr_iff, metis save_job_plans stop_unstarted_plans)

lemma queue_refresh_safe:
  assumes "plans_ok t" and "w \<in> set (pt_plans t)" and "queue_refresh e w r ex fpr d t = Inr u"
  shows "plans_safe t u \<and> (\<forall>v \<in> set (pt_plans t). v \<noteq> w \<longrightarrow> v \<in> set (pt_plans u))"
proof (cases "pl_status (pw_doc w) \<in> TERMINAL \<or> u = t")
  case True
  then have "u = t" using assms(3) by (auto simp: queue_refresh_def)
  then show ?thesis using plans_safe_same [OF assms(1), of t] by simp
next
  case False
  then obtain t2 where k: "pt_plans t2 = pt_plans t"
    and u: "u = update_plan (pl_id (pw_doc w)) (\<lambda>v. v\<lparr>pw_doc := (pw_doc w)\<lparr>pl_status := Refreshing\<rparr>\<rparr>) t2"
    using assms(3) queue_refreshE by blast
  have ok: "plans_ok t2" and w: "w \<in> set (pt_plans t2)" using assms(1,2) k plans_ok_same [OF k] by simp_all
  have "plans_safe t2 u" unfolding u
    by (rule update_plan_safe [OF ok w]) (use False in \<open>simp_all add: same_plan_def live_def plan_ok_def consented_def moves_Refreshing\<close>)
  moreover have "v \<in> set (pt_plans u)" if "v \<in> set (pt_plans t)" and "v \<noteq> w" for v
    using that k unfolding u update_plan_eq [OF ok w] by (auto simp: image_iff intro: bexI [of _ v])
  ultimately show ?thesis using k by (simp add: plans_safe_def plans_grow_def)
qed

lemma hold_plan_safe:
  assumes ok: "plans_ok t" and h: "hold_plan e a i why t = Inr u"
  shows "plans_safe t u"
proof -
  from h obtain w t3 v where w: "get_plan t i = Inr w"
    and m: "(if pl_status (pw_doc w) \<in> TERMINAL then Inr t
            else rbind (stop_unstarted e i EXECUTION_HELD ''held'' None t) (\<lambda>t1.
              rbind (plan_event e EXECUTION_HELD [(''plan_id'', PStr i), (''status'', PStr ''refreshing''),
                (''trigger_action'', PStr (action_id a))] t1) (\<lambda>(n, t2). Inr (mark_plan w Refreshing n t2)))) = Inr t3"
    and v: "get_plan t3 i = Inr v" and q: "queue_refresh e v why False None None t3 = Inr u"
    unfolding hold_plan_def by (auto elim!: rbind_InrE)
  have "plans_safe t t3"
  proof (cases "pl_status (pw_doc w) \<in> TERMINAL")
    case True
    then show ?thesis using m plans_safe_same [OF ok, of t] by simp
  next
    case False
    with m obtain n t2 where k: "pt_plans t2 = pt_plans t" and t3: "t3 = mark_plan w Refreshing n t2"
      by (auto simp: rbind_Inr_iff dest!: plans_kept)
    have "plans_safe t2 t3" unfolding t3
      by (rule mark_plan_safe) (use k ok plans_ok_same [OF k] get_plan_Inr [OF w] False in \<open>simp_all add: moves_Refreshing live_def consented_def\<close>)
    then show ?thesis using k by (simp add: plans_safe_def plans_grow_def)
  qed
  moreover from this have "plans_safe t3 u"
    using queue_refresh_safe [OF _ _ q] get_plan_Inr [OF v] unfolding plans_safe_def [of t] by blast
  ultimately show ?thesis by (rule plans_safe_trans)
qed

lemma hold_safe:
  assumes "plans_ok t" and "hold e a m why t = Inr u"
  shows "plans_safe t u"
proof -
  from assms(2) obtain t1 h where t1: "(case plan_of a of None \<Rightarrow> Inr t | Some i \<Rightarrow> hold_plan e a i why t) = Inr t1" and u: "u = t1\<lparr>pt_house := h\<rparr>"
    unfolding hold_def by (auto elim!: rbind_InrE)
  have "plans_safe t t1" using t1 assms(1) plans_safe_same [of t t] by (auto split: option.split_asm intro: hold_plan_safe)
  moreover from this have "plans_safe t1 u" unfolding u plans_safe_def [of t] by (intro plans_safe_same) simp_all
  ultimately show ?thesis by (rule plans_safe_trans)
qed

lemma await_approval_safe:
  assumes ok: "plans_ok t" and c: "\<And>i w. plan_of a = Some i \<Longrightarrow> get_plan t i = Inr w \<Longrightarrow> pl_status (pw_doc w) \<in> consented"
    and h: "await_approval e a d t = Inr u"
  shows "plans_safe t u"
proof -
  from h obtain i w n t3 where i: "plan_of a = Some i" and w: "get_plan t i = Inr w" and k: "pt_plans t3 = pt_plans t"
    and u: "u = mark_plan w Awaiting_approval n t3"
    unfolding await_approval_def Let_def by (auto elim!: rbind_InrE simp: of_opt_Inr_iff dest!: plans_kept)
  from ok get_plan_Inr [OF w] have "plan_ok w" by (simp add: plans_ok_def)
  with c [OF i w] have "plans_safe t3 u" unfolding u
    by (intro mark_plan_safe) (use k ok plans_ok_same [OF k] get_plan_Inr [OF w] in \<open>auto simp: plan_ok_def live_def moves_def consented_def TERMINAL_def\<close>)
  then show ?thesis using k by (simp add: plans_safe_def plans_grow_def)
qed

lemma parkE:
  assumes "park e a d m t = Inr u"
  shows "\<exists>h. await_approval e a d (t\<lparr>pt_house := h\<rparr>) = Inr u \<or>
    hold e a m ''Current household rules require a new decision.'' (t\<lparr>pt_house := h\<rparr>) = Inr u"
proof -
  let ?tr = "transition (pe_plant e) (action_id a) ''held'' EXECUTION_HELD [(''reason'', PStr (event_name (d_event d))),
       (''decision_seq'', opt_pv PInt (audit_id d))] (pe_now e) (pt_house t)"
  from assms obtain n h where "?tr = Inr (n, h)" by (cases ?tr) (auto simp: park_def)
  with assms have "await_approval e a d (t\<lparr>pt_house := h\<rparr>) = Inr u \<or>
    hold e a m ''Current household rules require a new decision.'' (t\<lparr>pt_house := h\<rparr>) = Inr u"
    by (simp add: park_def split: if_split_asm)
  then show ?thesis by (rule exI [of _ h])
qed

lemma park_safe:
  assumes ok: "plans_ok t" and c: "\<And>i w. plan_of a = Some i \<Longrightarrow> get_plan t i = Inr w \<Longrightarrow> pl_status (pw_doc w) \<in> consented"
    and h: "park e a d m t = Inr u"
  shows "plans_safe t u"
proof -
  from parkE [OF h] obtain h' where "await_approval e a d (t\<lparr>pt_house := h'\<rparr>) = Inr u \<or>
      hold e a m ''Current household rules require a new decision.'' (t\<lparr>pt_house := h'\<rparr>) = Inr u" by blast
  moreover have "plans_ok (t\<lparr>pt_house := h'\<rparr>)" using ok by (simp add: plans_ok_def)
  moreover have "pl_status (pw_doc w) \<in> consented" if "plan_of a = Some i" "get_plan (t\<lparr>pt_house := h'\<rparr>) i = Inr w" for i w
    using c that by (simp add: get_plan_def)
  ultimately have "plans_safe (t\<lparr>pt_house := h'\<rparr>) u" using await_approval_safe hold_safe by blast
  then show ?thesis by (simp add: plans_safe_def plans_grow_def)
qed

lemma reschedule_safe:
  assumes ok: "plans_ok t" and w: "w \<in> set (pt_plans t)" and a: "pl_status (pw_doc w) = Awaiting_approval" and r: "reschedule e w i apr t = Inr u"
  shows "plans_safe t u"
proof -
  from r obtain n t1 h' where k: "pt_plans t1 = pt_plans t" and u: "u = (mark_plan w Plan_approved n t1)\<lparr>pt_house := h'\<rparr>"
    unfolding reschedule_def by (auto elim!: rbind_InrE dest!: plans_kept)
  from ok w a have "plan_ok w" by (simp add: plans_ok_def)
  with a have "plans_safe t1 (mark_plan w Plan_approved n t1)"
    by (intro mark_plan_safe) (use k w ok plans_ok_same [OF k] in \<open>simp_all add: plan_ok_def live_def moves_def consented_def TERMINAL_def\<close>)
  then show ?thesis using k by (simp add: plans_safe_def plans_grow_def plans_ok_def u)
qed

lemma resume_safe:
  assumes ok: "plans_ok t" and w: "w \<in> set (pt_plans t)" and h: "resume e w i apr t = Inr u"
  shows "plans_safe t u"
proof (cases "pl_status (pw_doc w) = Awaiting_approval")
  case True
  from h obtain r answer where c: "conclude_resume e w r apr answer t = Inr u"
    using True unfolding resume_def Let_def by (auto elim!: rbind_InrE)
  show ?thesis
  proof (cases answer)
    case None
    with c show ?thesis unfolding conclude_resume_def by (auto elim!: rbind_InrE intro: hold_safe [OF ok])
  next
    case (Some b)
    with c show ?thesis using reschedule_safe [OF ok w True] plans_safe_same [OF ok, of t]
      by (cases b) (auto simp: conclude_resume_def)
  qed
next
  case False
  with h have "u = t" unfolding resume_def by (auto elim!: rbind_InrE)
  then show ?thesis using plans_safe_same [OF ok, of t] by simp
qed

text \<open>Replacing and creating: the replaced plan was the live one of its lineage.\<close>

lemma insert_revision:
  assumes ok: "plans_ok t" and o: "old \<in> set (pt_plans t)" "live old"
    and n: "pl_version (pw_doc w) = pl_version (pw_doc old) + 1" "pl_status (pw_doc w) = Proposed"
    and l: "pw_lineage w = Some (lineage_of old)" and i: "insert_plan w (mark_plan old Superseded k t) = Inr u"
  shows "plans_safe t u"
proof -
  let ?t1 = "mark_plan old Superseded k t" and ?f = "\<lambda>v. v\<lparr>pw_doc := (pw_doc old)\<lparr>pl_status := Superseded\<rparr>, pw_seq := k\<rparr>"
  have "moves (pl_status (pw_doc old)) Superseded"
    using o(2) by (cases "pl_status (pw_doc old)") (simp_all add: live_def moves_def consented_def TERMINAL_def)
  then have s: "plans_safe t ?t1"
    by (rule mark_plan_safe [OF ok o(1)]) (simp_all add: TERMINAL_def consented_def)
  have eq: "pt_plans ?t1 = map (\<lambda>v. if v = old then ?f old else v) (pt_plans t)"
    unfolding mark_plan_def by (rule update_plan_eq [OF ok o(1)])
  have so: "lineage_of (?f old) = lineage_of old" "pl_version (pw_doc (?f old)) = pl_version (pw_doc old)" "\<not> live (?f old)"
    by (auto simp: lineage_of_def live_def TERMINAL_def split: option.split)
  have lw: "lineage_of w = pl_id (pw_doc w) \<or> lineage_of w = lineage_of old" by (simp add: lineage_of_def [of w] l)
  have ids: "lineage_of old \<in> set (plan_ids t)" using ok o(1) unfolding plans_ok_def by blast
  have same_ids: "plan_ids ?t1 = plan_ids t" unfolding eq by simp
  have "plans_ok ?t1" using s by (simp add: plans_safe_def)
  moreover have "\<not> live v \<and> pl_version (pw_doc v) < pl_version (pw_doc w)"
    if v: "v \<in> set (pt_plans ?t1)" and li: "lineage_of v = lineage_of w" for v
  proof -
    have "lineage_of v \<in> set (plan_ids t)" using \<open>plans_ok ?t1\<close> v unfolding plans_ok_def same_ids by blast
    moreover have "pl_id (pw_doc w) \<notin> set (plan_ids t)" 
      using i unfolding same_ids [symmetric] by (auto simp: insert_plan_def result_simps)
    ultimately have lo: "lineage_of v = lineage_of old" using lw li by metis
    from v consider "v = ?f old" | "v \<in> set (pt_plans t)" "v \<noteq> old" unfolding eq by (auto split: if_splits)
    then show ?thesis
    proof cases
      case 1 then show ?thesis using so n(1) by simp
    next
      case 2
      have "newest old (pt_plans t)" using ok o unfolding plans_ok_def by blast
      then have lt: "pl_version (pw_doc v) < pl_version (pw_doc old)" using 2 lo unfolding newest_def by blast
      moreover have "\<not> live v"
      proof
        assume "live v"
        then have "newest v (pt_plans t)" using ok 2 unfolding plans_ok_def by blast
        then have "pl_version (pw_doc old) < pl_version (pw_doc v)" using o(1) 2(2) lo unfolding newest_def by metis
        with lt show False by simp
      qed
      ultimately show ?thesis using n(1) by simp
    qed
  qed
  moreover have "plan_ok w" using n(2) by (simp add: plan_ok_def consented_def)
  ultimately have "plans_safe ?t1 u"
    using insert_plan_safe [OF _ i] lw ids unfolding same_ids by metis
  with s show ?thesis by (rule plans_safe_trans)
qed

lemma insert_fresh:
  assumes ok: "plans_ok t" and n: "pl_status (pw_doc w) = Proposed" and l: "lineage_of w = pl_id (pw_doc w)" and i: "insert_plan w t = Inr u"
  shows "plans_safe t u"
proof (rule insert_plan_safe [OF ok i])
  show "plan_ok w" using n by (simp add: plan_ok_def consented_def)
  fix v assume "v \<in> set (pt_plans t)" and "lineage_of v = lineage_of w"
  then have "pl_id (pw_doc w) \<in> set (plan_ids t)" using ok l unfolding plans_ok_def by metis
  then show "\<not> live v \<and> pl_version (pw_doc v) < pl_version (pw_doc w)" using i by (auto simp: insert_plan_def result_simps)
qed (use l in simp)

section \<open>Commits\<close>

lemma prepare_put_old:
  assumes "prepare_put e t m pr True d as rt au = Inr ()"
  obtains i old where "pl_supersedes d = Some i" and "i \<noteq> []" and "get_plan t i = Inr old"
    and "pl_version d = pl_version (pw_doc old) + 1" and "live old" and "pl_status d = Proposed"
  using assms unfolding prepare_put_def
  by (auto elim!: rbind_InrE simp: result_simps revision_ok_def live_def put_scope_def)

lemma prepare_put_first:
  assumes "prepare_put e t m pr False d as rt au = Inr ()"
  shows "pl_supersedes d = None" and "pl_status d = Proposed"
  using assms unfolding prepare_put_def by (auto elim!: rbind_InrE simp: result_simps put_scope_def)

lemma commit_putE:
  assumes "commit_put e d as rt au m pr dec n t = Inr u"
  obtains old inh t1 t2 where "supersede e d au n t = Inr ((old, inh), t1)"
    and "insert_plan (new_plan_row e (prepared_plan e d) rt m pr old inh n) t1 = Inr t2" and "pt_plans u = pt_plans t2"
  using assms unfolding commit_put_def Let_def idle_job_def
  by (auto elim!: rbind_InrE dest!: plans_kept)

lemma new_plan_row_simps [simp]:
  "pw_doc (new_plan_row e d rt m pr old inh n) = d" "pw_lineage (new_plan_row e d rt m pr old inh n) =
    Some (case old of None \<Rightarrow> pl_id d | Some w \<Rightarrow> lineage_of w)"
  by (simp_all add: new_plan_row_def)

lemma prepared_plan_simps [simp]:
  "pl_id (prepared_plan e d) = pl_id d" "pl_version (prepared_plan e d) = pl_version d" "pl_status (prepared_plan e d) = pl_status d"
  by (simp_all add: prepared_plan_def)

lemma commit_put_safe:
  assumes ok: "plans_ok t" and p: "prepare_put e0 t0 m0 pr rvs d as rt au = Inr ()" and t: "pt_plans t = pt_plans t0"
    and c: "commit_put e d as rt au m pr dec n t = Inr u"
  shows "plans_safe t u"
proof -
  from c obtain old inh t1 t2 where s: "supersede e d au n t = Inr ((old, inh), t1)"
    and i: "insert_plan (new_plan_row e (prepared_plan e d) rt m pr old inh n) t1 = Inr t2" and u: "pt_plans u = pt_plans t2"
    by (rule commit_putE)
  have "plans_safe t t2"
  proof (cases rvs)
    case True
    with p obtain j w where j: "pl_supersedes d = Some j" "j \<noteq> []" and w: "get_plan t j = Inr w"
      and v: "pl_version d = pl_version (pw_doc w) + 1" "live w" "pl_status d = Proposed"
      using prepare_put_old [of e0 t0 m0 pr d as rt au] t by (auto simp: get_plan_def)
    from s j w obtain t3 where k: "pt_plans t3 = pt_plans t" and old: "old = Some w" and t1: "t1 = mark_plan w Superseded n t3"
      by (auto simp: supersede_def Let_def elim!: rbind_InrE dest!: plans_kept)
    have "plans_safe t3 t2"
      by (rule insert_revision [OF _ _ v(2) _ _ _ i [unfolded t1]])
        (use ok k plans_ok_same [OF k] get_plan_Inr [OF w] v old in simp_all)
    then show ?thesis using k by (simp add: plans_safe_def plans_grow_def)
  next
    case False
    then have "prepare_put e0 t0 m0 pr False d as rt au = Inr ()" using p by simp
    note first = prepare_put_first [OF this]
    with s have "old = None" and t1: "t1 = t" by (simp_all add: supersede_def)
    then show ?thesis
      by (intro insert_fresh [OF ok _ _ i [unfolded t1]]) (simp_all add: first lineage_of_def)
  qed
  then show ?thesis using u plans_ok_same [OF u] by (simp add: plans_safe_def plans_grow_def)
qed

lemma allocate_plans:
  assumes "allocate e w b t = Inr u"
  shows "\<exists>rv. u = update_plan (pl_id (pw_doc w)) (\<lambda>v. v\<lparr>pw_reservation := Some rv\<rparr>) t"
  using assms unfolding allocate_def Let_def by (auto elim!: rbind_InrE)

lemma reservation_safe:
  assumes ok: "plans_ok t" and w: "w \<in> set (pt_plans t)"
  shows "plans_safe t (update_plan (pl_id (pw_doc w)) (\<lambda>v. v\<lparr>pw_reservation := Some rv\<rparr>) t)"
  by (rule update_plan_safe [OF ok w]) (use ok w in \<open>auto simp: same_plan_def live_def plan_ok_def plans_ok_def\<close>)

lemma commit_approve_safe:
  assumes ok: "plans_ok t" and w: "w \<in> set (pt_plans t)" and s: "pl_status (pw_doc w) = Proposed" and r: "pw_runtime w \<noteq> None"
    and c: "commit_approve e w b m pr n t = Inr u"
  shows "plans_safe t u"
proof -
  let ?f = "\<lambda>i v. v\<lparr>pw_doc := (pw_doc w)\<lparr>pl_status := Plan_approved\<rparr>, pw_approver := Some (identity (scheduler_of pr)), pw_member := Some i, pw_seq := n\<rparr>"
  from c obtain i rv where u: "u = update_plan (pl_id (pw_doc w)) (\<lambda>v. v\<lparr>pw_reservation := Some rv\<rparr>) (update_plan (pl_id (pw_doc w)) (?f i) t)"
    unfolding commit_approve_def by (auto elim!: rbind_InrE dest!: allocate_plans)
  have 1: "plans_safe t (update_plan (pl_id (pw_doc w)) (?f i) t)"
    by (rule update_plan_safe [OF ok w]) (use s r in \<open>simp_all add: same_plan_def live_def plan_ok_def moves_def TERMINAL_def\<close>)
  moreover have "?f i w \<in> set (pt_plans (update_plan (pl_id (pw_doc w)) (?f i) t))"
    unfolding update_plan_eq [OF ok w] using w by (auto intro: rev_image_eqI)
  ultimately have "plans_safe (update_plan (pl_id (pw_doc w)) (?f i) t) u"
    using reservation_safe [of "update_plan (pl_id (pw_doc w)) (?f i) t" "?f i w" rv] by (simp add: u plans_safe_def)
  with 1 show ?thesis by (rule plans_safe_trans)
qed

lemma commit_cancel_safe:
  assumes ok: "plans_ok t" and w: "w \<in> set (pt_plans t)" and c: "commit_cancel e w dec n t = Inr u"
  shows "plans_safe t u"
proof -
  from c obtain t2 where k: "pt_plans t2 = pt_plans t" and u: "u = mark_plan w Abandoned n t2"
    unfolding commit_cancel_def by (auto elim!: rbind_InrE dest!: plans_kept)
  have "moves (pl_status (pw_doc w)) Abandoned" by (cases "pl_status (pw_doc w)") (simp_all add: moves_def consented_def TERMINAL_def)
  then have "plans_safe t2 u" unfolding u
    by (rule mark_plan_safe [rotated 2]) (use ok w k plans_ok_same [OF k] in \<open>simp_all add: TERMINAL_def consented_def\<close>)
  then show ?thesis using k by (simp add: plans_safe_def plans_grow_def)
qed

lemma prepare_approve_given:
  assumes "prepare_approve e t w m pr b = Inr ()"
  shows "pl_status (pw_doc w) = Proposed" and "pw_runtime w \<noteq> None"
  using assms unfolding prepare_approve_def by (auto elim!: rbind_InrE simp: result_simps fresh_def)

lemma commit_plan_safe:
  assumes ok: "plans_ok t" and p: "prepare_plan e t mu pr = Inr ()" and c: "commit_plan e i dec pr mu (t\<lparr>pt_house := h\<rparr>) = Inr u"
  shows "plans_safe t u"
proof -
  from c obtain m n t1 where k: "pt_plans t1 = pt_plans t" and b: "(case mu of
       Put_plan _ d as runtime autonomous \<Rightarrow> commit_put e d as runtime autonomous m pr dec n t1
     | Cancel_plan j \<Rightarrow> rbind (get_plan t1 j) (\<lambda>w. commit_cancel e w dec n t1)
     | Approve_plan j budget \<Rightarrow> rbind (get_plan t1 j) (\<lambda>w. commit_approve e w budget m pr n t1)) = Inr u"
    unfolding commit_plan_def by (auto elim!: rbind_InrE dest!: plans_kept)
  have ok1: "plans_ok t1" using ok plans_ok_same [OF k] by simp
  have g: "get_plan t1 j = get_plan t j" for j using k by (simp add: get_plan_def)
  have "plans_safe t1 u"
  proof (cases mu)
    case (Put_plan rvs d as rt au)
    with p obtain m0 where "prepare_put e t m0 pr rvs d as rt au = Inr ()" unfolding prepare_plan_def by (auto elim!: rbind_InrE)
    then show ?thesis using commit_put_safe [OF ok1 _ k] b Put_plan by simp
  next
    case (Cancel_plan j)
    with b show ?thesis using commit_cancel_safe [OF ok1] by (auto elim!: rbind_InrE dest!: get_plan_Inr)
  next
    case (Approve_plan j bu)
    with b obtain w where w: "get_plan t j = Inr w" and c: "commit_approve e w bu m pr n t1 = Inr u" by (auto simp: g elim!: rbind_InrE)
    from p Approve_plan w obtain m0 where "prepare_approve e t w m0 pr bu = Inr ()" unfolding prepare_plan_def by (auto elim!: rbind_InrE)
    from prepare_approve_given [OF this] commit_approve_safe [OF ok1 _ _ _ c] get_plan_Inr [OF w] k show ?thesis by simp
  qed
  then show ?thesis using k by (simp add: plans_safe_def plans_grow_def)
qed

section \<open>Worker passes\<close>

lemma scheduleE:
  assumes "schedule e w d t = Inr u"
  obtains h where "u = t\<lparr>pt_house := h\<rparr>"
    | h v where "get_plan (t\<lparr>pt_house := h\<rparr>) (pl_id (pw_doc w)) = Inr v"
      and "queue_refresh e v ''consent arrived after scheduled changes'' False None (audit_id d) (t\<lparr>pt_house := h\<rparr>) = Inr u"
  using assms unfolding schedule_def Let_def
  by (auto elim!: rbind_InrE split: sum.split_asm prod.split_asm if_split_asm)

lemma schedule_safe:
  assumes ok: "plans_ok t" and s: "schedule e w d t = Inr u"
  shows "plans_safe t u"
  using s
proof (cases rule: scheduleE)
  case (1 h)
  then show ?thesis by (intro plans_safe_same [OF ok]) simp
next
  case (2 h v)
  have "plans_ok (t\<lparr>pt_house := h\<rparr>)" using ok by (simp add: plans_ok_def)
  from queue_refresh_safe [OF this _ 2(2)] get_plan_Inr [OF 2(1)] have "plans_safe (t\<lparr>pt_house := h\<rparr>) u" by blast
  then show ?thesis by (simp add: plans_safe_def plans_grow_def)
qed

lemma loop_safe:
  assumes "foldM f xs t = Inr u" and "plans_ok t" and "\<And>x s v. x \<in> set xs \<Longrightarrow> plans_ok s \<Longrightarrow> f x s = Inr v \<Longrightarrow> plans_safe s v"
  shows "plans_safe t u"
  using assms(1)
proof (rule foldM_invariant [where I = "plans_safe t"])
  show "plans_safe t t" using assms(2) by (rule plans_safe_same) simp
  fix x s v assume "x \<in> set xs" "plans_safe t s" "f x s = Inr v"
  moreover from this have "plans_safe s v" by (intro assms(3)) (simp_all add: plans_safe_def)
  ultimately show "plans_safe t v" by (blast intro: plans_safe_trans)
qed

lemma schedule_approved_safe: "plans_ok t \<Longrightarrow> schedule_approved e t = Inr u \<Longrightarrow> plans_safe t u"
  unfolding schedule_approved_def by (erule loop_safe) (auto elim!: rbind_InrE intro: schedule_safe)

lemma queue_all_safe:
  assumes "foldM (\<lambda>w. queue_refresh e w why ex None dec) ws t = Inr u" and "plans_ok t" and "set ws \<subseteq> set (pt_plans t)" and "distinct ws"
  shows "plans_safe t u"
  using assms
proof (induction ws arbitrary: t)
  case Nil
  then show ?case using plans_safe_same [of t t] by simp
next
  case (Cons w ws)
  then obtain t1 where q: "queue_refresh e w why ex None dec t = Inr t1" and r: "foldM (\<lambda>w. queue_refresh e w why ex None dec) ws t1 = Inr u"
    by (auto elim!: rbind_InrE)
  from queue_refresh_safe [OF Cons.prems(2) _ q] Cons.prems(3)
  have s: "plans_safe t t1" and "\<forall>v \<in> set (pt_plans t). v \<noteq> w \<longrightarrow> v \<in> set (pt_plans t1)" by simp_all
  then have "set ws \<subseteq> set (pt_plans t1)" using Cons.prems(3,4) by auto
  then have "plans_safe t1 u" using Cons.IH [OF r] s Cons.prems(4) by (simp add: plans_safe_def)
  with s show ?case by (rule plans_safe_trans)
qed

lemma invalidate_all_safe: "plans_ok t \<Longrightarrow> invalidate_all e why ex dec t = Inr u \<Longrightarrow> plans_safe t u"
  unfolding invalidate_all_def by (erule queue_all_safe) (auto simp: plans_ok_def distinct_map intro: distinct_filter)

lemma complete_plan_safe:
  assumes ok: "plans_ok t" and c: "complete_plan e a t = Inr u"
  shows "plans_safe t u"
proof (cases "u = t")
  case True
  then show ?thesis using plans_safe_same [OF ok, of t] by simp
next
  case False
  with c obtain w n t1 where w: "w \<in> set (pt_plans t)" and a: "pl_status (pw_doc w) \<in> {Plan_approved, Active}"
    and k: "pt_plans t1 = pt_plans t" and u: "u = mark_plan w (ended_status e w) n t1"
    unfolding complete_plan_def Let_def
    by (auto elim!: rbind_InrE dest!: plans_kept get_plan_Inr split: option.split_asm if_split_asm)
  have st: "ended_status e w \<in> {Completed, Active}" by (simp add: ended_status_def)
  from ok w have "plan_ok w" by (simp add: plans_ok_def)
  with a st have "plans_safe t1 u" unfolding u
    by (intro mark_plan_safe) (use w ok k plans_ok_same [OF k] in \<open>auto simp: plan_ok_def live_def moves_def consented_def TERMINAL_def\<close>)
  then show ?thesis using k by (simp add: plans_safe_def plans_grow_def)
qed

lemma save_fingerprint_plans: "save_fingerprint e w v d t = Inr u \<Longrightarrow> pt_plans u = pt_plans t"
  unfolding save_fingerprint_def by (rule save_job_plans)

lemma take_over_plans: "take_over e w d t = Inr u \<Longrightarrow> pt_plans u = pt_plans t"
  unfolding take_over_def Let_def by (auto dest: save_fingerprint_plans split: if_split_asm)

lemma refresh_detected_safe:
  assumes ok: "plans_ok t" and w: "w \<in> set (pt_plans t)" and d: "refresh_detected e w why v dec t = Inr u"
  shows "plans_safe t u"
proof -
  from d obtain t1 where q: "queue_refresh e w why False (Some v) dec t = Inr t1" and u: "pt_plans u = pt_plans t1"
    unfolding refresh_detected_def by (auto elim!: rbind_InrE dest!: save_job_plans split: if_split_asm)
  from queue_refresh_safe [OF ok w q] plans_ok_same [OF u] show ?thesis by (simp add: plans_safe_def plans_grow_def u)
qed

lemma detect_safe:
  assumes ok: "plans_ok t" and w: "w \<in> set (pt_plans t)" and d: "detect e w dec t = Inr u"
  shows "plans_safe t u"
proof (cases "pl_status (pw_doc w) \<in> TERMINAL")
  case True
  with d show ?thesis using plans_safe_same [OF ok, of t] by (simp add: detect_def)
next
  case False
  with d obtain t1 where k: "pt_plans t1 = pt_plans t" and r: "(case detect_reason e t w of
          Some why \<Rightarrow> refresh_detected e w why (pe_fingerprint e t w) dec t1
        | None \<Rightarrow> if job_fingerprint (job_for t w) = PDict [] then save_fingerprint e w (pe_fingerprint e t w) dec t1 else Inr t1) = Inr u"
    unfolding detect_def by (auto elim!: rbind_InrE dest!: take_over_plans)
  have ok1: "plans_ok t1" and w1: "w \<in> set (pt_plans t1)" using ok w plans_ok_same [OF k] k by simp_all
  have "plans_safe t1 u"
  proof (cases "detect_reason e t w")
    case None
    with r have "pt_plans u = pt_plans t1" by (auto dest: save_fingerprint_plans split: if_split_asm)
    then show ?thesis by (rule plans_safe_same [OF ok1])
  next
    case (Some why)
    with r show ?thesis by (auto intro: refresh_detected_safe [OF ok1 w1])
  qed
  then show ?thesis using k by (simp add: plans_safe_def plans_grow_def)
qed

section \<open>The machine\<close>

lemma put_plan_safe:
  assumes ok: "plans_ok t" and w: "w \<in> set (pt_plans t)" and v: "pw_doc v = pw_doc w" "same_plan w v" "plan_ok v"
  shows "plans_safe t (put_plan v t)" and "v \<in> set (pt_plans (put_plan v t))"
proof -
  have e: "put_plan v t = update_plan (pl_id (pw_doc w)) (\<lambda>_. v) t" by (simp add: put_plan_def v(1))
  show "plans_safe t (put_plan v t)" unfolding e
    by (rule update_plan_safe [OF ok w]) (use v in \<open>simp_all add: live_def\<close>)
  show "v \<in> set (pt_plans (put_plan v t))" unfolding e update_plan_eq [OF ok w] using w by (auto intro: rev_image_eqI)
qed

text \<open>A refresh command fills in the requester and rewrites the inputs, and leaves the rest of a row.\<close>

definition refilled :: "plan_row \<Rightarrow> plan_row \<Rightarrow> bool" where
  "refilled w v \<longleftrightarrow> v = w\<lparr>pw_runtime := pw_runtime v, pw_requester := pw_requester v\<rparr> \<and>
     (pw_runtime w \<noteq> None \<longrightarrow> pw_runtime v \<noteq> None) \<and> (pw_requester w \<noteq> None \<longrightarrow> pw_requester v = pw_requester w)"

lemma refilled_refl: "refilled w w"
  by (simp add: refilled_def)

lemma refilled_trans: "refilled u w \<Longrightarrow> refilled w v \<Longrightarrow> refilled u v"
  by (cases u; cases w; cases v) (auto simp: refilled_def)

lemma refilled_steps: "refilled w (put_runtime r w)" "refilled w (name_requester pr w)"
  by (simp_all add: refilled_def put_runtime_def name_requester_def)

lemma refilled_same:
  assumes "refilled w v" and "plan_ok w"
  shows "pw_doc v = pw_doc w \<and> same_plan w v \<and> plan_ok v"
  using assms by (cases v; cases w) (auto simp: refilled_def same_plan_def plan_ok_def)

lemma refilled_queue:
  assumes ok: "plans_ok t" and w: "w \<in> set (pt_plans t)" and r: "refilled w v"
    and u: "plans_ok (put_plan v t) \<Longrightarrow> v \<in> set (pt_plans (put_plan v t)) \<Longrightarrow> plans_safe (put_plan v t) u"
  shows "plans_safe t u"
proof -
  from ok w have "plan_ok w" by (simp add: plans_ok_def)
  with refilled_same [OF r] have v: "pw_doc v = pw_doc w" "same_plan w v" "plan_ok v" by blast+
  note p = put_plan_safe [OF ok w v]
  from p(1) u [OF _ p(2)] show ?thesis by (auto simp: plans_safe_def intro: plans_grow_trans)
qed

lemma ask_refresh_safe:
  assumes ok: "plans_ok t" and w: "w \<in> set (pt_plans t)" and a: "ask_refresh e w pr ex rt why inp dec t = Inr u"
  shows "plans_safe t u"
proof -
  from a obtain w2 w3 where m2: "(case rt of None \<Rightarrow> Inr (name_requester pr w)
        | Some i \<Rightarrow> rbind (retry_inputs e t (name_requester pr w) pr ex i) (\<lambda>r. Inr (put_runtime r (name_requester pr w)))) = Inr w2"
    and m3: "(case inp of None \<Rightarrow> Inr w2 | Some r \<Rightarrow>
        rbind (guard ValueError (pe_valid_runtime e r (pw_doc w2) \<and>
             (case pw_runtime w2 of None \<Rightarrow> True | Some prior \<Rightarrow> pe_preserves e r prior))) (\<lambda>_.
           Inr (put_runtime (kept_inputs (pw_runtime w2) r) w2))) = Inr w3"
    and q: "queue_refresh e w3 why ex None (Some dec) (put_plan w3 t) = Inr u"
    unfolding ask_refresh_def Let_def by (elim rbind_InrE)
  from m2 have w2: "w2 = name_requester pr w \<or> (\<exists>r. w2 = put_runtime r (name_requester pr w))"
    by (cases rt) (auto elim!: rbind_InrE)
  from m3 have w3: "w3 = w2 \<or> (\<exists>r. w3 = put_runtime r w2)" by (cases inp) (auto elim!: rbind_InrE)
  have "refilled w w2" using w2 refilled_steps refilled_trans by blast
  then have "refilled w w3" using w3 refilled_steps(1) refilled_trans by blast
  then show ?thesis by (rule refilled_queue [OF ok w]) (use queue_refresh_safe [OF _ _ q] in blast)
qed

lemma new_feeds_safe:
  assumes ok: "plans_ok t" and w: "w \<in> set (pt_plans t)" and a: "new_feeds e w r b dec t = Inr u"
  shows "plans_safe t u"
proof (rule refilled_queue [OF ok w refilled_steps(1)])
  let ?v = "put_runtime r w"
  assume o: "plans_ok (put_plan ?v t)" and i: "?v \<in> set (pt_plans (put_plan ?v t))"
  from a have "save_fingerprint e ?v (pe_fingerprint e (put_plan ?v t) ?v) (Some dec) (put_plan ?v t) = Inr u \<or>
    queue_refresh e ?v ''Configured price, weather or calendar changed'' False (Some (pe_fingerprint e (put_plan ?v t) ?v)) (Some dec) (put_plan ?v t) = Inr u"
    unfolding new_feeds_def Let_def by (auto elim!: rbind_InrE split: if_split_asm)
  then show "plans_safe (put_plan ?v t) u"
    using queue_refresh_safe [OF o i] plans_safe_same [OF o save_fingerprint_plans] by blast
qed

lemma move_job_plans: "move_job e w g vs dec t = Inr u \<Longrightarrow> pt_plans u = pt_plans t"
  unfolding move_job_def by (auto elim!: rbind_InrE dest: save_job_plans)

lemma commit_refresh_safe:
  assumes ok: "plans_ok t" and c: "commit_refresh e i dec pr cmd t = Inr u"
  shows "plans_safe t u"
proof -
  from c obtain w where w: "get_plan t i = Inr w" and r: "(case cmd of
         Resume_device j apr \<Rightarrow> resume e w j apr t
       | New_feeds r baseline \<Rightarrow> new_feeds e w r baseline dec t
       | Ask_refresh explicit retried why inputs \<Rightarrow> ask_refresh e w pr explicit retried why inputs dec t
       | Detect_changes \<Rightarrow> detect e w (Some dec) t
       | Move_job generation values \<Rightarrow> move_job e w generation values dec t) = Inr u"
    unfolding commit_refresh_def by (auto elim!: rbind_InrE)
  have m: "w \<in> set (pt_plans t)" using get_plan_Inr [OF w] by blast
  show ?thesis
    using r resume_safe [OF ok m] new_feeds_safe [OF ok m] ask_refresh_safe [OF ok m] detect_safe [OF ok m]
      plans_safe_same [OF ok move_job_plans]
    by (cases cmd) auto
qed

text \<open>
  One transaction each. Whatever the pipeline does in between is a change of the house. A mutation or a refresh
  command is committed under the plans it was prepared on. The worker parks an action after the transaction that
  decided to ask; \<open>await_approval\<close> does not look whether the plan is still in force when it is parked
  (\<open>cancelled_plan_revived\<close> below). In the \<open>orderly\<close> machine it is; \<open>plan_step False\<close> is the machine without
  that premise.
\<close>

inductive plan_step :: "bool \<Rightarrow> plan_tables \<Rightarrow> plan_tables \<Rightarrow> bool" for orderly :: bool where
  house_moves: "plan_step orderly t (t\<lparr>pt_house := h\<rparr>)"
| mutated: "plan_step orderly t u" if "prepare_plan e t mu pr = Inr ()" and "commit_plan e i dec pr mu (t\<lparr>pt_house := h\<rparr>) = Inr u"
| refreshed: "plan_step orderly t u" if "prepare_refresh e t i pr = Inr ()" and "commit_refresh e i dec pr cmd (t\<lparr>pt_house := h\<rparr>) = Inr u"
| queued: "plan_step orderly t u" if "get_plan t i = Inr w" and "queue_refresh e w why ex fpr dec t = Inr u"
| detected: "plan_step orderly t u" if "get_plan t i = Inr w" and "detect e w dec t = Inr u"
| invalidated: "plan_step orderly t u" if "invalidate_all e why ex dec t = Inr u"
| held: "plan_step orderly t u" if "hold e a m why t = Inr u"
| parked: "plan_step orderly t u"
    if "\<And>i w. orderly \<Longrightarrow> plan_of a = Some i \<Longrightarrow> get_plan t i = Inr w \<Longrightarrow> pl_status (pw_doc w) \<in> consented"
      and "park e a d m t = Inr u"
| resumed: "plan_step orderly t u" if "get_plan t i = Inr w" and "resume e w j apr t = Inr u"
| scheduling: "plan_step orderly t u" if "schedule_approved e t = Inr u"
| completing: "plan_step orderly t u" if "complete_plan e a t = Inr u"

lemma plan_step_safe:
  assumes "plan_step True t u" and "plans_ok t"
  shows "plans_safe t u"
  using assms
proof (cases rule: plan_step.cases)
  case (house_moves h)
  then show ?thesis using assms(2) by (intro plans_safe_same) simp_all
next
  case (mutated e mu pr i dec h)
  with assms(2) show ?thesis by (intro commit_plan_safe)
next
  case (refreshed e i pr dec cmd h)
  then have "plans_safe (t\<lparr>pt_house := h\<rparr>) u" using assms(2) by (intro commit_refresh_safe) (simp add: plans_ok_def)
  then show ?thesis by (simp add: plans_safe_def plans_grow_def)
next
  case (queued i w e why ex fpr dec)
  then show ?thesis using queue_refresh_safe [OF assms(2)] get_plan_Inr by blast
next
  case (detected i w e dec)
  then show ?thesis using detect_safe [OF assms(2)] get_plan_Inr by blast
next
  case (invalidated e why ex dec)
  with assms(2) show ?thesis by (intro invalidate_all_safe)
next
  case (held e a m why)
  with assms(2) show ?thesis by (intro hold_safe)
next
  case (parked a e d m)
  then show ?thesis using park_safe [OF assms(2)] by blast
next
  case (resumed i w e j apr)
  then show ?thesis using resume_safe [OF assms(2)] get_plan_Inr by blast
next
  case (scheduling e)
  with assms(2) show ?thesis by (intro schedule_approved_safe)
next
  case (completing e a)
  with assms(2) show ?thesis by (intro complete_plan_safe)
qed

definition no_plans :: "house \<Rightarrow> plan_tables" where
  "no_plans h = \<lparr>pt_house = h, pt_plans = [], pt_links = [], pt_jobs = []\<rparr>"

interpretation planning: machine "plan_step True" plans_ok plans_grow
  by unfold_locales
    (use plan_step_safe in \<open>auto simp: plans_safe_def intro: plans_grow_refl plans_grow_trans\<close>)

section \<open>What a stop leaves\<close>

lemma write_rows_length: "write_rows Ha sg f hid es n prev before = Inr rs \<Longrightarrow> length rs = length es"
  by (induction es arbitrary: n prev before rs) (auto simp: Let_def split: if_split_asm elim!: rbind_InrE)

lemma append_many_length: "append_many Ha sg f hid es db = Inr (ns, db') \<Longrightarrow> length ns = length es"
  unfolding append_many_def by (cases es) (auto elim!: rbind_InrE dest: write_rows_length)

text \<open>A row of a batch: its status is the batch's when it is named, and nothing else changes.\<close>

definition put_in :: "string \<Rightarrow> string list \<Rightarrow> action_row \<Rightarrow> action_row \<Rightarrow> bool" where
  "put_in st is x y \<longleftrightarrow> proposal y = proposal x \<and> attempt_seq y = attempt_seq x \<and>
     (if action_id (proposal x) \<in> set is then execution_status y = Some st else y = x)"

lemma update_fold:
  "length ns = length is \<Longrightarrow>
   list_all2 (put_in st is) (actions h)
     (actions (fold (\<lambda>(i, n). update_action i (\<lambda>x. x\<lparr>execution_status := Some st, lifecycle_seq := Some n\<rparr>)) (zip is ns) h))"
proof (induction "is" arbitrary: ns h rule: rev_induct)
  case Nil
  then show ?case by (simp add: list_all2_same put_in_def)
next
  case (snoc i "is")
  then obtain n ms where ns: "ns = ms @ [n]" and l: "length ms = length is" by (metis length_append_singleton length_Suc_conv_rev)
  let ?h = "fold (\<lambda>(i, n). update_action i (\<lambda>x. x\<lparr>execution_status := Some st, lifecycle_seq := Some n\<rparr>)) (zip is ms) h"
  have "list_all2 (put_in st is) (actions h) (actions ?h)" using snoc.IH [OF l] .
  then have "list_all2 (put_in st (is @ [i])) (actions h)
    (map (\<lambda>x. if action_id (proposal x) = i then x\<lparr>execution_status := Some st, lifecycle_seq := Some n\<rparr> else x) (actions ?h))"
    by (simp add: list_all2_map2) (erule list_all2_mono, auto simp: put_in_def split: if_splits)
  then show ?case using l by (simp add: ns update_action_def [of i])
qed

lemma fold_update_frame:
  "approvals (fold (\<lambda>(i, n). update_action i (f i n)) xs h) = approvals h"
  by (induction xs arbitrary: h) (auto simp: update_action_def)

lemma transition_many_rows:
  assumes "transition_many p is st ev d now h = Inr h'"
  shows "list_all2 (put_in st is) (actions h) (actions h') \<and> approvals h' = approvals h"
proof (cases "is = []")
  case True
  with assms show ?thesis by (simp add: transition_many_def list_all2_same put_in_def)
next
  case False
  with assms obtain ns db where a: "append_many (H p) (sign p) (fp p) (household_id p)
      (map (\<lambda>i. (now, event_name ev, \<lambda>_. PDict ([(''action_id'', PStr i), (''status'', PStr st)] @ d))) is) (audit h) = Inr (ns, db)"
    and h': "h' = fold (\<lambda>(i, n). update_action i (\<lambda>x. x\<lparr>execution_status := Some st, lifecycle_seq := Some n\<rparr>)) (zip is ns) (h\<lparr>audit := db\<rparr>)"
    by (auto simp: transition_many_def split: sum.split_asm prod.split_asm)
  from append_many_length [OF a] have "length ns = length is" by simp
  from update_fold [OF this, of st "h\<lparr>audit := db\<rparr>"] show ?thesis by (simp add: h' fold_update_frame)
qed

lemma fold_expired: "approvals (fold (\<lambda>i. set_status i Expired) is h) =
    map (\<lambda>x. if approval_id x \<in> set is then x\<lparr>ap_status := Expired\<rparr> else x) (approvals h)"
  by (induction "is" arbitrary: h) (auto simp: set_status_def intro!: map_cong)

lemma fold_expired_actions: "actions (fold (\<lambda>i. set_status i Expired) is h) = actions h"
  by (induction "is" arbitrary: h) (auto simp: set_status_def)

lemma expire_many_rows:
  assumes "expire_many e is ev h = Inr h'"
  shows "actions h' = actions h \<and> approvals h' = map (\<lambda>x. if approval_id x \<in> set is then x\<lparr>ap_status := Expired\<rparr> else x) (approvals h)"
  using assms by (auto simp: expire_many_def fold_expired fold_expired_actions split: if_split_asm sum.split_asm prod.split_asm)

text \<open>No unstarted work of the plan is left, and no open question about it but the one to keep.\<close>

definition stopped :: "string list \<Rightarrow> string \<Rightarrow> string option \<Rightarrow> house \<Rightarrow> bool" where
  "stopped is st pre h \<longleftrightarrow>
     (\<forall>x \<in> set (actions h). action_id (proposal x) \<in> set is \<longrightarrow> attempt_seq x = None \<longrightarrow>
        execution_status x \<in> {Some st, Some ''skipped''} \<and>
        (\<forall>v \<in> set (approvals h). ap_action_id v = action_id (proposal x) \<longrightarrow> open_status (ap_status v) \<longrightarrow>
           Some (ap_action_id v) = pre))"

lemma stop_unstarted_stops:
  assumes "stop_unstarted e i ev st pre t = Inr u"
  shows "stopped (linked_ids t i) st pre (pt_house u) \<and> pt_links u = pt_links t \<and>
    map (action_id \<circ> proposal) (actions (pt_house u)) = map (action_id \<circ> proposal) (actions (pt_house t))"
proof -
  let ?rows = "unstarted t i"
  let ?ids = "map (action_id \<circ> proposal) (filter (\<lambda>x. execution_status x \<noteq> Some ''skipped'') ?rows)"
  let ?closing = "filter (\<lambda>x. Some x \<noteq> pre) (map (action_id \<circ> proposal) ?rows)"
  from assms obtain h1 h2 where 1: "transition_many (pe_plant e) ?ids st ev [(''plan_id'', PStr i)] (pe_now e) (pt_house t) = Inr h1"
    and 2: "expire_many e (open_approvals h1 ?closing) ev h1 = Inr h2" and u: "u = t\<lparr>pt_house := h2\<rparr>"
    unfolding stop_unstarted_def Let_def by (auto elim!: rbind_InrE)
  from transition_many_rows [OF 1] have l: "list_all2 (put_in st ?ids) (actions (pt_house t)) (actions h1)" by simp
  from expire_many_rows [OF 2] have a: "actions h2 = actions h1"
    and ap: "approvals h2 = map (\<lambda>x. if approval_id x \<in> set (open_approvals h1 ?closing) then x\<lparr>ap_status := Expired\<rparr> else x) (approvals h1)"
    by simp_all
  have "map (action_id \<circ> proposal) (actions h1) = map (action_id \<circ> proposal) (actions (pt_house t))"
    using l by (induction rule: list_all2_induct) (auto simp: put_in_def)
  moreover have "execution_status y \<in> {Some st, Some ''skipped''}"
    and "\<forall>v \<in> set (approvals h2). ap_action_id v = action_id (proposal y) \<longrightarrow> open_status (ap_status v) \<longrightarrow> Some (ap_action_id v) = pre"
    if y: "y \<in> set (actions h2)" and i: "action_id (proposal y) \<in> set (linked_ids t i)" and n: "attempt_seq y = None" for y
  proof -
    from y a l obtain x where x: "x \<in> set (actions (pt_house t))" and p: "put_in st ?ids x y"
      by (metis list_all2_conv_all_nth in_set_conv_nth)
    then have r: "x \<in> set ?rows" using i n by (auto simp: unstarted_def put_in_def)
    show "execution_status y \<in> {Some st, Some ''skipped''}"
    proof (cases "execution_status x = Some ''skipped''")
      case True
      with p show ?thesis by (auto simp: put_in_def split: if_split_asm)
    next
      case False
      with r have "action_id (proposal x) \<in> set ?ids" by auto
      with p show ?thesis by (simp add: put_in_def)
    qed
    have c: "action_id (proposal y) \<in> set ?closing" if "Some (action_id (proposal y)) \<noteq> pre"
      using r p that by (auto simp: put_in_def)
    show "\<forall>v \<in> set (approvals h2). ap_action_id v = action_id (proposal y) \<longrightarrow> open_status (ap_status v) \<longrightarrow> Some (ap_action_id v) = pre"
    proof (intro ballI impI, rule ccontr)
      fix v assume v: "v \<in> set (approvals h2)" and k: "ap_action_id v = action_id (proposal y)" and os: "open_status (ap_status v)"
        and np: "Some (ap_action_id v) \<noteq> pre"
      from v os have v1: "v \<in> set (approvals h1)" and no: "approval_id v \<notin> set (open_approvals h1 ?closing)"
        unfolding ap by (auto simp: open_status_def split: if_split_asm)
      have "ap_action_id v \<in> set ?closing" using c np k by metis
      then have "approval_id v \<in> set (open_approvals h1 ?closing)"
        using v1 os by (auto simp: open_approvals_def open_status_def)
      with no show False by contradiction
    qed
  qed
  ultimately show ?thesis by (simp add: stopped_def u a)
qed

lemma no_plans_ok: "plans_ok (no_plans h)"
  by (simp add: plans_ok_def no_plans_def)

lemmas planned_ok = planning.runs_inv [OF _ no_plans_ok]

end
