(* ===== verification/Plan_Consent.thy ===== *)
theory Plan_Consent
  imports Plan_Laws Samples
begin

text \<open>
  The promises of plan consent: one live plan for a lineage, a stopped plan leaves nothing to start,
  consent is paid by a grant, a paused plan resumes on votes. The sample is a plan of one lamp; the last
  section shows the two ways in which a cancelled plan is not the end of it.
\<close>

section \<open>Committing and stopping\<close>

lemma plan_event_house:
  assumes "plan_event e ev pl t = Inr (n, u)"
  shows "actions (pt_house u) = actions (pt_house t) \<and> approvals (pt_house u) = approvals (pt_house t) \<and>
    pt_links u = pt_links t \<and> pt_jobs u = pt_jobs t"
  using assms unfolding plan_event_def by (auto elim!: rbind_InrE dest: write_event_frame)

lemma save_job_house:
  assumes "save_job e w v f d t = Inr u"
  shows "actions (pt_house u) = actions (pt_house t) \<and> approvals (pt_house u) = approvals (pt_house t) \<and> pt_links u = pt_links t"
  using assms unfolding save_job_def by (auto elim!: rbind_InrE dest: plan_event_house split: if_split_asm)

lemma mark_plan_house [simp]: "pt_house (mark_plan w st n t) = pt_house t" "pt_links (mark_plan w st n t) = pt_links t"
  "pt_jobs (mark_plan w st n t) = pt_jobs t"
  by (simp_all add: mark_plan_def update_plan_def)

text \<open>Rows that are added later carry identifiers that no row had.\<close>

definition only_adds :: "house \<Rightarrow> house \<Rightarrow> bool" where
  "only_adds h h' \<longleftrightarrow> approvals h' = approvals h \<and>
     (\<exists>xs. actions h' = actions h @ xs \<and> (\<forall>x \<in> set xs. action_id (proposal x) \<notin> (action_id \<circ> proposal) ` set (actions h)))"

lemma only_adds_refl: "only_adds h h"
  by (simp add: only_adds_def)

lemma only_adds_trans: "only_adds h h1 \<Longrightarrow> only_adds h1 h2 \<Longrightarrow> only_adds h h2"
  unfolding only_adds_def by (elim conjE exE) (auto simp: image_Un)

lemma link_action_adds:
  assumes "link_action e pr i a t = Inr u"
  shows "only_adds (pt_house t) (pt_house u)"
proof -
  from assms obtain b g s h where p: "proposal_step (pe_plant e) a pr None (pt_house t) = Inr (b, g, s, h)" and u: "pt_house u = h"
    unfolding link_action_def by (auto elim!: rbind_InrE)
  show ?thesis
  proof (cases "find_action (pt_house t) (action_id a)")
    case None
    then have "action_id a \<notin> (action_id \<circ> proposal) ` set (actions (pt_house t))" by (simp add: find_action_None)
    moreover from None p obtain c where "h = (pt_house t)\<lparr>actions := actions (pt_house t) @ [new_action_row a pr c]\<rparr>"
      unfolding proposal_step_def insert_action_def by (auto elim!: rbind_InrE split: if_split_asm)
    ultimately show ?thesis unfolding u only_adds_def by (auto simp: new_action_row_def reload_id)
  next
    case (Some x)
    with p have "h = pt_house t" unfolding proposal_step_def by (auto elim!: rbind_InrE)
    then show ?thesis by (simp add: u only_adds_refl)
  qed
qed

lemma link_actions_adds:
  assumes "foldM (link_action e pr i) as t = Inr u"
  shows "only_adds (pt_house t) (pt_house u)"
  using assms
  by (rule foldM_invariant [where I = "\<lambda>s. only_adds (pt_house t) (pt_house s)"]) (auto intro: only_adds_refl only_adds_trans link_action_adds)

lemma stopped_adds:
  assumes "stopped is st pre h" and "only_adds h h'" and "set is \<subseteq> (action_id \<circ> proposal) ` set (actions h)"
  shows "stopped is st pre h'"
proof -
  from assms(2) obtain xs where ap: "approvals h' = approvals h" and h': "actions h' = actions h @ xs"
    and n: "\<And>x. x \<in> set xs \<Longrightarrow> action_id (proposal x) \<notin> (action_id \<circ> proposal) ` set (actions h)"
    unfolding only_adds_def by blast
  have "x \<in> set (actions h)" if "x \<in> set (actions h')" and "action_id (proposal x) \<in> set is" for x
    using that n assms(3) unfolding h' by (metis Un_iff set_append subsetD)
  with assms(1) show ?thesis unfolding stopped_def ap by blast
qed

lemma stopped_less: "stopped is st pre h \<Longrightarrow> set js \<subseteq> set is \<Longrightarrow> stopped js st pre h"
  unfolding stopped_def by blast

lemma stopped_same: "actions h' = actions h \<Longrightarrow> approvals h' = approvals h \<Longrightarrow> stopped is st pre h' = stopped is st pre h"
  by (simp add: stopped_def)

definition known_links :: "plan_tables \<Rightarrow> string \<Rightarrow> string list" where
  "known_links t i = filter (\<lambda>a. a \<in> (action_id \<circ> proposal) ` set (actions (pt_house t))) (linked_ids t i)"

lemma supersede_stops:
  assumes "supersede e d au n t = Inr (x, u)" and "pl_supersedes d = Some j" and "j \<noteq> []"
  shows "stopped (linked_ids t j) ''cancelled'' None (pt_house u) \<and>
    map (action_id \<circ> proposal) (actions (pt_house u)) = map (action_id \<circ> proposal) (actions (pt_house t))"
  using assms unfolding supersede_def Let_def by (auto elim!: rbind_InrE dest!: stop_unstarted_stops simp del: map_map)

lemma commit_stops:
  assumes "commit_plan e i dec pr mu t = Inr u"
    and m: "mu = Cancel_plan j \<or> mu = Put_plan True d as rt au \<and> pl_supersedes d = Some j \<and> j \<noteq> []"
  shows "stopped (known_links t j) ''cancelled'' None (pt_house u)"
proof -
  from assms(1) obtain mb n t1 where pe: "plan_event e (mutation_event mu) (mutation_payload e i dec mb pr mu) t = Inr (n, t1)" and b: "(case mu of
       Put_plan _ d as runtime autonomous \<Rightarrow> commit_put e d as runtime autonomous mb pr dec n t1
     | Cancel_plan j \<Rightarrow> rbind (get_plan t1 j) (\<lambda>w. commit_cancel e w dec n t1)
     | Approve_plan j budget \<Rightarrow> rbind (get_plan t1 j) (\<lambda>w. commit_approve e w budget mb pr n t1)) = Inr u"
    unfolding commit_plan_def by (auto elim!: rbind_InrE)
  from plan_event_house [OF pe] have k: "known_links t j = known_links t1 j" by (simp add: known_links_def linked_ids_def)
  show ?thesis
  proof (cases "mu = Cancel_plan j")
    case True
    with b obtain w t2 t3 where w: "get_plan t1 j = Inr w" and s: "save_job e w (PDict [(''state'', PStr ''cancelled''), (''next_retry'', PNone)])
       (\<lambda>j. j\<lparr>rj_state := ''cancelled'', rj_next := None\<rparr>) (Some dec) t1 = Inr t2"
      and st: "stop_unstarted e (pl_id (pw_doc w)) EXECUTION_CANCELLED ''cancelled'' None t2 = Inr t3" and u: "u = mark_plan w Abandoned n t3"
      unfolding commit_cancel_def by (auto elim!: rbind_InrE)
    have "stopped (linked_ids t2 j) ''cancelled'' None (pt_house t3)" using stop_unstarted_stops [OF st] get_plan_Inr [OF w] by simp
    moreover have "linked_ids t2 j = linked_ids t1 j" using save_job_house [OF s] by (simp add: linked_ids_def)
    ultimately show ?thesis unfolding k u by (auto intro: stopped_less simp: known_links_def)
  next
    case False
    with m b have c: "commit_put e d as rt au mb pr dec n t1 = Inr u" and j: "pl_supersedes d = Some j" "j \<noteq> []" by auto
    then obtain x t2 w t3 t4 where s: "supersede e d au n t1 = Inr (x, t2)" and ins: "insert_plan w t2 = Inr t3"
      and sv: "idle_job e w dec t3 = Inr t4" and li: "foldM (link_action e pr (pl_id d)) as t4 = Inr u"
      unfolding commit_put_def Let_def by (auto elim!: rbind_InrE)
    from ins have "pt_house t3 = pt_house t2" by (auto simp: insert_plan_def elim!: rbind_InrE)
    with sv have same: "actions (pt_house t4) = actions (pt_house t2)" "approvals (pt_house t4) = approvals (pt_house t2)"
      unfolding idle_job_def Let_def by (auto dest!: save_job_house)
    from supersede_stops [OF s j] have st: "stopped (linked_ids t1 j) ''cancelled'' None (pt_house t2)"
      and ids: "map (action_id \<circ> proposal) (actions (pt_house t2)) = map (action_id \<circ> proposal) (actions (pt_house t1))" by simp_all
    have "stopped (known_links t1 j) ''cancelled'' None (pt_house t4)"
      using stopped_less [OF st, of "known_links t1 j"] by (simp add: stopped_same [OF same] known_links_def)
    moreover have "set (known_links t1 j) \<subseteq> (action_id \<circ> proposal) ` set (actions (pt_house t4))"
      using arg_cong [OF ids, of set] unfolding same known_links_def by auto
    ultimately show ?thesis unfolding k using stopped_adds [OF _ link_actions_adds [OF li]] by blast
  qed
qed

section \<open>Holding never approves\<close>

lemma queue_refresh_rows:
  assumes "queue_refresh e w why ex fpr dec t = Inr u" and "v \<in> set (pt_plans u)"
  shows "v \<in> set (pt_plans t) \<or> pl_status (pw_doc v) = Refreshing"
proof -
  from queue_refreshE [OF assms(1)] show ?thesis
    using assms(2) by (auto simp: update_plan_def split: if_split_asm)
qed

lemma hold_rows:
  assumes "hold e a m why t = Inr u" and v: "v \<in> set (pt_plans u)"
  shows "v \<in> set (pt_plans t) \<or> pl_status (pw_doc v) = Refreshing"
proof -
  from assms(1) obtain t1 h where c: "(case plan_of a of None \<Rightarrow> Inr t | Some i \<Rightarrow> hold_plan e a i why t) = Inr t1" and u: "u = t1\<lparr>pt_house := h\<rparr>"
    unfolding hold_def by (auto elim!: rbind_InrE)
  show ?thesis
  proof (cases "plan_of a")
    case None
    with c u v show ?thesis by simp
  next
    case (Some i)
    with c obtain w t3 x where w: "get_plan t i = Inr w"
      and m: "(if pl_status (pw_doc w) \<in> TERMINAL then Inr t
            else rbind (stop_unstarted e i EXECUTION_HELD ''held'' None t) (\<lambda>t1.
              rbind (plan_event e EXECUTION_HELD [(''plan_id'', PStr i), (''status'', PStr ''refreshing''),
                (''trigger_action'', PStr (action_id a))] t1) (\<lambda>(n, t2). Inr (mark_plan w Refreshing n t2)))) = Inr t3"
      and q: "queue_refresh e x why False None None t3 = Inr t1"
      unfolding hold_plan_def by (auto elim!: rbind_InrE)
    have "x \<in> set (pt_plans t) \<or> pl_status (pw_doc x) = Refreshing" if "x \<in> set (pt_plans t3)" for x
    proof (cases "pl_status (pw_doc w) \<in> TERMINAL")
      case True
      with m that show ?thesis by simp
    next
      case False
      with m obtain n t2 where "pt_plans t2 = pt_plans t" and "t3 = mark_plan w Refreshing n t2"
        by (auto simp: rbind_Inr_iff dest!: plans_kept)
      with that show ?thesis by (auto simp: mark_plan_def update_plan_def split: if_split_asm)
    qed
    then show ?thesis using queue_refresh_rows [OF q] v u by auto
  qed
qed

section \<open>Consent and its money\<close>

lemma get_plan_row:
  assumes "plans_ok t" and "w \<in> set (pt_plans t)"
  shows "get_plan t (pl_id (pw_doc w)) = Inr w"
proof -
  obtain v where v: "find (\<lambda>v. pl_id (pw_doc v) = pl_id (pw_doc w)) (pt_plans t) = Some v"
    using assms(2) by (cases "find (\<lambda>v. pl_id (pw_doc v) = pl_id (pw_doc w)) (pt_plans t)") (auto simp: find_None_iff)
  from Tables.find_Some_iff [OF v] id_determines [OF assms] have "v = w" by blast
  with v show ?thesis by (simp add: get_plan_def of_opt_def)
qed

lemma prepare_approveE:
  assumes "prepare_approve e t w m pr b = Inr ()"
  obtains x c where "fresh e t w" and "pl_status (pw_doc w) = Proposed" and "find_action (pt_house t) b = Some x"
    and "grant_seq x \<noteq> None" and "ar_principal x = identity pr" and "action_class (proposal x) = ''energy.optimize_cost''"
    and "ar_cost x = Some c" and "dec_rat c = dec_rat (reservation e w)"
  using assms unfolding prepare_approve_def by (auto elim!: rbind_InrE simp: result_simps)

lemma allocateE:
  assumes "allocate e w b t = Inr u"
  obtains r date where "pw_runtime w = Some r"
    and "u = update_plan (pl_id (pw_doc w)) (\<lambda>v. v\<lparr>pw_reservation := Some (allocated e w r b date)\<rparr>) t"
  using assms unfolding allocate_def Let_def by (auto elim!: rbind_InrE simp: result_simps)

lemma reservation_estimates: "pw_runtime w = Some r \<Longrightarrow> reservation e w = interval_sum (estimates_of e w r)"
  by (simp add: reservation_def estimates_of_def split: option.split)

lemma approval_money:
  assumes ok: "plans_ok t" and p: "prepare_plan e t (Approve_plan j b) pr = Inr ()"
    and c: "commit_plan e i dec pr (Approve_plan j b) (t\<lparr>pt_house := h\<rparr>) = Inr u"
  shows "\<exists>x c v old new. find_action (pt_house t) b = Some x \<and> grant_seq x \<noteq> None \<and> ar_principal x = identity pr \<and> ar_cost x = Some c \<and>
    get_plan u j = Inr v \<and> pl_status (pw_doc v) = Plan_approved \<and> pw_approver v = Some (identity (scheduler_of pr)) \<and> pw_member v \<noteq> None \<and>
    map_option rv_allocations (pw_reservation v) = Some (old @ new) \<and> (\<forall>(_, g, _) \<in> set new. g = b) \<and>
    dec_rat (interval_sum (map fst new)) = dec_rat c"
proof -
  from c obtain mb n t1 w where k: "pt_plans t1 = pt_plans t" and w1: "get_plan t1 j = Inr w" and ca: "commit_approve e w b mb pr n t1 = Inr u"
    unfolding commit_plan_def by (auto elim!: rbind_InrE dest!: plans_kept)
  then have w: "get_plan t j = Inr w" by (simp add: get_plan_def)
  with p obtain m0 where "prepare_approve e t w m0 pr b = Inr ()" unfolding prepare_plan_def by (auto elim!: rbind_InrE)
  then obtain x c where x: "find_action (pt_house t) b = Some x" "grant_seq x \<noteq> None" "ar_principal x = identity pr" "ar_cost x = Some c"
    and c: "dec_rat c = dec_rat (reservation e w)" and st: "pl_status (pw_doc w) = Proposed"
    by (rule prepare_approveE)
  have ok1: "plans_ok t1" and in1: "w \<in> set (pt_plans t1)" using ok plans_ok_same [OF k] get_plan_Inr [OF w1] by simp_all
  let ?f = "\<lambda>q v. v\<lparr>pw_doc := (pw_doc w)\<lparr>pl_status := Plan_approved\<rparr>, pw_approver := Some (identity (scheduler_of pr)), pw_member := Some q, pw_seq := n\<rparr>"
  from ca obtain q where al: "allocate e w b (update_plan (pl_id (pw_doc w)) (?f q) t1) = Inr u"
    unfolding commit_approve_def by (auto elim!: rbind_InrE)
  then obtain r date where r: "pw_runtime w = Some r"
    and u: "u = update_plan (pl_id (pw_doc w)) (\<lambda>v. v\<lparr>pw_reservation := Some (allocated e w r b date)\<rparr>)
           (update_plan (pl_id (pw_doc w)) (?f q) t1)"
    by (rule allocateE)
  define old where "old = (case pw_reservation w of None \<Rightarrow> [] | Some v \<Rightarrow> rv_allocations v)"
  define new where "new = map (\<lambda>i. (i, b, date)) (estimates_of e w r)"
  define v where "v = (?f q w)\<lparr>pw_reservation := Some (allocated e w r b date)\<rparr>"
  have "dec_rat (interval_sum (map fst new)) = dec_rat c"
    using c reservation_estimates [OF r, of e] by (simp add: new_def comp_def)
  moreover have "plans_safe t1 u"
    by (rule commit_approve_safe [OF ok1 in1 st _ ca]) (simp add: r)
  then have "plans_ok u" by (simp add: plans_safe_def)
  moreover have "v \<in> set (pt_plans u)"
    unfolding u v_def using in1 by (force simp: update_plan_def)
  ultimately have "get_plan u (pl_id (pw_doc v)) = Inr v" using get_plan_row by blast
  moreover have "pl_id (pw_doc v) = j" using get_plan_Inr [OF w] by (simp add: v_def)
  moreover have "\<forall>(_, g, _) \<in> set new. g = b" by (auto simp: new_def)
  moreover note x
  ultimately show ?thesis using \<open>dec_rat (interval_sum (map fst new)) = dec_rat c\<close>
    by (intro exI [of _ x] exI [of _ c] exI [of _ v] exI [of _ old] exI [of _ new]) (simp add: v_def old_def new_def allocated_def)
qed

section \<open>A plan of one lamp\<close>

definition night_now :: int where "night_now = 1791930900000000"

definition night_env :: plan_env where
  "night_env = \<lparr>pe_plant = demo_plant, pe_now = night_now, pe_valid_runtime = (\<lambda>_ _. True),
     pe_estimates = (\<lambda>_. [(night_now, night_now + 3600000000, Dec 5 (- 1))]), pe_preserves = (\<lambda>_ _. True), pe_objective = (\<lambda>_. None),
     pe_fingerprint = (\<lambda>_ _. PDict []), pe_same_inputs = (\<lambda>x y. x = y), pe_decision = (\<lambda>_. Some ((unknown_decision quinn_home)\<lparr>d_kind := Kexecute\<rparr>)), pe_prepared = (\<lambda>_. PNone),
     pe_json = (\<lambda>d. PStr (pl_id d))\<rparr>"

definition night_action :: action where
  "night_action = (let a = lamp_action\<lparr>params := [(''on'', PBool True)], plan_id := Some ''p1'', scheduled_for := Some night_now,
     expected_effect := Some \<lparr>ef_entity = ''light.living_room'', ef_attr = ''on'', ef_value = PBool True, ef_by = night_now + 10000000\<rparr>\<rparr>
   in a\<lparr>content_hash := action_hash demo_H a\<rparr>)"

definition night_plan :: plan_doc where
  "night_plan = \<lparr>pl_id = ''p1'', pl_home = ''h'', pl_version = 1, pl_supersedes = None, pl_start = night_now, pl_end = night_now + 3600000000,
     pl_goals = [''cost''], pl_actions = [''a3''], pl_electricity = Dec 5 (- 1), pl_wear = Dec 0 0, pl_status = Proposed, pl_rest = PNone\<rparr>"

definition night_record :: plan_mutation where
  "night_record = Put_plan False night_plan [night_action] (Some PNone) False"

definition budget_request :: action where
  "budget_request = lamp_action\<lparr>action_id := ''plan-budget:p1'', action_class := ''energy.optimize_cost'',
     params := [(''plan_id'', PStr ''p1''), (''plan_hash'', PStr (demo_H (PStr ''p1'')))]\<rparr>"

text \<open>The home with a recorded grant of the budget.\<close>

definition granted_home :: house where
  "granted_home = (case write_event demo_plant night_now EXECUTE (\<lambda>_. PDict [(''budget'', PDict [(''local_date'', PInt 5)])]) lamp_house of
     Inl _ \<Rightarrow> lamp_house
   | Inr (n, h) \<Rightarrow> h\<lparr>actions := [(new_action_row budget_request app_user (Some (Dec 5 (- 1))))\<lparr>grant_seq := Some n\<rparr>]\<rparr>)"

definition pause :: "plan_tables \<Rightarrow> plan_tables" where
  "pause t = t\<lparr>pt_house := (pt_house t)\<lparr>home_paused := True\<rparr>\<rparr>"

text \<open>The planned action is assessed while the home is paused, and asked about.\<close>

definition question :: "plan_tables \<Rightarrow> (decision \<times> action_row \<times> plan_tables) result" where
  "question t = (let p = demo_plant; h = pt_house t in
     rbind (row h ''a3'') (\<lambda>r.
     rbind (assess_operation (H p) (secs p) (desk_of p h) (proposal r) (ar_principal r) (ar_cost r) [] night_now None None) (\<lambda>ev.
     rbind (ask p ''0'' ev (proposal r) (ar_principal r) (ar_cost r) night_now h) (\<lambda>(ev1, h1).
       Inr (ev_decision ev1, r, t\<lparr>pt_house := h1\<rparr>)))))"

text \<open>Recorded, approved, scheduled, asked about, parked, voted on, resumed; and cancelled instead of parked, then parked.\<close>

definition night_run ::
  "(plan_tables \<times> plan_tables \<times> plan_tables \<times> decision \<times> action_row \<times> plan_tables \<times> plan_tables \<times> house \<times> plan_row
     \<times> plan_tables \<times> plan_tables \<times> plan_tables) result"
where
  "night_run =
     rbind (commit_plan night_env ''g1'' 1 app_user night_record (no_plans granted_home)) (\<lambda>t0.
     rbind (commit_plan night_env ''g2'' 1 app_user (Approve_plan ''p1'' ''plan-budget:p1'') t0) (\<lambda>t1.
     rbind (schedule_approved night_env t1) (\<lambda>t2.
     rbind (question (pause t2)) (\<lambda>(d, r, t3).
     rbind (park night_env (proposal r) d ''m1'' t3) (\<lambda>t4.
     rbind (vote demo_plant ''apr_0'' app_user True night_now (pt_house t4)) (\<lambda>(_, h).
     rbind (get_plan t4 ''p1'') (\<lambda>w.
     rbind (resume night_env w ''a3'' ''apr_0'' (t4\<lparr>pt_house := h\<rparr>)) (\<lambda>t5.
     rbind (commit_plan night_env ''g3'' 1 app_user (Cancel_plan ''p1'') t3) (\<lambda>t6.
     rbind (park night_env (proposal r) d ''m1'' t6) (\<lambda>t7.
       Inr (t0, t1, t2, d, r, t3, t4, h, w, t5, t6, t7)))))))))))"

definition statuses :: "plan_tables \<Rightarrow> plan_status list" where
  "statuses t = map (\<lambda>w. pl_status (pw_doc w)) (pt_plans t)"

lemma night_ran:
  "case night_run of Inl _ \<Rightarrow> False
   | Inr (t0, t1, t2, d, r, t3, t4, h, w, t5, t6, t7) \<Rightarrow>
       prepare_plan night_env (no_plans granted_home) night_record app_user = Inr () \<and>
       prepare_plan night_env t0 (Approve_plan ''p1'' ''plan-budget:p1'') app_user = Inr () \<and>
       statuses t0 = [Proposed] \<and> statuses t3 = [Plan_approved] \<and> pl_status (pw_doc w) = Awaiting_approval \<and>
       statuses t5 = [Plan_approved] \<and> plan_ids t5 = [''p1''] \<and> statuses t6 = [Abandoned] \<and> statuses t7 = [Awaiting_approval] \<and>
       known_links t3 ''p1'' = [''a3''] \<and> plan_of (proposal r) = Some ''p1'' \<and>
       list_ex (\<lambda>x. action_id (proposal x) = ''a3'' \<and> attempt_seq x = None) (actions (pt_house t6))"
  by code_simp

lemma night_stages:
  obtains t0 t1 t2 d r t3 t4 h w t5 t6 t7 where
    "commit_plan night_env ''g1'' 1 app_user night_record (no_plans granted_home) = Inr t0"
    and "commit_plan night_env ''g2'' 1 app_user (Approve_plan ''p1'' ''plan-budget:p1'') t0 = Inr t1"
    and "schedule_approved night_env t1 = Inr t2" and "question (pause t2) = Inr (d, r, t3)"
    and "park night_env (proposal r) d ''m1'' t3 = Inr t4" and "get_plan t4 ''p1'' = Inr w"
    and "resume night_env w ''a3'' ''apr_0'' (t4\<lparr>pt_house := h\<rparr>) = Inr t5"
    and "commit_plan night_env ''g3'' 1 app_user (Cancel_plan ''p1'') t3 = Inr t6" and "park night_env (proposal r) d ''m1'' t6 = Inr t7"
    and "prepare_plan night_env (no_plans granted_home) night_record app_user = Inr ()"
    and "prepare_plan night_env t0 (Approve_plan ''p1'' ''plan-budget:p1'') app_user = Inr ()"
    and "statuses t0 = [Proposed]" and "statuses t3 = [Plan_approved]" and "pl_status (pw_doc w) = Awaiting_approval"
    and "statuses t5 = [Plan_approved]" and "plan_ids t5 = [''p1'']" and "statuses t6 = [Abandoned]" and "statuses t7 = [Awaiting_approval]"
    and "known_links t3 ''p1'' = [''a3'']" and "plan_of (proposal r) = Some ''p1''"
    and "list_ex (\<lambda>x. action_id (proposal x) = ''a3'' \<and> attempt_seq x = None) (actions (pt_house t6))"
proof -
  from night_ran obtain t0 t1 t2 d r t3 t4 h w t5 t6 t7 where n: "night_run = Inr (t0, t1, t2, d, r, t3, t4, h, w, t5, t6, t7)"
  proof (cases night_run)
    case (Inl a)
    from night_ran [unfolded Inl] show ?thesis by (simp only: sum.case)
  next
    case (Inr x)
    then show ?thesis using that by (cases x) auto
  qed
  note c = night_ran [unfolded n sum.case prod.case]
  from n show thesis
    unfolding night_run_def
    by (elim rbind_InrE) (use c in \<open>auto intro!: that split: prod.split_asm elim!: rbind_InrE\<close>)
qed

lemma question_plans: "question t = Inr (d, r, u) \<Longrightarrow> pt_plans u = pt_plans t \<and> (\<exists>h. u = t\<lparr>pt_house := h\<rparr>)"
  unfolding question_def Let_def by (auto elim!: rbind_InrE)

lemma night_recorded:
  assumes "commit_plan night_env ''g1'' 1 app_user night_record (no_plans granted_home) = Inr t0"
    and "prepare_plan night_env (no_plans granted_home) night_record app_user = Inr ()"
  shows "(plan_step True)\<^sup>*\<^sup>* (no_plans granted_home) t0"
proof -
  have "(no_plans granted_home)\<lparr>pt_house := granted_home\<rparr> = no_plans granted_home" by (simp add: no_plans_def)
  with mutated [OF assms(2), of "''g1''" 1 granted_home t0] assms(1) show ?thesis by auto
qed

lemma night_steps:
  obtains t0 t4 h w t5 where "(plan_step True)\<^sup>*\<^sup>* (no_plans granted_home) t0" and "(plan_step True)\<^sup>*\<^sup>* t0 (t4\<lparr>pt_house := h\<rparr>)"
    and "plan_step True (t4\<lparr>pt_house := h\<rparr>) t5" and "get_plan t4 ''p1'' = Inr w" and "resume night_env w ''a3'' ''apr_0'' (t4\<lparr>pt_house := h\<rparr>) = Inr t5"
    and "pl_status (pw_doc w) = Awaiting_approval" and "statuses t0 = [Proposed]" and "statuses t5 = [Plan_approved]" and "plan_ids t5 = [''p1'']"
proof (rule night_stages)
  fix t0 t1 t2 d r t3 t4 w h t5
  assume r0: "commit_plan night_env ''g1'' 1 app_user night_record (no_plans granted_home) = Inr t0"
    "commit_plan night_env ''g2'' 1 app_user (Approve_plan ''p1'' ''plan-budget:p1'') t0 = Inr t1"
    and s: "schedule_approved night_env t1 = Inr t2" and q: "question (pause t2) = Inr (d, r, t3)"
    and k: "park night_env (proposal r) d ''m1'' t3 = Inr t4" and w: "get_plan t4 ''p1'' = Inr w"
    and u: "resume night_env w ''a3'' ''apr_0'' (t4\<lparr>pt_house := h\<rparr>) = Inr t5"
    and p: "prepare_plan night_env (no_plans granted_home) night_record app_user = Inr ()"
      "prepare_plan night_env t0 (Approve_plan ''p1'' ''plan-budget:p1'') app_user = Inr ()"
    and st: "statuses t3 = [Plan_approved]" "pl_status (pw_doc w) = Awaiting_approval" "statuses t0 = [Proposed]" "statuses t5 = [Plan_approved]" "plan_ids t5 = [''p1'']"
  have 0: "(plan_step True)\<^sup>*\<^sup>* (no_plans granted_home) t0" using r0(1) p(1) by (rule night_recorded)
  have 1: "plan_step True t0 t1" using mutated [OF p(2), of "''g2''" 1 "pt_house t0" t1] r0(2) by simp
  have 2: "plan_step True t1 t2" using s by (rule scheduling)
  obtain h3 where "t3 = t2\<lparr>pt_house := h3\<rparr>" using question_plans [OF q] by (auto simp: pause_def)
  then have 3: "plan_step True t2 t3" using house_moves by simp
  have "pl_status (pw_doc v) \<in> consented" if "get_plan t3 i = Inr v" for i v
    using get_plan_Inr [OF that] st(1) by (auto simp: statuses_def consented_def map_eq_Cons_conv)
  then have 4: "plan_step True t3 t4" using k by (rule parked)
  have 5: "plan_step True t4 (t4\<lparr>pt_house := h\<rparr>)" by (rule house_moves)
  have 6: "plan_step True (t4\<lparr>pt_house := h\<rparr>) t5" using w u by (intro resumed [of _ "''p1''" w]) (simp_all add: get_plan_def)
  have "(plan_step True)\<^sup>*\<^sup>* t0 (t4\<lparr>pt_house := h\<rparr>)" using 1 2 3 4 5 by (meson converse_rtranclp_into_rtranclp rtranclp.rtrancl_refl)
  then show thesis using 0 6 w u st by (intro that [of t0 h t4 t5 w]) auto
qed

section \<open>Properties\<close>

text \<open>C10: one live plan, as long as an action is parked only while its plan is in force. In every state that
  records, revisions, approvals, cancellations, refresh commands, detections, holds, resumptions, scheduling,
  completion and such pauses can reach, whatever the pipeline does to the house in between: plan identifiers are distinct; a plan that is not superseded, completed or abandoned has the
  highest version of its lineage, so that a lineage has at most one; and a plan that was ever in force
  has an approver, the approver's member and runtime inputs. The proviso is not the code's:
  \<open>await_approval\<close> does not check it, and \<open>cancelled_plan_revived\<close> shows a stopped plan come back.\<close>

theorem one_live_plan:
  assumes "(plan_step True)\<^sup>*\<^sup>* (no_plans h) t"
  shows "distinct (plan_ids t) \<and>
    (\<forall>w \<in> set (pt_plans t). \<forall>v \<in> set (pt_plans t). live w \<longrightarrow> lineage_of v = lineage_of w \<longrightarrow>
       v = w \<or> \<not> live v \<and> pl_version (pw_doc v) < pl_version (pw_doc w)) \<and>
    (\<forall>w \<in> set (pt_plans t). pl_status (pw_doc w) \<in> {Plan_approved, Active, Awaiting_approval, Completed} \<longrightarrow>
       pw_approver w \<noteq> None \<and> pw_member w \<noteq> None \<and> pw_runtime w \<noteq> None)"
proof -
  have ok: "plans_ok t" using assms by (rule planned_ok)
  have "v = w \<or> \<not> live v \<and> pl_version (pw_doc v) < pl_version (pw_doc w)"
    if "w \<in> set (pt_plans t)" "v \<in> set (pt_plans t)" "live w" "lineage_of v = lineage_of w" for w v
  proof (cases "v = w")
    case False
    have "newest w (pt_plans t)" and "live v \<Longrightarrow> newest v (pt_plans t)" using ok that unfolding plans_ok_def by blast+
    with that False show ?thesis unfolding newest_def by (metis less_asym)
  qed simp
  moreover have "distinct (plan_ids t)" and "\<forall>w \<in> set (pt_plans t). plan_ok w" using ok by (simp_all add: plans_ok_def)
  ultimately show ?thesis by (simp add: plan_ok_def consented_def)
qed

theorem one_live_plan_witness:
  "\<exists>t. (plan_step True)\<^sup>*\<^sup>* (no_plans granted_home) t \<and> statuses t = [Plan_approved] \<and> distinct (plan_ids t) \<and>
     list_all (\<lambda>w. pw_approver w \<noteq> None) (pt_plans t)"
proof (rule night_steps)
  fix t0 t4 h t5
  assume "(plan_step True)\<^sup>*\<^sup>* (no_plans granted_home) t0" "(plan_step True)\<^sup>*\<^sup>* t0 (t4\<lparr>pt_house := h\<rparr>)" "plan_step True (t4\<lparr>pt_house := h\<rparr>) t5"
    and st: "statuses t5 = [Plan_approved]"
  then have r: "(plan_step True)\<^sup>*\<^sup>* (no_plans granted_home) t5" by (meson rtranclp.rtrancl_into_rtrancl rtranclp_trans)
  from st one_live_plan [OF r] have "distinct (plan_ids t5)" "list_all (\<lambda>w. pw_approver w \<noteq> None) (pt_plans t5)"
    by (auto simp: statuses_def list_all_iff map_eq_Cons_conv)
  with r st show ?thesis by blast
qed

text \<open>C12: what a plan may become, as long as an action is parked only while its plan is in force. A recorded
  plan is never lost: in every later state it has its document but for the status, its lineage and its instant of
  acceptance; a requester once named stays; runtime inputs, which refresh commands may rewrite, are never taken
  away; and its status has moved along the life cycle: out of proposed once, out of refreshing only by replacement
  or cancellation, and out of a terminal status only to abandoned. Without the proviso, which \<open>await_approval\<close>
  does not check, a terminal plan can be put back to waiting (\<open>cancelled_plan_revived\<close>).\<close>

theorem plan_path:
  assumes "(plan_step True)\<^sup>*\<^sup>* (no_plans h) t" and "(plan_step True)\<^sup>*\<^sup>* t u" and "w \<in> set (pt_plans t)"
  shows "\<exists>v \<in> set (pt_plans u). (pw_doc v)\<lparr>pl_status := Proposed\<rparr> = (pw_doc w)\<lparr>pl_status := Proposed\<rparr> \<and>
     moves (pl_status (pw_doc w)) (pl_status (pw_doc v)) \<and> pw_lineage v = pw_lineage w \<and> pw_accepted v = pw_accepted w \<and>
     (pw_runtime w \<noteq> None \<longrightarrow> pw_runtime v \<noteq> None) \<and> (pw_requester w \<noteq> None \<longrightarrow> pw_requester v = pw_requester w)"
  using grows_member [OF planning.runs_ext [OF assms(2) planned_ok [OF assms(1)], unfolded plans_grow_def] assms(3)]
  unfolding same_plan_def .

theorem plan_path_witness:
  "\<exists>t u w v. (plan_step True)\<^sup>*\<^sup>* t u \<and> statuses t = [Proposed] \<and> statuses u = [Plan_approved] \<and> w \<in> set (pt_plans t) \<and> v \<in> set (pt_plans u) \<and>
     moves (pl_status (pw_doc w)) (pl_status (pw_doc v)) \<and> pw_lineage v = pw_lineage w"
proof (rule night_steps)
  fix t0 t4 h t5
  assume r: "(plan_step True)\<^sup>*\<^sup>* (no_plans granted_home) t0" and s: "(plan_step True)\<^sup>*\<^sup>* t0 (t4\<lparr>pt_house := h\<rparr>)" "plan_step True (t4\<lparr>pt_house := h\<rparr>) t5"
    and st: "statuses t0 = [Proposed]" "statuses t5 = [Plan_approved]"
  have s: "(plan_step True)\<^sup>*\<^sup>* t0 t5" using s by (rule rtranclp.rtrancl_into_rtrancl)
  from st(1) obtain w where w: "w \<in> set (pt_plans t0)" by (auto simp: statuses_def map_eq_Cons_conv)
  from plan_path [OF r s w] obtain v where "v \<in> set (pt_plans u)" "moves (pl_status (pw_doc w)) (pl_status (pw_doc v))" "pw_lineage v = pw_lineage w"
    if "u = t5" for u by blast
  with s st w show ?thesis by blast
qed

text \<open>C9: a stop is complete. When a plan is cancelled, or superseded by a revision, every action linked to
  it that was not attempted is cancelled or was skipped, and no question about one of them is still open:
  neither a vote nor the worker can start it.\<close>

theorem stopped_plan_cannot_start:
  assumes "commit_plan e i dec pr mu t = Inr u"
    and "mu = Cancel_plan j \<or> mu = Put_plan True d as rt au \<and> pl_supersedes d = Some j \<and> j \<noteq> []"
    and "x \<in> set (actions (pt_house u))" and "action_id (proposal x) \<in> set (known_links t j)" and "attempt_seq x = None"
  shows "execution_status x \<in> {Some ''cancelled'', Some ''skipped''} \<and>
    (\<forall>v \<in> set (approvals (pt_house u)). ap_action_id v = action_id (proposal x) \<longrightarrow> ap_status v \<notin> {Pending, Approved})"
  using commit_stops [OF assms(1,2)] assms(3-5) unfolding stopped_def open_status_def by (metis option.distinct(1))

theorem stopped_plan_cannot_start_witness:
  "\<exists>t u x. commit_plan night_env ''g3'' 1 app_user (Cancel_plan ''p1'') t = Inr u \<and> known_links t ''p1'' = [''a3''] \<and>
     x \<in> set (actions (pt_house u)) \<and> action_id (proposal x) = ''a3'' \<and> execution_status x \<in> {Some ''cancelled'', Some ''skipped''}"
proof (rule night_stages)
  fix t3 t6
  assume c: "commit_plan night_env ''g3'' 1 app_user (Cancel_plan ''p1'') t3 = Inr t6" and k: "known_links t3 ''p1'' = [''a3'']"
    and "list_ex (\<lambda>x. action_id (proposal x) = ''a3'' \<and> attempt_seq x = None) (actions (pt_house t6))"
  then obtain x where x: "x \<in> set (actions (pt_house t6))" "action_id (proposal x) = ''a3''" "attempt_seq x = None" by (auto simp: list_ex_iff)
  from stopped_plan_cannot_start [OF c disjI1 [OF refl] x(1) _ x(3)] k x(2)
  have "execution_status x \<in> {Some ''cancelled'', Some ''skipped''}" by simp
  with c k x show ?thesis by blast
qed

text \<open>C11: consent is paid for. When a prepared approval is committed, the named budget action was granted
  to the same person for the plan's estimated amount, exactly; the plan is then approved with that person
  as its scheduling approver, and the reservation it carries adds intervals of that same total, each
  bound to that grant.\<close>

theorem approval_is_paid:
  assumes "(plan_step True)\<^sup>*\<^sup>* (no_plans h0) t" and "prepare_plan e t (Approve_plan j b) pr = Inr ()"
    and "commit_plan e i dec pr (Approve_plan j b) (t\<lparr>pt_house := h\<rparr>) = Inr u"
  shows "\<exists>x c v old new. find_action (pt_house t) b = Some x \<and> grant_seq x \<noteq> None \<and> ar_principal x = identity pr \<and> ar_cost x = Some c \<and>
    get_plan u j = Inr v \<and> pl_status (pw_doc v) = Plan_approved \<and> pw_approver v = Some (identity (scheduler_of pr)) \<and> pw_member v \<noteq> None \<and>
    map_option rv_allocations (pw_reservation v) = Some (old @ new) \<and> (\<forall>(_, g, _) \<in> set new. g = b) \<and>
    dec_rat (interval_sum (map fst new)) = dec_rat c"
  by (rule approval_money [OF planned_ok [OF assms(1)] assms(2,3)])

theorem approval_is_paid_witness:
  "\<exists>t u v x. commit_plan night_env ''g2'' 1 app_user (Approve_plan ''p1'' ''plan-budget:p1'') t = Inr u \<and> get_plan u ''p1'' = Inr v \<and>
     pl_status (pw_doc v) = Plan_approved \<and> find_action (pt_house t) ''plan-budget:p1'' = Some x \<and> ar_cost x \<noteq> None"
proof (rule night_stages)
  fix t0 t1
  assume r: "commit_plan night_env ''g1'' 1 app_user night_record (no_plans granted_home) = Inr t0"
      "prepare_plan night_env (no_plans granted_home) night_record app_user = Inr ()"
    and p: "prepare_plan night_env t0 (Approve_plan ''p1'' ''plan-budget:p1'') app_user = Inr ()"
    and c: "commit_plan night_env ''g2'' 1 app_user (Approve_plan ''p1'' ''plan-budget:p1'') t0 = Inr t1"
  from c have "commit_plan night_env ''g2'' 1 app_user (Approve_plan ''p1'' ''plan-budget:p1'') (t0\<lparr>pt_house := pt_house t0\<rparr>) = Inr t1" by simp
  from approval_is_paid [OF night_recorded [OF r] p this] c show ?thesis by (elim exE conjE) (intro exI conjI, assumption+, simp)
qed

section \<open>A cancelled plan comes back\<close>

text \<open>
  Between the transaction that decides to ask and the one that parks the action, the plan can be
  cancelled; \<open>await_approval\<close> does not look at the status and puts the abandoned plan back to waiting.
\<close>

lemma cancelled_plan_revived:
  "\<exists>t a d u. statuses t = [Abandoned] \<and> park night_env a d ''m1'' t = Inr u \<and> statuses u = [Awaiting_approval]"
  by (rule night_stages) blast

text \<open>
  A version that was superseded can still be cancelled, and its cancellation marks the job of the whole
  lineage: no plan of the lineage is fresh then, also the one that replaced it.
\<close>

lemma cancel_any_status: "prepare_cancel (put_status st w) m pr = prepare_cancel w m pr"
  by (simp add: prepare_cancel_def put_status_def)

lemma find_last: "\<forall>x \<in> set xs. \<not> P x \<Longrightarrow> P y \<Longrightarrow> find P (xs @ [y]) = Some y"
  by (induction xs) auto

lemma find_job_update:
  assumes "find (\<lambda>j. rj_lineage j = l) js = Some j" and "\<And>j. rj_lineage (g j) = rj_lineage j"
  shows "find (\<lambda>j. rj_lineage j = l) (map (\<lambda>j. if rj_lineage j = l then g j else j) js) = Some (g j)"
  using assms(1) by (induction js) (auto simp: assms(2) split: if_split_asm)

lemma saved_state:
  assumes "save_job e w vs (\<lambda>j. j\<lparr>rj_state := st, rj_next := None\<rparr>) d t = Inr u"
  shows "\<exists>j. find (\<lambda>j. rj_lineage j = lineage_of w) (pt_jobs u) = Some j \<and> rj_state j = st"
proof -
  from assms obtain n t1 where p: "pt_jobs t1 = pt_jobs t" and u: "u = (if job_for t w \<noteq> None
       then t1\<lparr>pt_jobs := map (\<lambda>j. if rj_lineage j = lineage_of w then (j\<lparr>rj_state := st, rj_next := None\<rparr>)\<lparr>rj_seq := n\<rparr> else j) (pt_jobs t1)\<rparr>
       else t1\<lparr>pt_jobs := pt_jobs t1 @ [((new_refresh_job w)\<lparr>rj_state := st, rj_next := None\<rparr>)\<lparr>rj_seq := n\<rparr>]\<rparr>)"
    unfolding save_job_def by (auto elim!: rbind_InrE dest!: plan_event_house)
  show ?thesis
  proof (cases "job_for t w")
    case None
    then have "\<forall>j \<in> set (pt_jobs t). rj_lineage j \<noteq> lineage_of w" by (simp add: job_for_def find_None_iff)
    then show ?thesis using None by (simp add: u p new_refresh_job_def find_last)
  next
    case (Some j)
    then have "find (\<lambda>j. rj_lineage j = lineage_of w) (pt_jobs t) = Some j" by (simp add: job_for_def)
    from find_job_update [OF this, of "\<lambda>j. (j\<lparr>rj_state := st, rj_next := None\<rparr>)\<lparr>rj_seq := n\<rparr>"] Some
    show ?thesis by (simp add: u p)
  qed
qed

lemma cancel_blocks_lineage:
  assumes "commit_cancel e w dec n t = Inr u" and "lineage_of v = lineage_of w"
  shows "\<not> fresh e' u v"
proof -
  let ?f = "\<lambda>j. j\<lparr>rj_state := ''cancelled'', rj_next := None\<rparr>"
  from assms(1) obtain t1 t2 where s: "save_job e w (PDict [(''state'', PStr ''cancelled''), (''next_retry'', PNone)]) ?f (Some dec) t = Inr t1"
    and st: "stop_unstarted e (pl_id (pw_doc w)) EXECUTION_CANCELLED ''cancelled'' None t1 = Inr t2" and u: "u = mark_plan w Abandoned n t2"
    unfolding commit_cancel_def by (auto elim!: rbind_InrE)
  from st have "pt_jobs u = pt_jobs t1" by (auto simp: u stop_unstarted_def Let_def elim!: rbind_InrE)
  moreover from s obtain j where "find (\<lambda>j. rj_lineage j = lineage_of w) (pt_jobs t1) = Some j" "rj_state j = ''cancelled''"
    using saved_state by metis
  ultimately show ?thesis using assms(2) by (simp add: fresh_def job_for_def)
qed

end
